(* ===== verification/Prelude.thy ===== *)
theory Prelude
  imports Main "HOL-Library.Word"
begin

text \<open>
  Shared types, the result type of code that may fail, C++ arrays, the models of
  \<open>std::map\<close> and \<open>std::set\<close>, and \<open>std::to_string\<close>.

  \<^item> \<open>unsigned int\<close> is \<open>32 word\<close> (arithmetic wraps), \<open>uint8_t\<close> and \<open>unsigned char\<close>
    are \<open>8 word\<close>, a \<open>std::string\<close> is the list of its bytes.
  \<^item> A C++ operation that can fail returns \<open>error + 'a\<close>: \<open>Inl\<close> names the failure
    (an uncaught exception, an access outside an array or vector, a value-returning
    function that ends without \<open>return\<close>, a loop that does not end).
  \<^item> \<open>std::map\<close> is an association list in key order, \<open>std::set\<close> a list in the order
    of its comparison, so iteration order is the code's.
\<close>

type_synonym u8 = "8 word"
type_synonym u32 = "32 word"
type_synonym bytes = "u8 list"

named_theorems model_simps \<open>unfolding facts of the component models\<close>
named_theorems res_intros \<open>introduction rules for successful results\<close>

section \<open>Results\<close>

datatype error =
    RuntimeError   \<comment> \<open>an uncaught \<open>std::runtime_error\<close>\<close>
  | OutOfBounds    \<comment> \<open>an unchecked access outside an array or vector\<close>
  | MissingReturn  \<comment> \<open>control reaches the end of a non-void function\<close>
  | Undefined      \<comment> \<open>a null pointer is used, or a library function gets a value outside its range\<close>
  | Diverges       \<comment> \<open>the loop or recursion does not end within the given fuel\<close>

type_synonym 'a res = "error + 'a"

definition bindE :: "'a res \<Rightarrow> ('a \<Rightarrow> 'b res) \<Rightarrow> 'b res" where
  "bindE m f = (case m of Inl e \<Rightarrow> Inl e | Inr x \<Rightarrow> f x)"

lemma bindE_simps [simp]:
  "bindE (Inl e) f = Inl e"
  "bindE (Inr x) f = f x"
  by (simp_all add: bindE_def)

lemma bindE_Inr_iff: "bindE m f = Inr y \<longleftrightarrow> (\<exists>x. m = Inr x \<and> f x = Inr y)"
  by (cases m) auto

lemma bindE_Inl_iff: "bindE m f = Inl e \<longleftrightarrow> m = Inl e \<or> (\<exists>x. m = Inr x \<and> f x = Inl e)"
  by (cases m) auto

lemma bindE_assoc: "bindE (bindE m f) g = bindE m (\<lambda>x. bindE (f x) g)"
  by (cases m) auto

lemma bindE_Inr_right [simp]: "bindE m Inr = m"
  by (cases m) auto

lemma bindE_cong [fundef_cong]:
  "m = m' \<Longrightarrow> (\<And>x. m' = Inr x \<Longrightarrow> f x = f' x) \<Longrightarrow> bindE m f = bindE m' f'"
  by (cases m') auto

lemma bindE_if: "bindE (if b then m else m') f = (if b then bindE m f else bindE m' f)"
  by simp

lemma bindE_not_Diverges:
  "m \<noteq> Inl Diverges \<Longrightarrow> (\<And>x. m = Inr x \<Longrightarrow> f x \<noteq> Inl Diverges) \<Longrightarrow> bindE m f \<noteq> Inl Diverges"
  by (cases m) auto

lemmas bindE_iffs = bindE_Inr_iff bindE_Inl_iff

text \<open>\<open>ends_in K m\<close>: \<open>m\<close> ends, and if it ends without an error, then with a result in \<open>K\<close>.\<close>

definition ends_in :: "('a \<Rightarrow> bool) \<Rightarrow> 'a res \<Rightarrow> bool" where
  "ends_in K m \<longleftrightarrow> m \<noteq> Inl Diverges \<and> (\<forall>x. m = Inr x \<longrightarrow> K x)"

lemma ends_in_Inr [simp]: "ends_in K (Inr x) \<longleftrightarrow> K x"
  by (simp add: ends_in_def)

lemma ends_in_bind:
  "m \<noteq> Inl Diverges \<Longrightarrow> (\<And>x. m = Inr x \<Longrightarrow> ends_in K (f x)) \<Longrightarrow> ends_in K (bindE m f)"
  by (cases m) (auto simp: ends_in_def)

lemma ends_in_bind_pair:
  "m \<noteq> Inl Diverges \<Longrightarrow> (\<And>a b. m = Inr (a, b) \<Longrightarrow> ends_in K (f a b)) \<Longrightarrow> ends_in K (bindE m (\<lambda>(a, b). f a b))"
  by (rule ends_in_bind) auto

lemma ends_in_seq: "ends_in J m \<Longrightarrow> (\<And>x. J x \<Longrightarrow> ends_in K (f x)) \<Longrightarrow> ends_in K (bindE m f)"
  by (cases m) (auto simp: ends_in_def)

lemma ends_in_if: "(b \<Longrightarrow> ends_in K x) \<Longrightarrow> (\<not> b \<Longrightarrow> ends_in K y) \<Longrightarrow> ends_in K (if b then x else y)"
  by simp

lemma ends_in_mono: "ends_in J m \<Longrightarrow> (\<And>x. J x \<Longrightarrow> K x) \<Longrightarrow> ends_in K m"
  by (auto simp: ends_in_def)

text \<open>\<open>gives K m\<close>: if \<open>m\<close> ends without an error, then with a result in \<open>K\<close>.\<close>

definition gives :: "('a \<Rightarrow> bool) \<Rightarrow> 'a res \<Rightarrow> bool" where
  "gives K m \<longleftrightarrow> (\<forall>x. m = Inr x \<longrightarrow> K x)"

lemma gives_bind: "gives J m \<Longrightarrow> (\<And>x. J x \<Longrightarrow> gives K (f x)) \<Longrightarrow> gives K (bindE m f)"
  by (auto simp: gives_def bindE_Inr_iff)

lemma gives_any: "gives (\<lambda>_. True) m"
  by (simp add: gives_def)

lemma gives_if: "(b \<Longrightarrow> gives K x) \<Longrightarrow> (\<not> b \<Longrightarrow> gives K y) \<Longrightarrow> gives K (if b then x else y)"
  by simp

lemma gives_mono: "gives J m \<Longrightarrow> (\<And>x. J x \<Longrightarrow> K x) \<Longrightarrow> gives K m"
  by (simp add: gives_def)

lemma gives_Inr [simp]: "gives K (Inr x) = K x" and gives_Inl [simp]: "gives K (Inl e)"
  by (simp_all add: gives_def)

section \<open>Arrays and vectors\<close>

text \<open>\<open>a[i]\<close> read and written without a bounds check, as \<open>operator[]\<close> does.\<close>

definition arr_get :: "'a list \<Rightarrow> nat \<Rightarrow> 'a res" where
  "arr_get xs i = (if i < length xs then Inr (xs ! i) else Inl OutOfBounds)"

definition arr_set :: "'a list \<Rightarrow> nat \<Rightarrow> 'a \<Rightarrow> 'a list res" where
  "arr_set xs i x = (if i < length xs then Inr (xs[i := x]) else Inl OutOfBounds)"

text \<open>The elements a loop \<open>for (i = 0; i < n; i++)\<close> reads, in order.\<close>

definition arr_prefix :: "'a list \<Rightarrow> nat \<Rightarrow> 'a list res" where
  "arr_prefix xs n = (if n \<le> length xs then Inr (take n xs) else Inl OutOfBounds)"

lemma arr_get_Inr_iff: "arr_get xs i = Inr x \<longleftrightarrow> i < length xs \<and> x = xs ! i"
  by (auto simp: arr_get_def)

lemma arr_set_Inr_iff: "arr_set xs i x = Inr ys \<longleftrightarrow> i < length xs \<and> ys = xs[i := x]"
  by (auto simp: arr_set_def)

lemma arr_prefix_Inr_iff: "arr_prefix xs n = Inr ys \<longleftrightarrow> n \<le> length xs \<and> ys = take n xs"
  by (auto simp: arr_prefix_def)

lemma arr_get_ok [simp]: "i < length xs \<Longrightarrow> arr_get xs i = Inr (xs ! i)"
  by (simp add: arr_get_def)

lemma arr_set_ok [simp]: "i < length xs \<Longrightarrow> arr_set xs i x = Inr (xs[i := x])"
  by (simp add: arr_set_def)

lemma arr_prefix_ok [simp]: "n \<le> length xs \<Longrightarrow> arr_prefix xs n = Inr (take n xs)"
  by (simp add: arr_prefix_def)

lemma arr_not_Diverges [simp]:
  "arr_get xs i \<noteq> Inl Diverges"
  "arr_set xs i x \<noteq> Inl Diverges"
  "arr_prefix xs i \<noteq> Inl Diverges"
  by (simp_all add: arr_get_def arr_set_def arr_prefix_def)

lemmas arr_iffs = arr_get_Inr_iff arr_set_Inr_iff arr_prefix_Inr_iff

text \<open>\<open>std::vector::resize\<close>: cut, or padded with default elements.\<close>

definition vec_resize :: "'a \<Rightarrow> 'a list \<Rightarrow> nat \<Rightarrow> 'a list" where
  "vec_resize d xs n = take n xs @ replicate (n - length xs) d"

lemma length_vec_resize [simp]: "length (vec_resize d xs n) = n"
  by (simp add: vec_resize_def)

lemma nth_vec_resize:
  "i < n \<Longrightarrow> vec_resize d xs n ! i = (if i < length xs then xs ! i else d)"
  by (auto simp: vec_resize_def nth_append)

section \<open>std::map\<close>

type_synonym ('k, 'v) stdmap = "('k \<times> 'v) list"

text \<open>\<open>m[k] = v\<close>: overwrite the entry of \<open>k\<close>, or insert it at its place in key order.\<close>

fun map_set :: "'k::linorder \<Rightarrow> 'v \<Rightarrow> ('k, 'v) stdmap \<Rightarrow> ('k, 'v) stdmap" where
  "map_set k v [] = [(k, v)]"
| "map_set k v ((k', v') # m) =
     (if k < k' then (k, v) # (k', v') # m
      else if k = k' then (k, v) # m
      else (k', v') # map_set k v m)"

text \<open>\<open>m.find(k)\<close>.\<close>

definition map_find :: "('k, 'v) stdmap \<Rightarrow> 'k \<Rightarrow> 'v option" where
  "map_find m k = map_of m k"

text \<open>\<open>m[k]\<close> as a read: a missing key is inserted with a default value.\<close>

definition map_at :: "'v \<Rightarrow> ('k::linorder, 'v) stdmap \<Rightarrow> 'k \<Rightarrow> 'v \<times> ('k, 'v) stdmap" where
  "map_at d m k = (case map_find m k of Some v \<Rightarrow> (v, m) | None \<Rightarrow> (d, map_set k d m))"

text \<open>The key order that \<open>std::map\<close> maintains.\<close>

definition map_ok :: "('k::linorder, 'v) stdmap \<Rightarrow> bool" where
  "map_ok m \<longleftrightarrow> sorted_wrt (<) (map fst m)"

text \<open>The interface of \<open>std::map\<close> that the components rely on.\<close>

locale key_map =
  fixes find :: "'m \<Rightarrow> 'k \<Rightarrow> 'v option"
    and upd :: "'k \<Rightarrow> 'v \<Rightarrow> 'm \<Rightarrow> 'm"
    and emp :: "'m"
    and ok :: "'m \<Rightarrow> bool"
  assumes find_emp: "find emp k = None"
    and find_upd: "find (upd k v m) k' = (if k' = k then Some v else find m k')"
    and ok_emp: "ok emp"
    and ok_upd: "ok m \<Longrightarrow> ok (upd k v m)"
begin

lemma find_upd_same: "find (upd k v m) k = Some v"
  by (simp add: find_upd)

lemma find_upd_other: "k' \<noteq> k \<Longrightarrow> find (upd k v m) k' = find m k'"
  by (simp add: find_upd)

lemma find_foldr_upd:
  "find (foldr (\<lambda>(k, v). upd k v) kvs m) k = (case map_of kvs k of Some v \<Rightarrow> Some v | None \<Rightarrow> find m k)"
  by (induction kvs) (auto simp: find_upd)

lemma ok_foldr_upd: "ok m \<Longrightarrow> ok (foldr (\<lambda>(k, v). upd k v) kvs m)"
  by (induction kvs) (auto intro: ok_upd)

end

lemma map_find_set [simp]: "map_find (map_set k v m) k' = (if k' = k then Some v else map_find m k')"
  unfolding map_find_def by (induction k v m rule: map_set.induct) auto

lemma set_map_fst_map_set: "fst ` set (map_set k v m) = insert k (fst ` set m)"
  by (induction k v m rule: map_set.induct) auto

lemma map_set_subset: "set (map_set k v m) \<subseteq> insert (k, v) (set m)"
  by (induction k v m rule: map_set.induct) auto

lemma map_ok_Nil [simp]: "map_ok []"
  by (simp add: map_ok_def)

lemma map_ok_map_set [simp]: "map_ok m \<Longrightarrow> map_ok (map_set k v m)"
  unfolding map_ok_def
proof (induction k v m rule: map_set.induct)
  case (2 k v k' v' m)
  then show ?case
    using set_map_fst_map_set [of k v m] by (auto simp: image_iff)
qed simp

lemma map_find_Nil [simp]: "map_find [] k = None"
  by (simp add: map_find_def)

lemma map_find_Cons [simp]: "map_find ((k', v) # m) k = (if k = k' then Some v else map_find m k)"
  by (simp add: map_find_def)

interpretation stdmap: key_map map_find map_set "[]" map_ok
  by unfold_locales simp_all

lemma map_find_in_set: "map_find m k = Some v \<Longrightarrow> (k, v) \<in> set m"
  by (simp add: map_find_def map_of_SomeD)

lemma map_find_Some_iff: "map_ok m \<Longrightarrow> map_find m k = Some v \<longleftrightarrow> (k, v) \<in> set m"
  by (metis map_find_def map_ok_def map_of_eq_Some_iff strict_sorted_iff)

lemma map_find_None_iff: "map_find m k = None \<longleftrightarrow> k \<notin> fst ` set m"
  by (simp add: map_find_def map_of_eq_None_iff)

lemma length_map_set:
  "map_ok m \<Longrightarrow> length (map_set k v m) = (if map_find m k = None then Suc (length m) else length m)"
  unfolding map_ok_def map_find_def
proof (induction k v m rule: map_set.induct)
  case (2 k v k' v' m)
  then show ?case
    by (cases "k = k'") (auto simp: map_of_eq_None_iff)
qed simp

lemma map_at_simps [simp]:
  "map_find (snd (map_at d m k)) k' = (if k' = k then Some (fst (map_at d m k)) else map_find m k')"
  "map_ok m \<Longrightarrow> map_ok (snd (map_at d m k))"
  by (auto simp: map_at_def split: option.splits)

section \<open>std::set\<close>

text \<open>
  \<open>s.insert(x)\<close>: nothing happens when the set holds an element equivalent to \<open>x\<close>
  (neither is less than the other), otherwise \<open>x\<close> goes to its place in the order.
\<close>

fun set_insert :: "('a \<Rightarrow> 'a \<Rightarrow> bool) \<Rightarrow> 'a \<Rightarrow> 'a list \<Rightarrow> 'a list" where
  "set_insert lt x [] = [x]"
| "set_insert lt x (y # ys) =
     (if lt x y then x # y # ys
      else if lt y x then y # set_insert lt x ys
      else y # ys)"

text \<open>What \<open>std::set\<close> requires of \<open>operator<\<close>: a strict weak order.\<close>

locale strict_weak_order =
  fixes lt :: "'a \<Rightarrow> 'a \<Rightarrow> bool"
  assumes lt_irrefl: "\<not> lt x x"
    and lt_trans: "lt x y \<Longrightarrow> lt y z \<Longrightarrow> lt x z"
    and equiv_trans: "\<not> lt x y \<Longrightarrow> \<not> lt y x \<Longrightarrow> \<not> lt y z \<Longrightarrow> \<not> lt z y \<Longrightarrow> \<not> lt x z"
begin

lemma lt_asym: "lt x y \<Longrightarrow> \<not> lt y x"
  using lt_irrefl lt_trans by blast

lemma not_lt_trans: "\<not> lt x y \<Longrightarrow> \<not> lt y z \<Longrightarrow> \<not> lt x z"
  by (metis equiv_trans lt_trans)

lemma insert_subset: "set (set_insert lt x xs) \<subseteq> insert x (set xs)"
  by (induction xs) auto

lemma insert_superset: "set xs \<subseteq> set (set_insert lt x xs)"
  by (induction xs) auto

lemma insert_has_equiv: "\<exists>y\<in>set (set_insert lt x xs). \<not> lt x y \<and> \<not> lt y x"
  by (induction xs) (auto simp: lt_irrefl)

lemma insert_sorted: "sorted_wrt lt xs \<Longrightarrow> sorted_wrt lt (set_insert lt x xs)"
proof (induction xs)
  case (Cons y ys)
  then show ?case
    using insert_subset [of x ys] by (auto intro: lt_trans)
qed simp

lemma insert_present:
  "sorted_wrt lt xs \<Longrightarrow> \<exists>y\<in>set xs. \<not> lt x y \<and> \<not> lt y x \<Longrightarrow> set_insert lt x xs = xs"
  by (induction xs) (auto dest: lt_trans)

lemma insert_absent:
  "\<forall>y\<in>set xs. lt x y \<or> lt y x \<Longrightarrow>
   length (set_insert lt x xs) = Suc (length xs) \<and> set (set_insert lt x xs) = insert x (set xs)"
  by (induction xs) auto

lemma sorted_inequiv:
  "sorted_wrt lt xs \<Longrightarrow> i < length xs \<Longrightarrow> j < length xs \<Longrightarrow> i \<noteq> j \<Longrightarrow>
   lt (xs ! i) (xs ! j) \<or> lt (xs ! j) (xs ! i)"
  by (metis linorder_neqE_nat sorted_wrt_nth_less)

end

lemma incomparable_iff: "(\<not> x < y \<and> \<not> y < x) \<longleftrightarrow> x = (y :: 'a::linorder)"
  by auto

text \<open>An order read off a key in a linear order is a strict weak order.\<close>

lemma swo_of_key:
  fixes key :: "'a \<Rightarrow> 'k::linorder"
  assumes "\<And>x y. lt x y \<longleftrightarrow> key x < key y"
  shows "strict_weak_order lt"
  by unfold_locales (auto simp: assms)

section \<open>std::to_string\<close>

text \<open>The decimal digits of a number, as bytes (\<open>'0'\<close> is 48).\<close>

fun dec_digits :: "nat \<Rightarrow> bytes" where
  "dec_digits n = (if n < 10 then [word_of_nat (48 + n)]
                   else dec_digits (n div 10) @ [word_of_nat (48 + n mod 10)])"

declare dec_digits.simps [simp del]

definition to_string :: "'a::len word \<Rightarrow> bytes" where
  "to_string w = dec_digits (unat w)"

definition bool_string :: "bool \<Rightarrow> bytes" where
  "bool_string b = (if b then [49] else [48])"

lemma dec_digits_small: "n < 10 \<Longrightarrow> dec_digits n = [word_of_nat (48 + n)]"
  by (subst dec_digits.simps) simp

lemma dec_digits_big: "\<not> n < 10 \<Longrightarrow> dec_digits n = dec_digits (n div 10) @ [word_of_nat (48 + n mod 10)]"
  by (subst dec_digits.simps) simp

text \<open>Reading the digits back gives the number: \<open>to_string\<close> of one number loses nothing.\<close>

definition read_digits :: "bytes \<Rightarrow> nat" where
  "read_digits = foldl (\<lambda>n d. 10 * n + (unat d - 48)) 0"

lemma unat_digit: "d < 10 \<Longrightarrow> unat (word_of_nat (48 + d) :: u8) = 48 + d"
  by (simp add: unat_of_nat take_bit_eq_mod del: of_nat_add)

lemma read_dec_digits [simp]: "read_digits (dec_digits n) = n"
proof (induction n rule: dec_digits.induct)
  case (1 n)
  show ?case
  proof (cases "n < 10")
    case True
    then show ?thesis by (simp add: dec_digits_small read_digits_def unat_digit del: of_nat_add)
  next
    case False
    with 1 have "foldl (\<lambda>n d. 10 * n + (unat d - 48)) 0 (dec_digits (n div 10)) = n div 10"
      by (simp add: read_digits_def)
    with False show ?thesis
      by (simp add: dec_digits_big read_digits_def unat_digit del: of_nat_add)
  qed
qed

lemma dec_digits_inj: "dec_digits m = dec_digits n \<longleftrightarrow> m = n"
  by (metis read_dec_digits)

lemma to_string_inj: "to_string v = to_string w \<longleftrightarrow> v = w"
  by (simp add: to_string_def dec_digits_inj word_unat_eq_iff)

section \<open>Words\<close>

lemma unat_of_nat_u32: "n < 2 ^ 32 \<Longrightarrow> unat (word_of_nat n :: u32) = n"
  by (simp add: unat_of_nat take_bit_nat_eq_self_iff)

lemma unat_u32_less: "unat (x :: u32) < 2 ^ 32"
  by (rule unsigned_less [THEN order_less_le_trans]) simp

lemma unat_Suc_u32: "unat x < 2 ^ 32 - 1 \<Longrightarrow> unat (x + 1 :: u32) = Suc (unat x)"
  by (subst unat_plus_simple [THEN iffD1]) (auto simp: word_le_nat_alt unat_word_ariths)

lemma unat_Suc_word: "x \<noteq> - 1 \<Longrightarrow> unat (x + 1 :: 'a::len word) = Suc (unat x)"
  by (metis add.commute eq_neg_iff_add_eq_0 unatSuc)

end
