(* ===== verification/Hashes.thy ===== *)
theory Hashes
  imports Prelude "HOL-Library.List_Lexorder"
begin

text \<open>
  \<open>App/types.h\<close> (identifiers and phases), \<open>App/params.h\<close> (compile-time sizes),
  \<open>App/Hash.h\<close> and \<open>App/Hash.cpp\<close>.

  OpenSSL is not part of the repository. The record \<open>crypto\<close> holds what the code
  calls of it, as functions: the SHA256 digest of a string, the bytes that
  \<open>ECDSA_sign\<close> writes (\<open>None\<close> when it fails), and the \<open>int\<close> that
  \<open>ECDSA_verify\<close> returns (1 valid, 0 invalid, -1 error). It also holds the
  indeterminate content of a fresh signature buffer, of which \<open>signText\<close> writes
  only a part.
\<close>

section \<open>Types and parameters\<close>

type_synonym PID = u32
type_synonym CID = u32
type_synonym TID = u32
type_synonym PORT = u32
type_synonym View = u32
type_synonym Phase1 = u8

definition PH1_NEWVIEW :: Phase1 where "PH1_NEWVIEW = 0"
definition PH1_PREPARE :: Phase1 where "PH1_PREPARE = 1"
definition PH1_PRECOMMIT :: Phase1 where "PH1_PRECOMMIT = 2"
definition PH1_COMMIT :: Phase1 where "PH1_COMMIT = 3"
definition PH1_RECOVER :: Phase1 where "PH1_RECOVER = 4"
definition PH1_VERIFY :: Phase1 where "PH1_VERIFY = 5"
definition PH1_PARALLEL :: Phase1 where "PH1_PARALLEL = 6"

lemmas phase_defs = PH1_NEWVIEW_def PH1_PREPARE_def PH1_PRECOMMIT_def PH1_COMMIT_def
  PH1_RECOVER_def PH1_VERIFY_def PH1_PARALLEL_def

lemma phases_distinct [simp]:
  "PH1_NEWVIEW \<noteq> PH1_PREPARE" "PH1_PREPARE \<noteq> PH1_NEWVIEW"
  "PH1_NEWVIEW \<noteq> PH1_PRECOMMIT" "PH1_PRECOMMIT \<noteq> PH1_NEWVIEW"
  "PH1_NEWVIEW \<noteq> PH1_COMMIT" "PH1_COMMIT \<noteq> PH1_NEWVIEW"
  "PH1_NEWVIEW \<noteq> PH1_PARALLEL" "PH1_PARALLEL \<noteq> PH1_NEWVIEW"
  "PH1_NEWVIEW \<noteq> PH1_RECOVER" "PH1_RECOVER \<noteq> PH1_NEWVIEW"
  "PH1_NEWVIEW \<noteq> PH1_VERIFY" "PH1_VERIFY \<noteq> PH1_NEWVIEW"
  "PH1_PREPARE \<noteq> PH1_PRECOMMIT" "PH1_PRECOMMIT \<noteq> PH1_PREPARE"
  "PH1_PREPARE \<noteq> PH1_COMMIT" "PH1_COMMIT \<noteq> PH1_PREPARE"
  "PH1_PREPARE \<noteq> PH1_PARALLEL" "PH1_PARALLEL \<noteq> PH1_PREPARE"
  "PH1_PRECOMMIT \<noteq> PH1_COMMIT" "PH1_COMMIT \<noteq> PH1_PRECOMMIT"
  "PH1_PRECOMMIT \<noteq> PH1_PARALLEL" "PH1_PARALLEL \<noteq> PH1_PRECOMMIT"
  "PH1_COMMIT \<noteq> PH1_PARALLEL" "PH1_PARALLEL \<noteq> PH1_COMMIT"
  "PH1_RECOVER \<noteq> PH1_PARALLEL" "PH1_PARALLEL \<noteq> PH1_RECOVER"
  "PH1_RECOVER \<noteq> PH1_VERIFY" "PH1_VERIFY \<noteq> PH1_RECOVER"
  "PH1_VERIFY \<noteq> PH1_PARALLEL" "PH1_PARALLEL \<noteq> PH1_VERIFY"
  by (simp_all add: phase_defs)

lemma PH1_PRECOMMIT_nonzero [simp]: "PH1_PRECOMMIT \<noteq> 0"
  by (simp add: phase_defs)

definition MAX_NUM_SIGNATURES :: nat where "MAX_NUM_SIGNATURES = 3"
definition MAX_NUM_TRANSACTIONS :: nat where "MAX_NUM_TRANSACTIONS = 100"
definition PAYLOAD_SIZE :: nat where "PAYLOAD_SIZE = 0"
definition SIGN_LEN :: nat where "SIGN_LEN = 72"
definition SHA256_DIGEST_LENGTH :: nat where "SHA256_DIGEST_LENGTH = 32"

section \<open>The cryptographic library\<close>

type_synonym KEY = nat \<comment> \<open>an \<open>EC_KEY *\<close>; 0 is \<open>NULL\<close>\<close>

record crypto =
  SHA256 :: "bytes \<Rightarrow> bytes"
  ECDSA_sign :: "bytes \<Rightarrow> KEY \<Rightarrow> bytes option"
  ECDSA_verify :: "bytes \<Rightarrow> bytes \<Rightarrow> KEY \<Rightarrow> int"
  fresh_buffer :: "bytes \<Rightarrow> bytes"

text \<open>A library that accepts every signature, for evaluating the model on concrete inputs.\<close>

definition crypto_yes :: crypto where
  "crypto_yes = \<lparr>SHA256 = (\<lambda>_. replicate SHA256_DIGEST_LENGTH 1), ECDSA_sign = (\<lambda>_ _. None),
     ECDSA_verify = (\<lambda>_ _ _. 1), fresh_buffer = (\<lambda>_. replicate SIGN_LEN 0)\<rparr>"

section \<open>Hash\<close>

record Hash =
  hbytes :: bytes     \<comment> \<open>\<open>unsigned char hash[SHA256_DIGEST_LENGTH]\<close>\<close>
  hset :: bool        \<comment> \<open>\<open>bool set\<close>: true if the hash is not the dummy hash\<close>

definition Hash_zero :: "bool \<Rightarrow> Hash" where \<comment> \<open>\<open>Hash(bool b)\<close>\<close>
  "Hash_zero b = \<lparr>hbytes = replicate SHA256_DIGEST_LENGTH 48, hset = b\<rparr>"

definition Hash_default :: Hash where \<comment> \<open>\<open>Hash()\<close>\<close>
  "Hash_default = \<lparr>hbytes = replicate SHA256_DIGEST_LENGTH 48, hset = True\<rparr>"

definition Hash_of :: "bytes \<Rightarrow> Hash" where \<comment> \<open>\<open>Hash(unsigned char hash[])\<close>\<close>
  "Hash_of bs = \<lparr>hbytes = take SHA256_DIGEST_LENGTH bs, hset = True\<rparr>"

definition Hash_of_set :: "bool \<Rightarrow> bytes \<Rightarrow> Hash" where \<comment> \<open>\<open>Hash(bool b, unsigned char hash[])\<close>\<close>
  "Hash_of_set b bs = \<lparr>hbytes = take SHA256_DIGEST_LENGTH bs, hset = b\<rparr>"

definition hash_isDummy :: "Hash \<Rightarrow> bool" where
  "hash_isDummy h = (\<not> hset h)"

definition hash_isZero :: "Hash \<Rightarrow> bool" where
  "hash_isZero h = list_all (\<lambda>c. c = 48) (hbytes h)"

definition hash_toString :: "Hash \<Rightarrow> bytes" where
  "hash_toString h = hbytes h @ bool_string (hset h)"

text \<open>\<open>operator==\<close> and \<open>operator<\<close>: the loops over the bytes; the flag is not compared.\<close>

fun bytes_eq :: "bytes \<Rightarrow> bytes \<Rightarrow> bool" where
  "bytes_eq (x # xs) (y # ys) = (if x \<noteq> y then False else bytes_eq xs ys)"
| "bytes_eq [] [] = True"
| "bytes_eq _ _ = False"

fun bytes_less :: "bytes \<Rightarrow> bytes \<Rightarrow> bool" where
  "bytes_less (x # xs) (y # ys) = (if x < y then True else if x > y then False else bytes_less xs ys)"
| "bytes_less [] (y # ys) = True"
| "bytes_less _ [] = False"

definition hash_eq :: "Hash \<Rightarrow> Hash \<Rightarrow> bool" where
  "hash_eq a b = bytes_eq (hbytes a) (hbytes b)"

definition hash_neq :: "Hash \<Rightarrow> Hash \<Rightarrow> bool" where
  "hash_neq a b = (\<not> hash_eq a b)"

definition hash_less :: "Hash \<Rightarrow> Hash \<Rightarrow> bool" where
  "hash_less a b = bytes_less (hbytes a) (hbytes b)"

text \<open>A C++ \<open>Hash\<close> always holds \<open>SHA256_DIGEST_LENGTH\<close> bytes.\<close>

definition hash_ok :: "Hash \<Rightarrow> bool" where
  "hash_ok h \<longleftrightarrow> length (hbytes h) = SHA256_DIGEST_LENGTH"

lemma bytes_eq_iff: "bytes_eq xs ys \<longleftrightarrow> xs = ys"
  by (induction xs ys rule: bytes_eq.induct) auto

lemma bytes_less_iff: "bytes_less xs ys \<longleftrightarrow> xs < ys"
  by (induction xs ys rule: bytes_less.induct) (auto simp: Cons_less_Cons)

lemma hash_eq_iff: "hash_eq a b \<longleftrightarrow> hbytes a = hbytes b"
  by (simp add: hash_eq_def bytes_eq_iff)

lemma hash_less_iff: "hash_less a b \<longleftrightarrow> hbytes a < hbytes b"
  by (simp add: hash_less_def bytes_less_iff)

lemma hash_eq_refl [simp]: "hash_eq h h"
  by (simp add: hash_eq_iff)

lemma hash_ok_constructors [simp]:
  "hash_ok (Hash_zero b)" "hash_ok Hash_default"
  "SHA256_DIGEST_LENGTH \<le> length bs \<Longrightarrow> hash_ok (Hash_of bs)"
  by (simp_all add: hash_ok_def Hash_zero_def Hash_default_def Hash_of_def)

lemma hset_constructors [simp]:
  "hset (Hash_zero b) = b" "hset Hash_default = True" "hset (Hash_of bs) = True"
  by (simp_all add: Hash_zero_def Hash_default_def Hash_of_def)

interpretation hash_order: strict_weak_order hash_less
  by (rule swo_of_key [of _ hbytes]) (rule hash_less_iff)

text \<open>
  \<open>Hash::operator<\<close> orders hashes strictly and totally up to \<open>operator==\<close>: exactly
  one of \<open>a < b\<close>, \<open>a == b\<close>, \<open>b < a\<close> holds, and \<open><\<close> is transitive. This is what the
  \<open>std::map<Hash, Phase1>\<close> of \<open>TrustedPara\<close> needs of its key: two hashes share an
  entry exactly when \<open>==\<close> holds.
\<close>

theorem hash_trichotomy:
  "(hash_eq a b \<longleftrightarrow> \<not> hash_less a b \<and> \<not> hash_less b a) \<and>
   \<not> (hash_less a b \<and> hash_less b a) \<and>
   (hash_less a b \<and> hash_less b c \<longrightarrow> hash_less a c)"
  by (auto simp: hash_eq_iff hash_less_iff intro: hash_order.lt_trans)

theorem hash_trichotomy_witness:
  "hash_less (Hash_of (replicate 32 1)) (Hash_of (replicate 32 2)) \<and>
   hash_less (Hash_of (replicate 32 2)) (Hash_of (replicate 32 3)) \<and>
   hash_less (Hash_of (replicate 32 1)) (Hash_of (replicate 32 3))"
proof -
  have l: "hash_less (Hash_of (replicate 32 1)) (Hash_of (replicate 32 2))"
    "hash_less (Hash_of (replicate 32 2)) (Hash_of (replicate 32 3))"
    by code_simp+
  with hash_trichotomy [of "Hash_of (replicate 32 1)" "Hash_of (replicate 32 2)" "Hash_of (replicate 32 3)"]
  show ?thesis by blast
qed

end
