(* ===== verification/Blocks.thy ===== *)
theory Blocks
  imports Hashes
begin

text \<open>
  \<open>App/Transaction.cpp\<close>, \<open>App/Block.cpp\<close> and \<open>App/PBlock.cpp\<close>: transactions and the
  blocks of the basic and of the parallel protocol, the text that is hashed for a block
  (\<open>toString\<close>), the hash, equality and the \<open>extends\<close> test.

  A block stores \<open>MAX_NUM_TRANSACTIONS\<close> transactions and a \<open>size\<close> that comes from the
  network unchecked; \<open>toString\<close> reads the first \<open>size\<close> of them, so it is undefined for a
  \<open>size\<close> above the array's.
\<close>

section \<open>Transactions\<close>

record Transaction =
  clientid :: CID
  transid :: TID        \<comment> \<open>0 is reserved for dummy transactions\<close>
  tdata :: bytes        \<comment> \<open>\<open>unsigned char data[PAYLOAD_SIZE]\<close>\<close>

definition Transaction_dummy :: Transaction where
  "Transaction_dummy = \<lparr>clientid = 0, transid = 0, tdata = replicate PAYLOAD_SIZE 48\<rparr>"

definition Transaction_new :: "CID \<Rightarrow> TID \<Rightarrow> Transaction" where
  "Transaction_new c t = \<lparr>clientid = c, transid = t, tdata = replicate PAYLOAD_SIZE 48\<rparr>"

definition Transaction_fill :: "CID \<Rightarrow> TID \<Rightarrow> u8 \<Rightarrow> Transaction" where
  "Transaction_fill c t d = \<lparr>clientid = c, transid = t, tdata = replicate PAYLOAD_SIZE d\<rparr>"

definition trans_toString :: "Transaction \<Rightarrow> bytes" where
  "trans_toString t = to_string (clientid t) @ to_string (transid t) @ concat (map to_string (tdata t))"

definition trans_eq :: "Transaction \<Rightarrow> Transaction \<Rightarrow> bool" where
  "trans_eq a b =
     (if clientid a \<noteq> clientid b \<or> transid a \<noteq> transid b then False
      else list_all2 (=) (tdata a) (tdata b))"

lemma trans_eq_iff [simp]: "trans_eq a b \<longleftrightarrow> a = b"
  by (cases a; cases b) (auto simp: trans_eq_def list.rel_eq)

section \<open>Block (basic protocol)\<close>

record Block =
  b_set :: bool
  b_prevHash :: Hash
  b_size :: u32
  b_transactions :: "Transaction list"

definition Block_flag :: "bool \<Rightarrow> Block" where \<comment> \<open>\<open>Block(bool b)\<close>\<close>
  "Block_flag b = \<lparr>b_set = b, b_prevHash = Hash_default, b_size = 0,
                  b_transactions = replicate MAX_NUM_TRANSACTIONS Transaction_dummy\<rparr>"

definition Block_genesis :: Block where \<comment> \<open>\<open>Block()\<close>\<close>
  "Block_genesis = Block_flag True"

definition Block_new :: "Hash \<Rightarrow> u32 \<Rightarrow> Transaction list \<Rightarrow> Block" where
  "Block_new prevHash sz ts =
     \<lparr>b_set = True, b_prevHash = prevHash, b_size = sz,
      b_transactions = take MAX_NUM_TRANSACTIONS ts\<rparr>"

definition block_transactions2string :: "Block \<Rightarrow> bytes res" where
  "block_transactions2string b =
     bindE (arr_prefix (b_transactions b) (unat (b_size b)))
       (\<lambda>ts. Inr (concat (map trans_toString ts)))"

definition block_toString :: "Block \<Rightarrow> bytes res" where
  "block_toString b =
     bindE (block_transactions2string b) (\<lambda>ts.
       Inr (bool_string (b_set b) @ hash_toString (b_prevHash b) @ to_string (b_size b) @ ts))"

definition block_hash :: "crypto \<Rightarrow> Block \<Rightarrow> Hash res" where
  "block_hash C b = bindE (block_toString b) (\<lambda>text. Inr (Hash_of (SHA256 C text)))"

definition block_extends :: "Block \<Rightarrow> Hash \<Rightarrow> bool" where
  "block_extends b h = hash_eq (b_prevHash b) h"

definition block_isDummy :: "Block \<Rightarrow> bool" where
  "block_isDummy b = (\<not> b_set b)"

text \<open>\<open>operator==\<close> compares the transactions below both bounds.\<close>

definition block_eq :: "Block \<Rightarrow> Block \<Rightarrow> bool" where
  "block_eq a b =
     (if b_set a \<noteq> b_set b \<or> \<not> hash_eq (b_prevHash a) (b_prevHash b) \<or> b_size a \<noteq> b_size b then False
      else list_all2 trans_eq
             (take (min MAX_NUM_TRANSACTIONS (unat (b_size a))) (b_transactions a))
             (take (min MAX_NUM_TRANSACTIONS (unat (b_size a))) (b_transactions b)))"

section \<open>PBlock (parallel protocol)\<close>

record PBlock =
  p_set :: bool
  p_prevHash :: Hash
  p_size :: u32
  p_transactions :: "Transaction list"
  p_seqNumber :: u32

definition PBlock_flag :: "bool \<Rightarrow> PBlock" where
  "PBlock_flag b = \<lparr>p_set = b, p_prevHash = Hash_default, p_size = 0,
                   p_transactions = replicate MAX_NUM_TRANSACTIONS Transaction_dummy, p_seqNumber = 0\<rparr>"

definition PBlock_default :: PBlock where \<comment> \<open>\<open>PBlock()\<close>, the filler of \<open>pblocks\<close>\<close>
  "PBlock_default = PBlock_flag True"

definition PBlock_new :: "Hash \<Rightarrow> u32 \<Rightarrow> u32 \<Rightarrow> Transaction list \<Rightarrow> PBlock" where
  "PBlock_new prevHash sz sq ts =
     \<lparr>p_set = True, p_prevHash = prevHash, p_size = sz,
      p_transactions = take MAX_NUM_TRANSACTIONS ts, p_seqNumber = sq\<rparr>"

definition pblock_transactions2string :: "PBlock \<Rightarrow> bytes res" where
  "pblock_transactions2string b =
     bindE (arr_prefix (p_transactions b) (unat (p_size b)))
       (\<lambda>ts. Inr (concat (map trans_toString ts)))"

definition pblock_toString :: "PBlock \<Rightarrow> bytes res" where
  "pblock_toString b =
     bindE (pblock_transactions2string b) (\<lambda>ts.
       Inr (bool_string (p_set b) @ hash_toString (p_prevHash b) @ to_string (p_seqNumber b)
            @ to_string (p_size b) @ ts))"

definition pblock_hash :: "crypto \<Rightarrow> PBlock \<Rightarrow> Hash res" where
  "pblock_hash C b = bindE (pblock_toString b) (\<lambda>text. Inr (Hash_of (SHA256 C text)))"

definition pblock_extends :: "PBlock \<Rightarrow> Hash \<Rightarrow> bool" where
  "pblock_extends b h = hash_eq (p_prevHash b) h"

definition pblock_isBlock :: "PBlock \<Rightarrow> bool" where
  "pblock_isBlock b = (p_seqNumber b \<noteq> 0)"

definition pblock_isDummy :: "PBlock \<Rightarrow> bool" where
  "pblock_isDummy b = (\<not> p_set b)"

definition pblock_eq :: "PBlock \<Rightarrow> PBlock \<Rightarrow> bool" where
  "pblock_eq a b =
     (if p_set a \<noteq> p_set b \<or> \<not> hash_eq (p_prevHash a) (p_prevHash b) \<or> p_size a \<noteq> p_size b
         \<or> p_seqNumber a \<noteq> p_seqNumber b then False
      else list_all2 trans_eq
             (take (min MAX_NUM_TRANSACTIONS (unat (p_size a))) (p_transactions a))
             (take (min MAX_NUM_TRANSACTIONS (unat (p_size a))) (p_transactions b)))"

section \<open>Well-formed blocks\<close>

text \<open>The array has its declared length; the size a peer sent is within it.\<close>

definition block_ok :: "Block \<Rightarrow> bool" where
  "block_ok b \<longleftrightarrow> length (b_transactions b) = MAX_NUM_TRANSACTIONS \<and> unat (b_size b) \<le> MAX_NUM_TRANSACTIONS"

definition pblock_ok :: "PBlock \<Rightarrow> bool" where
  "pblock_ok b \<longleftrightarrow> length (p_transactions b) = MAX_NUM_TRANSACTIONS \<and> unat (p_size b) \<le> MAX_NUM_TRANSACTIONS"

lemma block_hash_not_Diverges [simp]: "block_hash C b \<noteq> Inl Diverges"
  by (simp add: block_hash_def block_toString_def block_transactions2string_def bindE_Inl_iff)

lemma pblock_hash_not_Diverges [simp]: "pblock_hash C b \<noteq> Inl Diverges"
  by (simp add: pblock_hash_def pblock_toString_def pblock_transactions2string_def bindE_Inl_iff)

lemma block_hash_Inr_iff:
  "(\<exists>h. block_hash C b = Inr h) \<longleftrightarrow> unat (b_size b) \<le> length (b_transactions b)"
  by (auto simp: block_hash_def block_toString_def block_transactions2string_def bindE_Inr_iff arr_iffs)

lemma pblock_hash_Inr_iff:
  "(\<exists>h. pblock_hash C b = Inr h) \<longleftrightarrow> unat (p_size b) \<le> length (p_transactions b)"
  by (auto simp: pblock_hash_def pblock_toString_def pblock_transactions2string_def bindE_Inr_iff arr_iffs)

lemma pblock_hash_ok: "pblock_ok b \<Longrightarrow> \<exists>h. pblock_hash C b = Inr h"
  by (simp add: pblock_hash_Inr_iff pblock_ok_def)

lemma pblock_hash_set: "pblock_hash C b = Inr h \<Longrightarrow> hset h"
  by (auto simp: pblock_hash_def bindE_Inr_iff)

lemma block_hash_set: "block_hash C b = Inr h \<Longrightarrow> hset h"
  by (auto simp: block_hash_def bindE_Inr_iff)

lemma PBlock_default_isBlock [simp]: "\<not> pblock_isBlock PBlock_default"
  by (simp add: pblock_isBlock_def PBlock_default_def PBlock_flag_def)

lemma pblock_ok_constructors [simp]: "pblock_ok (PBlock_flag b)" "pblock_ok PBlock_default"
  by (simp_all add: pblock_ok_def PBlock_flag_def PBlock_default_def)

lemma block_ok_constructors [simp]: "block_ok (Block_flag b)" "block_ok Block_genesis"
  by (simp_all add: block_ok_def Block_flag_def Block_genesis_def)

section \<open>Properties of the block text\<close>

text \<open>
  A block's hash exists exactly when its \<open>size\<close> fits its array: \<open>transactions2string\<close>
  loops to \<open>size\<close> without looking at \<open>MAX_NUM_TRANSACTIONS\<close> (unlike \<open>prettyPrint\<close> and
  \<open>operator==\<close>), so a block received with a larger \<open>size\<close> is read out of bounds.
\<close>

theorem pblock_hash_bounds:
  "length (p_transactions b) = MAX_NUM_TRANSACTIONS \<Longrightarrow>
   pblock_hash C b =
     (if unat (p_size b) \<le> MAX_NUM_TRANSACTIONS
      then Inr (Hash_of (SHA256 C (bool_string (p_set b) @ hash_toString (p_prevHash b)
             @ to_string (p_seqNumber b) @ to_string (p_size b)
             @ concat (map trans_toString (take (unat (p_size b)) (p_transactions b))))))
      else Inl OutOfBounds)"
  by (simp add: pblock_hash_def pblock_toString_def pblock_transactions2string_def arr_prefix_def)

theorem pblock_hash_bounds_witness:
  "pblock_hash crypto_yes (PBlock_default\<lparr>p_size := 101\<rparr>) = Inl OutOfBounds"
  using pblock_hash_bounds [of "PBlock_default\<lparr>p_size := 101\<rparr>" crypto_yes]
  by (simp add: PBlock_default_def PBlock_flag_def MAX_NUM_TRANSACTIONS_def)

text \<open>
  The block text does not determine the block: the decimal numbers are concatenated
  without separators, so two well-formed blocks with different transactions, client 1
  with transaction 11 and client 11 with transaction 1, have the same hash whatever
  SHA256 computes, although \<open>operator==\<close> tells them apart.
\<close>

theorem block_hash_collision:
  "\<exists>b b'. block_ok b \<and> block_ok b' \<and> \<not> block_eq b b' \<and>
    (\<forall>C. \<exists>h. block_hash C b = Inr h \<and> block_hash C b' = Inr h)"
proof -
  let ?pad = "replicate 99 Transaction_dummy"
  let ?b = "Block_new Hash_default 1 (Transaction_new 1 11 # ?pad)"
  let ?b' = "Block_new Hash_default 1 (Transaction_new 11 1 # ?pad)"
  have t: "trans_toString (Transaction_new 1 11) = trans_toString (Transaction_new 11 1)"
    by code_simp
  have ok: "block_ok ?b" "block_ok ?b'"
    by (simp_all add: block_ok_def Block_new_def MAX_NUM_TRANSACTIONS_def)
  have ne: "\<not> block_eq ?b ?b'"
    by (simp add: block_eq_def Block_new_def MAX_NUM_TRANSACTIONS_def Transaction_new_def take_Cons')
  have h: "block_hash C ?b = Inr (Hash_of (SHA256 C (bool_string True @ hash_toString Hash_default @
      to_string (1::u32) @ trans_toString (Transaction_new 1 11))))"
    "block_hash C ?b' = Inr (Hash_of (SHA256 C (bool_string True @ hash_toString Hash_default @
      to_string (1::u32) @ trans_toString (Transaction_new 11 1))))" for C
    by (simp_all add: block_hash_def block_toString_def block_transactions2string_def Block_new_def
        MAX_NUM_TRANSACTIONS_def take_Cons')
  show ?thesis
    by (intro exI [of _ ?b] exI [of _ ?b'] conjI ok ne allI) (simp_all only: h t, blast)
qed

end
