(* ===== verification/RoundData.thy ===== *)
theory RoundData
  imports Hashes
begin

text \<open>
  \<open>App/RData.cpp\<close> and \<open>App/RDataPara.cpp\<close>: the data a replica signs. Both classes have
  the same first five members; \<open>RDataPara\<close> adds the sequence number and is modelled as
  the extension of the record, so that the selectors \<open>proph\<close>, \<open>propv\<close>, \<open>justh\<close>,
  \<open>justv\<close> and \<open>phase\<close> (the getters) serve both.
\<close>

record RData =
  proph :: Hash
  propv :: View
  justh :: Hash
  justv :: View
  phase :: Phase1

record RDataPara = RData +
  seqNumber :: u32

definition RData_new :: "Hash \<Rightarrow> View \<Rightarrow> Hash \<Rightarrow> View \<Rightarrow> Phase1 \<Rightarrow> RData" where
  "RData_new ph pv jh jv p = \<lparr>proph = ph, propv = pv, justh = jh, justv = jv, phase = p\<rparr>"

definition RData_default :: RData where
  "RData_default = RData_new Hash_default 0 Hash_default 0 PH1_NEWVIEW"

definition RDataPara_new :: "Hash \<Rightarrow> View \<Rightarrow> Hash \<Rightarrow> View \<Rightarrow> Phase1 \<Rightarrow> u32 \<Rightarrow> RDataPara" where
  "RDataPara_new ph pv jh jv p sq =
     \<lparr>proph = ph, propv = pv, justh = jh, justv = jv, phase = p, seqNumber = sq\<rparr>"

definition RDataPara_default :: RDataPara where
  "RDataPara_default = RDataPara_new Hash_default 0 Hash_default 0 PH1_NEWVIEW 0"

text \<open>\<open>void RDataPara::setPhase(Phase1 phase) { phase = phase; }\<close> assigns its own parameter.\<close>

definition setPhase :: "RDataPara \<Rightarrow> Phase1 \<Rightarrow> RDataPara" where
  "setPhase r p = (let p = p in r)"

definition rdata_toString :: "RData \<Rightarrow> bytes" where
  "rdata_toString r =
     hash_toString (proph r) @ to_string (propv r) @ hash_toString (justh r) @ to_string (justv r)
     @ to_string (phase r)"

definition rdataPara_toString :: "RDataPara \<Rightarrow> bytes" where
  "rdataPara_toString r =
     hash_toString (proph r) @ to_string (propv r) @ hash_toString (justh r) @ to_string (justv r)
     @ to_string (phase r) @ to_string (seqNumber r)"

definition rdata_eq :: "RData \<Rightarrow> RData \<Rightarrow> bool" where
  "rdata_eq a b \<longleftrightarrow> hash_eq (proph a) (proph b) \<and> propv a = propv b
     \<and> hash_eq (justh a) (justh b) \<and> justv a = justv b \<and> phase a = phase b"

definition rdataPara_eq :: "RDataPara \<Rightarrow> RDataPara \<Rightarrow> bool" where
  "rdataPara_eq a b \<longleftrightarrow> hash_eq (proph a) (proph b) \<and> propv a = propv b
     \<and> hash_eq (justh a) (justh b) \<and> justv a = justv b \<and> phase a = phase b
     \<and> seqNumber a = seqNumber b"

lemma RData_new_sel [simp]:
  "proph (RData_new ph pv jh jv p) = ph" "propv (RData_new ph pv jh jv p) = pv"
  "justh (RData_new ph pv jh jv p) = jh" "justv (RData_new ph pv jh jv p) = jv"
  "phase (RData_new ph pv jh jv p) = p"
  by (simp_all add: RData_new_def)

lemma RDataPara_new_sel [simp]:
  "proph (RDataPara_new ph pv jh jv p sq) = ph" "propv (RDataPara_new ph pv jh jv p sq) = pv"
  "justh (RDataPara_new ph pv jh jv p sq) = jh" "justv (RDataPara_new ph pv jh jv p sq) = jv"
  "phase (RDataPara_new ph pv jh jv p sq) = p" "seqNumber (RDataPara_new ph pv jh jv p sq) = sq"
  by (simp_all add: RDataPara_new_def)

lemma rdata_eq_refl [simp]: "rdata_eq r r"
  by (simp add: rdata_eq_def)

lemma rdataPara_eq_refl [simp]: "rdataPara_eq r r"
  by (simp add: rdataPara_eq_def)

text \<open>
  The two texts of equal hash parts: only the trailing decimals differ in what they
  carry, and they are concatenated without a separator.
\<close>

lemma rdataPara_toString_tail:
  "hash_toString (proph a) @ to_string (propv a) @ hash_toString (justh a) =
   hash_toString (proph b) @ to_string (propv b) @ hash_toString (justh b) \<Longrightarrow>
   to_string (justv a) @ to_string (phase a) @ to_string (seqNumber a) =
   to_string (justv b) @ to_string (phase b) @ to_string (seqNumber b) \<Longrightarrow>
   rdataPara_toString a = rdataPara_toString b"
  by (simp add: rdataPara_toString_def)

text \<open>
  The text that is signed for a vote of the parallel protocol does not determine the
  vote. For any proposal hash, view and justification hash, the new-view statement with
  \<open>justv = 1\<close>, \<open>phase = NEWVIEW\<close>, \<open>seqNumber = 11\<close> and the prepare vote with
  \<open>justv = 10\<close>, \<open>phase = PREPARE\<close>, \<open>seqNumber = 1\<close> differ under \<open>operator==\<close> but
  have the same text (it ends in \<open>1011\<close>), so a signature of one is a signature of the other.
\<close>

theorem rdataPara_text_ambiguous:
  "rdataPara_toString (RDataPara_new ph pv jh 1 PH1_NEWVIEW 11) =
   rdataPara_toString (RDataPara_new ph pv jh 10 PH1_PREPARE 1) \<and>
   \<not> rdataPara_eq (RDataPara_new ph pv jh 1 PH1_NEWVIEW 11) (RDataPara_new ph pv jh 10 PH1_PREPARE 1)"
proof -
  have "to_string (1::u32) @ to_string PH1_NEWVIEW @ to_string (11::u32) =
        to_string (10::u32) @ to_string PH1_PREPARE @ to_string (1::u32)"
    by code_simp
  then show ?thesis
    by (auto intro!: rdataPara_toString_tail simp: rdataPara_eq_def)
qed

end
