(* ===== verification/Signatures.thy ===== *)
theory Signatures
  imports Hashes "HOL-Library.Product_Lexorder"
begin

text \<open>
  \<open>App/Sign.cpp\<close> (for the scheme \<open>KK_EC256\<close> that \<open>App/key.h\<close> selects),
  \<open>App/NodeInfo.cpp\<close>, \<open>App/Nodes.cpp\<close> (the table of nodes; the configuration file is
  read in \<open>Config\<close>) and \<open>App/Signs.cpp\<close>, the bounded array of signatures that every
  certificate carries.
\<close>

section \<open>Sign\<close>

record Sign =
  s_set :: bool
  signer :: PID
  sbytes :: bytes       \<comment> \<open>\<open>unsigned char sign[SIGN_LEN]\<close>\<close>

text \<open>\<open>Sign()\<close> leaves \<open>signer\<close> indeterminate; it is never read while \<open>set\<close> is false.\<close>

definition Sign_default :: Sign where
  "Sign_default = \<lparr>s_set = False, signer = 0, sbytes = replicate SIGN_LEN 48\<rparr>"

definition Sign_char :: "PID \<Rightarrow> u8 \<Rightarrow> Sign" where
  "Sign_char p c = \<lparr>s_set = True, signer = p, sbytes = replicate SIGN_LEN c\<rparr>"

definition Sign_bytes :: "PID \<Rightarrow> bytes \<Rightarrow> Sign" where
  "Sign_bytes p s = \<lparr>s_set = True, signer = p, sbytes = take SIGN_LEN s\<rparr>"

definition Sign_set_bytes :: "bool \<Rightarrow> PID \<Rightarrow> bytes \<Rightarrow> Sign" where
  "Sign_set_bytes b p s = \<lparr>s_set = b, signer = p, sbytes = take SIGN_LEN s\<rparr>"

text \<open>
  \<open>signText\<close> for EC keys: the signing buffer starts with \<open>SHA256_DIGEST_LENGTH\<close> bytes
  \<open>'0'\<close>, \<open>ECDSA_sign\<close> overwrites it from the start, and only the first
  \<open>SHA256_DIGEST_LENGTH\<close> bytes are copied into the \<open>SIGN_LEN\<close> bytes of the signature.
\<close>

definition signText :: "crypto \<Rightarrow> bytes \<Rightarrow> KEY \<Rightarrow> bytes \<Rightarrow> bytes" where
  "signText C text priv sign =
     (let digest = SHA256 C text;
          buf = replicate SHA256_DIGEST_LENGTH 48;
          buf = (case ECDSA_sign C digest priv of
                   None \<Rightarrow> buf
                 | Some sg \<Rightarrow> sg @ drop (length sg) buf)
      in take SHA256_DIGEST_LENGTH buf @ drop SHA256_DIGEST_LENGTH sign)"

text \<open>\<open>verifyText\<close> for EC keys: the \<open>int\<close> result of \<open>ECDSA_verify\<close> is converted to \<open>bool\<close>.\<close>

definition verifyText :: "crypto \<Rightarrow> bytes \<Rightarrow> KEY \<Rightarrow> bytes \<Rightarrow> bool" where
  "verifyText C text pub sign =
     (let digest = SHA256 C text; b = ECDSA_verify C digest sign pub in b \<noteq> 0)"

definition Sign_make :: "crypto \<Rightarrow> KEY \<Rightarrow> PID \<Rightarrow> bytes \<Rightarrow> Sign" where
  "Sign_make C priv p text = \<lparr>s_set = True, signer = p, sbytes = signText C text priv (fresh_buffer C text)\<rparr>"

definition sign_toString :: "Sign \<Rightarrow> bytes" where
  "sign_toString s = bool_string (s_set s) @ to_string (signer s) @ sbytes s"

definition sign_verify :: "crypto \<Rightarrow> Sign \<Rightarrow> KEY \<Rightarrow> bytes \<Rightarrow> bool" where
  "sign_verify C s pub text = verifyText C text pub (sbytes s)"

definition sign_less :: "Sign \<Rightarrow> Sign \<Rightarrow> bool" where
  "sign_less a b = (if signer a < signer b then True else False)"

definition sign_eq :: "Sign \<Rightarrow> Sign \<Rightarrow> bool" where
  "sign_eq a b =
     (if s_set a \<noteq> s_set b \<or> signer a \<noteq> signer b then False else bytes_eq (sbytes a) (sbytes b))"

lemma sign_eq_iff [simp]: "sign_eq a b \<longleftrightarrow> a = b"
  by (cases a; cases b) (auto simp: sign_eq_def bytes_eq_iff)

lemma Sign_make_sel [simp]: "s_set (Sign_make C k p t)" "signer (Sign_make C k p t) = p"
  by (simp_all add: Sign_make_def)

interpretation sign_order: strict_weak_order sign_less
  by (rule swo_of_key [of _ signer]) (simp add: sign_less_def)

section \<open>Nodes\<close>

record NodeInfo =
  ni_pid :: PID
  ni_pub :: KEY
  ni_host :: bytes
  ni_rport :: PORT
  ni_cport :: PORT

type_synonym Nodes = "(PID, NodeInfo) stdmap"

definition NodeInfo_default :: NodeInfo where
  "NodeInfo_default = \<lparr>ni_pid = 0, ni_pub = 0, ni_host = [], ni_rport = 0, ni_cport = 0\<rparr>"

definition NodeInfo_new :: "PID \<Rightarrow> bytes \<Rightarrow> PORT \<Rightarrow> PORT \<Rightarrow> NodeInfo" where
  [simp]: "NodeInfo_new pid host rport cport =
     \<lparr>ni_pid = pid, ni_pub = 0, ni_host = host, ni_rport = rport, ni_cport = cport\<rparr>"

definition NodeInfo_key :: "PID \<Rightarrow> KEY \<Rightarrow> bytes \<Rightarrow> PORT \<Rightarrow> PORT \<Rightarrow> NodeInfo" where
  [simp]: "NodeInfo_key pid pub host rport cport =
     \<lparr>ni_pid = pid, ni_pub = pub, ni_host = host, ni_rport = rport, ni_cport = cport\<rparr>"

definition nodeInfo_setPub :: "KEY \<Rightarrow> NodeInfo \<Rightarrow> NodeInfo" where
  [simp]: "nodeInfo_setPub pub nfo = nfo\<lparr>ni_pub := pub\<rparr>"

text \<open>\<open>"NFO[id=" + id + ";pub=_;host=" + host + ";rport=" + rport + ";cport=" + cport + "]"\<close>\<close>

definition nodeInfo_toString :: "NodeInfo \<Rightarrow> bytes" where
  "nodeInfo_toString nfo =
     [78, 70, 79, 91, 105, 100, 61] @ to_string (ni_pid nfo) @ [59, 112, 117, 98, 61, 95] @
     [59, 104, 111, 115, 116, 61] @ ni_host nfo @ [59, 114, 112, 111, 114, 116, 61] @ to_string (ni_rport nfo) @
     [59, 99, 112, 111, 114, 116, 61] @ to_string (ni_cport nfo) @ [93]"

definition nodeInfo_less :: "NodeInfo \<Rightarrow> NodeInfo \<Rightarrow> bool" where
  "nodeInfo_less a b = (if ni_pid a < ni_pid b then True else False)"

definition addNode_key :: "Nodes \<Rightarrow> PID \<Rightarrow> KEY \<Rightarrow> bytes \<Rightarrow> PORT \<Rightarrow> PORT \<Rightarrow> Nodes" where
  "addNode_key ns i pub host rport cport = map_set i (NodeInfo_key i pub host rport cport) ns"

definition addNode :: "Nodes \<Rightarrow> PID \<Rightarrow> bytes \<Rightarrow> PORT \<Rightarrow> PORT \<Rightarrow> Nodes" where
  "addNode ns i host rport cport = map_set i (NodeInfo_new i host rport cport) ns"

definition nodes_find :: "Nodes \<Rightarrow> PID \<Rightarrow> NodeInfo option" where
  "nodes_find ns i = map_find ns i"

definition setPub :: "Nodes \<Rightarrow> PID \<Rightarrow> KEY \<Rightarrow> Nodes" where
  "setPub ns i pub =
     (case map_find ns i of
        Some nfo \<Rightarrow> map_set i (nodeInfo_setPub pub nfo) ns
      | None \<Rightarrow> ns)"

definition getIds :: "Nodes \<Rightarrow> PID list" where
  "getIds ns = map fst ns"

definition numNodes :: "Nodes \<Rightarrow> nat" where
  "numNodes ns = length ns"

interpretation nodeInfo_order: strict_weak_order nodeInfo_less
  by (rule swo_of_key [of _ ni_pid]) (simp add: nodeInfo_less_def)

lemma nodes_find_setPub:
  "nodes_find (setPub ns i pub) j =
     (if j = i then map_option (\<lambda>nfo. nfo\<lparr>ni_pub := pub\<rparr>) (nodes_find ns i) else nodes_find ns j)"
  by (auto simp: nodes_find_def setPub_def split: option.splits)

lemma getIds_setPub: "map_ok ns \<Longrightarrow> set (getIds (setPub ns i pub)) = set (getIds ns)"
  by (auto simp: getIds_def setPub_def set_map_fst_map_set map_find_Some_iff image_iff
      split: option.splits) (metis fst_conv)+

section \<open>Signs\<close>

record Signs =
  sg_size :: u32
  sg_arr :: "Sign list"   \<comment> \<open>\<open>Sign signs[MAX_NUM_SIGNATURES]\<close>\<close>

definition Signs_empty :: Signs where \<comment> \<open>\<open>Signs()\<close>\<close>
  "Signs_empty = \<lparr>sg_size = 0, sg_arr = replicate MAX_NUM_SIGNATURES Sign_default\<rparr>"

definition Signs_one :: "Sign \<Rightarrow> Signs" where \<comment> \<open>\<open>Signs(Sign sign)\<close>\<close>
  "Signs_one s = \<lparr>sg_size = 1, sg_arr = (replicate MAX_NUM_SIGNATURES Sign_default)[0 := s]\<rparr>"

definition Signs_array :: "u32 \<Rightarrow> Sign list \<Rightarrow> Signs" where
  "Signs_array n ss = \<lparr>sg_size = n, sg_arr = take MAX_NUM_SIGNATURES ss\<rparr>"

definition signs_get :: "Signs \<Rightarrow> u32 \<Rightarrow> Sign res" where
  "signs_get sg n = arr_get (sg_arr sg) (unat n)"

text \<open>\<open>verify\<close>: stops at the first signer that is unknown or whose signature fails.\<close>

fun signs_verify_loop :: "crypto \<Rightarrow> Nodes \<Rightarrow> bytes \<Rightarrow> Sign list \<Rightarrow> nat list \<Rightarrow> bool res" where
  "signs_verify_loop C ns text arr [] = Inr True"
| "signs_verify_loop C ns text arr (i # is) =
     bindE (arr_get arr i) (\<lambda>sign.
       (case nodes_find ns (signer sign) of
          Some nfo \<Rightarrow>
            if \<not> sign_verify C sign (ni_pub nfo) text then Inr False
            else signs_verify_loop C ns text arr is
        | None \<Rightarrow> Inr False))"

definition signs_verify :: "crypto \<Rightarrow> Nodes \<Rightarrow> Signs \<Rightarrow> bytes \<Rightarrow> bool res" where
  "signs_verify C ns sg text = signs_verify_loop C ns text (sg_arr sg) [0..<unat (sg_size sg)]"

definition signs_toString :: "Signs \<Rightarrow> bytes res" where
  "signs_toString sg =
     bindE (arr_prefix (sg_arr sg) (unat (sg_size sg)))
       (\<lambda>ss. Inr (to_string (sg_size sg) @ concat (map sign_toString ss)))"

text \<open>
  \<open>operator<\<close>: by size, then signer by signer. It is applied only after \<open>getSigners\<close> has
  read both arrays up to their sizes; the case of a shorter first list does not arise then.
\<close>

fun signers_less :: "Sign list \<Rightarrow> Sign list \<Rightarrow> bool" where
  "signers_less (a # as) (b # bs) =
     (if sign_less a b then True else if sign_less b a then False else signers_less as bs)"
| "signers_less [] (b # bs) = True"
| "signers_less _ [] = False"

definition signs_less :: "Signs \<Rightarrow> Signs \<Rightarrow> bool" where
  "signs_less a b =
     (if sg_size a < sg_size b then True
      else if sg_size b < sg_size a then False
      else signers_less (take (unat (sg_size a)) (sg_arr a)) (take (unat (sg_size b)) (sg_arr b)))"

definition hasSigned :: "Signs \<Rightarrow> PID \<Rightarrow> bool res" where
  "hasSigned sg p =
     bindE (arr_prefix (sg_arr sg) (unat (sg_size sg))) (\<lambda>ss. Inr (list_ex (\<lambda>s. signer s = p) ss))"

text \<open>\<open>getSigners\<close>: the \<open>std::set<PID>\<close> of the signers.\<close>

definition getSigners :: "Signs \<Rightarrow> PID list res" where
  "getSigners sg =
     bindE (arr_prefix (sg_arr sg) (unat (sg_size sg)))
       (\<lambda>ss. Inr (foldl (\<lambda>S s. set_insert (<) (signer s) S) [] ss))"

definition signs_add :: "Signs \<Rightarrow> Sign \<Rightarrow> Signs res" where
  "signs_add sg s =
     bindE (arr_set (sg_arr sg) (unat (sg_size sg)) s)
       (\<lambda>arr. Inr \<lparr>sg_size = sg_size sg + 1, sg_arr = arr\<rparr>)"

fun addUpto_loop :: "Signs \<Rightarrow> u32 \<Rightarrow> u32 list \<Rightarrow> Signs \<Rightarrow> Signs res" where
  "addUpto_loop others n [] sg = Inr sg"
| "addUpto_loop others n (i # is) sg =
     (if sg_size sg < n then
        bindE (signs_get others i) (\<lambda>s. bindE (signs_add sg s) (addUpto_loop others n is))
      else Inr sg)"

definition addUpto :: "Signs \<Rightarrow> Signs \<Rightarrow> u32 \<Rightarrow> Signs res" where
  "addUpto sg others n = addUpto_loop others n (map word_of_nat [0..<unat (sg_size others)]) sg"

definition signs_eq :: "Signs \<Rightarrow> Signs \<Rightarrow> bool" where
  "signs_eq a b =
     (if sg_size a \<noteq> sg_size b then False
      else list_all2 sign_eq (take (min MAX_NUM_SIGNATURES (unat (sg_size a))) (sg_arr a))
                             (take (min MAX_NUM_SIGNATURES (unat (sg_size a))) (sg_arr b)))"

section \<open>Well-formed signature arrays\<close>

definition signs_ok :: "Signs \<Rightarrow> bool" where
  "signs_ok sg \<longleftrightarrow> length (sg_arr sg) = MAX_NUM_SIGNATURES \<and> unat (sg_size sg) \<le> MAX_NUM_SIGNATURES"

text \<open>The signatures that count: the first \<open>size\<close> of the array.\<close>

definition sig_list :: "Signs \<Rightarrow> Sign list" where
  "sig_list sg = take (unat (sg_size sg)) (sg_arr sg)"

lemma MAX_NUM_SIGNATURES_pos [simp]: "0 < MAX_NUM_SIGNATURES" "Suc 0 \<le> MAX_NUM_SIGNATURES"
  by (simp_all add: MAX_NUM_SIGNATURES_def)

lemma signs_ok_constructors [simp]: "signs_ok Signs_empty" "signs_ok (Signs_one s)"
  by (simp_all add: signs_ok_def Signs_empty_def Signs_one_def)

lemma sig_list_constructors [simp]: "sig_list Signs_empty = []" "sig_list (Signs_one s) = [s]"
  by (simp_all add: sig_list_def Signs_empty_def Signs_one_def MAX_NUM_SIGNATURES_def numeral_eq_Suc)

lemma sg_size_constructors [simp]: "sg_size Signs_empty = 0" "sg_size (Signs_one s) = 1"
  by (simp_all add: Signs_empty_def Signs_one_def)

lemma length_sig_list: "signs_ok sg \<Longrightarrow> length (sig_list sg) = unat (sg_size sg)"
  by (simp add: sig_list_def signs_ok_def)

lemma signs_toString_ok: "signs_ok sg \<Longrightarrow>
  signs_toString sg = Inr (to_string (sg_size sg) @ concat (map sign_toString (sig_list sg)))"
  by (simp add: signs_toString_def signs_ok_def sig_list_def)

lemma set_foldl_set_insert:
  "set (foldl (\<lambda>S s. set_insert (<) (signer s) S) S0 ss) = set S0 \<union> signer ` set ss"
proof (induction ss arbitrary: S0)
  case (Cons s ss)
  have "set (set_insert (<) (signer s) S0) = insert (signer s) (set S0)"
    by (induction S0) auto
  with Cons show ?case by auto
qed simp

section \<open>Reading signers\<close>

lemma getSigners_Inr_iff:
  "(\<exists>S. getSigners sg = Inr S) \<longleftrightarrow> unat (sg_size sg) \<le> length (sg_arr sg)"
  by (auto simp: getSigners_def bindE_Inr_iff arr_iffs)

lemma getSigners_set: "getSigners sg = Inr S \<Longrightarrow> set S = signer ` set (sig_list sg)"
  by (auto simp: getSigners_def bindE_Inr_iff arr_iffs sig_list_def set_foldl_set_insert)

lemma getSigners_ok: "signs_ok sg \<Longrightarrow> \<exists>S. getSigners sg = Inr S"
  by (simp add: getSigners_Inr_iff signs_ok_def)

lemma getSigners_not_Diverges [simp]: "getSigners sg \<noteq> Inl Diverges"
  by (simp add: getSigners_def bindE_Inl_iff)

lemma hasSigned_ok:
  "signs_ok sg \<Longrightarrow> hasSigned sg p = Inr (p \<in> signer ` set (sig_list sg))"
  by (auto simp: hasSigned_def signs_ok_def sig_list_def list_ex_iff)

section \<open>The order of signature arrays\<close>

lemma signers_less_iff: "signers_less xs ys \<longleftrightarrow> map signer xs < map signer ys"
  by (induction xs ys rule: signers_less.induct) (auto simp: sign_less_def Cons_less_Cons)

lemma signs_less_iff:
  "signs_less a b \<longleftrightarrow> (sg_size a, map signer (sig_list a)) < (sg_size b, map signer (sig_list b))"
  by (auto simp: signs_less_def signers_less_iff sig_list_def less_prod_simp)

interpretation signs_order: strict_weak_order signs_less
  by (rule swo_of_key [of _ "\<lambda>a. (sg_size a, map signer (sig_list a))"]) (rule signs_less_iff)

text \<open>Two arrays are equivalent in the sets of the log when they name the same signers in order.\<close>

lemma signs_equiv_iff:
  assumes "signs_ok a" and "signs_ok b"
  shows "(\<not> signs_less a b \<and> \<not> signs_less b a) \<longleftrightarrow> map signer (sig_list a) = map signer (sig_list b)"
proof -
  have size: "sg_size a = sg_size b" if "map signer (sig_list a) = map signer (sig_list b)"
    using assms arg_cong [OF that, of length] by (simp add: length_sig_list word_unat_eq_iff)
  have "(\<not> signs_less a b \<and> \<not> signs_less b a) \<longleftrightarrow>
      (sg_size a, map signer (sig_list a)) = (sg_size b, map signer (sig_list b))"
    unfolding signs_less_iff by (rule incomparable_iff)
  with size show ?thesis by auto
qed

section \<open>Verification\<close>

definition sig_valid :: "crypto \<Rightarrow> Nodes \<Rightarrow> bytes \<Rightarrow> Sign \<Rightarrow> bool" where
  "sig_valid C ns text s =
     (case nodes_find ns (signer s) of Some nfo \<Rightarrow> sign_verify C s (ni_pub nfo) text | None \<Rightarrow> False)"

lemma signs_verify_loop_eq:
  "\<forall>i\<in>set is. i < length arr \<Longrightarrow>
   signs_verify_loop C ns text arr is = Inr (\<forall>i\<in>set is. sig_valid C ns text (arr ! i))"
  by (induction "is") (auto simp: sig_valid_def split: option.splits)

lemma signs_verify_loop_not_Diverges [simp]: "signs_verify_loop C ns text arr is \<noteq> Inl Diverges"
  by (induction "is") (auto simp: bindE_Inl_iff split: option.splits)

lemma signs_verify_not_Diverges [simp]: "signs_verify C ns sg text \<noteq> Inl Diverges"
  by (simp add: signs_verify_def)

lemma signs_verify_eq:
  assumes "signs_ok sg"
  shows "signs_verify C ns sg text = Inr (\<forall>s\<in>set (sig_list sg). sig_valid C ns text s)"
proof -
  have "unat (sg_size sg) \<le> length (sg_arr sg)"
    using assms by (simp add: signs_ok_def)
  then show ?thesis
    by (auto simp: signs_verify_def signs_verify_loop_eq sig_list_def in_set_conv_nth Ball_def)
qed

lemma signs_verify_yes:
  "signs_ok sg \<Longrightarrow> \<forall>s\<in>set (sig_list sg). nodes_find ns (signer s) \<noteq> None \<Longrightarrow>
   signs_verify crypto_yes ns sg text = Inr True"
  by (auto simp: signs_verify_eq sig_valid_def sign_verify_def verifyText_def crypto_yes_def)

lemma signs_verify_empty: "signs_verify C ns Signs_empty text = Inr True"
  by (simp add: signs_verify_eq)

text \<open>
  On a well-formed array \<open>Signs::verify\<close> never fails and answers whether every one of
  the first \<open>size\<close> signatures names a known node and verifies under that node's key.
\<close>

theorem signs_verify_correct:
  "signs_ok sg \<Longrightarrow>
   signs_verify C ns sg text =
     Inr (\<forall>i < unat (sg_size sg). \<exists>nfo. nodes_find ns (signer (sg_arr sg ! i)) = Some nfo \<and>
            ECDSA_verify C (SHA256 C text) (sbytes (sg_arr sg ! i)) (ni_pub nfo) \<noteq> 0)"
proof -
  assume ok: "signs_ok sg"
  have "(\<forall>s\<in>set (sig_list sg). sig_valid C ns text s) \<longleftrightarrow>
        (\<forall>i < unat (sg_size sg). sig_valid C ns text (sg_arr sg ! i))"
    using ok by (auto simp: sig_list_def signs_ok_def set_conv_nth)
  with ok show ?thesis
    by (auto simp: signs_verify_eq sig_valid_def sign_verify_def verifyText_def Let_def split: option.splits)
qed

theorem signs_verify_correct_witness:
  "signs_verify crypto_yes [] (Signs_one (Sign_char 2 65)) [7] = Inr False"
  using signs_verify_correct [of "Signs_one (Sign_char 2 65)" crypto_yes "[]" "[7]"]
  by (simp add: nodes_find_def)

text \<open>
  A verification that OpenSSL answers with an error (-1, for instance on a signature
  that is not well-formed DER) is taken as success: the \<open>int\<close> is converted to \<open>bool\<close>.
  Any array of signatures of known nodes for which \<open>ECDSA_verify\<close> reports only errors
  passes \<open>Signs::verify\<close>.
\<close>

theorem verify_error_accepted:
  "signs_ok sg \<Longrightarrow>
   \<forall>s\<in>set (sig_list sg). \<exists>nfo. nodes_find ns (signer s) = Some nfo \<and>
      ECDSA_verify C (SHA256 C text) (sbytes s) (ni_pub nfo) = -1 \<Longrightarrow>
   signs_verify C ns sg text = Inr True"
  by (fastforce simp: signs_verify_eq sig_valid_def sign_verify_def verifyText_def Let_def)

theorem verify_error_accepted_witness:
  "signs_verify \<lparr>SHA256 = (\<lambda>_. []), ECDSA_sign = (\<lambda>_ _. None), ECDSA_verify = (\<lambda>_ _ _. -1),
                 fresh_buffer = (\<lambda>_. [])\<rparr>
     (addNode [] 2 [] 1 1) (Signs_one (Sign_char 2 65)) [1, 2, 3] = Inr True"
  by (rule verify_error_accepted) (simp_all add: addNode_def nodes_find_def Sign_char_def)

text \<open>
  C27. Honest signatures pass only as errors. \<open>signText\<close> keeps the first 32 bytes of what
  \<open>ECDSA_sign\<close> returns. If the library's signature of the text is longer and the library answers 1
  only for a buffer that begins with it, then the signature that \<open>Sign\<close> makes verifies
  exactly when the library reports an error for it (the result is neither 0 nor 1), unless
  the uninitialised rest of the buffer happens to hold the missing bytes.
\<close>

theorem honest_signature_truncated:
  assumes "ECDSA_sign C (SHA256 C text) priv = Some sg" and "SHA256_DIGEST_LENGTH < length sg"
    and "\<forall>buf. ECDSA_verify C (SHA256 C text) buf pub = 1 \<longrightarrow> take (length sg) buf = sg"
    and "length (fresh_buffer C text) = SIGN_LEN" and "SHA256_DIGEST_LENGTH \<le> i" "i < length sg" "length sg \<le> SIGN_LEN"
    and "fresh_buffer C text ! i \<noteq> sg ! i"
  shows "sign_verify C (Sign_make C priv p text) pub text \<longleftrightarrow>
    ECDSA_verify C (SHA256 C text) (take SHA256_DIGEST_LENGTH sg @ drop SHA256_DIGEST_LENGTH (fresh_buffer C text)) pub \<notin> {0, 1}"
proof -
  let ?buf = "take SHA256_DIGEST_LENGTH sg @ drop SHA256_DIGEST_LENGTH (fresh_buffer C text)"
  have b: "sbytes (Sign_make C priv p text) = ?buf"
    using assms(1,2) by (simp add: Sign_make_def signText_def Let_def)
  have l: "length (take SHA256_DIGEST_LENGTH sg) = SHA256_DIGEST_LENGTH" using assms(2) by simp
  have "?buf ! i = fresh_buffer C text ! i"
    using assms(4,5) l by (simp add: nth_append SHA256_DIGEST_LENGTH_def SIGN_LEN_def)
  then have "take (length sg) ?buf \<noteq> sg" using assms(6,8) by (metis nth_take)
  with assms(3) have "ECDSA_verify C (SHA256 C text) ?buf pub \<noteq> 1" by blast
  then show ?thesis by (simp add: sign_verify_def verifyText_def b)
qed

text \<open>A library whose signatures are 70 bytes 7 and that answers -1 for anything else.\<close>

theorem honest_signature_truncated_witness:
  "sign_verify \<lparr>SHA256 = (\<lambda>_. []), ECDSA_sign = (\<lambda>_ _. Some (replicate 70 7)),
       ECDSA_verify = (\<lambda>_ buf _. if take 70 buf = replicate 70 7 then 1 else -1), fresh_buffer = (\<lambda>_. replicate SIGN_LEN 0)\<rparr>
     (Sign_make \<lparr>SHA256 = (\<lambda>_. []), ECDSA_sign = (\<lambda>_ _. Some (replicate 70 7)),
       ECDSA_verify = (\<lambda>_ buf _. if take 70 buf = replicate 70 7 then 1 else -1), fresh_buffer = (\<lambda>_. replicate SIGN_LEN 0)\<rparr> 5 2 [1])
     5 [1]"
proof -
  have "take 70 (replicate 32 7 @ replicate 40 0) \<noteq> replicate 70 (7 :: u8)"
    by (rule notI, drule arg_cong [of _ _ "\<lambda>xs. xs ! 40"]) (simp add: nth_append)
  then show ?thesis
    by (subst honest_signature_truncated [where sg = "replicate 70 7" and i = 40])
      (simp_all add: SHA256_DIGEST_LENGTH_def SIGN_LEN_def)
qed

text \<open>
  \<open>Signs::verify\<close> does not look for repeated signers: an array that holds one valid
  signature \<open>n\<close> times verifies and has size \<open>n\<close>, so the test
  \<open>getSize() == qsize \<and> verify(...)\<close> that the trusted components and the handlers apply
  to a quorum certificate is passed by a single node's signature.
\<close>

theorem repeated_signature_verifies:
  "n \<le> MAX_NUM_SIGNATURES \<Longrightarrow> nodes_find ns (signer s) = Some nfo \<Longrightarrow>
   sign_verify C s (ni_pub nfo) text \<Longrightarrow>
   signs_verify C ns (Signs_array (word_of_nat n) (replicate MAX_NUM_SIGNATURES s)) text = Inr True \<and>
   unat (sg_size (Signs_array (word_of_nat n) (replicate MAX_NUM_SIGNATURES s))) = n"
proof -
  assume n: "n \<le> MAX_NUM_SIGNATURES" and f: "nodes_find ns (signer s) = Some nfo"
    and v: "sign_verify C s (ni_pub nfo) text"
  from n have u: "unat (word_of_nat n :: u32) = n"
    by (simp add: unat_of_nat_u32 MAX_NUM_SIGNATURES_def)
  with n have "signs_ok (Signs_array (word_of_nat n) (replicate MAX_NUM_SIGNATURES s))"
    by (simp add: signs_ok_def Signs_array_def)
  with f v u show ?thesis
    by (auto simp: signs_verify_eq Signs_array_def sig_list_def sig_valid_def)
qed

theorem repeated_signature_verifies_witness:
  "signs_verify \<lparr>SHA256 = (\<lambda>_. []), ECDSA_sign = (\<lambda>_ _. None), ECDSA_verify = (\<lambda>_ _ _. 1),
                 fresh_buffer = (\<lambda>_. [])\<rparr>
     (addNode [] 2 [] 1 1)
     (Signs_array (word_of_nat 3) (replicate MAX_NUM_SIGNATURES (Sign_char 2 65))) [7] = Inr True"
  by (rule repeated_signature_verifies [THEN conjunct1])
     (simp_all add: addNode_def nodes_find_def Sign_char_def MAX_NUM_SIGNATURES_def sign_verify_def verifyText_def)

section \<open>Collecting signatures\<close>

lemma signs_add_ok:
  assumes "signs_ok sg" and "unat (sg_size sg) < MAX_NUM_SIGNATURES"
  shows "\<exists>sg'. signs_add sg s = Inr sg' \<and> signs_ok sg' \<and> sig_list sg' = sig_list sg @ [s] \<and>
               unat (sg_size sg') = Suc (unat (sg_size sg))"
proof -
  have "unat (sg_size sg + 1) = Suc (unat (sg_size sg))"
    using assms(2) by (intro unat_Suc_u32) (simp add: MAX_NUM_SIGNATURES_def)
  with assms show ?thesis
    by (simp add: signs_add_def signs_ok_def sig_list_def take_Suc_conv_app_nth)
qed

text \<open>\<open>add\<close> on a full array writes past its end.\<close>

lemma signs_add_full: "sg_arr sg = arr \<Longrightarrow> length arr \<le> unat (sg_size sg) \<Longrightarrow> signs_add sg s = Inl OutOfBounds"
  by (simp add: signs_add_def arr_set_def)

lemma addUpto_loop_ok:
  "signs_ok sg \<Longrightarrow> unat n \<le> MAX_NUM_SIGNATURES \<Longrightarrow> \<forall>i\<in>set is. unat i < length (sg_arr others) \<Longrightarrow>
   \<exists>sg'. addUpto_loop others n is sg = Inr sg' \<and> signs_ok sg' \<and>
     sig_list sg' = sig_list sg @ take (unat n - length (sig_list sg)) (map (\<lambda>i. sg_arr others ! unat i) is)"
proof (induction "is" arbitrary: sg)
  case Nil
  then show ?case by simp
next
  case (Cons i "is")
  show ?case
  proof (cases "sg_size sg < n")
    case True
    with Cons.prems have "unat (sg_size sg) < MAX_NUM_SIGNATURES"
      by (simp add: word_less_nat_alt)
    from signs_add_ok [OF Cons.prems(1) this, of "sg_arr others ! unat i"]
    obtain sg1 where sg1: "signs_add sg (sg_arr others ! unat i) = Inr sg1" "signs_ok sg1"
      "sig_list sg1 = sig_list sg @ [sg_arr others ! unat i]" by blast
    moreover have "length (sig_list sg) < unat n"
      using True Cons.prems(1) by (simp add: length_sig_list word_less_nat_alt)
    ultimately show ?thesis
      using Cons.IH [OF sg1(2) Cons.prems(2)] Cons.prems True
      by (auto simp: signs_get_def Suc_diff_Suc take_Cons' simp flip: Suc_diff_Suc)
  next
    case False
    with Cons.prems show ?thesis
      by (simp add: length_sig_list word_less_nat_alt not_less)
  qed
qed

lemma map_nth_prefix: "n \<le> length xs \<Longrightarrow> map ((!) xs) [0..<n] = take n xs"
  by (intro nth_equalityI) auto

lemma addUpto_ok:
  "signs_ok sg \<Longrightarrow> signs_ok others \<Longrightarrow> unat n \<le> MAX_NUM_SIGNATURES \<Longrightarrow>
   \<exists>sg'. addUpto sg others n = Inr sg' \<and> signs_ok sg' \<and>
     sig_list sg' = sig_list sg @ take (unat n - length (sig_list sg)) (sig_list others)"
proof -
  assume a: "signs_ok sg" "signs_ok others" "unat n \<le> MAX_NUM_SIGNATURES"
  have u: "unat (word_of_nat i :: u32) = i" if "i < unat (sg_size others)" for i
    using that by (metis unat_of_nat_u32 order.strict_trans unat_u32_less)
  with a(2) have "map (\<lambda>i. sg_arr others ! unat i) (map word_of_nat [0..<unat (sg_size others)] :: u32 list)
      = sig_list others"
    by (auto simp: sig_list_def signs_ok_def comp_def simp flip: map_nth_prefix intro!: map_cong)
  with addUpto_loop_ok [OF a(1,3), of "map word_of_nat [0..<unat (sg_size others)]" others] a(2) u
  show ?thesis by (auto simp: addUpto_def signs_ok_def)
qed

text \<open>
  \<open>addUpto(others, n)\<close> appends the signatures of \<open>others\<close> in order until there are
  \<open>n\<close>, and stays inside both arrays when \<open>n\<close> is at most \<open>MAX_NUM_SIGNATURES\<close>.
\<close>

theorem addUpto_correct:
  "signs_ok sg \<Longrightarrow> signs_ok others \<Longrightarrow> unat n \<le> MAX_NUM_SIGNATURES \<Longrightarrow>
   \<exists>sg'. addUpto sg others n = Inr sg' \<and> signs_ok sg' \<and>
     sig_list sg' = sig_list sg @ take (unat n - length (sig_list sg)) (sig_list others)"
  by (rule addUpto_ok)

theorem addUpto_correct_witness:
  "\<exists>sg'. addUpto (Signs_one (Sign_char 1 65)) (Signs_one (Sign_char 2 66)) 2 = Inr sg' \<and>
     sig_list sg' = [Sign_char 1 65, Sign_char 2 66]"
  using addUpto_correct [of "Signs_one (Sign_char 1 65)" "Signs_one (Sign_char 2 66)" 2]
  by (auto simp: MAX_NUM_SIGNATURES_def)

end
