(* ===== verification/Justs.thy ===== *)
theory Justs
  imports Blocks RoundData Signatures
begin

text \<open>
  \<open>App/Just.cpp\<close> (justifications: round data with signatures), \<open>App/JBlock.cpp\<close> (the
  blocks of the chained protocol, which carry a justification), \<open>App/Proposal.cpp\<close>,
  \<open>App/ParaProposal.cpp\<close> and the message structs of \<open>App/Message.h\<close> with their
  \<open>operator<\<close>.

  The \<open>union\<close> of \<open>Just\<close> is a datatype whose constructor is the \<open>type\<close> tag. The checked
  getters throw on the wrong tag; the members that read \<open>this->rdata\<close> without looking at
  the tag read the members that both alternatives begin with.
\<close>

section \<open>Just\<close>

datatype RDataType = Type_RData | Type_RDataPara

datatype RoundUnion = URData RData | URDataPara RDataPara

record Just =
  j_set :: bool
  j_signs :: Signs
  j_data :: RoundUnion

definition Just_default :: Just where \<comment> \<open>\<open>Just()\<close>\<close>
  "Just_default = \<lparr>j_set = False, j_signs = Signs_empty, j_data = URData RData_default\<rparr>"

definition Just_typed :: "RDataType \<Rightarrow> Just" where \<comment> \<open>\<open>Just(RDataType type)\<close>\<close>
  "Just_typed t =
     (case t of
        Type_RData \<Rightarrow> \<lparr>j_set = False, j_signs = Signs_empty, j_data = URData RData_default\<rparr>
      | Type_RDataPara \<Rightarrow> \<lparr>j_set = False, j_signs = Signs_empty, j_data = URDataPara RDataPara_default\<rparr>)"

definition Just_sign :: "RData \<Rightarrow> Sign \<Rightarrow> Just" where
  "Just_sign r s = \<lparr>j_set = True, j_signs = Signs_one s, j_data = URData r\<rparr>"

definition JustPara_sign :: "RDataPara \<Rightarrow> Sign \<Rightarrow> Just" where
  "JustPara_sign r s = \<lparr>j_set = True, j_signs = Signs_one s, j_data = URDataPara r\<rparr>"

definition Just_signs :: "RData \<Rightarrow> Signs \<Rightarrow> Just" where
  "Just_signs r ss = \<lparr>j_set = True, j_signs = ss, j_data = URData r\<rparr>"

definition JustPara_signs :: "RDataPara \<Rightarrow> Signs \<Rightarrow> Just" where
  "JustPara_signs r ss = \<lparr>j_set = True, j_signs = ss, j_data = URDataPara r\<rparr>"

definition Just_flag :: "bool \<Rightarrow> RData \<Rightarrow> Signs \<Rightarrow> Just" where
  "Just_flag b r ss = \<lparr>j_set = b, j_signs = ss, j_data = URData r\<rparr>"

definition JustPara_flag :: "bool \<Rightarrow> RDataPara \<Rightarrow> Signs \<Rightarrow> Just" where
  "JustPara_flag b r ss = \<lparr>j_set = b, j_signs = ss, j_data = URDataPara r\<rparr>"

definition getRData :: "Just \<Rightarrow> RData res" where
  "getRData j = (case j_data j of URData r \<Rightarrow> Inr r | URDataPara _ \<Rightarrow> Inl RuntimeError)"

definition getRDataPara :: "Just \<Rightarrow> RDataPara res" where
  "getRDataPara j = (case j_data j of URDataPara r \<Rightarrow> Inr r | URData _ \<Rightarrow> Inl RuntimeError)"

definition getRDataType :: "Just \<Rightarrow> RDataType" where
  "getRDataType j = (case j_data j of URData _ \<Rightarrow> Type_RData | URDataPara _ \<Rightarrow> Type_RDataPara)"

text \<open>\<open>this->rdata\<close> read without a test of the tag.\<close>

definition union_rdata :: "Just \<Rightarrow> RData" where
  "union_rdata j = (case j_data j of URData r \<Rightarrow> r | URDataPara r \<Rightarrow> RData.truncate r)"

definition just_toString :: "Just \<Rightarrow> bytes res" where
  "just_toString j =
     bindE (signs_toString (j_signs j)) (\<lambda>ss.
       Inr (bool_string (j_set j)
            @ (case j_data j of URData r \<Rightarrow> rdata_toString r | URDataPara r \<Rightarrow> rdataPara_toString r)
            @ ss))"

definition wellFormedInit :: "Just \<Rightarrow> bool" where
  "wellFormedInit j =
     (getRDataType j = Type_RData \<and> propv (union_rdata j) = 0 \<and> justv (union_rdata j) = 0
      \<and> phase (union_rdata j) = PH1_NEWVIEW \<and> sg_size (j_signs j) = 0)"

definition wellFormedNv :: "Just \<Rightarrow> bool" where
  "wellFormedNv j =
     (hset (justh (union_rdata j)) \<and> phase (union_rdata j) = PH1_NEWVIEW \<and> sg_size (j_signs j) = 1)"

definition wellFormedPrep :: "Just \<Rightarrow> u32 \<Rightarrow> bool" where
  "wellFormedPrep j qsize =
     (hset (proph (union_rdata j)) \<and> phase (union_rdata j) = PH1_PREPARE \<and> sg_size (j_signs j) = qsize)"

definition wellFormed :: "Just \<Rightarrow> u32 \<Rightarrow> bool" where
  "wellFormed j qsize = (wellFormedInit j \<or> wellFormedNv j \<or> wellFormedPrep j qsize)"

definition getCView :: "Just \<Rightarrow> View" where
  "getCView j = (if wellFormedInit j \<or> wellFormedNv j then justv (union_rdata j) else propv (union_rdata j))"

definition getCHash :: "Just \<Rightarrow> Hash" where
  "getCHash j = (if wellFormedInit j \<or> wellFormedNv j then justh (union_rdata j) else proph (union_rdata j))"

text \<open>
  \<open>operator==\<close>: when the flag and the type agree and the signatures differ, control
  leaves the function without a \<open>return\<close>.
\<close>

definition just_eq :: "Just \<Rightarrow> Just \<Rightarrow> bool res" where
  "just_eq a b =
     (if j_set a \<noteq> j_set b then Inr False
      else if getRDataType a \<noteq> getRDataType b then Inr False
      else if signs_eq (j_signs a) (j_signs b) then
        (case (j_data a, j_data b) of
           (URData r, URData r') \<Rightarrow> Inr (rdata_eq r r')
         | (URDataPara r, URDataPara r') \<Rightarrow> Inr (rdataPara_eq r r')
         | _ \<Rightarrow> Inr False)
      else Inl MissingReturn)"

lemma just_sel [simp]:
  "j_set (Just_sign r s) = True" "j_signs (Just_sign r s) = Signs_one s" "j_data (Just_sign r s) = URData r"
  "j_set (JustPara_sign r' s) = True" "j_signs (JustPara_sign r' s) = Signs_one s"
  "j_data (JustPara_sign r' s) = URDataPara r'"
  "j_set (Just_signs r ss) = True" "j_signs (Just_signs r ss) = ss" "j_data (Just_signs r ss) = URData r"
  "j_set (JustPara_signs r' ss) = True" "j_signs (JustPara_signs r' ss) = ss"
  "j_data (JustPara_signs r' ss) = URDataPara r'"
  "j_set (JustPara_flag b r' ss) = b" "j_signs (JustPara_flag b r' ss) = ss"
  "j_data (JustPara_flag b r' ss) = URDataPara r'"
  "j_set Just_default = False" "j_signs Just_default = Signs_empty"
  "j_data Just_default = URData RData_default"
  by (simp_all add: Just_sign_def JustPara_sign_def Just_signs_def JustPara_signs_def JustPara_flag_def
      Just_default_def)

lemma getRData_simps [simp]:
  "getRData (Just_sign r s) = Inr r" "getRData (Just_signs r ss) = Inr r"
  "getRData Just_default = Inr RData_default"
  "getRDataPara (JustPara_sign r' s) = Inr r'" "getRDataPara (JustPara_signs r' ss) = Inr r'"
  "getRDataPara (JustPara_flag b r' ss) = Inr r'"
  by (simp_all add: getRData_def getRDataPara_def)

lemma getRData_not_Diverges [simp]: "getRData j \<noteq> Inl Diverges" "getRDataPara j \<noteq> Inl Diverges"
  by (auto simp: getRData_def getRDataPara_def split: RoundUnion.splits)

lemma getRData_Inr_iff: "getRData j = Inr r \<longleftrightarrow> j_data j = URData r"
  by (auto simp: getRData_def split: RoundUnion.splits)

lemma getRDataPara_Inr_iff: "getRDataPara j = Inr r \<longleftrightarrow> j_data j = URDataPara r"
  by (auto simp: getRDataPara_def split: RoundUnion.splits)

lemma getRDataPara_typed [simp]: "getRDataPara (Just_typed Type_RDataPara) = Inr RDataPara_default"
  by (simp add: getRDataPara_def Just_typed_def)

lemma just_typed_sel [simp]:
  "j_set (Just_typed t) = False" "j_signs (Just_typed t) = Signs_empty"
  by (cases t; simp add: Just_typed_def)+

lemma just_eq_not_Diverges [simp]: "just_eq a b \<noteq> Inl Diverges"
  by (auto simp: just_eq_def split: RoundUnion.splits prod.splits)

text \<open>
  \<open>Just::operator==\<close> answers only when the flags differ, the types differ or the
  signatures agree; two justifications of the same kind whose signatures differ (for
  instance the leader justifications of two views) make it run off its end, which is
  undefined. When it answers true, both carry the same type, signatures and round data.
\<close>

theorem just_eq_spec:
  "(just_eq a b = Inl MissingReturn \<longleftrightarrow>
      j_set a = j_set b \<and> getRDataType a = getRDataType b \<and> \<not> signs_eq (j_signs a) (j_signs b)) \<and>
   (just_eq a b = Inr True \<longleftrightarrow>
      j_set a = j_set b \<and> signs_eq (j_signs a) (j_signs b) \<and>
      (case (j_data a, j_data b) of
         (URData r, URData r') \<Rightarrow> rdata_eq r r'
       | (URDataPara r, URDataPara r') \<Rightarrow> rdataPara_eq r r'
       | _ \<Rightarrow> False))"
  by (auto simp: just_eq_def getRDataType_def split: RoundUnion.splits)

section \<open>JBlock (chained protocol)\<close>

record JBlock =
  jb_set :: bool
  jb_executed :: bool
  jb_view :: View
  jb_just :: Just
  jb_size :: u32
  jb_transactions :: "Transaction list"

definition JBlock_flag :: "bool \<Rightarrow> JBlock" where
  "JBlock_flag b = \<lparr>jb_set = b, jb_executed = False, jb_view = 0, jb_just = Just_default, jb_size = 0,
                   jb_transactions = replicate MAX_NUM_TRANSACTIONS Transaction_dummy\<rparr>"

definition JBlock_genesis :: JBlock where \<comment> \<open>\<open>JBlock()\<close>\<close>
  "JBlock_genesis = JBlock_flag True"

definition JBlock_new :: "View \<Rightarrow> Just \<Rightarrow> u32 \<Rightarrow> Transaction list \<Rightarrow> JBlock" where
  "JBlock_new v j sz ts =
     \<lparr>jb_set = True, jb_executed = False, jb_view = v, jb_just = j, jb_size = sz,
      jb_transactions = take MAX_NUM_TRANSACTIONS ts\<rparr>"

definition jblock_transactions2string :: "JBlock \<Rightarrow> bytes res" where
  "jblock_transactions2string b =
     bindE (arr_prefix (jb_transactions b) (unat (jb_size b)))
       (\<lambda>ts. Inr (concat (map trans_toString ts)))"

definition jblock_toString :: "JBlock \<Rightarrow> bytes res" where
  "jblock_toString b =
     bindE (just_toString (jb_just b)) (\<lambda>js.
     bindE (jblock_transactions2string b) (\<lambda>ts.
       Inr (bool_string (jb_set b) @ to_string (jb_view b) @ js @ to_string (jb_size b) @ ts)))"

definition jblock_hash :: "crypto \<Rightarrow> JBlock \<Rightarrow> Hash res" where
  "jblock_hash C b = bindE (jblock_toString b) (\<lambda>text. Inr (Hash_of (SHA256 C text)))"

definition jblock_extends :: "JBlock \<Rightarrow> Hash \<Rightarrow> bool res" where
  "jblock_extends b h =
     bindE (getRData (jb_just b)) (\<lambda>r.
       if hset (proph r) then Inr (hash_eq (proph r) h)
       else if hset (justh r) then Inr (hash_eq (justh r) h)
       else Inr False)"

definition markExecuted :: "JBlock \<Rightarrow> JBlock" where
  "markExecuted b = b\<lparr>jb_executed := True\<rparr>"

definition jblock_ok :: "JBlock \<Rightarrow> bool" where
  "jblock_ok b \<longleftrightarrow> length (jb_transactions b) = MAX_NUM_TRANSACTIONS \<and>
     unat (jb_size b) \<le> MAX_NUM_TRANSACTIONS \<and> signs_ok (j_signs (jb_just b))"

lemma jblock_hash_ok: "jblock_ok b \<Longrightarrow> \<exists>h. jblock_hash C b = Inr h \<and> hset h"
  by (simp add: jblock_hash_def jblock_toString_def just_toString_def jblock_transactions2string_def
      jblock_ok_def signs_toString_ok)

lemma jblock_hash_not_Diverges [simp]: "jblock_hash C b \<noteq> Inl Diverges"
  by (simp add: jblock_hash_def jblock_toString_def just_toString_def jblock_transactions2string_def
      signs_toString_def bindE_Inl_iff)

lemma jblock_ok_constructors [simp]: "jblock_ok (JBlock_flag b)" "jblock_ok JBlock_genesis"
  by (simp_all add: jblock_ok_def JBlock_flag_def JBlock_genesis_def)

text \<open>Executing a block changes the flag only; the hash does not cover it.\<close>

lemma jblock_hash_markExecuted [simp]: "jblock_hash C (markExecuted b) = jblock_hash C b"
  by (simp add: jblock_hash_def jblock_toString_def jblock_transactions2string_def markExecuted_def)

section \<open>Proposals and messages\<close>

record 'b proposal =
  pr_just :: Just
  pr_block :: 'b

type_synonym Proposal = "Block proposal"
type_synonym ParaProposal = "PBlock proposal"

definition Proposal_new :: "Just \<Rightarrow> 'b \<Rightarrow> 'b proposal" where
  "Proposal_new j b = \<lparr>pr_just = j, pr_block = b\<rparr>"

definition proposal_toString :: "Proposal \<Rightarrow> bytes res" where
  "proposal_toString p =
     bindE (just_toString (pr_just p)) (\<lambda>js. bindE (block_toString (pr_block p)) (\<lambda>bs. Inr (js @ bs)))"

definition paraProposal_toString :: "ParaProposal \<Rightarrow> bytes res" where
  "paraProposal_toString p =
     bindE (just_toString (pr_just p)) (\<lambda>js. bindE (pblock_toString (pr_block p)) (\<lambda>bs. Inr (js @ bs)))"

text \<open>Round data with signatures: new-view, prepare, pre-commit and commit messages.\<close>

record 'd msg =
  m_rdata :: 'd
  m_signs :: Signs

type_synonym MsgNewView = "RData msg"
type_synonym MsgPrepare = "RData msg"
type_synonym MsgPreCommit = "RData msg"
type_synonym MsgCommit = "RData msg"
type_synonym MsgNewViewPara = "RDataPara msg"
type_synonym MsgPreparePara = "RDataPara msg"
type_synonym MsgPreCommitPara = "RDataPara msg"
type_synonym MsgCommitPara = "RDataPara msg"

definition Msg_new :: "'d \<Rightarrow> Signs \<Rightarrow> 'd msg" where
  "Msg_new r ss = \<lparr>m_rdata = r, m_signs = ss\<rparr>"

definition MsgCommitPara_default :: MsgCommitPara where
  "MsgCommitPara_default = Msg_new RDataPara_default Signs_empty"

record 'p ldr_msg =
  l_prop :: 'p
  l_signs :: Signs

type_synonym MsgLdrPrepare = "Proposal ldr_msg"
type_synonym MsgLdrPreparePara = "ParaProposal ldr_msg"

definition LdrMsg_new :: "'p \<Rightarrow> Signs \<Rightarrow> 'p ldr_msg" where
  "LdrMsg_new p ss = \<lparr>l_prop = p, l_signs = ss\<rparr>"

definition MsgLdrPrepare_default :: MsgLdrPrepare where
  "MsgLdrPrepare_default = LdrMsg_new (Proposal_new Just_default Block_genesis) Signs_empty"

definition MsgLdrPreparePara_default :: MsgLdrPreparePara where
  "MsgLdrPreparePara_default = LdrMsg_new (Proposal_new Just_default PBlock_default) Signs_empty"

text \<open>The chained protocol: one signature.\<close>

record MsgCh =
  c_data :: RData
  c_sign :: Sign

type_synonym MsgNewViewCh = MsgCh
type_synonym MsgPrepareCh = MsgCh

record MsgLdrPrepareCh =
  lc_block :: JBlock
  lc_sign :: Sign

text \<open>The parallel protocol's recovery and verification messages.\<close>

record MsgRecoverPara =
  rc_rdata :: RDataPara
  rc_signs :: Signs
  rc_blocks :: "PBlock list"

record MsgLdrRecoverPara =
  lr_rdata :: RDataPara
  lr_signs :: Signs
  lr_missing :: "u32 list"

record MsgVerifyPara =
  vf_rdata :: RDataPara
  vf_signs :: Signs
  vf_hashes :: "Hash list"

definition MsgVerifyPara_default :: MsgVerifyPara where
  "MsgVerifyPara_default = \<lparr>vf_rdata = RDataPara_default, vf_signs = Signs_empty, vf_hashes = []\<rparr>"

definition verify_isEmpty :: "MsgVerifyPara \<Rightarrow> bool" where
  "verify_isEmpty m = (vf_hashes m = [])"

record MsgTransaction =
  t_trans :: Transaction
  t_sign :: Sign

record MsgStart =
  st_cid :: CID
  st_sign :: Sign

record MsgReply =
  reply :: TID

text \<open>The \<open>operator<\<close> of the structs: by the signatures only.\<close>

definition msg_less :: "'d msg \<Rightarrow> 'd msg \<Rightarrow> bool" where
  "msg_less a b = (if signs_less (m_signs a) (m_signs b) then True else False)"

definition ldr_msg_less :: "'p ldr_msg \<Rightarrow> 'p ldr_msg \<Rightarrow> bool" where
  "ldr_msg_less a b = (if signs_less (l_signs a) (l_signs b) then True else False)"

definition msgCh_less :: "MsgCh \<Rightarrow> MsgCh \<Rightarrow> bool" where
  "msgCh_less a b = (if sign_less (c_sign a) (c_sign b) then True else False)"

definition msgLdrPrepareCh_less :: "MsgLdrPrepareCh \<Rightarrow> MsgLdrPrepareCh \<Rightarrow> bool" where
  "msgLdrPrepareCh_less a b = (if sign_less (lc_sign a) (lc_sign b) then True else False)"

interpretation msg_order: strict_weak_order msg_less
  by (rule swo_of_key [of _ "\<lambda>m. (sg_size (m_signs m), map signer (sig_list (m_signs m)))"])
     (simp add: msg_less_def signs_less_iff)

interpretation ldr_msg_order: strict_weak_order ldr_msg_less
  by (rule swo_of_key [of _ "\<lambda>m. (sg_size (l_signs m), map signer (sig_list (l_signs m)))"])
     (simp add: ldr_msg_less_def signs_less_iff)

interpretation msgCh_order: strict_weak_order msgCh_less
  by (rule swo_of_key [of _ "\<lambda>m. signer (c_sign m)"]) (simp add: msgCh_less_def sign_less_def)

interpretation msgLdrPrepareCh_order: strict_weak_order msgLdrPrepareCh_less
  by (rule swo_of_key [of _ "\<lambda>m. signer (lc_sign m)"]) (simp add: msgLdrPrepareCh_less_def sign_less_def)

lemma msg_sel [simp]:
  "m_rdata (Msg_new r ss) = r" "m_signs (Msg_new r ss) = ss"
  "l_prop (LdrMsg_new p ss) = p" "l_signs (LdrMsg_new p ss) = ss"
  "pr_just (Proposal_new j b) = j" "pr_block (Proposal_new j b) = b"
  by (simp_all add: Msg_new_def LdrMsg_new_def Proposal_new_def)

end
