(* ===== verification/MsgLog.thy ===== *)
theory MsgLog
  imports Justs
begin

text \<open>
  \<open>App/Log.cpp\<close>: the log of received messages. Messages are kept per view (and per
  sequence number for the parallel protocol) in a \<open>std::set\<close> ordered by \<open>operator<\<close>.
  The \<open>store\<close> functions of one protocol share one body, as do the \<open>get\<close> functions;
  \<open>store_new\<close>, \<open>store_seq\<close>, \<open>collect\<close> and \<open>first_of\<close> are those bodies and every
  member function of the class instantiates one of them.
\<close>

section \<open>State\<close>

record Log =
  newviews :: "(View, MsgNewView list) stdmap"
  prepares :: "(View, MsgPrepare list) stdmap"
  precommits :: "(View, MsgPreCommit list) stdmap"
  commits :: "(View, MsgCommit list) stdmap"
  proposals :: "(View, MsgLdrPrepare list) stdmap"
  newviewsCh :: "(View, MsgNewViewCh list) stdmap"
  preparesCh :: "(View, MsgPrepareCh list) stdmap"
  ldrpreparesCh :: "(View, MsgLdrPrepareCh list) stdmap"
  newviewsPara :: "(View, MsgNewViewPara list) stdmap"
  verifiesPara :: "(View, MsgVerifyPara) stdmap"
  preparesPara :: "(View, (u32, MsgPreparePara list) stdmap) stdmap"
  precommitsPara :: "(View, (u32, MsgPreCommitPara list) stdmap) stdmap"
  commitsPara :: "(View, (u32, MsgCommitPara list) stdmap) stdmap"
  proposalsPara :: "(View, (u32, MsgLdrPreparePara list) stdmap) stdmap"

definition Log_empty :: Log where
  "Log_empty = \<lparr>newviews = [], prepares = [], precommits = [], commits = [], proposals = [],
     newviewsCh = [], preparesCh = [], ldrpreparesCh = [], newviewsPara = [], verifiesPara = [],
     preparesPara = [], precommitsPara = [], commitsPara = [], proposalsPara = []\<rparr>"

section \<open>Has everyone of these signers been heard?\<close>

text \<open>
  The six templates \<open>msgNewViewFrom\<close>, ..., \<open>msgVerifyFrom\<close>: every signer of every stored
  message is erased from \<open>signers\<close>; the answer is true as soon as the set is empty after
  an erase. \<open>erase_signers\<close> is the inner loop (\<open>None\<close>: it returned true).
\<close>

fun erase_signers :: "PID list \<Rightarrow> PID list \<Rightarrow> PID list option" where
  "erase_signers signers [] = Some signers"
| "erase_signers signers (p # k) =
     (let signers = removeAll p signers in if signers = [] then None else erase_signers signers k)"

fun msgs_from :: "('m \<Rightarrow> Signs) \<Rightarrow> 'm list \<Rightarrow> PID list \<Rightarrow> bool res" where
  "msgs_from sg [] signers = Inr False"
| "msgs_from sg (m # ms) signers =
     bindE (getSigners (sg m)) (\<lambda>k.
       case erase_signers signers k of
         None \<Rightarrow> Inr True
       | Some signers \<Rightarrow> msgs_from sg ms signers)"

definition msgNewViewFrom :: "'d msg list \<Rightarrow> PID list \<Rightarrow> bool res" where
  "msgNewViewFrom = msgs_from m_signs"
definition msgPrepareFrom :: "'d msg list \<Rightarrow> PID list \<Rightarrow> bool res" where
  "msgPrepareFrom = msgs_from m_signs"
definition msgPreCommitFrom :: "'d msg list \<Rightarrow> PID list \<Rightarrow> bool res" where
  "msgPreCommitFrom = msgs_from m_signs"
definition msgCommitFrom :: "'d msg list \<Rightarrow> PID list \<Rightarrow> bool res" where
  "msgCommitFrom = msgs_from m_signs"
definition msgLdrPrepareFrom :: "'p ldr_msg list \<Rightarrow> PID list \<Rightarrow> bool res" where
  "msgLdrPrepareFrom = msgs_from l_signs"

lemmas msg_from_defs = msgNewViewFrom_def msgPrepareFrom_def msgPreCommitFrom_def msgCommitFrom_def
  msgLdrPrepareFrom_def

definition msgNewViewChFrom :: "MsgNewViewCh list \<Rightarrow> PID \<Rightarrow> bool" where
  "msgNewViewChFrom msgs p = list_ex (\<lambda>m. p = signer (c_sign m)) msgs"
definition msgPrepareChFrom :: "MsgPrepareCh list \<Rightarrow> PID \<Rightarrow> bool" where
  "msgPrepareChFrom msgs p = list_ex (\<lambda>m. p = signer (c_sign m)) msgs"
definition msgLdrPrepareChFrom :: "MsgLdrPrepareCh list \<Rightarrow> PID \<Rightarrow> bool" where
  "msgLdrPrepareChFrom msgs p = list_ex (\<lambda>m. p = signer (lc_sign m)) msgs"

section \<open>Storing\<close>

text \<open>The basic and chained protocols: the number of messages after the insertion, 0 when already heard.\<close>

definition store_new :: "('m \<Rightarrow> 'm \<Rightarrow> bool) \<Rightarrow> ('m list \<Rightarrow> bool res) \<Rightarrow> View \<Rightarrow> 'm \<Rightarrow>
    (View, 'm list) stdmap \<Rightarrow> ((View, 'm list) stdmap \<times> u32) res" where
  "store_new lt heard v m log =
     (case map_find log v of
        Some msgs \<Rightarrow>
          bindE (heard msgs) (\<lambda>b.
            if \<not> b then
              (let msgs = set_insert lt m msgs in Inr (map_set v msgs log, word_of_nat (length msgs)))
            else Inr (log, 0))
      | None \<Rightarrow> Inr (map_set v [m] log, 1))"

definition storeNv :: "MsgNewView \<Rightarrow> Log \<Rightarrow> (Log \<times> u32) res" where
  "storeNv m l =
     bindE (getSigners (m_signs m)) (\<lambda>signers.
     bindE (store_new msg_less (\<lambda>ms. msgNewViewFrom ms signers) (propv (m_rdata m)) m (newviews l))
       (\<lambda>(x, n). Inr (l\<lparr>newviews := x\<rparr>, n)))"

definition storePrep :: "MsgPrepare \<Rightarrow> Log \<Rightarrow> (Log \<times> u32) res" where
  "storePrep m l =
     bindE (getSigners (m_signs m)) (\<lambda>signers.
     bindE (store_new msg_less (\<lambda>ms. msgPrepareFrom ms signers) (propv (m_rdata m)) m (prepares l))
       (\<lambda>(x, n). Inr (l\<lparr>prepares := x\<rparr>, n)))"

definition storePc :: "MsgPreCommit \<Rightarrow> Log \<Rightarrow> (Log \<times> u32) res" where
  "storePc m l =
     bindE (getSigners (m_signs m)) (\<lambda>signers.
     bindE (store_new msg_less (\<lambda>ms. msgPreCommitFrom ms signers) (propv (m_rdata m)) m (precommits l))
       (\<lambda>(x, n). Inr (l\<lparr>precommits := x\<rparr>, n)))"

definition storeCom :: "MsgCommit \<Rightarrow> Log \<Rightarrow> (Log \<times> u32) res" where
  "storeCom m l =
     bindE (getSigners (m_signs m)) (\<lambda>signers.
     bindE (store_new msg_less (\<lambda>ms. msgCommitFrom ms signers) (propv (m_rdata m)) m (commits l))
       (\<lambda>(x, n). Inr (l\<lparr>commits := x\<rparr>, n)))"

definition storeProp :: "MsgLdrPrepare \<Rightarrow> Log \<Rightarrow> (Log \<times> u32) res" where
  "storeProp m l =
     bindE (getRData (pr_just (l_prop m))) (\<lambda>r.
     bindE (getSigners (l_signs m)) (\<lambda>signers.
     bindE (store_new ldr_msg_less (\<lambda>ms. msgLdrPrepareFrom ms signers) (propv r) m (proposals l))
       (\<lambda>(x, n). Inr (l\<lparr>proposals := x\<rparr>, n))))"

definition storeNvCh :: "MsgNewViewCh \<Rightarrow> Log \<Rightarrow> (Log \<times> u32) res" where
  "storeNvCh m l =
     bindE (store_new msgCh_less (\<lambda>ms. Inr (msgNewViewChFrom ms (signer (c_sign m))))
              (propv (c_data m)) m (newviewsCh l))
       (\<lambda>(x, n). Inr (l\<lparr>newviewsCh := x\<rparr>, n))"

definition storePrepCh :: "MsgPrepareCh \<Rightarrow> Log \<Rightarrow> (Log \<times> u32) res" where
  "storePrepCh m l =
     bindE (store_new msgCh_less (\<lambda>ms. Inr (msgPrepareChFrom ms (signer (c_sign m))))
              (propv (c_data m)) m (preparesCh l))
       (\<lambda>(x, n). Inr (l\<lparr>preparesCh := x\<rparr>, n))"

definition storeLdrPrepCh :: "MsgLdrPrepareCh \<Rightarrow> Log \<Rightarrow> (Log \<times> u32) res" where
  "storeLdrPrepCh m l =
     bindE (store_new msgLdrPrepareCh_less (\<lambda>ms. Inr (msgLdrPrepareChFrom ms (signer (lc_sign m))))
              (jb_view (lc_block m)) m (ldrpreparesCh l))
       (\<lambda>(x, n). Inr (l\<lparr>ldrpreparesCh := x\<rparr>, n))"

definition storeNvPara :: "MsgNewViewPara \<Rightarrow> Log \<Rightarrow> (Log \<times> u32) res" where
  "storeNvPara m l =
     bindE (getSigners (m_signs m)) (\<lambda>signers.
     bindE (store_new msg_less (\<lambda>ms. msgNewViewFrom ms signers) (propv (m_rdata m)) m (newviewsPara l))
       (\<lambda>(x, n). Inr (l\<lparr>newviewsPara := x\<rparr>, n)))"

text \<open>
  The per-sequence-number stores of the parallel protocol: missing entries are created,
  and the number of stored messages is returned whether or not the message was new.
\<close>

definition store_seq :: "('m \<Rightarrow> 'm \<Rightarrow> bool) \<Rightarrow> ('m list \<Rightarrow> bool res) \<Rightarrow> View \<Rightarrow> u32 \<Rightarrow> 'm \<Rightarrow>
    (View, (u32, 'm list) stdmap) stdmap \<Rightarrow> ((View, (u32, 'm list) stdmap) stdmap \<times> u32) res" where
  "store_seq lt heard v sq m log =
     (let viewMap = fst (map_at [] log v); msgs = fst (map_at [] viewMap sq)
      in bindE (heard msgs) (\<lambda>b.
           let msgs = (if \<not> b then set_insert lt m msgs else msgs)
           in Inr (map_set v (map_set sq msgs viewMap) log, word_of_nat (length msgs))))"

definition storePrepPara :: "MsgPreparePara \<Rightarrow> Log \<Rightarrow> (Log \<times> u32) res" where
  "storePrepPara m l =
     bindE (getSigners (m_signs m)) (\<lambda>signers.
     bindE (store_seq msg_less (\<lambda>ms. msgPrepareFrom ms signers) (propv (m_rdata m))
              (seqNumber (m_rdata m)) m (preparesPara l))
       (\<lambda>(x, n). Inr (l\<lparr>preparesPara := x\<rparr>, n)))"

definition storePcPara :: "MsgPreCommitPara \<Rightarrow> Log \<Rightarrow> (Log \<times> u32) res" where
  "storePcPara m l =
     bindE (getSigners (m_signs m)) (\<lambda>signers.
     bindE (store_seq msg_less (\<lambda>ms. msgPreCommitFrom ms signers) (propv (m_rdata m))
              (seqNumber (m_rdata m)) m (precommitsPara l))
       (\<lambda>(x, n). Inr (l\<lparr>precommitsPara := x\<rparr>, n)))"

definition storeComPara :: "MsgCommitPara \<Rightarrow> Log \<Rightarrow> (Log \<times> u32) res" where
  "storeComPara m l =
     bindE (getSigners (m_signs m)) (\<lambda>signers.
     bindE (store_seq msg_less (\<lambda>ms. msgCommitFrom ms signers) (propv (m_rdata m))
              (seqNumber (m_rdata m)) m (commitsPara l))
       (\<lambda>(x, n). Inr (l\<lparr>commitsPara := x\<rparr>, n)))"

definition storePropPara :: "MsgLdrPreparePara \<Rightarrow> Log \<Rightarrow> (Log \<times> u32) res" where
  "storePropPara m l =
     bindE (getRDataPara (pr_just (l_prop m))) (\<lambda>r.
     bindE (getSigners (l_signs m)) (\<lambda>signers.
     bindE (store_seq ldr_msg_less (\<lambda>ms. msgLdrPrepareFrom ms signers) (propv r)
              (p_seqNumber (pr_block (l_prop m))) m (proposalsPara l))
       (\<lambda>(x, n). Inr (l\<lparr>proposalsPara := x\<rparr>, n))))"

definition storeVerifyPara :: "MsgVerifyPara \<Rightarrow> Log \<Rightarrow> Log \<times> u32" where
  "storeVerifyPara m l = (l\<lparr>verifiesPara := map_set (propv (vf_rdata m)) m (verifiesPara l)\<rparr>, 1)"

section \<open>Reading\<close>

text \<open>Signatures of the messages in set order, up to \<open>n\<close>.\<close>

fun collect :: "('m \<Rightarrow> Signs) \<Rightarrow> u32 \<Rightarrow> 'm list \<Rightarrow> Signs \<Rightarrow> Signs res" where
  "collect sg n [] signs = Inr signs"
| "collect sg n (m # ms) signs =
     (if sg_size signs < n then bindE (addUpto signs (sg m) n) (collect sg n ms) else Inr signs)"

definition collect_at :: "('m \<Rightarrow> Signs) \<Rightarrow> u32 \<Rightarrow> 'm list option \<Rightarrow> Signs res" where
  "collect_at sg n entry = (case entry of Some msgs \<Rightarrow> collect sg n msgs Signs_empty | None \<Rightarrow> Inr Signs_empty)"

definition getNewView :: "View \<Rightarrow> u32 \<Rightarrow> Log \<Rightarrow> Signs res" where
  "getNewView v n l = collect_at m_signs n (map_find (newviews l) v)"
definition getPrepare :: "View \<Rightarrow> u32 \<Rightarrow> Log \<Rightarrow> Signs res" where
  "getPrepare v n l = collect_at m_signs n (map_find (prepares l) v)"
definition getPrecommit :: "View \<Rightarrow> u32 \<Rightarrow> Log \<Rightarrow> Signs res" where
  "getPrecommit v n l = collect_at m_signs n (map_find (precommits l) v)"
definition getCommit :: "View \<Rightarrow> u32 \<Rightarrow> Log \<Rightarrow> Signs res" where
  "getCommit v n l = collect_at m_signs n (map_find (commits l) v)"
definition getPrepareCh :: "View \<Rightarrow> u32 \<Rightarrow> Log \<Rightarrow> Signs res" where
  "getPrepareCh v n l = collect_at (\<lambda>m. Signs_one (c_sign m)) n (map_find (preparesCh l) v)"
definition getNewViewPara :: "View \<Rightarrow> u32 \<Rightarrow> Log \<Rightarrow> Signs res" where
  "getNewViewPara v n l = collect_at m_signs n (map_find (newviewsPara l) v)"

definition seq_find :: "(View, (u32, 'm) stdmap) stdmap \<Rightarrow> View \<Rightarrow> u32 \<Rightarrow> 'm option" where
  "seq_find log v sq = (case map_find log v of Some viewMap \<Rightarrow> map_find viewMap sq | None \<Rightarrow> None)"

definition getPreparePara :: "View \<Rightarrow> u32 \<Rightarrow> u32 \<Rightarrow> Log \<Rightarrow> Signs res" where
  "getPreparePara v n sq l = collect_at m_signs n (seq_find (preparesPara l) v sq)"
definition getPrecommitPara :: "View \<Rightarrow> u32 \<Rightarrow> u32 \<Rightarrow> Log \<Rightarrow> Signs res" where
  "getPrecommitPara v n sq l = collect_at m_signs n (seq_find (precommitsPara l) v sq)"
definition getCommitPara :: "View \<Rightarrow> u32 \<Rightarrow> u32 \<Rightarrow> Log \<Rightarrow> Signs res" where
  "getCommitPara v n sq l = collect_at m_signs n (seq_find (commitsPara l) v sq)"

text \<open>\<open>getNewViewCh\<close>: the first \<open>n\<close> messages, as a set again.\<close>

fun take_set :: "('m \<Rightarrow> 'm \<Rightarrow> bool) \<Rightarrow> nat \<Rightarrow> 'm list \<Rightarrow> 'm list \<Rightarrow> 'm list" where
  "take_set lt n [] ret = ret"
| "take_set lt n (m # ms) ret = (if length ret < n then take_set lt n ms (set_insert lt m ret) else ret)"

definition getNewViewCh :: "View \<Rightarrow> u32 \<Rightarrow> Log \<Rightarrow> MsgNewViewCh list" where
  "getNewViewCh v n l =
     (case map_find (newviewsCh l) v of Some msgs \<Rightarrow> take_set msgCh_less (unat n) msgs [] | None \<Rightarrow> [])"

definition getVerifyPara :: "View \<Rightarrow> Log \<Rightarrow> MsgVerifyPara" where
  "getVerifyPara v l = (case map_find (verifiesPara l) v of Some m \<Rightarrow> m | None \<Rightarrow> MsgVerifyPara_default)"

text \<open>\<open>findHighestNv\<close>: the loop keeps the last message with the largest \<open>justv\<close>.\<close>

fun highest_loop :: "('m \<Rightarrow> View) \<Rightarrow> ('m \<Rightarrow> Just) \<Rightarrow> 'm list \<Rightarrow> View \<Rightarrow> Just \<Rightarrow> Just" where
  "highest_loop vw mk [] h just = just"
| "highest_loop vw mk (m # ms) h just =
     (if vw m \<ge> h then highest_loop vw mk ms (vw m) (mk m) else highest_loop vw mk ms h just)"

definition findHighestNv :: "View \<Rightarrow> Log \<Rightarrow> Just" where
  "findHighestNv v l =
     (case map_find (newviews l) v of
        Some msgs \<Rightarrow> highest_loop (\<lambda>m. justv (m_rdata m)) (\<lambda>m. Just_signs (m_rdata m) (m_signs m)) msgs 0 Just_default
      | None \<Rightarrow> Just_default)"

definition findHighestNvCh :: "View \<Rightarrow> Log \<Rightarrow> Just" where
  "findHighestNvCh v l =
     (case map_find (newviewsCh l) v of
        Some msgs \<Rightarrow> highest_loop (\<lambda>m. justv (c_data m)) (\<lambda>m. Just_sign (c_data m) (c_sign m)) msgs 0 Just_default
      | None \<Rightarrow> Just_default)"

text \<open>\<open>findHighestNvPara\<close>: the first message with the largest (\<open>justv\<close>, \<open>seqNumber\<close>).\<close>

fun highestPara_loop :: "MsgNewViewPara list \<Rightarrow> View \<Rightarrow> u32 option \<Rightarrow> Just \<Rightarrow> Just" where
  "highestPara_loop [] hv hs just = just"
| "highestPara_loop (m # ms) hv hs just =
     (let cv = justv (m_rdata m); cs = seqNumber (m_rdata m) in
      if cv > hv \<or> cv = hv \<and> (case hs of None \<Rightarrow> True | Some s \<Rightarrow> cs > s)
      then highestPara_loop ms cv (Some cs) (JustPara_signs (m_rdata m) (m_signs m))
      else highestPara_loop ms hv hs just)"

definition findHighestNvPara :: "View \<Rightarrow> Log \<Rightarrow> Just" where
  "findHighestNvPara v l =
     (case map_find (newviewsPara l) v of
        Some msgs \<Rightarrow> highestPara_loop msgs 0 None (Just_typed Type_RDataPara)
      | None \<Rightarrow> Just_typed Type_RDataPara)"

text \<open>The first element of a set, or the default.\<close>

definition first_of :: "'a \<Rightarrow> ('m \<Rightarrow> 'a) \<Rightarrow> 'm list option \<Rightarrow> 'a" where
  "first_of d f entry = (case entry of Some (m # _) \<Rightarrow> f m | _ \<Rightarrow> d)"

definition firstPrepare :: "View \<Rightarrow> Log \<Rightarrow> Just" where
  "firstPrepare v l = first_of Just_default (\<lambda>m. Just_signs (m_rdata m) (m_signs m)) (map_find (prepares l) v)"
definition firstPrecommit :: "View \<Rightarrow> Log \<Rightarrow> Just" where
  "firstPrecommit v l = first_of Just_default (\<lambda>m. Just_signs (m_rdata m) (m_signs m)) (map_find (precommits l) v)"
definition firstCommit :: "View \<Rightarrow> Log \<Rightarrow> Just" where
  "firstCommit v l = first_of Just_default (\<lambda>m. Just_signs (m_rdata m) (m_signs m)) (map_find (commits l) v)"
definition firstProposal :: "View \<Rightarrow> Log \<Rightarrow> MsgLdrPrepare" where
  "firstProposal v l = first_of MsgLdrPrepare_default (\<lambda>m. m) (map_find (proposals l) v)"
definition firstLdrPrepareCh :: "View \<Rightarrow> Log \<Rightarrow> MsgLdrPrepareCh" where
  "firstLdrPrepareCh v l =
     first_of \<lparr>lc_block = JBlock_genesis, lc_sign = Sign_default\<rparr> (\<lambda>m. m) (map_find (ldrpreparesCh l) v)"

definition firstPreparePara :: "View \<Rightarrow> u32 \<Rightarrow> Log \<Rightarrow> Just" where
  "firstPreparePara v sq l =
     first_of (Just_typed Type_RDataPara) (\<lambda>m. JustPara_signs (m_rdata m) (m_signs m)) (seq_find (preparesPara l) v sq)"
definition firstPrecommitPara :: "View \<Rightarrow> u32 \<Rightarrow> Log \<Rightarrow> Just" where
  "firstPrecommitPara v sq l =
     first_of (Just_typed Type_RDataPara) (\<lambda>m. JustPara_signs (m_rdata m) (m_signs m)) (seq_find (precommitsPara l) v sq)"
definition firstCommitPara :: "View \<Rightarrow> u32 \<Rightarrow> Log \<Rightarrow> Just" where
  "firstCommitPara v sq l =
     first_of (Just_typed Type_RDataPara) (\<lambda>m. JustPara_signs (m_rdata m) (m_signs m)) (seq_find (commitsPara l) v sq)"
definition firstProposalPara :: "View \<Rightarrow> u32 \<Rightarrow> Log \<Rightarrow> MsgLdrPreparePara" where
  "firstProposalPara v sq l = first_of MsgLdrPreparePara_default (\<lambda>m. m) (seq_find (proposalsPara l) v sq)"
definition getCommitForSeq :: "View \<Rightarrow> u32 \<Rightarrow> Log \<Rightarrow> MsgCommitPara" where
  "getCommitForSeq v sq l = first_of MsgCommitPara_default (\<lambda>m. m) (seq_find (commitsPara l) v sq)"

definition hasPrecommitForSeq :: "View \<Rightarrow> u32 \<Rightarrow> Log \<Rightarrow> bool" where
  "hasPrecommitForSeq v sq l = first_of False (\<lambda>m. True) (seq_find (precommitsPara l) v sq)"
definition hasPrepForSeq :: "View \<Rightarrow> u32 \<Rightarrow> Log \<Rightarrow> bool" where
  "hasPrepForSeq v sq l = first_of False (\<lambda>m. True) (seq_find (preparesPara l) v sq)"
definition hasCommitForSeq :: "View \<Rightarrow> u32 \<Rightarrow> Log \<Rightarrow> bool" where
  "hasCommitForSeq v sq l = first_of False (\<lambda>m. True) (seq_find (commitsPara l) v sq)"

end
