(* ===== verification/LogFacts.thy ===== *)
theory LogFacts
  imports MsgLog
begin

text \<open>
  What the log promises to the handlers. The interface \<open>vote_log\<close> says what a \<open>store\<close>
  function does to the messages kept under a key (a view, or a view and a sequence
  number); \<open>vote_log_fresh\<close> adds the count of the basic and chained stores (0 for a
  message whose signers have all been heard), \<open>vote_log_total\<close> that of the parallel
  stores (the size of the set, whether or not the message was new). Every \<open>store\<close>
  function is an interpretation, and the consequences (a count of \<open>n\<close> means at least \<open>n\<close>
  different signers) are proved once.
\<close>

section \<open>The signers heard\<close>

definition voters :: "('m \<Rightarrow> Signs) \<Rightarrow> 'm list \<Rightarrow> PID set" where
  "voters sg ms = (\<Union>m\<in>set ms. signer ` set (sig_list (sg m)))"

definition msg_good :: "('m \<Rightarrow> Signs) \<Rightarrow> 'm \<Rightarrow> bool" where
  "msg_good sg m \<longleftrightarrow> signs_ok (sg m) \<and> sig_list (sg m) \<noteq> []"

definition heard :: "('m \<Rightarrow> Signs) \<Rightarrow> 'm list \<Rightarrow> 'm \<Rightarrow> bool" where
  "heard sg ms m \<longleftrightarrow> ms \<noteq> [] \<and> signer ` set (sig_list (sg m)) \<subseteq> voters sg ms"

lemma voters_Nil [simp]: "voters sg [] = {}"
  by (simp add: voters_def)

lemma voters_Cons [simp]: "voters sg (m # ms) = signer ` set (sig_list (sg m)) \<union> voters sg ms"
  by (simp add: voters_def)

lemma finite_voters [simp]: "finite (voters sg ms)"
  by (simp add: voters_def)

lemma voters_set: "set ms = set ms' \<Longrightarrow> voters sg ms = voters sg ms'"
  by (simp add: voters_def)

lemma voters_nonempty: "voters sg ms \<noteq> {} \<longleftrightarrow> (\<exists>m\<in>set ms. sig_list (sg m) \<noteq> [])"
  by (auto simp: voters_def)

lemma erase_signers_eq:
  "erase_signers S k =
     (if k \<noteq> [] \<and> set S \<subseteq> set k then None else Some (filter (\<lambda>p. p \<notin> set k) S))"
proof (induction k arbitrary: S)
  case (Cons p k)
  have "removeAll p S = [] \<longleftrightarrow> set S \<subseteq> {p}"
    by (auto simp: removeAll_filter_not_eq filter_empty_conv)
  moreover have "filter (\<lambda>q. q \<notin> set k) (removeAll p S) = filter (\<lambda>q. q \<notin> set (p # k)) S"
    by (simp add: removeAll_filter_not_eq) (metis (mono_tags, lifting))
  ultimately show ?case
    by (auto simp: Let_def Cons)
qed simp

lemma msgs_from_eq:
  "\<forall>m\<in>set ms. signs_ok (sg m) \<Longrightarrow>
   msgs_from sg ms S = Inr ((\<exists>m\<in>set ms. sig_list (sg m) \<noteq> []) \<and> set S \<subseteq> voters sg ms)"
proof (induction ms arbitrary: S)
  case (Cons m ms)
  then obtain k where k: "getSigners (sg m) = Inr k"
    using getSigners_ok by fastforce
  have ks: "set k = signer ` set (sig_list (sg m))"
    by (rule getSigners_set [OF k])
  then have kn: "k = [] \<longleftrightarrow> sig_list (sg m) = []" by auto
  from Cons have IH: "msgs_from sg ms S' =
      Inr ((\<exists>m\<in>set ms. sig_list (sg m) \<noteq> []) \<and> set S' \<subseteq> voters sg ms)" for S'
    by simp
  show ?case
  proof (cases "k \<noteq> [] \<and> set S \<subseteq> set k")
    case True
    then show ?thesis using k ks kn by (auto simp: erase_signers_eq)
  next
    case False
    moreover have "set (filter (\<lambda>p. p \<notin> set k) S) \<subseteq> voters sg ms \<longleftrightarrow> set S \<subseteq> voters sg (m # ms)"
      using ks by auto
    moreover have "set S \<subseteq> voters sg (m # ms) \<Longrightarrow> \<not> set S \<subseteq> set k \<Longrightarrow> voters sg ms \<noteq> {}"
      using ks by auto
    ultimately show ?thesis
      using k ks kn by (auto simp: erase_signers_eq IH voters_nonempty)
  qed
qed simp

lemma msgs_from_good:
  "\<forall>x\<in>set ms. msg_good sg x \<Longrightarrow> getSigners (sg m) = Inr S \<Longrightarrow> msgs_from sg ms S = Inr (heard sg ms m)"
  by (subst msgs_from_eq, simp add: msg_good_def)
    (cases ms; auto simp: msg_good_def heard_def getSigners_set)

lemma msgs_from_not_Diverges [simp]: "msgs_from sg ms S \<noteq> Inl Diverges"
  by (induction ms arbitrary: S) (auto simp: bindE_Inl_iff split: option.splits)

section \<open>The interface of a store\<close>

text \<open>
  The invariant of the log: the messages under a key are ordered, good, and each of them
  brought at least one new signer.
\<close>

definition ballot_ok :: "('m \<Rightarrow> 'm \<Rightarrow> bool) \<Rightarrow> ('m \<Rightarrow> Signs) \<Rightarrow> 'm list \<Rightarrow> bool" where
  "ballot_ok lt sg ms \<longleftrightarrow>
     sorted_wrt lt ms \<and> (\<forall>m\<in>set ms. msg_good sg m) \<and> length ms \<le> card (voters sg ms)"

lemma ballot_ok_Nil [simp]: "ballot_ok lt sg []"
  by (simp add: ballot_ok_def)

lemma heard_again: "msg_good sg m \<Longrightarrow> signer ` set (sig_list (sg m)) \<subseteq> voters sg ms \<Longrightarrow> heard sg ms m"
  by (cases ms) (auto simp: heard_def msg_good_def)

locale vote_log =
  fixes store :: "'m \<Rightarrow> 'l \<Rightarrow> ('l \<times> u32) res"
    and entries :: "'l \<Rightarrow> 'k \<Rightarrow> 'm list"
    and key :: "'m \<Rightarrow> 'k"
    and sg :: "'m \<Rightarrow> Signs"
    and lt :: "'m \<Rightarrow> 'm \<Rightarrow> bool"
  assumes order: "strict_weak_order lt"
    and equiv_signers: "msg_good sg a \<Longrightarrow> msg_good sg b \<Longrightarrow> \<not> lt a b \<Longrightarrow> \<not> lt b a \<Longrightarrow>
          map signer (sig_list (sg a)) = map signer (sig_list (sg b))"
    and store_total: "\<forall>x\<in>set (entries l (key m)). msg_good sg x \<Longrightarrow> msg_good sg m \<Longrightarrow> \<exists>l' n. store m l = Inr (l', n)"
    and store_entries: "\<forall>x\<in>set (entries l (key m)). msg_good sg x \<Longrightarrow> msg_good sg m \<Longrightarrow> store m l = Inr (l', n) \<Longrightarrow>
          entries l' k = (if k = key m \<and> \<not> heard sg (entries l k) m
                          then set_insert lt m (entries l k) else entries l k)"
begin

definition votes_ok :: "'l \<Rightarrow> bool" where
  "votes_ok l \<longleftrightarrow> (\<forall>k. ballot_ok lt sg (entries l k))"

lemma votes_okD:
  "votes_ok l \<Longrightarrow> sorted_wrt lt (entries l k)"
  "votes_ok l \<Longrightarrow> m \<in> set (entries l k) \<Longrightarrow> msg_good sg m"
  "votes_ok l \<Longrightarrow> length (entries l k) \<le> card (voters sg (entries l k))"
  by (auto simp: votes_ok_def ballot_ok_def)

lemma unheard_inequiv:
  assumes "\<forall>x\<in>set ms. msg_good sg x" and "msg_good sg m" and "\<not> heard sg ms m"
  shows "\<forall>y\<in>set ms. lt m y \<or> lt y m"
proof (rule ccontr)
  assume "\<not> ?thesis"
  then obtain y where y: "y \<in> set ms" "\<not> lt m y" "\<not> lt y m" by blast
  with assms have "map signer (sig_list (sg m)) = map signer (sig_list (sg y))"
    by (intro equiv_signers) auto
  from arg_cong [OF this, of set] y(1) have "signer ` set (sig_list (sg m)) \<subseteq> voters sg ms"
    by (auto simp: voters_def)
  with y(1) assms(3) show False by (auto simp: heard_def)
qed

lemma insert_unheard:
  assumes "\<forall>x\<in>set ms. msg_good sg x" and "msg_good sg m" and "\<not> heard sg ms m"
  shows "length (set_insert lt m ms) = Suc (length ms)"
    and "set (set_insert lt m ms) = insert m (set ms)"
    and "voters sg (set_insert lt m ms) = signer ` set (sig_list (sg m)) \<union> voters sg ms"
proof -
  note * = strict_weak_order.insert_absent [OF order unheard_inequiv [OF assms]]
  then show "length (set_insert lt m ms) = Suc (length ms)"
    and s: "set (set_insert lt m ms) = insert m (set ms)" by auto
  show "voters sg (set_insert lt m ms) = signer ` set (sig_list (sg m)) \<union> voters sg ms"
    using s by (simp add: voters_def)
qed

lemma insert_unheard_card:
  assumes "\<forall>x\<in>set ms. msg_good sg x" and "msg_good sg m" and "\<not> heard sg ms m"
    and "length ms \<le> card (voters sg ms)"
  shows "length (set_insert lt m ms) \<le> card (voters sg (set_insert lt m ms))"
proof -
  obtain p where p: "p \<in> signer ` set (sig_list (sg m))" "p \<notin> voters sg ms"
  proof (cases "ms = []")
    case True
    then show thesis
      using assms(2) by (intro that [of "signer (hd (sig_list (sg m)))"]) (auto simp: msg_good_def)
  next
    case False
    with assms(3) that show thesis by (auto simp: heard_def)
  qed
  then have "Suc (card (voters sg ms)) = card (insert p (voters sg ms))" by simp
  also have "\<dots> \<le> card (signer ` set (sig_list (sg m)) \<union> voters sg ms)"
    using p(1) by (intro card_mono) auto
  finally show ?thesis
    using assms(4) by (simp add: insert_unheard [OF assms(1-3)])
qed

text \<open>Every \<open>store\<close> of a good message keeps the invariant and forgets nothing.\<close>

lemma store_keeps:
  assumes "votes_ok l" and "msg_good sg m" and "store m l = Inr (l', n)"
  shows "votes_ok l'"
proof -
  have good: "\<forall>x\<in>set (entries l k). msg_good sg x" for k
    using assms(1) votes_okD(2) by blast
  note e = store_entries [OF good assms(2,3)]
  have "sorted_wrt lt (entries l' k) \<and> (\<forall>m\<in>set (entries l' k). msg_good sg m) \<and>
      length (entries l' k) \<le> card (voters sg (entries l' k))" for k
  proof (cases "k = key m \<and> \<not> heard sg (entries l k) m")
    case True
    with assms(1,2) good show ?thesis
      by (simp add: e insert_unheard(2) insert_unheard_card votes_okD
          strict_weak_order.insert_sorted [OF order])
  next
    case False
    with e [of k] assms(1) votes_okD show ?thesis by auto
  qed
  then show ?thesis by (simp add: votes_ok_def ballot_ok_def)
qed

lemma store_extends:
  assumes "votes_ok l" and "msg_good sg m" and "store m l = Inr (l', n)"
  shows "set (entries l k) \<subseteq> set (entries l' k)"
    and "signer ` set (sig_list (sg m)) \<subseteq> voters sg (entries l' (key m))"
    and "k \<noteq> key m \<Longrightarrow> entries l' k = entries l k"
proof -
  have good: "\<forall>x\<in>set (entries l k). msg_good sg x" for k
    using assms(1) votes_okD(2) by blast
  note e = store_entries [OF good assms(2,3)]
  show "set (entries l k) \<subseteq> set (entries l' k)"
    using strict_weak_order.insert_superset [OF order] by (auto simp: e)
  show "signer ` set (sig_list (sg m)) \<subseteq> voters sg (entries l' (key m))"
    using insert_unheard(3) [OF good assms(2)] by (auto simp: e heard_def)
  show "k \<noteq> key m \<Longrightarrow> entries l' k = entries l k" by (simp add: e)
qed

end

text \<open>The count of the basic and chained stores.\<close>

locale vote_log_fresh = vote_log +
  assumes store_count: "\<forall>x\<in>set (entries l (key m)). msg_good sg x \<Longrightarrow> msg_good sg m \<Longrightarrow> store m l = Inr (l', n) \<Longrightarrow>
      n = (if heard sg (entries l (key m)) m then 0 else word_of_nat (length (entries l' (key m))))"
begin

text \<open>A count of \<open>n\<close> means that at least \<open>n\<close> different signers have been heard.\<close>

lemma fresh_count:
  assumes "votes_ok l" and "msg_good sg m" and "store m l = Inr (l', n)"
  shows "unat n \<le> card (voters sg (entries l' (key m)))"
proof -
  have "\<forall>x\<in>set (entries l (key m)). msg_good sg x"
    using assms(1) votes_okD(2) by blast
  from store_count [OF this assms(2,3)] have "unat n \<le> length (entries l' (key m))"
    by (auto simp: unat_of_nat take_bit_nat_less_eq_self)
  also have "\<dots> \<le> card (voters sg (entries l' (key m)))"
    by (rule votes_okD(3) [OF store_keeps [OF assms]])
  finally show ?thesis .
qed

lemma fresh_total:
  assumes "votes_ok l" and "msg_good sg m"
  shows "\<exists>l' n. store m l = Inr (l', n) \<and> unat n \<le> card (voters sg (entries l' (key m)))"
proof -
  have "\<forall>x\<in>set (entries l (key m)). msg_good sg x"
    using assms(1) votes_okD(2) by blast
  from store_total [OF this assms(2)] fresh_count [OF assms] show ?thesis by blast
qed

text \<open>Storing the message a second time changes no entry and is counted 0.\<close>

lemma fresh_repeat:
  assumes "votes_ok l" and "msg_good sg m" and "store m l = Inr (l', n)" and "store m l' = Inr (l'', n')"
  shows "n' = 0 \<and> entries l'' k = entries l' k"
proof -
  note ok' = store_keeps [OF assms(1-3)]
  have good: "\<forall>x\<in>set (entries l' k). msg_good sg x" for k
    using ok' votes_okD(2) by blast
  have "heard sg (entries l' (key m)) m"
    by (rule heard_again [OF assms(2) store_extends(2) [OF assms(1-3)]])
  then show ?thesis
    using store_count [OF good assms(2,4)] store_entries [OF good assms(2,4)] by auto
qed

end

text \<open>The count of the parallel protocol's stores.\<close>

locale vote_log_total = vote_log +
  assumes store_count_total: "\<forall>x\<in>set (entries l (key m)). msg_good sg x \<Longrightarrow> msg_good sg m \<Longrightarrow> store m l = Inr (l', n) \<Longrightarrow>
      n = word_of_nat (length (entries l' (key m)))"
begin

lemma total_count:
  assumes "votes_ok l" and "msg_good sg m" and "store m l = Inr (l', n)"
  shows "unat n \<le> card (voters sg (entries l' (key m)))"
proof -
  have "\<forall>x\<in>set (entries l (key m)). msg_good sg x"
    using assms(1) votes_okD(2) by blast
  from store_count_total [OF this assms(2,3)] have "unat n \<le> length (entries l' (key m))"
    by (auto simp: unat_of_nat take_bit_nat_less_eq_self)
  also have "\<dots> \<le> card (voters sg (entries l' (key m)))"
    by (rule votes_okD(3) [OF store_keeps [OF assms]])
  finally show ?thesis .
qed

lemma total_total:
  assumes "votes_ok l" and "msg_good sg m"
  shows "\<exists>l' n. store m l = Inr (l', n) \<and> unat n \<le> card (voters sg (entries l' (key m)))"
proof -
  have "\<forall>x\<in>set (entries l (key m)). msg_good sg x"
    using assms(1) votes_okD(2) by blast
  from store_total [OF this assms(2)] total_count [OF assms] show ?thesis by blast
qed

text \<open>Storing the message a second time returns the same count again.\<close>

lemma total_repeat:
  assumes "votes_ok l" and "msg_good sg m" and "store m l = Inr (l', n)" and "store m l' = Inr (l'', n')"
  shows "n' = n \<and> entries l'' k = entries l' k"
proof -
  note ok' = store_keeps [OF assms(1-3)]
  have good: "\<forall>x\<in>set (entries l k). msg_good sg x" "\<forall>x\<in>set (entries l' k). msg_good sg x" for k
    using ok' assms(1) votes_okD(2) by blast+
  have "heard sg (entries l' (key m)) m"
    by (rule heard_again [OF assms(2) store_extends(2) [OF assms(1-3)]])
  then show ?thesis
    using store_count_total [OF good(1) assms(2,3)] store_count_total [OF good(2) assms(2,4)]
      store_entries [OF good(2) assms(2,4)] by auto
qed

end

section \<open>The stores of the log\<close>

definition entries_of :: "'m list option \<Rightarrow> 'm list" where
  "entries_of e = (case e of Some ms \<Rightarrow> ms | None \<Rightarrow> [])"

lemma entries_of_simps [simp]: "entries_of None = []" "entries_of (Some ms) = ms"
  by (simp_all add: entries_of_def)

lemma store_new_entries:
  assumes "store_new lt hrd v m log = Inr (log', n)" and "strict_weak_order lt"
  shows "x \<in> set (entries_of (map_find log' k)) \<Longrightarrow> x \<in> set (entries_of (map_find log k)) \<or> k = v \<and> x = m"
  using assms(1) strict_weak_order.insert_subset [OF assms(2)]
  by (fastforce simp: store_new_def Let_def bindE_Inr_iff split: option.splits if_splits)

lemma first_of_cases: "P d \<Longrightarrow> (\<And>m. m \<in> set (entries_of e) \<Longrightarrow> P (f m)) \<Longrightarrow> P (first_of d f e)"
  by (auto simp: first_of_def entries_of_def split: option.split list.split)

lemma store_new_facts:
  assumes "hrd (entries_of (map_find log v)) = Inr (heard sg (entries_of (map_find log v)) m)"
  shows "\<exists>log' n. store_new lt hrd v m log = Inr (log', n) \<and>
    (\<forall>k. entries_of (map_find log' k) =
          (if k = v \<and> \<not> heard sg (entries_of (map_find log k)) m
           then set_insert lt m (entries_of (map_find log k)) else entries_of (map_find log k))) \<and>
    n = (if heard sg (entries_of (map_find log v)) m then 0
         else word_of_nat (length (entries_of (map_find log' v))))"
proof (cases "map_find log v")
  case None
  then show ?thesis by (simp add: store_new_def heard_def)
next
  case (Some ms)
  with assms show ?thesis by (cases "heard sg ms m") (simp_all add: store_new_def Let_def)
qed

lemma not_heard_Nil [simp]: "\<not> heard sg [] m"
  by (simp add: heard_def)

lemma seq_find_set:
  "seq_find (map_set v (map_set sq x (fst (map_at [] log v))) log) v' sq' =
     (if v' = v \<and> sq' = sq then Some x else seq_find log v' sq')"
  by (auto simp: seq_find_def map_at_def split: option.splits)

lemma entries_of_at: "fst (map_at [] (fst (map_at [] log v)) sq) = entries_of (seq_find log v sq)"
  by (simp add: seq_find_def map_at_def split: option.splits)

lemma store_seq_facts:
  assumes "hrd (entries_of (seq_find log v sq)) = Inr (heard sg (entries_of (seq_find log v sq)) m)"
  shows "\<exists>log' n. store_seq lt hrd v sq m log = Inr (log', n) \<and>
    (\<forall>v' sq'. entries_of (seq_find log' v' sq') =
          (if (v', sq') = (v, sq) \<and> \<not> heard sg (entries_of (seq_find log v' sq')) m
           then set_insert lt m (entries_of (seq_find log v' sq')) else entries_of (seq_find log v' sq'))) \<and>
    n = word_of_nat (length (entries_of (seq_find log' v sq)))"
  using assms by (auto simp: store_seq_def Let_def entries_of_at seq_find_set)

lemma vote_log_freshI:
  assumes "strict_weak_order lt"
    and "\<And>a b. msg_good sg a \<Longrightarrow> msg_good sg b \<Longrightarrow> \<not> lt a b \<Longrightarrow> \<not> lt b a \<Longrightarrow>
          map signer (sig_list (sg a)) = map signer (sig_list (sg b))"
    and fld: "\<And>x l. fld (upd x l) = x"
    and store: "\<And>m l. msg_good sg m \<Longrightarrow> \<forall>x\<in>set (entries_of (map_find (fld l) (key m))). msg_good sg x \<Longrightarrow>
      \<exists>hrd. store m l = bindE (store_new lt hrd (key m) m (fld l)) (\<lambda>(x, n). Inr (upd x l, n)) \<and>
        hrd (entries_of (map_find (fld l) (key m))) = Inr (heard sg (entries_of (map_find (fld l) (key m))) m)"
  shows "vote_log_fresh store (\<lambda>l k. entries_of (map_find (fld l) k)) key sg lt"
proof -
  have *: "\<exists>log' n. store m l = Inr (upd log' l, n) \<and>
    (\<forall>k. entries_of (map_find log' k) =
          (if k = key m \<and> \<not> heard sg (entries_of (map_find (fld l) k)) m
           then set_insert lt m (entries_of (map_find (fld l) k)) else entries_of (map_find (fld l) k))) \<and>
    n = (if heard sg (entries_of (map_find (fld l) (key m))) m then 0
         else word_of_nat (length (entries_of (map_find log' (key m)))))"
    if good: "\<forall>x\<in>set (entries_of (map_find (fld l) (key m))). msg_good sg x" "msg_good sg m" for l m
  proof -
    from store [OF good(2,1)] obtain hrd where st: "store m l = bindE (store_new lt hrd (key m) m (fld l)) (\<lambda>(x, n). Inr (upd x l, n))"
      and h: "hrd (entries_of (map_find (fld l) (key m))) = Inr (heard sg (entries_of (map_find (fld l) (key m))) m)"
      by blast
    from store_new_facts [of hrd, OF h, of lt] show ?thesis
      unfolding st by (auto simp: bindE_Inr_iff)
  qed
  show ?thesis
  proof (intro vote_log_fresh.intro vote_log.intro vote_log_fresh_axioms.intro)
    fix l l' m n k
    assume g: "\<forall>x\<in>set (entries_of (map_find (fld l) (key m))). msg_good sg x" "msg_good sg m"
    from * [OF g] show "\<exists>l' n. store m l = Inr (l', n)" by blast
    assume s: "store m l = Inr (l', n)"
    with * [OF g] show "entries_of (map_find (fld l') k) = (if k = key m \<and> \<not> heard sg (entries_of (map_find (fld l) k)) m
        then set_insert lt m (entries_of (map_find (fld l) k)) else entries_of (map_find (fld l) k))"
      by (auto simp: fld)
    from s * [OF g] show "n = (if heard sg (entries_of (map_find (fld l) (key m))) m then 0
        else word_of_nat (length (entries_of (map_find (fld l') (key m)))))"
      by (auto simp: fld)
  qed (fact assms(1), fact assms(2))
qed

lemma vote_log_totalI:
  assumes "strict_weak_order lt"
    and "\<And>a b. msg_good sg a \<Longrightarrow> msg_good sg b \<Longrightarrow> \<not> lt a b \<Longrightarrow> \<not> lt b a \<Longrightarrow>
          map signer (sig_list (sg a)) = map signer (sig_list (sg b))"
    and fld: "\<And>x l. fld (upd x l) = x"
    and store: "\<And>m l. msg_good sg m \<Longrightarrow> \<forall>x\<in>set (entries_of (seq_find (fld l) (vw m) (sq m))). msg_good sg x \<Longrightarrow>
      \<exists>hrd. store m l = bindE (store_seq lt hrd (vw m) (sq m) m (fld l)) (\<lambda>(x, n). Inr (upd x l, n)) \<and>
        hrd (entries_of (seq_find (fld l) (vw m) (sq m))) =
          Inr (heard sg (entries_of (seq_find (fld l) (vw m) (sq m))) m)"
  shows "vote_log_total store (\<lambda>l (v, s). entries_of (seq_find (fld l) v s)) (\<lambda>m. (vw m, sq m)) sg lt"
proof -
  have *: "\<exists>log' n. store m l = Inr (upd log' l, n) \<and>
    (\<forall>v' sq'. entries_of (seq_find log' v' sq') =
          (if (v', sq') = (vw m, sq m) \<and> \<not> heard sg (entries_of (seq_find (fld l) v' sq')) m
           then set_insert lt m (entries_of (seq_find (fld l) v' sq')) else entries_of (seq_find (fld l) v' sq'))) \<and>
    n = word_of_nat (length (entries_of (seq_find log' (vw m) (sq m))))"
    if good: "\<forall>x\<in>set (entries_of (seq_find (fld l) (vw m) (sq m))). msg_good sg x" "msg_good sg m" for l m
  proof -
    from store [OF good(2,1)] obtain hrd
      where st: "store m l = bindE (store_seq lt hrd (vw m) (sq m) m (fld l)) (\<lambda>(x, n). Inr (upd x l, n))"
      and h: "hrd (entries_of (seq_find (fld l) (vw m) (sq m))) =
          Inr (heard sg (entries_of (seq_find (fld l) (vw m) (sq m))) m)"
      by blast
    from store_seq_facts [of hrd, OF h, of lt] show ?thesis
      unfolding st by (auto simp: bindE_Inr_iff)
  qed
  show ?thesis
  proof (intro vote_log_total.intro vote_log.intro vote_log_total_axioms.intro)
    fix l l' m n k
    assume g: "\<forall>x\<in>set (case (vw m, sq m) of (v, s) \<Rightarrow> entries_of (seq_find (fld l) v s)). msg_good sg x"
      "msg_good sg m"
    then have g': "\<forall>x\<in>set (entries_of (seq_find (fld l) (vw m) (sq m))). msg_good sg x" by simp
    from * [OF g' g(2)] show "\<exists>l' n. store m l = Inr (l', n)" by blast
    assume s: "store m l = Inr (l', n)"
    with * [OF g' g(2)] show "(case k of (v, s) \<Rightarrow> entries_of (seq_find (fld l') v s)) =
       (if k = (vw m, sq m) \<and> \<not> heard sg (case k of (v, s) \<Rightarrow> entries_of (seq_find (fld l) v s)) m
        then set_insert lt m (case k of (v, s) \<Rightarrow> entries_of (seq_find (fld l) v s))
        else case k of (v, s) \<Rightarrow> entries_of (seq_find (fld l) v s))"
      by (cases k) (auto simp: fld)
    from s * [OF g' g(2)]
    show "n = word_of_nat (length (case (vw m, sq m) of (v, s) \<Rightarrow> entries_of (seq_find (fld l') v s)))"
      by (auto simp: fld)
  qed (fact assms(1), fact assms(2))
qed

lemma msg_equiv_signers:
  "msg_good m_signs a \<Longrightarrow> msg_good m_signs b \<Longrightarrow> \<not> msg_less a b \<Longrightarrow> \<not> msg_less b a \<Longrightarrow>
   map signer (sig_list (m_signs a)) = map signer (sig_list (m_signs b))"
  by (rule signs_equiv_iff [THEN iffD1]) (auto simp: msg_good_def msg_less_def)

lemma signers_heard:
  "msg_good sg m \<Longrightarrow> \<exists>S. getSigners (sg m) = Inr S \<and>
     (\<forall>ms. (\<forall>x\<in>set ms. msg_good sg x) \<longrightarrow> msgs_from sg ms S = Inr (heard sg ms m))"
  using getSigners_ok msgs_from_good by (metis msg_good_def)

lemma vote_log_fresh_msgI:
  assumes "\<And>x l. fld (upd x l) = x"
    and st: "\<And>m l. store m l = bindE (getSigners (m_signs m)) (\<lambda>S.
          bindE (store_new msg_less (\<lambda>ms. msgs_from m_signs ms S) (key m) m (fld l)) (\<lambda>(x, n). Inr (upd x l, n)))"
  shows "vote_log_fresh store (\<lambda>l k. entries_of (map_find (fld l) k)) key m_signs msg_less"
proof (rule vote_log_freshI [where upd = upd])
  fix m l assume g: "msg_good m_signs m" "\<forall>x\<in>set (entries_of (map_find (fld l) (key m))). msg_good m_signs x"
  from signers_heard [OF g(1)] obtain S where S: "getSigners (m_signs m) = Inr S"
    "\<forall>ms. (\<forall>x\<in>set ms. msg_good m_signs x) \<longrightarrow> msgs_from m_signs ms S = Inr (heard m_signs ms m)" by blast
  with g(2) show "\<exists>hrd. store m l = bindE (store_new msg_less hrd (key m) m (fld l)) (\<lambda>(x, n). Inr (upd x l, n)) \<and>
        hrd (entries_of (map_find (fld l) (key m))) = Inr (heard m_signs (entries_of (map_find (fld l) (key m))) m)"
    by (intro exI [of _ "\<lambda>ms. msgs_from m_signs ms S"]) (simp add: st)
qed (use assms msg_equiv_signers msg_order.strict_weak_order_axioms in auto)

lemma vote_log_total_msgI:
  assumes "\<And>x l. fld (upd x l) = x"
    and st: "\<And>m l. store m l = bindE (getSigners (m_signs m)) (\<lambda>S.
          bindE (store_seq msg_less (\<lambda>ms. msgs_from m_signs ms S) (vw m) (sq m) m (fld l)) (\<lambda>(x, n). Inr (upd x l, n)))"
  shows "vote_log_total store (\<lambda>l (v, s). entries_of (seq_find (fld l) v s)) (\<lambda>m. (vw m, sq m)) m_signs msg_less"
proof (rule vote_log_totalI [where upd = upd])
  fix m l assume g: "msg_good m_signs m" "\<forall>x\<in>set (entries_of (seq_find (fld l) (vw m) (sq m))). msg_good m_signs x"
  from signers_heard [OF g(1)] obtain S where S: "getSigners (m_signs m) = Inr S"
    "\<forall>ms. (\<forall>x\<in>set ms. msg_good m_signs x) \<longrightarrow> msgs_from m_signs ms S = Inr (heard m_signs ms m)" by blast
  with g(2) show "\<exists>hrd. store m l = bindE (store_seq msg_less hrd (vw m) (sq m) m (fld l)) (\<lambda>(x, n). Inr (upd x l, n)) \<and>
        hrd (entries_of (seq_find (fld l) (vw m) (sq m))) =
          Inr (heard m_signs (entries_of (seq_find (fld l) (vw m) (sq m))) m)"
    by (intro exI [of _ "\<lambda>ms. msgs_from m_signs ms S"]) (simp add: st)
qed (use assms msg_equiv_signers msg_order.strict_weak_order_axioms in auto)

lemma vote_log_fresh_chI:
  assumes "\<And>x l. fld (upd x l) = x"
    and st: "\<And>m l. store m l =
          bindE (store_new msgCh_less (\<lambda>ms. Inr (list_ex (\<lambda>x. signer (c_sign m) = signer (c_sign x)) ms)) (key m) m (fld l))
            (\<lambda>(x, n). Inr (upd x l, n))"
  shows "vote_log_fresh store (\<lambda>l k. entries_of (map_find (fld l) k)) key (\<lambda>m. Signs_one (c_sign m)) msgCh_less"
proof (rule vote_log_freshI [where upd = upd])
  fix m l
  have "list_ex (\<lambda>x. signer (c_sign m) = signer (c_sign x)) ms = heard (\<lambda>m. Signs_one (c_sign m)) ms m" for ms :: "MsgCh list"
    by (auto simp: list_ex_iff heard_def voters_def)
  then show "\<exists>hrd. store m l = bindE (store_new msgCh_less hrd (key m) m (fld l)) (\<lambda>(x, n). Inr (upd x l, n)) \<and>
        hrd (entries_of (map_find (fld l) (key m))) =
          Inr (heard (\<lambda>m. Signs_one (c_sign m)) (entries_of (map_find (fld l) (key m))) m)"
    by (intro exI [of _ "\<lambda>ms. Inr (list_ex (\<lambda>x. signer (c_sign m) = signer (c_sign x)) ms)"]) (simp add: st)
qed (use assms msgCh_order.strict_weak_order_axioms in \<open>auto simp: msgCh_less_def sign_less_def split: if_splits\<close>)

interpretation nv_log: vote_log_fresh storeNv "\<lambda>l k. entries_of (map_find (newviews l) k)"
  "\<lambda>m. propv (m_rdata m)" m_signs msg_less
  by (rule vote_log_fresh_msgI [where upd = "\<lambda>x l. l\<lparr>newviews := x\<rparr>"]) (simp_all add: storeNv_def msg_from_defs)

interpretation prep_log: vote_log_fresh storePrep "\<lambda>l k. entries_of (map_find (prepares l) k)"
  "\<lambda>m. propv (m_rdata m)" m_signs msg_less
  by (rule vote_log_fresh_msgI [where upd = "\<lambda>x l. l\<lparr>prepares := x\<rparr>"]) (simp_all add: storePrep_def msg_from_defs)

interpretation pc_log: vote_log_fresh storePc "\<lambda>l k. entries_of (map_find (precommits l) k)"
  "\<lambda>m. propv (m_rdata m)" m_signs msg_less
  by (rule vote_log_fresh_msgI [where upd = "\<lambda>x l. l\<lparr>precommits := x\<rparr>"]) (simp_all add: storePc_def msg_from_defs)

interpretation com_log: vote_log_fresh storeCom "\<lambda>l k. entries_of (map_find (commits l) k)"
  "\<lambda>m. propv (m_rdata m)" m_signs msg_less
  by (rule vote_log_fresh_msgI [where upd = "\<lambda>x l. l\<lparr>commits := x\<rparr>"]) (simp_all add: storeCom_def msg_from_defs)

interpretation nvp_log: vote_log_fresh storeNvPara "\<lambda>l k. entries_of (map_find (newviewsPara l) k)"
  "\<lambda>m. propv (m_rdata m)" m_signs msg_less
  by (rule vote_log_fresh_msgI [where upd = "\<lambda>x l. l\<lparr>newviewsPara := x\<rparr>"]) (simp_all add: storeNvPara_def msg_from_defs)

interpretation nvch_log: vote_log_fresh storeNvCh "\<lambda>l k. entries_of (map_find (newviewsCh l) k)"
  "\<lambda>m. propv (c_data m)" "\<lambda>m. Signs_one (c_sign m)" msgCh_less
  by (rule vote_log_fresh_chI [where upd = "\<lambda>x l. l\<lparr>newviewsCh := x\<rparr>"]) (simp_all add: storeNvCh_def msgNewViewChFrom_def)

interpretation prepch_log: vote_log_fresh storePrepCh "\<lambda>l k. entries_of (map_find (preparesCh l) k)"
  "\<lambda>m. propv (c_data m)" "\<lambda>m. Signs_one (c_sign m)" msgCh_less
  by (rule vote_log_fresh_chI [where upd = "\<lambda>x l. l\<lparr>preparesCh := x\<rparr>"]) (simp_all add: storePrepCh_def msgPrepareChFrom_def)

interpretation prepp_log: vote_log_total storePrepPara "\<lambda>l (v, s). entries_of (seq_find (preparesPara l) v s)"
  "\<lambda>m. (propv (m_rdata m), seqNumber (m_rdata m))" m_signs msg_less
  by (rule vote_log_total_msgI [where upd = "\<lambda>x l. l\<lparr>preparesPara := x\<rparr>"]) (simp_all add: storePrepPara_def msg_from_defs)

interpretation pcp_log: vote_log_total storePcPara "\<lambda>l (v, s). entries_of (seq_find (precommitsPara l) v s)"
  "\<lambda>m. (propv (m_rdata m), seqNumber (m_rdata m))" m_signs msg_less
  by (rule vote_log_total_msgI [where upd = "\<lambda>x l. l\<lparr>precommitsPara := x\<rparr>"]) (simp_all add: storePcPara_def msg_from_defs)

interpretation comp_log: vote_log_total storeComPara "\<lambda>l (v, s). entries_of (seq_find (commitsPara l) v s)"
  "\<lambda>m. (propv (m_rdata m), seqNumber (m_rdata m))" m_signs msg_less
  by (rule vote_log_total_msgI [where upd = "\<lambda>x l. l\<lparr>commitsPara := x\<rparr>"]) (simp_all add: storeComPara_def msg_from_defs)

section \<open>Reading signatures and justifications back\<close>

lemma collect_ok:
  "\<forall>m\<in>set ms. signs_ok (sg m) \<Longrightarrow> signs_ok s \<Longrightarrow> unat n \<le> MAX_NUM_SIGNATURES \<Longrightarrow>
   \<exists>s'. collect sg n ms s = Inr s' \<and> signs_ok s' \<and>
     sig_list s' = sig_list s @ take (unat n - length (sig_list s)) (concat (map (\<lambda>m. sig_list (sg m)) ms))"
proof (induction ms arbitrary: s)
  case (Cons m ms)
  show ?case
  proof (cases "sg_size s < n")
    case True
    obtain s1 where s1: "addUpto s (sg m) n = Inr s1" "signs_ok s1"
        "sig_list s1 = sig_list s @ take (unat n - length (sig_list s)) (sig_list (sg m))"
      using addUpto_ok [of s "sg m" n] Cons.prems by auto
    from Cons.IH [OF _ s1(2) Cons.prems(3)] Cons.prems(1) True s1 show ?thesis
      by (auto simp: min_def)
  next
    case False
    with Cons.prems show ?thesis by (simp add: length_sig_list word_less_nat_alt not_less)
  qed
qed simp

lemma collect_at_ok:
  "\<forall>m\<in>set (entries_of e). signs_ok (sg m) \<Longrightarrow> unat n \<le> MAX_NUM_SIGNATURES \<Longrightarrow>
   \<exists>s'. collect_at sg n e = Inr s' \<and> signs_ok s' \<and>
     sig_list s' = take (unat n) (concat (map (\<lambda>m. sig_list (sg m)) (entries_of e)))"
  using collect_ok [of "entries_of e" sg Signs_empty n]
  by (cases e) (auto simp: collect_at_def)

lemma collect_not_Diverges [simp]: "collect_at sg n e \<noteq> Inl Diverges"
proof -
  have add: "addUpto_loop others n is s \<noteq> Inl Diverges" for others "is" s
    by (induction "is" arbitrary: s) (auto simp: bindE_Inl_iff signs_get_def signs_add_def)
  have "collect sg n ms s \<noteq> Inl Diverges" for ms s
    by (induction ms arbitrary: s) (auto simp: bindE_Inl_iff addUpto_def add)
  then show ?thesis by (simp add: collect_at_def split: option.splits)
qed

lemma length_concat_singletons: "\<forall>m\<in>set ms. length (f m) = 1 \<Longrightarrow> length (concat (map f ms)) = length ms"
  by (induction ms) auto

lemma sig_list_single: "signs_ok sg \<Longrightarrow> sig_list sg = [s] \<Longrightarrow> sg_size sg = 1"
  using length_sig_list [of sg] by (simp add: word_unat_eq_iff)

text \<open>Messages with one signature each and increasing signers: the certificate has no repetition.\<close>

lemma sorted_singletons_distinct:
  "sorted_wrt msg_less ms \<Longrightarrow> \<forall>m\<in>set ms. signs_ok (m_signs m) \<and> length (sig_list (m_signs m)) = 1 \<Longrightarrow>
   distinct (map signer (concat (map (\<lambda>m. sig_list (m_signs m)) ms)))"
proof (induction ms)
  case (Cons m ms)
  have one: "\<exists>s. sig_list (m_signs x) = [s]" if "x \<in> set (m # ms)" for x
    using Cons.prems(2) that by (cases "sig_list (m_signs x)") auto
  from one [of m] obtain s where s: "sig_list (m_signs m) = [s]" by auto
  have "signer s \<noteq> signer t" if x: "x \<in> set ms" and t: "t \<in> set (sig_list (m_signs x))" for x t
  proof -
    from one [of x] x obtain s' where s': "sig_list (m_signs x) = [s']" by auto
    have "sg_size (m_signs m) = 1" "sg_size (m_signs x) = 1"
      using Cons.prems(2) x s s' by (auto intro: sig_list_single)
    moreover have "msg_less m x" using Cons.prems(1) x by simp
    ultimately show ?thesis
      using s s' t by (auto simp: msg_less_def signs_less_iff Cons_less_Cons split: if_splits)
  qed
  with Cons s show ?case by auto
qed simp

lemma highest_loop_spec:
  "highest_loop vw mk ms h j =
     (if \<exists>m\<in>set ms. vw m \<ge> h
      then mk (last (filter (\<lambda>m. vw m = Max (vw ` set ms)) ms)) else j)"
proof (induction ms arbitrary: h j)
  case (Cons m ms)
  have fin: "finite (vw ` set ms)" by simp
  have mx: "vw x \<le> Max (vw ` set ms)" if "x \<in> set ms" for x using that by simp
  show ?case
  proof (cases "vw m \<ge> h")
    case True
    show ?thesis
    proof (cases "\<exists>x\<in>set ms. vw x \<ge> vw m")
      case ex: True
      then obtain x where x: "x \<in> set ms" "vw m \<le> vw x" by blast
      have ne: "vw ` set ms \<noteq> {}" using x by auto
      have "vw m \<le> Max (vw ` set ms)" using x mx order_trans by blast
      then have M: "Max (vw ` set (m # ms)) = Max (vw ` set ms)"
        using ne by (simp add: max_absorb2)
      have "Max (vw ` set ms) \<in> vw ` set ms" using ne by simp
      then have "filter (\<lambda>m. vw m = Max (vw ` set ms)) ms \<noteq> []"
        by (auto simp: filter_empty_conv)
      with True ex M x show ?thesis by (auto simp: Cons)
    next
      case none: False
      then have lt: "\<forall>x\<in>set ms. vw x < vw m" by (meson not_le)
      then have M: "Max (vw ` set (m # ms)) = vw m"
        by (intro Max_eqI) (auto simp: less_imp_le)
      have "filter (\<lambda>x. vw x = vw m) ms = []" using lt by (auto simp: filter_empty_conv)
      with True none M show ?thesis by (simp add: Cons)
    qed
  next
    case False
    show ?thesis
    proof (cases "\<exists>x\<in>set ms. vw x \<ge> h")
      case ex: True
      then obtain x where x: "x \<in> set ms" "h \<le> vw x" by blast
      then have lt: "vw m < Max (vw ` set ms)" using mx False by (meson not_le order_trans less_le_trans)
      then have M: "Max (vw ` set (m # ms)) = Max (vw ` set ms)"
        using x by (subst set_simps, subst image_insert, subst Max_insert) (auto simp: max_absorb2)
      from lt False ex M show ?thesis by (auto simp: Cons)
    next
      case none: False
      with False show ?thesis by (auto simp: Cons)
    qed
  qed
qed simp

text \<open>The parallel protocol compares view and sequence number, and keeps the first best message.\<close>

definition nv_rank :: "MsgNewViewPara \<Rightarrow> View \<times> u32" where
  "nv_rank m = (justv (m_rdata m), seqNumber (m_rdata m))"

definition first_best :: "('m \<Rightarrow> 'r::linorder) \<Rightarrow> 'm list \<Rightarrow> 'm option" where
  "first_best f ms = find (\<lambda>m. \<forall>x\<in>set ms. f x \<le> f m) ms"

lemma first_best_Cons:
  "first_best f (m # ms) = (if \<exists>x\<in>set ms. f m < f x then first_best f ms else Some m)"
proof (cases "\<exists>x\<in>set ms. f m < f x")
  case True
  then have "(\<lambda>z. \<forall>y\<in>set (m # ms). f y \<le> f z) = (\<lambda>z. \<forall>y\<in>set ms. f y \<le> f z)"
    by (auto simp: fun_eq_iff intro: less_imp_le less_le_trans)
  moreover have "\<not> (\<forall>y\<in>set ms. f y \<le> f m)"
    using True by (auto simp: not_le)
  ultimately show ?thesis using True by (simp only: first_best_def find.simps if_False if_True)
next
  case False
  then show ?thesis by (auto simp: first_best_def not_less)
qed

lemma first_best_Some: "x \<in> set ms \<Longrightarrow> \<exists>y. first_best f ms = Some y"
  by (induction ms arbitrary: x) (auto simp: first_best_Cons)

lemma highestPara_loop_step:
  "highestPara_loop (m # ms) hv (Some s) j =
     (if (hv, s) < nv_rank m
      then highestPara_loop ms (fst (nv_rank m)) (Some (snd (nv_rank m))) (JustPara_signs (m_rdata m) (m_signs m))
      else highestPara_loop ms hv (Some s) j)"
  by (auto simp: nv_rank_def Let_def)

lemma highestPara_loop_Some:
  "highestPara_loop ms hv (Some s) j =
     (if \<exists>m\<in>set ms. (hv, s) < nv_rank m
      then (case first_best nv_rank ms of
              Some m \<Rightarrow> JustPara_signs (m_rdata m) (m_signs m) | None \<Rightarrow> j)
      else j)"
proof (induction ms arbitrary: hv s j)
  case (Cons m ms)
  consider (m) "(hv, s) < nv_rank m" "\<forall>x\<in>set ms. \<not> nv_rank m < nv_rank x"
    | (both) x where "(hv, s) < nv_rank m" "x \<in> set ms" "nv_rank m < nv_rank x"
    | (later) x where "\<not> (hv, s) < nv_rank m" "x \<in> set ms" "(hv, s) < nv_rank x"
    | (none) "\<not> (hv, s) < nv_rank m" "\<forall>x\<in>set ms. \<not> (hv, s) < nv_rank x"
    by blast
  then show ?case
  proof cases
    case m then show ?thesis by (simp add: highestPara_loop_step first_best_Cons Cons del: highestPara_loop.simps)
  next
    case both
    from first_best_Some [OF both(2), of nv_rank] both show ?thesis
      by (auto simp: highestPara_loop_step first_best_Cons Cons simp del: highestPara_loop.simps)
  next
    case later
    then have "nv_rank m < nv_rank x" by (meson not_less le_less_trans)
    with later show ?thesis
      by (auto simp: highestPara_loop_step first_best_Cons Cons simp del: highestPara_loop.simps)
  next
    case none
    then show ?thesis
      by (simp add: highestPara_loop_step Cons del: highestPara_loop.simps)
  qed
qed simp

lemma highestPara_loop_spec:
  "highestPara_loop ms 0 None j =
     (case first_best nv_rank ms of Some m \<Rightarrow> JustPara_signs (m_rdata m) (m_signs m) | None \<Rightarrow> j)"
proof (cases ms)
  case (Cons m ms')
  have "0 < justv (m_rdata m) \<or> justv (m_rdata m) = 0" by (simp add: word_gt_0)
  then have "highestPara_loop ms 0 None j =
      highestPara_loop ms' (fst (nv_rank m)) (Some (snd (nv_rank m))) (JustPara_signs (m_rdata m) (m_signs m))"
    by (simp add: Cons nv_rank_def Let_def)
  then show ?thesis
    using first_best_Some [of _ ms' nv_rank] by (fastforce simp: Cons highestPara_loop_Some first_best_Cons)
qed (simp add: first_best_def)

section \<open>The invariant of the log\<close>

text \<open>Every ballot of every map of the log is well-formed.\<close>

definition log_ok :: "Log \<Rightarrow> bool" where
  "log_ok l \<longleftrightarrow> nv_log.votes_ok l \<and> prep_log.votes_ok l \<and> pc_log.votes_ok l \<and> com_log.votes_ok l \<and>
     nvp_log.votes_ok l \<and> nvch_log.votes_ok l \<and> prepch_log.votes_ok l \<and> prepp_log.votes_ok l \<and>
     pcp_log.votes_ok l \<and> comp_log.votes_ok l"

lemmas votes_ok_defs = nv_log.votes_ok_def prep_log.votes_ok_def pc_log.votes_ok_def com_log.votes_ok_def
  nvp_log.votes_ok_def nvch_log.votes_ok_def prepch_log.votes_ok_def prepp_log.votes_ok_def
  pcp_log.votes_ok_def comp_log.votes_ok_def

lemma seq_find_Nil [simp]: "seq_find [] v sq = None"
  by (simp add: seq_find_def)

lemma log_ok_empty [simp]: "log_ok Log_empty"
  by (auto simp: log_ok_def votes_ok_defs Log_empty_def)

text \<open>A store touches one map of the log.\<close>

lemma store_frames:
  "storeNv m l = Inr (l', n) \<Longrightarrow> \<exists>x. l' = l\<lparr>newviews := x\<rparr>"
  "storePrep m l = Inr (l', n) \<Longrightarrow> \<exists>x. l' = l\<lparr>prepares := x\<rparr>"
  "storePc m l = Inr (l', n) \<Longrightarrow> \<exists>x. l' = l\<lparr>precommits := x\<rparr>"
  "storeCom m l = Inr (l', n) \<Longrightarrow> \<exists>x. l' = l\<lparr>commits := x\<rparr>"
  "storeProp mp l = Inr (l', n) \<Longrightarrow> \<exists>x. l' = l\<lparr>proposals := x\<rparr>"
  "storeNvCh mc l = Inr (l', n) \<Longrightarrow> \<exists>x. l' = l\<lparr>newviewsCh := x\<rparr>"
  "storePrepCh mc l = Inr (l', n) \<Longrightarrow> \<exists>x. l' = l\<lparr>preparesCh := x\<rparr>"
  "storeLdrPrepCh ml l = Inr (l', n) \<Longrightarrow> \<exists>x. l' = l\<lparr>ldrpreparesCh := x\<rparr>"
  "storeNvPara mq l = Inr (l', n) \<Longrightarrow> \<exists>x. l' = l\<lparr>newviewsPara := x\<rparr>"
  "storePrepPara mq l = Inr (l', n) \<Longrightarrow> \<exists>x. l' = l\<lparr>preparesPara := x\<rparr>"
  "storePcPara mq l = Inr (l', n) \<Longrightarrow> \<exists>x. l' = l\<lparr>precommitsPara := x\<rparr>"
  "storeComPara mq l = Inr (l', n) \<Longrightarrow> \<exists>x. l' = l\<lparr>commitsPara := x\<rparr>"
  "storePropPara mpp l = Inr (l', n) \<Longrightarrow> \<exists>x. l' = l\<lparr>proposalsPara := x\<rparr>"
  by (auto simp: storeNv_def storePrep_def storePc_def storeCom_def storeProp_def storeNvCh_def
      storePrepCh_def storeLdrPrepCh_def storeNvPara_def storePrepPara_def storePcPara_def
      storeComPara_def storePropPara_def bindE_Inr_iff)

lemma log_ok_upd:
  "log_ok l \<Longrightarrow> nv_log.votes_ok (l\<lparr>newviews := x0\<rparr>) \<Longrightarrow> log_ok (l\<lparr>newviews := x0\<rparr>)"
  "log_ok l \<Longrightarrow> prep_log.votes_ok (l\<lparr>prepares := x1\<rparr>) \<Longrightarrow> log_ok (l\<lparr>prepares := x1\<rparr>)"
  "log_ok l \<Longrightarrow> pc_log.votes_ok (l\<lparr>precommits := x2\<rparr>) \<Longrightarrow> log_ok (l\<lparr>precommits := x2\<rparr>)"
  "log_ok l \<Longrightarrow> com_log.votes_ok (l\<lparr>commits := x3\<rparr>) \<Longrightarrow> log_ok (l\<lparr>commits := x3\<rparr>)"
  "log_ok l \<Longrightarrow> nvp_log.votes_ok (l\<lparr>newviewsPara := x4\<rparr>) \<Longrightarrow> log_ok (l\<lparr>newviewsPara := x4\<rparr>)"
  "log_ok l \<Longrightarrow> nvch_log.votes_ok (l\<lparr>newviewsCh := x5\<rparr>) \<Longrightarrow> log_ok (l\<lparr>newviewsCh := x5\<rparr>)"
  "log_ok l \<Longrightarrow> prepch_log.votes_ok (l\<lparr>preparesCh := x6\<rparr>) \<Longrightarrow> log_ok (l\<lparr>preparesCh := x6\<rparr>)"
  "log_ok l \<Longrightarrow> prepp_log.votes_ok (l\<lparr>preparesPara := x7\<rparr>) \<Longrightarrow> log_ok (l\<lparr>preparesPara := x7\<rparr>)"
  "log_ok l \<Longrightarrow> pcp_log.votes_ok (l\<lparr>precommitsPara := x8\<rparr>) \<Longrightarrow> log_ok (l\<lparr>precommitsPara := x8\<rparr>)"
  "log_ok l \<Longrightarrow> comp_log.votes_ok (l\<lparr>commitsPara := x9\<rparr>) \<Longrightarrow> log_ok (l\<lparr>commitsPara := x9\<rparr>)"
  by (simp_all add: log_ok_def votes_ok_defs)

lemma log_ok_votes:
  "log_ok l \<Longrightarrow> nv_log.votes_ok l"
  "log_ok l \<Longrightarrow> prep_log.votes_ok l"
  "log_ok l \<Longrightarrow> pc_log.votes_ok l"
  "log_ok l \<Longrightarrow> com_log.votes_ok l"
  "log_ok l \<Longrightarrow> nvp_log.votes_ok l"
  "log_ok l \<Longrightarrow> nvch_log.votes_ok l"
  "log_ok l \<Longrightarrow> prepch_log.votes_ok l"
  "log_ok l \<Longrightarrow> prepp_log.votes_ok l"
  "log_ok l \<Longrightarrow> pcp_log.votes_ok l"
  "log_ok l \<Longrightarrow> comp_log.votes_ok l"
  by (simp_all add: log_ok_def)

lemma msg_good_ch [simp]: "msg_good (\<lambda>m. Signs_one (c_sign m)) mc"
  by (simp add: msg_good_def)

lemma storeNv_log_ok:
  assumes "log_ok l" and "msg_good m_signs m" and s: "storeNv m l = Inr (l', n)"
  shows "log_ok l'"
  using nv_log.store_keeps [OF log_ok_votes(1) [OF assms(1)] assms(2) s] store_frames(1) [OF s] log_ok_upd(1) [OF assms(1)]
  by auto

lemma storePrep_log_ok:
  assumes "log_ok l" and "msg_good m_signs m" and s: "storePrep m l = Inr (l', n)"
  shows "log_ok l'"
  using prep_log.store_keeps [OF log_ok_votes(2) [OF assms(1)] assms(2) s] store_frames(2) [OF s] log_ok_upd(2) [OF assms(1)]
  by auto

lemma storePc_log_ok:
  assumes "log_ok l" and "msg_good m_signs m" and s: "storePc m l = Inr (l', n)"
  shows "log_ok l'"
  using pc_log.store_keeps [OF log_ok_votes(3) [OF assms(1)] assms(2) s] store_frames(3) [OF s] log_ok_upd(3) [OF assms(1)]
  by auto

lemma storeCom_log_ok:
  assumes "log_ok l" and "msg_good m_signs m" and s: "storeCom m l = Inr (l', n)"
  shows "log_ok l'"
  using com_log.store_keeps [OF log_ok_votes(4) [OF assms(1)] assms(2) s] store_frames(4) [OF s] log_ok_upd(4) [OF assms(1)]
  by auto

lemma storeNvPara_log_ok:
  assumes "log_ok l" and "msg_good m_signs m" and s: "storeNvPara m l = Inr (l', n)"
  shows "log_ok l'"
  using nvp_log.store_keeps [OF log_ok_votes(5) [OF assms(1)] assms(2) s] store_frames(9) [OF s] log_ok_upd(5) [OF assms(1)]
  by auto

lemma storeNvCh_log_ok:
  assumes "log_ok l" and s: "storeNvCh m l = Inr (l', n)"
  shows "log_ok l'"
  using nvch_log.store_keeps [OF log_ok_votes(6) [OF assms(1)] msg_good_ch s] store_frames(6) [OF s] log_ok_upd(6) [OF assms(1)]
  by auto

lemma storePrepCh_log_ok:
  assumes "log_ok l" and s: "storePrepCh m l = Inr (l', n)"
  shows "log_ok l'"
  using prepch_log.store_keeps [OF log_ok_votes(7) [OF assms(1)] msg_good_ch s] store_frames(7) [OF s] log_ok_upd(7) [OF assms(1)]
  by auto

lemma storePrepPara_log_ok:
  assumes "log_ok l" and "msg_good m_signs m" and s: "storePrepPara m l = Inr (l', n)"
  shows "log_ok l'"
  using prepp_log.store_keeps [OF log_ok_votes(8) [OF assms(1)] assms(2) s] store_frames(10) [OF s] log_ok_upd(8) [OF assms(1)]
  by auto

lemma storePcPara_log_ok:
  assumes "log_ok l" and "msg_good m_signs m" and s: "storePcPara m l = Inr (l', n)"
  shows "log_ok l'"
  using pcp_log.store_keeps [OF log_ok_votes(9) [OF assms(1)] assms(2) s] store_frames(11) [OF s] log_ok_upd(9) [OF assms(1)]
  by auto

lemma storeComPara_log_ok:
  assumes "log_ok l" and "msg_good m_signs m" and s: "storeComPara m l = Inr (l', n)"
  shows "log_ok l'"
  using comp_log.store_keeps [OF log_ok_votes(10) [OF assms(1)] assms(2) s] store_frames(12) [OF s] log_ok_upd(10) [OF assms(1)]
  by auto

lemmas stores_log_ok = storeNv_log_ok storePrep_log_ok storePc_log_ok storeCom_log_ok storeNvPara_log_ok storeNvCh_log_ok storePrepCh_log_ok storePrepPara_log_ok storePcPara_log_ok storeComPara_log_ok

text \<open>
  The log's invariant (each ballot is in the set's order, holds well-formed signed
  messages only, and is no longer than the number of different signers heard) holds of the
  empty log and is kept by every \<open>store\<close> of a well-formed signed message.
\<close>

theorem stores_keep_log_ok:
  "log_ok Log_empty \<and>
   (log_ok l \<longrightarrow>
     (msg_good m_signs m \<longrightarrow>
        (storeNv m l = Inr (l', n) \<longrightarrow> log_ok l') \<and> (storePrep m l = Inr (l', n) \<longrightarrow> log_ok l') \<and>
        (storePc m l = Inr (l', n) \<longrightarrow> log_ok l') \<and> (storeCom m l = Inr (l', n) \<longrightarrow> log_ok l')) \<and>
     (msg_good m_signs mq \<longrightarrow>
        (storeNvPara mq l = Inr (l', n) \<longrightarrow> log_ok l') \<and> (storePrepPara mq l = Inr (l', n) \<longrightarrow> log_ok l') \<and>
        (storePcPara mq l = Inr (l', n) \<longrightarrow> log_ok l') \<and> (storeComPara mq l = Inr (l', n) \<longrightarrow> log_ok l')) \<and>
     (storeNvCh mc l = Inr (l', n) \<longrightarrow> log_ok l') \<and> (storePrepCh mc l = Inr (l', n) \<longrightarrow> log_ok l'))"
  by (blast intro: log_ok_empty stores_log_ok)

theorem stores_keep_log_ok_witness:
  "\<exists>l' n. storeNv (Msg_new RData_default (Signs_one (Sign_char 1 65))) Log_empty = Inr (l', n) \<and> log_ok l'"
proof -
  have g: "msg_good m_signs (Msg_new RData_default (Signs_one (Sign_char 1 65)))"
    by (simp add: msg_good_def)
  then obtain l' n where "storeNv (Msg_new RData_default (Signs_one (Sign_char 1 65))) Log_empty = Inr (l', n)"
    using nv_log.store_total by (fastforce simp: Log_empty_def)
  with g show ?thesis using stores_keep_log_ok by blast
qed

text \<open>
  C16. What a count means. In a log that satisfies the invariant, \<open>storePrep\<close>, \<open>storePc\<close> and
  \<open>storeCom\<close> of a well-formed signed message succeed, and a returned count \<open>n\<close> is never more
  than the number of different nodes that signed messages of that view: when a handler
  sees the count \<open>qsize\<close>, at least \<open>qsize\<close> nodes have voted.
\<close>

theorem store_counts_voters:
  assumes "log_ok l" and "msg_good m_signs m"
  shows "(\<exists>l' n. storePrep m l = Inr (l', n) \<and>
            unat n \<le> card (voters m_signs (entries_of (map_find (prepares l') (propv (m_rdata m)))))) \<and>
         (\<exists>l' n. storePc m l = Inr (l', n) \<and>
            unat n \<le> card (voters m_signs (entries_of (map_find (precommits l') (propv (m_rdata m)))))) \<and>
         (\<exists>l' n. storeCom m l = Inr (l', n) \<and>
            unat n \<le> card (voters m_signs (entries_of (map_find (commits l') (propv (m_rdata m))))))"
  using prep_log.fresh_total [OF log_ok_votes(2)] pc_log.fresh_total [OF log_ok_votes(3)]
    com_log.fresh_total [OF log_ok_votes(4)] assms by blast

theorem store_counts_voters_witness:
  "\<exists>l' n. storePrep (Msg_new RData_default (Signs_one (Sign_char 1 65))) Log_empty = Inr (l', n) \<and>
     unat n \<le> card (voters m_signs (entries_of (map_find (prepares l') 0)))"
  using store_counts_voters [OF log_ok_empty, of "Msg_new RData_default (Signs_one (Sign_char 1 65))"]
  by (auto simp: msg_good_def RData_default_def)

text \<open>
  The same for the parallel protocol, per view and sequence number.
\<close>

theorem storePara_counts_voters:
  assumes "log_ok l" and "msg_good m_signs m"
  shows "(\<exists>l' n. storePrepPara m l = Inr (l', n) \<and>
            unat n \<le> card (voters m_signs (entries_of (seq_find (preparesPara l') (propv (m_rdata m)) (seqNumber (m_rdata m)))))) \<and>
         (\<exists>l' n. storePcPara m l = Inr (l', n) \<and>
            unat n \<le> card (voters m_signs (entries_of (seq_find (precommitsPara l') (propv (m_rdata m)) (seqNumber (m_rdata m)))))) \<and>
         (\<exists>l' n. storeComPara m l = Inr (l', n) \<and>
            unat n \<le> card (voters m_signs (entries_of (seq_find (commitsPara l') (propv (m_rdata m)) (seqNumber (m_rdata m))))))"
  using prepp_log.total_total [OF log_ok_votes(8)] pcp_log.total_total [OF log_ok_votes(9)]
    comp_log.total_total [OF log_ok_votes(10)] assms by fastforce

theorem storePara_counts_voters_witness:
  "\<exists>l' n. storePrepPara (Msg_new RDataPara_default (Signs_one (Sign_char 1 65))) Log_empty = Inr (l', n) \<and>
     unat n \<le> card (voters m_signs (entries_of (seq_find (preparesPara l') 0 0)))"
  using storePara_counts_voters [OF log_ok_empty, of "Msg_new RDataPara_default (Signs_one (Sign_char 1 65))"]
  by (auto simp: msg_good_def RDataPara_default_def)

text \<open>
  A message delivered twice. The basic stores count the second delivery as 0, so a
  quorum is announced once; the parallel stores return the same count again, although the
  interface promises 0 for a message that is not from a not-yet-heard-from node, so a
  handler that tests \<open>count = qsize\<close> runs its quorum step on every repetition.
\<close>

theorem repeated_delivery:
  assumes "log_ok l"
  shows "(msg_good m_signs m \<longrightarrow> storePrep m l = Inr (l', n) \<longrightarrow> (\<exists>l''. storePrep m l' = Inr (l'', 0))) \<and>
    (msg_good m_signs mq \<longrightarrow> storePrepPara mq l = Inr (l1, n1) \<longrightarrow> (\<exists>l2. storePrepPara mq l1 = Inr (l2, n1)))"
proof (intro conjI impI)
  assume g: "msg_good m_signs m" and s: "storePrep m l = Inr (l', n)"
  from prep_log.fresh_total [OF log_ok_votes(2) [OF storePrep_log_ok [OF assms g s]] g]
  obtain l'' n' where s': "storePrep m l' = Inr (l'', n')" by blast
  from prep_log.fresh_repeat [OF log_ok_votes(2) [OF assms] g s s'] s'
  show "\<exists>l''. storePrep m l' = Inr (l'', 0)" by simp
next
  assume g: "msg_good m_signs mq" and s: "storePrepPara mq l = Inr (l1, n1)"
  from prepp_log.total_total [OF log_ok_votes(8) [OF storePrepPara_log_ok [OF assms g s]] g]
  obtain l'' n' where s': "storePrepPara mq l1 = Inr (l'', n')" by blast
  from prepp_log.total_repeat [OF log_ok_votes(8) [OF assms] g s s'] s'
  show "\<exists>l2. storePrepPara mq l1 = Inr (l2, n1)" by auto
qed

theorem repeated_delivery_witness:
  "\<exists>l1 n1 l2. storePrepPara (Msg_new RDataPara_default (Signs_one (Sign_char 1 65))) Log_empty = Inr (l1, n1) \<and>
     storePrepPara (Msg_new RDataPara_default (Signs_one (Sign_char 1 65))) l1 = Inr (l2, n1)"
proof -
  have g: "msg_good m_signs (Msg_new RDataPara_default (Signs_one (Sign_char 1 65)))"
    by (simp add: msg_good_def)
  from prepp_log.total_total [OF log_ok_votes(8) [OF log_ok_empty] g] g show ?thesis
    using repeated_delivery [OF log_ok_empty] by blast
qed

text \<open>
  Certificates. From a log that satisfies the invariant and whose prepare messages of
  the view carry one signature each, \<open>getPrepare(view, n)\<close> returns a well-formed array with
  the signatures of the first \<open>n\<close> messages (all of them when there are fewer), and no
  signer appears twice in it.
\<close>

theorem getPrepare_certificate:
  assumes "log_ok l" and "unat n \<le> MAX_NUM_SIGNATURES"
    and "\<forall>m\<in>set (entries_of (map_find (prepares l) v)). length (sig_list (m_signs m)) = 1"
  shows "\<exists>s. getPrepare v n l = Inr s \<and> signs_ok s \<and> distinct (map signer (sig_list s)) \<and>
     length (sig_list s) = min (unat n) (length (entries_of (map_find (prepares l) v)))"
proof -
  let ?ms = "entries_of (map_find (prepares l) v)"
  have b: "ballot_ok msg_less m_signs ?ms"
    using log_ok_votes(2) [OF assms(1)] by (simp add: votes_ok_defs)
  then have ok: "\<forall>m\<in>set ?ms. signs_ok (m_signs m)" and ord: "sorted_wrt msg_less ?ms"
    by (auto simp: ballot_ok_def msg_good_def)
  from collect_at_ok [OF ok assms(2)] obtain s where s: "getPrepare v n l = Inr s" "signs_ok s"
    "sig_list s = take (unat n) (concat (map (\<lambda>m. sig_list (m_signs m)) ?ms))"
    unfolding getPrepare_def by blast
  have "distinct (map signer (concat (map (\<lambda>m. sig_list (m_signs m)) ?ms)))"
    using sorted_singletons_distinct [OF ord] ok assms(3) by blast
  then have "distinct (map signer (sig_list s))"
    by (simp add: s(3) distinct_take flip: take_map)
  moreover have "length (concat (map (\<lambda>m. sig_list (m_signs m)) ?ms)) = length ?ms"
    by (rule length_concat_singletons [OF assms(3)])
  ultimately show ?thesis
    using s by (auto simp: min.commute)
qed

theorem getPrepare_certificate_witness:
  "\<exists>s. getPrepare 0 2 Log_empty = Inr s \<and> signs_ok s \<and> distinct (map signer (sig_list s))"
  using getPrepare_certificate [OF log_ok_empty, of 2 0]
  by (auto simp: MAX_NUM_SIGNATURES_def Log_empty_def)

text \<open>
  \<open>findHighestNv\<close> answers the justification of the last stored new-view message (in the
  set's order) among those with the largest \<open>justv\<close>, and \<open>Just()\<close> when the view has none.
\<close>

theorem findHighestNv_correct:
  "findHighestNv v l =
     (let ms = entries_of (map_find (newviews l) v);
          best = last (filter (\<lambda>m. justv (m_rdata m) = Max ((\<lambda>m. justv (m_rdata m)) ` set ms)) ms)
      in if ms = [] then Just_default else Just_signs (m_rdata best) (m_signs best))"
  by (auto simp: findHighestNv_def highest_loop_spec Let_def neq_Nil_conv split: option.splits)

text \<open>
  \<open>findHighestNvPara\<close> answers the justification of the first stored new-view message
  whose pair of \<open>justv\<close> and sequence number is the lexicographically largest, and
  \<open>Just(RDATAPARA)\<close> when the view has none.
\<close>

theorem findHighestNvPara_correct:
  "findHighestNvPara v l =
     (case find (\<lambda>m. \<forall>x\<in>set (entries_of (map_find (newviewsPara l) v)).
                   (justv (m_rdata x), seqNumber (m_rdata x)) \<le> (justv (m_rdata m), seqNumber (m_rdata m)))
             (entries_of (map_find (newviewsPara l) v)) of
        Some m \<Rightarrow> JustPara_signs (m_rdata m) (m_signs m)
      | None \<Rightarrow> Just_typed Type_RDataPara)"
  by (auto simp: findHighestNvPara_def highestPara_loop_spec first_best_def nv_rank_def split: option.splits)

theorem findHighestNvPara_correct_witness:
  "findHighestNvPara 0 (Log_empty\<lparr>newviewsPara := [(0, [Msg_new RDataPara_default (Signs_one (Sign_char 1 65))])]\<rparr>) =
     JustPara_signs RDataPara_default (Signs_one (Sign_char 1 65))"
  by (subst findHighestNvPara_correct) (simp add: entries_of_def map_find_def)

end
