(* ===== verification/TrustedCounter.thy ===== *)
theory TrustedCounter
  imports Justs
begin

text \<open>
  The contract of the trusted components. Each of them keeps a counter (a view and a phase)
  that it writes into every statement it signs and then increments. \<open>signing_counter\<close> says
  so for an arbitrary component; its client lemmas show that in any run, whatever
  the untrusted caller asks for, the signed statements carry increasing counters, so no
  two of them are for the same view and phase. \<open>TrustedFun\<close> and \<open>TrustedCh\<close> are
  interpretations.
\<close>

text \<open>A sequence of calls, with the justifications they return.\<close>

fun call_run :: "('c \<Rightarrow> 't \<Rightarrow> ('j \<times> 't) res) \<Rightarrow> 'c list \<Rightarrow> 't \<Rightarrow> ('j list \<times> 't) res" where
  "call_run call [] t = Inr ([], t)"
| "call_run call (c # cs) t =
     bindE (call c t) (\<lambda>(j, t). bindE (call_run call cs t) (\<lambda>(js, t). Inr (j # js, t)))"

lemma call_run_length: "call_run call cs t = Inr (js, t') \<Longrightarrow> length js = length cs"
  by (induction cs arbitrary: t js) (auto simp: bindE_Inr_iff)

locale signing_counter =
  fixes call :: "'c \<Rightarrow> 't \<Rightarrow> (Just \<times> 't) res"
    and pos :: "'t \<Rightarrow> nat"          \<comment> \<open>the counter\<close>
    and stamp :: "Just \<Rightarrow> nat"      \<comment> \<open>the counter in a justification\<close>
    and ok :: "'t \<Rightarrow> bool"
    and limit :: nat               \<comment> \<open>the counter wraps to 0 there\<close>
  assumes call_ok: "ok t \<Longrightarrow> Suc (pos t) < limit \<Longrightarrow> call c t = Inr (j, t') \<Longrightarrow> ok t'"
    and call_pos: "ok t \<Longrightarrow> Suc (pos t) < limit \<Longrightarrow> call c t = Inr (j, t') \<Longrightarrow>
          (if j_set j then stamp j = pos t \<and> pos t' = Suc (pos t) else pos t' = pos t)"
begin

lemma run_stamps:
  "ok t \<Longrightarrow> pos t + length cs < limit \<Longrightarrow> call_run call cs t = Inr (js, t') \<Longrightarrow>
   ok t' \<and> pos t \<le> pos t' \<and> pos t' \<le> pos t + length cs \<and>
   sorted_wrt (<) (map stamp (filter j_set js)) \<and>
   (\<forall>j\<in>set js. j_set j \<longrightarrow> pos t \<le> stamp j \<and> stamp j < pos t')"
proof (induction cs arbitrary: t js)
  case (Cons c cs)
  from Cons.prems(3) obtain j u ks where c: "call c t = Inr (j, u)"
    and r: "call_run call cs u = Inr (ks, t')" "js = j # ks"
    by (auto simp: bindE_Inr_iff)
  have p: "if j_set j then stamp j = pos t \<and> pos u = Suc (pos t) else pos u = pos t"
    using call_pos [OF Cons.prems(1) _ c] Cons.prems(2) by simp
  then have "pos u + length cs < limit" using Cons.prems(2) by (auto split: if_splits)
  moreover have "Suc (pos t) < limit" using Cons.prems(2) by simp
  note u = call_ok [OF Cons.prems(1) this c]
  ultimately show ?case
    using Cons.IH [OF u _ r(1)] p by (fastforce simp: r(2) split: if_splits)
qed simp

text \<open>No equivocation: equal counters mean the same statement of the run.\<close>

lemma run_no_equivocation:
  assumes "ok t" and "pos t + length cs < limit" and "call_run call cs t = Inr (js, t')"
    and "j \<in> set js" "j' \<in> set js" "j_set j" "j_set j'" and "stamp j = stamp j'"
  shows "j = j'"
proof -
  from run_stamps [OF assms(1-3)] have "distinct (map stamp (filter j_set js))"
    by (auto simp: strict_sorted_iff)
  then have "inj_on stamp (set (filter j_set js))" by (simp add: distinct_map)
  with assms(4-8) show ?thesis by (auto dest: inj_onD)
qed

end

end
