(* ===== verification/TrustedBasic.thy ===== *)
theory TrustedBasic
  imports TrustedCounter
begin

text \<open>
  \<open>App/TrustedFun.cpp\<close>: the trusted component of the basic protocol. It signs for a
  (view, phase) counter, checks the leader's justification against its lock
  (\<open>TEEprepare\<close>) and stores certificates (\<open>TEEstore\<close>). The members \<open>latestPrepared\<close>,
  \<open>latestPreparedView\<close>, \<open>prefixLocked\<close> and \<open>prefixLockedView\<close> are never read or written
  and are left out; \<open>Stats\<close> is instrumentation.
\<close>

section \<open>State and operations\<close>

record TrustedFun =
  tf_lockh :: Hash
  tf_lockv :: View
  tf_preph :: Hash
  tf_prepv :: View
  tf_view :: View
  tf_phase :: Phase1
  tf_id :: PID
  tf_priv :: KEY
  tf_qsize :: u32

definition TrustedFun_new :: "PID \<Rightarrow> KEY \<Rightarrow> u32 \<Rightarrow> TrustedFun" where
  "TrustedFun_new i priv q =
     \<lparr>tf_lockh = Hash_zero True, tf_lockv = 0, tf_preph = Hash_zero True, tf_prepv = 0,
      tf_view = 0, tf_phase = PH1_NEWVIEW, tf_id = i, tf_priv = priv, tf_qsize = q\<rparr>"

definition tf_increment :: "TrustedFun \<Rightarrow> TrustedFun" where
  "tf_increment t =
     (if tf_phase t = PH1_NEWVIEW then t\<lparr>tf_phase := PH1_PREPARE\<rparr>
      else if tf_phase t = PH1_PREPARE then t\<lparr>tf_phase := PH1_PRECOMMIT\<rparr>
      else if tf_phase t = PH1_PRECOMMIT then t\<lparr>tf_phase := PH1_COMMIT\<rparr>
      else if tf_phase t = PH1_COMMIT then t\<lparr>tf_phase := PH1_NEWVIEW, tf_view := tf_view t + 1\<rparr>
      else t)"

definition tf_sign :: "crypto \<Rightarrow> Hash \<Rightarrow> Hash \<Rightarrow> View \<Rightarrow> TrustedFun \<Rightarrow> Just \<times> TrustedFun" where
  "tf_sign C h1 h2 v2 t =
     (let rdata = RData_new h1 (tf_view t) h2 v2 (tf_phase t);
          sign = Sign_make C (tf_priv t) (tf_id t) (rdata_toString rdata)
      in (Just_sign rdata sign, tf_increment t))"

definition tf_TEEsign :: "crypto \<Rightarrow> TrustedFun \<Rightarrow> Just \<times> TrustedFun" where
  "tf_TEEsign C t = tf_sign C (Hash_zero False) (tf_preph t) (tf_prepv t) t"

definition tf_TEEverify :: "crypto \<Rightarrow> Nodes \<Rightarrow> Just \<Rightarrow> bool res" where
  "tf_TEEverify C ns just =
     bindE (getRData just) (\<lambda>r. signs_verify C ns (j_signs just) (rdata_toString r))"

text \<open>The safe-node check: extend the lock, or be justified by a later view.\<close>

definition tf_safeNode :: "TrustedFun \<Rightarrow> Hash \<Rightarrow> View \<Rightarrow> bool" where
  "tf_safeNode t h2 v2 \<longleftrightarrow> hash_eq h2 (tf_lockh t) \<or> v2 > tf_lockv t"

definition tf_TEEprepare :: "crypto \<Rightarrow> Nodes \<Rightarrow> Hash \<Rightarrow> Just \<Rightarrow> TrustedFun \<Rightarrow> (Just \<times> TrustedFun) res" where
  "tf_TEEprepare C ns hash just t =
     bindE (getRData just) (\<lambda>rd.
     bindE (tf_TEEverify C ns just) (\<lambda>vb.
       if vb \<and> tf_view t = propv rd \<and> phase rd = PH1_NEWVIEW \<and> tf_safeNode t (justh rd) (justv rd)
       then Inr (tf_sign C hash (justh rd) (justv rd) t)
       else Inr (Just_default, t)))"

text \<open>\<open>if (PH1_PRECOMMIT)\<close> tests the constant, which is 2: the lock is always set.\<close>

definition tf_TEEstore :: "crypto \<Rightarrow> Nodes \<Rightarrow> Just \<Rightarrow> TrustedFun \<Rightarrow> (Just \<times> TrustedFun) res" where
  "tf_TEEstore C ns just t =
     bindE (getRData just) (\<lambda>rd.
       let h = proph rd; v = propv rd; ph = phase rd in
       if sg_size (j_signs just) = tf_qsize t then
         bindE (tf_TEEverify C ns just) (\<lambda>vb.
           if vb \<and> tf_view t = v \<and> (ph = PH1_PREPARE \<or> ph = PH1_PRECOMMIT) then
             (let t = t\<lparr>tf_preph := h, tf_prepv := v\<rparr>;
                  t = (if PH1_PRECOMMIT \<noteq> 0 then t\<lparr>tf_lockh := h, tf_lockv := v\<rparr> else t)
              in Inr (tf_sign C h Hash_default 0 t))
           else Inr (Just_default, t))
       else Inr (Just_default, t))"

text \<open>The calls an (untrusted) handler can make.\<close>

datatype tf_call = TF_sign | TF_prepare Hash Just | TF_store Just

fun tf_exec :: "crypto \<Rightarrow> Nodes \<Rightarrow> tf_call \<Rightarrow> TrustedFun \<Rightarrow> (Just \<times> TrustedFun) res" where
  "tf_exec C ns TF_sign t = Inr (tf_TEEsign C t)"
| "tf_exec C ns (TF_prepare h j) t = tf_TEEprepare C ns h j t"
| "tf_exec C ns (TF_store j) t = tf_TEEstore C ns j t"

section \<open>The counter\<close>

definition tf_ok :: "TrustedFun \<Rightarrow> bool" where
  "tf_ok t \<longleftrightarrow> tf_phase t \<in> {PH1_NEWVIEW, PH1_PREPARE, PH1_PRECOMMIT, PH1_COMMIT}"

definition tf_pos :: "TrustedFun \<Rightarrow> nat" where
  "tf_pos t = 4 * unat (tf_view t) + unat (tf_phase t)"

definition tf_stamp :: "Just \<Rightarrow> nat" where
  "tf_stamp j = 4 * unat (propv (union_rdata j)) + unat (phase (union_rdata j))"

definition tf_limit :: nat where "tf_limit = 4 * 2 ^ 32"

lemma tf_ok_new [simp]: "tf_ok (TrustedFun_new i k q)" "tf_pos (TrustedFun_new i k q) = 0"
  by (simp_all add: tf_ok_def tf_pos_def TrustedFun_new_def phase_defs)

lemma tf_increment_sel [simp]:
  "tf_lockh (tf_increment t) = tf_lockh t" "tf_lockv (tf_increment t) = tf_lockv t"
  "tf_preph (tf_increment t) = tf_preph t" "tf_prepv (tf_increment t) = tf_prepv t"
  "tf_id (tf_increment t) = tf_id t" "tf_priv (tf_increment t) = tf_priv t"
  "tf_qsize (tf_increment t) = tf_qsize t"
  by (simp_all add: tf_increment_def)

lemma tf_increment_ok: "tf_ok t \<Longrightarrow> tf_ok (tf_increment t)"
  by (auto simp: tf_ok_def tf_increment_def)

lemma tf_increment_pos:
  assumes "tf_ok t" and "Suc (tf_pos t) < tf_limit"
  shows "tf_pos (tf_increment t) = Suc (tf_pos t)"
proof -
  have "unat (tf_view t + 1) = Suc (unat (tf_view t))" if "tf_phase t = PH1_COMMIT"
    using assms(2) that by (intro unat_Suc_u32) (simp add: tf_pos_def tf_limit_def phase_defs)
  with assms(1) show ?thesis
    by (auto simp: tf_ok_def tf_increment_def tf_pos_def phase_defs)
qed

text \<open>Every operation either signs at the counter and increments it, or returns \<open>Just()\<close> and leaves the state.\<close>

lemma tf_sign_effect:
  "tf_sign C h1 h2 v2 t = (j, t') \<Longrightarrow>
   j_set j \<and> tf_stamp j = tf_pos t \<and> t' = tf_increment t \<and> j_data j = URData (RData_new h1 (tf_view t) h2 v2 (tf_phase t))"
  by (auto simp: tf_sign_def Let_def tf_stamp_def tf_pos_def union_rdata_def)

lemma tf_exec_effect:
  assumes "tf_exec C ns c t = Inr (j, t')"
  shows "(j = Just_default \<and> t' = t) \<or>
    (\<exists>h1 h2 v2 u. tf_sign C h1 h2 v2 u = (j, t') \<and> tf_view u = tf_view t \<and> tf_phase u = tf_phase t \<and>
       tf_id u = tf_id t \<and> tf_priv u = tf_priv t \<and> tf_qsize u = tf_qsize t \<and>
       (u = t \<or> (\<exists>h. u = t\<lparr>tf_preph := h, tf_prepv := tf_view t, tf_lockh := h, tf_lockv := tf_view t\<rparr>)))"
proof (cases c)
  case TF_sign
  with assms show ?thesis by (simp add: tf_TEEsign_def) blast
next
  case (TF_prepare h just)
  with assms show ?thesis
    by (auto simp: tf_TEEprepare_def bindE_Inr_iff split: if_splits)
next
  case (TF_store just)
  with assms consider "j = Just_default" "t' = t"
    | h where "tf_sign C h Hash_default 0
        (t\<lparr>tf_preph := h, tf_prepv := tf_view t, tf_lockh := h, tf_lockv := tf_view t\<rparr>) = (j, t')"
    by (auto simp: tf_TEEstore_def bindE_Inr_iff Let_def phase_defs split: if_splits)
  then show ?thesis
  proof cases
    case (2 h)
    let ?u = "t\<lparr>tf_preph := h, tf_prepv := tf_view t, tf_lockh := h, tf_lockv := tf_view t\<rparr>"
    show ?thesis
      by (rule disjI2, rule exI [of _ h], rule exI [of _ Hash_default], rule exI [of _ 0], rule exI [of _ ?u])
         (auto simp: 2)
  qed simp
qed

lemma tf_pos_cong: "tf_view u = tf_view t \<Longrightarrow> tf_phase u = tf_phase t \<Longrightarrow> tf_pos u = tf_pos t"
  by (simp add: tf_pos_def)

lemma tf_ok_cong: "tf_phase u = tf_phase t \<Longrightarrow> tf_ok u = tf_ok t"
  by (simp add: tf_ok_def)

interpretation tf: signing_counter "tf_exec C ns" tf_pos tf_stamp tf_ok tf_limit for C ns
proof
  fix t c j t' assume ok: "tf_ok t" and c: "tf_exec C ns c t = Inr (j, t')"
  from tf_exec_effect [OF c] ok show "tf_ok t'"
    by (auto dest!: tf_sign_effect tf_ok_cong intro!: tf_increment_ok)
  assume lim: "Suc (tf_pos t) < tf_limit"
  from tf_exec_effect [OF c]
  show "if j_set j then tf_stamp j = tf_pos t \<and> tf_pos t' = Suc (tf_pos t) else tf_pos t' = tf_pos t"
  proof
    assume "\<exists>h1 h2 v2 u. tf_sign C h1 h2 v2 u = (j, t') \<and> tf_view u = tf_view t \<and> tf_phase u = tf_phase t \<and>
       tf_id u = tf_id t \<and> tf_priv u = tf_priv t \<and> tf_qsize u = tf_qsize t \<and>
       (u = t \<or> (\<exists>h. u = t\<lparr>tf_preph := h, tf_prepv := tf_view t, tf_lockh := h, tf_lockv := tf_view t\<rparr>))"
    then obtain h1 h2 v2 u
      where s: "tf_sign C h1 h2 v2 u = (j, t')" and u: "tf_view u = tf_view t" "tf_phase u = tf_phase t" by blast
    show ?thesis
      using tf_sign_effect [OF s] tf_pos_cong [OF u] tf_ok_cong [OF u(2)] ok lim tf_increment_pos [of u] by simp
  qed simp
qed

section \<open>The lock\<close>

text \<open>What every call keeps: the lock is the prepared block, of a view that is not in the future.\<close>

definition tf_inv :: "TrustedFun \<Rightarrow> bool" where
  "tf_inv t \<longleftrightarrow> tf_ok t \<and> tf_lockh t = tf_preph t \<and> tf_lockv t = tf_prepv t \<and> tf_prepv t \<le> tf_view t"

lemma tf_increment_view:
  assumes "tf_ok t" and "Suc (tf_pos t) < tf_limit"
  shows "tf_view t \<le> tf_view (tf_increment t)"
proof (cases "tf_phase t = PH1_COMMIT")
  case True
  with assms(2) have "unat (tf_view t + 1) = Suc (unat (tf_view t))"
    by (intro unat_Suc_u32) (simp add: tf_pos_def tf_limit_def phase_defs)
  with True show ?thesis by (simp add: tf_increment_def word_le_nat_alt)
qed (simp add: tf_increment_def)

lemma tf_exec_inv:
  assumes inv: "tf_inv t" and lim: "Suc (tf_pos t) < tf_limit" and c: "tf_exec C ns c t = Inr (j, t')"
  shows "tf_inv t' \<and> tf_prepv t \<le> tf_prepv t'"
proof -
  consider "t' = t" | u where "tf_view u = tf_view t" "tf_phase u = tf_phase t" "t' = tf_increment u"
      "u = t \<or> (\<exists>h. u = t\<lparr>tf_preph := h, tf_prepv := tf_view t, tf_lockh := h, tf_lockv := tf_view t\<rparr>)"
    using tf_exec_effect [OF c] tf_sign_effect by blast
  then show ?thesis
  proof cases
    case (2 u)
    with inv lim have ok: "tf_ok u" "Suc (tf_pos u) < tf_limit" and u: "tf_lockh u = tf_preph u"
      "tf_lockv u = tf_prepv u" "tf_prepv u \<le> tf_view u" "tf_prepv t \<le> tf_prepv u"
      by (auto simp: tf_inv_def tf_ok_def tf_pos_def)
    with tf_increment_view [OF ok] show ?thesis
      by (simp add: 2(3) tf_inv_def tf_increment_ok)
  qed (simp add: inv)
qed

lemma tf_run_inv:
  "tf_inv t \<Longrightarrow> tf_pos t + length cs < tf_limit \<Longrightarrow> call_run (tf_exec C ns) cs t = Inr (js, t') \<Longrightarrow>
   tf_inv t' \<and> tf_prepv t \<le> tf_prepv t'"
proof (induction cs arbitrary: t js)
  case (Cons c cs)
  from Cons.prems(3) obtain j u ks where c: "tf_exec C ns c t = Inr (j, u)"
    and r: "call_run (tf_exec C ns) cs u = Inr (ks, t')"
    by (auto simp: bindE_Inr_iff)
  have ok: "tf_ok t" using Cons.prems(1) by (simp add: tf_inv_def)
  have lim: "Suc (tf_pos t) < tf_limit" using Cons.prems(2) by simp
  have "tf_pos u + length cs < tf_limit"
    using tf.call_pos [OF ok lim c] Cons.prems(2) by (auto split: if_splits)
  from Cons.IH [OF _ this r] tf_exec_inv [OF Cons.prems(1) lim c] show ?case by auto
qed simp

lemma tf_inv_new [simp]: "tf_inv (TrustedFun_new i k q)"
  by (simp add: tf_inv_def) (simp add: TrustedFun_new_def)

section \<open>Properties\<close>

text \<open>
  C1. The trusted component of the basic protocol does not equivocate: whatever the host
  calls, in whatever order, two justifications it signed for the same view and phase are
  the same justification (as long as the 34-bit counter does not wrap, that is for
  fewer than 4 * 2 ^ 32 calls).
\<close>

theorem tf_no_equivocation:
  assumes "call_run (tf_exec C ns) calls (TrustedFun_new i priv q) = Inr (js, t)"
    and "length calls < 4 * 2 ^ 32"
    and "j \<in> set js" "j' \<in> set js" "j_set j" "j_set j'"
    and "propv (union_rdata j) = propv (union_rdata j')" "phase (union_rdata j) = phase (union_rdata j')"
  shows "j = j'"
  using tf.run_no_equivocation [OF tf_ok_new(1) _ assms(1,3-6)] assms(2,7,8)
  by (simp add: tf_stamp_def tf_limit_def)

theorem tf_no_equivocation_witness:
  "\<exists>js t. call_run (tf_exec crypto_yes []) [TF_sign, TF_sign, TF_sign] (TrustedFun_new 1 5 3) = Inr (js, t) \<and>
     js ! 0 \<noteq> js ! 1 \<and> (\<forall>j\<in>set js. phase (union_rdata j) = phase (union_rdata (js ! 0)) \<longrightarrow> j = js ! 0)"
proof -
  let ?calls = "[TF_sign, TF_sign, TF_sign]"
  obtain js t where r: "call_run (tf_exec crypto_yes []) ?calls (TrustedFun_new 1 5 3) = Inr (js, t)"
    by (simp add: tf_TEEsign_def tf_sign_def Let_def)
  then have js: "length js = 3" "\<forall>j\<in>set js. j_set j \<and> propv (union_rdata j) = 0"
    "phase (union_rdata (js ! 0)) \<noteq> phase (union_rdata (js ! 1))"
    by (auto simp: tf_TEEsign_def tf_sign_def Let_def tf_increment_def TrustedFun_new_def union_rdata_def)
  then have "js ! 0 \<in> set js" by simp
  with js tf_no_equivocation [OF r _ _ this] have "\<forall>j\<in>set js. phase (union_rdata j) = phase (union_rdata (js ! 0)) \<longrightarrow> j = js ! 0"
    by auto
  with r js show ?thesis by fastforce
qed

text \<open>
  C23. The lock of a replica is its prepared block: after any sequence of fewer than \<open>4 * 2 ^ 32\<close> calls from
  the constructor (so that the view has not wrapped), \<open>lockh = preph\<close> and \<open>lockv = prepv\<close> (the guard
  \<open>if (PH1_PRECOMMIT)\<close> of \<open>TEEstore\<close> is a constant, so the lock is already taken on a prepare
  certificate), the locked view is not later than the current one, and further calls within this
  bound do not decrease it.
\<close>

theorem tf_lock_is_prepared:
  assumes "call_run (tf_exec C ns) calls (TrustedFun_new i priv q) = Inr (js, t)"
    and "call_run (tf_exec C ns) later t = Inr (js', t')"
    and "length calls + length later < 4 * 2 ^ 32"
  shows "tf_lockh t = tf_preph t \<and> tf_lockv t = tf_prepv t \<and> tf_prepv t \<le> tf_view t \<and> tf_lockv t \<le> tf_lockv t'"
proof -
  have t: "tf_inv t" "tf_pos t \<le> length calls"
    using tf_run_inv [OF tf_inv_new _ assms(1)] tf.run_stamps [OF tf_ok_new(1) _ assms(1)] assms(3)
    by (simp_all add: tf_limit_def)
  with tf_run_inv [OF t(1) _ assms(2)] assms(3) show ?thesis
    by (simp add: tf_inv_def tf_limit_def)
qed

text \<open>The only node of its configuration stores a prepare certificate and then signs.\<close>

theorem tf_lock_is_prepared_witness:
  "\<exists>vote t vote' t'. call_run (tf_exec crypto_yes (addNode [] 1 [] 1 1))
       [TF_store (Just_sign (RData_new (Hash_of (replicate 32 7)) 0 Hash_default 0 PH1_PREPARE) (Sign_char 1 65))]
       (TrustedFun_new 1 5 1) = Inr ([vote], t) \<and> j_set vote \<and>
     tf_lockh t = Hash_of (replicate 32 7) \<and> tf_preph t = Hash_of (replicate 32 7) \<and>
     call_run (tf_exec crypto_yes (addNode [] 1 [] 1 1)) [TF_sign] t = Inr ([vote'], t') \<and> tf_lockv t \<le> tf_lockv t'"
proof -
  let ?ns = "addNode [] 1 [] 1 1" and ?t = "TrustedFun_new 1 5 1"
  let ?cert = "Just_sign (RData_new (Hash_of (replicate 32 7)) 0 Hash_default 0 PH1_PREPARE) (Sign_char 1 65)"
  have "tf_TEEverify crypto_yes ?ns ?cert = Inr True"
    by (simp add: tf_TEEverify_def signs_verify_yes Sign_char_def addNode_def nodes_find_def)
  then obtain vote t where st: "tf_TEEstore crypto_yes ?ns ?cert ?t = Inr (vote, t)" "j_set vote"
    "tf_lockh t = Hash_of (replicate 32 7)"
    by (auto simp: tf_TEEstore_def Let_def tf_sign_def TrustedFun_new_def)
  then have r: "call_run (tf_exec crypto_yes ?ns) [TF_store ?cert] ?t = Inr ([vote], t)" by simp
  obtain vote' t' where l: "call_run (tf_exec crypto_yes ?ns) [TF_sign] t = Inr ([vote'], t')"
    by (simp add: tf_TEEsign_def tf_sign_def Let_def)
  have "length [TF_store ?cert] + length [TF_sign] < 4 * 2 ^ 32" by simp
  from tf_lock_is_prepared [OF r l this] have "tf_preph t = Hash_of (replicate 32 7)" "tf_lockv t \<le> tf_lockv t'"
    unfolding st(3) by (elim conjE; simp)+
  with r st l show ?thesis by blast
qed

text \<open>
  C22. A locked replica does not vote for a proposal that is justified by another block. After the component has
  stored a certificate of a block \<open>h\<close> and a view \<open>v\<close> (\<open>TEEstore\<close> has returned a vote), and until the next call
  of \<open>TEEstore\<close>, \<open>TEEprepare\<close> returns the unset justification \<open>Just()\<close> and keeps its state for every
  leader justification whose own block \<open>justh\<close> is not \<open>h\<close> and whose view \<open>justv\<close> is not later than \<open>v\<close>
  (with no more signatures than its array holds), whatever block is proposed with it. The proposed block
  itself is not compared: the host has to check that it extends \<open>justh\<close>.
\<close>

theorem tf_locked_refuses:
  assumes "tf_TEEstore C ns cert t = Inr (vote, t1)" and "j_set vote" and "getRData cert = Inr c"
    and "call_run (tf_exec C ns) calls t1 = Inr (js, t2)" and "\<forall>call\<in>set calls. \<forall>j. call \<noteq> TF_store j"
    and "getRData just = Inr r" and "\<not> hash_eq (justh r) (proph c)" and "justv r \<le> propv c"
    and "signs_ok (j_signs just)"
  shows "tf_TEEprepare C ns hash just t2 = Inr (Just_default, t2)"
proof -
  have lock1: "tf_lockh t1 = proph c \<and> tf_lockv t1 = propv c"
    using assms(1-3) by (auto simp: tf_TEEstore_def bindE_Inr_iff Let_def phase_defs tf_sign_def split: if_splits)
  have "tf_lockh t' = tf_lockh t0 \<and> tf_lockv t' = tf_lockv t0"
    if "call_run (tf_exec C ns) cs t0 = Inr (ks, t')" "\<forall>call\<in>set cs. \<forall>j. call \<noteq> TF_store j" for cs ks t0 t'
    using that
  proof (induction cs arbitrary: t0 ks)
    case (Cons c cs)
    then show ?case
      by (cases c) (fastforce simp: bindE_Inr_iff tf_TEEsign_def tf_sign_def tf_TEEprepare_def Let_def split: if_splits)+
  qed simp
  from this [OF assms(4,5)] lock1 have "tf_lockh t2 = proph c" "tf_lockv t2 = propv c" by simp_all
  with assms(7,8) have unsafe: "\<not> tf_safeNode t2 (justh r) (justv r)" by (simp add: tf_safeNode_def)
  obtain b where "tf_TEEverify C ns just = Inr b"
    using assms(6) by (auto simp: tf_TEEverify_def signs_verify_eq [OF assms(9)])
  with unsafe show ?thesis by (simp add: tf_TEEprepare_def assms(6))
qed

theorem tf_locked_refuses_witness:
  "\<exists>vote t1. tf_TEEstore crypto_yes (addNode [] 1 [] 1 1)
       (Just_sign (RData_new (Hash_of (replicate 32 7)) 0 Hash_default 0 PH1_PREPARE) (Sign_char 1 65))
       (TrustedFun_new 1 5 1) = Inr (vote, t1) \<and>
     tf_TEEprepare crypto_yes (addNode [] 1 [] 1 1) Hash_default
       (Just_sign (RData_new Hash_default 0 (Hash_of (replicate 32 8)) 0 PH1_NEWVIEW) (Sign_char 1 65)) t1 =
     Inr (Just_default, t1)"
proof -
  let ?ns = "addNode [] 1 [] 1 1" and ?t = "TrustedFun_new 1 5 1"
  let ?c = "RData_new (Hash_of (replicate 32 7)) 0 Hash_default 0 PH1_PREPARE"
  let ?r = "RData_new Hash_default 0 (Hash_of (replicate 32 8)) 0 PH1_NEWVIEW"
  let ?cert = "Just_sign ?c (Sign_char 1 65)" and ?just = "Just_sign ?r (Sign_char 1 65)"
  have "tf_TEEverify crypto_yes ?ns ?cert = Inr True"
    by (simp add: tf_TEEverify_def signs_verify_yes Sign_char_def addNode_def nodes_find_def)
  then obtain vote t1 where st: "tf_TEEstore crypto_yes ?ns ?cert ?t = Inr (vote, t1)" "j_set vote"
    by (auto simp: tf_TEEstore_def Let_def tf_sign_def TrustedFun_new_def)
  have "\<not> hash_eq (justh ?r) (proph ?c)"
    by (simp add: hash_eq_iff Hash_of_def SHA256_DIGEST_LENGTH_def numeral_eq_Suc)
  with tf_locked_refuses [OF st, of ?c "[]" "[]" t1 ?just ?r] st(1) show ?thesis by auto
qed

text \<open>
  One certificate for two phases. \<open>TEEstore\<close> does not compare the phase of the
  certificate with its own: from the pre-commit phase, storing the same prepare
  certificate twice produces a signed pre-commit vote and then a signed commit vote, so a
  replica can vote to commit without ever seeing a pre-commit certificate.
\<close>

theorem tf_prepare_certificate_commits:
  assumes "getRData cert = Inr c" and "phase c = PH1_PREPARE" and "propv c = tf_view t"
    and "sg_size (j_signs cert) = tf_qsize t" and "tf_TEEverify C ns cert = Inr True"
    and "tf_phase t = PH1_PRECOMMIT"
  shows "\<exists>j1 t1 j2 t2. tf_TEEstore C ns cert t = Inr (j1, t1) \<and> tf_TEEstore C ns cert t1 = Inr (j2, t2) \<and>
    j_set j1 \<and> union_rdata j1 = RData_new (proph c) (propv c) Hash_default 0 PH1_PRECOMMIT \<and>
    j_set j2 \<and> union_rdata j2 = RData_new (proph c) (propv c) Hash_default 0 PH1_COMMIT"
  using assms
  by (auto simp: tf_TEEstore_def bindE_Inr_iff Let_def tf_sign_def tf_increment_def union_rdata_def)

theorem tf_prepare_certificate_commits_witness:
  "\<exists>j1 t1 j2 t2.
     tf_TEEstore crypto_yes (addNode [] 1 [] 1 1)
       (Just_sign (RData_new (Hash_of (replicate 32 7)) 0 Hash_default 0 PH1_PREPARE) (Sign_char 1 65))
       (TrustedFun_new 1 5 1\<lparr>tf_phase := PH1_PRECOMMIT\<rparr>) = Inr (j1, t1) \<and>
     tf_TEEstore crypto_yes (addNode [] 1 [] 1 1)
       (Just_sign (RData_new (Hash_of (replicate 32 7)) 0 Hash_default 0 PH1_PREPARE) (Sign_char 1 65))
       t1 = Inr (j2, t2) \<and> j_set j2 \<and> phase (union_rdata j2) = PH1_COMMIT"
proof -
  let ?ns = "addNode [] 1 [] 1 1" and ?t = "TrustedFun_new 1 5 1\<lparr>tf_phase := PH1_PRECOMMIT\<rparr>"
  let ?c = "RData_new (Hash_of (replicate 32 7)) 0 Hash_default 0 PH1_PREPARE"
  let ?cert = "Just_sign ?c (Sign_char 1 65)"
  have "tf_TEEverify crypto_yes ?ns ?cert = Inr True"
    by (simp add: tf_TEEverify_def signs_verify_yes Sign_char_def addNode_def nodes_find_def)
  with tf_prepare_certificate_commits [of ?cert ?c ?t crypto_yes ?ns] show ?thesis
    by (force simp: TrustedFun_new_def)
qed

end
