(* ===== verification/TrustedChained.thy ===== *)
theory TrustedChained
  imports TrustedCounter
begin

text \<open>
  \<open>App/TrustedCh.cpp\<close>: the trusted component of the chained protocol. The constructor
  hashes the genesis block; \<open>TEEprepare\<close> receives the proposed block and its two
  predecessors, updates the prepared block and the lock from them, and signs when the
  proposal is safe.
\<close>

section \<open>State and operations\<close>

record TrustedCh =
  tc_lockh :: Hash
  tc_lockv :: View
  tc_preph :: Hash
  tc_prepv :: View
  tc_view :: View
  tc_phase :: Phase1
  tc_id :: PID
  tc_priv :: KEY
  tc_qsize :: u32

definition TrustedCh_new :: "crypto \<Rightarrow> PID \<Rightarrow> KEY \<Rightarrow> u32 \<Rightarrow> TrustedCh res" where
  "TrustedCh_new C i priv q =
     bindE (jblock_hash C JBlock_genesis) (\<lambda>g.
       Inr \<lparr>tc_lockh = g, tc_lockv = 0, tc_preph = g, tc_prepv = 0, tc_view = 0,
            tc_phase = PH1_NEWVIEW, tc_id = i, tc_priv = priv, tc_qsize = q\<rparr>)"

definition tc_increment :: "TrustedCh \<Rightarrow> TrustedCh" where
  "tc_increment t =
     (if tc_phase t = PH1_PREPARE then t\<lparr>tc_phase := PH1_NEWVIEW\<rparr>
      else if tc_phase t = PH1_NEWVIEW then t\<lparr>tc_phase := PH1_PREPARE, tc_view := tc_view t + 1\<rparr>
      else t)"

definition tc_sign :: "crypto \<Rightarrow> Hash \<Rightarrow> Hash \<Rightarrow> View \<Rightarrow> TrustedCh \<Rightarrow> Just \<times> TrustedCh" where
  "tc_sign C h1 h2 v2 t =
     (let rdata = RData_new h1 (tc_view t) h2 v2 (tc_phase t);
          sign = Sign_make C (tc_priv t) (tc_id t) (rdata_toString rdata)
      in (Just_sign rdata sign, tc_increment t))"

definition tc_TEEsign :: "crypto \<Rightarrow> TrustedCh \<Rightarrow> Just \<times> TrustedCh" where
  "tc_TEEsign C t = tc_sign C (Hash_zero False) (tc_preph t) (tc_prepv t) t"

definition tc_verify :: "crypto \<Rightarrow> Nodes \<Rightarrow> Just \<Rightarrow> bool res" where
  "tc_verify C ns just = bindE (getRData just) (\<lambda>r. signs_verify C ns (j_signs just) (rdata_toString r))"

text \<open>The two links of the chain: the prepared block, and the lock.\<close>

definition tc_advance :: "crypto \<Rightarrow> Just \<Rightarrow> Just \<Rightarrow> JBlock \<Rightarrow> JBlock \<Rightarrow> TrustedCh \<Rightarrow> TrustedCh res" where
  "tc_advance C just just0 block0 block1 t =
     bindE (jblock_hash C block0) (\<lambda>h0.
       if hash_eq (getCHash just) h0 then
         (let t = t\<lparr>tc_preph := getCHash just, tc_prepv := getCView just\<rparr> in
          bindE (jblock_hash C block1) (\<lambda>h1.
            if hash_eq (getCHash just0) h1
            then Inr (t\<lparr>tc_lockh := getCHash just0, tc_lockv := getCView just0\<rparr>)
            else Inr t))
       else Inr t)"

definition tc_safeNode :: "TrustedCh \<Rightarrow> Just \<Rightarrow> bool" where
  "tc_safeNode t just \<longleftrightarrow> hash_eq (getCHash just) (tc_lockh t) \<or> getCView just > tc_lockv t"

definition tc_TEEprepare ::
  "crypto \<Rightarrow> Nodes \<Rightarrow> JBlock \<Rightarrow> JBlock \<Rightarrow> JBlock \<Rightarrow> TrustedCh \<Rightarrow> (Just \<times> TrustedCh) res" where
  "tc_TEEprepare C ns block block0 block1 t =
     (let just = jb_just block; just0 = jb_just block0 in
      bindE (tc_verify C ns just) (\<lambda>vb.
        if vb then
          bindE (getRData just) (\<lambda>rd.
            if tc_view t = propv rd + 1 \<and> wellFormed just (tc_qsize t) \<and> wellFormed just0 (tc_qsize t) then
              bindE (tc_advance C just just0 block0 block1 t) (\<lambda>t.
                if tc_safeNode t just
                then bindE (jblock_hash C block) (\<lambda>h. Inr (tc_sign C h Hash_default 0 t))
                else Inr (Just_default, t))
            else Inr (Just_default, t))
        else Inr (Just_default, t)))"

datatype tc_call = TC_sign | TC_prepare JBlock JBlock JBlock

fun tc_exec :: "crypto \<Rightarrow> Nodes \<Rightarrow> tc_call \<Rightarrow> TrustedCh \<Rightarrow> (Just \<times> TrustedCh) res" where
  "tc_exec C ns TC_sign t = Inr (tc_TEEsign C t)"
| "tc_exec C ns (TC_prepare b b0 b1) t = tc_TEEprepare C ns b b0 b1 t"

section \<open>The counter\<close>

text \<open>The order of the counter is (0, new-view), (1, prepare), (1, new-view), (2, prepare), ...\<close>

definition tc_ok :: "TrustedCh \<Rightarrow> bool" where
  "tc_ok t \<longleftrightarrow> tc_phase t = PH1_NEWVIEW \<or> tc_phase t = PH1_PREPARE \<and> tc_view t \<noteq> 0"

definition ch_pos :: "View \<Rightarrow> Phase1 \<Rightarrow> nat" where
  "ch_pos v p = 2 * unat v - (if p = PH1_PREPARE then 1 else 0)"

definition tc_pos :: "TrustedCh \<Rightarrow> nat" where "tc_pos t = ch_pos (tc_view t) (tc_phase t)"

definition tc_stamp :: "Just \<Rightarrow> nat" where
  "tc_stamp j = ch_pos (propv (union_rdata j)) (phase (union_rdata j))"

definition tc_limit :: nat where "tc_limit = 2 * 2 ^ 32 - 2"

lemma tc_new: "TrustedCh_new C i k q = Inr t \<Longrightarrow> tc_ok t \<and> tc_pos t = 0"
  by (auto simp: TrustedCh_new_def bindE_Inr_iff tc_ok_def tc_pos_def ch_pos_def)

lemma tc_new_total: "\<exists>t. TrustedCh_new C i k q = Inr t"
  using jblock_hash_ok [of JBlock_genesis C] by (auto simp: TrustedCh_new_def)

lemma tc_increment_pos:
  assumes "tc_ok t" and "Suc (tc_pos t) < tc_limit"
  shows "tc_pos (tc_increment t) = Suc (tc_pos t) \<and> tc_ok (tc_increment t)"
proof (cases "tc_phase t = PH1_PREPARE")
  case True
  with assms(1) have "unat (tc_view t) > 0" by (simp add: tc_ok_def unat_gt_0)
  with True show ?thesis by (simp add: tc_increment_def tc_pos_def ch_pos_def tc_ok_def)
next
  case False
  with assms(2) have u: "unat (tc_view t + 1) = Suc (unat (tc_view t))"
    by (intro unat_Suc_u32) (simp add: tc_pos_def ch_pos_def tc_limit_def)
  then have "tc_view t + 1 \<noteq> 0" by auto
  with False assms(1) u show ?thesis by (auto simp: tc_increment_def tc_pos_def ch_pos_def tc_ok_def)
qed

lemma tc_advance_sel:
  "tc_advance C j j0 b0 b1 t = Inr u \<Longrightarrow>
   tc_view u = tc_view t \<and> tc_phase u = tc_phase t \<and> tc_id u = tc_id t \<and> tc_priv u = tc_priv t \<and> tc_qsize u = tc_qsize t"
  by (auto simp: tc_advance_def bindE_Inr_iff Let_def split: if_splits)

lemma tc_exec_effect:
  assumes "tc_exec C ns c t = Inr (j, t')"
  shows "\<exists>u. tc_view u = tc_view t \<and> tc_phase u = tc_phase t \<and>
    (j = Just_default \<and> t' = u \<or> (\<exists>h1 h2 v2. tc_sign C h1 h2 v2 u = (j, t')))"
proof (cases c)
  case TC_sign
  with assms show ?thesis by (auto simp: tc_TEEsign_def)
next
  case (TC_prepare b b0 b1)
  with assms show ?thesis
    by (auto simp: tc_TEEprepare_def bindE_Inr_iff Let_def split: if_splits dest!: tc_advance_sel)
qed

interpretation tc: signing_counter "tc_exec C ns" tc_pos tc_stamp tc_ok tc_limit for C ns
proof
  fix t c j t' assume ok: "tc_ok t" and lim: "Suc (tc_pos t) < tc_limit" and c: "tc_exec C ns c t = Inr (j, t')"
  from tc_exec_effect [OF c] obtain u where u: "tc_view u = tc_view t" "tc_phase u = tc_phase t"
    and "j = Just_default \<and> t' = u \<or> (\<exists>h1 h2 v2. tc_sign C h1 h2 v2 u = (j, t'))" by blast
  moreover from u ok lim have uo: "tc_ok u" "tc_pos u = tc_pos t" by (simp_all add: tc_ok_def tc_pos_def)
  moreover have "tc_pos (tc_increment u) = Suc (tc_pos u) \<and> tc_ok (tc_increment u)"
    using tc_increment_pos [OF uo(1)] lim uo(2) by simp
  ultimately have *: "tc_ok t' \<and> (if j_set j then tc_stamp j = tc_pos t \<and> tc_pos t' = Suc (tc_pos t) else tc_pos t' = tc_pos t)"
    by (auto simp: tc_sign_def Let_def tc_stamp_def tc_pos_def union_rdata_def)
  then show "tc_ok t'" ..
  from * show "if j_set j then tc_stamp j = tc_pos t \<and> tc_pos t' = Suc (tc_pos t) else tc_pos t' = tc_pos t" ..
qed

section \<open>Properties\<close>

text \<open>
  C21. The trusted component of the chained protocol does not equivocate: in any run from
  its constructor (shorter than the 33-bit counter), two justifications it signed for
  the same view and phase are the same justification.
\<close>

theorem tc_no_equivocation:
  assumes "TrustedCh_new C i priv q = Inr t0" and "call_run (tc_exec C ns) calls t0 = Inr (js, t)"
    and "length calls < 2 * 2 ^ 32 - 2"
    and "j \<in> set js" "j' \<in> set js" "j_set j" "j_set j'"
    and "propv (union_rdata j) = propv (union_rdata j')" "phase (union_rdata j) = phase (union_rdata j')"
  shows "j = j'"
proof -
  from tc_new [OF assms(1)] have t0: "tc_ok t0" "tc_pos t0 + length calls < tc_limit"
    using assms(3) by (simp_all add: tc_limit_def)
  from tc.run_no_equivocation [OF t0 assms(2,4-7)] assms(8,9) show ?thesis
    by (simp add: tc_stamp_def)
qed

theorem tc_no_equivocation_witness:
  "\<exists>t0 js t. TrustedCh_new crypto_yes 1 5 3 = Inr t0 \<and>
     call_run (tc_exec crypto_yes []) [TC_sign, TC_sign, TC_sign] t0 = Inr (js, t) \<and>
     (\<forall>j\<in>set js. propv (union_rdata j) = 1 \<and> phase (union_rdata j) = PH1_NEWVIEW \<longrightarrow> j = js ! 2)"
proof -
  obtain t0 where n: "TrustedCh_new crypto_yes 1 5 3 = Inr t0" using tc_new_total by blast
  obtain js t where r: "call_run (tc_exec crypto_yes []) [TC_sign, TC_sign, TC_sign] t0 = Inr (js, t)"
    by (simp add: tc_TEEsign_def tc_sign_def Let_def)
  from r n have "js ! 2 \<in> set js" "\<forall>j\<in>set js. j_set j" "propv (union_rdata (js ! 2)) = 1"
    "phase (union_rdata (js ! 2)) = PH1_NEWVIEW"
    by (auto simp: tc_TEEsign_def tc_sign_def Let_def tc_increment_def TrustedCh_new_def bindE_Inr_iff union_rdata_def)
  with tc_no_equivocation [OF n r] have "\<forall>j\<in>set js. propv (union_rdata j) = 1 \<and> phase (union_rdata j) = PH1_NEWVIEW \<longrightarrow> j = js ! 2"
    by simp
  with n r show ?thesis by blast
qed

lemma tc_vote_effect:
  assumes "tc_TEEprepare C ns block block0 block1 t = Inr (vote, t')" and "j_set vote"
  shows "\<exists>rd u h. getRData (jb_just block) = Inr rd \<and>
    signs_verify C ns (j_signs (jb_just block)) (rdata_toString rd) = Inr True \<and>
    tc_view t = propv rd + 1 \<and> wellFormed (jb_just block) (tc_qsize t) \<and> wellFormed (jb_just block0) (tc_qsize t) \<and>
    tc_advance C (jb_just block) (jb_just block0) block0 block1 t = Inr u \<and>
    (hash_eq (getCHash (jb_just block)) (tc_lockh u) \<or> getCView (jb_just block) > tc_lockv u) \<and>
    jblock_hash C block = Inr h \<and> t' = tc_increment u \<and>
    union_rdata vote = RData_new h (tc_view t) Hash_default 0 (tc_phase t)"
  using assms
  by (fastforce simp: tc_TEEprepare_def tc_verify_def bindE_Inr_iff Let_def tc_sign_def tc_safeNode_def union_rdata_def
      split: if_splits dest: tc_advance_sel)

text \<open>
  C32. When the component votes. \<open>TEEprepare\<close> signs a proposal only if the proposal's
  justification verifies, is for the preceding view and is well-formed like its
  parent's, and only if, after the prepared block and the lock have moved along the
  chain (the parent becomes the prepared block when its hash is the certified one, the
  grandparent the lock when its hash is certified by the parent), the certified block is
  the locked one or certified in a later view than the lock. The vote is for the block's
  hash, at the component's view and phase.
\<close>

theorem tc_vote_sound:
  assumes "tc_TEEprepare C ns block block0 block1 t = Inr (vote, t')" and "j_set vote"
  shows "\<exists>rd u h. getRData (jb_just block) = Inr rd \<and>
    signs_verify C ns (j_signs (jb_just block)) (rdata_toString rd) = Inr True \<and>
    tc_view t = propv rd + 1 \<and> wellFormed (jb_just block) (tc_qsize t) \<and> wellFormed (jb_just block0) (tc_qsize t) \<and>
    tc_advance C (jb_just block) (jb_just block0) block0 block1 t = Inr u \<and>
    (hash_eq (getCHash (jb_just block)) (tc_lockh u) \<or> getCView (jb_just block) > tc_lockv u) \<and>
    jblock_hash C block = Inr h \<and> t' = tc_increment u \<and>
    union_rdata vote = RData_new h (tc_view t) Hash_default 0 (tc_phase t)"
  by (rule tc_vote_effect [OF assms])

text \<open>A concrete proposal whose links all hold, under the library that accepts everything.\<close>

lemma jblock_hash_yes:
  "jblock_ok b \<Longrightarrow> jblock_hash crypto_yes b = Inr (Hash_of (replicate SHA256_DIGEST_LENGTH 1))"
  by (simp add: jblock_hash_def jblock_toString_def just_toString_def jblock_transactions2string_def
      jblock_ok_def signs_toString_ok crypto_yes_def)

definition demo_just0 :: Just where
  "demo_just0 = Just_sign (RData_new (Hash_of (replicate SHA256_DIGEST_LENGTH 1)) 1 Hash_default 0 PH1_PREPARE) (Sign_char 1 65)"

definition demo_just :: Just where
  "demo_just = Just_sign (RData_new (Hash_zero False) 8 (Hash_of (replicate SHA256_DIGEST_LENGTH 1)) 2 PH1_NEWVIEW) (Sign_char 1 65)"

definition demo_block :: "Just \<Rightarrow> JBlock" where
  "demo_block j = JBlock_new 9 j 0 (replicate MAX_NUM_TRANSACTIONS Transaction_dummy)"

definition demo_trusted :: TrustedCh where
  "demo_trusted = \<lparr>tc_lockh = Hash_of (replicate SHA256_DIGEST_LENGTH 9), tc_lockv = 5, tc_preph = Hash_default, tc_prepv = 6,
     tc_view = 9, tc_phase = PH1_PREPARE, tc_id = 1, tc_priv = 5, tc_qsize = 1\<rparr>"

lemma demo_block_ok [simp]: "jblock_ok (demo_block demo_just)" "jblock_ok (demo_block demo_just0)"
  by (simp_all add: jblock_ok_def demo_block_def JBlock_new_def demo_just_def demo_just0_def)

lemma demo_facts:
  "getCHash demo_just = Hash_of (replicate SHA256_DIGEST_LENGTH 1)" "getCView demo_just = 2"
  "getCHash demo_just0 = Hash_of (replicate SHA256_DIGEST_LENGTH 1)" "getCView demo_just0 = 1"
  "wellFormed demo_just 1" "wellFormed demo_just0 1"
  "tc_verify crypto_yes (addNode [] 1 [] 1 1) demo_just = Inr True"
  "jb_just (demo_block j) = j"
  by (simp_all add: getCHash_def getCView_def demo_just_def demo_just0_def wellFormedInit_def wellFormedNv_def
      wellFormedPrep_def wellFormed_def union_rdata_def getRDataType_def tc_verify_def signs_verify_yes
      Sign_char_def addNode_def nodes_find_def demo_block_def JBlock_new_def)

lemma demo_rd: "getRData demo_just = Inr (RData_new (Hash_zero False) 8 (Hash_of (replicate SHA256_DIGEST_LENGTH 1)) 2 PH1_NEWVIEW)"
  by (simp add: demo_just_def)

lemma demo_trusted_sel [simp]: "tc_view demo_trusted = 9" "tc_qsize demo_trusted = 1" "tc_lockv demo_trusted = 5"
  by (simp_all add: demo_trusted_def)

theorem tc_vote_sound_witness:
  "\<exists>vote t'. tc_TEEprepare crypto_yes (addNode [] 1 [] 1 1) (demo_block demo_just) (demo_block demo_just0)
     JBlock_genesis demo_trusted = Inr (vote, t') \<and> wellFormed (jb_just (demo_block demo_just)) (tc_qsize demo_trusted)"
proof -
  obtain vote t' where "tc_TEEprepare crypto_yes (addNode [] 1 [] 1 1) (demo_block demo_just) (demo_block demo_just0)
     JBlock_genesis demo_trusted = Inr (vote, t')" "j_set vote"
    by (simp add: tc_TEEprepare_def demo_facts demo_rd tc_advance_def jblock_hash_yes tc_safeNode_def tc_sign_def Let_def)
  with tc_vote_sound [OF this] show ?thesis by blast
qed

text \<open>
  The lock can move backwards. \<open>TEEprepare\<close> replaces the lock before it checks the
  proposal against it, and without comparing views: whatever the component was locked on,
  a proposal whose two links hold and whose certified view is later than its parent's
  is signed, and leaves the lock at the parent's certified view. (The parent's
  justification is not verified by the component, and a new-view justification needs one
  signature only, so a proposal that extends an old block overrides a later lock.)
\<close>

theorem tc_lock_overwritten:
  assumes "tc_verify C ns (jb_just block) = Inr True" and "getRData (jb_just block) = Inr rd"
    and "tc_view t = propv rd + 1" and "wellFormed (jb_just block) (tc_qsize t)" "wellFormed (jb_just block0) (tc_qsize t)"
    and "jblock_hash C block0 = Inr h0" "hash_eq (getCHash (jb_just block)) h0"
    and "jblock_hash C block1 = Inr h1" "hash_eq (getCHash (jb_just block0)) h1"
    and "jblock_hash C block = Inr h"
    and "getCView (jb_just block) > getCView (jb_just block0)"
  shows "\<exists>vote t'. tc_TEEprepare C ns block block0 block1 t = Inr (vote, t') \<and> j_set vote \<and>
    tc_lockv t' = getCView (jb_just block0) \<and> tc_lockh t' = getCHash (jb_just block0)"
  using assms
  by (simp add: tc_TEEprepare_def tc_advance_def tc_safeNode_def tc_sign_def Let_def tc_increment_def)

theorem tc_lock_overwritten_witness:
  "\<exists>vote t'. tc_TEEprepare crypto_yes (addNode [] 1 [] 1 1) (demo_block demo_just) (demo_block demo_just0)
     JBlock_genesis demo_trusted = Inr (vote, t') \<and> j_set vote \<and> tc_lockv t' < tc_lockv demo_trusted"
proof -
  have rd: "getRData (jb_just (demo_block demo_just)) =
      Inr (RData_new (Hash_zero False) 8 (Hash_of (replicate SHA256_DIGEST_LENGTH 1)) 2 PH1_NEWVIEW)"
    by (simp add: demo_facts demo_rd)
  have "\<exists>vote t'. tc_TEEprepare crypto_yes (addNode [] 1 [] 1 1) (demo_block demo_just) (demo_block demo_just0)
     JBlock_genesis demo_trusted = Inr (vote, t') \<and> j_set vote \<and> tc_lockv t' = getCView (jb_just (demo_block demo_just0)) \<and>
     tc_lockh t' = getCHash (jb_just (demo_block demo_just0))"
    by (rule tc_lock_overwritten [OF _ rd _ _ _ jblock_hash_yes _ jblock_hash_yes _ jblock_hash_yes])
       (simp_all add: demo_facts)
  then show ?thesis by (auto simp: demo_facts)
qed

end
