(* ===== verification/TrustedParallel.thy ===== *)
theory TrustedParallel
  imports TrustedCounter "HOL-Library.List_Lexorder"
begin

text \<open>
  \<open>App/TrustedPara.cpp\<close>: the trusted component of the parallel protocol. A view runs
  many blocks at once, so besides the node's (view, phase) it keeps a phase per block hash
  (\<open>blockPhases\<close>) and the pre-committed blocks by sequence number (\<open>precommitData\<close>), from
  which it computes the prefix it is locked on. \<open>getBlockFunc\<close>, a closure over the
  handler, is a function on the caller's state \<open>'s\<close>, which it may change (\<open>operator[]\<close>).
\<close>

section \<open>State\<close>

record PrecommitData =
  pc_blockHash :: Hash
  pc_view :: View

record TrustedPara =
  tq_latestPreparedHash :: Hash
  tq_latestPreparedView :: View
  tq_latestPreparedSeqNumber :: u32
  tq_prefixLockedHash :: Hash
  tq_prefixLockedView :: View
  tq_prefixLockedSeqNumber :: u32
  tq_view :: View
  tq_phase :: Phase1
  tq_blockPhases :: "(bytes, Phase1) stdmap"   \<comment> \<open>\<open>std::map<Hash, Phase1>\<close>: keys compare by their bytes\<close>
  tq_id :: PID
  tq_priv :: KEY
  tq_qsize :: u32
  tq_precommitData :: "(u32, PrecommitData) stdmap"

definition TrustedPara_new :: "PID \<Rightarrow> KEY \<Rightarrow> u32 \<Rightarrow> TrustedPara" where
  "TrustedPara_new i priv q =
     \<lparr>tq_latestPreparedHash = Hash_zero True, tq_latestPreparedView = 0, tq_latestPreparedSeqNumber = 0,
      tq_prefixLockedHash = Hash_zero True, tq_prefixLockedView = 0, tq_prefixLockedSeqNumber = 0,
      tq_view = 0, tq_phase = PH1_NEWVIEW, tq_blockPhases = [], tq_id = i, tq_priv = priv, tq_qsize = q,
      tq_precommitData = []\<rparr>"

definition tq_changeView :: "View \<Rightarrow> TrustedPara \<Rightarrow> TrustedPara" where
  "tq_changeView v t = t\<lparr>tq_view := v, tq_phase := PH1_NEWVIEW, tq_blockPhases := [], tq_precommitData := []\<rparr>"

definition tq_increment_view :: "TrustedPara \<Rightarrow> TrustedPara" where
  "tq_increment_view t =
     t\<lparr>tq_view := tq_view t + 1, tq_blockPhases := [], tq_precommitData := [], tq_prefixLockedSeqNumber := 0\<rparr>"

definition tq_increment_node_phase :: "TrustedPara \<Rightarrow> TrustedPara" where
  "tq_increment_node_phase t =
     (if tq_phase t = PH1_NEWVIEW then t\<lparr>tq_phase := PH1_PARALLEL\<rparr>
      else if tq_phase t = PH1_RECOVER then t\<lparr>tq_phase := PH1_VERIFY\<rparr>
      else if tq_phase t = PH1_VERIFY then t\<lparr>tq_phase := PH1_PARALLEL\<rparr>
      else if tq_phase t = PH1_PARALLEL then tq_increment_view (t\<lparr>tq_phase := PH1_NEWVIEW\<rparr>)
      else t)"

definition tq_increment_block_phase :: "Hash \<Rightarrow> TrustedPara \<Rightarrow> TrustedPara" where
  "tq_increment_block_phase h t =
     (let t = (case map_find (tq_blockPhases t) (hbytes h) of
                 None \<Rightarrow> t\<lparr>tq_blockPhases := map_set (hbytes h) PH1_PREPARE (tq_blockPhases t), tq_phase := PH1_PARALLEL\<rparr>
               | Some _ \<Rightarrow> t);
          blockPhase = fst (map_at 0 (tq_blockPhases t) (hbytes h))
      in if blockPhase = PH1_PREPARE then t\<lparr>tq_blockPhases := map_set (hbytes h) PH1_PRECOMMIT (tq_blockPhases t)\<rparr>
         else if blockPhase = PH1_PRECOMMIT then t\<lparr>tq_blockPhases := map_set (hbytes h) PH1_COMMIT (tq_blockPhases t)\<rparr>
         else if blockPhase = PH1_COMMIT then t\<lparr>tq_blockPhases := map_set (hbytes h) PH1_PREPARE (tq_blockPhases t)\<rparr>
         else t)"

definition tq_set_phase :: "Phase1 \<Rightarrow> TrustedPara \<Rightarrow> TrustedPara" where
  "tq_set_phase p t = t\<lparr>tq_phase := p\<rparr>"

section \<open>Signing\<close>

definition tq_sign :: "crypto \<Rightarrow> Hash \<Rightarrow> Hash \<Rightarrow> View \<Rightarrow> u32 \<Rightarrow> TrustedPara \<Rightarrow> Just \<times> TrustedPara" where
  "tq_sign C h1 h2 v2 sq t =
     (let rdata = RDataPara_new h1 (tq_view t) h2 v2 (tq_phase t) sq;
          sign = Sign_make C (tq_priv t) (tq_id t) (rdataPara_toString rdata)
      in (JustPara_sign rdata sign, tq_increment_node_phase t))"

definition tq_signBlock :: "crypto \<Rightarrow> Hash \<Rightarrow> Hash \<Rightarrow> View \<Rightarrow> u32 \<Rightarrow> TrustedPara \<Rightarrow> Just \<times> TrustedPara" where
  "tq_signBlock C h1 h2 v2 sq t =
     (let t = (case map_find (tq_blockPhases t) (hbytes h1) of
                 None \<Rightarrow> t\<lparr>tq_blockPhases := map_set (hbytes h1) PH1_PREPARE (tq_blockPhases t)\<rparr>
               | Some _ \<Rightarrow> t);
          ph = fst (map_at 0 (tq_blockPhases t) (hbytes h1));
          rdata = RDataPara_new h1 (tq_view t) h2 v2 ph sq;
          sign = Sign_make C (tq_priv t) (tq_id t) (rdataPara_toString rdata)
      in (JustPara_sign rdata sign, tq_increment_block_phase h1 t))"

definition tq_TEEsign :: "crypto \<Rightarrow> TrustedPara \<Rightarrow> Just \<times> TrustedPara" where
  "tq_TEEsign C t =
     tq_sign C (Hash_zero False) (tq_latestPreparedHash t) (tq_latestPreparedView t) (tq_latestPreparedSeqNumber t) t"

definition tq_TEEverify :: "crypto \<Rightarrow> Nodes \<Rightarrow> Just \<Rightarrow> bool res" where
  "tq_TEEverify C ns just =
     bindE (getRDataPara just) (\<lambda>r. signs_verify C ns (j_signs just) (rdataPara_toString r))"

text \<open>The unset justification that the failing calls return.\<close>

definition JustPara_fail :: Just where
  "JustPara_fail = JustPara_flag False RDataPara_default Signs_empty"

definition tq_TEEverifyLeaderQC :: "crypto \<Rightarrow> Nodes \<Rightarrow> Just \<Rightarrow> Hash list \<Rightarrow> bool \<Rightarrow> TrustedPara \<Rightarrow> Just res" where
  "tq_TEEverifyLeaderQC C ns just blockHashes checkHashes t =
     bindE (getRDataPara just) (\<lambda>rd.
       let prefixLockedInHashes =
             (if checkHashes
              then justv rd = 0 \<or> list_ex (\<lambda>h. hash_eq h (tq_prefixLockedHash t)) blockHashes
              else True)
       in bindE (tq_TEEverify C ns just) (\<lambda>teeverif.
            let eq_views = (tq_view t = propv rd);
                eq_phases = (phase rd = PH1_NEWVIEW);
                safety = (prefixLockedInHashes \<or> justv rd > tq_prefixLockedView t)
            in if teeverif \<and> eq_views \<and> eq_phases \<and> safety then Inr just else Inr JustPara_fail))"

definition tq_TEEprepare :: "crypto \<Rightarrow> Nodes \<Rightarrow> PBlock \<Rightarrow> Just \<Rightarrow> TrustedPara \<Rightarrow> (Just \<times> TrustedPara) res" where
  "tq_TEEprepare C ns block just t =
     bindE (getRDataPara just) (\<lambda>rd.
     bindE (tq_TEEverify C ns just) (\<lambda>teeverif.
       if teeverif \<and> tq_view t = propv rd \<and> phase rd = PH1_NEWVIEW then
         bindE (pblock_hash C block) (\<lambda>h. Inr (tq_signBlock C h (justh rd) (justv rd) (p_seqNumber block) t))
       else Inr (JustPara_fail, t)))"

section \<open>Storing certificates\<close>

text \<open>
  The loop of \<open>TEEstore\<close>: from \<open>i\<close> up to the highest pre-committed sequence number
  \<open>hiKey\<close>, as long as there is pre-commit data and the known blocks extend each other. The
  fuel counts the sequence numbers that can still be visited.
\<close>

primrec tq_scan :: "crypto \<Rightarrow> (u32 \<Rightarrow> 's \<Rightarrow> (PBlock \<times> 's) res) \<Rightarrow> (u32, PrecommitData) stdmap \<Rightarrow> u32 \<Rightarrow>
    nat \<Rightarrow> u32 \<Rightarrow> bool \<Rightarrow> Hash \<Rightarrow> u32 \<Rightarrow> 's \<Rightarrow> (u32 \<times> 's) res" where
  "tq_scan C getBlock data hiKey 0 i prevExists lastValid highest s = Inl Diverges"
| "tq_scan C getBlock data hiKey (Suc fuel) i prevExists lastValid highest s =
     (if i \<le> hiKey then
        (case map_find data i of
           None \<Rightarrow> Inr (highest, s)
         | Some _ \<Rightarrow>
             bindE (getBlock i s) (\<lambda>(b, s).
               if pblock_isBlock b then
                 bindE (if prevExists \<and> i > 1
                        then bindE (getBlock i s) (\<lambda>(b, s). Inr (\<not> pblock_extends b lastValid, s))
                        else Inr (False, s)) (\<lambda>(wrong, s).
                   if wrong then Inr (highest, s)
                   else bindE (getBlock i s) (\<lambda>(b, s).
                        bindE (pblock_hash C b) (\<lambda>h.
                          tq_scan C getBlock data hiKey fuel (i + 1) True h i s)))
               else tq_scan C getBlock data hiKey fuel (i + 1) False lastValid i s))
      else Inr (highest, s))"

definition tq_lockPrefix :: "crypto \<Rightarrow> (u32 \<Rightarrow> 's \<Rightarrow> (PBlock \<times> 's) res) \<Rightarrow> TrustedPara \<Rightarrow> 's \<Rightarrow> (TrustedPara \<times> 's) res" where
  "tq_lockPrefix C getBlock t s =
     (let data = tq_precommitData t;
          checkFrom = (if tq_prefixLockedView t = tq_view t then tq_prefixLockedSeqNumber t + 1 else 1)
      in bindE (tq_scan C getBlock data (fst (last data)) (Suc (length data)) checkFrom True
                  (tq_prefixLockedHash t) 0 s) (\<lambda>(highest, s).
           if highest > tq_prefixLockedSeqNumber t then
             (let (pc, data') = map_at \<lparr>pc_blockHash = Hash_default, pc_view = 0\<rparr> data highest in
              Inr (t\<lparr>tq_precommitData := data', tq_prefixLockedHash := pc_blockHash pc,
                     tq_prefixLockedView := pc_view pc, tq_prefixLockedSeqNumber := highest\<rparr>, s))
           else Inr (t, s)))"

definition tq_TEEstore :: "crypto \<Rightarrow> Nodes \<Rightarrow> Just \<Rightarrow> (u32 \<Rightarrow> 's \<Rightarrow> (PBlock \<times> 's) res) \<Rightarrow> TrustedPara \<Rightarrow> 's \<Rightarrow>
    ((Just \<times> TrustedPara) \<times> 's) res" where
  "tq_TEEstore C ns just getBlock t s =
     bindE (getRDataPara just) (\<lambda>rd.
       let h = proph rd; v = propv rd; ph = phase rd; sq = seqNumber rd;
           qsize_result = (sg_size (j_signs just) = tq_qsize t)
       in bindE (tq_TEEverify C ns just) (\<lambda>teeverif.
            if qsize_result \<and> teeverif \<and> tq_view t = v \<and> (ph = PH1_PREPARE \<or> ph = PH1_PRECOMMIT) then
              (let t = (if v > tq_latestPreparedView t
                           \<or> (v = tq_latestPreparedView t \<and> sq > tq_latestPreparedSeqNumber t)
                        then t\<lparr>tq_latestPreparedHash := h, tq_latestPreparedView := v, tq_latestPreparedSeqNumber := sq\<rparr>
                        else t)
               in bindE (if ph = PH1_PRECOMMIT
                         then tq_lockPrefix C getBlock
                                (t\<lparr>tq_precommitData := map_set sq \<lparr>pc_blockHash = h, pc_view = v\<rparr> (tq_precommitData t)\<rparr>) s
                         else Inr (t, s)) (\<lambda>(t, s).
                    Inr (tq_signBlock C h (justh rd) (justv rd) sq t, s)))
            else Inr ((JustPara_fail, t), s)))"

section \<open>The scan ends\<close>

lemma tq_scan_terminates:
  assumes nd: "\<And>j s. getBlock j s \<noteq> Inl Diverges"
    and distinct: "map_ok data" and small: "length data < 2 ^ 32"
  shows "n + fuel = Suc (length data) \<Longrightarrow> i = i0 + word_of_nat n \<Longrightarrow>
    \<forall>k < n. i0 + word_of_nat k \<in> fst ` set data \<Longrightarrow>
    tq_scan C getBlock data hiKey fuel i prev lv hi s \<noteq> Inl Diverges"
proof (induction fuel arbitrary: n i prev lv hi s)
  case 0
  let ?V = "(\<lambda>k. i0 + word_of_nat k :: u32) ` {..<n}"
  have "inj_on (\<lambda>k. i0 + word_of_nat k :: u32) {..<n}"
  proof (rule inj_onI)
    fix a b assume ab: "a \<in> {..<n}" "b \<in> {..<n}" "i0 + word_of_nat a = i0 + (word_of_nat b :: u32)"
    then have "a < 2 ^ 32" "b < 2 ^ 32" "(word_of_nat a :: u32) = word_of_nat b"
      using 0 small by auto
    then show "a = b" by (metis unat_of_nat_u32)
  qed
  then have "n = card ?V" by (simp add: card_image)
  also have "\<dots> \<le> card (fst ` set data)"
    using 0 by (intro card_mono) auto
  also have "\<dots> \<le> length data" by (metis card_image_le card_length le_trans List.finite_set)
  finally show ?case using 0 by simp
next
  case (Suc fuel)
  have next_ok: "tq_scan C getBlock data hiKey fuel (i + 1) prev' lv' hi' s' \<noteq> Inl Diverges"
    if "map_find data i = Some x" for prev' lv' hi' s' x
  proof (rule Suc.IH [of "Suc n"])
    show "Suc n + fuel = Suc (length data)" using Suc.prems by simp
    show "i + 1 = i0 + word_of_nat (Suc n)" using Suc.prems by (simp add: ac_simps)
    have "i \<in> fst ` set data" using map_find_in_set [OF that] by force
    with Suc.prems show "\<forall>k<Suc n. i0 + word_of_nat k \<in> fst ` set data" by (auto simp: less_Suc_eq)
  qed
  show ?case
    by (auto simp: bindE_Inl_iff nd next_ok split: option.splits if_splits)
qed

section \<open>What the scan returns\<close>

lemma tq_scan_prefix:
  "tq_scan C getBlock data hiKey fuel i prev lv hi s = Inr (r, s') \<Longrightarrow> hiKey \<noteq> - 1 \<Longrightarrow>
   r = hi \<or> i \<le> r \<and> r \<le> hiKey \<and> (\<forall>k. i \<le> k \<and> k \<le> r \<longrightarrow> map_find data k \<noteq> None)"
proof (induction fuel arbitrary: i prev lv hi s)
  case (Suc fuel)
  show ?case
  proof (cases "i \<le> hiKey \<and> map_find data i \<noteq> None")
    case False
    with Suc.prems(1) show ?thesis by (auto split: if_splits option.splits)
  next
    case True
    with Suc.prems have "i \<noteq> - 1" using word_order.extremum_unique by fastforce
    then have i1: "i < i + 1" and le: "i + 1 \<le> k \<longleftrightarrow> i < k" for k
      using unat_Suc_word [of i] by (simp_all add: word_less_nat_alt word_le_nat_alt Suc_le_eq)
    from Suc.prems(1) True have "r = hi \<or> (\<exists>prev' lv' s1. tq_scan C getBlock data hiKey fuel (i + 1) prev' lv' i s1 = Inr (r, s'))"
      by (fastforce simp: bindE_Inr_iff split: if_splits option.splits)
    then show ?thesis
    proof
      assume "\<exists>prev' lv' s1. tq_scan C getBlock data hiKey fuel (i + 1) prev' lv' i s1 = Inr (r, s')"
      with Suc.IH Suc.prems(2) have "r = i \<or> i + 1 \<le> r \<and> r \<le> hiKey \<and> (\<forall>k. i + 1 \<le> k \<and> k \<le> r \<longrightarrow> map_find data k \<noteq> None)"
        by blast
      with True show ?thesis
        by (auto simp: le) (metis order_le_less)+
    qed simp
  qed
qed simp

lemma map_at_found: "map_find m k = Some v \<Longrightarrow> map_at d m k = (v, m)"
  by (simp add: map_at_def)

lemma tq_lockPrefix_spec:
  assumes "tq_lockPrefix C getBlock t s = Inr (t', s')" and "fst (last (tq_precommitData t)) \<noteq> - 1"
  defines "start \<equiv> (if tq_prefixLockedView t = tq_view t then tq_prefixLockedSeqNumber t + 1 else 1)"
  shows "t' = t \<or> (\<exists>r pc. tq_prefixLockedSeqNumber t < r \<and> start \<le> r \<and> r \<le> fst (last (tq_precommitData t)) \<and>
     map_find (tq_precommitData t) r = Some pc \<and> (\<forall>k. start \<le> k \<and> k \<le> r \<longrightarrow> map_find (tq_precommitData t) k \<noteq> None) \<and>
     t' = t\<lparr>tq_prefixLockedHash := pc_blockHash pc, tq_prefixLockedView := pc_view pc, tq_prefixLockedSeqNumber := r\<rparr>)"
proof -
  from assms(1) obtain r s1 where sc: "tq_scan C getBlock (tq_precommitData t) (fst (last (tq_precommitData t)))
      (Suc (length (tq_precommitData t))) start True (tq_prefixLockedHash t) 0 s = Inr (r, s1)"
    and r: "if r > tq_prefixLockedSeqNumber t then
        (let (pc, data') = map_at \<lparr>pc_blockHash = Hash_default, pc_view = 0\<rparr> (tq_precommitData t) r in
         t' = t\<lparr>tq_precommitData := data', tq_prefixLockedHash := pc_blockHash pc,
                tq_prefixLockedView := pc_view pc, tq_prefixLockedSeqNumber := r\<rparr>) else t' = t"
    by (auto simp: tq_lockPrefix_def start_def Let_def bindE_Inr_iff split: prod.splits if_splits)
  show ?thesis
  proof (cases "r > tq_prefixLockedSeqNumber t")
    case True
    then have "r \<noteq> 0" by auto
    with tq_scan_prefix [OF sc assms(2)] have p: "start \<le> r" "r \<le> fst (last (tq_precommitData t))"
      "\<forall>k. start \<le> k \<and> k \<le> r \<longrightarrow> map_find (tq_precommitData t) k \<noteq> None" by auto
    then obtain pc where pc: "map_find (tq_precommitData t) r = Some pc" by blast
    with True r p show ?thesis by (auto simp: map_at_found)
  qed (use r in simp)
qed

section \<open>Properties\<close>

text \<open>The entries a C++ map can hold, and the key order.\<close>

definition tq_ok :: "TrustedPara \<Rightarrow> bool" where
  "tq_ok t \<longleftrightarrow> map_ok (tq_precommitData t) \<and> map_ok (tq_blockPhases t)"

lemma tq_scan_ends:
  assumes "\<And>j s. getBlock j s \<noteq> Inl Diverges" "map_ok data" "length data < 2 ^ 32"
  shows "tq_scan C getBlock data hiKey (Suc (length data)) i prev lv hi s \<noteq> Inl Diverges"
  by (rule tq_scan_terminates [OF assms, where n = 0 and i = i]) simp_all

lemma last_key_map_set: "fst (last (map_set k v m)) \<in> insert k (fst ` set m)"
proof -
  have "map_set k v m \<noteq> []" by (induction k v m rule: map_set.induct) auto
  then have "fst (last (map_set k v m)) \<in> fst ` set (map_set k v m)" by simp
  then show ?thesis by (simp add: set_map_fst_map_set)
qed

lemma tq_lockPrefix_ends:
  assumes "\<And>j s. getBlock j s \<noteq> Inl Diverges" and "map_ok (tq_precommitData u)" "length (tq_precommitData u) < 2 ^ 32"
  shows "tq_lockPrefix C getBlock u s \<noteq> Inl Diverges"
  using tq_scan_ends [OF assms]
  by (auto simp: tq_lockPrefix_def Let_def bindE_Inl_iff simp del: tq_scan.simps split: prod.splits if_splits)

text \<open>
  \<open>TEEstore\<close> returns: its scan over the pre-committed sequence numbers ends within one
  step per entry (every visited number is an entry, and the numbers are different until
  the 32-bit counter has gone round), whatever the handler's blocks are.
\<close>

theorem tq_TEEstore_terminates:
  assumes "map_ok (tq_precommitData t)" and "length (tq_precommitData t) < 2 ^ 32 - 1"
    and "\<And>j s. getBlock j s \<noteq> Inl Diverges"
  shows "tq_TEEstore C ns just getBlock t s \<noteq> Inl Diverges"
proof -
  have "length (map_set sq pc (tq_precommitData t)) < 2 ^ 32" for sq pc
    using assms(1,2) by (simp add: length_map_set)
  then show ?thesis
    using assms(1) tq_lockPrefix_ends [OF assms(3)]
    by (auto simp: tq_TEEstore_def tq_TEEverify_def Let_def bindE_Inl_iff split: if_splits)
qed

theorem tq_TEEstore_terminates_witness:
  "tq_TEEstore crypto_yes [] (JustPara_sign RDataPara_default (Sign_char 1 65)) (\<lambda>j s. Inr (PBlock_default, s))
     (TrustedPara_new 1 5 1) () \<noteq> Inl Diverges"
  by (rule tq_TEEstore_terminates) (simp_all add: TrustedPara_new_def)

lemma tq_signBlock_sel [simp]:
  "tq_prefixLockedSeqNumber (snd (tq_signBlock C h1 h2 v2 sq t)) = tq_prefixLockedSeqNumber t"
  "tq_prefixLockedHash (snd (tq_signBlock C h1 h2 v2 sq t)) = tq_prefixLockedHash t"
  "tq_prefixLockedView (snd (tq_signBlock C h1 h2 v2 sq t)) = tq_prefixLockedView t"
  "tq_latestPreparedView (snd (tq_signBlock C h1 h2 v2 sq t)) = tq_latestPreparedView t"
  "tq_latestPreparedSeqNumber (snd (tq_signBlock C h1 h2 v2 sq t)) = tq_latestPreparedSeqNumber t"
  "tq_latestPreparedHash (snd (tq_signBlock C h1 h2 v2 sq t)) = tq_latestPreparedHash t"
  "tq_precommitData (snd (tq_signBlock C h1 h2 v2 sq t)) = tq_precommitData t"
  "tq_view (snd (tq_signBlock C h1 h2 v2 sq t)) = tq_view t"
  by (simp_all add: tq_signBlock_def tq_increment_block_phase_def Let_def split: option.splits)

text \<open>An accepted \<open>TEEstore\<close>, step by step.\<close>

lemma tq_TEEstore_cases:
  assumes "tq_TEEstore C ns just getBlock t s = Inr ((vote, t'), s')" and "getRDataPara just = Inr rd"
  obtains (refused) "vote = JustPara_fail" "t' = t" "s' = s"
  | (accepted) t1 t2 where "sg_size (j_signs just) = tq_qsize t" "tq_TEEverify C ns just = Inr True"
      "tq_view t = propv rd" "phase rd = PH1_PREPARE \<or> phase rd = PH1_PRECOMMIT"
      "t1 = (if propv rd > tq_latestPreparedView t \<or> (propv rd = tq_latestPreparedView t \<and> seqNumber rd > tq_latestPreparedSeqNumber t)
             then t\<lparr>tq_latestPreparedHash := proph rd, tq_latestPreparedView := propv rd, tq_latestPreparedSeqNumber := seqNumber rd\<rparr>
             else t)"
      "if phase rd = PH1_PRECOMMIT
       then tq_lockPrefix C getBlock (t1\<lparr>tq_precommitData := map_set (seqNumber rd)
              \<lparr>pc_blockHash = proph rd, pc_view = propv rd\<rparr> (tq_precommitData t1)\<rparr>) s = Inr (t2, s')
       else t2 = t1 \<and> s' = s"
      "(vote, t') = tq_signBlock C (proph rd) (justh rd) (justv rd) (seqNumber rd) t2"
  using assms by (auto simp: tq_TEEstore_def Let_def bindE_Inr_iff split: if_splits)

lemma JustPara_fail_unset [simp]: "\<not> j_set JustPara_fail"
  by (simp add: JustPara_fail_def)

text \<open>A certificate of node 1, in a configuration with one node.\<close>

definition demo_nodes :: Nodes where
  "demo_nodes = addNode [] 1 [] 1 1"

definition demo_cert :: "View \<Rightarrow> Phase1 \<Rightarrow> u32 \<Rightarrow> Just" where
  "demo_cert v p sq = JustPara_sign (RDataPara_new (Hash_of (replicate 32 7)) v Hash_default 0 p sq) (Sign_char 1 65)"

lemma demo_cert_facts [simp]:
  "getRDataPara (demo_cert v p sq) = Inr (RDataPara_new (Hash_of (replicate 32 7)) v Hash_default 0 p sq)"
  "sg_size (j_signs (demo_cert v p sq)) = 1"
  "tq_TEEverify crypto_yes demo_nodes (demo_cert v p sq) = Inr True"
  by (simp_all add: demo_cert_def tq_TEEverify_def signs_verify_yes Sign_char_def demo_nodes_def addNode_def nodes_find_def)

definition no_blocks :: "u32 \<Rightarrow> unit \<Rightarrow> (PBlock \<times> unit) res" where
  "no_blocks j s = Inr (PBlock_default, s)"

lemma demo_store:
  "\<exists>vote t'. tq_TEEstore crypto_yes demo_nodes (demo_cert 0 PH1_PRECOMMIT 1) no_blocks (TrustedPara_new 1 5 1) () = Inr ((vote, t'), ()) \<and>
     tq_prefixLockedSeqNumber t' = 1"
  by (simp add: tq_TEEstore_def tq_lockPrefix_def TrustedPara_new_def no_blocks_def map_at_def Let_def
      tq_signBlock_def tq_increment_block_phase_def)

text \<open>
  C36. The prefix lock is a contiguous prefix. When \<open>TEEstore\<close> accepts a pre-commit
  certificate and moves the lock, the new locked sequence number is larger than the old
  one, every sequence number from the start of the scan (after the old lock when it is of
  this view, 1 otherwise) up to it has a stored pre-commit, and the locked hash and view
  are those stored for it. (The number 2 ^ 32 - 1, after which the scan would wrap, is
  excluded.)
\<close>

theorem tq_prefix_lock_sound:
  assumes st: "tq_TEEstore C ns just getBlock t s = Inr ((vote, t'), s')" and rd: "getRDataPara just = Inr rd"
    and moved: "tq_prefixLockedSeqNumber t' \<noteq> tq_prefixLockedSeqNumber t"
    and small: "seqNumber rd \<noteq> - 1" "map_find (tq_precommitData t) (- 1) = None"
  shows "tq_prefixLockedSeqNumber t < tq_prefixLockedSeqNumber t' \<and>
    (\<forall>k. (if tq_prefixLockedView t = tq_view t then tq_prefixLockedSeqNumber t + 1 else 1) \<le> k \<and>
         k \<le> tq_prefixLockedSeqNumber t' \<longrightarrow> map_find (tq_precommitData t') k \<noteq> None) \<and>
    (\<exists>pc. map_find (tq_precommitData t') (tq_prefixLockedSeqNumber t') = Some pc \<and>
       tq_prefixLockedHash t' = pc_blockHash pc \<and> tq_prefixLockedView t' = pc_view pc)"
  using st rd
proof (cases rule: tq_TEEstore_cases)
  case refused
  with moved show ?thesis by simp
next
  case (accepted t1 t2)
  let ?u = "t1\<lparr>tq_precommitData := map_set (seqNumber rd) \<lparr>pc_blockHash = proph rd, pc_view = propv rd\<rparr> (tq_precommitData t1)\<rparr>"
  have t1: "tq_prefixLockedSeqNumber t1 = tq_prefixLockedSeqNumber t" "tq_prefixLockedView t1 = tq_prefixLockedView t"
    "tq_view t1 = tq_view t" "tq_precommitData t1 = tq_precommitData t"
    by (simp_all add: accepted(5))
  have t': "t' = snd (tq_signBlock C (proph rd) (justh rd) (justv rd) (seqNumber rd) t2)"
    using accepted(7) by (metis snd_conv)
  have "phase rd = PH1_PRECOMMIT"
    using accepted(6) moved t1 t' by (auto split: if_splits)
  with accepted(6) have lp: "tq_lockPrefix C getBlock ?u s = Inr (t2, s')" by simp
  have "fst (last (tq_precommitData ?u)) \<noteq> - 1"
    using last_key_map_set [of "seqNumber rd" "\<lparr>pc_blockHash = proph rd, pc_view = propv rd\<rparr>" "tq_precommitData t"] small
    unfolding map_find_None_iff by (force simp: t1)
  from tq_lockPrefix_spec [OF lp this] moved t1 t' show ?thesis by auto
qed

theorem tq_prefix_lock_sound_witness:
  "\<exists>vote t'. tq_TEEstore crypto_yes demo_nodes (demo_cert 0 PH1_PRECOMMIT 1) no_blocks (TrustedPara_new 1 5 1) () = Inr ((vote, t'), ()) \<and>
     tq_prefixLockedSeqNumber t' = 1 \<and> map_find (tq_precommitData t') 1 \<noteq> None"
proof -
  from demo_store obtain vote t' where
    st: "tq_TEEstore crypto_yes demo_nodes (demo_cert 0 PH1_PRECOMMIT 1) no_blocks (TrustedPara_new 1 5 1) () = Inr ((vote, t'), ())"
    and l: "tq_prefixLockedSeqNumber t' = 1" by blast
  from tq_prefix_lock_sound [OF st demo_cert_facts(1)] l st show ?thesis
    by (auto simp: TrustedPara_new_def)
qed

text \<open>
  The lock goes stale when a replica catches up. \<open>changeView\<close> clears the pre-commit
  data but, unlike \<open>increment_view\<close>, keeps \<open>prefixLockedSeqNumber\<close>; after it, a
  certificate whose sequence number is not above that of the old view's lock leaves the
  lock on the old view's block, although the replica votes for it.
\<close>

theorem tq_changeView_stale_lock:
  assumes "tq_TEEstore C ns just getBlock (tq_changeView v t) s = Inr ((vote, t'), s')" and "getRDataPara just = Inr rd"
    and "seqNumber rd \<le> tq_prefixLockedSeqNumber t" and "seqNumber rd \<noteq> - 1"
  shows "tq_prefixLockedHash t' = tq_prefixLockedHash t \<and> tq_prefixLockedView t' = tq_prefixLockedView t \<and>
    tq_prefixLockedSeqNumber t' = tq_prefixLockedSeqNumber t"
  using assms(1,2)
proof (cases rule: tq_TEEstore_cases)
  case refused
  then show ?thesis by (simp add: tq_changeView_def)
next
  case (accepted t1 t2)
  have t1: "tq_prefixLockedSeqNumber t1 = tq_prefixLockedSeqNumber t" "tq_prefixLockedHash t1 = tq_prefixLockedHash t"
    "tq_prefixLockedView t1 = tq_prefixLockedView t" "tq_precommitData t1 = []"
    by (simp_all add: accepted(5) tq_changeView_def)
  have t': "t' = snd (tq_signBlock C (proph rd) (justh rd) (justv rd) (seqNumber rd) t2)"
    using accepted(7) by (metis snd_conv)
  have "t2 = t1\<lparr>tq_precommitData := tq_precommitData t2\<rparr>"
  proof (cases "phase rd = PH1_PRECOMMIT")
    case True
    let ?u = "t1\<lparr>tq_precommitData := map_set (seqNumber rd) \<lparr>pc_blockHash = proph rd, pc_view = propv rd\<rparr> (tq_precommitData t1)\<rparr>"
    from True accepted(6) have lp: "tq_lockPrefix C getBlock ?u s = Inr (t2, s')" by simp
    have "fst (last (tq_precommitData ?u)) = seqNumber rd" by (simp add: t1)
    with tq_lockPrefix_spec [OF lp] assms(3,4) t1 have "t2 = ?u" by fastforce
    then show ?thesis by simp
  next
    case False
    with accepted(6) show ?thesis by simp
  qed
  then show ?thesis
    unfolding t' tq_signBlock_sel using t1 by (metis TrustedPara.select_convs(4,5,6) TrustedPara.surjective TrustedPara.update_convs(13))
qed

theorem tq_changeView_stale_lock_witness:
  "\<exists>vote t'. tq_TEEstore crypto_yes demo_nodes (demo_cert 3 PH1_PRECOMMIT 1) no_blocks
       (tq_changeView 3 (TrustedPara_new 1 5 1\<lparr>tq_prefixLockedSeqNumber := 10\<rparr>)) () = Inr ((vote, t'), ()) \<and>
     j_set vote \<and> tq_prefixLockedSeqNumber t' = 10"
proof -
  let ?t = "TrustedPara_new 1 5 1\<lparr>tq_prefixLockedSeqNumber := 10\<rparr>"
  obtain vote t' where st: "tq_TEEstore crypto_yes demo_nodes (demo_cert 3 PH1_PRECOMMIT 1) no_blocks (tq_changeView 3 ?t) () = Inr ((vote, t'), ())"
    and v: "j_set vote"
    by (simp add: tq_TEEstore_def tq_lockPrefix_def TrustedPara_new_def no_blocks_def map_at_def Let_def
      tq_changeView_def tq_signBlock_def tq_increment_block_phase_def)
  from tq_changeView_stale_lock [OF st demo_cert_facts(1)] v st show ?thesis by simp
qed

text \<open>
  The latest prepared block only advances: \<open>TEEstore\<close> never lowers the pair of view
  and sequence number.
\<close>

theorem tq_latest_monotone:
  assumes "tq_TEEstore C ns just getBlock t s = Inr ((vote, t'), s')" and "getRDataPara just = Inr rd"
  shows "tq_latestPreparedView t < tq_latestPreparedView t' \<or>
    tq_latestPreparedView t = tq_latestPreparedView t' \<and> tq_latestPreparedSeqNumber t \<le> tq_latestPreparedSeqNumber t'"
  using assms
proof (cases rule: tq_TEEstore_cases)
  case (accepted t1 t2)
  have keep: "tq_latestPreparedView v = tq_latestPreparedView u \<and> tq_latestPreparedSeqNumber v = tq_latestPreparedSeqNumber u"
    if "tq_lockPrefix C getBlock u s = Inr (v, w)" for u v w
    using that by (auto simp: tq_lockPrefix_def Let_def bindE_Inr_iff split: prod.splits if_splits)
  have "tq_latestPreparedView t2 = tq_latestPreparedView t1 \<and> tq_latestPreparedSeqNumber t2 = tq_latestPreparedSeqNumber t1"
    using accepted(6) keep by (fastforce split: if_splits)
  moreover have "t' = snd (tq_signBlock C (proph rd) (justh rd) (justv rd) (seqNumber rd) t2)"
    using accepted(7) by (metis snd_conv)
  ultimately show ?thesis
    by (auto simp: accepted(5))
qed simp

theorem tq_latest_monotone_witness:
  "\<exists>vote t'. tq_TEEstore crypto_yes demo_nodes (demo_cert 0 PH1_PRECOMMIT 1) no_blocks (TrustedPara_new 1 5 1) () = Inr ((vote, t'), ()) \<and>
     (0 < tq_latestPreparedView t' \<or> 0 = tq_latestPreparedView t')"
proof -
  from demo_store obtain vote t' where
    st: "tq_TEEstore crypto_yes demo_nodes (demo_cert 0 PH1_PRECOMMIT 1) no_blocks (TrustedPara_new 1 5 1) () = Inr ((vote, t'), ())" by blast
  from tq_latest_monotone [OF st demo_cert_facts(1)] st show ?thesis
    by (auto simp: TrustedPara_new_def)
qed

text \<open>
  C37. The component does not prevent equivocation between blocks: it signs a prepare vote
  for every block it has not seen, so for two blocks with different hashes and the same
  sequence number it returns two votes for the same view, phase and sequence number.
\<close>

theorem tq_equivocates:
  assumes "getRDataPara just = Inr rd" and "tq_TEEverify C ns just = Inr True"
    and "tq_view t = propv rd" and "phase rd = PH1_NEWVIEW"
    and "pblock_hash C b1 = Inr h1" "pblock_hash C b2 = Inr h2" and "\<not> hash_eq h1 h2"
    and "p_seqNumber b1 = p_seqNumber b2"
    and "map_find (tq_blockPhases t) (hbytes h1) = None" "map_find (tq_blockPhases t) (hbytes h2) = None"
  shows "\<exists>v1 t1 v2 t2 d1 d2. tq_TEEprepare C ns b1 just t = Inr (v1, t1) \<and> tq_TEEprepare C ns b2 just t1 = Inr (v2, t2) \<and>
    j_set v1 \<and> j_set v2 \<and> getRDataPara v1 = Inr d1 \<and> getRDataPara v2 = Inr d2 \<and>
    propv d1 = propv d2 \<and> phase d1 = PH1_PREPARE \<and> phase d2 = PH1_PREPARE \<and> seqNumber d1 = seqNumber d2 \<and>
    \<not> hash_eq (proph d1) (proph d2)"
proof -
  have ne: "hbytes h1 \<noteq> hbytes h2" using assms(7) by (simp add: hash_eq_iff)
  obtain v1 t1 where s1: "tq_signBlock C h1 (justh rd) (justv rd) (p_seqNumber b1) t = (v1, t1)" by fastforce
  from s1 assms(9) have v1: "j_set v1" "getRDataPara v1 = Inr (RDataPara_new h1 (tq_view t) (justh rd) (justv rd) PH1_PREPARE (p_seqNumber b1))"
    by (auto simp: tq_signBlock_def Let_def map_at_def)
  from s1 assms(9) ne have t1: "map_find (tq_blockPhases t1) (hbytes h2) = map_find (tq_blockPhases t) (hbytes h2)" "tq_view t1 = tq_view t"
    by (auto simp: tq_signBlock_def tq_increment_block_phase_def Let_def map_at_def)
  obtain v2 t2 where s2: "tq_signBlock C h2 (justh rd) (justv rd) (p_seqNumber b2) t1 = (v2, t2)" by fastforce
  from s2 assms(10) t1 have v2: "j_set v2" "getRDataPara v2 = Inr (RDataPara_new h2 (tq_view t) (justh rd) (justv rd) PH1_PREPARE (p_seqNumber b2))"
    by (auto simp: tq_signBlock_def Let_def map_at_def)
  show ?thesis
    using assms(1-8) s1 s2 v1 v2 t1(2) by (force simp: tq_TEEprepare_def)
qed

theorem tq_equivocates_witness:
  "\<exists>v1 t1 v2 t2.
     tq_TEEprepare (crypto_yes\<lparr>SHA256 := (\<lambda>bs. bs)\<rparr>) [] (PBlock_new (Hash_of (replicate 32 1)) 0 1 [])
       (JustPara_signs RDataPara_default Signs_empty) (TrustedPara_new 1 5 1) = Inr (v1, t1) \<and>
     tq_TEEprepare (crypto_yes\<lparr>SHA256 := (\<lambda>bs. bs)\<rparr>) [] (PBlock_new (Hash_of (replicate 32 2)) 0 1 [])
       (JustPara_signs RDataPara_default Signs_empty) t1 = Inr (v2, t2) \<and> j_set v1 \<and> j_set v2"
proof -
  let ?C = "crypto_yes\<lparr>SHA256 := (\<lambda>bs. bs)\<rparr>" and ?j = "JustPara_signs RDataPara_default Signs_empty"
  let ?b = "\<lambda>x. PBlock_new (Hash_of (replicate 32 x)) 0 1 []"
  have h: "pblock_hash ?C (?b x) = Inr (Hash_of ([49] @ (replicate 32 x) @ [49] @ to_string (1::u32) @ to_string (0::u32)))" for x
    by (simp add: pblock_hash_def pblock_toString_def pblock_transactions2string_def PBlock_new_def
        hash_toString_def Hash_of_def bool_string_def SHA256_DIGEST_LENGTH_def)
  have v: "tq_TEEverify ?C [] ?j = Inr True"
    by (simp add: tq_TEEverify_def signs_verify_empty)
  have ne: "\<not> hash_eq (Hash_of ([49] @ (replicate 32 1) @ [49] @ to_string (1::u32) @ to_string (0::u32)))
      (Hash_of ([49] @ (replicate 32 2) @ [49] @ to_string (1::u32) @ to_string (0::u32)))"
    by (simp add: hash_eq_iff Hash_of_def SHA256_DIGEST_LENGTH_def numeral_eq_Suc)
  have "tq_view (TrustedPara_new 1 5 1) = propv RDataPara_default" "phase RDataPara_default = PH1_NEWVIEW"
    by (simp_all add: TrustedPara_new_def RDataPara_default_def)
  from tq_equivocates [OF _ v this h [of 1] h [of 2] ne] show ?thesis
    by (fastforce simp: PBlock_new_def TrustedPara_new_def)
qed

end
