(* ===== verification/HandlerState.thy ===== *)
theory HandlerState
  imports MsgLog TrustedBasic TrustedChained TrustedParallel
begin

text \<open>
  The members of \<open>Handler\<close> (\<open>App/Handler.h\<close>, \<open>App/Handler.cpp\<close>) and the functions that the
  three protocols share: leaders and peers, verification, transactions and replies, the
  timer and the signals.

  \<^item> The statics \<open>tf\<close>, \<open>tp\<close> and \<open>tpara\<close> and the flags \<open>isPaused\<close>, \<open>pauseRequested\<close>,
    \<open>resumeRequested\<close> are fields. \<open>timeout\<close>, \<open>kf\<close>, \<open>stopped\<close>, the event contexts, the
    networks and the recording of \<open>Stats\<close> are not.
  \<^item> What a handler sends, the calls on the timer, the statistics file and the event loops is
    appended to \<open>outs\<close>.
  \<^item> \<open>distribution(generator)\<close> is compared with \<open>forceRecover\<close> and not used otherwise:
    \<open>h_forced k\<close> is the outcome of the \<open>k\<close>-th comparison, \<open>h_draws\<close> counts the draws.
  \<^item> A client connection is a number.
\<close>

section \<open>State\<close>

type_synonym conn = nat
type_synonym PeerId = "bytes \<times> PORT"
type_synonym Peer = "PID \<times> PeerId"
type_synonym Peers = "Peer list"
type_synonym ClientNfo = "bool \<times> u32 \<times> u32 \<times> conn"
type_synonym Clients = "(CID, ClientNfo) stdmap"

datatype NetMsg =
    Net_NewView MsgNewView | Net_LdrPrepare MsgLdrPrepare | Net_Prepare MsgPrepare
  | Net_PreCommit MsgPreCommit | Net_Commit MsgCommit
  | Net_NewViewCh MsgNewViewCh | Net_LdrPrepareCh MsgLdrPrepareCh | Net_PrepareCh MsgPrepareCh
  | Net_NewViewPara MsgNewViewPara | Net_RecoverPara MsgRecoverPara | Net_LdrRecoverPara MsgLdrRecoverPara
  | Net_VerifyPara MsgVerifyPara | Net_LdrPreparePara MsgLdrPreparePara | Net_PreparePara MsgPreparePara
  | Net_PreCommitPara MsgPreCommitPara | Net_CommitPara MsgCommitPara

datatype Effect =
    Multicast NetMsg "PeerId list"   \<comment> \<open>\<open>pnet.multicast_msg\<close>\<close>
  | SendReply MsgReply conn          \<comment> \<open>\<open>cnet.send_msg\<close>\<close>
  | TimerDel | TimerAdd
  | RecordStats
  | StopPeers | StopClients          \<comment> \<open>\<open>pec.stop()\<close>, \<open>cec.stop()\<close>\<close>

record Handler =
  h_myid :: PID
  h_numFaults :: u32
  h_qsize :: u32
  h_total :: u32
  h_nodes :: Nodes
  h_priv :: KEY
  h_view :: View
  h_localSeq :: u32
  h_maxViews :: u32
  h_maxBlocksInView :: u32
  h_forced :: "nat \<Rightarrow> bool"
  h_draws :: nat
  h_byzantine :: u32
  h_peers :: Peers
  h_clients :: Clients
  h_rep_queue :: "(TID \<times> CID) list"
  h_viewsWithoutNewTrans :: u32
  h_started :: bool
  h_timerView :: View
  h_transactions :: "Transaction list"
  h_blocks :: "(View, Block) stdmap"
  h_jblocks :: "(View, JBlock) stdmap"
  h_pblocks :: "(View, PBlock list) stdmap"
  h_log :: Log
  h_recoverResponses :: "(View, u32) stdmap"
  h_lastExecutedSeq :: u32
  h_justNV :: Just
  h_verifiedJust :: Just
  h_isPaused :: bool
  h_pauseRequested :: bool
  h_resumeRequested :: bool
  h_tf :: TrustedFun
  h_tp :: TrustedCh
  h_tpara :: TrustedPara
  outs :: "Effect list"

definition emit :: "Effect list \<Rightarrow> Handler \<Rightarrow> Handler" where
  "emit es h = h\<lparr>outs := outs h @ es\<rparr>"

text \<open>
  The constructor: \<open>int byzantine\<close> is compared with an \<open>unsigned\<close>, so it is kept as the word
  it is converted to. The peers are the other nodes below \<open>total\<close> that are in the table.
\<close>

definition Handler_peers :: "PID \<Rightarrow> u32 \<Rightarrow> Nodes \<Rightarrow> Peers" where
  "Handler_peers i tot ns =
     concat (map (\<lambda>j. case nodes_find ns j of
                        Some nfo \<Rightarrow> if j \<noteq> i then [(j, (ni_host nfo, ni_rport nfo))] else []
                      | None \<Rightarrow> [])
                 (map word_of_nat [0..<unat tot]))"

definition Handler_new :: "crypto \<Rightarrow> PID \<Rightarrow> u32 \<Rightarrow> u32 \<Rightarrow> u32 \<Rightarrow> Nodes \<Rightarrow> KEY \<Rightarrow> u32 \<Rightarrow> (nat \<Rightarrow> bool) \<Rightarrow> u32 \<Rightarrow> Handler res" where
  "Handler_new C i constFactor numFaults maxViews ns priv maxBlocks forced byz =
     (let tot = constFactor * numFaults + 1; qsize = tot - numFaults in
      bindE (TrustedCh_new C i priv qsize) (\<lambda>tp.
      Inr \<lparr>h_myid = i, h_numFaults = numFaults, h_qsize = qsize, h_total = tot, h_nodes = ns,
           h_priv = priv, h_view = 0, h_localSeq = 1, h_maxViews = maxViews,
           h_maxBlocksInView = maxBlocks, h_forced = forced, h_draws = 0, h_byzantine = byz,
           h_peers = Handler_peers i tot ns, h_clients = [], h_rep_queue = [],
           h_viewsWithoutNewTrans = 0, h_started = False, h_timerView = 0, h_transactions = [],
           h_blocks = [], h_jblocks = [],
           h_pblocks = map_set 0 (replicate (unat maxBlocks) PBlock_default) [],
           h_log = Log_empty, h_recoverResponses = [], h_lastExecutedSeq = 0,
           h_justNV = Just_default, h_verifiedJust = Just_typed Type_RDataPara,
           h_isPaused = False, h_pauseRequested = False, h_resumeRequested = False,
           h_tf = TrustedFun_new i priv qsize, h_tp = tp, h_tpara = TrustedPara_new i priv qsize,
           outs = []\<rparr>))"

section \<open>Leaders, peers, verification\<close>

definition timeToStop :: "Handler \<Rightarrow> bool" where
  "timeToStop h \<longleftrightarrow> h_maxViews h > 0 \<and> h_maxViews h \<le> h_view h + 1"

text \<open>The test at the start of the handlers of the chained and the parallel protocol.\<close>

definition maxViewsReached :: "Handler \<Rightarrow> bool" where
  "maxViewsReached h \<longleftrightarrow> h_maxViews h > 0 \<and> h_view h \<ge> h_maxViews h"

definition setTimer :: "Handler \<Rightarrow> Handler" where
  "setTimer h = (emit [TimerDel, TimerAdd] h)\<lparr>h_timerView := h_view h\<rparr>"

definition recordStats :: "Handler \<Rightarrow> Handler" where
  "recordStats h = emit [RecordStats] h"

definition getLeaderOf :: "Handler \<Rightarrow> View \<Rightarrow> PID" where
  "getLeaderOf h v = v mod h_total h"

definition getCurrentLeader :: "Handler \<Rightarrow> PID" where
  "getCurrentLeader h = getLeaderOf h (h_view h)"

definition amLeaderOf :: "Handler \<Rightarrow> View \<Rightarrow> bool" where
  "amLeaderOf h v \<longleftrightarrow> h_myid h = getLeaderOf h v"

definition amCurrentLeader :: "Handler \<Rightarrow> bool" where
  "amCurrentLeader h \<longleftrightarrow> h_myid h = getCurrentLeader h"

definition remove_from_peers :: "Handler \<Rightarrow> PID \<Rightarrow> Peers" where
  "remove_from_peers h i = filter (\<lambda>p. i \<noteq> fst p) (h_peers h)"

definition keep_from_peers :: "Handler \<Rightarrow> PID \<Rightarrow> Peers" where
  "keep_from_peers h i = filter (\<lambda>p. i = fst p) (h_peers h)"

definition getPeerids :: "Peers \<Rightarrow> PeerId list" where
  "getPeerids ps = map snd ps"

text \<open>The \<open>sendMsg\<close> functions are one \<open>multicast_msg\<close> each.\<close>

definition sendMsg :: "NetMsg \<Rightarrow> Peers \<Rightarrow> Handler \<Rightarrow> Handler" where
  "sendMsg m recipients h = emit [Multicast m (getPeerids recipients)] h"

definition Sverify :: "crypto \<Rightarrow> Nodes \<Rightarrow> Signs \<Rightarrow> bytes \<Rightarrow> bool res" where
  "Sverify C ns signs s = signs_verify C ns signs s"

definition verifyJust :: "crypto \<Rightarrow> Handler \<Rightarrow> Just \<Rightarrow> bool res" where
  "verifyJust C h just = bindE (getRData just) (\<lambda>r. Sverify C (h_nodes h) (j_signs just) (rdata_toString r))"

definition verifyJustPara :: "crypto \<Rightarrow> Handler \<Rightarrow> Just \<Rightarrow> bool res" where
  "verifyJustPara C h just =
     bindE (getRDataPara just) (\<lambda>r. Sverify C (h_nodes h) (j_signs just) (rdataPara_toString r))"

definition verifyTransaction :: "MsgTransaction \<Rightarrow> bool" where
  "verifyTransaction msg = True"

section \<open>Replies\<close>

text \<open>\<open>replyTransactions\<close>: one queue entry per transaction of a known client; id 0 is a dummy.\<close>

definition reply_entry :: "Clients \<Rightarrow> Transaction \<Rightarrow> (TID \<times> CID) list" where
  "reply_entry cs t =
     (if transid t \<noteq> 0
      then (case map_find cs (clientid t) of Some _ \<Rightarrow> [(transid t, clientid t)] | None \<Rightarrow> [])
      else [])"

definition replyTransactions :: "Transaction list \<Rightarrow> Handler \<Rightarrow> Handler res" where
  "replyTransactions ts h =
     bindE (arr_prefix ts MAX_NUM_TRANSACTIONS) (\<lambda>ts.
       Inr (h\<lparr>h_rep_queue := h_rep_queue h @ concat (map (reply_entry (h_clients h)) ts)\<rparr>))"

definition replyHash :: "crypto \<Rightarrow> Hash \<Rightarrow> Handler \<Rightarrow> Handler res" where
  "replyHash C hash h =
     (case map_find (h_blocks h) (h_view h) of
        Some block \<Rightarrow>
          bindE (block_hash C block) (\<lambda>bh.
            if hash_eq bh hash then replyTransactions (b_transactions block) h else Inr h)
      | None \<Rightarrow> Inr h)"

text \<open>
  The reader of \<open>rep_queue\<close>: \<open>send_ok\<close> says whether \<open>cnet.send_msg\<close> returns (it may throw,
  which is caught); \<open>replied\<close> is incremented when it does.
\<close>

fun drain_replies :: "(conn \<Rightarrow> bool) \<Rightarrow> (TID \<times> CID) list \<Rightarrow> Handler \<Rightarrow> Handler" where
  "drain_replies send_ok [] h = h"
| "drain_replies send_ok ((tid, cid) # q) h =
     drain_replies send_ok q
       (case map_find (h_clients h) cid of
          Some (running, received, replied, recipient) \<Rightarrow>
            if send_ok recipient
            then (emit [SendReply \<lparr>reply = tid\<rparr> recipient] h)
                   \<lparr>h_clients := map_set cid (running, received, replied + 1, recipient) (h_clients h)\<rparr>
            else h
        | None \<Rightarrow> h)"

definition process_rep_queue :: "(conn \<Rightarrow> bool) \<Rightarrow> Handler \<Rightarrow> Handler" where
  "process_rep_queue send_ok h = drain_replies send_ok (h_rep_queue h) (h\<lparr>h_rep_queue := []\<rparr>)"

section \<open>Transactions, blocks, clients\<close>

text \<open>
  The two loops of the \<open>createNewBlock\<close> functions: the oldest pending transactions, padded
  with dummies, and their number.
\<close>

definition fill_block :: "Handler \<Rightarrow> Transaction list \<times> u32 \<times> Handler" where
  "fill_block h =
     (let ts = take MAX_NUM_TRANSACTIONS (h_transactions h); i = length ts
      in (ts @ replicate (MAX_NUM_TRANSACTIONS - i) Transaction_dummy, word_of_nat i,
          h\<lparr>h_transactions := drop MAX_NUM_TRANSACTIONS (h_transactions h)\<rparr>))"

definition createNewBlock :: "Hash \<Rightarrow> Handler \<Rightarrow> Block \<times> Handler" where
  "createNewBlock hash h = (let (ts, sz, h) = fill_block h in (Block_new hash sz ts, h))"

definition createNewBlockCh :: "Handler \<Rightarrow> JBlock \<times> Handler" where
  "createNewBlockCh h = (let (ts, sz, h) = fill_block h in (JBlock_new (h_view h) (h_justNV h) sz ts, h))"

definition createNewBlockPara :: "Hash \<Rightarrow> Handler \<Rightarrow> PBlock \<times> Handler" where
  "createNewBlockPara hash h = (let (ts, sz, h) = fill_block h in (PBlock_new hash sz (h_localSeq h) ts, h))"

text \<open>\<open>std::list::max_size()\<close> for the 24-byte nodes of the transaction list.\<close>

definition list_max_size :: nat where "list_max_size = (2 ^ 63 - 1) div 24"

definition handleTransaction :: "MsgTransaction \<Rightarrow> Handler \<Rightarrow> Handler" where
  "handleTransaction msg h =
     (if verifyTransaction msg then
        (case map_find (h_clients h) (clientid (t_trans msg)) of
           Some (running, received, replied, c) \<Rightarrow>
             if running then
               (if length (h_transactions h) < list_max_size
                then h\<lparr>h_clients := map_set (clientid (t_trans msg)) (True, received + 1, replied, c) (h_clients h),
                       h_transactions := h_transactions h @ [t_trans msg]\<rparr>
                else h)
             else h
         | None \<Rightarrow> h)
      else h)"

definition handle_transaction :: "MsgTransaction \<Rightarrow> Handler \<Rightarrow> Handler" where
  "handle_transaction msg h = (if \<not> h_isPaused h then handleTransaction msg h else h)"

text \<open>\<open>handle_start\<close>, with the protocol's \<open>getStarted\<close>.\<close>

definition handle_start :: "(Handler \<Rightarrow> Handler res) \<Rightarrow> MsgStart \<Rightarrow> conn \<Rightarrow> Handler \<Rightarrow> Handler res" where
  "handle_start getStarted msg c h =
     (let h = (case map_find (h_clients h) (st_cid msg) of
                 None \<Rightarrow> h\<lparr>h_clients := map_set (st_cid msg) (True, 0, 0, c) (h_clients h)\<rparr>
               | Some _ \<Rightarrow> h)
      in if \<not> h_started h then getStarted (h\<lparr>h_started := True\<rparr>) else Inr h)"

text \<open>The callback of the timer, with the protocol's \<open>startNewView\<close>.\<close>

definition on_timer :: "(Handler \<Rightarrow> Handler res) \<Rightarrow> Handler \<Rightarrow> Handler res" where
  "on_timer startNewView h =
     (if timeToStop h then Inr (emit [StopPeers, StopClients, TimerDel] (recordStats h))
      else bindE (if \<not> h_isPaused h then startNewView h else Inr h)
             (\<lambda>h. Inr (emit [TimerDel, TimerAdd] h)))"

definition SIGUSR1 :: int where "SIGUSR1 = 10"
definition SIGUSR2 :: int where "SIGUSR2 = 12"

definition signalHandler :: "int \<Rightarrow> Handler \<Rightarrow> Handler" where
  "signalHandler signal h =
     (if signal = SIGUSR1 then h\<lparr>h_pauseRequested := True, h_isPaused := True\<rparr>
      else if signal = SIGUSR2 then h\<lparr>h_resumeRequested := True, h_isPaused := False\<rparr>
      else h)"

section \<open>Calls of the trusted components\<close>

definition callTEEsign :: "crypto \<Rightarrow> Handler \<Rightarrow> Just \<times> Handler" where
  "callTEEsign C h = (let (just, t) = tf_TEEsign C (h_tf h) in (just, h\<lparr>h_tf := t\<rparr>))"

definition callTEEprepare :: "crypto \<Rightarrow> Hash \<Rightarrow> Just \<Rightarrow> Handler \<Rightarrow> (Just \<times> Handler) res" where
  "callTEEprepare C hash j h =
     bindE (tf_TEEprepare C (h_nodes h) hash j (h_tf h)) (\<lambda>(just, t). Inr (just, h\<lparr>h_tf := t\<rparr>))"

definition callTEEstore :: "crypto \<Rightarrow> Just \<Rightarrow> Handler \<Rightarrow> (Just \<times> Handler) res" where
  "callTEEstore C j h =
     bindE (tf_TEEstore C (h_nodes h) j (h_tf h)) (\<lambda>(just, t). Inr (just, h\<lparr>h_tf := t\<rparr>))"

definition callTEEsignCh :: "crypto \<Rightarrow> Handler \<Rightarrow> Just \<times> Handler" where
  "callTEEsignCh C h = (let (just, t) = tc_TEEsign C (h_tp h) in (just, h\<lparr>h_tp := t\<rparr>))"

definition callTEEprepareCh :: "crypto \<Rightarrow> JBlock \<Rightarrow> JBlock \<Rightarrow> JBlock \<Rightarrow> Handler \<Rightarrow> (Just \<times> Handler) res" where
  "callTEEprepareCh C block block0 block1 h =
     bindE (tc_TEEprepare C (h_nodes h) block block0 block1 (h_tp h)) (\<lambda>(just, t). Inr (just, h\<lparr>h_tp := t\<rparr>))"

definition callTEEsignPara :: "crypto \<Rightarrow> Handler \<Rightarrow> Just \<times> Handler" where
  "callTEEsignPara C h = (let (just, t) = tq_TEEsign C (h_tpara h) in (just, h\<lparr>h_tpara := t\<rparr>))"

definition callTEEVerifyPara :: "crypto \<Rightarrow> Just \<Rightarrow> Hash list \<Rightarrow> bool \<Rightarrow> Handler \<Rightarrow> Just res" where
  "callTEEVerifyPara C j blockHashes checkHashes h =
     tq_TEEverifyLeaderQC C (h_nodes h) j blockHashes checkHashes (h_tpara h)"

definition callTEEpreparePara :: "crypto \<Rightarrow> PBlock \<Rightarrow> Just \<Rightarrow> Handler \<Rightarrow> (Just \<times> Handler) res" where
  "callTEEpreparePara C block j h =
     bindE (tq_TEEprepare C (h_nodes h) block j (h_tpara h)) (\<lambda>(just, t). Inr (just, h\<lparr>h_tpara := t\<rparr>))"

text \<open>\<open>pblocks[v]\<close>, which creates an empty vector for a new view.\<close>

definition pblocks_at :: "View \<Rightarrow> Handler \<Rightarrow> PBlock list \<times> Handler" where
  "pblocks_at v h = (let (bs, m) = map_at [] (h_pblocks h) v in (bs, h\<lparr>h_pblocks := m\<rparr>))"

text \<open>The closure that \<open>callTEEstorePara\<close> passes as \<open>getBlockFunc\<close>; \<open>seqNum - 1\<close> is unsigned.\<close>

definition getBlockFunc :: "u32 \<Rightarrow> Handler \<Rightarrow> (PBlock \<times> Handler) res" where
  "getBlockFunc seqNum h =
     (let (bs, h) = pblocks_at (h_view h) h
      in if length bs > unat (seqNum - 1) then Inr (bs ! unat (seqNum - 1), h) else Inr (PBlock_default, h))"

definition callTEEstorePara :: "crypto \<Rightarrow> Just \<Rightarrow> Handler \<Rightarrow> (Just \<times> Handler) res" where
  "callTEEstorePara C j h =
     bindE (tq_TEEstore C (h_nodes h) j getBlockFunc (h_tpara h) h) (\<lambda>((just, t), h).
       Inr (just, h\<lparr>h_tpara := t\<rparr>))"

end
