(* ===== verification/BasicHotStuff.thy ===== *)
theory BasicHotStuff
  imports HandlerState
begin

text \<open>
  The basic protocol of \<open>App/Handler.cpp\<close> (\<open>BASIC_BASELINE\<close>): the leader's phases
  \<open>prepare\<close>, \<open>initiatePrepare\<close>, \<open>initiatePrecommit\<close>, \<open>initiateCommit\<close>, the backups'
  responses, execution, catching up with earlier messages, the view change and the
  message handlers.

  The functions are mutually recursive through one call only, \<open>startNewView\<close> from
  \<open>executeRData\<close>; they take it as the parameter \<open>snv\<close>, and \<open>startNewView\<close> ties the knot
  on a fuel that counts views (each inner call runs in a later view).
\<close>

section \<open>Answers of a backup\<close>

definition respondToProposal :: "crypto \<Rightarrow> Just \<Rightarrow> Block \<Rightarrow> Handler \<Rightarrow> Handler res" where
  "respondToProposal C justNv block h =
     bindE (block_hash C block) (\<lambda>bh.
     bindE (callTEEprepare C bh justNv h) (\<lambda>(newJustPrep, h).
       if j_set newJustPrep then
         (let h = h\<lparr>h_blocks := map_set (h_view h) block (h_blocks h)\<rparr> in
          bindE (getRData newJustPrep) (\<lambda>r.
            Inr (sendMsg (Net_Prepare (Msg_new r (j_signs newJustPrep))) (keep_from_peers h (getCurrentLeader h)) h)))
       else Inr h))"

definition respondToPrepareJust :: "crypto \<Rightarrow> Just \<Rightarrow> Handler \<Rightarrow> Handler res" where
  "respondToPrepareJust C justPrep h =
     bindE (callTEEstore C justPrep h) (\<lambda>(justPc, h).
     bindE (getRData justPc) (\<lambda>r.
       Inr (sendMsg (Net_PreCommit (Msg_new r (j_signs justPc))) (keep_from_peers h (getCurrentLeader h)) h)))"

definition respondToPreCommitJust :: "crypto \<Rightarrow> Just \<Rightarrow> Handler \<Rightarrow> Handler res" where
  "respondToPreCommitJust C justPc h =
     bindE (callTEEstore C justPc h) (\<lambda>(justCom, h).
     bindE (getRData justCom) (\<lambda>r.
       Inr (sendMsg (Net_Commit (Msg_new r (j_signs justCom))) (keep_from_peers h (getCurrentLeader h)) h)))"

section \<open>Execution\<close>

definition executeRData :: "crypto \<Rightarrow> (Handler \<Rightarrow> Handler res) \<Rightarrow> RData \<Rightarrow> Handler \<Rightarrow> Handler res" where
  "executeRData C snv rdata h =
     (let h = h\<lparr>h_viewsWithoutNewTrans :=
                  (if h_transactions h = [] then h_viewsWithoutNewTrans h + 1 else 0)\<rparr>
      in bindE (replyHash C (proph rdata) h) (\<lambda>h.
           if timeToStop h then Inr (recordStats h) else snv h))"

section \<open>The leader's phases\<close>

definition initiateCommit :: "crypto \<Rightarrow> (Handler \<Rightarrow> Handler res) \<Rightarrow> RData \<Rightarrow> Handler \<Rightarrow> Handler res" where
  "initiateCommit C snv rdata h =
     bindE (getCommit (propv rdata) (h_qsize h) (h_log h)) (\<lambda>signs.
       if sg_size signs = h_qsize h then
         executeRData C snv rdata
           (sendMsg (Net_Commit (Msg_new rdata signs)) (remove_from_peers h (h_myid h)) h)
       else Inr h)"

definition initiatePrecommit :: "crypto \<Rightarrow> (Handler \<Rightarrow> Handler res) \<Rightarrow> RData \<Rightarrow> Handler \<Rightarrow> Handler res" where
  "initiatePrecommit C snv rdata h =
     bindE (getPrecommit (propv rdata) (h_qsize h) (h_log h)) (\<lambda>signs.
       if sg_size signs = h_qsize h then
         (let h = sendMsg (Net_PreCommit (Msg_new rdata signs)) (remove_from_peers h (h_myid h)) h in
          bindE (callTEEstore C (Just_signs rdata signs) h) (\<lambda>(justCom, h).
          bindE (getRData justCom) (\<lambda>r.
          bindE (storeCom (Msg_new r (j_signs justCom)) (h_log h)) (\<lambda>(l, n).
            let h = h\<lparr>h_log := l\<rparr> in
            if h_qsize h \<le> n then initiateCommit C snv r h else Inr h))))
       else Inr h)"

definition initiatePrepare :: "crypto \<Rightarrow> (Handler \<Rightarrow> Handler res) \<Rightarrow> RData \<Rightarrow> Handler \<Rightarrow> Handler res" where
  "initiatePrepare C snv rdata h =
     bindE (getPrepare (propv rdata) (h_qsize h) (h_log h)) (\<lambda>signs.
       if sg_size signs = h_qsize h then
         (let h = sendMsg (Net_Prepare (Msg_new rdata signs)) (remove_from_peers h (h_myid h)) h in
          bindE (callTEEstore C (Just_signs rdata signs) h) (\<lambda>(justPc, h).
          bindE (getRData justPc) (\<lambda>r.
          bindE (storePc (Msg_new r (j_signs justPc)) (h_log h)) (\<lambda>(l, n).
            let h = h\<lparr>h_log := l\<rparr> in
            if h_qsize h \<le> n then initiatePrecommit C snv r h else Inr h))))
       else Inr h)"

definition prepare :: "crypto \<Rightarrow> (Handler \<Rightarrow> Handler res) \<Rightarrow> Handler \<Rightarrow> Handler res" where
  "prepare C snv h =
     (let justNV = findHighestNv (h_view h) (h_log h) in
      bindE (getRData justNV) (\<lambda>rNV.
        let (block, h) = createNewBlock (justh rNV) h in
        bindE (block_hash C block) (\<lambda>bh.
        bindE (callTEEprepare C bh justNV h) (\<lambda>(justPrep, h).
          if j_set justPrep then
            (let h = h\<lparr>h_blocks := map_set (h_view h) block (h_blocks h)\<rparr>; signs = j_signs justPrep in
             bindE (getRData justPrep) (\<lambda>r.
               let h = sendMsg (Net_LdrPrepare (LdrMsg_new (Proposal_new justNV block) signs))
                         (remove_from_peers h (h_myid h)) h
               in bindE (storePrep (Msg_new r signs) (h_log h)) (\<lambda>(l, n).
                    let h = h\<lparr>h_log := l\<rparr> in
                    if h_qsize h \<le> n then initiatePrepare C snv r h else Inr h)))
          else Inr h))))"

section \<open>Catching up\<close>

definition handleEarlierMessages :: "crypto \<Rightarrow> (Handler \<Rightarrow> Handler res) \<Rightarrow> Handler \<Rightarrow> Handler res" where
  "handleEarlierMessages C snv h =
     (if amCurrentLeader h then
        bindE (getNewView (h_view h) (h_qsize h) (h_log h)) (\<lambda>signsNV.
          if sg_size signsNV = h_qsize h then prepare C snv h else Inr h)
      else
        bindE (getPrecommit (h_view h) (h_qsize h) (h_log h)) (\<lambda>signsPc.
          if sg_size signsPc = h_qsize h then
            (let justPc = firstPrecommit (h_view h) (h_log h);
                 (_, h) = callTEEsign C h;
                 (_, h) = callTEEsign C h
             in bindE (respondToPreCommitJust C justPc h) (\<lambda>h.
                bindE (getCommit (h_view h) (h_qsize h) (h_log h)) (\<lambda>signsCom.
                  if sg_size signsCom = h_qsize h then
                    bindE (getRData (firstCommit (h_view h) (h_log h))) (\<lambda>r. executeRData C snv r h)
                  else Inr h)))
          else
            bindE (getPrepare (h_view h) (h_qsize h) (h_log h)) (\<lambda>signsPrep.
              if sg_size signsPrep = h_qsize h then
                (let justPrep = firstPrepare (h_view h) (h_log h); (_, h) = callTEEsign C h
                 in respondToPrepareJust C justPrep h)
              else
                (let msgProp = firstProposal (h_view h) (h_log h) in
                 if sg_size (l_signs msgProp) = 1
                 then respondToProposal C (pr_just (l_prop msgProp)) (pr_block (l_prop msgProp)) h
                 else Inr h))))"

definition handleNewview :: "crypto \<Rightarrow> (Handler \<Rightarrow> Handler res) \<Rightarrow> MsgNewView \<Rightarrow> Handler \<Rightarrow> Handler res" where
  "handleNewview C snv msg h =
     (let hashP = proph (m_rdata msg); viewP = propv (m_rdata msg); ph = phase (m_rdata msg) in
      if hash_isDummy hashP \<and> viewP \<ge> h_view h \<and> ph = PH1_NEWVIEW \<and> amLeaderOf h viewP then
        bindE (storeNv msg (h_log h)) (\<lambda>(l, n).
          let h = h\<lparr>h_log := l\<rparr> in
          if n = h_qsize h \<and> viewP = h_view h then prepare C snv h else Inr h)
      else Inr h)"

section \<open>The view change\<close>

text \<open>The loop: sign until the justification is for a later view.\<close>

primrec signUntilView :: "crypto \<Rightarrow> View \<Rightarrow> nat \<Rightarrow> Just \<Rightarrow> Handler \<Rightarrow> (Just \<times> Handler) res" where
  "signUntilView C v 0 just h = Inl Diverges"
| "signUntilView C v (Suc fuel) just h =
     bindE (getRData just) (\<lambda>r.
       if propv r \<le> v then (let (just, h) = callTEEsign C h in signUntilView C v fuel just h)
       else Inr (just, h))"

text \<open>Four phases per view: enough steps from any counter below the next view.\<close>

definition sign_fuel :: "View \<Rightarrow> nat" where
  "sign_fuel v = 4 * (unat v + 2)"

definition startNewView_body :: "crypto \<Rightarrow> (Handler \<Rightarrow> Handler res) \<Rightarrow> Handler \<Rightarrow> Handler res" where
  "startNewView_body C snv h =
     (let (just, h) = callTEEsign C h in
      bindE (signUntilView C (h_view h) (sign_fuel (h_view h)) just h) (\<lambda>(just, h).
        let h = setTimer (h\<lparr>h_view := h_view h + 1\<rparr>) in
        bindE (getRData just) (\<lambda>r.
          if propv r = h_view h \<and> phase r = PH1_NEWVIEW then
            (let msg = Msg_new r (j_signs just) in
             if amCurrentLeader h then
               bindE (handleEarlierMessages C snv h) (\<lambda>h. handleNewview C snv msg h)
             else
               handleEarlierMessages C snv
                 (sendMsg (Net_NewView msg) (keep_from_peers h (getCurrentLeader h)) h))
          else Inr h)))"

primrec startNewView_fuel :: "crypto \<Rightarrow> nat \<Rightarrow> Handler \<Rightarrow> Handler res" where
  "startNewView_fuel C 0 h = Inl Diverges"
| "startNewView_fuel C (Suc fuel) h = startNewView_body C (startNewView_fuel C fuel) h"

definition view_fuel :: nat where "view_fuel = 2 ^ 32"

definition startNewView :: "crypto \<Rightarrow> Handler \<Rightarrow> Handler res" where
  "startNewView C h = startNewView_fuel C view_fuel h"

section \<open>The message handlers\<close>

definition handle_newview :: "crypto \<Rightarrow> MsgNewView \<Rightarrow> Handler \<Rightarrow> Handler res" where
  "handle_newview C msg h = (if \<not> h_isPaused h then handleNewview C (startNewView C) msg h else Inr h)"

definition handleLdrPrepare :: "crypto \<Rightarrow> MsgLdrPrepare \<Rightarrow> Handler \<Rightarrow> Handler res" where
  "handleLdrPrepare C msg h =
     (let prop = l_prop msg; justNV = pr_just prop; b = pr_block prop in
      bindE (getRData justNV) (\<lambda>rdataNV.
      bindE (block_hash C b) (\<lambda>bh.
        let rdataLdrPrep = RData_new bh (propv rdataNV) (justh rdataNV) (justv rdataNV) PH1_PREPARE;
            ldrJustPrep = Just_signs rdataLdrPrep (l_signs msg)
        in bindE (verifyJust C h ldrJustPrep) (\<lambda>vm.
             if propv rdataNV \<ge> h_view h \<and> vm \<and> block_extends b (justh rdataNV) then
               (if propv rdataNV = h_view h then respondToProposal C justNV b h
                else bindE (storeProp msg (h_log h)) (\<lambda>(l, n). Inr (h\<lparr>h_log := l\<rparr>)))
             else Inr h))))"

definition handle_ldrprepare :: "crypto \<Rightarrow> MsgLdrPrepare \<Rightarrow> Handler \<Rightarrow> Handler res" where
  "handle_ldrprepare C msg h = (if \<not> h_isPaused h then handleLdrPrepare C msg h else Inr h)"

definition handlePrepare :: "crypto \<Rightarrow> (Handler \<Rightarrow> Handler res) \<Rightarrow> MsgPrepare \<Rightarrow> Handler \<Rightarrow> Handler res" where
  "handlePrepare C snv msg h =
     (let rdata = m_rdata msg; signs = m_signs msg in
      if propv rdata = h_view h then
        (if amCurrentLeader h then
           bindE (storePrep msg (h_log h)) (\<lambda>(l, n).
             let h = h\<lparr>h_log := l\<rparr> in
             if n = h_qsize h then initiatePrepare C snv rdata h else Inr h)
         else if sg_size signs = h_qsize h then respondToPrepareJust C (Just_signs rdata signs) h
         else Inr h)
      else if propv rdata > h_view h then
        bindE (storePrep msg (h_log h)) (\<lambda>(l, n). Inr (h\<lparr>h_log := l\<rparr>))
      else Inr h)"

definition handle_prepare :: "crypto \<Rightarrow> MsgPrepare \<Rightarrow> Handler \<Rightarrow> Handler res" where
  "handle_prepare C msg h = (if \<not> h_isPaused h then handlePrepare C (startNewView C) msg h else Inr h)"

definition handlePrecommit :: "crypto \<Rightarrow> (Handler \<Rightarrow> Handler res) \<Rightarrow> MsgPreCommit \<Rightarrow> Handler \<Rightarrow> Handler res" where
  "handlePrecommit C snv msg h =
     (let rdata = m_rdata msg; signs = m_signs msg in
      if propv rdata = h_view h \<and> phase rdata = PH1_PRECOMMIT then
        (if amCurrentLeader h then
           bindE (storePc msg (h_log h)) (\<lambda>(l, n).
             let h = h\<lparr>h_log := l\<rparr> in
             if n = h_qsize h then initiatePrecommit C snv rdata h else Inr h)
         else if sg_size signs = h_qsize h then respondToPreCommitJust C (Just_signs rdata signs) h
         else Inr h)
      else if propv rdata > h_view h then
        bindE (storePc msg (h_log h)) (\<lambda>(l, n). Inr (h\<lparr>h_log := l\<rparr>))
      else Inr h)"

definition handle_precommit :: "crypto \<Rightarrow> MsgPreCommit \<Rightarrow> Handler \<Rightarrow> Handler res" where
  "handle_precommit C msg h = (if \<not> h_isPaused h then handlePrecommit C (startNewView C) msg h else Inr h)"

definition handleCommit :: "crypto \<Rightarrow> (Handler \<Rightarrow> Handler res) \<Rightarrow> MsgCommit \<Rightarrow> Handler \<Rightarrow> Handler res" where
  "handleCommit C snv msg h =
     (let rdata = m_rdata msg; signs = m_signs msg in
      if propv rdata = h_view h \<and> phase rdata = PH1_COMMIT then
        (if amCurrentLeader h then
           bindE (storeCom msg (h_log h)) (\<lambda>(l, n).
             let h = h\<lparr>h_log := l\<rparr> in
             if n = h_qsize h then initiateCommit C snv rdata h else Inr h)
         else if sg_size signs = h_qsize h then
           bindE (verifyJust C h (Just_signs rdata signs)) (\<lambda>b.
             if b then executeRData C snv rdata h else Inr h)
         else Inr h)
      else if propv rdata > h_view h then
        (if amLeaderOf h (propv rdata) then
           bindE (storeCom msg (h_log h)) (\<lambda>(l, n). Inr (h\<lparr>h_log := l\<rparr>))
         else
           bindE (verifyJust C h (Just_signs rdata signs)) (\<lambda>b.
             if b then bindE (storeCom msg (h_log h)) (\<lambda>(l, n). Inr (h\<lparr>h_log := l\<rparr>)) else Inr h))
      else Inr h)"

definition handle_commit :: "crypto \<Rightarrow> MsgCommit \<Rightarrow> Handler \<Rightarrow> Handler res" where
  "handle_commit C msg h = (if \<not> h_isPaused h then handleCommit C (startNewView C) msg h else Inr h)"

text \<open>\<open>getStarted\<close>: the first new-view message.\<close>

definition getStarted :: "crypto \<Rightarrow> Handler \<Rightarrow> Handler res" where
  "getStarted C h =
     (let recipients = keep_from_peers h (getCurrentLeader h); (j, h) = callTEEsign C h in
      bindE (getRData j) (\<lambda>r.
        let msg = Msg_new r (j_signs j) in
        if amCurrentLeader h then handleNewview C (startNewView C) msg h
        else Inr (sendMsg (Net_NewView msg) recipients h)))"

section \<open>Events\<close>

datatype basic_event =
    B_newview MsgNewView | B_ldrprepare MsgLdrPrepare | B_prepare MsgPrepare
  | B_precommit MsgPreCommit | B_commit MsgCommit
  | B_transaction MsgTransaction | B_timer | B_signal int | B_replies

text \<open>What the event loops call; \<open>send_ok\<close> is the client network.\<close>

fun basic_step :: "crypto \<Rightarrow> (conn \<Rightarrow> bool) \<Rightarrow> basic_event \<Rightarrow> Handler \<Rightarrow> Handler res" where
  "basic_step C send_ok (B_newview m) h = handle_newview C m h"
| "basic_step C send_ok (B_ldrprepare m) h = handle_ldrprepare C m h"
| "basic_step C send_ok (B_prepare m) h = handle_prepare C m h"
| "basic_step C send_ok (B_precommit m) h = handle_precommit C m h"
| "basic_step C send_ok (B_commit m) h = handle_commit C m h"
| "basic_step C send_ok (B_transaction m) h = Inr (handle_transaction m h)"
| "basic_step C send_ok B_timer h = on_timer (startNewView C) h"
| "basic_step C send_ok (B_signal s) h = Inr (signalHandler s h)"
| "basic_step C send_ok B_replies h = Inr (process_rep_queue send_ok h)"

end
