(* ===== verification/BasicFacts.thy ===== *)
theory BasicFacts
  imports BasicHotStuff LogFacts
begin

text \<open>
  The basic protocol's invariant: the counter of the trusted component stays within the
  node's view. From it: every handler returns (the fuels of the model are enough), the
  view only grows, and each view change ends in a new-view message for the new view.
\<close>

section \<open>The invariant\<close>

text \<open>New-view messages are filed under their view.\<close>

definition nv_keyed :: "(View, MsgNewView list) stdmap \<Rightarrow> bool" where
  "nv_keyed m \<longleftrightarrow> (\<forall>v. \<forall>x\<in>set (entries_of (map_find m v)). propv (m_rdata x) = v)"

definition basic_inv :: "Handler \<Rightarrow> bool" where
  "basic_inv h \<longleftrightarrow> tf_ok (h_tf h) \<and>
     4 * unat (h_view h) \<le> tf_pos (h_tf h) \<and> tf_pos (h_tf h) \<le> 4 * unat (h_view h) + 4 \<and>
     0 < h_maxViews h \<and> h_view h < h_maxViews h \<and> nv_keyed (newviews (h_log h))"

definition keeps :: "Handler \<Rightarrow> Handler \<Rightarrow> bool" where
  "keeps h h' \<longleftrightarrow> basic_inv h' \<and> h_view h \<le> h_view h' \<and> h_maxViews h' = h_maxViews h"

text \<open>A result that returns, in a state that keeps the invariant.\<close>

definition fine :: "Handler \<Rightarrow> Handler res \<Rightarrow> bool" where
  "fine h r \<longleftrightarrow> r \<noteq> Inl Diverges \<and> (\<forall>h'. r = Inr h' \<longrightarrow> keeps h h')"

lemma keeps_refl: "basic_inv h \<Longrightarrow> keeps h h"
  by (simp add: keeps_def)

lemma keeps_trans: "keeps a b \<Longrightarrow> keeps b c \<Longrightarrow> keeps a c"
  by (auto simp: keeps_def)

lemma keeps_inv: "keeps h h' \<Longrightarrow> basic_inv h'"
  by (simp add: keeps_def)

text \<open>Updates of the other members.\<close>

lemma keeps_frame:
  "keeps h h' \<Longrightarrow> h_tf h'' = h_tf h' \<Longrightarrow> h_view h'' = h_view h' \<Longrightarrow> h_maxViews h'' = h_maxViews h' \<Longrightarrow>
   newviews (h_log h'') = newviews (h_log h') \<Longrightarrow> keeps h h''"
  by (auto simp: keeps_def basic_inv_def)

lemma fine_Inr: "keeps h h' \<Longrightarrow> fine h (Inr h')"
  by (simp add: fine_def)

lemma fine_Inr_iff [simp]: "fine h (Inr h') \<longleftrightarrow> keeps h h'"
  by (simp add: fine_def)

lemma fine_bind:
  "m \<noteq> Inl Diverges \<Longrightarrow> (\<And>x. m = Inr x \<Longrightarrow> fine h (f x)) \<Longrightarrow> fine h (bindE m f)"
  by (cases m) (auto simp: fine_def)

lemma fine_bind_pair:
  "m \<noteq> Inl Diverges \<Longrightarrow> (\<And>a b. m = Inr (a, b) \<Longrightarrow> fine h (f a b)) \<Longrightarrow> fine h (bindE m (\<lambda>(a, b). f a b))"
  by (rule fine_bind) auto

lemma fine_bind_fine:
  "fine h m \<Longrightarrow> (\<And>h1. m = Inr h1 \<Longrightarrow> keeps h h1 \<Longrightarrow> fine h1 (f h1)) \<Longrightarrow> fine h (bindE m f)"
  by (cases m) (auto simp: fine_def intro: keeps_trans)

lemma fine_trans: "keeps h h1 \<Longrightarrow> fine h1 r \<Longrightarrow> fine h r"
  by (auto simp: fine_def intro: keeps_trans)

lemma fine_if: "(b \<Longrightarrow> fine h x) \<Longrightarrow> (\<not> b \<Longrightarrow> fine h y) \<Longrightarrow> fine h (if b then x else y)"
  by simp

section \<open>Members that the shared functions touch\<close>

lemma emit_sel [simp]:
  "h_tf (emit es h) = h_tf h" "h_view (emit es h) = h_view h" "h_maxViews (emit es h) = h_maxViews h"
  "h_log (emit es h) = h_log h" "h_myid (emit es h) = h_myid h" "h_total (emit es h) = h_total h"
  "h_qsize (emit es h) = h_qsize h" "h_tpara (emit es h) = h_tpara h" "h_pblocks (emit es h) = h_pblocks h"
  "h_nodes (emit es h) = h_nodes h" "h_peers (emit es h) = h_peers h" "h_blocks (emit es h) = h_blocks h"
  "h_maxBlocksInView (emit es h) = h_maxBlocksInView h" "h_clients (emit es h) = h_clients h"
  "h_transactions (emit es h) = h_transactions h" "h_verifiedJust (emit es h) = h_verifiedJust h"
  "h_lastExecutedSeq (emit es h) = h_lastExecutedSeq h" "h_isPaused (emit es h) = h_isPaused h"
  "h_rep_queue (emit es h) = h_rep_queue h" "h_tp (emit es h) = h_tp h" "h_jblocks (emit es h) = h_jblocks h"
  "h_localSeq (emit es h) = h_localSeq h" "h_byzantine (emit es h) = h_byzantine h" "h_justNV (emit es h) = h_justNV h"
  "outs (emit es h) = outs h @ es"
  by (simp_all add: emit_def)

lemmas send_simps [simp] = sendMsg_def setTimer_def recordStats_def

lemma fill_block_frame:
  "fill_block h = (ts, sz, h') \<Longrightarrow> \<exists>x. h' = h\<lparr>h_transactions := x\<rparr>"
  by (auto simp: fill_block_def Let_def)

lemma createNewBlock_frame: "createNewBlock hash h = (b, h') \<Longrightarrow> \<exists>x. h' = h\<lparr>h_transactions := x\<rparr>"
  by (auto simp: createNewBlock_def fill_block_def Let_def)

lemma replyTransactions_frame: "replyTransactions ts h = Inr h' \<Longrightarrow> \<exists>x. h' = h\<lparr>h_rep_queue := x\<rparr>"
  by (auto simp: replyTransactions_def bindE_Inr_iff)

lemma replyHash_frame: "replyHash C hash h = Inr h' \<Longrightarrow> \<exists>x. h' = h\<lparr>h_rep_queue := x\<rparr>"
proof -
  have "\<exists>x. h = h\<lparr>h_rep_queue := x\<rparr>" by (rule exI [of _ "h_rep_queue h"]) simp
  then show "replyHash C hash h = Inr h' \<Longrightarrow> \<exists>x. h' = h\<lparr>h_rep_queue := x\<rparr>"
    by (auto simp: replyHash_def bindE_Inr_iff dest: replyTransactions_frame split: option.splits if_splits)
qed

lemma reply_not_Diverges [simp]:
  "replyTransactions ts h \<noteq> Inl Diverges" "replyHash C hash h \<noteq> Inl Diverges"
  by (auto simp: replyTransactions_def replyHash_def bindE_Inl_iff split: option.splits if_splits)

lemma store_new_not_Diverges:
  "(\<And>ms. hrd ms \<noteq> Inl Diverges) \<Longrightarrow> store_new lt hrd v m log \<noteq> Inl Diverges"
  by (auto simp: store_new_def Let_def bindE_Inl_iff split: option.splits)

lemma store_seq_not_Diverges:
  "(\<And>ms. hrd ms \<noteq> Inl Diverges) \<Longrightarrow> store_seq lt hrd v sq m log \<noteq> Inl Diverges"
  by (auto simp: store_seq_def Let_def bindE_Inl_iff split: option.splits)

lemma stores_not_Diverge [simp]:
  "storeNv m l \<noteq> Inl Diverges" "storePrep m l \<noteq> Inl Diverges" "storePc m l \<noteq> Inl Diverges"
  "storeCom m l \<noteq> Inl Diverges" "storeProp mp l \<noteq> Inl Diverges" "storeNvCh mc l \<noteq> Inl Diverges"
  "storePrepCh mc l \<noteq> Inl Diverges" "storeLdrPrepCh ml l \<noteq> Inl Diverges" "storeNvPara mq l \<noteq> Inl Diverges"
  "storePrepPara mq l \<noteq> Inl Diverges" "storePcPara mq l \<noteq> Inl Diverges" "storeComPara mq l \<noteq> Inl Diverges"
  "storePropPara mpp l \<noteq> Inl Diverges"
  unfolding storeNv_def storePrep_def storePc_def storeCom_def storeProp_def storeNvCh_def storePrepCh_def
    storeLdrPrepCh_def storeNvPara_def storePrepPara_def storePcPara_def storeComPara_def storePropPara_def msg_from_defs
  by (auto simp: bindE_Inl_iff store_new_not_Diverges store_seq_not_Diverges)

lemma gets_not_Diverge [simp]:
  "getNewView v n l \<noteq> Inl Diverges" "getPrepare v n l \<noteq> Inl Diverges" "getPrecommit v n l \<noteq> Inl Diverges"
  "getCommit v n l \<noteq> Inl Diverges" "getPrepareCh v n l \<noteq> Inl Diverges" "getNewViewPara v n l \<noteq> Inl Diverges"
  "getPreparePara v n sq l \<noteq> Inl Diverges" "getPrecommitPara v n sq l \<noteq> Inl Diverges"
  "getCommitPara v n sq l \<noteq> Inl Diverges"
  by (simp_all add: getNewView_def getPrepare_def getPrecommit_def getCommit_def getPrepareCh_def
      getNewViewPara_def getPreparePara_def getPrecommitPara_def getCommitPara_def)

lemma verifyJust_not_Diverges [simp]: "verifyJust C h j \<noteq> Inl Diverges" "verifyJustPara C h j \<noteq> Inl Diverges"
  by (auto simp: verifyJust_def verifyJustPara_def Sverify_def bindE_Inl_iff)

lemma nv_keyed_store:
  assumes "nv_keyed (newviews l)" and "storeNv m l = Inr (l', n)"
  shows "nv_keyed (newviews l')"
proof -
  have sub: "set (set_insert msg_less m ms) \<subseteq> insert m (set ms)" for ms :: "MsgNewView list"
    by (rule msg_order.insert_subset)
  show ?thesis
    using assms sub
    by (fastforce simp: nv_keyed_def storeNv_def store_new_def Let_def bindE_Inr_iff split: option.splits if_splits)
qed

lemma set_insert_not_Nil [simp]: "set_insert lt x xs \<noteq> []"
  by (cases xs) auto

lemma storeNv_nonempty:
  assumes "storeNv m l = Inr (l', n)"
  shows "entries_of (map_find (newviews l') (propv (m_rdata m))) \<noteq> []"
proof -
  obtain S where st: "store_new msg_less (\<lambda>ms. msgs_from m_signs ms S) (propv (m_rdata m)) m (newviews l) = Inr (newviews l', n)"
    using assms by (auto simp: storeNv_def msg_from_defs bindE_Inr_iff)
  show ?thesis
  proof (cases "map_find (newviews l) (propv (m_rdata m))")
    case None
    with st have "newviews l' = map_set (propv (m_rdata m)) [m] (newviews l)" by (simp add: store_new_def)
    then show ?thesis by simp
  next
    case (Some ms)
    with st consider "newviews l' = map_set (propv (m_rdata m)) (set_insert msg_less m ms) (newviews l)"
      | "newviews l' = newviews l" "msgs_from m_signs ms S = Inr True"
      by (auto simp: store_new_def Let_def bindE_Inr_iff split: if_splits)
    then show ?thesis by cases (use Some in \<open>auto simp: entries_of_def\<close>)
  qed
qed

lemma nv_keyed_highest:
  assumes "nv_keyed (newviews l)" and "map_find (newviews l) v = Some ms" and "ms \<noteq> []"
  shows "\<exists>r. getRData (findHighestNv v l) = Inr r \<and> propv r = v"
proof -
  let ?best = "last (filter (\<lambda>m. justv (m_rdata m) = Max ((\<lambda>m. justv (m_rdata m)) ` set ms)) ms)"
  have "Max ((\<lambda>m. justv (m_rdata m)) ` set ms) \<in> (\<lambda>m. justv (m_rdata m)) ` set ms"
    using assms(3) by (intro Max_in) auto
  then have "filter (\<lambda>m. justv (m_rdata m) = Max ((\<lambda>m. justv (m_rdata m)) ` set ms)) ms \<noteq> []"
    by (force simp: filter_empty_conv)
  from last_in_set [OF this] have "?best \<in> set ms" by simp
  moreover have "findHighestNv v l = Just_signs (m_rdata ?best) (m_signs ?best)"
    using assms(2,3) by (auto simp: findHighestNv_def highest_loop_spec neq_Nil_conv)
  ultimately show ?thesis
    using assms(1,2) by (auto simp: nv_keyed_def)
qed

section \<open>Calls of the trusted component\<close>

lemma unat_u32_max: "(x :: u32) < y \<Longrightarrow> unat x + 1 < 2 ^ 32"
  using unat_u32_less [of y] by (simp add: word_less_nat_alt)

lemma basic_inv_limit: "basic_inv h \<Longrightarrow> Suc (tf_pos (h_tf h)) < tf_limit"
  using unat_u32_max by (fastforce simp: basic_inv_def tf_limit_def)

lemma tf_ok_phase: "tf_ok t \<Longrightarrow> unat (tf_phase t) < 4"
  by (auto simp: tf_ok_def phase_defs)

lemma basic_inv_view:
  assumes "basic_inv h"
  shows "tf_view (h_tf h) = h_view h \<longleftrightarrow> tf_pos (h_tf h) < 4 * unat (h_view h) + 4"
proof -
  have "unat (tf_phase (h_tf h)) < 4" using assms by (simp add: basic_inv_def tf_ok_phase)
  then have "unat (tf_view (h_tf h)) = unat (h_view h) \<longleftrightarrow> tf_pos (h_tf h) < 4 * unat (h_view h) + 4"
    using assms by (auto simp: basic_inv_def tf_pos_def)
  then show ?thesis by (simp add: word_unat_eq_iff)
qed

lemma tf_call_keeps:
  assumes inv: "basic_inv h" and c: "tf_exec C ns c (h_tf h) = Inr (j, t')"
    and now: "j_set j \<Longrightarrow> tf_view (h_tf h) = h_view h"
  shows "keeps h (h\<lparr>h_tf := t'\<rparr>)"
proof -
  have ok: "tf_ok (h_tf h)" using inv by (simp add: basic_inv_def)
  note lim = basic_inv_limit [OF inv]
  have "if j_set j then tf_pos t' = Suc (tf_pos (h_tf h)) else tf_pos t' = tf_pos (h_tf h)"
    using tf.call_pos [OF ok lim c] by (simp split: if_splits)
  moreover have "tf_ok t'" by (rule tf.call_ok [OF ok lim c])
  moreover have "j_set j \<Longrightarrow> tf_pos (h_tf h) < 4 * unat (h_view h) + 4"
    using now basic_inv_view [OF inv] by simp
  ultimately show ?thesis
    using inv by (auto simp: keeps_def basic_inv_def split: if_splits)
qed

lemma callTEEsign_keeps:
  assumes "basic_inv h" and "tf_view (h_tf h) = h_view h" and "callTEEsign C h = (j, h')"
  shows "keeps h h' \<and> tf_pos (h_tf h') = Suc (tf_pos (h_tf h)) \<and> (\<exists>t. h' = h\<lparr>h_tf := t\<rparr>)"
proof -
  obtain t where t: "tf_TEEsign C (h_tf h) = (j, t)" "h' = h\<lparr>h_tf := t\<rparr>"
    using assms(3) by (auto simp: callTEEsign_def Let_def split: prod.splits)
  then have c: "tf_exec C [] TF_sign (h_tf h) = Inr (j, t)" and "j_set j"
    by (auto simp: tf_TEEsign_def tf_sign_def Let_def)
  with tf_call_keeps [OF assms(1) c] tf.call_pos [OF _ basic_inv_limit [OF assms(1)] c] assms(1,2) t(2) show ?thesis
    by (auto simp: basic_inv_def)
qed

lemma callTEE_not_Diverges [simp]:
  "callTEEprepare C bh j h \<noteq> Inl Diverges" "callTEEstore C j h \<noteq> Inl Diverges"
  by (auto simp: callTEEprepare_def callTEEstore_def tf_TEEprepare_def tf_TEEstore_def tf_TEEverify_def
      bindE_Inl_iff Let_def split: if_splits prod.splits)

lemma callTEEprepare_keeps:
  assumes inv: "basic_inv h" and c: "callTEEprepare C bh j h = Inr (j', h')" and r: "getRData j = Inr r"
    and now: "propv r = h_view h \<or> propv r = 0 \<or> tf_view (h_tf h) = h_view h"
  shows "keeps h h'" "\<exists>t. h' = h\<lparr>h_tf := t\<rparr>"
    "\<exists>r'. getRData j' = Inr r' \<and> (j_set j' \<longrightarrow> propv r' = h_view h \<and> signs_ok (j_signs j'))"
proof -
  obtain t where t: "tf_TEEprepare C (h_nodes h) bh j (h_tf h) = Inr (j', t)" "h' = h\<lparr>h_tf := t\<rparr>"
    using c by (auto simp: callTEEprepare_def bindE_Inr_iff)
  have acc: "j_set j' \<Longrightarrow> tf_view (h_tf h) = propv r"
    using t(1) r by (auto simp: tf_TEEprepare_def bindE_Inr_iff split: if_splits)
  have vw: "j_set j' \<Longrightarrow> tf_view (h_tf h) = h_view h"
  proof -
    assume s: "j_set j'"
    show "tf_view (h_tf h) = h_view h"
    proof (cases "propv r = 0")
      case True
      with acc [OF s] have "tf_view (h_tf h) = 0" by simp
      then have "tf_pos (h_tf h) < 4" using inv by (simp add: basic_inv_def tf_pos_def tf_ok_phase)
      then have "tf_pos (h_tf h) < 4 * unat (h_view h) + 4" by simp
      then show ?thesis using basic_inv_view [OF inv] by simp
    qed (use now acc [OF s] in auto)
  qed
  from tf_call_keeps [OF inv, of C "h_nodes h" "TF_prepare bh j"] t vw show "keeps h h'" by simp
  show "\<exists>t. h' = h\<lparr>h_tf := t\<rparr>" using t(2) by blast
  show "\<exists>r'. getRData j' = Inr r' \<and> (j_set j' \<longrightarrow> propv r' = h_view h \<and> signs_ok (j_signs j'))"
    using t(1) r vw by (fastforce simp: tf_TEEprepare_def bindE_Inr_iff tf_sign_def Let_def split: if_splits)
qed

text \<open>A certificate is timely when the component can only accept it in the node's view.\<close>

definition timely :: "Handler \<Rightarrow> RData \<Rightarrow> bool" where
  "timely h r \<longleftrightarrow> propv r = h_view h \<or> phase r = PH1_NEWVIEW \<or> tf_view (h_tf h) = h_view h"

lemma callTEEstore_keeps:
  assumes inv: "basic_inv h" and c: "callTEEstore C j h = Inr (j', h')" and r: "getRData j = Inr r"
    and now: "timely h r"
  shows "keeps h h'" "\<exists>t. h' = h\<lparr>h_tf := t\<rparr>"
    "\<exists>r'. getRData j' = Inr r' \<and> (propv r' = h_view h \<or> phase r' = PH1_NEWVIEW)"
proof -
  obtain t where t: "tf_TEEstore C (h_nodes h) j (h_tf h) = Inr (j', t)" "h' = h\<lparr>h_tf := t\<rparr>"
    using c by (auto simp: callTEEstore_def bindE_Inr_iff)
  have acc: "j_set j' \<Longrightarrow> tf_view (h_tf h) = propv r \<and> (phase r = PH1_PREPARE \<or> phase r = PH1_PRECOMMIT)"
    using t(1) r by (auto simp: tf_TEEstore_def bindE_Inr_iff Let_def split: if_splits)
  have vw: "j_set j' \<Longrightarrow> tf_view (h_tf h) = h_view h"
    using acc now by (auto simp: timely_def)
  from tf_call_keeps [OF inv, of C "h_nodes h" "TF_store j"] t vw show "keeps h h'" by simp
  show "\<exists>t. h' = h\<lparr>h_tf := t\<rparr>" using t(2) by blast
  have "j' = Just_default \<or> j_set j'"
    using t(1) r by (auto simp: tf_TEEstore_def bindE_Inr_iff Let_def tf_sign_def split: if_splits)
  moreover have "\<exists>r'. getRData j' = Inr r' \<and> propv r' = h_view h" if "j_set j'"
    using that t(1) r vw by (fastforce simp: tf_TEEstore_def bindE_Inr_iff Let_def tf_sign_def split: if_splits)
  ultimately show "\<exists>r'. getRData j' = Inr r' \<and> (propv r' = h_view h \<or> phase r' = PH1_NEWVIEW)"
    by (auto simp: RData_default_def)
qed

section \<open>The signing loop\<close>

lemma signUntilView_ends:
  "tf_ok (h_tf h) \<Longrightarrow> j_data j = URData r \<Longrightarrow> unat (phase r) < 4 \<Longrightarrow>
   Suc (4 * unat (propv r) + unat (phase r)) = tf_pos (h_tf h) \<Longrightarrow> tf_pos (h_tf h) \<le> 4 * unat v + 5 \<Longrightarrow>
   unat v + 1 < 2 ^ 32 \<Longrightarrow> 4 * unat v + 5 < tf_pos (h_tf h) + fuel \<Longrightarrow>
   \<exists>j' t r'. signUntilView C v fuel j h = Inr (j', h\<lparr>h_tf := t\<rparr>) \<and> tf_ok t \<and> tf_pos t = 4 * unat v + 5 \<and>
     j_data j' = URData r' \<and> propv r' = v + 1 \<and> phase r' = PH1_NEWVIEW"
proof (induction fuel arbitrary: j h r)
  case (Suc fuel)
  have v1: "unat (v + 1) = Suc (unat v)"
    using Suc.prems(6) by (intro unat_Suc_u32) simp
  have g: "getRData j = Inr r" using Suc.prems(2) by (simp add: getRData_Inr_iff)
  show ?case
  proof (cases "propv r \<le> v")
    case True
    obtain j1 h1 where c: "callTEEsign C h = (j1, h1)" by fastforce
    then have h1: "h1 = h\<lparr>h_tf := tf_increment (h_tf h)\<rparr>"
      and j1: "j_data j1 = URData (RData_new (Hash_zero False) (tf_view (h_tf h)) (tf_preph (h_tf h)) (tf_prepv (h_tf h)) (tf_phase (h_tf h)))"
      by (auto simp: callTEEsign_def tf_TEEsign_def tf_sign_def Let_def)
    have pos: "tf_pos (h_tf h) \<le> 4 * unat v + 4" using True Suc.prems(3,4) by (simp add: word_le_nat_alt)
    then have lim: "Suc (tf_pos (h_tf h)) < tf_limit" using Suc.prems(6) by (simp add: tf_limit_def)
    note inc = tf_increment_pos [OF Suc.prems(1) lim]
    have "\<exists>j' t r'. signUntilView C v fuel j1 h1 = Inr (j', h1\<lparr>h_tf := t\<rparr>) \<and> tf_ok t \<and> tf_pos t = 4 * unat v + 5 \<and>
        j_data j' = URData r' \<and> propv r' = v + 1 \<and> phase r' = PH1_NEWVIEW"
    proof (rule Suc.IH [OF _ j1])
      show "tf_ok (h_tf h1)" using Suc.prems(1) by (simp add: h1 tf_increment_ok)
      show "unat (phase (RData_new (Hash_zero False) (tf_view (h_tf h)) (tf_preph (h_tf h)) (tf_prepv (h_tf h)) (tf_phase (h_tf h)))) < 4"
        using Suc.prems(1) by (simp add: tf_ok_phase)
      show "Suc (4 * unat (propv (RData_new (Hash_zero False) (tf_view (h_tf h)) (tf_preph (h_tf h)) (tf_prepv (h_tf h)) (tf_phase (h_tf h)))) +
          unat (phase (RData_new (Hash_zero False) (tf_view (h_tf h)) (tf_preph (h_tf h)) (tf_prepv (h_tf h)) (tf_phase (h_tf h))))) = tf_pos (h_tf h1)"
        using inc by (simp add: h1) (simp add: tf_pos_def)
      show "tf_pos (h_tf h1) \<le> 4 * unat v + 5" using inc pos by (simp add: h1)
      show "4 * unat v + 5 < tf_pos (h_tf h1) + fuel" using inc Suc.prems(7) by (simp add: h1)
    qed (rule Suc.prems(6))
    with True g c show ?thesis by (simp add: h1)
  next
    case False
    then have "unat v < unat (propv r)" by (simp add: word_le_nat_alt)
    then have "unat (propv r) = Suc (unat v)" "unat (phase r) = 0" "tf_pos (h_tf h) = 4 * unat v + 5"
      using Suc.prems(3-5) by auto
    moreover from this(1) v1 have "propv r = v + 1" by (metis word_unat_eq_iff)
    moreover from \<open>unat (phase r) = 0\<close> have "phase r = PH1_NEWVIEW"
      by (simp only: PH1_NEWVIEW_def unat_eq_zero)
    moreover have "signUntilView C v (Suc fuel) j h = Inr (j, h\<lparr>h_tf := h_tf h\<rparr>)"
      using False g by simp
    ultimately show ?thesis
      using Suc.prems(1,2) \<open>tf_pos (h_tf h) = _\<close> by blast
  qed
qed simp

section \<open>The handlers, for any view change that keeps the invariant\<close>

definition room :: "nat \<Rightarrow> Handler \<Rightarrow> bool" where
  "room n h \<longleftrightarrow> unat (h_maxViews h) \<le> unat (h_view h) + n"

lemma room_keeps: "keeps h h' \<Longrightarrow> room n h \<Longrightarrow> room n h'"
  by (auto simp: room_def keeps_def word_le_nat_alt)

lemma keeps_upd:
  "basic_inv h \<Longrightarrow> h_tf h' = h_tf h \<Longrightarrow> h_view h' = h_view h \<Longrightarrow> h_maxViews h' = h_maxViews h \<Longrightarrow>
   newviews (h_log h') = newviews (h_log h) \<Longrightarrow> keeps h h'"
  by (rule keeps_frame [OF keeps_refl]) simp_all

lemma keeps_log:
  "basic_inv h \<Longrightarrow> newviews l = newviews (h_log h) \<Longrightarrow> keeps h (h\<lparr>h_log := l\<rparr>)"
  by (rule keeps_upd) simp_all

lemma stores_newviews:
  "storePrep m l = Inr (l', n) \<Longrightarrow> newviews l' = newviews l"
  "storePc m l = Inr (l', n) \<Longrightarrow> newviews l' = newviews l"
  "storeCom m l = Inr (l', n) \<Longrightarrow> newviews l' = newviews l"
  "storeProp mp l = Inr (l', n) \<Longrightarrow> newviews l' = newviews l"
  by (auto dest!: store_frames)

text \<open>Answers of a backup change the trusted component, the blocks and the outputs only.\<close>

lemma respondToProposal_fine:
  assumes inv: "basic_inv h" and r: "getRData j = Inr r"
    and now: "propv r = h_view h \<or> propv r = 0 \<or> tf_view (h_tf h) = h_view h"
  shows "fine h (respondToProposal C j b h)"
  unfolding respondToProposal_def
proof (intro fine_bind block_hash_not_Diverges callTEE_not_Diverges)
  fix bh x assume c: "callTEEprepare C bh j h = Inr x"
  obtain j1 h1 where x: "x = (j1, h1)" by fastforce
  note k = callTEEprepare_keeps [OF inv c [unfolded x] r now]
  from k(3) obtain r1 where r1: "getRData j1 = Inr r1" by blast
  show "fine h (case x of (newJustPrep, h) \<Rightarrow>
       if j_set newJustPrep then
         (let h = h\<lparr>h_blocks := map_set (h_view h) b (h_blocks h)\<rparr> in
          bindE (getRData newJustPrep) (\<lambda>r.
            Inr (sendMsg (Net_Prepare (Msg_new r (j_signs newJustPrep))) (keep_from_peers h (getCurrentLeader h)) h)))
       else Inr h)"
    using k(1) by (auto simp: x r1 Let_def intro: keeps_frame [OF k(1)])
qed

lemma respondToPrepareJust_fine:
  assumes inv: "basic_inv h" and r: "getRData j = Inr r" and now: "timely h r"
  shows "fine h (respondToPrepareJust C j h)"
  unfolding respondToPrepareJust_def
proof (intro fine_bind callTEE_not_Diverges)
  fix x assume c: "callTEEstore C j h = Inr x"
  obtain j1 h1 where x: "x = (j1, h1)" by fastforce
  note k = callTEEstore_keeps [OF inv c [unfolded x] r now]
  from k(3) obtain r1 where r1: "getRData j1 = Inr r1" by blast
  show "fine h (case x of (justPc, h) \<Rightarrow> bindE (getRData justPc) (\<lambda>r.
       Inr (sendMsg (Net_PreCommit (Msg_new r (j_signs justPc))) (keep_from_peers h (getCurrentLeader h)) h)))"
    by (auto simp: x r1 intro: keeps_frame [OF k(1)])
qed

lemma respondToPreCommitJust_fine:
  assumes inv: "basic_inv h" and r: "getRData j = Inr r" and now: "timely h r"
  shows "fine h (respondToPreCommitJust C j h)"
  unfolding respondToPreCommitJust_def
proof (intro fine_bind callTEE_not_Diverges)
  fix x assume c: "callTEEstore C j h = Inr x"
  obtain j1 h1 where x: "x = (j1, h1)" by fastforce
  note k = callTEEstore_keeps [OF inv c [unfolded x] r now]
  from k(3) obtain r1 where r1: "getRData j1 = Inr r1" by blast
  show "fine h (case x of (justCom, h) \<Rightarrow> bindE (getRData justCom) (\<lambda>r.
       Inr (sendMsg (Net_Commit (Msg_new r (j_signs justCom))) (keep_from_peers h (getCurrentLeader h)) h)))"
    by (auto simp: x r1 intro: keeps_frame [OF k(1)])
qed

lemma newview_signed:
  assumes inv: "basic_inv h"
  shows "\<exists>j1 h1 j2 t r. callTEEsign C h = (j1, h1) \<and>
    signUntilView C (h_view h1) (sign_fuel (h_view h1)) j1 h1 = Inr (j2, h\<lparr>h_tf := t\<rparr>) \<and> h_view h1 = h_view h \<and>
    tf_ok t \<and> tf_pos t = 4 * unat (h_view h) + 5 \<and> j_data j2 = URData r \<and> propv r = h_view h + 1 \<and> phase r = PH1_NEWVIEW"
proof -
  have mv: "0 < h_maxViews h" "h_view h < h_maxViews h" using inv by (simp_all add: basic_inv_def)
  obtain j1 h1 where c: "callTEEsign C h = (j1, h1)" by fastforce
  then have h1: "h1 = h\<lparr>h_tf := tf_increment (h_tf h)\<rparr>"
    and j1: "j_data j1 = URData (RData_new (Hash_zero False) (tf_view (h_tf h)) (tf_preph (h_tf h)) (tf_prepv (h_tf h)) (tf_phase (h_tf h)))"
    by (auto simp: callTEEsign_def tf_TEEsign_def tf_sign_def Let_def)
  have ok: "tf_ok (h_tf h)" using inv by (simp add: basic_inv_def)
  note inc = tf_increment_pos [OF ok basic_inv_limit [OF inv]]
  have "\<exists>j' t r'. signUntilView C (h_view h1) (sign_fuel (h_view h1)) j1 h1 = Inr (j', h1\<lparr>h_tf := t\<rparr>) \<and> tf_ok t \<and>
      tf_pos t = 4 * unat (h_view h1) + 5 \<and> j_data j' = URData r' \<and> propv r' = h_view h1 + 1 \<and> phase r' = PH1_NEWVIEW"
  proof (rule signUntilView_ends [OF _ j1])
    show "tf_ok (h_tf h1)" using ok by (simp add: h1 tf_increment_ok)
    show "unat (phase (RData_new (Hash_zero False) (tf_view (h_tf h)) (tf_preph (h_tf h)) (tf_prepv (h_tf h)) (tf_phase (h_tf h)))) < 4"
      using ok by (simp add: tf_ok_phase)
    show "Suc (4 * unat (propv (RData_new (Hash_zero False) (tf_view (h_tf h)) (tf_preph (h_tf h)) (tf_prepv (h_tf h)) (tf_phase (h_tf h)))) +
        unat (phase (RData_new (Hash_zero False) (tf_view (h_tf h)) (tf_preph (h_tf h)) (tf_prepv (h_tf h)) (tf_phase (h_tf h))))) = tf_pos (h_tf h1)"
      using inc by (simp add: h1) (simp add: tf_pos_def)
    show "tf_pos (h_tf h1) \<le> 4 * unat (h_view h1) + 5" using inc inv by (simp add: h1 basic_inv_def)
    show "unat (h_view h1) + 1 < 2 ^ 32" using unat_u32_max [OF mv(2)] by (simp add: h1)
    show "4 * unat (h_view h1) + 5 < tf_pos (h_tf h1) + sign_fuel (h_view h1)" by (simp add: sign_fuel_def)
  qed
  then show ?thesis using c by (simp add: h1)
qed

locale later_views =
  fixes snv :: "Handler \<Rightarrow> Handler res" and n :: nat
  assumes snv_fine: "basic_inv h \<Longrightarrow> \<not> timeToStop h \<Longrightarrow> room n h \<Longrightarrow> fine h (snv h)"
begin

lemma executeRData_fine:
  assumes "basic_inv h" and "room n h"
  shows "fine h (executeRData C snv r h)"
proof -
  have "fine h (bindE (replyHash C (proph r) g) (\<lambda>h. if timeToStop h then Inr (recordStats h) else snv h))"
    if g: "keeps h g" for g
  proof (rule fine_bind)
    fix g' assume "replyHash C (proph r) g = Inr g'"
    from replyHash_frame [OF this] have "keeps h g'" by (auto intro: keeps_frame [OF g])
    moreover from this have "fine g' (if timeToStop g' then Inr (recordStats g') else snv g')"
      using snv_fine room_keeps [OF _ assms(2)] by (auto simp: keeps_inv intro: keeps_upd)
    ultimately show "fine h (if timeToStop g' then Inr (recordStats g') else snv g')"
      by (rule fine_trans)
  qed simp
  then show ?thesis
    by (simp add: executeRData_def Let_def keeps_upd [OF assms(1)])
qed

lemma initiateCommit_fine:
  assumes "basic_inv h" and "room n h"
  shows "fine h (initiateCommit C snv r h)"
  unfolding initiateCommit_def
proof (intro fine_bind fine_if gets_not_Diverge)
  fix signs
  have k: "keeps h (sendMsg (Net_Commit (Msg_new r signs)) (remove_from_peers h (h_myid h)) h)"
    by (rule keeps_upd [OF assms(1)]) simp_all
  show "fine h (executeRData C snv r (sendMsg (Net_Commit (Msg_new r signs)) (remove_from_peers h (h_myid h)) h))"
    by (rule fine_trans [OF k executeRData_fine [OF keeps_inv [OF k] room_keeps [OF k assms(2)]]])
qed (simp add: assms(1) keeps_refl)

lemma initiatePrecommit_fine:
  assumes inv: "basic_inv h" and rm: "room n h" and now: "timely h r"
  shows "fine h (initiatePrecommit C snv r h)"
  unfolding initiatePrecommit_def Let_def
proof (rule fine_bind, rule gets_not_Diverge, rule fine_if)
  fix signs
  let ?g = "sendMsg (Net_PreCommit (Msg_new r signs)) (remove_from_peers h (h_myid h)) h"
  have g: "keeps h ?g" by (rule keeps_upd [OF inv]) simp_all
  have tg: "timely ?g r" using now by (simp add: timely_def)
  show "fine h (bindE (callTEEstore C (Just_signs r signs) ?g) (\<lambda>(justCom, h).
      bindE (getRData justCom) (\<lambda>r.
      bindE (storeCom (Msg_new r (j_signs justCom)) (h_log h)) (\<lambda>(l, n).
        if h_qsize (h\<lparr>h_log := l\<rparr>) \<le> n then initiateCommit C snv r (h\<lparr>h_log := l\<rparr>) else Inr (h\<lparr>h_log := l\<rparr>)))))"
  proof (rule fine_bind_pair [OF callTEE_not_Diverges(2)], rule fine_bind [OF getRData_not_Diverges(1)],
      rule fine_bind_pair, rule stores_not_Diverge)
    fix j1 h1 r1 l m assume c: "callTEEstore C (Just_signs r signs) ?g = Inr (j1, h1)"
      and s: "storeCom (Msg_new r1 (j_signs j1)) (h_log h1) = Inr (l, m)"
    note k = callTEEstore_keeps [OF keeps_inv [OF g] c getRData_simps(2) tg]
    have kl: "keeps h1 (h1\<lparr>h_log := l\<rparr>)"
      using stores_newviews(3) [OF s] keeps_log [OF keeps_inv [OF k(1)]] by simp
    note all = keeps_trans [OF g keeps_trans [OF k(1) kl]]
    show "fine h (if h_qsize (h1\<lparr>h_log := l\<rparr>) \<le> m then initiateCommit C snv r1 (h1\<lparr>h_log := l\<rparr>) else Inr (h1\<lparr>h_log := l\<rparr>))"
      using fine_trans [OF all initiateCommit_fine [OF keeps_inv [OF all] room_keeps [OF all rm]]] all by simp
  qed
qed (simp add: inv keeps_refl)

lemma initiatePrepare_fine:
  assumes inv: "basic_inv h" and rm: "room n h" and now: "timely h r"
  shows "fine h (initiatePrepare C snv r h)"
  unfolding initiatePrepare_def Let_def
proof (rule fine_bind, rule gets_not_Diverge, rule fine_if)
  fix signs
  let ?g = "sendMsg (Net_Prepare (Msg_new r signs)) (remove_from_peers h (h_myid h)) h"
  have g: "keeps h ?g" by (rule keeps_upd [OF inv]) simp_all
  have tg: "timely ?g r" using now by (simp add: timely_def)
  show "fine h (bindE (callTEEstore C (Just_signs r signs) ?g) (\<lambda>(justPc, h).
      bindE (getRData justPc) (\<lambda>r.
      bindE (storePc (Msg_new r (j_signs justPc)) (h_log h)) (\<lambda>(l, n).
        if h_qsize (h\<lparr>h_log := l\<rparr>) \<le> n then initiatePrecommit C snv r (h\<lparr>h_log := l\<rparr>) else Inr (h\<lparr>h_log := l\<rparr>)))))"
  proof (rule fine_bind_pair [OF callTEE_not_Diverges(2)], rule fine_bind [OF getRData_not_Diverges(1)],
      rule fine_bind_pair, rule stores_not_Diverge)
    fix j1 h1 r1 l m assume c: "callTEEstore C (Just_signs r signs) ?g = Inr (j1, h1)"
      and r1: "getRData j1 = Inr r1" and s: "storePc (Msg_new r1 (j_signs j1)) (h_log h1) = Inr (l, m)"
    note k = callTEEstore_keeps [OF keeps_inv [OF g] c getRData_simps(2) tg]
    have kl: "keeps h1 (h1\<lparr>h_log := l\<rparr>)"
      using stores_newviews(2) [OF s] keeps_log [OF keeps_inv [OF k(1)]] by simp
    note all = keeps_trans [OF g keeps_trans [OF k(1) kl]]
    have "timely (h1\<lparr>h_log := l\<rparr>) r1"
      using k(2,3) r1 by (auto simp: timely_def)
    from fine_trans [OF all initiatePrecommit_fine [OF keeps_inv [OF all] room_keeps [OF all rm] this]] all
    show "fine h (if h_qsize (h1\<lparr>h_log := l\<rparr>) \<le> m then initiatePrecommit C snv r1 (h1\<lparr>h_log := l\<rparr>) else Inr (h1\<lparr>h_log := l\<rparr>))"
      by simp
  qed
qed (simp add: inv keeps_refl)

lemma prepare_fine:
  assumes inv: "basic_inv h" and rm: "room n h"
    and now: "tf_view (h_tf h) = h_view h \<or> entries_of (map_find (newviews (h_log h)) (h_view h)) \<noteq> []"
  shows "fine h (prepare C snv h)"
proof -
  let ?j = "findHighestNv (h_view h) (h_log h)"
  have "\<exists>r. getRData ?j = Inr r \<and> (propv r = h_view h \<or> propv r = 0)"
  proof (cases "entries_of (map_find (newviews (h_log h)) (h_view h)) = []")
    case True
    then have "?j = Just_default"
      by (auto simp: findHighestNv_def entries_of_def split: option.splits)
    then show ?thesis by (simp add: RData_default_def)
  next
    case False
    then obtain ms where "map_find (newviews (h_log h)) (h_view h) = Some ms" "ms \<noteq> []"
      by (auto simp: entries_of_def split: option.splits)
    moreover from inv have "nv_keyed (newviews (h_log h))" by (simp add: basic_inv_def)
    ultimately show ?thesis using nv_keyed_highest by blast
  qed
  then obtain r where r: "getRData ?j = Inr r" "propv r = h_view h \<or> propv r = 0" by blast
  obtain b g where b: "createNewBlock (justh r) h = (b, g)" by fastforce
  then obtain x where g: "g = h\<lparr>h_transactions := x\<rparr>" using createNewBlock_frame by blast
  have kg: "keeps h g" by (rule keeps_upd [OF inv]) (simp_all add: g)
  have "fine h (bindE (block_hash C b) (\<lambda>bh. bindE (callTEEprepare C bh ?j g) (\<lambda>(justPrep, h).
          if j_set justPrep then
            (let h = h\<lparr>h_blocks := map_set (h_view h) b (h_blocks h)\<rparr>; signs = j_signs justPrep in
             bindE (getRData justPrep) (\<lambda>r.
               let h = sendMsg (Net_LdrPrepare (LdrMsg_new (Proposal_new ?j b) signs))
                         (remove_from_peers h (h_myid h)) h
               in bindE (storePrep (Msg_new r signs) (h_log h)) (\<lambda>(l, n).
                    let h = h\<lparr>h_log := l\<rparr> in
                    if h_qsize h \<le> n then initiatePrepare C snv r h else Inr h)))
          else Inr h)))"
    unfolding Let_def
  proof (rule fine_bind [OF block_hash_not_Diverges], rule fine_bind_pair [OF callTEE_not_Diverges(1)], rule fine_if,
      rule fine_bind [OF getRData_not_Diverges(1)], rule fine_bind_pair, rule stores_not_Diverge)
    fix bh j1 h1 assume c: "callTEEprepare C bh ?j g = Inr (j1, h1)"
    note k = callTEEprepare_keeps [OF keeps_inv [OF kg] c r(1)]
    have nw: "propv r = h_view g \<or> propv r = 0 \<or> tf_view (h_tf g) = h_view g" using r(2) by (auto simp: g)
    show "fine h (Inr h1)" using keeps_trans [OF kg k(1) [OF nw]] by simp
    fix r1 l m assume r1: "getRData j1 = Inr r1" and st: "j_set j1"
      and s: "storePrep (Msg_new r1 (j_signs j1)) (h_log (sendMsg (Net_LdrPrepare (LdrMsg_new (Proposal_new ?j b) (j_signs j1)))
          (remove_from_peers (h1\<lparr>h_blocks := map_set (h_view h1) b (h_blocks h1)\<rparr>) (h_myid (h1\<lparr>h_blocks := map_set (h_view h1) b (h_blocks h1)\<rparr>)))
          (h1\<lparr>h_blocks := map_set (h_view h1) b (h_blocks h1)\<rparr>))) = Inr (l, m)"
    let ?h2 = "(sendMsg (Net_LdrPrepare (LdrMsg_new (Proposal_new ?j b) (j_signs j1)))
          (remove_from_peers (h1\<lparr>h_blocks := map_set (h_view h1) b (h_blocks h1)\<rparr>) (h_myid (h1\<lparr>h_blocks := map_set (h_view h1) b (h_blocks h1)\<rparr>)))
          (h1\<lparr>h_blocks := map_set (h_view h1) b (h_blocks h1)\<rparr>))\<lparr>h_log := l\<rparr>"
    have "keeps h1 ?h2"
      using stores_newviews(1) [OF s] by (intro keeps_upd [OF keeps_inv [OF k(1) [OF nw]]]) simp_all
    note all = keeps_trans [OF kg keeps_trans [OF k(1) [OF nw] this]]
    have "timely ?h2 r1" using k(2,3) [OF nw] r1 st by (auto simp: timely_def)
    from fine_trans [OF all initiatePrepare_fine [OF keeps_inv [OF all] room_keeps [OF all rm] this]] all
    show "fine h (if h_qsize ?h2 \<le> m then initiatePrepare C snv r1 ?h2 else Inr ?h2)" by simp
  qed
  then show ?thesis by (simp add: prepare_def r(1) b Let_def)
qed

lemma handleNewview_fine:
  assumes inv: "basic_inv h" and rm: "room n h"
  shows "fine h (handleNewview C snv msg h)"
  unfolding handleNewview_def Let_def
proof (rule fine_if, rule fine_bind_pair, rule stores_not_Diverge)
  fix l m assume s: "storeNv msg (h_log h) = Inr (l, m)"
  have "nv_keyed (newviews l)" by (rule nv_keyed_store [OF _ s]) (use inv in \<open>simp add: basic_inv_def\<close>)
  with inv have k: "keeps h (h\<lparr>h_log := l\<rparr>)" by (simp add: keeps_def basic_inv_def)
  from storeNv_nonempty [OF s] have "propv (m_rdata msg) = h_view h \<Longrightarrow> fine (h\<lparr>h_log := l\<rparr>) (prepare C snv (h\<lparr>h_log := l\<rparr>))"
    by (intro prepare_fine [OF keeps_inv [OF k] room_keeps [OF k rm]]) simp
  then show "fine h (if m = h_qsize (h\<lparr>h_log := l\<rparr>) \<and> propv (m_rdata msg) = h_view (h\<lparr>h_log := l\<rparr>)
      then prepare C snv (h\<lparr>h_log := l\<rparr>) else Inr (h\<lparr>h_log := l\<rparr>))"
    using fine_trans [OF k] k by simp
qed (simp add: inv keeps_refl)

text \<open>Catching up happens right after the view change, when the component is at (view, prepare).\<close>

lemma handleEarlierMessages_fine:
  assumes inv: "basic_inv h" and rm: "room n h" and pos: "tf_pos (h_tf h) = 4 * unat (h_view h) + 1"
  shows "fine h (handleEarlierMessages C snv h)"
proof -
  have vw: "tf_view (h_tf h) = h_view h" using basic_inv_view [OF inv] pos by simp
  obtain j1 h1 where c1: "callTEEsign C h = (j1, h1)" by fastforce
  from callTEEsign_keeps [OF inv vw c1] obtain t1 where k1: "keeps h h1" "tf_pos (h_tf h1) = 4 * unat (h_view h) + 2" "h1 = h\<lparr>h_tf := t1\<rparr>"
    using pos by auto
  then have vw1: "tf_view (h_tf h1) = h_view h1" using basic_inv_view [OF keeps_inv [OF k1(1)]] by simp
  obtain j2 h2 where c2: "callTEEsign C h1 = (j2, h2)" by fastforce
  from callTEEsign_keeps [OF keeps_inv [OF k1(1)] vw1 c2] obtain t2
    where k2: "keeps h1 h2" "tf_pos (h_tf h2) = 4 * unat (h_view h) + 3" "h2 = h\<lparr>h_tf := t2\<rparr>"
    using k1 by auto
  then have vw2: "tf_view (h_tf h2) = h_view h2" using basic_inv_view [OF keeps_inv [OF k2(1)]] by simp
  note k02 = keeps_trans [OF k1(1) k2(1)]
  have getr: "\<exists>r. getRData (firstPrecommit v l) = Inr r" "\<exists>r. getRData (firstPrepare v l) = Inr r" for v l
    by (auto simp: firstPrecommit_def firstPrepare_def first_of_def split: option.splits list.splits)
  have exec: "fine h (bindE (respondToPreCommitJust C (firstPrecommit (h_view h) (h_log h)) h2) (\<lambda>h.
      bindE (getCommit (h_view h) (h_qsize h) (h_log h)) (\<lambda>signsCom.
        if sg_size signsCom = h_qsize h then
          bindE (getRData (firstCommit (h_view h) (h_log h))) (\<lambda>r. executeRData C snv r h)
        else Inr h)))"
  proof (rule fine_trans [OF k02], rule fine_bind_fine)
    from getr obtain r where "getRData (firstPrecommit (h_view h) (h_log h)) = Inr r" by blast
    from respondToPreCommitJust_fine [OF keeps_inv [OF k02] this] vw2
    show "fine h2 (respondToPreCommitJust C (firstPrecommit (h_view h) (h_log h)) h2)" by (simp add: timely_def)
    fix h3 assume k: "keeps h2 h3"
    note rm3 = room_keeps [OF keeps_trans [OF k02 k] rm]
    show "fine h3 (bindE (getCommit (h_view h3) (h_qsize h3) (h_log h3)) (\<lambda>signsCom.
        if sg_size signsCom = h_qsize h3 then
          bindE (getRData (firstCommit (h_view h3) (h_log h3))) (\<lambda>r. executeRData C snv r h3)
        else Inr h3))"
      by (intro fine_bind fine_if gets_not_Diverge getRData_not_Diverges executeRData_fine keeps_inv [OF k] rm3 fine_Inr
          keeps_refl)
  qed
  have prep: "fine h (respondToPrepareJust C (firstPrepare (h_view h) (h_log h)) h1)"
  proof (rule fine_trans [OF k1(1)])
    from getr obtain r where "getRData (firstPrepare (h_view h) (h_log h)) = Inr r" by blast
    from respondToPrepareJust_fine [OF keeps_inv [OF k1(1)] this] vw1
    show "fine h1 (respondToPrepareJust C (firstPrepare (h_view h) (h_log h)) h1)" by (simp add: timely_def)
  qed
  have answer: "fine h (respondToProposal C j b h)" for j b
  proof (cases "getRData j")
    case (Inr r)
    then show ?thesis using respondToProposal_fine [OF inv Inr] vw by simp
  next
    case (Inl e)
    then show ?thesis
      by (cases e; cases "block_hash C b") (auto simp: fine_def respondToProposal_def callTEEprepare_def tf_TEEprepare_def getRData_def
          bindE_Inl_iff split: RoundUnion.splits)
  qed
  show ?thesis
    unfolding handleEarlierMessages_def
    by (intro fine_if fine_bind gets_not_Diverge)
       (use exec prep answer inv rm vw in \<open>auto simp: c1 c2 Let_def keeps_refl intro: prepare_fine\<close>)
qed

lemma startNewView_body_fine:
  assumes inv: "basic_inv h" and go: "\<not> timeToStop h" and rm: "room (Suc n) h"
  shows "fine h (startNewView_body C snv h)"
proof -
  have mv: "0 < h_maxViews h" "h_view h < h_maxViews h" using inv by (simp_all add: basic_inv_def)
  have v1: "unat (h_view h + 1) = Suc (unat (h_view h))"
    using unat_u32_max [OF mv(2)] by (intro unat_Suc_u32) simp
  from newview_signed [OF inv] obtain j1 h1 j2 t r where c: "callTEEsign C h = (j1, h1)"
    and s: "signUntilView C (h_view h1) (sign_fuel (h_view h1)) j1 h1 = Inr (j2, h\<lparr>h_tf := t\<rparr>)"
    and t: "tf_ok t" "tf_pos t = 4 * unat (h_view h) + 5" and r: "j_data j2 = URData r" "propv r = h_view h + 1" "phase r = PH1_NEWVIEW"
    by blast
  let ?h2 = "setTimer (h\<lparr>h_tf := t, h_view := h_view h + 1\<rparr>)"
  have vlt: "h_view h + 1 < h_maxViews h"
    using go mv by (simp add: timeToStop_def)
  have k2: "keeps h ?h2"
    using inv t v1 vlt by (auto simp: keeps_def basic_inv_def word_le_nat_alt)
  have rm2: "room n ?h2" using rm v1 by (simp add: room_def)
  have p2: "tf_pos (h_tf ?h2) = 4 * unat (h_view ?h2) + 1" using t(2) v1 by simp
  have vw2: "h_view ?h2 = h_view h + 1" by simp
  let ?msg = "Msg_new r (j_signs j2)"
  have g: "getRData j2 = Inr r" using r(1) by (simp add: getRData_Inr_iff)
  have leader: "fine ?h2 (bindE (handleEarlierMessages C snv ?h2) (\<lambda>h. handleNewview C snv ?msg h))"
    by (rule fine_bind_fine [OF handleEarlierMessages_fine [OF keeps_inv [OF k2] rm2 p2]])
       (rule handleNewview_fine; use keeps_inv room_keeps rm2 in blast)
  let ?h3 = "sendMsg (Net_NewView ?msg) (keep_from_peers ?h2 (getCurrentLeader ?h2)) ?h2"
  have k3: "keeps ?h2 ?h3" by (rule keeps_upd [OF keeps_inv [OF k2]]) simp_all
  have "fine ?h3 (handleEarlierMessages C snv ?h3)"
    by (rule handleEarlierMessages_fine [OF keeps_inv [OF k3] room_keeps [OF k3 rm2]]) (use p2 in simp)
  from fine_trans [OF k3 this] leader
  have "fine h (if amCurrentLeader ?h2 then bindE (handleEarlierMessages C snv ?h2) (\<lambda>h. handleNewview C snv ?msg h)
      else handleEarlierMessages C snv ?h3)"
    by (intro fine_trans [OF k2]) simp
  then show ?thesis
    unfolding startNewView_body_def using c s r g vw2 by (simp add: Let_def del: send_simps split: if_splits)
qed

end

section \<open>The knot\<close>

lemma startNewView_fuel_later: "later_views (startNewView_fuel C n) n"
proof (induction n)
  case 0
  show ?case
    by (rule later_views.intro) (auto simp: room_def basic_inv_def word_less_nat_alt)
next
  case (Suc n)
  show ?case
    by (rule later_views.intro) (simp add: later_views.startNewView_body_fine [OF Suc])
qed

lemma room_view_fuel [simp]: "room view_fuel h"
  using unat_u32_less [of "h_maxViews h"] by (simp add: room_def view_fuel_def)

interpretation snv: later_views "startNewView C" view_fuel for C
  using startNewView_fuel_later [of C view_fuel] unfolding startNewView_def .

section \<open>The message handlers\<close>

lemma keeps_store:
  "basic_inv h \<Longrightarrow> storePrep m (h_log h) = Inr (l, n) \<Longrightarrow> keeps h (h\<lparr>h_log := l\<rparr>)"
  "basic_inv h \<Longrightarrow> storePc m (h_log h) = Inr (l, n) \<Longrightarrow> keeps h (h\<lparr>h_log := l\<rparr>)"
  "basic_inv h \<Longrightarrow> storeCom m (h_log h) = Inr (l, n) \<Longrightarrow> keeps h (h\<lparr>h_log := l\<rparr>)"
  "basic_inv h \<Longrightarrow> storeProp mp (h_log h) = Inr (l, n) \<Longrightarrow> keeps h (h\<lparr>h_log := l\<rparr>)"
  by (simp_all add: keeps_log stores_newviews)

lemma handleLdrPrepare_fine:
  assumes inv: "basic_inv h"
  shows "fine h (handleLdrPrepare C msg h)"
  unfolding handleLdrPrepare_def Let_def
proof (rule fine_bind [OF getRData_not_Diverges(1)], rule fine_bind [OF block_hash_not_Diverges],
    rule fine_bind [OF verifyJust_not_Diverges(1)], rule fine_if, rule fine_if)
  fix r assume r: "getRData (pr_just (l_prop msg)) = Inr r" and v: "propv r = h_view h"
  show "fine h (respondToProposal C (pr_just (l_prop msg)) (pr_block (l_prop msg)) h)"
    by (rule respondToProposal_fine [OF inv r]) (simp add: v)
next
  show "fine h (bindE (storeProp msg (h_log h)) (\<lambda>(l, n). Inr (h\<lparr>h_log := l\<rparr>)))"
    by (rule fine_bind_pair [OF stores_not_Diverge(5)]) (simp add: keeps_store [OF inv])
qed (simp add: inv keeps_refl)

lemma timely_now: "propv r = h_view h \<Longrightarrow> timely h r"
  by (simp add: timely_def)

lemma handlePrepare_fine:
  assumes inv: "basic_inv h"
  shows "fine h (handlePrepare C (startNewView C) msg h)"
  unfolding handlePrepare_def Let_def
proof (rule fine_if, rule fine_if, rule fine_bind_pair [OF stores_not_Diverge(2)])
  fix l n assume v: "propv (m_rdata msg) = h_view h" and s: "storePrep msg (h_log h) = Inr (l, n)"
  note k = keeps_store(1) [OF inv s]
  have "timely (h\<lparr>h_log := l\<rparr>) (m_rdata msg)" using v by (simp add: timely_def)
  from fine_trans [OF k snv.initiatePrepare_fine [OF keeps_inv [OF k] room_view_fuel this]] k
  show "fine h (if n = h_qsize (h\<lparr>h_log := l\<rparr>) then initiatePrepare C (startNewView C) (m_rdata msg) (h\<lparr>h_log := l\<rparr>)
      else Inr (h\<lparr>h_log := l\<rparr>))" by simp
next
  assume v: "propv (m_rdata msg) = h_view h"
  show "fine h (if sg_size (m_signs msg) = h_qsize h then respondToPrepareJust C (Just_signs (m_rdata msg) (m_signs msg)) h else Inr h)"
    using respondToPrepareJust_fine [OF inv getRData_simps(2) timely_now [OF v]] by (simp add: inv keeps_refl)
next
  show "fine h (if h_view h < propv (m_rdata msg) then bindE (storePrep msg (h_log h)) (\<lambda>(l, n). Inr (h\<lparr>h_log := l\<rparr>)) else Inr h)"
    by (intro fine_if fine_bind_pair stores_not_Diverge) (simp_all add: keeps_store [OF inv] inv keeps_refl)
qed

lemma handlePrecommit_fine:
  assumes inv: "basic_inv h"
  shows "fine h (handlePrecommit C (startNewView C) msg h)"
  unfolding handlePrecommit_def Let_def
proof (rule fine_if, rule fine_if, rule fine_bind_pair [OF stores_not_Diverge(3)])
  fix l n assume v: "propv (m_rdata msg) = h_view h \<and> phase (m_rdata msg) = PH1_PRECOMMIT" and s: "storePc msg (h_log h) = Inr (l, n)"
  note k = keeps_store(2) [OF inv s]
  have "timely (h\<lparr>h_log := l\<rparr>) (m_rdata msg)" using v by (simp add: timely_def)
  from fine_trans [OF k snv.initiatePrecommit_fine [OF keeps_inv [OF k] room_view_fuel this]] k
  show "fine h (if n = h_qsize (h\<lparr>h_log := l\<rparr>) then initiatePrecommit C (startNewView C) (m_rdata msg) (h\<lparr>h_log := l\<rparr>)
      else Inr (h\<lparr>h_log := l\<rparr>))" by simp
next
  assume v: "propv (m_rdata msg) = h_view h \<and> phase (m_rdata msg) = PH1_PRECOMMIT"
  show "fine h (if sg_size (m_signs msg) = h_qsize h then respondToPreCommitJust C (Just_signs (m_rdata msg) (m_signs msg)) h else Inr h)"
    using respondToPreCommitJust_fine [OF inv getRData_simps(2) timely_now] v by (simp add: inv keeps_refl)
next
  show "fine h (if h_view h < propv (m_rdata msg) then bindE (storePc msg (h_log h)) (\<lambda>(l, n). Inr (h\<lparr>h_log := l\<rparr>)) else Inr h)"
    by (intro fine_if fine_bind_pair stores_not_Diverge) (simp_all add: keeps_store [OF inv] inv keeps_refl)
qed

lemma handleCommit_fine:
  assumes inv: "basic_inv h"
  shows "fine h (handleCommit C (startNewView C) msg h)"
proof -
  have st: "fine h (bindE (storeCom msg (h_log h)) (\<lambda>(l, n). Inr (h\<lparr>h_log := l\<rparr>)))"
    by (intro fine_bind_pair stores_not_Diverge) (simp_all add: keeps_store [OF inv])
  have ldr: "fine h (bindE (storeCom msg (h_log h)) (\<lambda>(l, n).
      if n = h_qsize (h\<lparr>h_log := l\<rparr>) then initiateCommit C (startNewView C) (m_rdata msg) (h\<lparr>h_log := l\<rparr>) else Inr (h\<lparr>h_log := l\<rparr>)))"
  proof (rule fine_bind_pair [OF stores_not_Diverge(4)])
    fix l n assume s: "storeCom msg (h_log h) = Inr (l, n)"
    note k = keeps_store(3) [OF inv s]
    from fine_trans [OF k snv.initiateCommit_fine [OF keeps_inv [OF k] room_view_fuel]] k
    show "fine h (if n = h_qsize (h\<lparr>h_log := l\<rparr>) then initiateCommit C (startNewView C) (m_rdata msg) (h\<lparr>h_log := l\<rparr>)
        else Inr (h\<lparr>h_log := l\<rparr>))" by simp
  qed
  have "fine h (Inr h)" using inv by (simp add: keeps_refl)
  then show ?thesis
    unfolding handleCommit_def Let_def
    by (intro fine_if ldr st fine_bind verifyJust_not_Diverges snv.executeRData_fine [OF inv] room_view_fuel)
qed

section \<open>Events\<close>

lemma startNewView_fine:
  "basic_inv h \<Longrightarrow> \<not> timeToStop h \<Longrightarrow> fine h (startNewView C h)"
  by (rule snv.snv_fine) simp_all

lemma drain_replies_frame:
  "h_tf (drain_replies ok q h) = h_tf h \<and> h_view (drain_replies ok q h) = h_view h \<and>
   h_maxViews (drain_replies ok q h) = h_maxViews h \<and> h_log (drain_replies ok q h) = h_log h \<and>
   h_transactions (drain_replies ok q h) = h_transactions h \<and> h_tpara (drain_replies ok q h) = h_tpara h \<and>
   h_pblocks (drain_replies ok q h) = h_pblocks h \<and> h_maxBlocksInView (drain_replies ok q h) = h_maxBlocksInView h \<and>
   h_verifiedJust (drain_replies ok q h) = h_verifiedJust h"
  by (induction ok q h rule: drain_replies.induct) (auto split: option.splits prod.splits)

lemma handleTransaction_frame:
  "\<exists>cs ts. handleTransaction msg h = h\<lparr>h_clients := cs, h_transactions := ts\<rparr>"
proof -
  have "\<exists>cs ts. h = h\<lparr>h_clients := cs, h_transactions := ts\<rparr>"
    by (rule exI [of _ "h_clients h"], rule exI [of _ "h_transactions h"]) simp
  then show ?thesis
    by (auto simp: handleTransaction_def split: option.splits prod.splits)
qed

lemma keeps_self_upds [simp]:
  assumes "basic_inv h"
  shows "keeps h (signalHandler s h)" "keeps h (handle_transaction m h)" "keeps h (process_rep_queue send_ok h)"
proof -
  show "keeps h (signalHandler s h)"
    by (rule keeps_upd [OF assms]) (simp_all add: signalHandler_def)
  from handleTransaction_frame [of m h] show "keeps h (handle_transaction m h)"
    using assms by (auto simp: handle_transaction_def keeps_refl intro!: keeps_upd)
  show "keeps h (process_rep_queue send_ok h)"
    by (rule keeps_upd [OF assms]) (simp_all add: process_rep_queue_def drain_replies_frame)
qed

lemma on_timer_fine:
  assumes inv: "basic_inv h"
  shows "fine h (on_timer (startNewView C) h)"
  unfolding on_timer_def
proof (rule fine_if)
  show "fine h (Inr (emit [StopPeers, StopClients, TimerDel] (recordStats h)))"
    by (simp add: keeps_upd [OF inv])
next
  assume go: "\<not> timeToStop h"
  show "fine h (bindE (if \<not> h_isPaused h then startNewView C h else Inr h) (\<lambda>h. Inr (emit [TimerDel, TimerAdd] h)))"
    by (rule fine_bind_fine, rule fine_if)
       (simp_all add: startNewView_fine inv go keeps_refl keeps_upd keeps_inv)
qed

lemma basic_step_fine:
  assumes inv: "basic_inv h"
  shows "fine h (basic_step C send_ok ev h)"
  by (cases ev)
     (simp_all add: inv keeps_refl handle_newview_def handle_ldrprepare_def handle_prepare_def handle_precommit_def
       handle_commit_def snv.handleNewview_fine handleLdrPrepare_fine handlePrepare_fine handlePrecommit_fine
       handleCommit_fine on_timer_fine)

end
