(* ===== verification/Machines.thy ===== *)
theory Machines
  imports HandlerState
begin

text \<open>
  A node as a machine that consumes events one after another (the two event loops of the
  program call one handler at a time). \<open>event_machine\<close> is the contract of a protocol
  node: a legal event is always dealt with in finitely many steps, and an invariant and the order of
  views are kept. In the basic protocol every event is legal, in the chained one those that do
  not certify a view from their future (\<open>self_certified_block_hangs\<close> is what happens otherwise), in
  the parallel one those that name neither the last view nor the last sequence number
  (\<open>one_message_stops_replica\<close>, \<open>getMissing_correct\<close>).
\<close>

fun event_run :: "('e \<Rightarrow> 's \<Rightarrow> 's res) \<Rightarrow> 'e list \<Rightarrow> 's \<Rightarrow> 's res" where
  "event_run step [] h = Inr h"
| "event_run step (e # es) h = bindE (step e h) (event_run step es)"

lemma event_run_Nil [simp]: "event_run step [] = Inr"
  by (rule ext) simp

lemma event_run_append: "event_run step (es @ es') h = bindE (event_run step es h) (event_run step es')"
  by (induction es arbitrary: h) (simp_all add: bindE_assoc fun_eq_iff cong: bindE_cong)

locale event_machine =
  fixes step :: "'e \<Rightarrow> 's \<Rightarrow> 's res" and legal :: "'e \<Rightarrow> bool" and inv :: "'s \<Rightarrow> bool" and view :: "'s \<Rightarrow> View"
  assumes step_returns: "inv h \<Longrightarrow> legal e \<Longrightarrow> step e h \<noteq> Inl Diverges"
    and step_inv: "inv h \<Longrightarrow> legal e \<Longrightarrow> step e h = Inr h' \<Longrightarrow> inv h'"
    and step_view: "inv h \<Longrightarrow> legal e \<Longrightarrow> step e h = Inr h' \<Longrightarrow> view h \<le> view h'"
begin

lemma run_inv: "inv h \<Longrightarrow> \<forall>e\<in>set es. legal e \<Longrightarrow> event_run step es h = Inr h' \<Longrightarrow> inv h'"
proof (induction es arbitrary: h)
  case (Cons e es)
  then obtain h1 where "step e h = Inr h1" "event_run step es h1 = Inr h'" by (auto simp: bindE_Inr_iff)
  with Cons step_inv [of h e h1] show ?case by simp
qed simp

lemma run_view: "inv h \<Longrightarrow> \<forall>e\<in>set es. legal e \<Longrightarrow> event_run step es h = Inr h' \<Longrightarrow> view h \<le> view h'"
proof (induction es arbitrary: h)
  case (Cons e es)
  then obtain h1 where h1: "step e h = Inr h1" "event_run step es h1 = Inr h'" by (auto simp: bindE_Inr_iff)
  have "view h \<le> view h1" by (rule step_view [OF Cons.prems(1) _ h1(1)]) (simp add: Cons.prems(2))
  also have "\<dots> \<le> view h'"
    by (rule Cons.IH [OF step_inv [OF Cons.prems(1) _ h1(1)] _ h1(2)]) (simp_all add: Cons.prems(2))
  finally show ?case .
qed simp

lemma run_returns: "inv h \<Longrightarrow> \<forall>e\<in>set es. legal e \<Longrightarrow> event_run step es h \<noteq> Inl Diverges"
proof (induction es arbitrary: h)
  case (Cons e es)
  show ?case
  proof (cases "step e h")
    case (Inr h1)
    with Cons step_inv [of h e h1] show ?thesis by simp
  qed (use Cons.prems step_returns [of h e] in auto)
qed simp

end

end
