(* ===== verification/BasicProps.thy ===== *)
theory BasicProps
  imports BasicFacts Machines
begin

text \<open>
  The basic protocol as an event machine, and its properties: every event is dealt with,
  views only grow and stay below \<open>maxViews\<close>, every view change signs a new-view statement
  for the next view, and who executes a block under which checks.
\<close>

section \<open>The node as a machine\<close>

interpretation basic: event_machine "basic_step C send_ok" "\<lambda>_. True" basic_inv h_view for C send_ok
  using basic_step_fine by unfold_locales (auto simp: fine_def keeps_def)

text \<open>
  The states of a node: constructed, then any events and any \<open>MsgStart\<close> of clients. The first
  \<open>MsgStart\<close>, which starts the protocol, may come after other messages, as long as these have not
  moved the trusted component out of the node's view (four calls would); later ones only
  register the client.
\<close>

inductive basic_reach :: "crypto \<Rightarrow> (conn \<Rightarrow> bool) \<Rightarrow> Handler \<Rightarrow> Handler \<Rightarrow> bool" for C send_ok h0 where
  constructed: "basic_reach C send_ok h0 h0"
| started: "basic_reach C send_ok h0 h \<Longrightarrow> h_started h \<or> tf_view (h_tf h) = h_view h \<Longrightarrow>
    handle_start (getStarted C) msg c h = Inr h' \<Longrightarrow> basic_reach C send_ok h0 h'"
| event: "basic_reach C send_ok h0 h \<Longrightarrow> basic_step C send_ok ev h = Inr h' \<Longrightarrow> basic_reach C send_ok h0 h'"

inductive_cases basic_reachE: "basic_reach C send_ok h0 h"

lemma Handler_new_facts:
  assumes "Handler_new C i cf nf mv ns k mb fo bz = Inr h0"
  shows "h_tf h0 = TrustedFun_new i k (cf * nf + 1 - nf)" "h_view h0 = 0" "h_maxViews h0 = mv" "h_log h0 = Log_empty"
    "h_started h0 = False" "h_clients h0 = []" "h_tpara h0 = TrustedPara_new i k (cf * nf + 1 - nf)"
    "h_pblocks h0 = [(0, replicate (unat mb) PBlock_default)]" "h_maxBlocksInView h0 = mb"
    "h_verifiedJust h0 = Just_typed Type_RDataPara" "h_total h0 = cf * nf + 1" "h_qsize h0 = cf * nf + 1 - nf" "h_myid h0 = i"
  using assms by (auto simp: Handler_new_def Let_def bindE_Inr_iff)

lemma Handler_new_inv: "Handler_new C i cf nf mv ns k mb fo bz = Inr h0 \<Longrightarrow> 0 < mv \<Longrightarrow> basic_inv h0"
  by (auto simp: Handler_new_facts basic_inv_def nv_keyed_def Log_empty_def)

lemma getStarted_fine:
  assumes inv: "basic_inv h" and vw: "tf_view (h_tf h) = h_view h"
  shows "fine h (getStarted C h)"
proof -
  obtain j h1 where c: "callTEEsign C h = (j, h1)" by fastforce
  then obtain r where r: "getRData j = Inr r"
    by (auto simp: callTEEsign_def tf_TEEsign_def tf_sign_def Let_def)
  from callTEEsign_keeps [OF inv vw c] have k: "keeps h h1" by simp
  have n: "fine h1 (handleNewview C (startNewView C) (Msg_new r (j_signs j)) h1)"
    by (rule snv.handleNewview_fine [OF keeps_inv [OF k] room_view_fuel])
  show ?thesis
    using fine_trans [OF k n] by (auto simp: getStarted_def c r Let_def intro: keeps_frame [OF k])
qed

lemma handle_start_fine:
  assumes inv: "basic_inv h" and vw: "h_started h \<or> tf_view (h_tf h) = h_view h"
  shows "fine h (handle_start (getStarted C) msg c h)"
proof -
  let ?g = "case map_find (h_clients h) (st_cid msg) of
      None \<Rightarrow> h\<lparr>h_clients := map_set (st_cid msg) (True, 0, 0, c) (h_clients h)\<rparr> | Some _ \<Rightarrow> h"
  have sel: "h_tf ?g = h_tf h" "h_view ?g = h_view h" "h_maxViews ?g = h_maxViews h" "h_log ?g = h_log h" "h_started ?g = h_started h"
    by (simp_all split: option.split)
  then have k: "keeps h ?g" "keeps h (?g\<lparr>h_started := True\<rparr>)"
    by (auto intro: keeps_upd [OF inv] keeps_frame [OF keeps_refl [OF inv]])
  have "fine h (getStarted C (?g\<lparr>h_started := True\<rparr>))" if "\<not> h_started h"
    using vw that sel by (intro fine_trans [OF k(2)] getStarted_fine [OF keeps_inv [OF k(2)]]) simp
  with k(1) sel(5) show ?thesis unfolding handle_start_def Let_def by simp
qed

lemma basic_reach_inv:
  assumes "Handler_new C i cf nf mv ns k mb fo bz = Inr h0" and "0 < mv"
  shows "basic_reach C send_ok h0 h \<Longrightarrow> basic_inv h \<and> h_maxViews h = mv"
proof (induction rule: basic_reach.induct)
  case constructed
  with Handler_new_inv [OF assms] Handler_new_facts(3) [OF assms(1)] show ?case by simp
next
  case (started h msg c h')
  with handle_start_fine [of h C msg c] show ?case by (auto simp: fine_def keeps_def)
next
  case (event h ev h')
  with basic_step_fine [of h C send_ok ev] show ?case by (auto simp: fine_def keeps_def)
qed

text \<open>A node that is started right after its construction.\<close>

lemma basic_reach_started:
  assumes "Handler_new C i cf nf mv ns k mb fo bz = Inr h0" and "handle_start (getStarted C) msg c h0 = Inr h"
  shows "basic_reach C send_ok h0 h"
  by (rule basic_reach.started [OF basic_reach.constructed _ assms(2)]) (simp add: Handler_new_facts [OF assms(1)] TrustedFun_new_def)

lemma take_min_length: "take (min (length xs) n) xs = take n xs"
  by (simp add: min_def)

section \<open>Concrete nodes\<close>

text \<open>Node 1 of four, started by client 7; and the only node of a configuration without faults.\<close>

definition demo_start :: MsgStart where
  "demo_start = \<lparr>st_cid = 7, st_sign = Sign_default\<rparr>"

lemma Handler_new_total: "\<exists>h0. Handler_new C i cf nf mv ns k mb fo bz = Inr h0"
  using tc_new_total [of C i k "cf * nf + 1 - nf"] by (auto simp: Handler_new_def Let_def)

lemma demo_started:
  assumes "Handler_new C 1 3 1 4 [] 5 10 fo bz = Inr h0"
  shows "\<exists>h. basic_reach C send_ok h0 h"
proof -
  have "\<exists>h. handle_start (getStarted C) demo_start 0 h0 = Inr h"
    by (simp add: handle_start_def getStarted_def callTEEsign_def tf_TEEsign_def tf_sign_def Let_def demo_start_def
        Handler_new_facts [OF assms] amCurrentLeader_def getCurrentLeader_def getLeaderOf_def)
  then show ?thesis by (blast intro: basic_reach_started [OF assms])
qed

definition crypto_no :: crypto where
  "crypto_no = crypto_yes\<lparr>ECDSA_verify := (\<lambda>_ _ _. 0)\<rparr>"

definition demo_commit :: MsgCommit where
  "demo_commit = Msg_new (RData_new Hash_default 0 Hash_default 0 PH1_COMMIT) (Signs_one (Sign_char 1 65))"

section \<open>Properties\<close>

text \<open>
  C8. A node of the basic protocol deals with every event. In every state that a node with
  a bound on the views reaches (constructed, then any events from the network, the clients, the
  timer and the operating system; the first \<open>MsgStart\<close> comes while the trusted component is
  in the node's view), the next event is processed in finitely
  many steps (the recursion through \<open>startNewView\<close> and the signing loop end), and if it
  does not end in an exception, the view has not decreased and is below \<open>maxViews\<close>.
\<close>

theorem basic_event_processed:
  assumes "Handler_new C i cf nf mv ns k mb fo bz = Inr h0" and "0 < mv" and "basic_reach C send_ok h0 h"
  shows "basic_step C send_ok ev h \<noteq> Inl Diverges \<and>
    (\<forall>h'. basic_step C send_ok ev h = Inr h' \<longrightarrow> h_view h \<le> h_view h' \<and> h_view h' < mv)"
proof -
  from basic_reach_inv [OF assms] have inv: "basic_inv h" "h_maxViews h = mv" by auto
  have "h_view h \<le> h_view h' \<and> h_view h' < mv" if st: "basic_step C send_ok ev h = Inr h'" for h'
  proof -
    from basic_step_fine [OF inv(1), of C send_ok ev] st have k: "keeps h h'" by (simp add: fine_def)
    then have "h_view h' < h_maxViews h'" "h_maxViews h' = mv" "h_view h \<le> h_view h'"
      using inv(2) by (auto simp: keeps_def basic_inv_def)
    then show ?thesis by simp
  qed
  with basic.step_returns [OF inv(1) TrueI] show ?thesis by blast
qed

theorem basic_event_processed_witness:
  "\<exists>h0 h h'. Handler_new crypto_yes 1 3 1 4 [] 5 10 (\<lambda>_. False) 0 = Inr h0 \<and> basic_reach crypto_yes (\<lambda>_. True) h0 h \<and>
     basic_step crypto_yes (\<lambda>_. True) (B_signal 10) h = Inr h' \<and> h_view h' < 4"
proof -
  obtain h0 where n: "Handler_new crypto_yes 1 3 1 4 [] 5 10 (\<lambda>_. False) 0 = Inr h0" using Handler_new_total by blast
  from demo_started [OF n] obtain h where r: "basic_reach crypto_yes (\<lambda>_. True) h0 h" by blast
  from basic_event_processed [OF n _ r, of "B_signal 10"] n r show ?thesis by auto
qed

text \<open>
  Every view change produces a new-view statement for the next view: in every reachable
  state with a next view, the signing loop of \<open>startNewView\<close> ends with a justification for
  exactly \<open>view + 1\<close> in the new-view phase, so the branch "something wrong happened" is dead.
\<close>

theorem basic_newview_signed:
  assumes "Handler_new C i cf nf mv ns k mb fo bz = Inr h0" and "0 < mv" and "basic_reach C send_ok h0 h"
  shows "\<exists>j1 h1 j2 h2 r. callTEEsign C h = (j1, h1) \<and>
    signUntilView C (h_view h1) (sign_fuel (h_view h1)) j1 h1 = Inr (j2, h2) \<and>
    getRData j2 = Inr r \<and> propv r = h_view h + 1 \<and> phase r = PH1_NEWVIEW"
proof -
  from basic_reach_inv [OF assms] have "basic_inv h" by simp
  from newview_signed [OF this] obtain j1 h1 j2 t r where
    "callTEEsign C h = (j1, h1)" "signUntilView C (h_view h1) (sign_fuel (h_view h1)) j1 h1 = Inr (j2, h\<lparr>h_tf := t\<rparr>)"
    "j_data j2 = URData r" "propv r = h_view h + 1" "phase r = PH1_NEWVIEW" by blast
  then show ?thesis by (simp add: getRData_Inr_iff)
qed

theorem basic_newview_signed_witness:
  "\<exists>h0 h j1 h1 j2 h2 r. Handler_new crypto_yes 1 3 1 4 [] 5 10 (\<lambda>_. False) 0 = Inr h0 \<and>
     basic_reach crypto_yes (\<lambda>_. True) h0 h \<and> callTEEsign crypto_yes h = (j1, h1) \<and>
     signUntilView crypto_yes (h_view h1) (sign_fuel (h_view h1)) j1 h1 = Inr (j2, h2) \<and> getRData j2 = Inr r \<and>
     propv r = h_view h + 1"
proof -
  obtain h0 where n: "Handler_new crypto_yes 1 3 1 4 [] 5 10 (\<lambda>_. False) 0 = Inr h0" using Handler_new_total by blast
  from demo_started [OF n] obtain h where r: "basic_reach crypto_yes (\<lambda>_. True) h0 h" by blast
  from basic_newview_signed [OF n _ r] n r show ?thesis by (auto; blast)
qed

text \<open>
  The bound matters: in the last 32-bit view no justification can be for a later view,
  so without one (\<open>maxViews = 0\<close>) \<open>startNewView\<close> signs forever there, whatever the fuel.
\<close>

theorem last_view_diverges:
  assumes "h_view h = - 1"
  shows "startNewView_body C snv h = Inl Diverges"
proof -
  have "signUntilView C (- 1) fuel j g = Inl Diverges" if "getRData j = Inr r" for fuel j g r
    using that
  proof (induction fuel arbitrary: j g r)
    case (Suc fuel)
    obtain j1 g1 where c: "callTEEsign C g = (j1, g1)" by fastforce
    then have "\<exists>r1. getRData j1 = Inr r1" by (auto simp: callTEEsign_def tf_TEEsign_def tf_sign_def Let_def)
    with Suc c show ?case by auto
  qed simp
  moreover obtain j h1 where c: "callTEEsign C h = (j, h1)" by fastforce
  moreover from c have "\<exists>r. getRData j = Inr r" "h_view h1 = h_view h"
    by (auto simp: callTEEsign_def tf_TEEsign_def tf_sign_def Let_def)
  ultimately show ?thesis using assms by (auto simp: startNewView_body_def)
qed

theorem last_view_diverges_witness:
  "\<exists>h0. Handler_new crypto_yes 1 3 1 0 [] 5 10 (\<lambda>_. False) 0 = Inr h0 \<and>
     startNewView_body crypto_yes Inr (h0\<lparr>h_view := - 1\<rparr>) = Inl Diverges"
proof -
  obtain h0 where n: "Handler_new crypto_yes 1 3 1 0 [] 5 10 (\<lambda>_. False) 0 = Inr h0" using Handler_new_total by blast
  moreover have "startNewView_body crypto_yes Inr (h0\<lparr>h_view := - 1\<rparr>) = Inl Diverges"
    by (rule last_view_diverges) simp
  ultimately show ?thesis by blast
qed

lemma handleCommit_backup:
  assumes "handleCommit C snv msg h = Inr h'" and "\<not> amCurrentLeader h"
  shows "(\<exists>l. h' = h\<lparr>h_log := l\<rparr>) \<or>
    (propv (m_rdata msg) = h_view h \<and> phase (m_rdata msg) = PH1_COMMIT \<and> sg_size (m_signs msg) = h_qsize h \<and>
     signs_verify C (h_nodes h) (m_signs msg) (rdata_toString (m_rdata msg)) = Inr True \<and>
     executeRData C snv (m_rdata msg) h = Inr h')"
proof -
  have "\<exists>l. h = h\<lparr>h_log := l\<rparr>" by (rule exI [of _ "h_log h"]) simp
  with assms show ?thesis
    by (auto simp: handleCommit_def Let_def bindE_Inr_iff verifyJust_def Sverify_def split: if_splits)
qed

text \<open>
  C7. A backup executes only under a verified certificate: \<open>handleCommit\<close> on a node that is
  not the leader either leaves everything but the log as it is, or the message is for the
  current view and the commit phase, carries exactly \<open>qsize\<close> signatures, they verify, and
  the result is that of \<open>executeRData\<close>.
\<close>

theorem backup_executes_certified:
  assumes "handleCommit C snv msg h = Inr h'" and "\<not> amCurrentLeader h"
  shows "(\<exists>l. h' = h\<lparr>h_log := l\<rparr>) \<or>
    (propv (m_rdata msg) = h_view h \<and> phase (m_rdata msg) = PH1_COMMIT \<and> sg_size (m_signs msg) = h_qsize h \<and>
     signs_verify C (h_nodes h) (m_signs msg) (rdata_toString (m_rdata msg)) = Inr True \<and>
     executeRData C snv (m_rdata msg) h = Inr h')"
  by (rule handleCommit_backup [OF assms])

theorem backup_executes_certified_witness:
  "\<exists>h0 h'. Handler_new crypto_yes 1 3 0 1 demo_nodes 5 10 (\<lambda>_. False) 0 = Inr h0 \<and>
     handleCommit crypto_yes Inr demo_commit h0 = Inr h' \<and>
     signs_verify crypto_yes demo_nodes (m_signs demo_commit) (rdata_toString (m_rdata demo_commit)) = Inr True"
proof -
  obtain h0 where n: "Handler_new crypto_yes 1 3 0 1 demo_nodes 5 10 (\<lambda>_. False) 0 = Inr h0" using Handler_new_total by blast
  note f = Handler_new_facts [OF n]
  have more: "h_blocks h0 = []" "h_nodes h0 = demo_nodes" "outs h0 = []"
    using n by (auto simp: Handler_new_def Let_def bindE_Inr_iff)
  have v: "signs_verify crypto_yes demo_nodes (m_signs demo_commit) t = Inr True" for t
    by (simp add: signs_verify_yes demo_commit_def Sign_char_def demo_nodes_def addNode_def nodes_find_def)
  have notldr: "\<not> amCurrentLeader h0" by (simp add: f amCurrentLeader_def getCurrentLeader_def getLeaderOf_def)
  obtain h' where "handleCommit crypto_yes Inr demo_commit h0 = Inr h'" "outs h' = [RecordStats]"
    using notldr v [of "rdata_toString (m_rdata demo_commit)"]
    by (simp add: handleCommit_def Let_def demo_commit_def f more verifyJust_def Sverify_def executeRData_def replyHash_def timeToStop_def)
  moreover from backup_executes_certified [OF this(1) notldr] more \<open>outs h' = _\<close>
  have "signs_verify crypto_yes demo_nodes (m_signs demo_commit) (rdata_toString (m_rdata demo_commit)) = Inr True" by auto
  ultimately show ?thesis using n by blast
qed

text \<open>
  The leader executes on unverified votes. When a commit message for the current view
  brings the count in the leader's log to \<open>qsize\<close>, \<open>handleCommit\<close> forwards the collected
  signatures and executes, for every cryptographic library: no signature has been checked
  on this path.
\<close>

theorem leader_executes_unverified:
  assumes "amCurrentLeader h" and "propv (m_rdata msg) = h_view h" and "phase (m_rdata msg) = PH1_COMMIT"
    and "storeCom msg (h_log h) = Inr (l, h_qsize h)" and "getCommit (h_view h) (h_qsize h) l = Inr s"
    and "sg_size s = h_qsize h"
  shows "handleCommit C snv msg h =
    executeRData C snv (m_rdata msg)
      (sendMsg (Net_Commit (Msg_new (m_rdata msg) s)) (remove_from_peers h (h_myid h)) (h\<lparr>h_log := l\<rparr>))"
  using assms by (simp add: handleCommit_def initiateCommit_def remove_from_peers_def Let_def)

theorem leader_executes_unverified_witness:
  "\<exists>h0 l s. Handler_new crypto_no 0 3 0 1 [] 5 10 (\<lambda>_. False) 0 = Inr h0 \<and>
     signs_verify crypto_no [] (m_signs demo_commit) (rdata_toString (m_rdata demo_commit)) = Inr False \<and>
     handleCommit crypto_no Inr demo_commit h0 =
       executeRData crypto_no Inr (m_rdata demo_commit)
         (sendMsg (Net_Commit (Msg_new (m_rdata demo_commit) s)) (remove_from_peers h0 (h_myid h0)) (h0\<lparr>h_log := l\<rparr>))"
proof -
  obtain h0 where n: "Handler_new crypto_no 0 3 0 1 [] 5 10 (\<lambda>_. False) 0 = Inr h0" using Handler_new_total by blast
  note f = Handler_new_facts [OF n]
  have g: "msg_good m_signs demo_commit" by (simp add: msg_good_def demo_commit_def)
  have v: "signs_verify crypto_no [] (m_signs demo_commit) (rdata_toString (m_rdata demo_commit)) = Inr False"
    by (simp add: signs_verify_eq demo_commit_def sig_valid_def nodes_find_def)
  obtain S where S: "getSigners (m_signs demo_commit) = Inr S" using getSigners_ok g by (auto simp: msg_good_def)
  let ?l = "Log_empty\<lparr>commits := [(0, [demo_commit])]\<rparr>"
  have st: "storeCom demo_commit (h_log h0) = Inr (?l, h_qsize h0)"
    by (simp add: storeCom_def S f store_new_def) (simp add: demo_commit_def Log_empty_def)
  have "\<exists>s'. getCommit 0 1 ?l = Inr s' \<and> signs_ok s' \<and> sig_list s' = [Sign_char 1 65]"
    using collect_at_ok [of "Some [demo_commit]" m_signs 1] g
    by (auto simp: getCommit_def MAX_NUM_SIGNATURES_def msg_good_def) (simp add: demo_commit_def)
  then obtain s where s: "getCommit 0 1 ?l = Inr s" "sg_size s = 1"
    using sig_list_single by blast
  have "handleCommit crypto_no Inr demo_commit h0 =
       executeRData crypto_no Inr (m_rdata demo_commit)
         (sendMsg (Net_Commit (Msg_new (m_rdata demo_commit) s)) (remove_from_peers h0 (h_myid h0)) (h0\<lparr>h_log := ?l\<rparr>))"
    by (rule leader_executes_unverified [OF _ _ _ st])
       (simp_all add: f s amCurrentLeader_def getCurrentLeader_def getLeaderOf_def, simp_all add: demo_commit_def)
  with n v show ?thesis by blast
qed

text \<open>
  C38. A backup gives up its lock on an unsigned proposal. Take a backup whose component is in the
  node's view, with any lock, and a proposal without any signature, neither of its sender nor in its
  new-view justification, which claims a \<open>justv\<close> later than the locked view and any \<open>justh\<close>
  that its block extends. Whatever the cryptographic library answers, the backup signs a prepare
  vote for that block and sends it to the leader: \<open>Signs::verify\<close> holds of the empty
  array, and nothing asks for a quorum (or for one signer) behind the claim. So the lock does not
  protect a block that other replicas have executed.
\<close>

theorem unsigned_proposal_unlocks:
  assumes "pr_just (l_prop msg) = Just_signs (RData_new x (h_view h) hh w PH1_NEWVIEW) Signs_empty"
    and "l_signs msg = Signs_empty" and "pr_block (l_prop msg) = b"
    and "tf_view (h_tf h) = h_view h" and "tf_lockv (h_tf h) < w"
    and "block_extends b hh" and "block_hash C b = Inr bh"
  shows "\<exists>vote h'. handleLdrPrepare C msg h = Inr h' \<and>
    outs h' = outs h @ [Multicast (Net_Prepare vote) (getPeerids (keep_from_peers h (getCurrentLeader h)))] \<and>
    m_rdata vote = RData_new bh (h_view h) hh w (tf_phase (h_tf h)) \<and>
    m_signs vote = Signs_one (Sign_make C (tf_priv (h_tf h)) (tf_id (h_tf h)) (rdata_toString (m_rdata vote)))"
  using assms
  by (simp add: handleLdrPrepare_def Let_def verifyJust_def Sverify_def signs_verify_empty respondToProposal_def
      callTEEprepare_def tf_TEEprepare_def tf_TEEverify_def tf_safeNode_def tf_sign_def getCurrentLeader_def getLeaderOf_def
      keep_from_peers_def Msg_new_def getRData_def Just_signs_def)

text \<open>A library that accepts no signature, and a component locked in view 0.\<close>

theorem unsigned_proposal_unlocks_witness:
  "\<exists>h0 msg h'. Handler_new crypto_no 2 3 1 4 [] 5 10 (\<lambda>_. False) 0 = Inr h0 \<and>
     tf_lockh (h_tf h0) \<noteq> b_prevHash (pr_block (l_prop msg)) \<and>
     handleLdrPrepare crypto_no msg h0 = Inr h' \<and> outs h' \<noteq> outs h0"
proof -
  obtain h0 where n: "Handler_new crypto_no 2 3 1 4 [] 5 10 (\<lambda>_. False) 0 = Inr h0" using Handler_new_total by blast
  note f = Handler_new_facts [OF n]
  let ?h = "\<lparr>hbytes = replicate SHA256_DIGEST_LENGTH 9, hset = True\<rparr>"
  let ?b = "Block_new ?h 0 (replicate MAX_NUM_TRANSACTIONS Transaction_dummy)"
  let ?msg = "LdrMsg_new (Proposal_new (Just_signs (RData_new Hash_default (h_view h0) ?h 7 PH1_NEWVIEW) Signs_empty) ?b) Signs_empty"
  obtain bh where bh: "block_hash crypto_no ?b = Inr bh"
    by (simp add: block_hash_def block_toString_def block_transactions2string_def Block_new_def arr_prefix_def)
  from unsigned_proposal_unlocks [of ?msg Hash_default h0 ?h 7 ?b crypto_no bh] bh
  obtain h' where "handleLdrPrepare crypto_no ?msg h0 = Inr h'" "outs h' \<noteq> outs h0"
    by (auto simp: LdrMsg_new_def Proposal_new_def f TrustedFun_new_def block_extends_def Block_new_def hash_eq_iff)
  moreover have "tf_lockh (h_tf h0) \<noteq> ?h" by (simp add: f TrustedFun_new_def Hash_zero_def SHA256_DIGEST_LENGTH_def)
  ultimately show ?thesis
    using n by (intro exI [of _ h0] exI [of _ ?msg] exI [of _ h']) (simp add: LdrMsg_new_def Proposal_new_def Block_new_def)
qed

text \<open>
  Replies. Executing a block of the node's view whose hash is the committed one
  queues, in order, one reply for each of its transactions that is not a dummy and comes
  from a known client, and changes nothing else; a block with another hash, or none,
  queues nothing.
\<close>

theorem replyHash_correct:
  assumes "block_hash C b = Inr bh" and "map_find (h_blocks h) (h_view h) = Some b" and "block_ok b"
  shows "replyHash C hash h =
    Inr (if hash_eq bh hash
         then h\<lparr>h_rep_queue := h_rep_queue h @
                map (\<lambda>t. (transid t, clientid t))
                  (filter (\<lambda>t. transid t \<noteq> 0 \<and> map_find (h_clients h) (clientid t) \<noteq> None) (b_transactions b))\<rparr>
         else h)"
proof -
  have "concat (map (reply_entry cs) ts) =
      map (\<lambda>t. (transid t, clientid t)) (filter (\<lambda>t. transid t \<noteq> 0 \<and> map_find cs (clientid t) \<noteq> None) ts)" for cs ts
    by (induction ts) (auto simp: reply_entry_def split: option.splits)
  then show ?thesis
    using assms by (simp add: replyHash_def replyTransactions_def block_ok_def)
qed

theorem replyHash_correct_witness:
  "\<exists>h0 bh. Handler_new crypto_yes 1 3 1 4 [] 5 10 (\<lambda>_. False) 0 = Inr h0 \<and> block_hash crypto_yes Block_genesis = Inr bh \<and>
     replyHash crypto_yes bh (h0\<lparr>h_blocks := [(0, Block_genesis)]\<rparr>) =
     Inr (h0\<lparr>h_blocks := [(0, Block_genesis)], h_rep_queue := h_rep_queue h0\<rparr>)"
proof -
  obtain h0 where n: "Handler_new crypto_yes 1 3 1 4 [] 5 10 (\<lambda>_. False) 0 = Inr h0" using Handler_new_total by blast
  have "unat (b_size Block_genesis) \<le> length (b_transactions Block_genesis)"
    using block_ok_constructors(2) by (simp add: block_ok_def)
  then obtain bh where b: "block_hash crypto_yes Block_genesis = Inr bh" using block_hash_Inr_iff by blast
  have "filter (\<lambda>t. transid t \<noteq> 0 \<and> P t) (b_transactions Block_genesis) = []" for P
    by (simp add: Block_genesis_def Block_flag_def Transaction_dummy_def filter_empty_conv)
  with replyHash_correct [OF b, of "h0\<lparr>h_blocks := [(0, Block_genesis)]\<rparr>" bh] n b show ?thesis
    by (simp add: Handler_new_facts [OF n])
qed

text \<open>
  No transaction is lost, repeated or reordered when a block is made: the first \<open>size\<close>
  entries of the block followed by the transactions that stay pending are the pending
  transactions before, the rest of the block is dummies, and the block is well-formed (its
  hash exists).
\<close>

theorem createNewBlock_correct:
  "createNewBlock hash h = (b, h') \<Longrightarrow>
   take (unat (b_size b)) (b_transactions b) @ h_transactions h' = h_transactions h \<and>
   (\<forall>t\<in>set (drop (unat (b_size b)) (b_transactions b)). t = Transaction_dummy) \<and>
   block_ok b \<and> b_prevHash b = hash \<and> h' = h\<lparr>h_transactions := h_transactions h'\<rparr>"
proof -
  assume b: "createNewBlock hash h = (b, h')"
  let ?ts = "take MAX_NUM_TRANSACTIONS (h_transactions h)"
  have "length ?ts < 2 ^ 32" by (simp add: MAX_NUM_TRANSACTIONS_def)
  then have "unat (word_of_nat (length ?ts) :: u32) = length ?ts" by (rule unat_of_nat_u32)
  with b show ?thesis
    by (auto simp: createNewBlock_def fill_block_def Let_def Block_new_def block_ok_def MAX_NUM_TRANSACTIONS_def take_min_length)
qed

theorem createNewBlock_correct_witness:
  "\<exists>h0 b h'. Handler_new crypto_yes 1 3 1 4 [] 5 10 (\<lambda>_. False) 0 = Inr h0 \<and>
     createNewBlock Hash_default (h0\<lparr>h_transactions := [Transaction_new 7 1]\<rparr>) = (b, h') \<and> block_ok b \<and>
     take (unat (b_size b)) (b_transactions b) @ h_transactions h' = [Transaction_new 7 1]"
proof -
  obtain h0 where n: "Handler_new crypto_yes 1 3 1 4 [] 5 10 (\<lambda>_. False) 0 = Inr h0" using Handler_new_total by blast
  obtain b h' where "createNewBlock Hash_default (h0\<lparr>h_transactions := [Transaction_new 7 1]\<rparr>) = (b, h')" by fastforce
  from createNewBlock_correct [OF this] this n show ?thesis by auto
qed

end
