(* ===== verification/ChainedHotStuff.thy ===== *)
theory ChainedHotStuff
  imports HandlerState
begin

text \<open>
  The chained protocol of \<open>App/Handler.cpp\<close> (\<open>CHAINED_BASELINE\<close>): votes, execution of a
  chain of blocks, new justifications, the view change and the message handlers.

  The recursion goes through \<open>voteCh\<close>: it moves the node to the next view and then handles
  earlier messages or prepares, which votes again. The functions take the inner call as the
  parameter \<open>vote\<close>; \<open>voteCh\<close> ties the knot on a fuel that counts views.
\<close>

section \<open>Execution\<close>

text \<open>
  The loop of \<open>tryExecuteCh\<close>: from view \<open>view2\<close> down the justifications, collecting the
  blocks that are not executed, until the genesis block or an executed one; a missing
  block empties the list. The hashes are computed but not compared (the test is
  \<open>if (true)\<close>). Fuel: one step per stored block.
\<close>

primrec collectChain :: "crypto \<Rightarrow> (View, JBlock) stdmap \<Rightarrow> nat \<Rightarrow> View \<Rightarrow> JBlock list \<Rightarrow> JBlock list res" where
  "collectChain C jbs 0 view2 blocksToExec = Inl Diverges"
| "collectChain C jbs (Suc fuel) view2 blocksToExec =
     (case map_find jbs view2 of
        Some block2 \<Rightarrow>
          if \<not> jb_executed block2 then
            bindE (jblock_hash C block2) (\<lambda>hash2.
              let blocksToExec = block2 # blocksToExec in
              if view2 = 0 then Inr blocksToExec
              else collectChain C jbs fuel (getCView (jb_just block2)) blocksToExec)
          else Inr blocksToExec
      | None \<Rightarrow> Inr [])"

fun executeBlocksCh :: "JBlock list \<Rightarrow> Handler \<Rightarrow> Handler res" where
  "executeBlocksCh [] h = Inr h"
| "executeBlocksCh (b # bs) h =
     (let block2 = markExecuted b;
          h = h\<lparr>h_jblocks := map_set (jb_view b) block2 (h_jblocks h),
                h_viewsWithoutNewTrans := h_viewsWithoutNewTrans h + 1\<rparr>
      in bindE (replyTransactions (jb_transactions block2) h) (executeBlocksCh bs))"

definition tryExecuteCh :: "crypto \<Rightarrow> JBlock \<Rightarrow> JBlock \<Rightarrow> JBlock \<Rightarrow> Handler \<Rightarrow> Handler res" where
  "tryExecuteCh C block block0 block1 h =
     (if jb_view block0 \<noteq> 0 then
        bindE (collectChain C (h_jblocks h) (Suc (length (h_jblocks h))) (getCView (jb_just block1)) []) (\<lambda>bs.
        bindE (executeBlocksCh bs h) (\<lambda>h.
          Inr (if timeToStop h then recordStats h else h)))
      else Inr h)"

section \<open>Votes\<close>

definition prepareCh :: "(JBlock \<Rightarrow> Handler \<Rightarrow> Handler res) \<Rightarrow> Handler \<Rightarrow> Handler res" where
  "prepareCh vote h =
     bindE (if \<not> j_set (h_justNV h) then Inr True
            else bindE (getRData (h_justNV h)) (\<lambda>r. Inr (propv r \<noteq> h_view h - 1))) (\<lambda>fresh.
       let h = (if fresh then h\<lparr>h_justNV := findHighestNvCh (h_view h - 1) (h_log h)\<rparr> else h);
           (block, h) = createNewBlockCh h
       in vote block h)"

definition checkNewJustCh :: "(JBlock \<Rightarrow> Handler \<Rightarrow> Handler res) \<Rightarrow> RData \<Rightarrow> Handler \<Rightarrow> Handler res" where
  "checkNewJustCh vote data h =
     bindE (getPrepareCh (propv data) (h_qsize h) (h_log h)) (\<lambda>signs.
       if sg_size signs = h_qsize h
       then prepareCh vote (setTimer (h\<lparr>h_justNV := Just_signs data signs, h_view := h_view h + 1\<rparr>))
       else Inr h)"

definition handleEarlierMessagesCh :: "(JBlock \<Rightarrow> Handler \<Rightarrow> Handler res) \<Rightarrow> Handler \<Rightarrow> Handler res" where
  "handleEarlierMessagesCh vote h =
     (if amCurrentLeader h then Inr h
      else
        (let msg = firstLdrPrepareCh (h_view h) (h_log h) in
         if s_set (lc_sign msg) \<and> map_find (h_jblocks h) (h_view h) = None
         then vote (lc_block msg) h else Inr h))"

text \<open>The vote itself, when both predecessors are known.\<close>

definition castVoteCh :: "crypto \<Rightarrow> (JBlock \<Rightarrow> Handler \<Rightarrow> Handler res) \<Rightarrow> JBlock \<Rightarrow> JBlock \<Rightarrow> JBlock \<Rightarrow> Handler \<Rightarrow> Handler res" where
  "castVoteCh C vote block block0 block1 h =
     bindE (callTEEprepareCh C block block0 block1 h) (\<lambda>(justPrep, h).
       let (justNv2, h) = callTEEsignCh C h in
       if sg_size (j_signs justPrep) = 1 then
         bindE (signs_get (j_signs justPrep) 0) (\<lambda>sigPrep.
         bindE (getRData justPrep) (\<lambda>rPrep.
           let recipientsNL = keep_from_peers h (getLeaderOf h (h_view h + 1)) in
           bindE (if amLeaderOf h (h_view h) then
                    Inr (sendMsg (Net_LdrPrepareCh \<lparr>lc_block = block, lc_sign = sigPrep\<rparr>)
                           (remove_from_peers h (h_myid h)) h)
                  else
                    (let msgPrep = \<lparr>c_data = rPrep, c_sign = sigPrep\<rparr> in
                     if amLeaderOf h (h_view h + 1)
                     then bindE (storePrepCh msgPrep (h_log h)) (\<lambda>(l, n). Inr (h\<lparr>h_log := l\<rparr>))
                     else Inr (sendMsg (Net_PrepareCh msgPrep) recipientsNL h))) (\<lambda>h.
           if sg_size (j_signs justNv2) = 1 then
             bindE (signs_get (j_signs justNv2) 0) (\<lambda>sigNv.
             bindE (getRData justNv2) (\<lambda>rNv.
               let msgNv = \<lparr>c_data = rNv, c_sign = sigNv\<rparr> in
               bindE (if amLeaderOf h (h_view h + 1)
                      then bindE (storeNvCh msgNv (h_log h)) (\<lambda>(l, n). Inr (h\<lparr>h_log := l\<rparr>))
                      else Inr (sendMsg (Net_NewViewCh msgNv) recipientsNL h)) (\<lambda>h.
               bindE (tryExecuteCh C block block0 block1 h) (\<lambda>h.
                 if amLeaderOf h (h_view h + 1) then checkNewJustCh vote rPrep h
                 else handleEarlierMessagesCh vote (setTimer (h\<lparr>h_view := h_view h + 1\<rparr>))))))
           else Inr h)))
       else Inr h)"

definition voteCh_body :: "crypto \<Rightarrow> (JBlock \<Rightarrow> Handler \<Rightarrow> Handler res) \<Rightarrow> JBlock \<Rightarrow> Handler \<Rightarrow> Handler res" where
  "voteCh_body C vote block h =
     (let h = h\<lparr>h_jblocks := map_set (h_view h) block (h_jblocks h)\<rparr>;
          view0 = getCView (jb_just block)
      in case map_find (h_jblocks h) view0 of
           Some block0 \<Rightarrow>
             (let view1 = getCView (jb_just block0) in
              case map_find (h_jblocks h) view1 of
                Some block1 \<Rightarrow> castVoteCh C vote block block0 block1 h
              | None \<Rightarrow> Inr h)
         | None \<Rightarrow> Inr h)"

primrec voteCh_fuel :: "crypto \<Rightarrow> nat \<Rightarrow> JBlock \<Rightarrow> Handler \<Rightarrow> Handler res" where
  "voteCh_fuel C 0 block h = Inl Diverges"
| "voteCh_fuel C (Suc fuel) block h = voteCh_body C (voteCh_fuel C fuel) block h"

definition voteCh :: "crypto \<Rightarrow> JBlock \<Rightarrow> Handler \<Rightarrow> Handler res" where
  "voteCh C block h = voteCh_fuel C (2 ^ 32) block h"

section \<open>The view change\<close>

primrec signUntilNewView :: "crypto \<Rightarrow> View \<Rightarrow> nat \<Rightarrow> Just \<Rightarrow> Handler \<Rightarrow> (Just \<times> Handler) res" where
  "signUntilNewView C v 0 justNv h = Inl Diverges"
| "signUntilNewView C v (Suc fuel) justNv h =
     bindE (getRData justNv) (\<lambda>r.
       if propv r < v \<or> phase r \<noteq> PH1_NEWVIEW
       then (let (justNv, h) = callTEEsignCh C h in signUntilNewView C v fuel justNv h)
       else Inr (justNv, h))"

definition startNewViewCh :: "crypto \<Rightarrow> Handler \<Rightarrow> Handler res" where
  "startNewViewCh C h =
     (let (justNv, h) = callTEEsignCh C h in
      bindE (signUntilNewView C (h_view h) (2 * (unat (h_view h) + 3)) justNv h) (\<lambda>(justNv, h).
        if sg_size (j_signs justNv) = 1 then
          (let recipientsNL = keep_from_peers h (getLeaderOf h (h_view h + 1)) in
           bindE (signs_get (j_signs justNv) 0) (\<lambda>sigNv.
           bindE (getRData justNv) (\<lambda>r.
             let msgNv = \<lparr>c_data = r, c_sign = sigNv\<rparr> in
             bindE (if amLeaderOf h (h_view h + 1)
                    then bindE (storeNvCh msgNv (h_log h)) (\<lambda>(l, n). Inr (h\<lparr>h_log := l\<rparr>))
                    else Inr (sendMsg (Net_NewViewCh msgNv) recipientsNL h)) (\<lambda>h.
               let h = setTimer (h\<lparr>h_view := h_view h + 1\<rparr>) in
               if \<not> amLeaderOf h (h_view h) then handleEarlierMessagesCh (voteCh C) h else Inr h))))
        else Inr h))"

section \<open>The message handlers\<close>

definition ldrPrepareCh2just :: "crypto \<Rightarrow> MsgLdrPrepareCh \<Rightarrow> Just res" where
  "ldrPrepareCh2just C msg =
     bindE (jblock_hash C (lc_block msg)) (\<lambda>bh.
       Inr (Just_signs (RData_new bh (jb_view (lc_block msg)) Hash_default 0 PH1_PREPARE) (Signs_one (lc_sign msg))))"

text \<open>A message that does not start the view is stored (a second time when the count was taken).\<close>

definition handleNewviewCh :: "crypto \<Rightarrow> MsgNewViewCh \<Rightarrow> Handler \<Rightarrow> Handler res" where
  "handleNewviewCh C msg h =
     (if maxViewsReached h then Inr h
      else
        (let hashP = proph (c_data msg); viewP = propv (c_data msg); ph = phase (c_data msg);
             keep = (\<lambda>h. bindE (storeNvCh msg (h_log h)) (\<lambda>(l, n). Inr (h\<lparr>h_log := l\<rparr>)))
         in if hash_isDummy hashP \<and> viewP + 1 \<ge> h_view h \<and> ph = PH1_NEWVIEW \<and> amLeaderOf h (viewP + 1) then
              (if viewP + 1 = h_view h then
                 bindE (storeNvCh msg (h_log h)) (\<lambda>(l, n).
                   let h = h\<lparr>h_log := l\<rparr> in
                   if n \<ge> h_qsize h \<and> map_find (h_jblocks h) (h_view h) = None
                   then prepareCh (voteCh C) h else keep h)
               else keep h)
            else Inr h))"

definition handleLdrPrepareCh :: "crypto \<Rightarrow> MsgLdrPrepareCh \<Rightarrow> Handler \<Rightarrow> Handler res" where
  "handleLdrPrepareCh C msg h =
     (if maxViewsReached h then Inr h
      else
        (let block = lc_block msg; v = jb_view block in
         bindE (ldrPrepareCh2just C msg) (\<lambda>just.
         if v \<ge> h_view h \<and> \<not> amLeaderOf h v then
           bindE (verifyJust C h just) (\<lambda>b.
             if b then
               bindE (if amLeaderOf h (v + 1) then
                        bindE (getRData just) (\<lambda>r. bindE (signs_get (j_signs just) 0) (\<lambda>s.
                          bindE (storePrepCh \<lparr>c_data = r, c_sign = s\<rparr> (h_log h)) (\<lambda>(l, n). Inr (h\<lparr>h_log := l\<rparr>))))
                      else Inr h) (\<lambda>h.
               if v = h_view h then voteCh C block h
               else bindE (storeLdrPrepCh msg (h_log h)) (\<lambda>(l, n).
                      handleEarlierMessagesCh (voteCh C) (h\<lparr>h_log := l\<rparr>)))
             else Inr h)
         else Inr h)))"

definition handlePrepareCh :: "crypto \<Rightarrow> MsgPrepareCh \<Rightarrow> Handler \<Rightarrow> Handler res" where
  "handlePrepareCh C msg h =
     (if maxViewsReached h then Inr h
      else
        (let data = c_data msg; v = propv data in
         if v = h_view h then
           (if amLeaderOf h (v + 1) then
              bindE (storePrepCh msg (h_log h)) (\<lambda>(l, n).
                let h = h\<lparr>h_log := l\<rparr> in
                if n \<ge> h_qsize h \<and> map_find (h_jblocks h) (h_view h) \<noteq> None
                then checkNewJustCh (voteCh C) data h else Inr h)
            else Inr h)
         else if v > h_view h then bindE (storePrepCh msg (h_log h)) (\<lambda>(l, n). Inr (h\<lparr>h_log := l\<rparr>))
         else Inr h))"

definition handle_newview_ch :: "crypto \<Rightarrow> MsgNewViewCh \<Rightarrow> Handler \<Rightarrow> Handler res" where
  "handle_newview_ch C msg h = (if \<not> h_isPaused h then handleNewviewCh C msg h else Inr h)"

definition handle_ldrprepare_ch :: "crypto \<Rightarrow> MsgLdrPrepareCh \<Rightarrow> Handler \<Rightarrow> Handler res" where
  "handle_ldrprepare_ch C msg h = (if \<not> h_isPaused h then handleLdrPrepareCh C msg h else Inr h)"

definition handle_prepare_ch :: "crypto \<Rightarrow> MsgPrepareCh \<Rightarrow> Handler \<Rightarrow> Handler res" where
  "handle_prepare_ch C msg h = (if \<not> h_isPaused h then handlePrepareCh C msg h else Inr h)"

text \<open>\<open>getStarted\<close>: view 0 holds the genesis block, the node starts in view 1.\<close>

definition getStartedCh :: "crypto \<Rightarrow> Handler \<Rightarrow> Handler res" where
  "getStartedCh C h =
     (let nextRecipients = keep_from_peers h (getLeaderOf h (h_view h + 1)); (j, h) = callTEEsignCh C h in
      bindE (getRData j) (\<lambda>r. bindE (signs_get (j_signs j) 0) (\<lambda>s.
        let msg = \<lparr>c_data = r, c_sign = s\<rparr>;
            h = h\<lparr>h_view := 1, h_jblocks := map_set 0 JBlock_genesis (h_jblocks h)\<rparr>
        in if amCurrentLeader h then handleNewviewCh C msg h
           else handleEarlierMessagesCh (voteCh C) (sendMsg (Net_NewViewCh msg) nextRecipients h))))"

datatype chained_event =
    C_newview MsgNewViewCh | C_ldrprepare MsgLdrPrepareCh | C_prepare MsgPrepareCh
  | C_transaction MsgTransaction | C_timer | C_signal int | C_replies

fun chained_step :: "crypto \<Rightarrow> (conn \<Rightarrow> bool) \<Rightarrow> chained_event \<Rightarrow> Handler \<Rightarrow> Handler res" where
  "chained_step C send_ok (C_newview m) h = handle_newview_ch C m h"
| "chained_step C send_ok (C_ldrprepare m) h = handle_ldrprepare_ch C m h"
| "chained_step C send_ok (C_prepare m) h = handle_prepare_ch C m h"
| "chained_step C send_ok (C_transaction m) h = Inr (handle_transaction m h)"
| "chained_step C send_ok C_timer h = on_timer (startNewViewCh C) h"
| "chained_step C send_ok (C_signal s) h = Inr (signalHandler s h)"
| "chained_step C send_ok C_replies h = Inr (process_rep_queue send_ok h)"

end
