(* ===== verification/ChainedProps.thy ===== *)
theory ChainedProps
  imports ChainedHotStuff BasicProps
begin

text \<open>
  What the chained protocol guarantees: which blocks \<open>tryExecuteCh\<close> executes and that it
  ends on a chain whose justifications go down in views; that it never ends on a stored
  block that certifies its own view, and how a vote reaches such a block; that the view
  change always finds a new-view statement.
\<close>

section \<open>Collecting the chain\<close>

text \<open>
  The blocks below \<open>v\<close> that wait for execution, oldest first: the path along the
  justifications down to an executed block or the genesis block, both stored.
\<close>

inductive pending :: "(View, JBlock) stdmap \<Rightarrow> View \<Rightarrow> JBlock list \<Rightarrow> bool" for jbs where
  executed: "map_find jbs v = Some b \<Longrightarrow> jb_executed b \<Longrightarrow> pending jbs v []"
| genesis: "map_find jbs 0 = Some b \<Longrightarrow> \<not> jb_executed b \<Longrightarrow> pending jbs 0 [b]"
| certified: "map_find jbs v = Some b \<Longrightarrow> \<not> jb_executed b \<Longrightarrow> v \<noteq> 0 \<Longrightarrow>
    pending jbs (getCView (jb_just b)) bs \<Longrightarrow> pending jbs v (bs @ [b])"

text \<open>The blocks on the path along the justifications from \<open>w\<close> down to \<open>v\<close>, which comes first, without \<open>v\<close>'s.\<close>

inductive leads_to :: "(View, JBlock) stdmap \<Rightarrow> View \<Rightarrow> View \<Rightarrow> JBlock list \<Rightarrow> bool" for jbs v where
  here: "leads_to jbs v v []"
| certified: "map_find jbs w = Some b \<Longrightarrow> \<not> jb_executed b \<Longrightarrow> w \<noteq> 0 \<Longrightarrow>
    leads_to jbs v (getCView (jb_just b)) bs \<Longrightarrow> leads_to jbs v w (bs @ [b])"

lemma leads_to_pending: "leads_to jbs v w bs \<Longrightarrow> map_find jbs v = Some b \<Longrightarrow> jb_executed b \<Longrightarrow> pending jbs w bs"
  by (induction rule: leads_to.induct) (auto intro: pending.intros)

lemma pending_blocks: "pending jbs v bs \<Longrightarrow> b \<in> set bs \<Longrightarrow> \<not> jb_executed b \<and> (\<exists>k. map_find jbs k = Some b)"
  by (induction rule: pending.induct) auto

lemma pending_certified:
  "pending jbs v bs \<Longrightarrow> map_find jbs v = Some b \<Longrightarrow> \<not> jb_executed b \<Longrightarrow> v \<noteq> 0 \<Longrightarrow>
   \<exists>bs1. bs = bs1 @ [b] \<and> pending jbs (getCView (jb_just b)) bs1"
  by (cases rule: pending.cases) auto

lemma pending_unique: "pending jbs v bs \<Longrightarrow> pending jbs v bs' \<Longrightarrow> bs' = bs"
proof (induction arbitrary: bs' rule: pending.induct)
  case (executed v b)
  from executed(3,1,2) show ?case by (cases rule: pending.cases) auto
next
  case (genesis b)
  from genesis(3,1,2) show ?case by (cases rule: pending.cases) auto
next
  case (certified v b bs)
  from certified(6,1-3) obtain bs1 where "bs' = bs1 @ [b]" "pending jbs (getCView (jb_just b)) bs1"
    using pending_certified by blast
  with certified.IH show ?case by simp
qed

lemma collectChain_spec:
  "collectChain C jbs fuel v acc = Inr r \<Longrightarrow>
   (\<exists>bs. pending jbs v bs \<and> r = bs @ acc) \<or> (\<not> (\<exists>bs. pending jbs v bs)) \<and> r = []"
proof (induction fuel arbitrary: v acc)
  case (Suc fuel)
  show ?case
  proof (cases "map_find jbs v")
    case None
    then have "\<not> pending jbs v bs" for bs by (auto elim: pending.cases)
    with None Suc.prems show ?thesis by simp
  next
    case (Some b)
    show ?thesis
    proof (cases "jb_executed b")
      case True
      with Some Suc.prems show ?thesis by (auto intro: pending.executed)
    next
      case False
      show ?thesis
      proof (cases "v = 0")
        case True
        with Some False Suc.prems show ?thesis by (auto simp: bindE_Inr_iff intro: pending.genesis)
      next
        case v: False
        with Some False Suc.prems have "collectChain C jbs fuel (getCView (jb_just b)) (b # acc) = Inr r"
          by (auto simp: bindE_Inr_iff)
        from Suc.IH [OF this] show ?thesis
        proof (elim disjE exE conjE)
          fix bs assume "pending jbs (getCView (jb_just b)) bs" "r = bs @ b # acc"
          with Some False v show ?thesis by (auto intro: pending.certified)
        next
          assume no: "\<not> (\<exists>bs. pending jbs (getCView (jb_just b)) bs)" and "r = []"
          with Some False v show ?thesis using pending_certified by blast
        qed
      qed
    qed
  qed
qed simp

text \<open>The views of the stored blocks that are not executed go down along the justifications.\<close>

definition descending :: "(View, JBlock) stdmap \<Rightarrow> bool" where
  "descending jbs \<longleftrightarrow> (\<forall>(v, b) \<in> set jbs. \<not> jb_executed b \<longrightarrow> v \<noteq> 0 \<longrightarrow> getCView (jb_just b) < v)"

lemma collectChain_ends:
  assumes "descending jbs"
  shows "card {k \<in> fst ` set jbs. k \<le> v} < fuel \<Longrightarrow> collectChain C jbs fuel v acc \<noteq> Inl Diverges"
proof (induction fuel arbitrary: v acc)
  case (Suc fuel)
  show ?case
  proof (cases "\<exists>b. map_find jbs v = Some b \<and> \<not> jb_executed b \<and> v \<noteq> 0")
    case True
    then obtain b where b: "map_find jbs v = Some b" "\<not> jb_executed b" "v \<noteq> 0" by blast
    then have "(v, b) \<in> set jbs" by (simp add: map_find_in_set)
    with assms b have less: "getCView (jb_just b) < v" by (auto simp: descending_def)
    have "{k \<in> fst ` set jbs. k \<le> getCView (jb_just b)} \<subset> {k \<in> fst ` set jbs. k \<le> v}"
    proof (rule psubsetI)
      have "v \<in> {k \<in> fst ` set jbs. k \<le> v}" using \<open>(v, b) \<in> set jbs\<close> by force
      then show "{k \<in> fst ` set jbs. k \<le> getCView (jb_just b)} \<noteq> {k \<in> fst ` set jbs. k \<le> v}"
        using less by (metis (mono_tags, lifting) mem_Collect_eq not_le)
    qed (use less in auto)
    then have "card {k \<in> fst ` set jbs. k \<le> getCView (jb_just b)} < card {k \<in> fst ` set jbs. k \<le> v}"
      by (rule psubset_card_mono [rotated]) simp
    with Suc.prems have "card {k \<in> fst ` set jbs. k \<le> getCView (jb_just b)} < fuel" by simp
    from Suc.IH [OF this] b show ?thesis by (simp add: bindE_Inl_iff)
  next
    case False
    then show ?thesis by (auto simp: bindE_Inl_iff split: option.split)
  qed
qed simp

lemma collectChain_fuel:
  assumes "descending jbs"
  shows "collectChain C jbs (Suc (length jbs)) v acc \<noteq> Inl Diverges"
proof (rule collectChain_ends [OF assms])
  have "card {k \<in> fst ` set jbs. k \<le> v} \<le> card (fst ` set jbs)" by (rule card_mono) auto
  also have "\<dots> \<le> length jbs" by (rule order.trans [OF card_image_le card_length]) simp
  finally show "card {k \<in> fst ` set jbs. k \<le> v} < Suc (length jbs)" by simp
qed

section \<open>Executing\<close>

text \<open>Every stored block is filed under its own view.\<close>

definition filed :: "(View, JBlock) stdmap \<Rightarrow> bool" where
  "filed jbs \<longleftrightarrow> (\<forall>k b. map_find jbs k = Some b \<longrightarrow> jb_view b = k)"

lemma executeBlocksCh_effect:
  "executeBlocksCh bs h = Inr h' \<Longrightarrow>
   h_rep_queue h' = h_rep_queue h @
     concat (map (\<lambda>b. concat (map (reply_entry (h_clients h)) (take MAX_NUM_TRANSACTIONS (jb_transactions b)))) bs) \<and>
   h_viewsWithoutNewTrans h' = h_viewsWithoutNewTrans h + word_of_nat (length bs) \<and>
   h_jblocks h' = fold (\<lambda>b. map_set (jb_view b) (markExecuted b)) bs (h_jblocks h) \<and>
   h_view h' = h_view h \<and> h_log h' = h_log h \<and> h_tp h' = h_tp h \<and> outs h' = outs h \<and> h_maxViews h' = h_maxViews h"
proof (induction bs arbitrary: h)
  case (Cons b bs)
  from Cons.prems show ?case
    by (auto simp: Let_def bindE_Inr_iff replyTransactions_def arr_prefix_Inr_iff markExecuted_def dest!: Cons.IH)
qed simp

lemma find_fold_executed:
  "map_find (fold (\<lambda>b. map_set (jb_view b) (markExecuted b)) bs m) k = Some c \<Longrightarrow>
   map_find m k = Some c \<and> (\<forall>b\<in>set bs. jb_view b \<noteq> k) \<or> (\<exists>b\<in>set bs. jb_view b = k \<and> c = markExecuted b)"
  by (induction bs arbitrary: m) (fastforce split: if_splits)+

lemma find_fold_some:
  "(\<exists>b\<in>set bs. jb_view b = k) \<or> map_find m k \<noteq> None \<Longrightarrow>
   \<exists>c. map_find (fold (\<lambda>b. map_set (jb_view b) (markExecuted b)) bs m) k = Some c"
  by (induction bs arbitrary: m) auto

lemma executeBlocksCh_not_Diverges: "executeBlocksCh bs h \<noteq> Inl Diverges"
  by (induction bs arbitrary: h) (auto simp: Let_def bindE_Inl_iff)

lemma executed_store:
  assumes "filed m" and "\<forall>b\<in>set bs. \<exists>k. map_find m k = Some b"
  shows "map_find (fold (\<lambda>b. map_set (jb_view b) (markExecuted b)) bs m) k =
    map_option (\<lambda>b. if b \<in> set bs then markExecuted b else b) (map_find m k)"
proof -
  let ?m' = "fold (\<lambda>b. map_set (jb_view b) (markExecuted b)) bs m"
  have own: "b \<in> set bs \<Longrightarrow> jb_view b = k \<longleftrightarrow> map_find m k = Some b" for b
    using assms by (auto simp: filed_def)
  show ?thesis
  proof (cases "map_find ?m' k")
    case None
    with find_fold_some [of bs k m] have "map_find m k = None" by (metis option.distinct(1))
    with None show ?thesis by simp
  next
    case (Some c)
    from find_fold_executed [OF Some] Some own show ?thesis by auto
  qed
qed

lemma tryExecuteCh_effect:
  assumes "filed (h_jblocks h)" and "tryExecuteCh C block block0 block1 h = Inr h'" and "jb_view block0 \<noteq> 0"
  shows "\<exists>bs. (pending (h_jblocks h) (getCView (jb_just block1)) bs \<or>
       bs = [] \<and> (\<nexists>bs. pending (h_jblocks h) (getCView (jb_just block1)) bs)) \<and>
     (\<forall>b\<in>set bs. \<not> jb_executed b) \<and>
     h_rep_queue h' = h_rep_queue h @
       concat (map (\<lambda>b. concat (map (reply_entry (h_clients h)) (take MAX_NUM_TRANSACTIONS (jb_transactions b)))) bs) \<and>
     (\<forall>k. map_find (h_jblocks h') k =
       map_option (\<lambda>b. if b \<in> set bs then markExecuted b else b) (map_find (h_jblocks h) k)) \<and>
     h_viewsWithoutNewTrans h' = h_viewsWithoutNewTrans h + word_of_nat (length bs) \<and>
     outs h' = outs h @ (if timeToStop h then [RecordStats] else [])"
proof -
  from assms(2,3) obtain bs h1 where
    c: "collectChain C (h_jblocks h) (Suc (length (h_jblocks h))) (getCView (jb_just block1)) [] = Inr bs"
    and e: "executeBlocksCh bs h = Inr h1" and h': "h' = (if timeToStop h1 then recordStats h1 else h1)"
    by (auto simp: tryExecuteCh_def bindE_Inr_iff)
  note f = executeBlocksCh_effect [OF e]
  from collectChain_spec [OF c] have p: "pending (h_jblocks h) (getCView (jb_just block1)) bs \<or>
       bs = [] \<and> (\<nexists>bs. pending (h_jblocks h) (getCView (jb_just block1)) bs)" by auto
  then have b: "\<forall>b\<in>set bs. \<not> jb_executed b \<and> (\<exists>k. map_find (h_jblocks h) k = Some b)"
    by (auto dest: pending_blocks)
  have "map_find (h_jblocks h') k =
       map_option (\<lambda>b. if b \<in> set bs then markExecuted b else b) (map_find (h_jblocks h) k)" for k
    using executed_store [OF assms(1), of bs k] b f h' by (simp add: recordStats_def emit_def)
  with p b f h' show ?thesis
    by (intro exI [of _ bs]) (auto simp: recordStats_def emit_def timeToStop_def)
qed

section \<open>The trusted counter\<close>

text \<open>The counter is in one of the two phases that it steps through (it may have wrapped).\<close>

definition tc_live :: "TrustedCh \<Rightarrow> bool" where
  "tc_live t \<longleftrightarrow> tc_phase t = PH1_NEWVIEW \<or> tc_phase t = PH1_PREPARE"

lemma tc_live_increment [simp]: "tc_live t \<Longrightarrow> tc_live (tc_increment t)"
  by (auto simp: tc_live_def tc_increment_def)

lemma tc_ok_live: "tc_ok t \<Longrightarrow> tc_live t"
  by (auto simp: tc_ok_def tc_live_def)

lemma tc_increment_sel [simp]:
  "tc_prepv (tc_increment t) = tc_prepv t" "tc_lockv (tc_increment t) = tc_lockv t" "tc_preph (tc_increment t) = tc_preph t"
  by (simp_all add: tc_increment_def)

text \<open>Steps until the counter is in the new-view phase of a view from \<open>v\<close> on.\<close>

definition nv_distance :: "View \<Rightarrow> View \<Rightarrow> Phase1 \<Rightarrow> nat" where
  "nv_distance v w p = 2 * (unat v - unat w) + (if p = PH1_NEWVIEW then 0 else 1)"

lemma nv_distance_le: "nv_distance v w p \<le> 2 * unat v + 1"
proof -
  have "2 * (unat v - unat w) \<le> 2 * unat v" by (intro mult_le_mono2 diff_le_self)
  then show ?thesis by (simp only: nv_distance_def split: if_split) arith
qed

lemma signUntilNewView_ends:
  "tc_live (h_tp h) \<Longrightarrow> j = fst (callTEEsignCh C h) \<Longrightarrow> h' = snd (callTEEsignCh C h) \<Longrightarrow>
   nv_distance v (tc_view (h_tp h)) (tc_phase (h_tp h)) < fuel \<Longrightarrow>
   \<exists>j' t r. signUntilNewView C v fuel j h' = Inr (j', h\<lparr>h_tp := t\<rparr>) \<and> j_data j' = URData r \<and>
     sg_size (j_signs j') = 1 \<and> propv r \<ge> v \<and> phase r = PH1_NEWVIEW \<and>
     justv r = tc_prepv (h_tp h) \<and> tc_prepv t = tc_prepv (h_tp h) \<and> tc_live t"
proof (induction fuel arbitrary: j h h')
  case (Suc fuel)
  let ?t = "h_tp h"
  have j: "j_data j = URData (RData_new (Hash_zero False) (tc_view ?t) (tc_preph ?t) (tc_prepv ?t) (tc_phase ?t))"
    and sz: "sg_size (j_signs j) = 1" and h': "h' = h\<lparr>h_tp := tc_increment ?t\<rparr>"
    using Suc.prems(2,3) by (simp_all add: callTEEsignCh_def tc_TEEsign_def tc_sign_def Let_def)
  then have g: "getRData j = Inr (RData_new (Hash_zero False) (tc_view ?t) (tc_preph ?t) (tc_prepv ?t) (tc_phase ?t))"
    by (simp add: getRData_Inr_iff)
  show ?case
  proof (cases "tc_view ?t < v \<or> tc_phase ?t \<noteq> PH1_NEWVIEW")
    case False
    then have "signUntilNewView C v (Suc fuel) j h' = Inr (j, h\<lparr>h_tp := tc_increment ?t\<rparr>)" using g h' by simp
    moreover from False have "v \<le> tc_view ?t" "tc_phase ?t = PH1_NEWVIEW" by (simp_all add: not_less)
    moreover have "tc_live (tc_increment ?t)" using Suc.prems(1) by simp
    ultimately show ?thesis using j sz by auto
  next
    case True
    have step: "tc_live (tc_increment ?t) \<and>
      nv_distance v (tc_view (tc_increment ?t)) (tc_phase (tc_increment ?t)) < nv_distance v (tc_view ?t) (tc_phase ?t)"
    proof (cases "tc_phase ?t = PH1_PREPARE")
      case True
      with Suc.prems(1) show ?thesis by simp (simp add: tc_increment_def nv_distance_def)
    next
      case p: False
      with Suc.prems(1) have nv: "tc_phase ?t = PH1_NEWVIEW" by (simp add: tc_live_def)
      with True have less: "unat (tc_view ?t) < unat v" by (simp add: word_less_nat_alt)
      with unat_u32_less [of v] have u: "unat (tc_view ?t) + 1 < 2 ^ 32" by simp
      then have "unat (tc_view ?t + 1) = Suc (unat (tc_view ?t))" by (intro unat_Suc_u32) simp
      with nv less Suc.prems(1) show ?thesis
        by simp (simp add: tc_increment_def nv_distance_def)
    qed
    obtain j1 h1 where c: "callTEEsignCh C h' = (j1, h1)" by fastforce
    have "\<exists>j' t r. signUntilNewView C v fuel j1 h1 = Inr (j', h'\<lparr>h_tp := t\<rparr>) \<and> j_data j' = URData r \<and>
        sg_size (j_signs j') = 1 \<and> propv r \<ge> v \<and> phase r = PH1_NEWVIEW \<and>
        justv r = tc_prepv (h_tp h') \<and> tc_prepv t = tc_prepv (h_tp h') \<and> tc_live t"
      by (rule Suc.IH) (use step c Suc.prems(4) h' in simp_all)
    with True g c h' show ?thesis by simp
  qed
qed simp

lemma collectChain_self:
  assumes "map_find jbs w = Some b" "\<not> jb_executed b" "w \<noteq> 0" "getCView (jb_just b) = w" "jblock_hash C b = Inr hash"
  shows "collectChain C jbs fuel w acc = Inl Diverges"
  by (induction fuel arbitrary: acc) (simp_all add: assms)

lemma storeCh_total: "\<exists>x. storePrepCh m l = Inr x" "\<exists>x. storeNvCh m l = Inr x"
  by (auto simp: storePrepCh_def storeNvCh_def store_new_def Let_def split: option.splits)

lemma signs_get_one [simp]: "signs_get (Signs_one s) 0 = Inr s"
  by (simp add: signs_get_def Signs_one_def MAX_NUM_SIGNATURES_def)

lemma castVoteCh_hangs:
  assumes "callTEEprepareCh C block block0 block1 h = Inr (vote, h1)"
    and "sg_size (j_signs vote) = 1" "getRData vote = Inr r" "signs_get (j_signs vote) 0 = Inr s"
    and hang: "\<And>g. h_jblocks g = h_jblocks h1 \<Longrightarrow> tryExecuteCh C block block0 block1 g = Inl Diverges"
  shows "castVoteCh C vt block block0 block1 h = Inl Diverges"
proof -
  obtain F G where F: "\<And>m l. storePrepCh m l = Inr (F m l)" and G: "\<And>m l. storeNvCh m l = Inr (G m l)"
    using storeCh_total by metis
  obtain j2 h2 r2 s2 where s2: "callTEEsignCh C h1 = (j2, h2)" "h_jblocks h2 = h_jblocks h1"
    "sg_size (j_signs j2) = 1" "getRData j2 = Inr r2" "signs_get (j_signs j2) 0 = Inr s2"
    by (auto simp: callTEEsignCh_def tc_TEEsign_def tc_sign_def Let_def)
  note simps = castVoteCh_def assms(1-4) s2(1,3-5) Let_def F G case_prod_beta bindE_if
  show ?thesis
  proof (cases "amLeaderOf h2 (h_view h2)")
    case True
    then show ?thesis by (simp add: simps s2(2) hang)
  next
    case False
    then show ?thesis by (simp add: simps s2(2) hang)
  qed
qed

text \<open>A vote is one signature over basic round data.\<close>

lemma tc_vote_signed:
  "tc_TEEprepare C ns block block0 block1 t = Inr (vote, t') \<Longrightarrow> j_set vote \<Longrightarrow>
   sg_size (j_signs vote) = 1 \<and> (\<exists>r. getRData vote = Inr r) \<and> (\<exists>s. signs_get (j_signs vote) 0 = Inr s)"
  using tc_exec_effect [of C ns "TC_prepare block block0 block1" t vote t']
  by (auto simp: tc_sign_def Let_def)

section \<open>A concrete node\<close>

text \<open>Node 1, alone in a configuration without faults, that has seen the genesis block only.\<close>

definition demo_self :: JBlock where
  "demo_self = JBlock_new 2 (Just_sign (RData_new (Hash_of (replicate SHA256_DIGEST_LENGTH 1)) 2 Hash_default 0 PH1_PREPARE) (Sign_char 1 65)) 0
     (replicate MAX_NUM_TRANSACTIONS Transaction_dummy)"

lemma demo_self_facts: "jb_view demo_self = 2" "getCView (jb_just demo_self) = 2"
  "getCHash (jb_just demo_self) = Hash_of (replicate SHA256_DIGEST_LENGTH 1)" "\<not> jb_executed demo_self"
  "jblock_ok demo_self" "wellFormed (jb_just demo_self) 1"
  by (simp_all add: demo_self_def JBlock_new_def getCView_def getCHash_def wellFormedInit_def wellFormedNv_def
      wellFormedPrep_def wellFormed_def union_rdata_def getRDataType_def jblock_ok_def)

definition demo_child :: JBlock where
  "demo_child = JBlock_new 1 (jb_just JBlock_genesis) 0 (replicate MAX_NUM_TRANSACTIONS Transaction_dummy)"

lemma demo_child_sel: "jb_view demo_child = 1" "getCView (jb_just demo_child) = 0"
  by (simp_all add: demo_child_def JBlock_new_def JBlock_genesis_def JBlock_flag_def getCView_def
      Just_default_def wellFormedInit_def union_rdata_def RData_default_def wellFormedNv_def)

lemma demo_chain_new:
  "\<exists>h0. Handler_new crypto_yes 1 3 0 0 (addNode [] 1 [] 1 1) 5 10 (\<lambda>_. False) 0 = Inr h0 \<and>
     h_jblocks h0 = [] \<and> h_nodes h0 = addNode [] 1 [] 1 1 \<and> h_log h0 = Log_empty \<and> tc_ok (h_tp h0) \<and> tc_view (h_tp h0) = 0 \<and>
     h_total h0 = 1 \<and> h_qsize h0 = 1 \<and> h_myid h0 = 1 \<and> h_maxViews h0 = 0"
  using tc_new_total [of crypto_yes 1 5 1] tc_new
  by (auto simp: Handler_new_def Let_def) (auto simp: TrustedCh_new_def bindE_Inr_iff)

section \<open>Properties\<close>

text \<open>
  C15. Execution of a chain. When every stored block is filed under its own view,
  \<open>tryExecuteCh\<close> executes the pending blocks below the view that the grandparent certifies
  (the unexecuted ones, oldest first, down to an executed block or the genesis block; none
  of them if one is missing): it queues the replies to their transactions in that order,
  marks exactly them as executed and counts them. Since they were not marked before, no
  block is executed twice.
\<close>

theorem tryExecuteCh_correct:
  assumes "filed (h_jblocks h)" and "tryExecuteCh C block block0 block1 h = Inr h'" and "jb_view block0 \<noteq> 0"
  shows "\<exists>bs. (pending (h_jblocks h) (getCView (jb_just block1)) bs \<or>
       bs = [] \<and> (\<nexists>bs. pending (h_jblocks h) (getCView (jb_just block1)) bs)) \<and>
     (\<forall>b\<in>set bs. \<not> jb_executed b) \<and>
     h_rep_queue h' = h_rep_queue h @
       concat (map (\<lambda>b. concat (map (reply_entry (h_clients h)) (take MAX_NUM_TRANSACTIONS (jb_transactions b)))) bs) \<and>
     (\<forall>k. map_find (h_jblocks h') k =
       map_option (\<lambda>b. if b \<in> set bs then markExecuted b else b) (map_find (h_jblocks h) k)) \<and>
     h_viewsWithoutNewTrans h' = h_viewsWithoutNewTrans h + word_of_nat (length bs) \<and>
     outs h' = outs h @ (if timeToStop h then [RecordStats] else [])"
  using assms by (rule tryExecuteCh_effect)

theorem tryExecuteCh_correct_witness:
  "\<exists>h0 h'. Handler_new crypto_yes 1 3 0 0 (addNode [] 1 [] 1 1) 5 10 (\<lambda>_. False) 0 = Inr h0 \<and>
     tryExecuteCh crypto_yes demo_child demo_child demo_child (h0\<lparr>h_jblocks := [(0, JBlock_genesis)]\<rparr>) = Inr h' \<and>
     map_find (h_jblocks h') 0 = Some (markExecuted JBlock_genesis)"
proof -
  from demo_chain_new obtain h0 where n: "Handler_new crypto_yes 1 3 0 0 (addNode [] 1 [] 1 1) 5 10 (\<lambda>_. False) 0 = Inr h0"
    by blast
  let ?h = "h0\<lparr>h_jblocks := [(0, JBlock_genesis)]\<rparr>"
  have g: "jb_view JBlock_genesis = 0" "\<not> jb_executed JBlock_genesis"
    by (simp_all add: JBlock_genesis_def JBlock_flag_def)
  then have p: "pending (h_jblocks ?h) 0 [JBlock_genesis]" by (auto intro: pending.genesis)
  from jblock_hash_yes [of JBlock_genesis] have hash: "jblock_hash crypto_yes JBlock_genesis = Inr (Hash_of (replicate SHA256_DIGEST_LENGTH 1))"
    by simp
  have len: "MAX_NUM_TRANSACTIONS \<le> length (jb_transactions JBlock_genesis)"
    by (simp add: JBlock_genesis_def JBlock_flag_def)
  obtain h' where t: "tryExecuteCh crypto_yes demo_child demo_child demo_child ?h = Inr h'"
    using len by (auto simp: tryExecuteCh_def demo_child_sel hash g replyTransactions_def markExecuted_def)
  have "filed (h_jblocks ?h)" by (simp add: filed_def g)
  from tryExecuteCh_correct [OF this t] n t p show ?thesis
    by (auto simp: demo_child_sel dest: pending_unique)
qed

text \<open>
  Execution ends when the justifications go down: if every stored block that is not
  executed certifies an earlier view, the loop of \<open>tryExecuteCh\<close> ends (within one step
  per stored block).
\<close>

theorem tryExecuteCh_returns:
  assumes "descending (h_jblocks h)"
  shows "tryExecuteCh C block block0 block1 h \<noteq> Inl Diverges"
  using collectChain_fuel [OF assms]
  by (auto simp: tryExecuteCh_def bindE_Inl_iff executeBlocksCh_not_Diverges)

theorem tryExecuteCh_returns_witness:
  "\<exists>h0. Handler_new crypto_yes 1 3 0 0 (addNode [] 1 [] 1 1) 5 10 (\<lambda>_. False) 0 = Inr h0 \<and>
     tryExecuteCh crypto_yes demo_child demo_child demo_child
       (h0\<lparr>h_jblocks := [(0, JBlock_genesis), (1, demo_child)]\<rparr>) \<noteq> Inl Diverges"
proof -
  from demo_chain_new obtain h0 where n: "Handler_new crypto_yes 1 3 0 0 (addNode [] 1 [] 1 1) 5 10 (\<lambda>_. False) 0 = Inr h0"
    by blast
  have "tryExecuteCh crypto_yes demo_child demo_child demo_child
      (h0\<lparr>h_jblocks := [(0, JBlock_genesis), (1, demo_child)]\<rparr>) \<noteq> Inl Diverges"
    by (rule tryExecuteCh_returns) (simp add: descending_def demo_child_sel)
  with n show ?thesis by blast
qed

text \<open>
  Execution may never end. A node that has stored a block, not executed, that
  certifies its own view, and votes for a proposal that certifies that view, is stuck:
  \<open>tryExecuteCh\<close> finds the block as its own ancestor for ever, whatever the fuel. The test
  that would stop it (the hash of the ancestor against the certified hash) is disabled, and
  \<open>voteCh\<close> stores a proposal before the trusted component has looked at it, so one leader
  can plant such a block with a signed proposal.
\<close>

theorem self_certified_block_hangs:
  assumes "map_find (h_jblocks h) w = Some b" "\<not> jb_executed b" "w \<noteq> 0" "jb_view b = w"
    and "getCView (jb_just b) = w" "jblock_hash C b = Inr hash"
    and "h_view h \<noteq> w" "getCView (jb_just block) = w"
    and "tc_TEEprepare C (h_nodes h) block b b (h_tp h) = Inr (vote, t)" "j_set vote"
  shows "collectChain C (map_set (h_view h) block (h_jblocks h)) fuel w [] = Inl Diverges \<and> voteCh C block h = Inl Diverges"
proof
  let ?jbs = "map_set (h_view h) block (h_jblocks h)"
  have find: "map_find ?jbs w = Some b" using assms(1,7) by simp
  show loop: "collectChain C ?jbs fuel w [] = Inl Diverges" for fuel
    by (rule collectChain_self [OF find assms(2,3,5,6)])
  from tc_vote_signed [OF assms(9,10)] obtain r s where v: "sg_size (j_signs vote) = 1" "getRData vote = Inr r"
    "signs_get (j_signs vote) 0 = Inr s" by blast
  have ex: "tryExecuteCh C block b b g = Inl Diverges" if "h_jblocks g = ?jbs" for g
    using assms(3-5) loop that by (simp add: tryExecuteCh_def del: collectChain.simps)
  have cp: "callTEEprepareCh C block b b (h\<lparr>h_jblocks := ?jbs\<rparr>) = Inr (vote, h\<lparr>h_jblocks := ?jbs, h_tp := t\<rparr>)"
    using assms(9) by (simp add: callTEEprepareCh_def)
  have "castVoteCh C vt block b b (h\<lparr>h_jblocks := ?jbs\<rparr>) = Inl Diverges" for vt
    by (rule castVoteCh_hangs [OF cp v], rule ex) simp
  then have "voteCh_body C vt block h = Inl Diverges" for vt
    using find assms(5,8) by (simp add: voteCh_body_def Let_def)
  moreover obtain n where "(2::nat) ^ 32 = Suc n" by (metis gr0_conv_Suc zero_less_numeral zero_less_power)
  ultimately show "voteCh C block h = Inl Diverges" by (simp only: voteCh_def voteCh_fuel.simps)
qed

theorem self_certified_block_hangs_witness:
  "\<exists>h0. Handler_new crypto_yes 1 3 0 0 (addNode [] 1 [] 1 1) 5 10 (\<lambda>_. False) 0 = Inr h0 \<and>
     voteCh crypto_yes (demo_block demo_just)
       (h0\<lparr>h_view := 9, h_jblocks := [(0, JBlock_genesis), (2, demo_self)], h_tp := demo_trusted\<rparr>) = Inl Diverges"
proof -
  from demo_chain_new obtain h0 where n: "Handler_new crypto_yes 1 3 0 0 (addNode [] 1 [] 1 1) 5 10 (\<lambda>_. False) 0 = Inr h0"
    and ns: "h_nodes h0 = addNode [] 1 [] 1 1" by blast
  let ?h = "h0\<lparr>h_view := 9, h_jblocks := [(0, JBlock_genesis), (2, demo_self)], h_tp := demo_trusted\<rparr>"
  obtain vote t where "tc_TEEprepare crypto_yes (addNode [] 1 [] 1 1) (demo_block demo_just) demo_self demo_self demo_trusted = Inr (vote, t)"
    "j_set vote"
    by (simp add: tc_TEEprepare_def demo_facts demo_rd tc_advance_def jblock_hash_yes demo_self_facts tc_safeNode_def tc_sign_def Let_def)
  from self_certified_block_hangs [of ?h 2 demo_self crypto_yes _ "demo_block demo_just" vote t] this ns n show ?thesis
    by (auto simp: demo_self_facts demo_facts jblock_hash_yes)
qed

text \<open>
  The view change finds its statement: whatever the state of the trusted component
  (within its counter's order), the signing loop of \<open>startNewViewCh\<close> ends, with one
  signature over a new-view statement of a view that is not before the node's.
\<close>

theorem chained_newview_signed:
  assumes "tc_ok (h_tp h)" and "callTEEsignCh C h = (j, h1)"
  shows "\<exists>j' t r. signUntilNewView C (h_view h) (2 * (unat (h_view h) + 3)) j h1 = Inr (j', h\<lparr>h_tp := t\<rparr>) \<and>
    j_data j' = URData r \<and> sg_size (j_signs j') = 1 \<and> propv r \<ge> h_view h \<and> phase r = PH1_NEWVIEW"
proof -
  have d: "nv_distance (h_view h) (tc_view (h_tp h)) (tc_phase (h_tp h)) < 2 * (unat (h_view h) + 3)"
    using nv_distance_le [of "h_view h"] by (rule le_less_trans) simp
  have "j = fst (callTEEsignCh C h)" "h1 = snd (callTEEsignCh C h)" by (simp_all add: assms(2))
  from signUntilNewView_ends [OF tc_ok_live [OF assms(1)] this d] show ?thesis by blast
qed

theorem chained_newview_signed_witness:
  "\<exists>h0 j h1 j' t r. Handler_new crypto_yes 1 3 0 0 (addNode [] 1 [] 1 1) 5 10 (\<lambda>_. False) 0 = Inr h0 \<and>
     callTEEsignCh crypto_yes h0 = (j, h1) \<and>
     signUntilNewView crypto_yes (h_view h0) (2 * (unat (h_view h0) + 3)) j h1 = Inr (j', h0\<lparr>h_tp := t\<rparr>) \<and>
     j_data j' = URData r \<and> phase r = PH1_NEWVIEW"
proof -
  from demo_chain_new obtain h0 where n: "Handler_new crypto_yes 1 3 0 0 (addNode [] 1 [] 1 1) 5 10 (\<lambda>_. False) 0 = Inr h0"
    and ok: "tc_ok (h_tp h0)" by blast
  obtain j h1 where c: "callTEEsignCh crypto_yes h0 = (j, h1)" by fastforce
  from chained_newview_signed [OF ok c] n c show ?thesis by blast
qed

text \<open>
  A proposal that the trusted component refuses is not voted for: when both
  predecessors are stored and \<open>TEEprepare\<close> returns no justification, \<open>voteCh\<close> sends
  nothing, executes nothing and stays in its view; but the proposal is stored for the view
  (over whatever was stored there) and the component has signed a further statement.
\<close>

theorem voteCh_refused:
  assumes "map_find (map_set (h_view h) block (h_jblocks h)) (getCView (jb_just block)) = Some block0"
    and "map_find (map_set (h_view h) block (h_jblocks h)) (getCView (jb_just block0)) = Some block1"
    and "tc_TEEprepare C (h_nodes h) block block0 block1 (h_tp h) = Inr (vote, t)" "\<not> j_set vote"
  shows "voteCh C block h = Inr (h\<lparr>h_jblocks := map_set (h_view h) block (h_jblocks h), h_tp := tc_increment t\<rparr>)"
proof -
  from tc_exec_effect [of C "h_nodes h" "TC_prepare block block0 block1"] assms(3,4) have "vote = Just_default"
    by (fastforce simp: tc_sign_def Let_def)
  then have "castVoteCh C vt block block0 block1 (h\<lparr>h_jblocks := map_set (h_view h) block (h_jblocks h)\<rparr>) =
      Inr (h\<lparr>h_jblocks := map_set (h_view h) block (h_jblocks h), h_tp := tc_increment t\<rparr>)" for vt
    using assms(3) by (simp add: castVoteCh_def callTEEprepareCh_def callTEEsignCh_def tc_TEEsign_def tc_sign_def
      Let_def Just_default_def Signs_empty_def)
  then have "voteCh_body C vt block h = Inr (h\<lparr>h_jblocks := map_set (h_view h) block (h_jblocks h), h_tp := tc_increment t\<rparr>)" for vt
    using assms(1,2) by (simp add: voteCh_body_def Let_def)
  moreover obtain n where "(2::nat) ^ 32 = Suc n" by (metis gr0_conv_Suc zero_less_numeral zero_less_power)
  ultimately show ?thesis by (simp only: voteCh_def voteCh_fuel.simps)
qed

theorem voteCh_refused_witness:
  "\<exists>h0 h'. Handler_new crypto_yes 1 3 0 0 (addNode [] 1 [] 1 1) 5 10 (\<lambda>_. False) 0 = Inr h0 \<and>
     voteCh crypto_yes demo_child (h0\<lparr>h_view := 1, h_jblocks := [(0, JBlock_genesis)]\<rparr>) = Inr h' \<and>
     map_find (h_jblocks h') 1 = Some demo_child \<and> outs h' = outs h0"
proof -
  from demo_chain_new obtain h0 where n: "Handler_new crypto_yes 1 3 0 0 (addNode [] 1 [] 1 1) 5 10 (\<lambda>_. False) 0 = Inr h0"
    and v: "tc_view (h_tp h0) = 0" by blast
  let ?h = "h0\<lparr>h_view := 1, h_jblocks := [(0, JBlock_genesis)]\<rparr>"
  have c: "getCView (jb_just JBlock_genesis) = 0" using demo_child_sel(2) by (simp add: demo_child_def JBlock_new_def)
  have "tc_TEEprepare crypto_yes (h_nodes ?h) demo_child JBlock_genesis JBlock_genesis (h_tp ?h) = Inr (Just_default, h_tp h0)"
    by (simp add: tc_TEEprepare_def tc_verify_def demo_child_def JBlock_new_def JBlock_genesis_def JBlock_flag_def v
        signs_verify_empty RData_default_def)
  from voteCh_refused [OF _ _ this] n show ?thesis by (simp add: demo_child_sel c)
qed

text \<open>
  An uncertified block is executed. \<open>tryExecuteCh\<close> looks the grandparent's certified block up by
  its view only and does not compare the hash of what is stored there with the certified hash
  (the test is \<open>if (true)\<close>). If the node has stored another block for that view (it stores
  every proposal before it votes), it executes and answers that block, whatever hash
  \<open>block1\<close> certifies.
\<close>

theorem uncertified_block_executed:
  assumes "getCView (jb_just block1) = w" and "w \<noteq> 0" and "jb_view block0 \<noteq> 0"
    and "map_find (h_jblocks h) w = Some b" and "jb_view b = w" and "\<not> jb_executed b" and "jblock_hash C b = Inr hb"
    and "map_find (h_jblocks h) (getCView (jb_just b)) = Some p" and "jb_executed p"
    and "length (jb_transactions b) = MAX_NUM_TRANSACTIONS"
  shows "\<exists>h'. tryExecuteCh C block block0 block1 h = Inr h' \<and> map_find (h_jblocks h') w = Some (markExecuted b) \<and>
    h_rep_queue h' = h_rep_queue h @ concat (map (reply_entry (h_clients h)) (jb_transactions b))"
proof -
  obtain n where "length (h_jblocks h) = Suc n" using assms(4) by (cases "h_jblocks h") auto
  then have "collectChain C (h_jblocks h) (Suc (length (h_jblocks h))) w [] = Inr [b]"
    using assms(2,4,6-9) by simp
  with assms(1,3,5,10) show ?thesis
    by (simp add: tryExecuteCh_def replyTransactions_def markExecuted_def recordStats_def emit_def)
qed

definition demo_other :: JBlock where
  "demo_other = JBlock_new 2 (Just_sign (RData_new (Hash_of (replicate SHA256_DIGEST_LENGTH 9)) 1 Hash_default 0 PH1_PREPARE) (Sign_char 1 65)) 0
     (replicate MAX_NUM_TRANSACTIONS Transaction_dummy)"

theorem uncertified_block_executed_witness:
  "\<exists>h0 hb h'. Handler_new crypto_yes 1 3 0 0 (addNode [] 1 [] 1 1) 5 10 (\<lambda>_. False) 0 = Inr h0 \<and>
     jblock_hash crypto_yes demo_child = Inr hb \<and> \<not> hash_eq hb (getCHash (jb_just demo_other)) \<and>
     tryExecuteCh crypto_yes demo_other demo_other demo_other
       (h0\<lparr>h_jblocks := [(0, markExecuted JBlock_genesis), (1, demo_child)]\<rparr>) = Inr h' \<and>
     map_find (h_jblocks h') 1 = Some (markExecuted demo_child)"
proof -
  from demo_chain_new obtain h0 where n: "Handler_new crypto_yes 1 3 0 0 (addNode [] 1 [] 1 1) 5 10 (\<lambda>_. False) 0 = Inr h0"
    by blast
  have o: "getCView (jb_just demo_other) = 1" "getCHash (jb_just demo_other) = Hash_of (replicate SHA256_DIGEST_LENGTH 9)"
    "jb_view demo_other = 2"
    by (simp_all add: demo_other_def JBlock_new_def getCView_def getCHash_def wellFormedInit_def wellFormedNv_def
        union_rdata_def getRDataType_def)
  have c: "jb_view demo_child = 1" "\<not> jb_executed demo_child" "length (jb_transactions demo_child) = MAX_NUM_TRANSACTIONS"
    by (simp_all add: demo_child_def JBlock_new_def)
  from jblock_hash_yes [of demo_child] c have hash: "jblock_hash crypto_yes demo_child = Inr (Hash_of (replicate SHA256_DIGEST_LENGTH 1))"
    by (simp add: demo_child_def JBlock_new_def jblock_ok_def JBlock_genesis_def JBlock_flag_def)
  let ?h = "h0\<lparr>h_jblocks := [(0, markExecuted JBlock_genesis), (1, demo_child)]\<rparr>"
  have "\<not> hash_eq (Hash_of (replicate SHA256_DIGEST_LENGTH 1)) (Hash_of (replicate SHA256_DIGEST_LENGTH 9))"
    by (simp add: hash_eq_iff Hash_of_def SHA256_DIGEST_LENGTH_def)
  moreover have "\<exists>h'. tryExecuteCh crypto_yes demo_other demo_other demo_other ?h = Inr h' \<and>
      map_find (h_jblocks h') 1 = Some (markExecuted demo_child) \<and>
      h_rep_queue h' = h_rep_queue ?h @ concat (map (reply_entry (h_clients ?h)) (jb_transactions demo_child))"
    by (rule uncertified_block_executed [OF o(1), where b = demo_child and p = "markExecuted JBlock_genesis"])
      (use o c hash in \<open>simp_all add: demo_child_sel markExecuted_def\<close>)
  ultimately show ?thesis using n hash o(2) by auto
qed

text \<open>
  C26. The flag that suppresses execution. Whether a block has been executed travels with the
  block but is not part of its hash: a proposal with the flag set has the statement, and hence the valid leader's
  signatures, of the proposal without. Take a node whose blocks are filed under their views and that has
  stored the marked block under its view \<open>v\<close>. A call of \<open>tryExecuteCh\<close> that returns and whose certified chain
  leads to \<open>v\<close> over blocks \<open>bs\<close> that are not executed executes and answers these blocks only: neither the marked
  block nor anything below it, whether executed or not. All other stored blocks, the marked one included,
  stay as they are, so that the next call that comes to \<open>v\<close> stops there again.
\<close>

theorem executed_flag_forged:
  assumes "filed (h_jblocks h)" and "map_find (h_jblocks h) v = Some (markExecuted b)"
    and "leads_to (h_jblocks h) v (getCView (jb_just block1)) bs" and "tryExecuteCh C block block0 block1 h = Inr h'"
  shows "ldrPrepareCh2just C \<lparr>lc_block = markExecuted b, lc_sign = s\<rparr> = ldrPrepareCh2just C \<lparr>lc_block = b, lc_sign = s\<rparr> \<and>
    markExecuted b \<notin> set bs \<and>
    h_rep_queue h' = h_rep_queue h @ (if jb_view block0 = 0 then [] else
      concat (map (\<lambda>b. concat (map (reply_entry (h_clients h)) (take MAX_NUM_TRANSACTIONS (jb_transactions b)))) bs)) \<and>
    (\<forall>k c. map_find (h_jblocks h) k = Some c \<and> c \<notin> set bs \<longrightarrow> map_find (h_jblocks h') k = Some c)"
proof -
  have ex: "jb_executed (markExecuted b)" by (simp add: markExecuted_def)
  have p: "pending (h_jblocks h) (getCView (jb_just block1)) bs" by (rule leads_to_pending [OF assms(3,2) ex])
  have "ldrPrepareCh2just C \<lparr>lc_block = markExecuted b, lc_sign = s\<rparr> = ldrPrepareCh2just C \<lparr>lc_block = b, lc_sign = s\<rparr>"
    by (simp add: ldrPrepareCh2just_def) (simp add: markExecuted_def)
  moreover have "markExecuted b \<notin> set bs" using pending_blocks [OF p] ex by blast
  moreover have "h_rep_queue h' = h_rep_queue h @
        concat (map (\<lambda>b. concat (map (reply_entry (h_clients h)) (take MAX_NUM_TRANSACTIONS (jb_transactions b)))) bs) \<and>
      (\<forall>k. map_find (h_jblocks h') k = map_option (\<lambda>b. if b \<in> set bs then markExecuted b else b) (map_find (h_jblocks h) k))"
    if "jb_view block0 \<noteq> 0"
  proof -
    from tryExecuteCh_effect [OF assms(1,4) that] obtain bs' where e:
      "pending (h_jblocks h) (getCView (jb_just block1)) bs' \<or> bs' = [] \<and> (\<nexists>bs. pending (h_jblocks h) (getCView (jb_just block1)) bs)"
      "h_rep_queue h' = h_rep_queue h @
        concat (map (\<lambda>b. concat (map (reply_entry (h_clients h)) (take MAX_NUM_TRANSACTIONS (jb_transactions b)))) bs')"
      "\<forall>k. map_find (h_jblocks h') k = map_option (\<lambda>b. if b \<in> set bs' then markExecuted b else b) (map_find (h_jblocks h) k)"
      by blast
    from e(1) p have "bs' = bs" using pending_unique by blast
    with e(2,3) show ?thesis by simp
  qed
  moreover have "h' = h" if "jb_view block0 = 0" using assms(4) that by (simp add: tryExecuteCh_def)
  ultimately show ?thesis by auto
qed

text \<open>The genesis block is stored with the flag: the block above it is executed, it is not.\<close>

theorem executed_flag_forged_witness:
  "\<exists>h0 h'. Handler_new crypto_yes 1 3 0 0 (addNode [] 1 [] 1 1) 5 10 (\<lambda>_. False) 0 = Inr h0 \<and>
     tryExecuteCh crypto_yes demo_other demo_other demo_other
       (h0\<lparr>h_jblocks := [(0, markExecuted JBlock_genesis), (1, demo_child)]\<rparr>) = Inr h' \<and>
     h_rep_queue h' = h_rep_queue h0 @ concat (map (reply_entry (h_clients h0)) (jb_transactions demo_child))"
proof -
  from demo_chain_new obtain h0 where n: "Handler_new crypto_yes 1 3 0 0 (addNode [] 1 [] 1 1) 5 10 (\<lambda>_. False) 0 = Inr h0"
    by blast
  let ?h = "h0\<lparr>h_jblocks := [(0, markExecuted JBlock_genesis), (1, demo_child)]\<rparr>"
  have o: "getCView (jb_just demo_other) = 1" "jb_view demo_other = 2"
    by (simp_all add: demo_other_def JBlock_new_def getCView_def wellFormedInit_def wellFormedNv_def union_rdata_def getRDataType_def)
  have c: "jb_view demo_child = 1" "\<not> jb_executed demo_child" "length (jb_transactions demo_child) = MAX_NUM_TRANSACTIONS"
    by (simp_all add: demo_child_def JBlock_new_def)
  have g: "jb_view (markExecuted JBlock_genesis) = 0" "jb_executed (markExecuted JBlock_genesis)"
    by (simp_all add: markExecuted_def JBlock_genesis_def JBlock_flag_def)
  from jblock_hash_yes [of demo_child] c have hash: "jblock_hash crypto_yes demo_child = Inr (Hash_of (replicate SHA256_DIGEST_LENGTH 1))"
    by (simp add: demo_child_def JBlock_new_def jblock_ok_def JBlock_genesis_def JBlock_flag_def)
  obtain h' where t: "tryExecuteCh crypto_yes demo_other demo_other demo_other ?h = Inr h'"
    using c by (auto simp: tryExecuteCh_def o demo_child_sel hash g replyTransactions_def markExecuted_def JBlock_genesis_def JBlock_flag_def)
  have "filed (h_jblocks ?h)" using g c by (simp add: filed_def)
  moreover have "leads_to (h_jblocks ?h) 0 (getCView (jb_just demo_other)) ([] @ [demo_child])"
    unfolding o by (rule leads_to.certified) (simp_all add: c demo_child_sel leads_to.here)
  ultimately show ?thesis
    using executed_flag_forged [of ?h 0 JBlock_genesis demo_other "[] @ [demo_child]" crypto_yes demo_other demo_other h'] t n o(2) c(3) by simp
qed

end
