(* ===== verification/ParallelHotStuff.thy ===== *)
theory ParallelHotStuff
  imports HandlerState
begin

text \<open>
  The parallel protocol of \<open>App/Handler.cpp\<close> (\<open>PARALLEL_HOTSTUFF\<close>): a leader proposes up to
  \<open>maxBlocksInView\<close> blocks in a view, which run through the phases independently and are
  executed in order of their sequence numbers; before it proposes, it recovers missing
  blocks and sends the hashes it builds on for verification.

  The recursion: \<open>handleEarlierMessagesPara\<close> may execute a view's last block, which starts
  a new view, which handles earlier messages; and it may handle a stored verify message,
  which does so too. The functions take the inner calls as the parameters \<open>snv\<close>
  (\<open>startNewViewPara\<close>), \<open>hv\<close> (\<open>handleVerifyPara\<close>) and \<open>hem\<close> (\<open>handleEarlierMessagesPara\<close>);
  the knot is tied on a fuel at the end. \<open>pblocks[v][i]\<close> is not checked in the source: an
  index past the vector is the error \<open>OutOfBounds\<close>.
\<close>

section \<open>The block vectors\<close>

definition pblocks_get :: "View \<Rightarrow> nat \<Rightarrow> Handler \<Rightarrow> (PBlock \<times> Handler) res" where
  "pblocks_get v i h = (let (bs, h) = pblocks_at v h in bindE (arr_get bs i) (\<lambda>b. Inr (b, h)))"

definition pblocks_put :: "View \<Rightarrow> nat \<Rightarrow> PBlock \<Rightarrow> Handler \<Rightarrow> Handler res" where
  "pblocks_put v i b h =
     (let (bs, h) = pblocks_at v h in
      bindE (arr_set bs i b) (\<lambda>bs. Inr (h\<lparr>h_pblocks := map_set v bs (h_pblocks h)\<rparr>)))"

definition pblocks_resize :: "View \<Rightarrow> Handler \<Rightarrow> Handler" where
  "pblocks_resize v h =
     (let (bs, h) = pblocks_at v h in
      h\<lparr>h_pblocks := map_set v (vec_resize PBlock_default bs (unat (h_maxBlocksInView h))) (h_pblocks h)\<rparr>)"

section \<open>The leader: recovery, verification, proposals\<close>

definition initiateRecoverPara :: "u32 list \<Rightarrow> Just \<Rightarrow> Handler \<Rightarrow> Handler res" where
  "initiateRecoverPara missing just h =
     bindE (getRDataPara just) (\<lambda>r.
       Inr (sendMsg (Net_LdrRecoverPara \<lparr>lr_rdata = r, lr_signs = j_signs just, lr_missing = missing\<rparr>)
              (remove_from_peers h (h_myid h)) h))"

text \<open>
  \<open>preparePara\<close>: the body of the loop, and the loop for the remaining number of blocks. The
  loop variable is an \<open>int\<close> compared with \<open>maxBlocksInView\<close>, which is small enough for a
  vector of blocks.
\<close>

definition prepareBlock :: "crypto \<Rightarrow> Just \<Rightarrow> Hash \<Rightarrow> Handler \<Rightarrow> (Hash \<times> Handler) res" where
  "prepareBlock C just prevHash h =
     (let (block, h) = createNewBlockPara prevHash h; h = h\<lparr>h_localSeq := h_localSeq h + 1\<rparr> in
      bindE (callTEEpreparePara C block just h) (\<lambda>(justPrep, h).
        if j_set justPrep then
          bindE (pblocks_put (h_view h) (unat (p_seqNumber block - 1)) block h) (\<lambda>h.
          bindE (pblock_hash C block) (\<lambda>prevHash.
          bindE (getRDataPara justPrep) (\<lambda>r.
            let signs = j_signs justPrep;
                h = sendMsg (Net_LdrPreparePara (LdrMsg_new (Proposal_new just block) signs))
                      (remove_from_peers h (h_myid h)) h
            in bindE (storePrepPara (Msg_new r signs) (h_log h)) (\<lambda>(l, n).
                 Inr (prevHash, h\<lparr>h_log := l\<rparr>)))))
        else Inr (prevHash, h)))"

primrec prepare_loop :: "crypto \<Rightarrow> Just \<Rightarrow> nat \<Rightarrow> Hash \<Rightarrow> Handler \<Rightarrow> Handler res" where
  "prepare_loop C just 0 prevHash h = Inr h"
| "prepare_loop C just (Suc n) prevHash h =
     bindE (prepareBlock C just prevHash h) (\<lambda>(prevHash, h). prepare_loop C just n prevHash h)"

definition preparePara :: "crypto \<Rightarrow> Just \<Rightarrow> Handler \<Rightarrow> Handler res" where
  "preparePara C just h =
     bindE (getRDataPara just) (\<lambda>r.
       if h_myid h mod 4 = h_byzantine h
       then prepare_loop C just (unat (h_maxBlocksInView h) - 1) (justh r) (h\<lparr>h_localSeq := 2\<rparr>)
       else prepare_loop C just (unat (h_maxBlocksInView h)) (justh r) (h\<lparr>h_localSeq := 1\<rparr>))"

text \<open>The hashes of the chain of blocks, up to the first that is missing or does not extend.\<close>

fun verify_chain :: "crypto \<Rightarrow> Hash \<Rightarrow> PBlock list \<Rightarrow> Hash list \<Rightarrow> Hash list res" where
  "verify_chain C prev [] hashes = Inr hashes"
| "verify_chain C prev (b # bs) hashes =
     (if pblock_isBlock b \<and> pblock_extends b prev
      then bindE (pblock_hash C b) (\<lambda>hb. verify_chain C hb bs (hashes @ [hb]))
      else Inr hashes)"

fun verifyHashes :: "crypto \<Rightarrow> PBlock list \<Rightarrow> Hash list res" where
  "verifyHashes C [] = Inr []"
| "verifyHashes C (b # bs) =
     bindE (pblock_hash C b) (\<lambda>hb. verify_chain C hb bs (if pblock_isBlock b then [hb] else []))"

text \<open>\<open>pblocks.size()\<close> is the number of views with a vector.\<close>

definition initiateVerifyPara :: "crypto \<Rightarrow> Just \<Rightarrow> Handler \<Rightarrow> Handler res" where
  "initiateVerifyPara C just h =
     bindE (getRDataPara just) (\<lambda>r.
       let jv = justv r;
           (bs, h) = (if unat jv < length (h_pblocks h) then pblocks_at jv h else ([], h))
       in bindE (verifyHashes C bs) (\<lambda>hashes.
            preparePara C just
              (sendMsg (Net_VerifyPara \<lparr>vf_rdata = r, vf_signs = j_signs just, vf_hashes = hashes\<rparr>)
                 (remove_from_peers h (h_myid h)) h)))"

section \<open>The leader: certificates\<close>

definition initiatePreparePara :: "crypto \<Rightarrow> RDataPara \<Rightarrow> Handler \<Rightarrow> Handler res" where
  "initiatePreparePara C rdata h =
     bindE (getPreparePara (propv rdata) (h_qsize h) (seqNumber rdata) (h_log h)) (\<lambda>signs.
       let newrdata = RDataPara_new (proph rdata) (propv rdata) (justh rdata) (justv rdata) PH1_PREPARE (seqNumber rdata);
           h = sendMsg (Net_PreparePara (Msg_new newrdata signs)) (remove_from_peers h (h_myid h)) h
       in bindE (callTEEstorePara C (JustPara_signs rdata signs) h) (\<lambda>(justPc, h).
          bindE (getRDataPara justPc) (\<lambda>r.
          bindE (storePcPara (Msg_new r (j_signs justPc)) (h_log h)) (\<lambda>(l, n). Inr (h\<lparr>h_log := l\<rparr>)))))"

definition initiatePrecommitPara :: "crypto \<Rightarrow> RDataPara \<Rightarrow> Handler \<Rightarrow> Handler res" where
  "initiatePrecommitPara C rdata h =
     bindE (getPrecommitPara (propv rdata) (h_qsize h) (seqNumber rdata) (h_log h)) (\<lambda>signs.
       let h = sendMsg (Net_PreCommitPara (Msg_new rdata signs)) (remove_from_peers h (h_myid h)) h
       in bindE (callTEEstorePara C (JustPara_signs rdata signs) h) (\<lambda>(justCom, h).
          bindE (getRDataPara justCom) (\<lambda>r.
          bindE (storeComPara (Msg_new r (j_signs justCom)) (h_log h)) (\<lambda>(l, n). Inr (h\<lparr>h_log := l\<rparr>)))))"

section \<open>The backups' answers\<close>

definition respondToProposalPara :: "crypto \<Rightarrow> Just \<Rightarrow> PBlock \<Rightarrow> Handler \<Rightarrow> Handler res" where
  "respondToProposalPara C justNv block h =
     bindE (callTEEpreparePara C block justNv h) (\<lambda>(newJustPrep, h).
       if j_set newJustPrep then
         bindE (pblocks_put (h_view h) (unat (p_seqNumber block - 1)) block h) (\<lambda>h.
         bindE (getRDataPara newJustPrep) (\<lambda>r.
           Inr (sendMsg (Net_PreparePara (Msg_new r (j_signs newJustPrep))) (keep_from_peers h (getCurrentLeader h)) h)))
       else Inr h)"

definition respondToPrepareJustPara :: "crypto \<Rightarrow> Just \<Rightarrow> Handler \<Rightarrow> Handler res" where
  "respondToPrepareJustPara C justPrep h =
     bindE (callTEEstorePara C justPrep h) (\<lambda>(justPc, h).
     bindE (getRDataPara justPc) (\<lambda>r.
       Inr (sendMsg (Net_PreCommitPara (Msg_new r (j_signs justPc))) (keep_from_peers h (getCurrentLeader h)) h)))"

definition respondToPreCommitJustPara :: "crypto \<Rightarrow> Just \<Rightarrow> Handler \<Rightarrow> Handler res" where
  "respondToPreCommitJustPara C justPc h =
     bindE (getRDataPara justPc) (\<lambda>rp.
     bindE (callTEEstorePara C justPc h) (\<lambda>(justCom, h).
     bindE (getRDataPara justCom) (\<lambda>r.
       Inr (sendMsg (Net_CommitPara (Msg_new r (j_signs justCom))) (keep_from_peers h (getCurrentLeader h)) h))))"

section \<open>Execution\<close>

definition replyHashPara :: "crypto \<Rightarrow> Hash \<Rightarrow> u32 \<Rightarrow> Handler \<Rightarrow> Handler res" where
  "replyHashPara C hash sq h =
     bindE (pblocks_get (h_view h) (unat (sq - 1)) h) (\<lambda>(pblock, h).
       if \<not> pblock_isBlock pblock then Inr h
       else bindE (pblock_hash C pblock) (\<lambda>bh.
              if hash_eq bh hash then replyTransactions (p_transactions pblock) h else Inr h))"

definition executeRDataPara :: "crypto \<Rightarrow> (Handler \<Rightarrow> Handler res) \<Rightarrow> RDataPara \<Rightarrow> Handler \<Rightarrow> Handler res" where
  "executeRDataPara C snv rdata h =
     bindE (replyHashPara C (proph rdata) (seqNumber rdata) h) (\<lambda>h.
       let h = h\<lparr>h_lastExecutedSeq := seqNumber rdata\<rparr> in
       if timeToStop h \<and> seqNumber rdata = h_maxBlocksInView h
       then Inr (emit [StopPeers, StopClients, TimerDel] (recordStats h))
       else if seqNumber rdata = h_maxBlocksInView h
       then snv (h\<lparr>h_viewsWithoutNewTrans := (if h_transactions h = [] then h_viewsWithoutNewTrans h + 1 else 0)\<rparr>)
       else Inr h)"

text \<open>
  \<open>findHighestSeq\<close>: the last of the sequence numbers 1, 2, ..., up to \<open>seqNumber\<close>, for which
  a commit message is stored, as long as there is no gap.
\<close>

primrec highestSeq_loop :: "Log \<Rightarrow> View \<Rightarrow> nat \<Rightarrow> u32 \<Rightarrow> u32 \<Rightarrow> u32" where
  "highestSeq_loop l v 0 i highest = highest"
| "highestSeq_loop l v (Suc n) i highest =
     (if hasCommitForSeq v i l then highestSeq_loop l v n (i + 1) i else highest)"

definition findHighestSeq :: "u32 \<Rightarrow> Handler \<Rightarrow> u32" where
  "findHighestSeq sq h = highestSeq_loop (h_log h) (h_view h) (unat sq) 1 0"

text \<open>
  \<open>executeBlocksFrom\<close>: the bounds arrive as \<open>int\<close>s and are compared with the unsigned
  \<open>maxBlocksInView\<close> as words; \<open>i\<close> runs over \<open>startSeq - 1, ..., endSeq - 1\<close>.
\<close>

definition vec_index :: "int \<Rightarrow> nat" where
  "vec_index i = nat (i mod 2 ^ 64)"

fun execute_loop :: "crypto \<Rightarrow> (Handler \<Rightarrow> Handler res) \<Rightarrow> View \<Rightarrow> int list \<Rightarrow> bool \<Rightarrow> Hash \<Rightarrow> Handler \<Rightarrow> Handler res" where
  "execute_loop C snv v [] prevExists prevHash h = Inr h"
| "execute_loop C snv v (i # k) prevExists prevHash h =
     bindE (pblocks_get v (vec_index i) h) (\<lambda>(b, h).
       if pblock_isBlock b \<and> prevExists \<and> i > 0 \<and> \<not> pblock_extends b prevHash then Inr h
       else
         bindE (if pblock_isBlock b then bindE (pblock_hash C b) (\<lambda>hb. Inr (hb, True)) else Inr (prevHash, False))
           (\<lambda>(prevHash, prevExists).
         let rdata = m_rdata (getCommitForSeq v (word_of_int (i + 1)) (h_log h)) in
         bindE (if seqNumber rdata = word_of_int (i + 1) then executeRDataPara C snv rdata h else Inr h)
           (execute_loop C snv v k prevExists prevHash)))"

definition executeBlocksFrom :: "crypto \<Rightarrow> (Handler \<Rightarrow> Handler res) \<Rightarrow> View \<Rightarrow> int \<Rightarrow> int \<Rightarrow> Handler \<Rightarrow> Handler res" where
  "executeBlocksFrom C snv v startSeq endSeq h =
     (if word_of_int startSeq > h_maxBlocksInView h \<or> word_of_int endSeq > h_maxBlocksInView h then Inr h
      else
        (let h = snd (pblocks_at v h) in
         bindE (if startSeq > 1 then
                  bindE (pblocks_get v (vec_index (startSeq - 2)) h) (\<lambda>(b, h).
                    if pblock_isBlock b then bindE (pblock_hash C b) (\<lambda>hb. Inr ((True, hb), h))
                    else Inr ((startSeq = 1, Hash_default), h))
                else Inr ((startSeq = 1, Hash_default), h)) (\<lambda>((prevExists, prevHash), h).
           execute_loop C snv v [startSeq - 1 .. endSeq - 1] prevExists prevHash h)))"

text \<open>The common end of the commit handlers: execute what has become contiguous.\<close>

definition executeReady :: "crypto \<Rightarrow> (Handler \<Rightarrow> Handler res) \<Rightarrow> u32 \<Rightarrow> Handler \<Rightarrow> Handler res" where
  "executeReady C snv sq h =
     (let highest = findHighestSeq sq h in
      if highest > h_lastExecutedSeq h
      then executeBlocksFrom C snv (h_view h) (sint (h_lastExecutedSeq h + 1)) (sint highest) h
      else Inr h)"

definition initiateCommitPara :: "crypto \<Rightarrow> (Handler \<Rightarrow> Handler res) \<Rightarrow> RDataPara \<Rightarrow> Handler \<Rightarrow> Handler res" where
  "initiateCommitPara C snv rdata h =
     bindE (getCommitPara (propv rdata) (h_qsize h) (seqNumber rdata) (h_log h)) (\<lambda>signs.
       if sg_size signs = h_qsize h then
         executeReady C snv (seqNumber rdata)
           (sendMsg (Net_CommitPara (Msg_new rdata signs)) (remove_from_peers h (h_myid h)) h)
       else Inr h)"

section \<open>Missing blocks\<close>

text \<open>The unsigned loop \<open>for (i = 1; i <= seqNumber; ++i)\<close>: it does not end for the largest \<open>seqNumber\<close>.\<close>

primrec missing_loop :: "PBlock list \<Rightarrow> u32 \<Rightarrow> nat \<Rightarrow> u32 \<Rightarrow> u32 list \<Rightarrow> u32 list res" where
  "missing_loop blocks sq 0 i missing = Inl Diverges"
| "missing_loop blocks sq (Suc fuel) i missing =
     (if i \<le> sq then
        missing_loop blocks sq fuel (i + 1)
          (if unat i > length blocks \<or> \<not> pblock_isBlock (blocks ! unat (i - 1)) then missing @ [i] else missing)
      else Inr missing)"

definition getMissingSeqNumbersForJust :: "Just \<Rightarrow> Handler \<Rightarrow> (u32 list \<times> Handler) res" where
  "getMissingSeqNumbersForJust justNV h =
     bindE (getRDataPara justNV) (\<lambda>r.
       let (blocks, h) = pblocks_at (justv r) h in
       bindE (missing_loop blocks (seqNumber r) (Suc (unat (seqNumber r))) 1 []) (\<lambda>missing. Inr (missing, h)))"

section \<open>Changing the view\<close>

definition changeView :: "View \<Rightarrow> Handler \<Rightarrow> Handler" where
  "changeView newView h =
     (let h = h\<lparr>h_tpara := tq_changeView newView (h_tpara h), h_view := newView\<rparr>;
          h = (pblocks_resize newView h)\<lparr>h_lastExecutedSeq := 0\<rparr>
      in setTimer h)"

section \<open>New views\<close>

definition handleNewViewPara :: "crypto \<Rightarrow> MsgNewViewPara \<Rightarrow> Handler \<Rightarrow> Handler res" where
  "handleNewViewPara C msg h =
     (if maxViewsReached h then Inr h
      else
        (let hashP = proph (m_rdata msg); viewP = propv (m_rdata msg); ph = phase (m_rdata msg) in
         if hash_isDummy hashP \<and> viewP \<ge> h_view h \<and> ph = PH1_NEWVIEW \<and> amLeaderOf h viewP then
           bindE (storeNvPara msg (h_log h)) (\<lambda>(l, storedNewViews).
             let h = h\<lparr>h_log := l\<rparr> in
             if storedNewViews = h_qsize h then
               (let h = (if viewP > h_view h then changeView viewP (snd (callTEEsignPara C h)) else h);
                    justNV = findHighestNvPara (h_view h) (h_log h)
                in bindE (getMissingSeqNumbersForJust justNV h) (\<lambda>(missing, h).
                   let recover = h_forced h (h_draws h); h = h\<lparr>h_draws := h_draws h + 1\<rparr> in
                   if h_view h = 0 then initiateVerifyPara C justNV h
                   else if missing = [] then
                     (if recover then
                        bindE (getRDataPara justNV) (\<lambda>r.
                        let h = (case map_find (h_pblocks h) (justv r) of
                                   Some _ \<Rightarrow> h\<lparr>h_pblocks := map_set (justv r)
                                       (replicate (unat (h_maxBlocksInView h)) PBlock_default) (h_pblocks h)\<rparr>
                                 | None \<Rightarrow> h)
                        in bindE (getMissingSeqNumbersForJust justNV h) (\<lambda>(missing, h).
                             initiateRecoverPara missing justNV h))
                      else initiateVerifyPara C justNV h)
                   else initiateRecoverPara missing justNV h))
             else Inr h)
         else Inr h))"

section \<open>Proposals\<close>

definition handleLdrPreparePara :: "crypto \<Rightarrow> MsgLdrPreparePara \<Rightarrow> Handler \<Rightarrow> Handler res" where
  "handleLdrPreparePara C msg h =
     (if maxViewsReached h then Inr h
      else
        (let justNV = pr_just (l_prop msg); b = pr_block (l_prop msg) in
         bindE (getRDataPara justNV) (\<lambda>rdataNV.
           let h = snd (pblocks_at (h_view h) h) in
           bindE (if propv rdataNV < h_view h then Inr False else verifyJustPara C h justNV) (\<lambda>verified.
             if \<not> verified then Inr h
             else if propv rdataNV = h_view h then
               bindE (just_eq justNV (h_verifiedJust h)) (\<lambda>same.
                 if same then
                   bindE (pblocks_get (h_view h) (unat (p_seqNumber b - 1)) h) (\<lambda>(b0, h).
                     if \<not> pblock_isBlock b0 then respondToProposalPara C justNV b h else Inr h)
                 else
                   bindE (getRDataPara (h_verifiedJust h)) (\<lambda>rv.
                     if justv rdataNV > justv rv
                     then bindE (storePropPara msg (h_log h)) (\<lambda>(l, n). Inr (h\<lparr>h_log := l\<rparr>))
                     else Inr h))
             else bindE (storePropPara msg (h_log h)) (\<lambda>(l, n). Inr (h\<lparr>h_log := l\<rparr>))))))"

section \<open>Recovery\<close>

text \<open>
  The loop of \<open>handleRecoverPara\<close> over the received blocks. The flag says that the handler
  has returned from inside the loop.
\<close>

fun recover_loop :: "crypto \<Rightarrow> Just \<Rightarrow> View \<Rightarrow> PBlock list \<Rightarrow> u32 list \<Rightarrow> Handler \<Rightarrow> ((bool \<times> u32 list) \<times> Handler) res" where
  "recover_loop C just v [] missing h = Inr ((False, missing), h)"
| "recover_loop C just v (block # bs) missing h =
     (let sq = p_seqNumber block;
          h = (case map_find (h_pblocks h) v of
                 None \<Rightarrow> pblocks_resize v h
               | Some vec \<Rightarrow> if length vec < unat sq then pblocks_resize v h else h)
      in bindE (pblocks_get v (unat (sq - 1)) h) (\<lambda>(b0, h).
           if \<not> pblock_isBlock b0 then
             bindE (pblocks_put v (unat (sq - 1)) block h) (\<lambda>h.
             bindE (getMissingSeqNumbersForJust just h) (\<lambda>(missing, h).
               if missing = [] then bindE (initiateVerifyPara C just h) (\<lambda>h. Inr ((True, missing), h))
               else recover_loop C just v bs missing h))
           else recover_loop C just v bs missing h))"

text \<open>The search for the first missing number from 1 on, in steps of 1.\<close>

primrec first_missing :: "u32 list \<Rightarrow> nat \<Rightarrow> int \<Rightarrow> int res" where
  "first_missing missing 0 i = Inl Diverges"
| "first_missing missing (Suc fuel) i =
     (if word_of_int i \<notin> set missing then first_missing missing fuel (i + 1) else Inr i)"

definition handleRecoverPara :: "crypto \<Rightarrow> MsgRecoverPara \<Rightarrow> Handler \<Rightarrow> Handler res" where
  "handleRecoverPara C msg h =
     (if maxViewsReached h then Inr h
      else if \<not> amCurrentLeader h then Inr h
      else
        (let v = justv (rc_rdata msg); just = JustPara_signs (rc_rdata msg) (rc_signs msg) in
         bindE (getMissingSeqNumbersForJust just h) (\<lambda>(missing, h).
           if missing = [] then Inr h
           else
             (let h = (case map_find (h_recoverResponses h) v of
                         None \<Rightarrow> h\<lparr>h_recoverResponses := map_set v 1 (h_recoverResponses h)\<rparr>
                       | Some _ \<Rightarrow> h)
              in bindE (verifyJustPara C h just) (\<lambda>verified.
                 bindE (if verified then recover_loop C just v (rc_blocks msg) missing h
                        else Inr ((False, missing), h)) (\<lambda>((returned, missing), h).
                   if returned then Inr h
                   else
                     (let n = fst (map_at 0 (h_recoverResponses h) v) + 1;
                          h = h\<lparr>h_recoverResponses := map_set v n (h_recoverResponses h)\<rparr>
                      in if n \<ge> h_qsize h then
                           bindE (first_missing missing (Suc (unat (seqNumber (rc_rdata msg)))) 1) (\<lambda>i.
                             if i - 1 > 0 then initiateVerifyPara C just h
                             else
                               bindE (getRDataPara (h_verifiedJust h)) (\<lambda>rv.
                                 if propv rv = h_view h - 1 then
                                   (let newRData = RDataPara_new Hash_default (h_view h) (justh rv) (justv rv) (phase rv) (seqNumber rv);
                                        newJust = JustPara_signs newRData (j_signs (h_verifiedJust h))
                                    in preparePara C newJust
                                         (sendMsg (Net_VerifyPara \<lparr>vf_rdata = newRData, vf_signs = j_signs (h_verifiedJust h),
                                            vf_hashes = []\<rparr>) (remove_from_peers h (h_myid h)) h))
                                 else Inr h))
                         else Inr h)))))))"

fun recover_answer :: "View \<Rightarrow> u32 list \<Rightarrow> PBlock list \<Rightarrow> Handler \<Rightarrow> (PBlock list \<times> Handler) res" where
  "recover_answer v [] blocksToSend h = Inr (blocksToSend, h)"
| "recover_answer v (sq # k) blocksToSend h =
     bindE (pblocks_get v (unat (sq - 1)) h) (\<lambda>(b, h).
       recover_answer v k (if pblock_isBlock b then blocksToSend @ [b] else blocksToSend) h)"

definition handleLdrRecoverPara :: "MsgLdrRecoverPara \<Rightarrow> Handler \<Rightarrow> Handler res" where
  "handleLdrRecoverPara msg h =
     (if maxViewsReached h then Inr h
      else
        (let v = justv (lr_rdata msg);
             (bs, h) = (if unat v < length (h_pblocks h) then pblocks_at v h else ([], h))
         in bindE (if bs \<noteq> [] then recover_answer v (lr_missing msg) [] h else Inr ([], h)) (\<lambda>(blocksToSend, h).
              Inr (sendMsg (Net_RecoverPara \<lparr>rc_rdata = lr_rdata msg, rc_signs = lr_signs msg, rc_blocks = blocksToSend\<rparr>)
                     (keep_from_peers h (getCurrentLeader h)) h))))"

section \<open>Verification of the leader's certificate\<close>

text \<open>\<open>blocks[i].isBlock() && blocks[i].hash() == blockHashes[i]\<close> for every hash, in order.\<close>

fun hashes_match :: "crypto \<Rightarrow> PBlock list \<Rightarrow> Hash list \<Rightarrow> bool res" where
  "hashes_match C bs [] = Inr True"
| "hashes_match C [] (x # xs) = Inl OutOfBounds"
| "hashes_match C (b # bs) (x # xs) =
     (if \<not> pblock_isBlock b then Inr False
      else bindE (pblock_hash C b) (\<lambda>hb. if hash_neq hb x then Inr False else hashes_match C bs xs))"

definition handleVerifyPara_body :: "crypto \<Rightarrow> (Handler \<Rightarrow> Handler res) \<Rightarrow> MsgVerifyPara \<Rightarrow> Handler \<Rightarrow> Handler res" where
  "handleVerifyPara_body C hem msg h =
     (if maxViewsReached h then Inr h
      else
        (let rdata = vf_rdata msg;
             accept = (\<lambda>checkHashes h.
               bindE (callTEEVerifyPara C (JustPara_signs rdata (vf_signs msg)) (vf_hashes msg) checkHashes h) (\<lambda>js.
                 if j_set js then hem (h\<lparr>h_verifiedJust := js\<rparr>) else Inr h))
         in if propv rdata \<ge> h_view h then
              (let h = (if propv rdata > h_view h then changeView (propv rdata) h else h) in
               if propv rdata = h_view h then
                 bindE (getRDataPara (h_verifiedJust h)) (\<lambda>rv.
                   if justv rdata > propv rv then
                     (let (blocks, h) = pblocks_at (justv rdata) h in
                      bindE (if length blocks \<ge> length (vf_hashes msg) then hashes_match C blocks (vf_hashes msg)
                             else Inr False) (\<lambda>hashesMatch.
                        if hashesMatch then accept True h else Inr h))
                   else accept False h)
               else Inr (h\<lparr>h_log := fst (storeVerifyPara msg (h_log h))\<rparr>))
            else Inr h))"

section \<open>Earlier messages and the view change\<close>

text \<open>The body of the loop over the sequence numbers.\<close>

definition earlier_seq :: "crypto \<Rightarrow> (Handler \<Rightarrow> Handler res) \<Rightarrow> u32 \<Rightarrow> Handler \<Rightarrow> Handler res" where
  "earlier_seq C snv sq h =
     bindE (getPrecommitPara (h_view h) (h_qsize h) sq (h_log h)) (\<lambda>signsPc.
       if sg_size signsPc = h_qsize h then
         bindE (respondToPreCommitJustPara C (firstPrecommitPara (h_view h) sq (h_log h)) h) (\<lambda>h.
         bindE (getCommitPara (h_view h) (h_qsize h) sq (h_log h)) (\<lambda>signsCom.
           if sg_size signsCom = h_qsize h then executeReady C snv sq h else Inr h))
       else
         bindE (getPreparePara (h_view h) (h_qsize h) sq (h_log h)) (\<lambda>signsPrep.
           if sg_size signsPrep = h_qsize h
           then respondToPrepareJustPara C (firstPreparePara (h_view h) sq (h_log h)) h
           else
             (let msgProp = firstProposalPara (h_view h) sq (h_log h) in
              if sg_size (l_signs msgProp) = 1 then handleLdrPreparePara C msgProp h else Inr h)))"

fun earlier_loop :: "crypto \<Rightarrow> (Handler \<Rightarrow> Handler res) \<Rightarrow> u32 list \<Rightarrow> Handler \<Rightarrow> Handler res" where
  "earlier_loop C snv [] h = Inr h"
| "earlier_loop C snv (sq # k) h = bindE (earlier_seq C snv sq h) (earlier_loop C snv k)"

definition handleEarlierMessagesPara_body ::
  "crypto \<Rightarrow> (MsgVerifyPara \<Rightarrow> Handler \<Rightarrow> Handler res) \<Rightarrow> (Handler \<Rightarrow> Handler res) \<Rightarrow> Handler \<Rightarrow> Handler res" where
  "handleEarlierMessagesPara_body C hv snv h =
     (if amCurrentLeader h then
        bindE (getNewViewPara (h_view h) (h_qsize h) (h_log h)) (\<lambda>signsNV.
          if sg_size signsNV = h_qsize h then
            (let justNV = findHighestNvPara (h_view h) (h_log h) in
             bindE (getMissingSeqNumbersForJust justNV h) (\<lambda>(missing, h).
               if missing = [] \<or> h_view h = 0 then initiateVerifyPara C justNV h
               else initiateRecoverPara missing justNV h))
          else Inr h)
      else
        bindE (getRDataPara (h_verifiedJust h)) (\<lambda>rv.
          if propv rv \<noteq> h_view h then
            (let verifyMsg = getVerifyPara (h_view h) (h_log h) in
             if \<not> verify_isEmpty verifyMsg then hv verifyMsg h else Inr h)
          else earlier_loop C snv (map word_of_nat [1..<Suc (unat (h_maxBlocksInView h))]) h))"

text \<open>The signing loop: enough steps for a component whose view is not ahead by a wrap.\<close>

primrec signUntilViewPara :: "crypto \<Rightarrow> View \<Rightarrow> nat \<Rightarrow> Just \<Rightarrow> Handler \<Rightarrow> (Just \<times> Handler) res" where
  "signUntilViewPara C v 0 just h = Inl Diverges"
| "signUntilViewPara C v (Suc fuel) just h =
     bindE (getRDataPara just) (\<lambda>r.
       if propv r \<le> v then (let (just, h) = callTEEsignPara C h in signUntilViewPara C v fuel just h)
       else Inr (just, h))"

definition startNewViewPara_body :: "crypto \<Rightarrow> (Handler \<Rightarrow> Handler res) \<Rightarrow> Handler \<Rightarrow> Handler res" where
  "startNewViewPara_body C hem h =
     (let (just, h) = callTEEsignPara C h in
      bindE (signUntilViewPara C (h_view h) (2 * (unat (h_view h) + 2)) just h) (\<lambda>(just, h).
        let h = changeView (h_view h + 1) h in
        bindE (getRDataPara just) (\<lambda>r.
          if propv r = h_view h \<and> phase r = PH1_NEWVIEW then
            (let msg = Msg_new r (j_signs just) in
             if amCurrentLeader h then bindE (hem h) (handleNewViewPara C msg)
             else hem (sendMsg (Net_NewViewPara msg) (keep_from_peers h (getCurrentLeader h)) h))
          else Inr h)))"

text \<open>The knot; two steps of fuel per view.\<close>

primrec earlierPara_fuel :: "crypto \<Rightarrow> nat \<Rightarrow> Handler \<Rightarrow> Handler res" where
  "earlierPara_fuel C 0 h = Inl Diverges"
| "earlierPara_fuel C (Suc fuel) h =
     handleEarlierMessagesPara_body C (handleVerifyPara_body C (earlierPara_fuel C fuel))
       (startNewViewPara_body C (earlierPara_fuel C fuel)) h"

definition para_fuel :: nat where "para_fuel = 2 ^ 33"

definition handleEarlierMessagesPara :: "crypto \<Rightarrow> Handler \<Rightarrow> Handler res" where
  "handleEarlierMessagesPara C h = earlierPara_fuel C para_fuel h"

definition startNewViewPara :: "crypto \<Rightarrow> Handler \<Rightarrow> Handler res" where
  "startNewViewPara C h = startNewViewPara_body C (handleEarlierMessagesPara C) h"

definition handleVerifyPara :: "crypto \<Rightarrow> MsgVerifyPara \<Rightarrow> Handler \<Rightarrow> Handler res" where
  "handleVerifyPara C msg h = handleVerifyPara_body C (handleEarlierMessagesPara C) msg h"

section \<open>Votes\<close>

definition handlePreparePara :: "crypto \<Rightarrow> MsgPreparePara \<Rightarrow> Handler \<Rightarrow> Handler res" where
  "handlePreparePara C msg h =
     (if maxViewsReached h then Inr h
      else
        (let rdata = m_rdata msg; signs = m_signs msg in
         if propv rdata = h_view h then
           (if amCurrentLeader h then
              bindE (storePrepPara msg (h_log h)) (\<lambda>(l, n).
                let h = h\<lparr>h_log := l\<rparr> in
                if n = h_qsize h then initiatePreparePara C rdata h else Inr h)
            else if sg_size signs = h_qsize h \<and> \<not> hasPrepForSeq (h_view h) (seqNumber rdata) (h_log h) then
              bindE (storePrepPara msg (h_log h)) (\<lambda>(l, n).
                respondToPrepareJustPara C (JustPara_signs rdata signs) (h\<lparr>h_log := l\<rparr>))
            else Inr h)
         else if propv rdata > h_view h then
           bindE (storePrepPara msg (h_log h)) (\<lambda>(l, n). Inr (h\<lparr>h_log := l\<rparr>))
         else Inr h))"

definition handlePrecommitPara :: "crypto \<Rightarrow> MsgPreCommitPara \<Rightarrow> Handler \<Rightarrow> Handler res" where
  "handlePrecommitPara C msg h =
     (if maxViewsReached h then Inr h
      else
        (let rdata = m_rdata msg; signs = m_signs msg in
         if propv rdata = h_view h \<and> phase rdata = PH1_PRECOMMIT then
           (if amCurrentLeader h then
              bindE (storePcPara msg (h_log h)) (\<lambda>(l, n).
                let h = h\<lparr>h_log := l\<rparr> in
                if n = h_qsize h then initiatePrecommitPara C rdata h else Inr h)
            else if sg_size signs = h_qsize h \<and> \<not> hasPrecommitForSeq (h_view h) (seqNumber rdata) (h_log h) then
              bindE (storePcPara msg (h_log h)) (\<lambda>(l, n).
                respondToPreCommitJustPara C (JustPara_signs rdata signs) (h\<lparr>h_log := l\<rparr>))
            else Inr h)
         else if propv rdata > h_view h then
           bindE (storePcPara msg (h_log h)) (\<lambda>(l, n). Inr (h\<lparr>h_log := l\<rparr>))
         else Inr h))"

definition handleCommitPara :: "crypto \<Rightarrow> (Handler \<Rightarrow> Handler res) \<Rightarrow> MsgCommitPara \<Rightarrow> Handler \<Rightarrow> Handler res" where
  "handleCommitPara C snv msg h =
     (if maxViewsReached h then Inr h
      else
        (let rdata = m_rdata msg; signs = m_signs msg in
         if propv rdata = h_view h \<and> phase rdata = PH1_COMMIT then
           (if amCurrentLeader h then
              bindE (storeComPara msg (h_log h)) (\<lambda>(l, n).
                let h = h\<lparr>h_log := l\<rparr> in
                if n = h_qsize h then initiateCommitPara C snv rdata h else Inr h)
            else if sg_size signs = h_qsize h then
              bindE (verifyJustPara C h (JustPara_signs rdata signs)) (\<lambda>b.
                if b then
                  bindE (storeComPara msg (h_log h)) (\<lambda>(l, n).
                    executeReady C snv (seqNumber rdata) (h\<lparr>h_log := l\<rparr>))
                else Inr h)
            else Inr h)
         else if propv rdata > h_view h then
           (if amLeaderOf h (propv rdata) then
              bindE (storeComPara msg (h_log h)) (\<lambda>(l, n). Inr (h\<lparr>h_log := l\<rparr>))
            else
              bindE (verifyJustPara C h (JustPara_signs rdata signs)) (\<lambda>b.
                if b then bindE (storeComPara msg (h_log h)) (\<lambda>(l, n). Inr (h\<lparr>h_log := l\<rparr>)) else Inr h))
         else Inr h))"

section \<open>The callbacks\<close>

definition handle_newview_para :: "crypto \<Rightarrow> MsgNewViewPara \<Rightarrow> Handler \<Rightarrow> Handler res" where
  "handle_newview_para C msg h = (if \<not> h_isPaused h then handleNewViewPara C msg h else Inr h)"

definition handle_ldrprepare_para :: "crypto \<Rightarrow> MsgLdrPreparePara \<Rightarrow> Handler \<Rightarrow> Handler res" where
  "handle_ldrprepare_para C msg h = (if \<not> h_isPaused h then handleLdrPreparePara C msg h else Inr h)"

definition handle_recover_para :: "crypto \<Rightarrow> MsgRecoverPara \<Rightarrow> Handler \<Rightarrow> Handler res" where
  "handle_recover_para C msg h = (if \<not> h_isPaused h then handleRecoverPara C msg h else Inr h)"

definition handle_ldrrecover_para :: "MsgLdrRecoverPara \<Rightarrow> Handler \<Rightarrow> Handler res" where
  "handle_ldrrecover_para msg h = (if \<not> h_isPaused h then handleLdrRecoverPara msg h else Inr h)"

definition handle_verify_para :: "crypto \<Rightarrow> MsgVerifyPara \<Rightarrow> Handler \<Rightarrow> Handler res" where
  "handle_verify_para C msg h = (if \<not> h_isPaused h then handleVerifyPara C msg h else Inr h)"

definition handle_prepare_para :: "crypto \<Rightarrow> MsgPreparePara \<Rightarrow> Handler \<Rightarrow> Handler res" where
  "handle_prepare_para C msg h = (if \<not> h_isPaused h then handlePreparePara C msg h else Inr h)"

definition handle_precommit_para :: "crypto \<Rightarrow> MsgPreCommitPara \<Rightarrow> Handler \<Rightarrow> Handler res" where
  "handle_precommit_para C msg h = (if \<not> h_isPaused h then handlePrecommitPara C msg h else Inr h)"

definition handle_commit_para :: "crypto \<Rightarrow> MsgCommitPara \<Rightarrow> Handler \<Rightarrow> Handler res" where
  "handle_commit_para C msg h = (if \<not> h_isPaused h then handleCommitPara C (startNewViewPara C) msg h else Inr h)"

definition getStartedPara :: "crypto \<Rightarrow> Handler \<Rightarrow> Handler res" where
  "getStartedPara C h =
     (let recipients = keep_from_peers h (getCurrentLeader h); (j, h) = callTEEsignPara C h in
      bindE (getRDataPara j) (\<lambda>r.
        let msg = Msg_new r (j_signs j); h = setTimer h in
        if amCurrentLeader h then handleNewViewPara C msg h
        else Inr (sendMsg (Net_NewViewPara msg) recipients h)))"

datatype para_event =
    P_newview MsgNewViewPara | P_ldrprepare MsgLdrPreparePara | P_recover MsgRecoverPara
  | P_ldrrecover MsgLdrRecoverPara | P_verify MsgVerifyPara | P_prepare MsgPreparePara
  | P_precommit MsgPreCommitPara | P_commit MsgCommitPara
  | P_transaction MsgTransaction | P_timer | P_signal int | P_replies

fun para_step :: "crypto \<Rightarrow> (conn \<Rightarrow> bool) \<Rightarrow> para_event \<Rightarrow> Handler \<Rightarrow> Handler res" where
  "para_step C send_ok (P_newview m) h = handle_newview_para C m h"
| "para_step C send_ok (P_ldrprepare m) h = handle_ldrprepare_para C m h"
| "para_step C send_ok (P_recover m) h = handle_recover_para C m h"
| "para_step C send_ok (P_ldrrecover m) h = handle_ldrrecover_para m h"
| "para_step C send_ok (P_verify m) h = handle_verify_para C m h"
| "para_step C send_ok (P_prepare m) h = handle_prepare_para C m h"
| "para_step C send_ok (P_precommit m) h = handle_precommit_para C m h"
| "para_step C send_ok (P_commit m) h = handle_commit_para C m h"
| "para_step C send_ok (P_transaction m) h = Inr (handle_transaction m h)"
| "para_step C send_ok P_timer h = on_timer (startNewViewPara C) h"
| "para_step C send_ok (P_signal s) h = Inr (signalHandler s h)"
| "para_step C send_ok P_replies h = Inr (process_rep_queue send_ok h)"

end
