(* ===== verification/ParallelProps.thy ===== *)
theory ParallelProps
  imports ParallelHotStuff BasicProps
begin

text \<open>
  What the parallel protocol guarantees, and where it does not: the missing sequence
  numbers and the contiguous commits, the order of execution, the single vote per sequence
  number, the leader's chain of proposals; and the messages that are acted on without a
  certificate.
\<close>

lemma word_of_nat_unat: "word_of_nat (unat (x :: u32)) = x"
  by simp

lemma not_last_word: "(x :: u32) \<noteq> - 1 \<Longrightarrow> unat x + 1 < 2 ^ 32"
  by (rule unat_u32_max [of x "- 1"]) (simp add: word_order.not_eq_extremum)

section \<open>The block vectors\<close>

lemma pblocks_at_known [simp]: "map_find (h_pblocks h) v = Some bs \<Longrightarrow> pblocks_at v h = (bs, h)"
  by (simp add: pblocks_at_def map_at_def)

lemma pblocks_at_sel:
  assumes "pblocks_at v h = (bs, h')"
  shows "\<exists>m. h' = h\<lparr>h_pblocks := m\<rparr> \<and> map_find m v = Some bs \<and>
     (\<forall>w. w \<noteq> v \<longrightarrow> map_find m w = map_find (h_pblocks h) w)"
proof (cases "map_find (h_pblocks h) v")
  case None
  with assms show ?thesis
    by (intro exI [of _ "map_set v [] (h_pblocks h)"]) (auto simp: pblocks_at_def map_at_def)
next
  case (Some x)
  with assms show ?thesis
    by (intro exI [of _ "h_pblocks h"]) auto
qed

lemma pblocks_get_known:
  "map_find (h_pblocks h) v = Some bs \<Longrightarrow>
   pblocks_get v i h = (if i < length bs then Inr (bs ! i, h) else Inl OutOfBounds)"
  by (simp add: pblocks_get_def arr_get_def)

lemma pblocks_put_known:
  "map_find (h_pblocks h) v = Some bs \<Longrightarrow>
   pblocks_put v i b h = (if i < length bs then Inr (h\<lparr>h_pblocks := map_set v (bs[i := b]) (h_pblocks h)\<rparr>) else Inl OutOfBounds)"
  by (simp add: pblocks_put_def arr_set_def)

section \<open>Missing blocks\<close>

text \<open>Sequence number \<open>i\<close> has a block in the vector.\<close>

definition has_block :: "PBlock list \<Rightarrow> u32 \<Rightarrow> bool" where
  "has_block bs i \<longleftrightarrow> unat i \<le> length bs \<and> pblock_isBlock (bs ! unat (i - 1))"

lemma missing_loop_spec:
  "unat i + fuel = unat sq + 2 \<Longrightarrow> 1 \<le> unat i \<Longrightarrow> unat i \<le> unat sq + 1 \<Longrightarrow> unat sq + 1 < 2 ^ 32 \<Longrightarrow>
   missing_loop bs sq fuel i acc =
     Inr (acc @ filter (\<lambda>k. \<not> has_block bs k) (map word_of_nat [unat i..<Suc (unat sq)]))"
proof (induction fuel arbitrary: i acc)
  case 0
  then show ?case by simp
next
  case (Suc fuel)
  show ?case
  proof (cases "i \<le> sq")
    case False
    then have "unat sq < unat i" by (simp add: word_le_nat_alt not_le)
    with False show ?thesis by simp
  next
    case True
    then have le: "unat i \<le> unat sq" by (simp add: word_le_nat_alt)
    with Suc.prems(4) have u: "unat (i + 1) = Suc (unat i)" by (intro unat_Suc_u32) simp
    have up: "[unat i..<Suc (unat sq)] = unat i # [Suc (unat i)..<Suc (unat sq)]"
      using le by (simp add: upt_conv_Cons)
    have "missing_loop bs sq fuel (i + 1) acc' =
        Inr (acc' @ filter (\<lambda>k. \<not> has_block bs k) (map word_of_nat [Suc (unat i)..<Suc (unat sq)]))" for acc'
      using Suc.IH [of "i + 1" acc'] Suc.prems le u by simp
    with True show ?thesis unfolding up by (auto simp: has_block_def not_le simp del: upt_Suc)
  qed
qed

lemma missing_loop_wraps: "missing_loop bs (- 1) fuel i acc = Inl Diverges"
  by (induction fuel arbitrary: i acc) simp_all

section \<open>Contiguous commits\<close>

lemma highestSeq_loop_spec:
  "unat i + n = Suc (unat (sq :: u32)) \<Longrightarrow> hi = word_of_nat (unat i - 1) \<Longrightarrow> 1 \<le> unat i \<Longrightarrow>
   \<exists>k. highestSeq_loop l v n i hi = word_of_nat k \<and> unat i \<le> Suc k \<and> k \<le> unat sq \<and>
     (\<forall>j. unat i \<le> j \<and> j \<le> k \<longrightarrow> hasCommitForSeq v (word_of_nat j) l) \<and>
     (k < unat sq \<longrightarrow> \<not> hasCommitForSeq v (word_of_nat (Suc k)) l)"
proof (induction n arbitrary: i hi)
  case 0
  then show ?case by (intro exI [of _ "unat i - 1"]) auto
next
  case (Suc n)
  show ?case
  proof (cases "hasCommitForSeq v i l")
    case False
    with Suc.prems show ?thesis by (intro exI [of _ "unat i - 1"]) auto
  next
    case True
    show ?thesis
    proof (cases n)
      case 0
      with Suc.prems have "i = sq" by (metis add_Suc_right add.right_neutral old.nat.inject word_unat_eq_iff)
      with True 0 show ?thesis by (intro exI [of _ "unat i"]) (auto simp: le_Suc_eq)
    next
      case (Suc m)
      with Suc.prems have "unat i < unat sq" by simp
      then have u: "unat (i + 1) = Suc (unat i)" using unat_u32_less [of sq] by (intro unat_Suc_u32) simp
      with Suc.prems Suc.IH [of "i + 1" i] obtain k where
        k: "highestSeq_loop l v n (i + 1) i = word_of_nat k" "Suc (unat i) \<le> Suc k" "k \<le> unat sq"
          "\<forall>j. Suc (unat i) \<le> j \<and> j \<le> k \<longrightarrow> hasCommitForSeq v (word_of_nat j) l"
          "k < unat sq \<longrightarrow> \<not> hasCommitForSeq v (word_of_nat (Suc k)) l"
        by auto
      have "hasCommitForSeq v (word_of_nat j) l" if "unat i \<le> j \<and> j \<le> k" for j
        using that True k(4) by (cases "j = unat i") auto
      with True k show ?thesis by (intro exI [of _ k]) simp
    qed
  qed
qed

section \<open>A concrete node\<close>

text \<open>Node 0 of four with two blocks per view, and the key table of four nodes.\<close>

definition demo_four :: Nodes where
  "demo_four = addNode (addNode (addNode (addNode [] 0 [] 1 1) 1 [] 1 1) 2 [] 1 1) 3 [] 1 1"

definition demo_para :: "crypto \<Rightarrow> PID \<Rightarrow> Handler" where
  "demo_para C i = projr (Handler_new C i 3 1 9 demo_four 5 2 (\<lambda>_. False) 9)"

lemma demo_para_new: "Handler_new C i 3 1 9 demo_four 5 2 (\<lambda>_. False) 9 = Inr (demo_para C i)"
  using Handler_new_total [of C i 3 1 9 demo_four 5 2 "\<lambda>_. False" 9] by (auto simp: demo_para_def)

lemma demo_para_sel [simp]:
  "h_myid (demo_para C i) = i" "h_qsize (demo_para C i) = 3" "h_total (demo_para C i) = 4"
  "h_nodes (demo_para C i) = demo_four" "h_view (demo_para C i) = 0" "h_maxViews (demo_para C i) = 9"
  "h_maxBlocksInView (demo_para C i) = 2" "h_pblocks (demo_para C i) = [(0, replicate 2 PBlock_default)]"
  "h_log (demo_para C i) = Log_empty" "h_verifiedJust (demo_para C i) = Just_typed Type_RDataPara"
  "h_lastExecutedSeq (demo_para C i) = 0" "h_tpara (demo_para C i) = TrustedPara_new i 5 3"
  "outs (demo_para C i) = []" "h_rep_queue (demo_para C i) = []" "h_clients (demo_para C i) = []"
  "h_recoverResponses (demo_para C i) = []" "\<not> h_isPaused (demo_para C i)"
  using tc_new_total [of C i 5 3] by (auto simp: demo_para_def Handler_new_def Let_def)

text \<open>The leader's first new-view statement, and two blocks for sequence number 1.\<close>

definition demo_nv_rdata :: RDataPara where
  "demo_nv_rdata = RDataPara_new (Hash_zero False) 0 (Hash_zero True) 0 PH1_NEWVIEW 0"

definition demo_nv :: Just where
  "demo_nv = JustPara_signs demo_nv_rdata (Signs_one (Sign_char 0 65))"

definition demo_pblock :: "u32 \<Rightarrow> PBlock" where
  "demo_pblock c = PBlock_new (Hash_zero True) 1 1 (Transaction_new c 1 # replicate 99 Transaction_dummy)"

lemma demo_nv_facts:
  "getRDataPara demo_nv = Inr demo_nv_rdata" "propv demo_nv_rdata = 0" "phase demo_nv_rdata = PH1_NEWVIEW"
  "signs_verify crypto_yes demo_four (j_signs demo_nv) text = Inr True"
  "just_eq demo_nv demo_nv = Inr True" "p_seqNumber (demo_pblock c) = 1"
  "pblock_hash crypto_yes (demo_pblock c) = Inr (Hash_of (replicate SHA256_DIGEST_LENGTH 1))"
  "tq_view (TrustedPara_new i k q) = 0"
proof -
  show "signs_verify crypto_yes demo_four (j_signs demo_nv) text = Inr True"
    by (simp add: demo_nv_def signs_verify_yes demo_four_def addNode_def nodes_find_def Sign_char_def)
  show "just_eq demo_nv demo_nv = Inr True"
    by (simp add: demo_nv_def just_eq_def signs_eq_def getRDataType_def rdataPara_eq_refl sign_eq_iff list.rel_refl_strong)
  show "pblock_hash crypto_yes (demo_pblock c) = Inr (Hash_of (replicate SHA256_DIGEST_LENGTH 1))"
    by (simp add: demo_pblock_def PBlock_new_def pblock_hash_def pblock_toString_def pblock_transactions2string_def
        crypto_yes_def MAX_NUM_TRANSACTIONS_def)
qed (simp_all add: demo_nv_def demo_nv_rdata_def demo_pblock_def PBlock_new_def TrustedPara_new_def)

text \<open>A verify message for a view, signed with a key the library rejects.\<close>

definition demo_verify :: "View \<Rightarrow> MsgVerifyPara" where
  "demo_verify v = \<lparr>vf_rdata = RDataPara_new (Hash_zero False) v (Hash_zero True) 0 PH1_NEWVIEW 0,
                    vf_signs = Signs_one (Sign_char 0 65), vf_hashes = []\<rparr>"

lemma demo_verify_facts:
  "propv (vf_rdata (demo_verify v)) = v" "vf_hashes (demo_verify v) = []"
  "signs_verify crypto_no demo_four (vf_signs (demo_verify v)) text = Inr False"
  by (simp_all add: demo_verify_def signs_verify_eq sig_valid_def demo_four_def addNode_def nodes_find_def Sign_char_def
      sign_verify_def verifyText_def crypto_no_def)

section \<open>Properties: bookkeeping\<close>

text \<open>
  The missing blocks. For every justification with a sequence number below 2 ^ 32 - 1,
  \<open>getMissingSeqNumbersForJust\<close> returns, in order, exactly the sequence numbers from 1 to it
  that have no block in the vector of the justified view (a view without a vector has
  none); and for 2 ^ 32 - 1, which any sender can put into a new-view or recovery
  message, its loop never ends, whatever the fuel, because the unsigned counter wraps.
\<close>

theorem getMissing_correct:
  assumes "getRDataPara just = Inr r" and "pblocks_at (justv r) h = (blocks, h')"
  shows "(seqNumber r \<noteq> - 1 \<longrightarrow> getMissingSeqNumbersForJust just h =
      Inr (filter (\<lambda>k. \<not> (unat k \<le> length blocks \<and> pblock_isBlock (blocks ! unat (k - 1))))
             (map word_of_nat [1..<Suc (unat (seqNumber r))]), h')) \<and>
    (seqNumber r = - 1 \<longrightarrow> getMissingSeqNumbersForJust just h = Inl Diverges \<and>
      (\<forall>fuel. missing_loop blocks (seqNumber r) fuel 1 [] = Inl Diverges))"
proof (intro conjI impI allI)
  assume "seqNumber r \<noteq> - 1"
  then have "unat (seqNumber r) + 1 < 2 ^ 32" by (rule not_last_word)
  then have "missing_loop blocks (seqNumber r) (Suc (unat (seqNumber r))) 1 [] =
      Inr ([] @ filter (\<lambda>k. \<not> has_block blocks k) (map word_of_nat [unat (1 :: u32)..<Suc (unat (seqNumber r))]))"
    by (intro missing_loop_spec) simp_all
  with assms show "getMissingSeqNumbersForJust just h =
      Inr (filter (\<lambda>k. \<not> (unat k \<le> length blocks \<and> pblock_isBlock (blocks ! unat (k - 1))))
             (map word_of_nat [1..<Suc (unat (seqNumber r))]), h')"
    by (simp add: getMissingSeqNumbersForJust_def has_block_def del: missing_loop.simps upt_Suc)
next
  assume "seqNumber r = - 1"
  with assms show "getMissingSeqNumbersForJust just h = Inl Diverges"
    by (simp add: getMissingSeqNumbersForJust_def missing_loop_wraps del: missing_loop.simps)
qed (simp add: missing_loop_wraps)

theorem getMissing_correct_witness:
  "getMissingSeqNumbersForJust (JustPara_signs (RDataPara_new Hash_default 0 Hash_default 0 PH1_NEWVIEW 1) Signs_empty)
     (demo_para crypto_yes 0) = Inr ([1], demo_para crypto_yes 0) \<and>
   getMissingSeqNumbersForJust (JustPara_signs (RDataPara_new Hash_default 0 Hash_default 0 PH1_NEWVIEW (- 1)) Signs_empty)
     (demo_para crypto_yes 0) = Inl Diverges"
  using getMissing_correct [of "JustPara_signs (RDataPara_new Hash_default 0 Hash_default 0 PH1_NEWVIEW 1) Signs_empty"
      _ "demo_para crypto_yes 0" "replicate 2 PBlock_default" "demo_para crypto_yes 0"]
    getMissing_correct [of "JustPara_signs (RDataPara_new Hash_default 0 Hash_default 0 PH1_NEWVIEW (- 1)) Signs_empty"
      _ "demo_para crypto_yes 0" "replicate 2 PBlock_default" "demo_para crypto_yes 0"]
  by (simp add: PBlock_default_isBlock)


text \<open>
  Contiguous commits. \<open>findHighestSeq(s)\<close> is the length of the gap-free prefix, up to
  \<open>s\<close>, of the sequence numbers for which the log holds some commit message of the view.
\<close>

theorem findHighestSeq_correct:
  "unat (findHighestSeq sq h) \<le> unat sq \<and>
   (\<forall>j. 1 \<le> j \<and> j \<le> unat (findHighestSeq sq h) \<longrightarrow> hasCommitForSeq (h_view h) (word_of_nat j) (h_log h)) \<and>
   (unat (findHighestSeq sq h) < unat sq \<longrightarrow>
     \<not> hasCommitForSeq (h_view h) (word_of_nat (Suc (unat (findHighestSeq sq h)))) (h_log h))"
proof -
  obtain k where k: "findHighestSeq sq h = word_of_nat k" "k \<le> unat sq"
    "\<forall>j. 1 \<le> j \<and> j \<le> k \<longrightarrow> hasCommitForSeq (h_view h) (word_of_nat j) (h_log h)"
    "k < unat sq \<longrightarrow> \<not> hasCommitForSeq (h_view h) (word_of_nat (Suc k)) (h_log h)"
    using highestSeq_loop_spec [of 1 "unat sq" sq 0 "h_log h" "h_view h"] by (auto simp: findHighestSeq_def)
  moreover have "unat (word_of_nat k :: u32) = k"
    using k(2) unat_u32_less [of sq] by (intro unat_of_nat_u32) simp
  ultimately show ?thesis by simp
qed

theorem findHighestSeq_correct_witness:
  "findHighestSeq 2 (demo_para crypto_yes 0) = 0"
proof (rule ccontr)
  assume "findHighestSeq 2 (demo_para crypto_yes 0) \<noteq> 0"
  then have "0 < unat (findHighestSeq 2 (demo_para crypto_yes 0))" by (simp add: unat_gt_0)
  with findHighestSeq_correct [of 2 "demo_para crypto_yes 0", THEN conjunct2, THEN conjunct1, THEN spec [of _ 1]]
  have "hasCommitForSeq 0 (word_of_nat 1) Log_empty" by (simp add: Suc_le_eq)
  then show False by (simp add: hasCommitForSeq_def seq_find_def first_of_def Log_empty_def)
qed


section \<open>Properties: proposals\<close>

lemma verifyJustPara_pblocks [simp]: "verifyJustPara C (h\<lparr>h_pblocks := m\<rparr>) j = verifyJustPara C h j"
  by (simp add: verifyJustPara_def)

lemma callTEEpreparePara_sel:
  "callTEEpreparePara C b j h = Inr (j', h') \<Longrightarrow> \<exists>t. h' = h\<lparr>h_tpara := t\<rparr>"
  by (auto simp: callTEEpreparePara_def bindE_Inr_iff)

lemma tq_TEEprepare_votes:
  assumes "getRDataPara just = Inr rd" and "tq_view t = propv rd \<and> phase rd = PH1_NEWVIEW" and "pblock_hash C b = Inr hb"
    and "signs_verify C ns (j_signs just) (rdataPara_toString rd) = Inr True"
  shows "\<exists>j t' r. tq_TEEprepare C ns b just t = Inr (j, t') \<and> j_set j \<and> getRDataPara j = Inr r \<and> proph r = hb"
  using assms by (simp add: tq_TEEprepare_def tq_TEEverify_def tq_signBlock_def Let_def)

lemma seq_index: "unat (sq - 1) < n \<Longrightarrow> n < 2 ^ 32 \<Longrightarrow> (sq :: u32) \<noteq> 0"
  by (auto simp: unsigned_minus_1_eq_mask mask_eq_exp_minus_1)

lemma respondToProposalPara_effect:
  assumes "respondToProposalPara C j b h = Inr h'" and "map_find (h_pblocks h) (h_view h) = Some bs"
  shows "outs h' = outs h \<or>
    unat (p_seqNumber b - 1) < length bs \<and> h_view h' = h_view h \<and> h_verifiedJust h' = h_verifiedJust h \<and>
    map_find (h_pblocks h') (h_view h) = Some (bs[unat (p_seqNumber b - 1) := b])"
  using assms
  by (auto simp: respondToProposalPara_def bindE_Inr_iff Let_def pblocks_put_known split: if_splits
      dest!: callTEEpreparePara_sel)

lemma handleLdrPreparePara_effect:
  assumes "handleLdrPreparePara C m h = Inr h'" and bs: "map_find (h_pblocks h) (h_view h) = Some bs"
  shows "outs h' = outs h \<and> h_tpara h' = h_tpara h \<and> h_pblocks h' = h_pblocks h \<and> h_view h' = h_view h \<or>
    unat (p_seqNumber (pr_block (l_prop m)) - 1) < length bs \<and>
    \<not> pblock_isBlock (bs ! unat (p_seqNumber (pr_block (l_prop m)) - 1)) \<and>
    respondToProposalPara C (pr_just (l_prop m)) (pr_block (l_prop m)) h = Inr h'"
proof (cases "maxViewsReached h")
  case False
  let ?j = "pr_just (l_prop m)" and ?b = "pr_block (l_prop m)"
  from assms(1) False obtain r verified where r: "getRDataPara ?j = Inr r" and
    "(if propv r < h_view h then Inr False else verifyJustPara C h ?j) = Inr verified" and
    rest: "(if \<not> verified then Inr h
      else if propv r = h_view h then
        bindE (just_eq ?j (h_verifiedJust h)) (\<lambda>same.
          if same then
            bindE (pblocks_get (h_view h) (unat (p_seqNumber ?b - 1)) h) (\<lambda>(b0, h).
              if \<not> pblock_isBlock b0 then respondToProposalPara C ?j ?b h else Inr h)
          else bindE (getRDataPara (h_verifiedJust h)) (\<lambda>rv.
              if justv r > justv rv
              then bindE (storePropPara m (h_log h)) (\<lambda>(l, n). Inr (h\<lparr>h_log := l\<rparr>)) else Inr h))
      else bindE (storePropPara m (h_log h)) (\<lambda>(l, n). Inr (h\<lparr>h_log := l\<rparr>))) = Inr h'"
    by (auto simp: handleLdrPreparePara_def Let_def bindE_Inr_iff bs)
  then show ?thesis
    by (auto simp: bindE_Inr_iff pblocks_get_known [OF bs] split: if_splits)
qed (use assms(1) in \<open>simp add: handleLdrPreparePara_def\<close>)

lemma handleLdrPreparePara_votes:
  assumes "\<not> maxViewsReached h" and "getRDataPara (pr_just p) = Inr r" "propv r = h_view h" "phase r = PH1_NEWVIEW"
    and "signs_verify C (h_nodes h) (j_signs (pr_just p)) (rdataPara_toString r) = Inr True"
    and "just_eq (pr_just p) (h_verifiedJust h) = Inr True"
    and "tq_view (h_tpara h) = h_view h" "pblock_hash C (pr_block p) = Inr hb"
    and "map_find (h_pblocks h) (h_view h) = Some bs" "unat (p_seqNumber (pr_block p) - 1) < length bs"
    and "\<not> pblock_isBlock (bs ! unat (p_seqNumber (pr_block p) - 1))"
  shows "\<exists>vote t. proph (m_rdata vote) = hb \<and>
    (\<forall>signs. handleLdrPreparePara C (LdrMsg_new p signs) h =
       Inr (sendMsg (Net_PreparePara vote) (keep_from_peers h (getCurrentLeader h))
         (h\<lparr>h_tpara := t, h_pblocks := map_set (h_view h) (bs[unat (p_seqNumber (pr_block p) - 1) := pr_block p]) (h_pblocks h)\<rparr>)))"
proof -
  from tq_TEEprepare_votes [OF assms(2) _ assms(8,5), of "h_tpara h"] assms(3,4,7) obtain j t rj
    where j: "tq_TEEprepare C (h_nodes h) (pr_block p) (pr_just p) (h_tpara h) = Inr (j, t)" "j_set j"
      "getRDataPara j = Inr rj" "proph rj = hb" by auto
  then have c: "callTEEpreparePara C (pr_block p) (pr_just p) h = Inr (j, h\<lparr>h_tpara := t\<rparr>)"
    by (simp add: callTEEpreparePara_def)
  have "verifyJustPara C h (pr_just p) = Inr True" using assms(2,5) by (simp add: verifyJustPara_def Sverify_def)
  then have "handleLdrPreparePara C (LdrMsg_new p signs) h = respondToProposalPara C (pr_just p) (pr_block p) h" for signs
    using assms by (simp add: handleLdrPreparePara_def pblocks_get_known)
  moreover have "respondToProposalPara C (pr_just p) (pr_block p) h =
      Inr (sendMsg (Net_PreparePara (Msg_new rj (j_signs j))) (keep_from_peers h (getCurrentLeader h))
         (h\<lparr>h_tpara := t, h_pblocks := map_set (h_view h) (bs[unat (p_seqNumber (pr_block p) - 1) := pr_block p]) (h_pblocks h)\<rparr>))"
    using j c assms(9,10) by (simp add: respondToProposalPara_def pblocks_put_known keep_from_peers_def getCurrentLeader_def getLeaderOf_def)
  ultimately show ?thesis using j(4) by (intro exI [of _ "Msg_new rj (j_signs j)"] exI [of _ t]) simp
qed

text \<open>A sequence number that has its block.\<close>

lemma taken_sequence:
  assumes "map_find (h_pblocks h) (h_view h) = Some bs" and "pblock_isBlock (bs ! unat (sq - 1))"
    and "\<forall>m\<in>set ms. p_seqNumber (pr_block (l_prop m)) = sq" and "event_run (handleLdrPreparePara C) ms h = Inr h'"
  shows "outs h' = outs h \<and> h_tpara h' = h_tpara h \<and> h_pblocks h' = h_pblocks h \<and> h_view h' = h_view h"
  using assms
proof (induction ms arbitrary: h)
  case (Cons m ms)
  then obtain h1 where h1: "handleLdrPreparePara C m h = Inr h1" "event_run (handleLdrPreparePara C) ms h1 = Inr h'"
    by (auto simp: bindE_Inr_iff)
  from handleLdrPreparePara_effect [OF h1(1) Cons.prems(1)] Cons.prems(2,3)
  have same: "outs h1 = outs h \<and> h_tpara h1 = h_tpara h \<and> h_pblocks h1 = h_pblocks h \<and> h_view h1 = h_view h" by auto
  with Cons.IH [of h1] Cons.prems h1(2) show ?case by simp
qed simp

text \<open>
  C33. One vote per sequence number. After a backup has answered a proposal (something was
  sent), it answers no other proposals for the same sequence number while it stays in the view: however many
  of them it then handles without an exception, it sends nothing, and its trusted component and its
  blocks are as they were (the log may change, since a proposal can be stored). The
  trusted component alone would sign again.
\<close>

theorem backup_votes_once:
  assumes "map_find (h_pblocks h) (h_view h) = Some bs" and "length bs = unat (h_maxBlocksInView h)"
    and "handleLdrPreparePara C m h = Inr h1" and "outs h1 \<noteq> outs h"
    and "\<forall>m'\<in>set ms. p_seqNumber (pr_block (l_prop m')) = p_seqNumber (pr_block (l_prop m))"
    and "event_run (handleLdrPreparePara C) ms h1 = Inr h2"
  shows "outs h2 = outs h1 \<and> h_tpara h2 = h_tpara h1 \<and> h_pblocks h2 = h_pblocks h1 \<and> h_view h2 = h_view h1"
proof -
  let ?b = "pr_block (l_prop m)"
  from handleLdrPreparePara_effect [OF assms(3,1)] assms(4)
  have r: "respondToProposalPara C (pr_just (l_prop m)) ?b h = Inr h1" by auto
  from respondToProposalPara_effect [OF r assms(1)] assms(4)
  have i: "unat (p_seqNumber ?b - 1) < length bs" and v: "h_view h1 = h_view h"
    and st: "map_find (h_pblocks h1) (h_view h1) = Some (bs[unat (p_seqNumber ?b - 1) := ?b])" by auto
  have "length bs < 2 ^ 32" using assms(2) unat_u32_less by simp
  from seq_index [OF i this] have "pblock_isBlock ((bs[unat (p_seqNumber ?b - 1) := ?b]) ! unat (p_seqNumber ?b - 1))"
    using i by (simp add: pblock_isBlock_def)
  from taken_sequence [OF st this assms(5,6)] show ?thesis .
qed

theorem backup_votes_once_witness:
  "\<exists>h1 h2. handleLdrPreparePara crypto_yes (LdrMsg_new (Proposal_new demo_nv (demo_pblock 7)) Signs_empty)
     ((demo_para crypto_yes 1)\<lparr>h_verifiedJust := demo_nv\<rparr>) = Inr h1 \<and> outs h1 \<noteq> [] \<and>
     event_run (handleLdrPreparePara crypto_yes) [LdrMsg_new (Proposal_new demo_nv (demo_pblock 8)) Signs_empty,
       LdrMsg_new (Proposal_new demo_nv (demo_pblock 8)) Signs_empty] h1 = Inr h2 \<and> outs h2 = outs h1"
proof -
  let ?h = "(demo_para crypto_yes 1)\<lparr>h_verifiedJust := demo_nv\<rparr>"
  let ?m1 = "LdrMsg_new (Proposal_new demo_nv (demo_pblock 7)) Signs_empty"
  let ?m2 = "LdrMsg_new (Proposal_new demo_nv (demo_pblock 8)) Signs_empty"
  from handleLdrPreparePara_votes [of ?h "Proposal_new demo_nv (demo_pblock 7)" demo_nv_rdata crypto_yes
      "Hash_of (replicate SHA256_DIGEST_LENGTH 1)" "replicate 2 PBlock_default"]
  obtain vote t rs where h1: "handleLdrPreparePara crypto_yes ?m1 ?h =
      Inr (emit [Multicast (Net_PreparePara vote) rs] (?h\<lparr>h_tpara := t, h_pblocks := [(0, [demo_pblock 7, PBlock_default])]\<rparr>))"
    by (auto simp: demo_nv_facts maxViewsReached_def numeral_2_eq_2)
  let ?h1 = "emit [Multicast (Net_PreparePara vote) rs] (?h\<lparr>h_tpara := t, h_pblocks := [(0, [demo_pblock 7, PBlock_default])]\<rparr>)"
  have "pblock_isBlock (demo_pblock 7)" by (simp add: pblock_isBlock_def demo_nv_facts)
  then have h2: "handleLdrPreparePara crypto_yes ?m2 ?h1 = Inr ?h1"
    by (simp add: handleLdrPreparePara_def demo_nv_facts maxViewsReached_def verifyJustPara_def Sverify_def pblocks_get_known)
  have "event_run (handleLdrPreparePara crypto_yes) [?m2, ?m2] ?h1 = Inr ?h1" using h2 by simp
  from backup_votes_once [of ?h "replicate 2 PBlock_default", OF _ _ h1 _ _ this] h1 this show ?thesis
    by (auto simp: demo_nv_facts simp del: event_run.simps)
qed

text \<open>
  A proposal needs no signature. For the justification that a backup has verified,
  \<open>handleLdrPreparePara\<close> votes for any block in a free sequence number, whatever signatures
  the message carries: only the justification's signatures are verified, so any node that
  has seen it can propose in the leader's place.
\<close>

theorem unsigned_proposal_voted:
  assumes "\<not> maxViewsReached h" and "getRDataPara (pr_just p) = Inr r" "propv r = h_view h" "phase r = PH1_NEWVIEW"
    and "signs_verify C (h_nodes h) (j_signs (pr_just p)) (rdataPara_toString r) = Inr True"
    and "just_eq (pr_just p) (h_verifiedJust h) = Inr True"
    and "tq_view (h_tpara h) = h_view h" "pblock_hash C (pr_block p) = Inr hb"
    and "map_find (h_pblocks h) (h_view h) = Some bs" "unat (p_seqNumber (pr_block p) - 1) < length bs"
    and "\<not> pblock_isBlock (bs ! unat (p_seqNumber (pr_block p) - 1))"
  shows "\<exists>vote t. proph (m_rdata vote) = hb \<and>
    (\<forall>signs. handleLdrPreparePara C (LdrMsg_new p signs) h =
       Inr (sendMsg (Net_PreparePara vote) (keep_from_peers h (getCurrentLeader h))
         (h\<lparr>h_tpara := t, h_pblocks := map_set (h_view h) (bs[unat (p_seqNumber (pr_block p) - 1) := pr_block p]) (h_pblocks h)\<rparr>)))"
  using assms by (rule handleLdrPreparePara_votes)

theorem unsigned_proposal_voted_witness:
  "\<exists>vote rs h'. handleLdrPreparePara crypto_yes (LdrMsg_new (Proposal_new demo_nv (demo_pblock 7)) Signs_empty)
     ((demo_para crypto_yes 1)\<lparr>h_verifiedJust := demo_nv\<rparr>) = Inr h' \<and>
     outs h' = [Multicast (Net_PreparePara vote) rs] \<and> proph (m_rdata vote) = Hash_of (replicate SHA256_DIGEST_LENGTH 1)"
proof -
  let ?h = "(demo_para crypto_yes 1)\<lparr>h_verifiedJust := demo_nv\<rparr>"
  from unsigned_proposal_voted [of ?h "Proposal_new demo_nv (demo_pblock 7)" demo_nv_rdata crypto_yes
      "Hash_of (replicate SHA256_DIGEST_LENGTH 1)" "replicate 2 PBlock_default"]
  show ?thesis by (auto simp: demo_nv_facts maxViewsReached_def)
qed

section \<open>Properties: messages without a certificate\<close>

lemma changeView_sel [simp]:
  "h_view (changeView v h) = v" "h_tpara (changeView v h) = tq_changeView v (h_tpara h)"
  "h_lastExecutedSeq (changeView v h) = 0" "h_maxViews (changeView v h) = h_maxViews h"
  "h_verifiedJust (changeView v h) = h_verifiedJust h" "h_nodes (changeView v h) = h_nodes h"
  "h_log (changeView v h) = h_log h" "h_maxBlocksInView (changeView v h) = h_maxBlocksInView h"
  "h_isPaused (changeView v h) = h_isPaused h" "h_total (changeView v h) = h_total h"
  "h_myid (changeView v h) = h_myid h" "h_qsize (changeView v h) = h_qsize h"
  by (simp_all add: changeView_def pblocks_resize_def pblocks_at_def Let_def case_prod_beta)

lemma handleVerifyPara_rejected:
  assumes "\<not> maxViewsReached h" and "propv (vf_rdata msg) > h_view h" and "vf_hashes msg = []"
    and "getRDataPara (h_verifiedJust h) = Inr rv"
    and "signs_verify C (h_nodes h) (vf_signs msg) (rdataPara_toString (vf_rdata msg)) = Inr False"
  shows "\<exists>m. handleVerifyPara C msg h = Inr ((changeView (propv (vf_rdata msg)) h)\<lparr>h_pblocks := m\<rparr>)"
proof -
  let ?h = "changeView (propv (vf_rdata msg)) h"
  have t: "callTEEVerifyPara C (JustPara_signs (vf_rdata msg) (vf_signs msg)) [] b g = Inr JustPara_fail"
    if "h_nodes g = h_nodes h" for b g
    using assms(5) that by (simp add: callTEEVerifyPara_def tq_TEEverifyLeaderQC_def tq_TEEverify_def)
  obtain bs g where g: "pblocks_at (justv (vf_rdata msg)) ?h = (bs, g)" by fastforce
  from pblocks_at_sel [OF g] obtain m where m: "g = ?h\<lparr>h_pblocks := m\<rparr>" by blast
  have "\<exists>m. ?h = ?h\<lparr>h_pblocks := m\<rparr>" by (rule exI [of _ "h_pblocks ?h"]) simp
  with assms g m t show ?thesis
    by (cases "justv (vf_rdata msg) > propv rv")
      (auto simp: handleVerifyPara_def handleVerifyPara_body_def JustPara_fail_unset Let_def)
qed

text \<open>
  A view change without a certificate. A verify message for a later view moves a
  replica to that view, resets its execution count and restarts its trusted component in
  that view, before any signature is looked at: it does so for a message whose signatures
  do not verify. A view from \<open>maxViews\<close> on ends the replica's part in the protocol, since
  every handler then returns at once.
\<close>

theorem unverified_message_moves_view:
  assumes "\<not> maxViewsReached h" and "propv (vf_rdata msg) > h_view h" and "vf_hashes msg = []"
    and "getRDataPara (h_verifiedJust h) = Inr rv"
    and "signs_verify C (h_nodes h) (vf_signs msg) (rdataPara_toString (vf_rdata msg)) = Inr False"
  shows "\<exists>h'. handleVerifyPara C msg h = Inr h' \<and> h_view h' = propv (vf_rdata msg) \<and>
    h_tpara h' = tq_changeView (propv (vf_rdata msg)) (h_tpara h) \<and> h_lastExecutedSeq h' = 0 \<and>
    (0 < h_maxViews h \<and> h_maxViews h \<le> propv (vf_rdata msg) \<longrightarrow> maxViewsReached h')"
  using handleVerifyPara_rejected [OF assms] by (auto simp: maxViewsReached_def)

theorem unverified_message_moves_view_witness:
  "\<exists>h'. handleVerifyPara crypto_no (demo_verify 9) (demo_para crypto_no 1) = Inr h' \<and> h_view h' = 9 \<and> maxViewsReached h'"
  using unverified_message_moves_view [of "demo_para crypto_no 1" "demo_verify 9" _ crypto_no]
  by (auto simp: demo_verify_facts maxViewsReached_def)

lemma signUntilViewPara_last:
  "getRDataPara j = Inr r \<Longrightarrow> signUntilViewPara C (- 1) fuel j h = Inl Diverges"
proof (induction fuel arbitrary: j h r)
  case (Suc fuel)
  obtain j1 h1 where c: "callTEEsignPara C h = (j1, h1)" by fastforce
  then have "\<exists>r. getRDataPara j1 = Inr r"
    by (auto simp: callTEEsignPara_def tq_TEEsign_def tq_sign_def Let_def)
  with Suc c show ?case by auto
qed simp

text \<open>
  C34. One message stops a replica for good. After a verify message for the view
  2 ^ 32 - 1 without hashes and with signatures that do not verify, at a node that is not paused, has not
  reached \<open>maxViews\<close> and is in another view, the next time-out starts a view change whose
  signing loop never ends: no statement can be for a later view, whatever the fuel. (The
  test \<open>maxViews <= view + 1\<close> of \<open>timeToStop\<close> does not help, since \<open>view + 1\<close> wraps to 0.)
\<close>

theorem one_message_stops_replica:
  assumes "\<not> maxViewsReached h" and "propv (vf_rdata msg) = - 1" "h_view h \<noteq> - 1" and "vf_hashes msg = []"
    and "getRDataPara (h_verifiedJust h) = Inr rv" and "\<not> h_isPaused h"
    and "signs_verify C (h_nodes h) (vf_signs msg) (rdataPara_toString (vf_rdata msg)) = Inr False"
  shows "\<exists>h'. handle_verify_para C msg h = Inr h' \<and> para_step C send_ok P_timer h' = Inl Diverges \<and>
    (\<forall>fuel. signUntilViewPara C (h_view h') fuel (fst (callTEEsignPara C h')) (snd (callTEEsignPara C h')) = Inl Diverges)"
proof -
  have "propv (vf_rdata msg) > h_view h" using assms(2,3) by (simp add: word_order.not_eq_extremum)
  from handleVerifyPara_rejected [OF assms(1) this assms(4,5,7)] assms(2) obtain m where
    h': "handleVerifyPara C msg h = Inr ((changeView (- 1) h)\<lparr>h_pblocks := m\<rparr>)" by auto
  let ?h = "(changeView (- 1) h)\<lparr>h_pblocks := m\<rparr>"
  obtain j g where c: "callTEEsignPara C ?h = (j, g)" by fastforce
  then have "\<exists>r. getRDataPara j = Inr r" "h_view g = - 1"
    by (auto simp: callTEEsignPara_def tq_TEEsign_def tq_sign_def Let_def)
  then have d: "signUntilViewPara C (- 1) fuel j g = Inl Diverges" for fuel using signUntilViewPara_last by blast
  then have "startNewViewPara C ?h = Inl Diverges"
    using c \<open>h_view g = - 1\<close> by (simp add: startNewViewPara_def startNewViewPara_body_def del: signUntilViewPara.simps)
  moreover have "\<not> timeToStop ?h" by (auto simp: timeToStop_def)
  ultimately show ?thesis using h' d c assms(6) by (simp add: handle_verify_para_def on_timer_def)
qed

theorem one_message_stops_replica_witness:
  "\<exists>h'. handle_verify_para crypto_no (demo_verify (- 1)) (demo_para crypto_no 1) = Inr h' \<and>
     para_step crypto_no (\<lambda>_. True) P_timer h' = Inl Diverges"
  using one_message_stops_replica [of "demo_para crypto_no 1" "demo_verify (- 1)" _ crypto_no]
  by (auto simp: demo_verify_facts maxViewsReached_def)

text \<open>
  C35. One message crashes a leader. A recovery message whose round data names a missing
  block, with no signature at all (an empty signature array verifies) and a block with
  sequence number 0, makes the leader index its vector with \<open>0 - 1\<close>, out of bounds.
\<close>

theorem recovery_message_crashes_leader:
  assumes "\<not> maxViewsReached h" and "amCurrentLeader h" and "rc_signs msg = Signs_empty"
    and "rc_blocks msg = [b]" "p_seqNumber b = 0"
    and "getMissingSeqNumbersForJust (JustPara_signs (rc_rdata msg) (rc_signs msg)) h = Inr (missing, h1)" "missing \<noteq> []"
    and "map_find (h_pblocks h1) (justv (rc_rdata msg)) = Some bs" "length bs < 2 ^ 32"
  shows "handleRecoverPara C msg h = Inl OutOfBounds"
proof -
  have "\<not> unat (- 1 :: u32) < length bs"
    using assms(9) by (simp add: unsigned_minus_1_eq_mask mask_eq_exp_minus_1)
  with assms show ?thesis
    by (auto simp: handleRecoverPara_def Let_def verifyJustPara_def Sverify_def signs_verify_empty pblocks_get_known
        split: option.split)
qed

theorem recovery_message_crashes_leader_witness:
  "handleRecoverPara crypto_no
     \<lparr>rc_rdata = RDataPara_new Hash_default 0 Hash_default 0 PH1_NEWVIEW 1, rc_signs = Signs_empty, rc_blocks = [PBlock_default]\<rparr>
     (demo_para crypto_no 0) = Inl OutOfBounds"
  by (rule recovery_message_crashes_leader [where missing = "[1]" and ?h1.0 = "demo_para crypto_no 0" and
        bs = "replicate 2 PBlock_default" and b = PBlock_default])
     (simp_all add: word_le_nat_alt maxViewsReached_def amCurrentLeader_def getCurrentLeader_def getLeaderOf_def PBlock_default_def
        PBlock_flag_def getMissingSeqNumbersForJust_def pblock_isBlock_def)

section \<open>Execution\<close>

lemma sint_small: "unat (w :: u32) < 2 ^ 31 \<Longrightarrow> sint w = int (unat w)"
proof -
  assume a: "unat w < 2 ^ 31"
  have "sint w = signed_take_bit 31 (uint w)" by (simp add: sint_uint)
  also have "\<dots> = uint w"
  proof (rule signed_take_bit_int_eq_self)
    show "- (2 ^ 31) \<le> uint w" by (rule order.trans [OF _ uint_ge_0]) simp
    show "uint w < 2 ^ 31" using a by (simp only: flip: of_nat_less_iff [where 'a=int]) simp
  qed
  finally show ?thesis by simp
qed
lemma vec_index_small: "k < 2 ^ 31 \<Longrightarrow> vec_index (int k) = k"
proof -
  assume "k < 2 ^ 31"
  then have "int k mod 2 ^ 64 = int k" by (intro mod_pos_pos_trivial) simp_all
  then show ?thesis by (simp only: vec_index_def nat_int)
qed

text \<open>
  Block \<open>k\<close> (sequence numbers count from 1) may follow block \<open>k - 1\<close>: one of them is missing,
  or it extends the other's hash; and what executing it replies.
\<close>

definition linked :: "crypto \<Rightarrow> PBlock list \<Rightarrow> nat \<Rightarrow> bool" where
  "linked C bs k \<longleftrightarrow>
     (pblock_isBlock (bs ! (k - 1)) \<and> k > 1 \<and> pblock_isBlock (bs ! (k - 2)) \<longrightarrow>
        (case pblock_hash C (bs ! (k - 2)) of Inr hp \<Rightarrow> pblock_extends (bs ! (k - 1)) hp | Inl e \<Rightarrow> False))"

definition seq_replies :: "crypto \<Rightarrow> Handler \<Rightarrow> PBlock list \<Rightarrow> nat \<Rightarrow> (TID \<times> CID) list" where
  "seq_replies C h bs k =
     (let b = bs ! (k - 1); r = m_rdata (getCommitForSeq (h_view h) (word_of_nat k) (h_log h)) in
      if pblock_isBlock b \<and> (case pblock_hash C b of Inr hb \<Rightarrow> hash_eq hb (proph r) | Inl e \<Rightarrow> False)
      then concat (map (reply_entry (h_clients h)) (take MAX_NUM_TRANSACTIONS (p_transactions b))) else [])"

lemma seq_replies_update:
  "seq_replies C (h\<lparr>h_rep_queue := q, h_lastExecutedSeq := s\<rparr>) bs = seq_replies C h bs"
  by (rule ext) (simp add: seq_replies_def Let_def)

lemma int_range_upt: "[int a .. int b - 1] = map int [a..<b]"
  by (rule nth_equalityI) (auto simp: upto_aux_def nat_diff_distrib nth_upto)

text \<open>A vector of \<open>maxBlocksInView\<close> well-formed blocks for the node's view.\<close>

definition view_blocks :: "Handler \<Rightarrow> PBlock list \<Rightarrow> bool" where
  "view_blocks h bs \<longleftrightarrow> map_find (h_pblocks h) (h_view h) = Some bs \<and> length bs = unat (h_maxBlocksInView h) \<and>
     (\<forall>b\<in>set bs. pblock_ok b)"

lemma view_blocks_hash: "view_blocks h bs \<Longrightarrow> k < length bs \<Longrightarrow> \<exists>hb. pblock_hash C (bs ! k) = Inr hb"
  by (auto simp: view_blocks_def pblock_hash_ok)

lemma replyHashPara_known:
  assumes "view_blocks h bs" and "k < length bs" and "seqNumber r = word_of_nat (Suc k)"
    and "r = m_rdata (getCommitForSeq (h_view h) (word_of_nat (Suc k)) (h_log h))"
  shows "replyHashPara C (proph r) (seqNumber r) h = Inr (h\<lparr>h_rep_queue := h_rep_queue h @ seq_replies C h bs (Suc k)\<rparr>)"
proof -
  have k: "Suc k < 2 ^ 32 \<or> Suc k = 2 ^ 32"
    using assms(1,2) unat_u32_less [of "h_maxBlocksInView h"] by (auto simp: view_blocks_def)
  then have u1: "unat (word_of_nat (Suc k) - 1 :: u32) = k" using unat_of_nat_u32 [of k] by auto
  from view_blocks_hash [OF assms(1,2)] obtain hb where hb: "pblock_hash C (bs ! k) = Inr hb" by blast
  have "MAX_NUM_TRANSACTIONS \<le> length (p_transactions (bs ! k))"
    using assms(1,2) by (simp add: view_blocks_def pblock_ok_def)
  moreover have "map_find (h_pblocks h) (h_view h) = Some bs" using assms(1) by (simp add: view_blocks_def)
  ultimately show ?thesis
    using assms(2) u1 hb assms(3,4)
    by (simp add: replyHashPara_def pblocks_get_known seq_replies_def replyTransactions_def Let_def del: of_nat_Suc)
qed

lemma executeRDataPara_step:
  assumes "view_blocks h bs" and "Suc k < unat (h_maxBlocksInView h)" and "seqNumber r = word_of_nat (Suc k)"
    and "r = m_rdata (getCommitForSeq (h_view h) (word_of_nat (Suc k)) (h_log h))"
  shows "executeRDataPara C snv r h =
    Inr (h\<lparr>h_rep_queue := h_rep_queue h @ seq_replies C h bs (Suc k), h_lastExecutedSeq := word_of_nat (Suc k)\<rparr>)"
proof -
  have k: "Suc k < 2 ^ 32" "k < length bs"
    using assms(1,2) unat_u32_less [of "h_maxBlocksInView h"] by (simp_all add: view_blocks_def)
  then have "unat (word_of_nat (Suc k) :: u32) = Suc k" by (intro unat_of_nat_u32)
  with assms(2) have ne: "word_of_nat (Suc k) \<noteq> h_maxBlocksInView h" by auto
  show ?thesis
    using replyHashPara_known [OF assms(1) k(2) assms(3,4)] ne assms(3) by (simp add: executeRDataPara_def del: of_nat_Suc)
qed

text \<open>One step of the loop, at a block that may follow the one before it.\<close>

lemma execute_loop_step:
  assumes "a < unat (h_maxBlocksInView h)" and "unat (h_maxBlocksInView h) < 2 ^ 31" and "view_blocks h bs"
    and "pe \<longleftrightarrow> a = 0 \<or> pblock_isBlock (bs ! (a - 1))"
    and "0 < a \<Longrightarrow> pe \<Longrightarrow> pblock_hash C (bs ! (a - 1)) = Inr ph"
    and "r = m_rdata (getCommitForSeq (h_view h) (word_of_nat (Suc a)) (h_log h))" and "seqNumber r = word_of_nat (Suc a)"
  shows "\<exists>hb. pblock_hash C (bs ! a) = Inr hb \<and> execute_loop C snv (h_view h) (int a # is) pe ph h =
    (if linked C bs (Suc a) then bindE (executeRDataPara C snv r h)
       (execute_loop C snv (h_view h) is (pblock_isBlock (bs ! a)) (if pblock_isBlock (bs ! a) then hb else ph))
     else Inr h)"
proof -
  have find: "map_find (h_pblocks h) (h_view h) = Some bs" and a: "a < length bs" "a < 2 ^ 31"
    using assms(1-3) by (simp_all add: view_blocks_def)
  from view_blocks_hash [OF assms(3) a(1)] obtain hb where hb: "pblock_hash C (bs ! a) = Inr hb" by blast
  have get: "pblocks_get (h_view h) (vec_index (int a)) h = Inr (bs ! a, h)"
    using pblocks_get_known [OF find] a vec_index_small by simp
  have w: "word_of_int (int a + 1) = (word_of_nat (Suc a) :: u32)" by (simp add: add.commute)
  have stop: "(pblock_isBlock (bs ! a) \<and> pe \<and> int a > 0 \<and> \<not> pblock_extends (bs ! a) ph) \<longleftrightarrow> \<not> linked C bs (Suc a)"
    using assms(4,5) by (cases a) (auto simp: linked_def)
  let ?ph = "if pblock_isBlock (bs ! a) then hb else ph"
  have hash: "(if pblock_isBlock (bs ! a) then bindE (pblock_hash C (bs ! a)) (\<lambda>hb. Inr (hb, True)) else Inr (ph, False)) =
      Inr (?ph, pblock_isBlock (bs ! a))" using hb by simp
  have "execute_loop C snv (h_view h) (int a # is) pe ph h = (if linked C bs (Suc a) then bindE (executeRDataPara C snv r h)
      (execute_loop C snv (h_view h) is (pblock_isBlock (bs ! a)) ?ph) else Inr h)"
    unfolding execute_loop.simps get bindE_simps prod.case stop hash w Let_def assms(6) [symmetric] assms(7) by simp
  with hb show ?thesis by blast
qed

text \<open>The loop from index \<open>a\<close> executes the linked prefix of \<open>a + 1, ..., hi\<close>.\<close>

lemma execute_loop_spec:
  assumes "hi \<le> unat (h_maxBlocksInView h) \<and> a + length ks < unat (h_maxBlocksInView h)" and "unat (h_maxBlocksInView h) < 2 ^ 31" and "view_blocks h bs"
    and "\<forall>k. a < k \<and> k \<le> hi \<longrightarrow>
       seqNumber (m_rdata (getCommitForSeq (h_view h) (word_of_nat k) (h_log h))) = word_of_nat k"
    and "a \<le> hi" and "pe \<longleftrightarrow> a = 0 \<or> pblock_isBlock (bs ! (a - 1))"
    and "0 < a \<Longrightarrow> pe \<Longrightarrow> pblock_hash C (bs ! (a - 1)) = Inr ph"
    and "h_lastExecutedSeq h = word_of_nat a" and "ks = takeWhile (linked C bs) [Suc a..<Suc hi]"
  shows "execute_loop C snv (h_view h) (map int [a..<hi]) pe ph h =
    Inr (h\<lparr>h_rep_queue := h_rep_queue h @ concat (map (seq_replies C h bs) ks),
            h_lastExecutedSeq := word_of_nat (a + length ks)\<rparr>)"
  using assms
proof (induction "hi - a" arbitrary: a h pe ph ks)
  case 0
  then have "a = hi" by simp
  with 0 show ?case by simp
next
  case (Suc n)
  then have lt: "a < hi" by simp
  then have up: "[a..<hi] = a # [Suc a..<hi]" "[Suc a..<Suc hi] = Suc a # [Suc (Suc a)..<Suc hi]"
    by (simp_all add: upt_conv_Cons)
  let ?r = "m_rdata (getCommitForSeq (h_view h) (word_of_nat (Suc a)) (h_log h))"
  have r: "seqNumber ?r = word_of_nat (Suc a)" using Suc.prems(4) lt by (simp del: of_nat_Suc)
  obtain hb where hb: "pblock_hash C (bs ! a) = Inr hb"
    and st: "execute_loop C snv (h_view h) (int a # map int [Suc a..<hi]) pe ph h =
      (if linked C bs (Suc a) then bindE (executeRDataPara C snv ?r h)
         (execute_loop C snv (h_view h) (map int [Suc a..<hi]) (pblock_isBlock (bs ! a)) (if pblock_isBlock (bs ! a) then hb else ph))
       else Inr h)"
    using execute_loop_step [OF _ Suc.prems(2,3,6,7) refl r, of snv "map int [Suc a..<hi]"] Suc.prems(1) lt by auto
  show ?case
  proof (cases "linked C bs (Suc a)")
    case False
    with st Suc.prems(8,9) up show ?thesis by (simp del: upt_Suc)
  next
    case True
    let ?h = "h\<lparr>h_rep_queue := h_rep_queue h @ seq_replies C h bs (Suc a), h_lastExecutedSeq := word_of_nat (Suc a)\<rparr>"
    have ex: "executeRDataPara C snv ?r h = Inr ?h"
      by (rule executeRDataPara_step [OF Suc.prems(3) _ r refl]) (use Suc.prems(1,9) True up(2) in \<open>simp del: upt_Suc\<close>)
    let ?pe = "pblock_isBlock (bs ! a)" and ?ph = "if pblock_isBlock (bs ! a) then hb else ph"
    let ?ks = "takeWhile (linked C bs) [Suc (Suc a)..<Suc hi]"
    have vb: "view_blocks ?h bs" using Suc.prems(3) by (simp add: view_blocks_def)
    have rep: "seq_replies C ?h bs = seq_replies C h bs" by (rule seq_replies_update)
    have "execute_loop C snv (h_view ?h) (map int [Suc a..<hi]) ?pe ?ph ?h =
      Inr (?h\<lparr>h_rep_queue := h_rep_queue ?h @ concat (map (seq_replies C ?h bs) ?ks),
            h_lastExecutedSeq := word_of_nat (Suc a + length ?ks)\<rparr>)"
      by (rule Suc.hyps(1)) (use Suc.hyps(2) Suc.prems(1,2,4,9) vb lt hb True up(2) in \<open>simp_all del: upt_Suc\<close>)
    then have rest: "execute_loop C snv (h_view h) (map int [Suc a..<hi]) ?pe ?ph ?h =
      Inr (h\<lparr>h_rep_queue := h_rep_queue h @ seq_replies C h bs (Suc a) @ concat (map (seq_replies C h bs) ?ks),
            h_lastExecutedSeq := word_of_nat (Suc a + length ?ks)\<rparr>)"
      unfolding rep by simp
    have ks: "ks = Suc a # ?ks" using Suc.prems(9) True up(2) by simp
    show ?thesis unfolding up(1) list.map st ks using True by (simp only: if_True ex bindE_simps rest) simp
  qed
qed

lemma execute_start:
  assumes "map_find (h_pblocks h) v = Some bs" and "0 < n" and "n - 1 < length bs" and "n - 1 < 2 ^ 31"
    and "pblock_hash C (bs ! (n - 1)) = Inr hb"
  shows "(if int n + 1 > 1 then
       bindE (pblocks_get v (vec_index (int n + 1 - 2)) h) (\<lambda>(b, h).
         if pblock_isBlock b then bindE (pblock_hash C b) (\<lambda>hb. Inr ((True, hb), h))
         else Inr ((int n + 1 = 1, Hash_default), h))
     else Inr ((int n + 1 = 1, Hash_default), h)) =
     Inr ((pblock_isBlock (bs ! (n - 1)), if pblock_isBlock (bs ! (n - 1)) then hb else Hash_default), h)"
proof -
  have e: "int n + 1 - 2 = int (n - 1)" using assms(2) by simp
  show ?thesis unfolding e vec_index_small [OF assms(4)] using assms by (simp add: pblocks_get_known)
qed

lemma executeReady_loop:
  assumes "h_lastExecutedSeq h < findHighestSeq sq h" and "findHighestSeq sq h \<le> h_maxBlocksInView h"
    and "unat (h_maxBlocksInView h) < 2 ^ 31" and "view_blocks h bs"
    and pe: "pe \<longleftrightarrow> h_lastExecutedSeq h = 0 \<or> pblock_isBlock (bs ! (unat (h_lastExecutedSeq h) - 1))"
  shows "\<exists>ph. executeReady C snv sq h =
      execute_loop C snv (h_view h) (map int [unat (h_lastExecutedSeq h)..<unat (findHighestSeq sq h)]) pe ph h \<and>
    (0 < unat (h_lastExecutedSeq h) \<longrightarrow> pe \<longrightarrow> pblock_hash C (bs ! (unat (h_lastExecutedSeq h) - 1)) = Inr ph)"
proof -
  let ?last = "h_lastExecutedSeq h" and ?hi = "findHighestSeq sq h"
  have lt: "unat ?last < unat ?hi" "unat ?hi \<le> unat (h_maxBlocksInView h)"
    using assms(1,2) by (simp_all add: word_less_nat_alt word_le_nat_alt)
  have u1: "unat (?last + 1) = Suc (unat ?last)" using lt assms(3) by (intro unat_Suc_u32) simp
  have si: "sint (?last + 1) = int (unat ?last) + 1" "sint ?hi = int (unat ?hi)"
    using u1 lt assms(3) sint_small [of "?last + 1"] sint_small [of ?hi] by simp_all
  have find: "map_find (h_pblocks h) (h_view h) = Some bs" and len: "length bs = unat (h_maxBlocksInView h)"
    using assms(4) by (simp_all add: view_blocks_def)
  have range: "[sint (?last + 1) - 1 .. sint ?hi - 1] = map int [unat ?last..<unat ?hi]"
    unfolding si using int_range_upt [of "unat ?last" "unat ?hi"] by simp
  have bounds: "\<not> (?last + 1 > h_maxBlocksInView h \<or> ?hi > h_maxBlocksInView h)"
    using u1 lt by (simp add: word_less_nat_alt)
  let ?pe = "?last = 0 \<or> pblock_isBlock (bs ! (unat ?last - 1))"
  obtain ph where start: "(if sint (?last + 1) > 1 then
       bindE (pblocks_get (h_view h) (vec_index (sint (?last + 1) - 2)) h) (\<lambda>(b, h).
         if pblock_isBlock b then bindE (pblock_hash C b) (\<lambda>hb. Inr ((True, hb), h))
         else Inr ((sint (?last + 1) = 1, Hash_default), h))
     else Inr ((sint (?last + 1) = 1, Hash_default), h)) = Inr ((?pe, ph), h)"
    and ph: "0 < unat ?last \<longrightarrow> ?pe \<longrightarrow> pblock_hash C (bs ! (unat ?last - 1)) = Inr ph"
  proof (cases "?last = 0")
    case True
    then show ?thesis using that unfolding si by simp
  next
    case False
    then have pos: "0 < unat ?last" by (simp add: unat_gt_0)
    have b: "unat ?last - 1 < length bs" "unat ?last - 1 < 2 ^ 31" using lt len assms(3) by simp_all
    from view_blocks_hash [OF assms(4) b(1)] obtain hb where "pblock_hash C (bs ! (unat ?last - 1)) = Inr hb" by blast
    with False pos show ?thesis
      using execute_start [OF find pos b, of C hb]
      by (intro that [of "if pblock_isBlock (bs ! (unat ?last - 1)) then hb else Hash_default"]) (simp_all only: si, simp_all)
  qed
  have "executeReady C snv sq h = executeBlocksFrom C snv (h_view h) (sint (?last + 1)) (sint ?hi) h"
    using assms(1) by (simp add: executeReady_def)
  also have "\<dots> = execute_loop C snv (h_view h) [sint (?last + 1) - 1 .. sint ?hi - 1] ?pe ph h"
    using bounds start by (simp add: executeBlocksFrom_def find)
  finally have "executeReady C snv sq h = execute_loop C snv (h_view h) (map int [unat ?last..<unat ?hi]) ?pe ph h"
    unfolding range .
  with ph show ?thesis unfolding pe by (intro exI [of _ ph] conjI)
qed

lemma executeReady_spec:
  assumes "findHighestSeq sq h \<le> h_maxBlocksInView h \<and> unat (h_lastExecutedSeq h) + length ks < unat (h_maxBlocksInView h)" and "unat (h_maxBlocksInView h) < 2 ^ 31" and "view_blocks h bs"
    and "\<forall>k. unat (h_lastExecutedSeq h) < k \<and> k \<le> unat (findHighestSeq sq h) \<longrightarrow>
       seqNumber (m_rdata (getCommitForSeq (h_view h) (word_of_nat k) (h_log h))) = word_of_nat k"
    and "ks = takeWhile (linked C bs) [Suc (unat (h_lastExecutedSeq h))..<Suc (unat (findHighestSeq sq h))]"
  shows "executeReady C snv sq h =
    Inr (h\<lparr>h_rep_queue := h_rep_queue h @ concat (map (seq_replies C h bs) ks),
            h_lastExecutedSeq := word_of_nat (unat (h_lastExecutedSeq h) + length ks)\<rparr>)"
proof (cases "findHighestSeq sq h > h_lastExecutedSeq h")
  case False
  then have "unat (findHighestSeq sq h) \<le> unat (h_lastExecutedSeq h)" by (simp add: word_less_nat_alt not_less)
  with False assms(5) show ?thesis by (simp add: executeReady_def)
next
  case True
  let ?last = "h_lastExecutedSeq h" and ?hi = "findHighestSeq sq h"
  have le: "findHighestSeq sq h \<le> h_maxBlocksInView h" using assms(1) by simp
  have lt: "unat ?last < unat ?hi" "unat ?hi \<le> unat (h_maxBlocksInView h) \<and> unat ?last + length ks < unat (h_maxBlocksInView h)"
    using True assms(1) by (simp_all add: word_less_nat_alt word_le_nat_alt)
  from executeReady_loop [OF True le assms(2,3) refl, of C snv] obtain ph where
    l: "executeReady C snv sq h = execute_loop C snv (h_view h) (map int [unat ?last..<unat ?hi])
         (?last = 0 \<or> pblock_isBlock (bs ! (unat ?last - 1))) ph h \<and>
      (0 < unat ?last \<longrightarrow> (?last = 0 \<or> pblock_isBlock (bs ! (unat ?last - 1))) \<longrightarrow> pblock_hash C (bs ! (unat ?last - 1)) = Inr ph)" ..
  note e = l [THEN conjunct1] and ph = l [THEN conjunct2]
  show ?thesis
    unfolding e by (rule execute_loop_spec [OF lt(2) assms(2,3,4)]) (use lt ph assms(5) in \<open>simp_all add: unat_eq_zero\<close>)
qed

text \<open>
  Every stored commit message is filed under its own view and sequence number; storing keeps
  this, so the message found for a sequence number is for it.
\<close>

definition commits_keyed :: "Log \<Rightarrow> bool" where
  "commits_keyed l \<longleftrightarrow> (\<forall>v sq ms m. seq_find (commitsPara l) v sq = Some ms \<longrightarrow> m \<in> set ms \<longrightarrow>
     propv (m_rdata m) = v \<and> seqNumber (m_rdata m) = sq)"

lemma commits_keyed_empty [simp]: "commits_keyed Log_empty"
  by (simp add: commits_keyed_def Log_empty_def seq_find_def)

lemma set_insert_subset: "set (set_insert lt x xs) \<subseteq> insert x (set xs)"
  by (induction lt x xs rule: set_insert.induct) auto

lemma storeComPara_keyed:
  assumes "commits_keyed l" and "storeComPara m l = Inr (l', n)"
  shows "commits_keyed l'"
proof -
  let ?v = "propv (m_rdata m)" and ?sq = "seqNumber (m_rdata m)"
  let ?vm = "fst (map_at [] (commitsPara l) ?v)"
  let ?ms = "fst (map_at [] ?vm ?sq)"
  obtain ms where l': "commitsPara l' = map_set ?v (map_set ?sq ms ?vm) (commitsPara l)"
    and ms: "ms = set_insert msg_less m ?ms \<or> ms = ?ms"
    using assms(2) by (auto simp: storeComPara_def store_seq_def Let_def bindE_Inr_iff split: if_splits)
  have old: "seq_find (commitsPara l) ?v sq = Some xs" if "map_find ?vm sq = Some xs" for sq xs
    using that by (cases "map_find (commitsPara l) ?v") (simp_all add: seq_find_def map_at_def)
  have vm: "propv (m_rdata x) = ?v \<and> seqNumber (m_rdata x) = sq" if "map_find ?vm sq = Some xs" "x \<in> set xs" for sq xs x
    using old [OF that(1)] that(2) assms(1) unfolding commits_keyed_def by blast
  have ms_key: "propv (m_rdata x) = ?v \<and> seqNumber (m_rdata x) = ?sq" if "x \<in> set ?ms" for x
  proof (cases "map_find ?vm ?sq")
    case None
    with that show ?thesis unfolding map_at_def [of _ ?vm] by simp
  next
    case (Some xs)
    then have "?ms = xs" unfolding map_at_def [of _ ?vm] by simp
    with vm [OF Some] that show ?thesis by simp
  qed
  have "set ms \<subseteq> insert m (set ?ms)"
  proof (rule disjE [OF ms])
    assume "ms = set_insert msg_less m ?ms"
    then show ?thesis by (simp only: set_insert_subset)
  next
    assume "ms = ?ms"
    then show ?thesis by (simp only: subset_insertI)
  qed
  then have new: "propv (m_rdata x) = ?v \<and> seqNumber (m_rdata x) = ?sq" if "x \<in> set ms" for x
    using that ms_key by blast
  show ?thesis
    unfolding commits_keyed_def
  proof (intro allI impI)
    fix v sq xs x
    assume f: "seq_find (commitsPara l') v sq = Some xs" "x \<in> set xs"
    have "seq_find (commitsPara l') v sq =
        (if v = ?v then if sq = ?sq then Some ms else map_find ?vm sq else seq_find (commitsPara l) v sq)"
      unfolding l' by (simp add: seq_find_def)
    then consider "v = ?v" "sq = ?sq" "xs = ms" | "v = ?v" "map_find ?vm sq = Some xs" | "seq_find (commitsPara l) v sq = Some xs"
      using f(1) by (metis option.inject)
    then show "propv (m_rdata x) = v \<and> seqNumber (m_rdata x) = sq"
    proof cases
      case 1
      with new f(2) show ?thesis by simp
    next
      case 2
      with vm f(2) show ?thesis by blast
    next
      case 3
      with assms(1) f(2) show ?thesis unfolding commits_keyed_def by blast
    qed
  qed
qed

lemma getCommitForSeq_key:
  assumes "commits_keyed l" and "hasCommitForSeq v sq l"
  shows "seqNumber (m_rdata (getCommitForSeq v sq l)) = sq"
  using assms unfolding hasCommitForSeq_def getCommitForSeq_def commits_keyed_def first_of_def
  by (auto split: option.splits list.splits)

lemma findHighestSeq_stored:
  assumes "1 \<le> k" and "k \<le> unat (findHighestSeq sq h)"
  shows "hasCommitForSeq (h_view h) (word_of_nat k) (h_log h)"
proof -
  obtain n where n: "findHighestSeq sq h = word_of_nat n" "n \<le> unat sq"
    "\<forall>j. 1 \<le> j \<and> j \<le> n \<longrightarrow> hasCommitForSeq (h_view h) (word_of_nat j) (h_log h)"
    using highestSeq_loop_spec [of 1 "unat sq" sq 0 "h_log h" "h_view h"] by (auto simp: findHighestSeq_def)
  moreover have "unat (word_of_nat n :: u32) = n"
    using n(2) unat_u32_less [of sq] by (intro unat_of_nat_u32) simp
  ultimately show ?thesis using assms by simp
qed

lemma executeReady_keyed:
  assumes "findHighestSeq sq h \<le> h_maxBlocksInView h \<and> unat (h_lastExecutedSeq h) + length ks < unat (h_maxBlocksInView h)" and "unat (h_maxBlocksInView h) < 2 ^ 31" and "view_blocks h bs"
    and "commits_keyed (h_log h)"
    and "ks = takeWhile (linked C bs) [Suc (unat (h_lastExecutedSeq h))..<Suc (unat (findHighestSeq sq h))]"
  shows "executeReady C snv sq h =
    Inr (h\<lparr>h_rep_queue := h_rep_queue h @ concat (map (seq_replies C h bs) ks),
            h_lastExecutedSeq := word_of_nat (unat (h_lastExecutedSeq h) + length ks)\<rparr>)"
proof (rule executeReady_spec [OF assms(1,2,3) _ assms(5)], intro allI impI)
  fix k
  assume "unat (h_lastExecutedSeq h) < k \<and> k \<le> unat (findHighestSeq sq h)"
  then show "seqNumber (m_rdata (getCommitForSeq (h_view h) (word_of_nat k) (h_log h))) = word_of_nat k"
    using findHighestSeq_stored [of k sq h] by (intro getCommitForSeq_key [OF assms(4)]) simp
qed

lemma takeWhile_linked_all: "\<forall>k. a < k \<and> k \<le> b \<longrightarrow> P k \<Longrightarrow> takeWhile P [Suc a..<Suc b] = [Suc a..<Suc b]"
  by (simp add: takeWhile_eq_all_conv del: upt_Suc)

text \<open>Execution does not depend on how signatures are verified.\<close>

lemma pblock_hash_verify [simp]: "pblock_hash (C\<lparr>ECDSA_verify := v\<rparr>) = pblock_hash C"
  by (rule ext) (simp add: pblock_hash_def)

lemma linked_verify [simp]: "linked (C\<lparr>ECDSA_verify := v\<rparr>) = linked C"
  by (intro ext) (simp add: linked_def)

lemma seq_replies_verify [simp]: "seq_replies (C\<lparr>ECDSA_verify := v\<rparr>) = seq_replies C"
  by (intro ext) (simp add: seq_replies_def)

lemma hasCommitForSeq_find: "seq_find (commitsPara l) v sq = Some (m # ms) \<Longrightarrow> hasCommitForSeq v sq l"
  by (simp add: hasCommitForSeq_def first_of_def)

lemma findHighestSeq_all:
  assumes "\<forall>k. 1 \<le> k \<and> k \<le> unat sq \<longrightarrow> hasCommitForSeq (h_view h) (word_of_nat k) (h_log h)"
  shows "findHighestSeq sq h = sq"
proof -
  obtain k where k: "findHighestSeq sq h = word_of_nat k" "k \<le> unat sq"
    "k < unat sq \<longrightarrow> \<not> hasCommitForSeq (h_view h) (word_of_nat (Suc k)) (h_log h)"
    using highestSeq_loop_spec [of 1 "unat sq" sq 0 "h_log h" "h_view h"] by (auto simp: findHighestSeq_def)
  with assms have "\<not> k < unat sq" by (metis Suc_leI le_add1 plus_1_eq_Suc)
  with k show ?thesis by simp
qed

text \<open>A leader whose log has one commit message for sequence number 1 and two for 2.\<close>

definition demo_vote :: "PID \<Rightarrow> u32 \<Rightarrow> MsgCommitPara" where
  "demo_vote i s = Msg_new (RDataPara_new (Hash_zero True) 0 (Hash_zero True) 0 PH1_COMMIT s) (Signs_one (Sign_char i 65))"

definition demo_votes :: "MsgCommitPara list \<Rightarrow> Log" where
  "demo_votes ms = Log_empty\<lparr>commitsPara := [(0, [(1, [demo_vote 1 1]), (2, ms)])]\<rparr>"

definition demo_counting :: Handler where
  "demo_counting = (demo_para crypto_no 0)\<lparr>h_maxBlocksInView := 3, h_pblocks := [(0, replicate 3 PBlock_default)],
     h_log := demo_votes [demo_vote 1 2, demo_vote 2 2]\<rparr>"

lemma demo_store_com: "storeComPara (demo_vote 3 2) (demo_votes [demo_vote 1 2, demo_vote 2 2]) =
    Inr (demo_votes [demo_vote 1 2, demo_vote 2 2, demo_vote 3 2], 3)"
  by code_simp

lemma demo_collect: "case getCommitPara 0 3 2 (demo_votes [demo_vote 1 2, demo_vote 2 2, demo_vote 3 2]) of
    Inr s \<Rightarrow> sg_size s = 3 | Inl e \<Rightarrow> False"
  by code_simp

lemma demo_votes_find:
  "seq_find (commitsPara (demo_votes ms)) v sq =
     (if v = 0 then if sq = 1 then Some [demo_vote 1 1] else if sq = 2 then Some ms else None else None)"
  by (simp add: demo_votes_def seq_find_def)

lemma demo_votes_keyed: "commits_keyed (demo_votes [demo_vote 1 2, demo_vote 2 2])"
  by (auto simp: commits_keyed_def demo_votes_find demo_vote_def split: if_splits)

lemma demo_counting_sel:
  "\<not> maxViewsReached demo_counting" "amCurrentLeader demo_counting" "h_view demo_counting = 0" "h_qsize demo_counting = 3"
  "h_log demo_counting = demo_votes [demo_vote 1 2, demo_vote 2 2]" "h_maxBlocksInView demo_counting = 3"
  "h_lastExecutedSeq demo_counting = 0" "view_blocks demo_counting (replicate 3 PBlock_default)"
  by (simp_all add: demo_counting_def maxViewsReached_def amCurrentLeader_def getCurrentLeader_def getLeaderOf_def view_blocks_def)

lemma demo_linked: "linked C (replicate 3 PBlock_default) k" if "k \<le> 3" "1 \<le> k"
  using that by (simp add: linked_def PBlock_default_isBlock)

end
