(* ===== verification/Client.thy ===== *)
theory Client
  imports HandlerState
begin

text \<open>
  The client (\<open>App/Client.cpp\<close>). Its global variables are a record; the steady clock is an
  argument, in nanoseconds. Two threads run: the sender (\<open>send_transactions\<close>), whose program
  counter is the value of a datatype and whose step is one iteration of its loops, and the
  event loop, which calls \<open>handle_reply\<close>. \<open>client_step\<close> interleaves them.
\<close>

section \<open>State\<close>

type_synonym clock = nat

text \<open>\<open>TransInfo\<close>: the number of replies, the time of sending, the transaction.\<close>

type_synonym TransInfo = "u32 \<times> clock \<times> Transaction"

datatype client_effect =
    SendStart MsgStart conn               \<comment> \<open>\<open>net->send_msg\<close>\<close>
  | SendTransaction MsgTransaction conn
  | PrintStats
  | JoinSender                            \<comment> \<open>\<open>send_thread.join()\<close>\<close>
  | StopClient                            \<comment> \<open>\<open>ec.stop()\<close>\<close>

record Client =
  cl_cid :: CID
  cl_qsize :: u32
  cl_numInstances :: u32
  cl_conns :: "(PID, conn) stdmap"
  cl_transactions :: "(TID, TransInfo) stdmap"
  cl_execTrans :: "(TID, clock \<times> clock) stdmap"
  cl_when_last_reply :: clock
  cl_beginning :: clock
  cl_skipFirst :: bool                    \<comment> \<open>initially true in the chained build only\<close>
  cl_running :: bool
  cl_outs :: "client_effect list"

definition Client_new :: "CID \<Rightarrow> u32 \<Rightarrow> u32 \<Rightarrow> (PID, conn) stdmap \<Rightarrow> bool \<Rightarrow> clock \<Rightarrow> Client" where
  "Client_new cid qsize numInstances conns skipFirst now =
     \<lparr>cl_cid = cid, cl_qsize = qsize, cl_numInstances = numInstances, cl_conns = conns, cl_transactions = [],
      cl_execTrans = [], cl_when_last_reply = now, cl_beginning = 0, cl_skipFirst = skipFirst,
      cl_running = True, cl_outs = []\<rparr>"

definition client_emit :: "client_effect list \<Rightarrow> Client \<Rightarrow> Client" where
  "client_emit es c = c\<lparr>cl_outs := cl_outs c @ es\<rparr>"

definition send_start_to_all :: "Client \<Rightarrow> Client" where
  "send_start_to_all c =
     client_emit (map (\<lambda>p. SendStart \<lparr>st_cid = cl_cid c, st_sign = Sign_default\<rparr> (snd p)) (cl_conns c)) c"

section \<open>Replies\<close>

definition updTransaction :: "TID \<Rightarrow> Client \<Rightarrow> u32 \<times> Client" where
  "updTransaction tid c =
     (case map_find (cl_transactions c) tid of
        Some (n, start, tr) \<Rightarrow>
          (n + 1, c\<lparr>cl_transactions := map_set tid (n + 1, start, tr) (cl_transactions c)\<rparr>)
      | None \<Rightarrow> (0, c))"

definition executed :: "clock \<Rightarrow> TID \<Rightarrow> Client \<Rightarrow> Client" where
  "executed now tid c =
     (case map_find (cl_transactions c) tid of
        Some (n, start, tr) \<Rightarrow> c\<lparr>cl_execTrans := map_set tid (start, now) (cl_execTrans c)\<rparr>
      | None \<Rightarrow> c)"

text \<open>The two clock readings are those of \<open>executed\<close> and of the end of the handler.\<close>

definition handle_reply :: "clock \<Rightarrow> clock \<Rightarrow> MsgReply \<Rightarrow> conn \<Rightarrow> Client \<Rightarrow> Client" where
  "handle_reply now now' msg conn c =
     (let tid = reply msg;
          c = (if map_find (cl_execTrans c) tid = None then
                 (let (numReplies, c) = updTransaction tid c in
                  if numReplies = cl_qsize c then
                    (let c = executed now tid c in
                     if length (cl_execTrans c) = unat (cl_numInstances c)
                     then client_emit [PrintStats, JoinSender, StopClient] c
                     else c)
                  else c)
               else c)
      in c\<lparr>cl_when_last_reply := now'\<rparr>)"

text \<open>One round of \<open>timeout_checker\<close>: stop after more than 15 seconds without a reply.\<close>

definition timeout_check :: "clock \<Rightarrow> Client \<Rightarrow> Client" where
  "timeout_check now c =
     (if cl_running c \<and> (now - cl_when_last_reply c) div 10 ^ 9 > 15
      then (client_emit [PrintStats, JoinSender, StopClient] c)\<lparr>cl_running := False\<rparr>
      else c)"

section \<open>Sending\<close>

definition addNewTransaction :: "clock \<Rightarrow> Transaction \<Rightarrow> Client \<Rightarrow> Client" where
  "addNewTransaction now tr c =
     c\<lparr>cl_transactions := map_set (transid tr) (0, now, tr) (cl_transactions c)\<rparr>"

definition mkTransaction :: "clock \<Rightarrow> TID \<Rightarrow> Client \<Rightarrow> MsgTransaction \<times> Client" where
  "mkTransaction now tid c =
     (let transaction = Transaction_fill (cl_cid c) tid 17;
          c = addNewTransaction now transaction c
      in (\<lparr>t_trans = transaction, t_sign = Sign_default\<rparr>, c))"

text \<open>
  \<open>send_transactions\<close>: the next transaction id and the connections that the inner loop has
  still to serve; an empty list is the test of the outer loop.
\<close>

datatype sender = Sending TID "(PID \<times> conn) list" | SenderDone

definition send_begin :: "clock \<Rightarrow> Client \<Rightarrow> sender \<times> Client" where
  "send_begin now c = (Sending 1 [], c\<lparr>cl_beginning := now\<rparr>)"

fun send_step :: "clock \<Rightarrow> sender \<times> Client \<Rightarrow> sender \<times> Client" where
  "send_step now (Sending tid [], c) =
     (if tid \<le> cl_numInstances c then (Sending tid (cl_conns c), c) else (SenderDone, c))"
| "send_step now (Sending tid (p # ps), c) =
     (if cl_skipFirst c then (Sending tid ps, c\<lparr>cl_skipFirst := False\<rparr>)
      else
        (let (msg, c) = mkTransaction now tid c;
             c = client_emit [SendTransaction msg (snd p)] c;
             tid = tid + 1
         in if tid > cl_numInstances c then (Sending tid [], c) else (Sending tid ps, c)))"
| "send_step now (SenderDone, c) = (SenderDone, c)"

section \<open>Interleaving\<close>

datatype client_event = CE_send clock | CE_reply clock clock MsgReply conn | CE_timeout clock

fun client_step :: "client_event \<Rightarrow> sender \<times> Client \<Rightarrow> sender \<times> Client" where
  "client_step (CE_send now) sc = send_step now sc"
| "client_step (CE_reply now now' msg conn) (s, c) = (s, handle_reply now now' msg conn c)"
| "client_step (CE_timeout now) (s, c) = (s, timeout_check now c)"

fun client_run :: "client_event list \<Rightarrow> sender \<times> Client \<Rightarrow> sender \<times> Client" where
  "client_run [] sc = sc"
| "client_run (e # es) sc = client_run es (client_step e sc)"

end
