(* ===== verification/ClientProps.thy ===== *)
theory ClientProps
  imports Client
begin

text \<open>
  What the client guarantees: it takes a transaction for executed after exactly \<open>qsize\<close>
  replies, whoever sent them; its sending loop sends every transaction once, to the
  connections in turn, or never ends; and it stops once every transaction is executed.
\<close>

section \<open>The invariant\<close>

text \<open>
  The transactions sent are a prefix \<open>1, ..., next - 1\<close>; a transaction is executed exactly when
  its count has reached \<open>qsize\<close>, and the client stops when all are executed.
\<close>

fun next_tid :: "sender \<Rightarrow> Client \<Rightarrow> nat" where
  "next_tid (Sending tid ps) c = unat tid"
| "next_tid SenderDone c = Suc (unat (cl_numInstances c))"

definition trans_sent :: "Client \<Rightarrow> TID \<Rightarrow> bool" where
  "trans_sent c k \<longleftrightarrow> map_find (cl_transactions c) k \<noteq> None"

definition trans_done :: "Client \<Rightarrow> TID \<Rightarrow> bool" where
  "trans_done c k \<longleftrightarrow> map_find (cl_execTrans c) k \<noteq> None"

definition reply_count :: "Client \<Rightarrow> TID \<Rightarrow> u32" where
  "reply_count c k = (case map_find (cl_transactions c) k of Some (n, t, tr) \<Rightarrow> n | None \<Rightarrow> 0)"

definition counts_ok :: "Client \<Rightarrow> bool" where
  "counts_ok c \<longleftrightarrow> cl_qsize c \<noteq> 0 \<and> map_ok (cl_execTrans c) \<and>
     (\<forall>k. trans_done c k \<longrightarrow> trans_sent c k) \<and>
     (\<forall>k. reply_count c k \<le> cl_qsize c) \<and> (\<forall>k. reply_count c k = cl_qsize c \<longleftrightarrow> trans_done c k) \<and>
     (0 < length (cl_execTrans c) \<and> length (cl_execTrans c) = unat (cl_numInstances c) \<longrightarrow> StopClient \<in> set (cl_outs c))"

definition client_ok :: "sender \<times> Client \<Rightarrow> bool" where
  "client_ok sc = (case sc of (s, c) \<Rightarrow>
     counts_ok c \<and> cl_numInstances c \<noteq> - 1 \<and>
     1 \<le> next_tid s c \<and> next_tid s c \<le> Suc (unat (cl_numInstances c)) \<and>
     (\<forall>tid p ps. s = Sending tid (p # ps) \<longrightarrow> tid \<le> cl_numInstances c) \<and>
     (\<forall>k. trans_sent c k \<longleftrightarrow> 1 \<le> unat k \<and> unat k < next_tid s c))"

lemma emit_client_sel [simp]:
  "cl_cid (client_emit es c) = cl_cid c" "cl_qsize (client_emit es c) = cl_qsize c"
  "cl_numInstances (client_emit es c) = cl_numInstances c" "cl_conns (client_emit es c) = cl_conns c"
  "cl_transactions (client_emit es c) = cl_transactions c" "cl_execTrans (client_emit es c) = cl_execTrans c"
  "cl_when_last_reply (client_emit es c) = cl_when_last_reply c" "cl_skipFirst (client_emit es c) = cl_skipFirst c"
  "cl_outs (client_emit es c) = cl_outs c @ es"
  by (simp_all add: client_emit_def)

lemma next_tid_cong: "cl_numInstances c' = cl_numInstances c \<Longrightarrow> next_tid s c' = next_tid s c"
  by (cases s) simp_all

text \<open>The counts depend on the two tables only.\<close>

lemma counts_cong:
  "cl_transactions c' = cl_transactions c \<Longrightarrow> trans_sent c' = trans_sent c"
  "cl_execTrans c' = cl_execTrans c \<Longrightarrow> trans_done c' = trans_done c"
  "cl_transactions c' = cl_transactions c \<Longrightarrow> reply_count c' = reply_count c"
  by (simp_all add: fun_eq_iff trans_sent_def trans_done_def reply_count_def)

lemma counts_ok_cong:
  assumes "counts_ok c" and t: "cl_transactions c' = cl_transactions c" and e: "cl_execTrans c' = cl_execTrans c"
    and "cl_qsize c' = cl_qsize c" "cl_numInstances c' = cl_numInstances c" "set (cl_outs c) \<subseteq> set (cl_outs c')"
  shows "counts_ok c'"
  using assms(1,4-6) unfolding counts_ok_def counts_cong(1) [OF t] counts_cong(2) [OF e] counts_cong(3) [OF t] e by auto

lemma unsent_count: "\<not> trans_sent c k \<Longrightarrow> reply_count c k = 0"
  by (cases "map_find (cl_transactions c) k") (auto simp: trans_sent_def reply_count_def)

text \<open>The state after one iteration of the sending loop.\<close>

definition sent_one :: "clock \<Rightarrow> TID \<Rightarrow> conn \<Rightarrow> Client \<Rightarrow> Client" where
  "sent_one now tid cn c = (let (msg, c) = mkTransaction now tid c in client_emit [SendTransaction msg cn] c)"

lemma sent_one_sel [simp]:
  "cl_qsize (sent_one now tid cn c) = cl_qsize c" "cl_numInstances (sent_one now tid cn c) = cl_numInstances c"
  "cl_conns (sent_one now tid cn c) = cl_conns c" "cl_execTrans (sent_one now tid cn c) = cl_execTrans c"
  "cl_skipFirst (sent_one now tid cn c) = cl_skipFirst c" "cl_cid (sent_one now tid cn c) = cl_cid c"
  "cl_transactions (sent_one now tid cn c) = map_set tid (0, now, Transaction_fill (cl_cid c) tid 17) (cl_transactions c)"
  "cl_outs (sent_one now tid cn c) =
     cl_outs c @ [SendTransaction \<lparr>t_trans = Transaction_fill (cl_cid c) tid 17, t_sign = Sign_default\<rparr> cn]"
  by (simp_all add: sent_one_def mkTransaction_def addNewTransaction_def Transaction_fill_def Let_def)

lemma sent_one_counts [simp]:
  "trans_sent (sent_one now tid cn c) k \<longleftrightarrow> k = tid \<or> trans_sent c k"
  "trans_done (sent_one now tid cn c) k \<longleftrightarrow> trans_done c k"
  "reply_count (sent_one now tid cn c) k = (if k = tid then 0 else reply_count c k)"
  by (simp_all add: trans_sent_def trans_done_def reply_count_def)

lemma send_step_Cons: "send_step now (Sending tid (p # ps), c) =
    (if cl_skipFirst c then (Sending tid ps, c\<lparr>cl_skipFirst := False\<rparr>)
     else if tid + 1 > cl_numInstances c then (Sending (tid + 1) [], sent_one now tid (snd p) c)
     else (Sending (tid + 1) ps, sent_one now tid (snd p) c))"
  by (simp add: sent_one_def mkTransaction_def addNewTransaction_def Let_def)

lemma sent_one_ok:
  assumes "counts_ok c" and "\<not> trans_sent c tid"
  shows "counts_ok (sent_one now tid cn c)"
  using assms unsent_count [of c tid] by (auto simp: counts_ok_def)

lemma send_step_ok: "client_ok sc \<Longrightarrow> client_ok (send_step now sc)"
proof (induction now sc rule: send_step.induct)
  case (1 now tid c)
  show ?case
  proof (cases "tid \<le> cl_numInstances c")
    case True
    with 1 show ?thesis by (simp add: client_ok_def)
  next
    case False
    with 1 have "unat tid = Suc (unat (cl_numInstances c))"
      by (simp add: client_ok_def word_le_nat_alt)
    with False 1 show ?thesis by (simp add: client_ok_def)
  qed
next
  case (2 now tid p ps c)
  have le: "tid \<le> cl_numInstances c" and max: "cl_numInstances c \<noteq> - 1" and counts: "counts_ok c" and pos: "1 \<le> unat tid"
    and sent: "trans_sent c k \<longleftrightarrow> 1 \<le> unat k \<and> unat k < unat tid" for k
    using 2 by (simp_all add: client_ok_def)
  show ?case
  proof (cases "cl_skipFirst c")
    case True
    have "counts_ok (c\<lparr>cl_skipFirst := False\<rparr>)" by (rule counts_ok_cong [OF counts]) simp_all
    moreover have "trans_sent (c\<lparr>cl_skipFirst := False\<rparr>) = trans_sent c" by (rule counts_cong(1)) simp
    ultimately show ?thesis using True 2 by (simp add: client_ok_def)
  next
    case False
    have "tid \<noteq> - 1" using le max by (metis word_order.extremum_uniqueI)
    then have u: "unat (tid + 1) = Suc (unat tid)" by (rule unat_Suc_word)
    have ok: "counts_ok (sent_one now tid (snd p) c)" by (rule sent_one_ok [OF counts]) (simp add: sent)
    have dom: "k = tid \<or> trans_sent c k \<longleftrightarrow> 1 \<le> unat k \<and> unat k < Suc (unat tid)" for k
      using sent [of k] pos by (auto simp: less_Suc_eq word_unat_eq_iff)
    have "unat tid \<le> unat (cl_numInstances c)" using le by (simp add: word_le_nat_alt)
    with False ok max dom u show ?thesis
      unfolding send_step_Cons by (simp add: client_ok_def not_less)
  qed
next
  case (3 now c)
  then show ?case by simp
qed

section \<open>Replies\<close>

lemma reply_stops_counting:
  assumes "counts_ok c" and "trans_done c (reply m) \<or> \<not> trans_sent c (reply m)"
  shows "handle_reply now now' m cn c = c\<lparr>cl_when_last_reply := now'\<rparr>"
proof (cases "map_find (cl_execTrans c) (reply m)")
  case None
  with assms(2) have "map_find (cl_transactions c) (reply m) = None"
    by (simp add: trans_done_def trans_sent_def del: not_None_eq)
  moreover have "cl_qsize c \<noteq> 0" using assms(1) by (simp add: counts_ok_def)
  ultimately show ?thesis using None by (simp add: handle_reply_def updTransaction_def)
next
  case (Some t)
  then show ?thesis by (simp add: handle_reply_def)
qed

text \<open>The transaction table after a counted reply, and the state when it completes the quorum.\<close>

definition counted :: "TID \<Rightarrow> Client \<Rightarrow> Client" where
  "counted tid c = snd (updTransaction tid c)"

lemma counted_sel [simp]:
  "cl_qsize (counted tid c) = cl_qsize c" "cl_numInstances (counted tid c) = cl_numInstances c"
  "cl_execTrans (counted tid c) = cl_execTrans c" "cl_outs (counted tid c) = cl_outs c"
  "cl_conns (counted tid c) = cl_conns c" "cl_skipFirst (counted tid c) = cl_skipFirst c" "cl_cid (counted tid c) = cl_cid c"
  by (cases "map_find (cl_transactions c) tid"; simp add: counted_def updTransaction_def split_beta)+

lemma counted_counts:
  "trans_sent (counted tid c) k \<longleftrightarrow> trans_sent c k" "trans_done (counted tid c) k \<longleftrightarrow> trans_done c k"
  "trans_sent c tid \<Longrightarrow> reply_count (counted tid c) k = (if k = tid then reply_count c tid + 1 else reply_count c k)"
  by (cases "map_find (cl_transactions c) tid";
      simp add: trans_sent_def trans_done_def reply_count_def counted_def updTransaction_def split_beta del: not_None_eq)+

lemma reply_counted:
  assumes "\<not> trans_done c (reply m)" and "trans_sent c (reply m)"
  shows "\<exists>t. handle_reply now now' m cn c =
    (if reply_count c (reply m) + 1 = cl_qsize c then
       (let c = (counted (reply m) c)\<lparr>cl_execTrans := map_set (reply m) t (cl_execTrans c)\<rparr> in
        if length (cl_execTrans c) = unat (cl_numInstances c) then client_emit [PrintStats, JoinSender, StopClient] c else c)
     else counted (reply m) c)\<lparr>cl_when_last_reply := now'\<rparr>"
proof -
  from assms(2) obtain n t0 tr where f: "map_find (cl_transactions c) (reply m) = Some (n, t0, tr)"
    by (auto simp: trans_sent_def)
  with assms(1) show ?thesis
    by (intro exI [of _ "(t0, now)"])
      (simp add: handle_reply_def trans_done_def updTransaction_def counted_def executed_def reply_count_def Let_def)
qed

lemma handle_reply_counts:
  assumes "counts_ok c"
    and c'_def: "c' = handle_reply now now' m cn c"
  shows "trans_sent c' k \<longleftrightarrow> trans_sent c k"
    and "reply_count c' k =
      (if k = reply m \<and> trans_sent c k \<and> \<not> trans_done c k then reply_count c k + 1 else reply_count c k)"
    and "counts_ok c'" and "cl_numInstances c' = cl_numInstances c" and "cl_qsize c' = cl_qsize c"
    and "cl_conns c' = cl_conns c" "set (cl_outs c) \<subseteq> set (cl_outs c')"
proof -
  have sent: "trans_done c k \<Longrightarrow> trans_sent c k" for k using assms(1) by (simp add: counts_ok_def)
  have "(\<forall>k. trans_sent c' k \<longleftrightarrow> trans_sent c k) \<and>
    (\<forall>k. reply_count c' k =
      (if k = reply m \<and> trans_sent c k \<and> \<not> trans_done c k then reply_count c k + 1 else reply_count c k)) \<and>
    counts_ok c' \<and> cl_numInstances c' = cl_numInstances c \<and> cl_qsize c' = cl_qsize c \<and>
    cl_conns c' = cl_conns c \<and> set (cl_outs c) \<subseteq> set (cl_outs c')"
  proof (cases "trans_done c (reply m) \<or> \<not> trans_sent c (reply m)")
    case True
    have c': "c' = c\<lparr>cl_when_last_reply := now'\<rparr>" unfolding c'_def by (rule reply_stops_counting [OF assms(1) True])
    have t: "trans_sent c' = trans_sent c" "reply_count c' = reply_count c"
      unfolding c' by (rule counts_cong, simp)+
    have "counts_ok c'" unfolding c' by (rule counts_ok_cong [OF assms(1)]) simp_all
    with True sent show ?thesis unfolding t unfolding c' by auto
  next
    case False
    then have f: "\<not> trans_done c (reply m)" "trans_sent c (reply m)" by simp_all
    have lt: "reply_count c (reply m) < cl_qsize c" using assms(1) f(1) by (simp add: counts_ok_def order_less_le)
    then have le: "reply_count c (reply m) + 1 \<le> cl_qsize c" by (rule inc_le)
    from reply_counted [OF f, of now now' cn] obtain t where c': "c' =
      (if reply_count c (reply m) + 1 = cl_qsize c then
         (let c = (counted (reply m) c)\<lparr>cl_execTrans := map_set (reply m) t (cl_execTrans c)\<rparr> in
          if length (cl_execTrans c) = unat (cl_numInstances c) then client_emit [PrintStats, JoinSender, StopClient] c else c)
       else counted (reply m) c)\<lparr>cl_when_last_reply := now'\<rparr>" unfolding c'_def by blast
    have tr: "cl_transactions c' = cl_transactions (counted (reply m) c)" unfolding c' by (simp add: Let_def)
    have sel: "cl_numInstances c' = cl_numInstances c" "cl_qsize c' = cl_qsize c" "cl_conns c' = cl_conns c"
      "set (cl_outs c) \<subseteq> set (cl_outs c')" unfolding c' by (auto simp: Let_def)
    have s: "trans_sent c' k \<longleftrightarrow> trans_sent c k" for k
      unfolding counts_cong(1) [OF tr] by (simp add: counted_counts)
    have n: "reply_count c' k = (if k = reply m then reply_count c k + 1 else reply_count c k)" for k
      unfolding counts_cong(3) [OF tr] using f(2) by (simp add: counted_counts)
    have d: "trans_done c' k \<longleftrightarrow> trans_done c k \<or> k = reply m \<and> reply_count c k + 1 = cl_qsize c" for k
      unfolding c' by (auto simp: trans_done_def Let_def)
    have ok: "map_ok (cl_execTrans c')" using assms(1) unfolding c' by (simp add: counts_ok_def Let_def)
    have stop: "StopClient \<in> set (cl_outs c')"
      if "0 < length (cl_execTrans c')" "length (cl_execTrans c') = unat (cl_numInstances c')"
      using that assms(1) unfolding c' by (auto simp: counts_ok_def Let_def split: if_splits)
    have "cl_qsize c' \<noteq> 0" "\<forall>k. trans_done c' k \<longrightarrow> trans_sent c' k" "\<forall>k. reply_count c' k \<le> cl_qsize c'"
      "\<forall>k. reply_count c' k = cl_qsize c' \<longleftrightarrow> trans_done c' k"
      using assms(1) f le unfolding counts_ok_def s n d sel by auto
    with ok stop have "counts_ok c'" unfolding counts_ok_def by blast
    with s n f sel show ?thesis by simp
  qed
  then show "trans_sent c' k \<longleftrightarrow> trans_sent c k"
    and "reply_count c' k =
      (if k = reply m \<and> trans_sent c k \<and> \<not> trans_done c k then reply_count c k + 1 else reply_count c k)"
    and "counts_ok c'" and "cl_numInstances c' = cl_numInstances c" and "cl_qsize c' = cl_qsize c"
    and "cl_conns c' = cl_conns c" "set (cl_outs c) \<subseteq> set (cl_outs c')"
    by blast+
qed

section \<open>Runs\<close>

definition answers :: "TID \<Rightarrow> client_event \<Rightarrow> bool" where
  "answers tid e = (case e of CE_reply now now' m cn \<Rightarrow> reply m = tid | _ \<Rightarrow> False)"

lemma timeout_ok:
  assumes "counts_ok c"
  shows "counts_ok (timeout_check now c)" "trans_sent (timeout_check now c) = trans_sent c"
    "reply_count (timeout_check now c) = reply_count c" "cl_qsize (timeout_check now c) = cl_qsize c"
    "cl_numInstances (timeout_check now c) = cl_numInstances c"
proof -
  show "counts_ok (timeout_check now c)"
    by (rule counts_ok_cong [OF assms]) (auto simp: timeout_check_def)
  show "trans_sent (timeout_check now c) = trans_sent c" by (rule counts_cong) (simp add: timeout_check_def)
  show "reply_count (timeout_check now c) = reply_count c" by (rule counts_cong) (simp add: timeout_check_def)
qed (simp_all add: timeout_check_def)

lemma client_step_ok:
  assumes "client_ok (s, c)"
  shows "client_ok (client_step e (s, c))"
proof (cases e)
  case (CE_send now)
  with assms send_step_ok [of "(s, c)" now] show ?thesis by simp
next
  case (CE_reply now now' m cn)
  let ?c = "handle_reply now now' m cn c"
  have "counts_ok c" using assms by (simp add: client_ok_def)
  note h = handle_reply_counts [OF this refl, of now now' m cn]
  have n: "next_tid s ?c = next_tid s c" by (rule next_tid_cong [OF h(4)])
  show ?thesis using assms unfolding CE_reply client_step.simps client_ok_def prod.case n h(4) h(1) by (simp add: h(3))
next
  case (CE_timeout now)
  have "counts_ok c" using assms by (simp add: client_ok_def)
  note t = timeout_ok [OF this, of now]
  have n: "next_tid s (timeout_check now c) = next_tid s c" by (rule next_tid_cong [OF t(5)])
  show ?thesis using assms unfolding CE_timeout client_step.simps client_ok_def prod.case n t(5) t(2) by (simp add: t(1))
qed

lemma send_step_counts:
  assumes "client_ok (s, c)" and "trans_sent c tid" and "send_step now (s, c) = (s', c')"
  shows "trans_sent c' tid \<and> reply_count c' tid = reply_count c tid \<and> cl_qsize c' = cl_qsize c"
proof (cases s)
  case SenderDone
  with assms show ?thesis by simp
next
  case (Sending t ps)
  show ?thesis
  proof (cases ps)
    case Nil
    with Sending assms show ?thesis by (auto split: if_splits)
  next
    case (Cons p qs)
    have "tid \<noteq> t" using assms(1,2) unfolding Sending Cons by (auto simp: client_ok_def)
    moreover have "c' = c\<lparr>cl_skipFirst := False\<rparr> \<or> c' = sent_one now t (snd p) c"
      using assms(3) unfolding Sending Cons send_step_Cons by (auto split: if_splits)
    moreover have "trans_sent (c\<lparr>cl_skipFirst := False\<rparr>) = trans_sent c" "reply_count (c\<lparr>cl_skipFirst := False\<rparr>) = reply_count c"
      by (rule counts_cong, simp)+
    ultimately show ?thesis using assms(2) by auto
  qed
qed

lemma client_step_counts:
  assumes "client_ok (s, c)" and "trans_sent c tid" and "client_step e (s, c) = (s', c')"
  shows "trans_sent c' tid \<and> cl_qsize c' = cl_qsize c \<and>
    unat (reply_count c' tid) = min (unat (cl_qsize c)) (unat (reply_count c tid) + (if answers tid e then 1 else 0))"
proof -
  have ok: "counts_ok c" using assms(1) by (simp add: client_ok_def)
  then have le: "unat (reply_count c tid) \<le> unat (cl_qsize c)" by (simp add: counts_ok_def word_le_nat_alt)
  show ?thesis
  proof (cases e)
    case (CE_send now)
    with send_step_counts [OF assms(1,2)] assms(3) le show ?thesis by (simp add: answers_def min_absorb2)
  next
    case (CE_reply now now' m cn)
    with assms(3) have c': "c' = handle_reply now now' m cn c" by simp
    note h = handle_reply_counts [OF ok c']
    show ?thesis
    proof (cases "trans_done c tid \<or> reply m \<noteq> tid")
      case True
      then have "reply_count c tid = cl_qsize c \<or> reply m \<noteq> tid" using ok by (auto simp: counts_ok_def)
      with True le h assms(2) CE_reply show ?thesis by (auto simp: answers_def)
    next
      case False
      then have "reply_count c tid < cl_qsize c" using ok by (simp add: counts_ok_def order_less_le)
      then have "unat (reply_count c tid + 1) = Suc (unat (reply_count c tid))" "Suc (unat (reply_count c tid)) \<le> unat (cl_qsize c)"
        using unat_u32_less [of "cl_qsize c"] by (simp_all add: unat_Suc_u32 word_less_nat_alt)
      with False h assms(2) CE_reply show ?thesis by (auto simp: answers_def)
    qed
  next
    case (CE_timeout now)
    with timeout_ok [OF ok, of now] assms(2,3) le show ?thesis by (auto simp: answers_def min_absorb2)
  qed
qed

lemma client_run_ok: "client_ok (s, c) \<Longrightarrow> client_run es (s, c) = (s', c') \<Longrightarrow> client_ok (s', c')"
proof (induction es arbitrary: s c)
  case (Cons e es)
  obtain s1 c1 where "client_step e (s, c) = (s1, c1)" by fastforce
  with Cons client_step_ok [of s c e] show ?case by simp
qed simp

lemma client_run_append: "client_run (es1 @ es2) sc = client_run es2 (client_run es1 sc)"
  by (induction es1 arbitrary: sc) simp_all

lemma client_run_counts:
  "client_ok (s, c) \<Longrightarrow> trans_sent c tid \<Longrightarrow> client_run es (s, c) = (s', c') \<Longrightarrow>
   trans_sent c' tid \<and> cl_qsize c' = cl_qsize c \<and>
   unat (reply_count c' tid) = min (unat (cl_qsize c)) (unat (reply_count c tid) + length (filter (answers tid) es))"
proof (induction es arbitrary: s c)
  case Nil
  then have "unat (reply_count c tid) \<le> unat (cl_qsize c)" by (simp add: client_ok_def counts_ok_def word_le_nat_alt)
  with Nil show ?case by simp
next
  case (Cons e es)
  obtain s1 c1 where e: "client_step e (s, c) = (s1, c1)" by fastforce
  note step = client_step_counts [OF Cons.prems(1,2) e]
  have "client_ok (s1, c1)" using client_step_ok [OF Cons.prems(1), of e] e by simp
  with Cons.IH [of s1 c1] Cons.prems(3) e step show ?case by auto
qed

lemma client_new_ok:
  "q \<noteq> 0 \<Longrightarrow> N \<noteq> - 1 \<Longrightarrow> client_ok (send_begin t (Client_new cid q N conns sk now))"
  by (simp add: client_ok_def send_begin_def Client_new_def counts_ok_def trans_sent_def trans_done_def reply_count_def)

section \<open>The sending loop\<close>

text \<open>The connection that serves the \<open>j\<close>-th transaction from a point of the inner loop on.\<close>

definition turn :: "(PID \<times> conn) list \<Rightarrow> (PID \<times> conn) list \<Rightarrow> nat \<Rightarrow> PID \<times> conn" where
  "turn conns ps j = (if j < length ps then ps ! j else conns ! ((j - length ps) mod length conns))"

lemma turn_simps [simp]:
  "turn conns (p # ps) 0 = p" "turn conns (p # ps) (Suc j) = turn conns ps j"
  by (simp_all add: turn_def)

lemma turn_round: "conns \<noteq> [] \<Longrightarrow> turn conns [] j = turn conns conns j"
  by (auto simp: turn_def le_mod_geq)

lemma turn_tl: "conns \<noteq> [] \<Longrightarrow> turn conns (tl conns) j = conns ! (Suc j mod length conns)"
  by (cases conns) (auto simp: turn_def le_mod_geq Suc_diff_le)

definition sent_msg :: "CID \<Rightarrow> TID \<Rightarrow> conn \<Rightarrow> client_effect" where
  "sent_msg cid tid cn = SendTransaction \<lparr>t_trans = Transaction_fill cid tid 17, t_sign = Sign_default\<rparr> cn"

definition send_run :: "clock list \<Rightarrow> sender \<times> Client \<Rightarrow> sender \<times> Client" where
  "send_run ts = fold send_step ts"

lemma send_run_Done [simp]: "send_run ts (SenderDone, c) = (SenderDone, c)"
  by (induction ts) (simp_all add: send_run_def)

lemma map_upt_Cons: "0 < r \<Longrightarrow> map f [0..<r] = f 0 # map (\<lambda>j. f (Suc j)) [0..<r - 1]"
  by (cases r) (simp_all add: map_upt_Suc del: upt_Suc)

lemma send_run_spec:
  "r = Suc (unat (cl_numInstances c)) - unat tid \<Longrightarrow> unat tid \<le> Suc (unat (cl_numInstances c)) \<Longrightarrow>
   cl_numInstances c \<noteq> - 1 \<Longrightarrow> cl_conns c \<noteq> [] \<Longrightarrow> \<not> cl_skipFirst c \<Longrightarrow> ps \<noteq> [] \<longrightarrow> 0 < r \<Longrightarrow>
   2 * r + (if ps = [] then 1 else 0) \<le> length ts \<Longrightarrow>
   \<exists>c'. send_run ts (Sending tid ps, c) = (SenderDone, c') \<and>
     cl_outs c' = cl_outs c @ map (\<lambda>j. sent_msg (cl_cid c) (tid + word_of_nat j) (snd (turn (cl_conns c) ps j))) [0..<r]"
proof (induction ts arbitrary: r tid ps c)
  case Nil
  then show ?case by (auto split: if_splits)
next
  case (Cons t ts)
  show ?case
  proof (cases "r = 0")
    case True
    with Cons.prems have "\<not> tid \<le> cl_numInstances c" "ps = []" by (auto simp: word_le_nat_alt)
    with True show ?thesis by (simp add: send_run_def) (simp flip: send_run_def)
  next
    case False
    with Cons.prems(1,2) have le: "tid \<le> cl_numInstances c" by (simp add: word_le_nat_alt)
    show ?thesis
    proof (cases ps)
      case Nil
      have "\<exists>c'. send_run ts (Sending tid (cl_conns c), c) = (SenderDone, c') \<and>
        cl_outs c' = cl_outs c @ map (\<lambda>j. sent_msg (cl_cid c) (tid + word_of_nat j) (snd (turn (cl_conns c) (cl_conns c) j))) [0..<r]"
        by (rule Cons.IH) (use Cons.prems Nil False in auto)
      with le Nil Cons.prems(4) show ?thesis by (simp add: send_run_def turn_round)
    next
      case (Cons p qs)
      let ?c = "sent_one t tid (snd p) c"
      have "tid \<noteq> - 1" using le Cons.prems(3) by (metis word_order.extremum_uniqueI)
      then have u: "unat (tid + 1) = Suc (unat tid)" by (rule unat_Suc_word)
      define rs where "rs = (if tid + 1 > cl_numInstances c then [] else qs)"
      have r1: "rs \<noteq> [] \<longrightarrow> 0 < r - 1"
        using Cons.prems(1) u by (auto simp: rs_def not_less word_le_nat_alt)
      have "\<exists>c'. send_run ts (Sending (tid + 1) rs, ?c) = (SenderDone, c') \<and>
        cl_outs c' = cl_outs ?c @ map (\<lambda>j. sent_msg (cl_cid ?c) (tid + 1 + word_of_nat j) (snd (turn (cl_conns ?c) rs j))) [0..<r - 1]"
        by (rule Cons.IH) (use Cons.prems \<open>ps = p # qs\<close> False u r1 le in \<open>auto simp: word_le_nat_alt\<close>)
      moreover have "map (\<lambda>j. sent_msg (cl_cid c) (tid + 1 + word_of_nat j) (snd (turn (cl_conns c) rs j))) [0..<r - 1] =
        map (\<lambda>j. sent_msg (cl_cid c) (tid + word_of_nat (Suc j)) (snd (turn (cl_conns c) (p # qs) (Suc j)))) [0..<r - 1]"
      proof (cases "tid + 1 > cl_numInstances c")
        case True
        with Cons.prems(1) u have "r - 1 = 0" by (simp add: word_less_nat_alt)
        then show ?thesis by simp
      next
        case False
        then show ?thesis by (simp add: rs_def add.assoc)
      qed
      moreover have "send_step t (Sending tid ps, c) = (Sending (tid + 1) rs, ?c)"
        using Cons.prems(5) unfolding \<open>ps = p # qs\<close> send_step_Cons rs_def by simp
      moreover have "send_run (t # ts) (Sending tid ps, c) = send_run ts (send_step t (Sending tid ps, c))"
        by (simp add: send_run_def)
      ultimately show ?thesis
        using False unfolding \<open>ps = p # qs\<close> by (auto simp: map_upt_Cons sent_msg_def simp del: upt_Suc send_step.simps of_nat_Suc)
    qed
  qed
qed

lemma client_new_sel [simp]:
  "cl_numInstances (Client_new cid q N conns sk now) = N" "cl_conns (Client_new cid q N conns sk now) = conns"
  "cl_skipFirst (Client_new cid q N conns sk now) = sk" "cl_cid (Client_new cid q N conns sk now) = cid"
  "cl_outs (Client_new cid q N conns sk now) = []" "cl_qsize (Client_new cid q N conns sk now) = q"
  by (simp_all add: Client_new_def)

lemma send_run_Cons: "send_run (t # ts) sc = send_run ts (send_step t sc)"
  by (simp add: send_run_def)

lemma sender_last_id:
  "cl_numInstances c = - 1 \<Longrightarrow> s \<noteq> SenderDone \<Longrightarrow> send_step t (s, c) = (s', c') \<Longrightarrow>
   cl_numInstances c' = - 1 \<and> s' \<noteq> SenderDone"
proof (cases s)
  case (Sending tid ps)
  assume "cl_numInstances c = - 1" "send_step t (s, c) = (s', c')"
  with Sending show ?thesis
    by (cases ps) (auto simp: send_step_Cons simp del: send_step.simps(2) split: if_splits)
qed simp

text \<open>The parameters of the client never change.\<close>

lemma handle_reply_const:
  "cl_qsize (handle_reply now now' m cn c) = cl_qsize c \<and> cl_numInstances (handle_reply now now' m cn c) = cl_numInstances c"
  by (auto simp: handle_reply_def updTransaction_def executed_def Let_def split: option.split)

lemma client_step_const:
  "client_step e (s, c) = (s', c') \<Longrightarrow> cl_qsize c' = cl_qsize c \<and> cl_numInstances c' = cl_numInstances c"
proof (induction e "(s, c)" rule: client_step.induct)
  case (1 now)
  then show ?case
    by (cases "(now, s, c)" rule: send_step.cases) (auto simp: send_step_Cons simp del: send_step.simps(2) split: if_splits)
next
  case (2 now now' m cn)
  then show ?case using handle_reply_const by auto
next
  case (3 now)
  then show ?case by (auto simp: timeout_check_def)
qed

lemma client_run_const:
  "client_run es (s, c) = (s', c') \<Longrightarrow> cl_qsize c' = cl_qsize c \<and> cl_numInstances c' = cl_numInstances c"
proof (induction es arbitrary: s c)
  case (Cons e es)
  obtain s1 c1 where e: "client_step e (s, c) = (s1, c1)" by fastforce
  with Cons client_step_const [OF e] show ?case by simp
qed simp

text \<open>When exactly the transactions 1, ..., N are executed, there are N of them.\<close>

lemma length_execTrans:
  assumes "map_ok (cl_execTrans c)" and "\<And>k. trans_done c k \<longleftrightarrow> 1 \<le> unat k \<and> unat k \<le> n" and "n < 2 ^ 32"
  shows "length (cl_execTrans c) = n"
proof -
  have "length (cl_execTrans c) = card (fst ` set (cl_execTrans c))"
    using assms(1) unfolding map_ok_def by (metis length_map list.set_map strict_sorted_imp_sorted distinct_card strict_sorted_iff)
  also have "fst ` set (cl_execTrans c) = {k. trans_done c k}"
    by (auto simp: trans_done_def map_find_None_iff simp del: not_None_eq)
  also have "\<dots> = word_of_nat ` {1..n}"
  proof (rule set_eqI)
    fix k :: TID
    show "k \<in> {k. trans_done c k} \<longleftrightarrow> k \<in> word_of_nat ` {1..n}"
    proof
      assume "k \<in> {k. trans_done c k}"
      with assms(2) have "unat k \<in> {1..n}" by simp
      then show "k \<in> word_of_nat ` {1..n}" by (intro image_eqI [of _ _ "unat k"]) simp_all
    next
      assume "k \<in> word_of_nat ` {1..n}"
      then obtain j where "k = word_of_nat j" "j \<in> {1..n}" by blast
      moreover from this assms(3) have "unat k = j" by (simp add: unat_of_nat_u32)
      ultimately show "k \<in> {k. trans_done c k}" using assms(2) by simp
    qed
  qed
  also have "card \<dots> = card {1..n}"
    using assms(3) by (intro card_image inj_onI) (metis atLeastAtMost_iff le_less_trans unat_of_nat_u32)
  finally show ?thesis by simp
qed

section \<open>Properties\<close>

text \<open>
  C19. When the client takes a transaction for executed. In every run of the client
  (sender, replies and timeouts interleaved in any way), after the sender has sent a transaction, the
  transaction is in \<open>execTrans\<close> exactly when at least \<open>qsize\<close> replies for it have
  been handled. Neither the connection of a reply nor who sent it is looked at, so \<open>qsize\<close>
  replies of a single replica are as good as those of \<open>qsize\<close> replicas.
\<close>

theorem client_executes_iff_quorum:
  assumes "q \<noteq> 0" and "N \<noteq> - 1"
    and "client_run es1 (send_begin t0 (Client_new cid q N conns sk now)) = (s1, c1)"
    and "map_find (cl_transactions c1) tid = None"
    and "client_step (CE_send t) (s1, c1) = (s2, c2)" and "map_find (cl_transactions c2) tid \<noteq> None"
    and "client_run es2 (s2, c2) = (s3, c3)"
  shows "map_find (cl_execTrans c3) tid \<noteq> None \<longleftrightarrow>
    unat q \<le> length (filter (\<lambda>e. \<exists>now now' m cn. e = CE_reply now now' m cn \<and> reply m = tid) es2)"
proof -
  obtain s0 c0 where n: "send_begin t0 (Client_new cid q N conns sk now) = (s0, c0)" by fastforce
  have ok1: "client_ok (s1, c1)"
    using client_run_ok [of s0 c0 es1] client_new_ok [OF assms(1,2)] assms(3) n by metis
  then have ok2: "client_ok (s2, c2)" using client_step_ok [of s1 c1 "CE_send t"] assms(5) by metis
  have s: "\<not> trans_sent c1 tid" "trans_sent c2 tid" using assms(4,6) by (simp_all add: trans_sent_def del: not_None_eq)
  then have zero: "reply_count c2 tid = 0"
  proof (cases s1)
    case (Sending u ps)
    show ?thesis
    proof (cases ps)
      case Nil
      with assms(5) Sending s show ?thesis by (auto split: if_splits)
    next
      case (Cons p qs)
      from assms(5) have "send_step t (Sending u (p # qs), c1) = (s2, c2)" unfolding Sending Cons by simp
      then have "c2 = c1\<lparr>cl_skipFirst := False\<rparr> \<or> c2 = sent_one t u (snd p) c1"
        unfolding send_step_Cons by (auto split: if_splits)
      moreover have "trans_sent (c1\<lparr>cl_skipFirst := False\<rparr>) = trans_sent c1" by (rule counts_cong) simp
      ultimately show ?thesis using s by auto
    qed
  qed (use assms(5) s in simp)
  have const: "cl_qsize c1 = q" "cl_qsize c2 = cl_qsize c1"
    using client_run_const [OF assms(3) [unfolded n]] client_step_const [OF assms(5)] n by (auto simp: send_begin_def)
  note run = client_run_counts [OF ok2 s(2) assms(7)]
  have "counts_ok c3" using client_run_ok [OF ok2 assms(7)] by (simp add: client_ok_def)
  then have "trans_done c3 tid \<longleftrightarrow> unat (reply_count c3 tid) = unat (cl_qsize c3)"
    by (simp add: counts_ok_def word_unat_eq_iff)
  also have "\<dots> \<longleftrightarrow> unat q \<le> length (filter (answers tid) es2)"
    using run const zero by (simp add: min_def)
  also have "answers tid = (\<lambda>e. \<exists>now now' m cn. e = CE_reply now now' m cn \<and> reply m = tid)"
    by (rule ext) (simp add: answers_def split: client_event.split)
  finally show ?thesis by (simp only: trans_done_def)
qed

text \<open>
  C20. Everything is sent, once. With at least one connection and fewer than 2 ^ 32 - 1
  transactions, the sending loop ends within \<open>2 * N + 3\<close> of its steps, and it has sent the
  transactions 1, ..., \<open>N\<close>, each once and in this order, to the connections in turn (in the
  chained build from the second connection on).
\<close>

theorem client_sends_all:
  assumes "conns \<noteq> []" and "N \<noteq> - 1" and "2 * unat N + 3 \<le> length ts"
  shows "\<exists>c'. fold send_step ts (send_begin t0 (Client_new cid q N conns sk now)) = (SenderDone, c') \<and>
    cl_outs c' = map (\<lambda>j. SendTransaction
        \<lparr>t_trans = Transaction_fill cid (word_of_nat (Suc j)) 17, t_sign = Sign_default\<rparr>
        (snd (conns ! ((j + (if sk then 1 else 0)) mod length conns)))) [0..<unat N]"
proof -
  let ?c = "(Client_new cid q N conns sk now)\<lparr>cl_beginning := t0\<rparr>"
  obtain t1 ts1 where ts: "ts = t1 # ts1" using assms(3) by (cases ts) auto
  have all: "\<exists>c'. send_run us (Sending 1 ps, c) = (SenderDone, c') \<and>
      cl_outs c' = map (\<lambda>j. sent_msg cid (word_of_nat (Suc j)) (snd (turn conns ps j))) [0..<unat N]"
    if "c = ?c\<lparr>cl_skipFirst := False\<rparr>" "ps \<noteq> [] \<longrightarrow> 0 < unat N" "2 * unat N + 1 \<le> length us" for c ps us
    using send_run_spec [of "unat N" c 1 ps us] that assms(1,2) by (simp add: add.commute split: if_splits)
  have turn0: "turn conns [] j = conns ! (j mod length conns)" for j by (simp add: turn_def)
  have "\<exists>c'. send_run ts (Sending 1 [], ?c) = (SenderDone, c') \<and>
    cl_outs c' = map (\<lambda>j. sent_msg cid (word_of_nat (Suc j)) (snd (conns ! ((j + (if sk then 1 else 0)) mod length conns)))) [0..<unat N]"
  proof (cases "sk \<and> N \<noteq> 0")
    case True
    then obtain t2 us where us: "ts1 = t2 # us" using assms(3) ts by (cases ts1) (auto simp: unat_eq_zero)
    obtain p ps where c: "conns = p # ps" using assms(1) by (cases conns) auto
    have "1 \<le> N" using True by (simp add: word_le_nat_alt unat_gt_0 Suc_le_eq)
    then have "send_run ts (Sending 1 [], ?c) = send_run us (Sending 1 ps, ?c\<lparr>cl_skipFirst := False\<rparr>)"
      using True unfolding ts us send_run_Cons c by simp
    moreover have "turn conns ps j = conns ! (Suc j mod length conns)" for j
      using turn_tl [OF assms(1), of j] by (simp add: c)
    ultimately show ?thesis
      using all [of "?c\<lparr>cl_skipFirst := False\<rparr>" ps us] True assms(3) ts us by (simp add: unat_gt_0)
  next
    case False
    show ?thesis
    proof (cases "N = 0")
      case True
      then show ?thesis unfolding ts send_run_Cons by simp
    next
      case nz: False
      with False have "?c\<lparr>cl_skipFirst := False\<rparr> = ?c" by (simp add: Client_new_def)
      with all [of ?c "[]" ts] False nz assms(3) show ?thesis by (simp add: turn0)
    qed
  qed
  then show ?thesis by (simp add: send_run_def send_begin_def sent_msg_def del: of_nat_Suc)
qed

text \<open>
  The sending loop may never end: without any connection its inner loop has nothing to
  do, and for 2 ^ 32 - 1 transactions the id wraps to 0 and stays at most \<open>numInstances\<close>. The
  event loop then waits forever for the sender, which it joins before it stops.
\<close>

theorem client_sender_never_ends:
  assumes "conns = [] \<and> N \<noteq> 0 \<or> N = - 1"
  shows "fst (fold send_step ts (send_begin t0 (Client_new cid q N conns sk now))) \<noteq> SenderDone"
proof (cases "N = - 1")
  case True
  have "cl_numInstances c = - 1 \<Longrightarrow> s \<noteq> SenderDone \<Longrightarrow> fst (send_run ts (s, c)) \<noteq> SenderDone" for s c
  proof (induction ts arbitrary: s c)
    case (Cons t ts)
    obtain s1 c1 where e: "send_step t (s, c) = (s1, c1)" by fastforce
    from Cons.IH [of c1 s1] sender_last_id [OF Cons.prems e] e show ?case by (simp add: send_run_Cons)
  qed (simp add: send_run_def)
  with True show ?thesis by (simp add: send_run_def send_begin_def)
next
  case False
  with assms have n: "1 \<le> N" "conns = []" by (simp_all add: word_le_nat_alt unat_gt_0 Suc_le_eq)
  then have "send_run ts (Sending 1 [], c) = (Sending 1 [], c)" if "cl_numInstances c = N" "cl_conns c = []" for c
    using that by (induction ts) (simp_all add: send_run_Cons, simp add: send_run_def)
  with n show ?thesis by (simp add: send_run_def send_begin_def)
qed

text \<open>
  C18. The client stops. Take a client of \<open>N\<close> transactions, \<open>1 \<le> N < 2 ^ 32 - 1\<close>, and a quorum of at least one reply, in any
  interleaving of its sender, replies and timeouts from the start. If for every transaction
  \<open>qsize\<close> replies are handled after it has been sent, while the client still sends others or later, in
  whatever order and whatever else happens in between, the client has stopped its event loop.
\<close>

theorem client_stops:
  assumes "q \<noteq> 0" and "N \<noteq> - 1" and "N \<noteq> 0"
    and "client_run es (send_begin t0 (Client_new cid q N conns sk now)) = (s', c')"
    and "\<forall>tid. 1 \<le> unat tid \<and> unat tid \<le> unat N \<longrightarrow>
      (\<exists>es1 es2 s c. es = es1 @ es2 \<and> client_run es1 (send_begin t0 (Client_new cid q N conns sk now)) = (s, c) \<and>
         map_find (cl_transactions c) tid \<noteq> None \<and>
         unat q \<le> length (filter (\<lambda>e. \<exists>now now' m cn. e = CE_reply now now' m cn \<and> reply m = tid) es2))"
  shows "StopClient \<in> set (cl_outs c')"
proof -
  obtain s0 c0 where n: "send_begin t0 (Client_new cid q N conns sk now) = (s0, c0)" by fastforce
  have ok0: "client_ok (s0, c0)" using client_new_ok [OF assms(1,2)] n by metis
  note ok' = client_run_ok [OF ok0 assms(4) [unfolded n]]
  have c0: "cl_qsize c0 = q" "cl_numInstances c0 = N" using n by (auto simp: send_begin_def)
  have N: "cl_numInstances c' = N" using client_run_const [OF assms(4) [unfolded n]] c0 by simp
  have a: "answers tid = (\<lambda>e. \<exists>now now' m cn. e = CE_reply now now' m cn \<and> reply m = tid)" for tid
    by (rule ext) (simp add: answers_def split: client_event.split)
  have all_done: "trans_done c' k" if k: "1 \<le> unat k" "unat k \<le> unat N" for k
  proof -
    from assms(5) k obtain es1 es2 s c where es: "es = es1 @ es2" and r: "client_run es1 (s0, c0) = (s, c)"
      and sent: "trans_sent c k" and q: "unat q \<le> length (filter (answers k) es2)"
      unfolding a n trans_sent_def by blast
    have c: "cl_qsize c = q" using client_run_const [OF r] c0 by simp
    have "client_run es2 (s, c) = (s', c')" using assms(4) r unfolding n es client_run_append by simp
    from client_run_counts [OF client_run_ok [OF ok0 r] sent this] q c have "unat (reply_count c' k) = unat (cl_qsize c')" by simp
    then have "reply_count c' k = cl_qsize c'" by (simp add: word_unat_eq_iff)
    with ok' show ?thesis by (simp add: client_ok_def counts_ok_def)
  qed
  have sent: "trans_done c' k \<Longrightarrow> 1 \<le> unat k \<and> unat k \<le> unat N" for k
    using ok' N by (auto simp: client_ok_def counts_ok_def dest!: spec [of _ k])
  have "length (cl_execTrans c') = unat N"
    by (rule length_execTrans) (use ok' all_done sent unat_u32_less in \<open>auto simp: client_ok_def counts_ok_def\<close>)
  moreover from this assms(3) have "cl_execTrans c' \<noteq> []" by (auto simp: unat_eq_zero)
  ultimately show ?thesis using ok' N by (simp add: client_ok_def counts_ok_def)
qed

section \<open>A concrete run\<close>

text \<open>A client of one replica that waits for two replies to its only transaction.\<close>

definition demo_client :: "sender \<times> Client" where
  "demo_client = send_begin 0 (Client_new 7 2 1 [(0, 5)] False 0)"

definition demo_tx :: "clock \<Rightarrow> TransInfo" where
  "demo_tx t = (0, t, Transaction_fill 7 1 17)"

lemma demo_client_run:
  "client_run [CE_send 1] demo_client = (Sending 1 [(0, 5)], snd demo_client)"
  "send_step 2 (Sending 1 [(0, 5)], snd demo_client) = (Sending 2 [], sent_one 2 1 5 (snd demo_client))"
  "client_run [CE_send 1, CE_send 2, CE_send 3] demo_client = (SenderDone, sent_one 2 1 5 (snd demo_client))"
  by (simp_all add: demo_client_def send_begin_def Client_new_def sent_one_def mkTransaction_def addNewTransaction_def client_emit_def word_le_nat_alt
      Let_def)

theorem client_executes_iff_quorum_witness:
  "\<exists>s c. client_run [CE_reply 3 3 \<lparr>reply = 1\<rparr> 5, CE_reply 4 4 \<lparr>reply = 1\<rparr> 5]
     (Sending 2 [], sent_one 2 1 5 (snd demo_client)) = (s, c) \<and> map_find (cl_execTrans c) 1 \<noteq> None"
proof -
  obtain s c where r: "client_run [CE_reply 3 3 \<lparr>reply = 1\<rparr> 5, CE_reply 4 4 \<lparr>reply = 1\<rparr> 5]
     (Sending 2 [], sent_one 2 1 5 (snd demo_client)) = (s, c)" by fastforce
  have "map_find (cl_transactions (snd demo_client)) 1 = None"
    by (simp add: demo_client_def send_begin_def Client_new_def)
  with client_executes_iff_quorum [of 2 1 "[CE_send 1]" 0 7 "[(0, 5)]" False 0 "Sending 1 [(0, 5)]" "snd demo_client" 1 2
      "Sending 2 []" "sent_one 2 1 5 (snd demo_client)" _ s c, folded demo_client_def, OF _ _ demo_client_run(1) _ _ _ r]
    r demo_client_run(2)
  show ?thesis by simp
qed

theorem client_sends_all_witness:
  "\<exists>c. fold send_step [0, 0, 0, 0, 0] (send_begin 0 (Client_new 7 2 1 [(0, 5), (1, 6)] True 0)) = (SenderDone, c) \<and>
     cl_outs c = [SendTransaction \<lparr>t_trans = Transaction_fill 7 1 17, t_sign = Sign_default\<rparr> 6]"
  using client_sends_all [of "[(0, 5), (1, 6)]" 1 "[0, 0, 0, 0, 0]" 0 7 2 True 0] by simp

theorem client_sender_never_ends_witness:
  "fst (fold send_step [0, 0, 0] (send_begin 0 (Client_new 7 2 1 [] False 0))) \<noteq> SenderDone"
  by (rule client_sender_never_ends) simp

text \<open>Both replies arrive before the sender has found that there is nothing more to send.\<close>

theorem client_stops_witness:
  "\<exists>s c. client_run [CE_send 1, CE_send 2, CE_reply 4 4 \<lparr>reply = 1\<rparr> 5, CE_reply 5 5 \<lparr>reply = 1\<rparr> 5] demo_client = (s, c) \<and>
     StopClient \<in> set (cl_outs c)"
proof -
  let ?rs = "[CE_reply 4 4 \<lparr>reply = 1\<rparr> 5, CE_reply 5 5 \<lparr>reply = 1\<rparr> 5]"
  let ?es = "[CE_send 1, CE_send 2] @ ?rs"
  obtain s c where r: "client_run ?es demo_client = (s, c)" by fastforce
  have sent: "client_run [CE_send 1, CE_send 2] demo_client = (Sending 2 [], sent_one 2 1 5 (snd demo_client))"
    using demo_client_run(1,2) by simp
  have "\<exists>es1 es2 s c. ?es = es1 @ es2 \<and> client_run es1 demo_client = (s, c) \<and> map_find (cl_transactions c) tid \<noteq> None \<and>
      unat (2 :: u32) \<le> length (filter (\<lambda>e. \<exists>now now' m cn. e = CE_reply now now' m cn \<and> reply m = tid) es2)"
    if "1 \<le> unat tid \<and> unat tid \<le> unat (1 :: TID)" for tid :: TID
  proof -
    from that have "tid = 1" by (simp add: word_unat_eq_iff)
    moreover have "map_find (cl_transactions (sent_one 2 1 5 (snd demo_client))) 1 \<noteq> None" by simp
    moreover have "unat (2 :: u32) \<le> length (filter (\<lambda>e. \<exists>now now' m cn. e = CE_reply now now' m cn \<and> reply m = 1) ?rs)" by simp
    ultimately show ?thesis using sent by blast
  qed
  with client_stops [of 2 1 ?es 0 7 "[(0, 5)]" False 0, folded demo_client_def, OF _ _ _ r] r
  show ?thesis by auto
qed

end
