(* ===== verification/Wire.thy ===== *)
theory Wire
  imports HandlerState
begin

text \<open>
  The \<open>serialize\<close> and \<open>unserialize\<close> members of every class and the stream constructors of the
  messages of \<open>App/Message.h\<close>. The stream class \<open>salticidae::DataStream\<close> belongs to a
  library that is not part of the sources: its operations are the record \<open>stream_ops\<close>, a
  parameter of every definition, and \<open>data_stream\<close> states what the code relies on: values
  are read in the order in which they were written.

  An array member is written element by element; in a well-formed object (\<open>..._wf\<close>) it
  has its declared length. A justification whose tag is neither of the two types has no
  value in the model: reading it is the error its checked getters raise.
\<close>

section \<open>The stream\<close>

record 's stream_ops =
  new_stream :: 's
  w_u8 :: "u8 \<Rightarrow> 's \<Rightarrow> 's"
  w_bool :: "bool \<Rightarrow> 's \<Rightarrow> 's"
  w_u32 :: "u32 \<Rightarrow> 's \<Rightarrow> 's"
  w_i32 :: "u32 \<Rightarrow> 's \<Rightarrow> 's"
  w_u64 :: "64 word \<Rightarrow> 's \<Rightarrow> 's"
  r_u8 :: "'s \<Rightarrow> (u8 \<times> 's) res"
  r_bool :: "'s \<Rightarrow> (bool \<times> 's) res"
  r_u32 :: "'s \<Rightarrow> (u32 \<times> 's) res"
  r_i32 :: "'s \<Rightarrow> (u32 \<times> 's) res"
  r_u64 :: "'s \<Rightarrow> (64 word \<times> 's) res"

text \<open>What is in a stream: the written values in order.\<close>

datatype token = T8 u8 | TBool bool | T32 u32 | TInt u32 | T64 "64 word"

locale data_stream =
  fixes D :: "'s stream_ops" and reads :: "'s \<Rightarrow> token list \<Rightarrow> bool"
  assumes new: "reads (new_stream D) []"
    and u8: "reads s ts \<Longrightarrow> reads (w_u8 D a s) (ts @ [T8 a])"
      "reads s (T8 a # ts) \<Longrightarrow> \<exists>s'. r_u8 D s = Inr (a, s') \<and> reads s' ts"
    and bool: "reads s ts \<Longrightarrow> reads (w_bool D b s) (ts @ [TBool b])"
      "reads s (TBool b # ts) \<Longrightarrow> \<exists>s'. r_bool D s = Inr (b, s') \<and> reads s' ts"
    and u32: "reads s ts \<Longrightarrow> reads (w_u32 D c s) (ts @ [T32 c])"
      "reads s (T32 c # ts) \<Longrightarrow> \<exists>s'. r_u32 D s = Inr (c, s') \<and> reads s' ts"
    and i32: "reads s ts \<Longrightarrow> reads (w_i32 D c s) (ts @ [TInt c])"
      "reads s (TInt c # ts) \<Longrightarrow> \<exists>s'. r_i32 D s = Inr (c, s') \<and> reads s' ts"
    and u64: "reads s ts \<Longrightarrow> reads (w_u64 D d s) (ts @ [T64 d])"
      "reads s (T64 d # ts) \<Longrightarrow> \<exists>s'. r_u64 D s = Inr (d, s') \<and> reads s' ts"

section \<open>Arrays\<close>

definition write_all :: "('a \<Rightarrow> 's \<Rightarrow> 's) \<Rightarrow> 'a list \<Rightarrow> 's \<Rightarrow> 's" where
  "write_all w xs s = fold w xs s"

primrec read_n :: "('s \<Rightarrow> ('a \<times> 's) res) \<Rightarrow> nat \<Rightarrow> 's \<Rightarrow> ('a list \<times> 's) res" where
  "read_n r 0 s = Inr ([], s)"
| "read_n r (Suc n) s = bindE (r s) (\<lambda>(x, s). bindE (read_n r n s) (\<lambda>(xs, s). Inr (x # xs, s)))"

section \<open>The classes\<close>

definition hash_serialize :: "'s stream_ops \<Rightarrow> Hash \<Rightarrow> 's \<Rightarrow> 's" where
  "hash_serialize D h s = w_bool D (hset h) (write_all (w_u8 D) (hbytes h) s)"

definition hash_unserialize :: "'s stream_ops \<Rightarrow> 's \<Rightarrow> (Hash \<times> 's) res" where
  "hash_unserialize D s =
     bindE (read_n (r_u8 D) SHA256_DIGEST_LENGTH s) (\<lambda>(bs, s).
     bindE (r_bool D s) (\<lambda>(b, s). Inr (\<lparr>hbytes = bs, hset = b\<rparr>, s)))"

definition trans_serialize :: "'s stream_ops \<Rightarrow> Transaction \<Rightarrow> 's \<Rightarrow> 's" where
  "trans_serialize D t s = write_all (w_u8 D) (tdata t) (w_u32 D (transid t) (w_u32 D (clientid t) s))"

definition trans_unserialize :: "'s stream_ops \<Rightarrow> 's \<Rightarrow> (Transaction \<times> 's) res" where
  "trans_unserialize D s =
     bindE (r_u32 D s) (\<lambda>(c, s).
     bindE (r_u32 D s) (\<lambda>(t, s).
     bindE (read_n (r_u8 D) PAYLOAD_SIZE s) (\<lambda>(d, s). Inr (\<lparr>clientid = c, transid = t, tdata = d\<rparr>, s))))"

definition sign_serialize :: "'s stream_ops \<Rightarrow> Sign \<Rightarrow> 's \<Rightarrow> 's" where
  "sign_serialize D g s = write_all (w_u8 D) (sbytes g) (w_u32 D (signer g) (w_bool D (s_set g) s))"

definition sign_unserialize :: "'s stream_ops \<Rightarrow> 's \<Rightarrow> (Sign \<times> 's) res" where
  "sign_unserialize D s =
     bindE (r_bool D s) (\<lambda>(b, s).
     bindE (r_u32 D s) (\<lambda>(p, s).
     bindE (read_n (r_u8 D) SIGN_LEN s) (\<lambda>(bs, s). Inr (\<lparr>s_set = b, signer = p, sbytes = bs\<rparr>, s))))"

definition signs_serialize :: "'s stream_ops \<Rightarrow> Signs \<Rightarrow> 's \<Rightarrow> 's" where
  "signs_serialize D g s = write_all (sign_serialize D) (sg_arr g) (w_u32 D (sg_size g) s)"

definition signs_unserialize :: "'s stream_ops \<Rightarrow> 's \<Rightarrow> (Signs \<times> 's) res" where
  "signs_unserialize D s =
     bindE (r_u32 D s) (\<lambda>(n, s).
     bindE (read_n (sign_unserialize D) MAX_NUM_SIGNATURES s) (\<lambda>(gs, s). Inr (\<lparr>sg_size = n, sg_arr = gs\<rparr>, s)))"

definition rdata_serialize :: "'s stream_ops \<Rightarrow> RData \<Rightarrow> 's \<Rightarrow> 's" where
  "rdata_serialize D r s =
     w_u8 D (phase r) (w_u32 D (justv r) (hash_serialize D (justh r)
       (w_u32 D (propv r) (hash_serialize D (proph r) s))))"

definition rdata_unserialize :: "'s stream_ops \<Rightarrow> 's \<Rightarrow> (RData \<times> 's) res" where
  "rdata_unserialize D s =
     bindE (hash_unserialize D s) (\<lambda>(ph, s).
     bindE (r_u32 D s) (\<lambda>(pv, s).
     bindE (hash_unserialize D s) (\<lambda>(jh, s).
     bindE (r_u32 D s) (\<lambda>(jv, s).
     bindE (r_u8 D s) (\<lambda>(p, s). Inr (RData_new ph pv jh jv p, s))))))"

definition rdataPara_serialize :: "'s stream_ops \<Rightarrow> RDataPara \<Rightarrow> 's \<Rightarrow> 's" where
  "rdataPara_serialize D r s =
     w_u32 D (seqNumber r) (w_u8 D (phase r) (w_u32 D (justv r) (hash_serialize D (justh r)
       (w_u32 D (propv r) (hash_serialize D (proph r) s)))))"

definition rdataPara_unserialize :: "'s stream_ops \<Rightarrow> 's \<Rightarrow> (RDataPara \<times> 's) res" where
  "rdataPara_unserialize D s =
     bindE (hash_unserialize D s) (\<lambda>(ph, s).
     bindE (r_u32 D s) (\<lambda>(pv, s).
     bindE (hash_unserialize D s) (\<lambda>(jh, s).
     bindE (r_u32 D s) (\<lambda>(jv, s).
     bindE (r_u8 D s) (\<lambda>(p, s).
     bindE (r_u32 D s) (\<lambda>(n, s). Inr (RDataPara_new ph pv jh jv p n, s)))))))"

definition block_serialize :: "'s stream_ops \<Rightarrow> Block \<Rightarrow> 's \<Rightarrow> 's" where
  "block_serialize D b s =
     write_all (trans_serialize D) (b_transactions b)
       (w_u32 D (b_size b) (hash_serialize D (b_prevHash b) (w_bool D (b_set b) s)))"

definition block_unserialize :: "'s stream_ops \<Rightarrow> 's \<Rightarrow> (Block \<times> 's) res" where
  "block_unserialize D s =
     bindE (r_bool D s) (\<lambda>(b, s).
     bindE (hash_unserialize D s) (\<lambda>(h, s).
     bindE (r_u32 D s) (\<lambda>(n, s).
     bindE (read_n (trans_unserialize D) MAX_NUM_TRANSACTIONS s) (\<lambda>(ts, s).
       Inr (\<lparr>b_set = b, b_prevHash = h, b_size = n, b_transactions = ts\<rparr>, s)))))"

definition pblock_serialize :: "'s stream_ops \<Rightarrow> PBlock \<Rightarrow> 's \<Rightarrow> 's" where
  "pblock_serialize D b s =
     write_all (trans_serialize D) (p_transactions b)
       (w_u32 D (p_seqNumber b) (w_u32 D (p_size b) (hash_serialize D (p_prevHash b) (w_bool D (p_set b) s))))"

definition pblock_unserialize :: "'s stream_ops \<Rightarrow> 's \<Rightarrow> (PBlock \<times> 's) res" where
  "pblock_unserialize D s =
     bindE (r_bool D s) (\<lambda>(b, s).
     bindE (hash_unserialize D s) (\<lambda>(h, s).
     bindE (r_u32 D s) (\<lambda>(n, s).
     bindE (r_u32 D s) (\<lambda>(sq, s).
     bindE (read_n (trans_unserialize D) MAX_NUM_TRANSACTIONS s) (\<lambda>(ts, s).
       Inr (\<lparr>p_set = b, p_prevHash = h, p_size = n, p_transactions = ts, p_seqNumber = sq\<rparr>, s))))))"

definition just_serialize :: "'s stream_ops \<Rightarrow> Just \<Rightarrow> 's \<Rightarrow> 's" where
  "just_serialize D j s =
     (let s = w_bool D (j_set j) s;
          s = w_i32 D (case getRDataType j of Type_RData \<Rightarrow> 0 | Type_RDataPara \<Rightarrow> 1) s;
          s = (case j_data j of URData r \<Rightarrow> rdata_serialize D r s | URDataPara r \<Rightarrow> rdataPara_serialize D r s)
      in signs_serialize D (j_signs j) s)"

text \<open>The tag decides which alternative of the union follows.\<close>

definition union_unserialize :: "'s stream_ops \<Rightarrow> u32 \<Rightarrow> 's \<Rightarrow> (RoundUnion \<times> 's) res" where
  "union_unserialize D typeInt s =
     (if typeInt = 0 then bindE (rdata_unserialize D s) (\<lambda>(r, s). Inr (URData r, s))
      else if typeInt = 1 then bindE (rdataPara_unserialize D s) (\<lambda>(r, s). Inr (URDataPara r, s))
      else Inl RuntimeError)"

definition just_unserialize :: "'s stream_ops \<Rightarrow> 's \<Rightarrow> (Just \<times> 's) res" where
  "just_unserialize D s =
     bindE (r_bool D s) (\<lambda>(b, s).
     bindE (r_i32 D s) (\<lambda>(typeInt, s).
     bindE (union_unserialize D typeInt s) (\<lambda>(d, s).
     bindE (signs_unserialize D s) (\<lambda>(g, s). Inr (\<lparr>j_set = b, j_signs = g, j_data = d\<rparr>, s)))))"

definition jblock_serialize :: "'s stream_ops \<Rightarrow> JBlock \<Rightarrow> 's \<Rightarrow> 's" where
  "jblock_serialize D b s =
     write_all (trans_serialize D) (jb_transactions b)
       (w_u32 D (jb_size b) (just_serialize D (jb_just b) (w_u32 D (jb_view b)
         (w_bool D (jb_executed b) (w_bool D (jb_set b) s)))))"

definition jblock_unserialize :: "'s stream_ops \<Rightarrow> 's \<Rightarrow> (JBlock \<times> 's) res" where
  "jblock_unserialize D s =
     bindE (r_bool D s) (\<lambda>(b, s).
     bindE (r_bool D s) (\<lambda>(e, s).
     bindE (r_u32 D s) (\<lambda>(v, s).
     bindE (just_unserialize D s) (\<lambda>(j, s).
     bindE (r_u32 D s) (\<lambda>(n, s).
     bindE (read_n (trans_unserialize D) MAX_NUM_TRANSACTIONS s) (\<lambda>(ts, s).
       Inr (\<lparr>jb_set = b, jb_executed = e, jb_view = v, jb_just = j, jb_size = n, jb_transactions = ts\<rparr>, s)))))))"

definition proposal_serialize :: "'s stream_ops \<Rightarrow> Proposal \<Rightarrow> 's \<Rightarrow> 's" where
  "proposal_serialize D p s = block_serialize D (pr_block p) (just_serialize D (pr_just p) s)"

definition proposal_unserialize :: "'s stream_ops \<Rightarrow> 's \<Rightarrow> (Proposal \<times> 's) res" where
  "proposal_unserialize D s =
     bindE (just_unserialize D s) (\<lambda>(j, s). bindE (block_unserialize D s) (\<lambda>(b, s). Inr (Proposal_new j b, s)))"

definition paraProposal_serialize :: "'s stream_ops \<Rightarrow> ParaProposal \<Rightarrow> 's \<Rightarrow> 's" where
  "paraProposal_serialize D p s = pblock_serialize D (pr_block p) (just_serialize D (pr_just p) s)"

definition paraProposal_unserialize :: "'s stream_ops \<Rightarrow> 's \<Rightarrow> (ParaProposal \<times> 's) res" where
  "paraProposal_unserialize D s =
     bindE (just_unserialize D s) (\<lambda>(j, s). bindE (pblock_unserialize D s) (\<lambda>(b, s). Inr (Proposal_new j b, s)))"

section \<open>The messages\<close>

text \<open>Round data with signatures, with the functions of the round data as parameters.\<close>

definition msg_serialize :: "('d \<Rightarrow> 's \<Rightarrow> 's) \<Rightarrow> 's stream_ops \<Rightarrow> 'd msg \<Rightarrow> 's \<Rightarrow> 's" where
  "msg_serialize ser D m s = signs_serialize D (m_signs m) (ser (m_rdata m) s)"

definition msg_unserialize :: "('s \<Rightarrow> ('d \<times> 's) res) \<Rightarrow> 's stream_ops \<Rightarrow> 's \<Rightarrow> ('d msg \<times> 's) res" where
  "msg_unserialize uns D s =
     bindE (uns s) (\<lambda>(r, s). bindE (signs_unserialize D s) (\<lambda>(g, s). Inr (Msg_new r g, s)))"

definition ldrmsg_serialize :: "('p \<Rightarrow> 's \<Rightarrow> 's) \<Rightarrow> 's stream_ops \<Rightarrow> 'p ldr_msg \<Rightarrow> 's \<Rightarrow> 's" where
  "ldrmsg_serialize ser D m s = signs_serialize D (l_signs m) (ser (l_prop m) s)"

definition ldrmsg_unserialize :: "('s \<Rightarrow> ('p \<times> 's) res) \<Rightarrow> 's stream_ops \<Rightarrow> 's \<Rightarrow> ('p ldr_msg \<times> 's) res" where
  "ldrmsg_unserialize uns D s =
     bindE (uns s) (\<lambda>(p, s). bindE (signs_unserialize D s) (\<lambda>(g, s). Inr (LdrMsg_new p g, s)))"

definition msgCh_serialize :: "'s stream_ops \<Rightarrow> MsgCh \<Rightarrow> 's \<Rightarrow> 's" where
  "msgCh_serialize D m s = sign_serialize D (c_sign m) (rdata_serialize D (c_data m) s)"

definition msgCh_unserialize :: "'s stream_ops \<Rightarrow> 's \<Rightarrow> (MsgCh \<times> 's) res" where
  "msgCh_unserialize D s =
     bindE (rdata_unserialize D s) (\<lambda>(r, s). bindE (sign_unserialize D s) (\<lambda>(g, s). Inr (\<lparr>c_data = r, c_sign = g\<rparr>, s)))"

definition ldrCh_serialize :: "'s stream_ops \<Rightarrow> MsgLdrPrepareCh \<Rightarrow> 's \<Rightarrow> 's" where
  "ldrCh_serialize D m s = sign_serialize D (lc_sign m) (jblock_serialize D (lc_block m) s)"

definition ldrCh_unserialize :: "'s stream_ops \<Rightarrow> 's \<Rightarrow> (MsgLdrPrepareCh \<times> 's) res" where
  "ldrCh_unserialize D s =
     bindE (jblock_unserialize D s) (\<lambda>(b, s). bindE (sign_unserialize D s) (\<lambda>(g, s). Inr (\<lparr>lc_block = b, lc_sign = g\<rparr>, s)))"

text \<open>The messages with a vector: its size, then the elements.\<close>

definition recover_serialize :: "'s stream_ops \<Rightarrow> MsgRecoverPara \<Rightarrow> 's \<Rightarrow> 's" where
  "recover_serialize D m s =
     write_all (pblock_serialize D) (rc_blocks m)
       (w_u32 D (word_of_nat (length (rc_blocks m))) (signs_serialize D (rc_signs m) (rdataPara_serialize D (rc_rdata m) s)))"

definition recover_deserialize :: "'s stream_ops \<Rightarrow> 's \<Rightarrow> (MsgRecoverPara \<times> 's) res" where
  "recover_deserialize D s =
     bindE (rdataPara_unserialize D s) (\<lambda>(r, s).
     bindE (signs_unserialize D s) (\<lambda>(g, s).
     bindE (r_u32 D s) (\<lambda>(n, s).
     bindE (read_n (pblock_unserialize D) (unat n) s) (\<lambda>(bs, s).
       Inr (\<lparr>rc_rdata = r, rc_signs = g, rc_blocks = bs\<rparr>, s)))))"

definition ldrRecover_serialize :: "'s stream_ops \<Rightarrow> MsgLdrRecoverPara \<Rightarrow> 's \<Rightarrow> 's" where
  "ldrRecover_serialize D m s =
     write_all (w_u32 D) (lr_missing m)
       (w_u32 D (word_of_nat (length (lr_missing m))) (signs_serialize D (lr_signs m) (rdataPara_serialize D (lr_rdata m) s)))"

definition ldrRecover_deserialize :: "'s stream_ops \<Rightarrow> 's \<Rightarrow> (MsgLdrRecoverPara \<times> 's) res" where
  "ldrRecover_deserialize D s =
     bindE (rdataPara_unserialize D s) (\<lambda>(r, s).
     bindE (signs_unserialize D s) (\<lambda>(g, s).
     bindE (r_u32 D s) (\<lambda>(n, s).
     bindE (read_n (r_u32 D) (unat n) s) (\<lambda>(ms, s).
       Inr (\<lparr>lr_rdata = r, lr_signs = g, lr_missing = ms\<rparr>, s)))))"

definition verify_serialize :: "'s stream_ops \<Rightarrow> MsgVerifyPara \<Rightarrow> 's \<Rightarrow> 's" where
  "verify_serialize D m s =
     write_all (hash_serialize D) (vf_hashes m)
       (w_u64 D (word_of_nat (length (vf_hashes m))) (signs_serialize D (vf_signs m) (rdataPara_serialize D (vf_rdata m) s)))"

definition verify_unserialize :: "'s stream_ops \<Rightarrow> 's \<Rightarrow> (MsgVerifyPara \<times> 's) res" where
  "verify_unserialize D s =
     bindE (rdataPara_unserialize D s) (\<lambda>(r, s).
     bindE (signs_unserialize D s) (\<lambda>(g, s).
     bindE (r_u64 D s) (\<lambda>(n, s).
     bindE (read_n (hash_unserialize D) (unat n) s) (\<lambda>(hs, s).
       Inr (\<lparr>vf_rdata = r, vf_signs = g, vf_hashes = hs\<rparr>, s)))))"

text \<open>The client's messages.\<close>

definition transaction_serialize :: "'s stream_ops \<Rightarrow> MsgTransaction \<Rightarrow> 's \<Rightarrow> 's" where
  "transaction_serialize D m s = sign_serialize D (t_sign m) (trans_serialize D (t_trans m) s)"

definition transaction_unserialize :: "'s stream_ops \<Rightarrow> 's \<Rightarrow> (MsgTransaction \<times> 's) res" where
  "transaction_unserialize D s =
     bindE (trans_unserialize D s) (\<lambda>(t, s). bindE (sign_unserialize D s) (\<lambda>(g, s). Inr (\<lparr>t_trans = t, t_sign = g\<rparr>, s)))"

definition start_serialize :: "'s stream_ops \<Rightarrow> MsgStart \<Rightarrow> 's \<Rightarrow> 's" where
  "start_serialize D m s = sign_serialize D (st_sign m) (w_u32 D (st_cid m) s)"

definition start_unserialize :: "'s stream_ops \<Rightarrow> 's \<Rightarrow> (MsgStart \<times> 's) res" where
  "start_unserialize D s =
     bindE (r_u32 D s) (\<lambda>(c, s). bindE (sign_unserialize D s) (\<lambda>(g, s). Inr (\<lparr>st_cid = c, st_sign = g\<rparr>, s)))"

definition reply_serialize :: "'s stream_ops \<Rightarrow> MsgReply \<Rightarrow> 's \<Rightarrow> 's" where
  "reply_serialize D m s = w_u32 D (reply m) s"

definition reply_unserialize :: "'s stream_ops \<Rightarrow> 's \<Rightarrow> (MsgReply \<times> 's) res" where
  "reply_unserialize D s = bindE (r_u32 D s) (\<lambda>(t, s). Inr (\<lparr>reply = t\<rparr>, s))"

section \<open>A message on the wire\<close>

text \<open>
  The opcodes of \<open>App/types.h\<close>: a message is sent with the opcode of its struct, and the
  receiver constructs the struct whose handler is registered for the opcode.
\<close>

fun net_opcode :: "NetMsg \<Rightarrow> u8" where
  "net_opcode (Net_NewView m) = 0x00"
| "net_opcode (Net_Prepare m) = 0x01"
| "net_opcode (Net_LdrPrepare m) = 0x02"
| "net_opcode (Net_PreCommit m) = 0x03"
| "net_opcode (Net_Commit m) = 0x04"
| "net_opcode (Net_NewViewPara m) = 0x05"
| "net_opcode (Net_RecoverPara m) = 0x06"
| "net_opcode (Net_VerifyPara m) = 0x07"
| "net_opcode (Net_PreparePara m) = 0x08"
| "net_opcode (Net_LdrPreparePara m) = 0x09"
| "net_opcode (Net_PreCommitPara m) = 0x10"
| "net_opcode (Net_CommitPara m) = 0x11"
| "net_opcode (Net_LdrRecoverPara m) = 0x12"
| "net_opcode (Net_NewViewCh m) = 0x21"
| "net_opcode (Net_LdrPrepareCh m) = 0x22"
| "net_opcode (Net_PrepareCh m) = 0x23"

fun net_serialize :: "'s stream_ops \<Rightarrow> NetMsg \<Rightarrow> 's \<Rightarrow> 's" where
  "net_serialize D (Net_NewView m) = msg_serialize (rdata_serialize D) D m"
| "net_serialize D (Net_Prepare m) = msg_serialize (rdata_serialize D) D m"
| "net_serialize D (Net_LdrPrepare m) = ldrmsg_serialize (proposal_serialize D) D m"
| "net_serialize D (Net_PreCommit m) = msg_serialize (rdata_serialize D) D m"
| "net_serialize D (Net_Commit m) = msg_serialize (rdata_serialize D) D m"
| "net_serialize D (Net_NewViewPara m) = msg_serialize (rdataPara_serialize D) D m"
| "net_serialize D (Net_RecoverPara m) = recover_serialize D m"
| "net_serialize D (Net_VerifyPara m) = verify_serialize D m"
| "net_serialize D (Net_PreparePara m) = msg_serialize (rdataPara_serialize D) D m"
| "net_serialize D (Net_LdrPreparePara m) = ldrmsg_serialize (paraProposal_serialize D) D m"
| "net_serialize D (Net_PreCommitPara m) = msg_serialize (rdataPara_serialize D) D m"
| "net_serialize D (Net_CommitPara m) = msg_serialize (rdataPara_serialize D) D m"
| "net_serialize D (Net_LdrRecoverPara m) = ldrRecover_serialize D m"
| "net_serialize D (Net_NewViewCh m) = msgCh_serialize D m"
| "net_serialize D (Net_LdrPrepareCh m) = ldrCh_serialize D m"
| "net_serialize D (Net_PrepareCh m) = msgCh_serialize D m"

definition receive :: "('a \<Rightarrow> NetMsg) \<Rightarrow> ('s \<Rightarrow> ('a \<times> 's) res) \<Rightarrow> 's \<Rightarrow> (NetMsg \<times> 's) res" where
  "receive f uns s = bindE (uns s) (\<lambda>(m, s). Inr (f m, s))"

definition net_unserialize :: "'s stream_ops \<Rightarrow> u8 \<Rightarrow> 's \<Rightarrow> (NetMsg \<times> 's) res" where
  "net_unserialize D opcode =
     (if opcode = 0x00 then receive Net_NewView (msg_unserialize (rdata_unserialize D) D)
      else if opcode = 0x01 then receive Net_Prepare (msg_unserialize (rdata_unserialize D) D)
      else if opcode = 0x02 then receive Net_LdrPrepare (ldrmsg_unserialize (proposal_unserialize D) D)
      else if opcode = 0x03 then receive Net_PreCommit (msg_unserialize (rdata_unserialize D) D)
      else if opcode = 0x04 then receive Net_Commit (msg_unserialize (rdata_unserialize D) D)
      else if opcode = 0x05 then receive Net_NewViewPara (msg_unserialize (rdataPara_unserialize D) D)
      else if opcode = 0x06 then receive Net_RecoverPara (recover_deserialize D)
      else if opcode = 0x07 then receive Net_VerifyPara (verify_unserialize D)
      else if opcode = 0x08 then receive Net_PreparePara (msg_unserialize (rdataPara_unserialize D) D)
      else if opcode = 0x09 then receive Net_LdrPreparePara (ldrmsg_unserialize (paraProposal_unserialize D) D)
      else if opcode = 0x10 then receive Net_PreCommitPara (msg_unserialize (rdataPara_unserialize D) D)
      else if opcode = 0x11 then receive Net_CommitPara (msg_unserialize (rdataPara_unserialize D) D)
      else if opcode = 0x12 then receive Net_LdrRecoverPara (ldrRecover_deserialize D)
      else if opcode = 0x21 then receive Net_NewViewCh (msgCh_unserialize D)
      else if opcode = 0x22 then receive Net_LdrPrepareCh (ldrCh_unserialize D)
      else if opcode = 0x23 then receive Net_PrepareCh (msgCh_unserialize D)
      else (\<lambda>s. Inl RuntimeError))"

end
