(* ===== verification/WireProps.thy ===== *)
theory WireProps
  imports Wire
begin

text \<open>
  Round trips: whatever one node writes, another reads back, for every class and every
  message. \<open>carries\<close> relates a writing function, a reading function and the value; its two
  composition rules follow the shape of the code, so each class is a few rule applications.
\<close>

definition carries :: "('s \<Rightarrow> token list \<Rightarrow> bool) \<Rightarrow> ('s \<Rightarrow> 's) \<Rightarrow> ('s \<Rightarrow> ('a \<times> 's) res) \<Rightarrow> 'a \<Rightarrow> bool" where
  "carries reads w r x \<longleftrightarrow>
     (\<exists>toks. (\<forall>s ts. reads s ts \<longrightarrow> reads (w s) (ts @ toks)) \<and>
       (\<forall>s ts. reads s (toks @ ts) \<longrightarrow> (\<exists>s'. r s = Inr (x, s') \<and> reads s' ts)))"

lemma carries_use: "carries reads w r x \<Longrightarrow> reads s [] \<Longrightarrow> \<exists>s'. r (w s) = Inr (x, s')"
  unfolding carries_def by (metis append_Nil append_Nil2)

text \<open>A sequence of writes, against the reads in the same order.\<close>

definition carries_seq :: "('s \<Rightarrow> token list \<Rightarrow> bool) \<Rightarrow> ('s \<Rightarrow> 's) list \<Rightarrow> ('s \<Rightarrow> ('a \<times> 's) res) \<Rightarrow> 'a \<Rightarrow> bool" where
  "carries_seq reads ws r x \<longleftrightarrow> carries reads (fold (\<lambda>w. w) ws) r x"

lemma carries_done: "x = y \<Longrightarrow> carries_seq reads [] (\<lambda>s. Inr (x, s)) y"
  unfolding carries_seq_def carries_def by (intro exI [of _ "[]"]) simp

lemma carries_next:
  assumes "carries reads w r x" and "carries_seq reads ws (k x) y"
  shows "carries_seq reads (w # ws) (\<lambda>s. bindE (r s) (\<lambda>(x, s). k x s)) y"
proof -
  from assms obtain a b where
    a: "\<And>s ts. reads s ts \<Longrightarrow> reads (w s) (ts @ a)" "\<And>s ts. reads s (a @ ts) \<Longrightarrow> \<exists>s'. r s = Inr (x, s') \<and> reads s' ts" and
    b: "\<And>s ts. reads s ts \<Longrightarrow> reads (fold (\<lambda>w. w) ws s) (ts @ b)"
      "\<And>s ts. reads s (b @ ts) \<Longrightarrow> \<exists>s'. k x s = Inr (y, s') \<and> reads s' ts"
    unfolding carries_seq_def carries_def by blast
  have "reads (fold (\<lambda>w. w) (w # ws) s) (ts @ a @ b)" if "reads s ts" for s ts
    using b(1) [OF a(1) [OF that]] by simp
  moreover have "\<exists>s'. bindE (r s) (\<lambda>(x, s). k x s) = Inr (y, s') \<and> reads s' ts" if in_s: "reads s ((a @ b) @ ts)" for s ts
  proof -
    obtain s1 where s1: "r s = Inr (x, s1)" "reads s1 (b @ ts)" using a(2) [of s "b @ ts"] in_s unfolding append_assoc by blast
    from b(2) [OF s1(2)] s1(1) show ?thesis by auto
  qed
  ultimately show ?thesis unfolding carries_seq_def carries_def by (intro exI [of _ "a @ b"]) simp
qed

lemma carriesI:
  "carries_seq reads ws r x \<Longrightarrow> (\<And>s. w s = fold (\<lambda>w. w) ws s) \<Longrightarrow> carries reads w r x"
  by (simp add: carries_seq_def carries_def)

lemma carries_array:
  "(\<And>x. x \<in> set xs \<Longrightarrow> carries reads (w x) r x) \<Longrightarrow> n = length xs \<Longrightarrow> carries reads (write_all w xs) (read_n r n) xs"
proof (induction xs arbitrary: n)
  case Nil
  then show ?case unfolding carries_def by (intro exI [of _ "[]"]) (simp add: write_all_def)
next
  case (Cons x xs)
  have "carries_seq reads [w x, write_all w xs]
      (\<lambda>s. bindE (r s) (\<lambda>(y, s). bindE (read_n r (length xs) s) (\<lambda>(ys, s). Inr (y # ys, s)))) (x # xs)"
    by (rule carries_next, rule Cons.prems(1), simp, rule carries_next, rule Cons.IH)
      (use Cons.prems in \<open>auto intro: carries_done\<close>)
  then have "carries reads (write_all w (x # xs))
      (\<lambda>s. bindE (r s) (\<lambda>(y, s). bindE (read_n r (length xs) s) (\<lambda>(ys, s). Inr (y # ys, s)))) (x # xs)"
    by (rule carriesI) (simp add: write_all_def)
  moreover have "read_n r n = (\<lambda>s. bindE (r s) (\<lambda>(y, s). bindE (read_n r (length xs) s) (\<lambda>(ys, s). Inr (y # ys, s))))"
    using Cons.prems(2) by (intro ext) simp
  ultimately show ?case by (simp only:)
qed

section \<open>Well-formed objects\<close>

definition trans_wf :: "Transaction \<Rightarrow> bool" where
  "trans_wf t \<longleftrightarrow> length (tdata t) = PAYLOAD_SIZE"

definition sign_wf :: "Sign \<Rightarrow> bool" where
  "sign_wf g \<longleftrightarrow> length (sbytes g) = SIGN_LEN"

definition signs_wf :: "Signs \<Rightarrow> bool" where
  "signs_wf g \<longleftrightarrow> length (sg_arr g) = MAX_NUM_SIGNATURES \<and> (\<forall>x\<in>set (sg_arr g). sign_wf x)"

definition rdata_wf :: "'a RData_scheme \<Rightarrow> bool" where
  "rdata_wf r \<longleftrightarrow> hash_ok (proph r) \<and> hash_ok (justh r)"

definition trans_array_wf :: "Transaction list \<Rightarrow> bool" where
  "trans_array_wf ts \<longleftrightarrow> length ts = MAX_NUM_TRANSACTIONS \<and> (\<forall>t\<in>set ts. trans_wf t)"

definition block_wf :: "Block \<Rightarrow> bool" where
  "block_wf b \<longleftrightarrow> hash_ok (b_prevHash b) \<and> trans_array_wf (b_transactions b)"

definition pblock_wf :: "PBlock \<Rightarrow> bool" where
  "pblock_wf b \<longleftrightarrow> hash_ok (p_prevHash b) \<and> trans_array_wf (p_transactions b)"

definition just_wf :: "Just \<Rightarrow> bool" where
  "just_wf j \<longleftrightarrow> signs_wf (j_signs j) \<and> (case j_data j of URData r \<Rightarrow> rdata_wf r | URDataPara r \<Rightarrow> rdata_wf r)"

definition jblock_wf :: "JBlock \<Rightarrow> bool" where
  "jblock_wf b \<longleftrightarrow> just_wf (jb_just b) \<and> trans_array_wf (jb_transactions b)"

fun net_wf :: "NetMsg \<Rightarrow> bool" where
  "net_wf (Net_NewView m) = (rdata_wf (m_rdata m) \<and> signs_wf (m_signs m))"
| "net_wf (Net_Prepare m) = (rdata_wf (m_rdata m) \<and> signs_wf (m_signs m))"
| "net_wf (Net_LdrPrepare m) = (just_wf (pr_just (l_prop m)) \<and> block_wf (pr_block (l_prop m)) \<and> signs_wf (l_signs m))"
| "net_wf (Net_PreCommit m) = (rdata_wf (m_rdata m) \<and> signs_wf (m_signs m))"
| "net_wf (Net_Commit m) = (rdata_wf (m_rdata m) \<and> signs_wf (m_signs m))"
| "net_wf (Net_NewViewPara m) = (rdata_wf (m_rdata m) \<and> signs_wf (m_signs m))"
| "net_wf (Net_RecoverPara m) = (rdata_wf (rc_rdata m) \<and> signs_wf (rc_signs m) \<and> (\<forall>b\<in>set (rc_blocks m). pblock_wf b) \<and>
     length (rc_blocks m) < 2 ^ 32)"
| "net_wf (Net_VerifyPara m) = (rdata_wf (vf_rdata m) \<and> signs_wf (vf_signs m) \<and> (\<forall>h\<in>set (vf_hashes m). hash_ok h) \<and>
     length (vf_hashes m) < 2 ^ 64)"
| "net_wf (Net_PreparePara m) = (rdata_wf (m_rdata m) \<and> signs_wf (m_signs m))"
| "net_wf (Net_LdrPreparePara m) = (just_wf (pr_just (l_prop m)) \<and> pblock_wf (pr_block (l_prop m)) \<and> signs_wf (l_signs m))"
| "net_wf (Net_PreCommitPara m) = (rdata_wf (m_rdata m) \<and> signs_wf (m_signs m))"
| "net_wf (Net_CommitPara m) = (rdata_wf (m_rdata m) \<and> signs_wf (m_signs m))"
| "net_wf (Net_LdrRecoverPara m) = (rdata_wf (lr_rdata m) \<and> signs_wf (lr_signs m) \<and> length (lr_missing m) < 2 ^ 32)"
| "net_wf (Net_NewViewCh m) = (rdata_wf (c_data m) \<and> sign_wf (c_sign m))"
| "net_wf (Net_LdrPrepareCh m) = (jblock_wf (lc_block m) \<and> sign_wf (lc_sign m))"
| "net_wf (Net_PrepareCh m) = (rdata_wf (c_data m) \<and> sign_wf (c_sign m))"

section \<open>Every class\<close>

context data_stream
begin

lemma carries_u8: "carries reads (w_u8 D a) (r_u8 D) a"
  unfolding carries_def using u8 by (intro exI [of _ "[T8 a]"]) simp

lemma carries_bool: "carries reads (w_bool D b) (r_bool D) b"
  unfolding carries_def using bool by (intro exI [of _ "[TBool b]"]) simp

lemma carries_u32: "carries reads (w_u32 D c) (r_u32 D) c"
  unfolding carries_def using u32 by (intro exI [of _ "[T32 c]"]) simp

lemma carries_i32: "carries reads (w_i32 D c) (r_i32 D) c"
  unfolding carries_def using i32 by (intro exI [of _ "[TInt c]"]) simp

lemma carries_u64: "carries reads (w_u64 D d) (r_u64 D) d"
  unfolding carries_def using u64 by (intro exI [of _ "[T64 d]"]) simp

lemmas carries_prim = carries_u8 carries_bool carries_u32 carries_i32 carries_u64

lemma carries_bytes: "n = length xs \<Longrightarrow> carries reads (write_all (w_u8 D) xs) (read_n (r_u8 D) n) xs"
  by (rule carries_array) (simp_all add: carries_u8)

lemma carries_hash: "hash_ok h \<Longrightarrow> carries reads (hash_serialize D h) (hash_unserialize D) h"
  by (rule carriesI [of _ "[write_all (w_u8 D) (hbytes h), w_bool D (hset h)]"])
    (auto simp: hash_serialize_def hash_unserialize_def [abs_def] hash_ok_def
      intro!: carries_next carries_done carries_bytes carries_prim)

lemma carries_trans: "trans_wf t \<Longrightarrow> carries reads (trans_serialize D t) (trans_unserialize D) t"
  by (rule carriesI [of _ "[w_u32 D (clientid t), w_u32 D (transid t), write_all (w_u8 D) (tdata t)]"])
    (auto simp: trans_serialize_def trans_unserialize_def [abs_def] trans_wf_def
      intro!: carries_next carries_done carries_bytes carries_prim)

lemma carries_sign: "sign_wf g \<Longrightarrow> carries reads (sign_serialize D g) (sign_unserialize D) g"
  by (rule carriesI [of _ "[w_bool D (s_set g), w_u32 D (signer g), write_all (w_u8 D) (sbytes g)]"])
    (auto simp: sign_serialize_def sign_unserialize_def [abs_def] sign_wf_def
      intro!: carries_next carries_done carries_bytes carries_prim)

lemma carries_signs: "signs_wf g \<Longrightarrow> carries reads (signs_serialize D g) (signs_unserialize D) g"
  by (rule carriesI [of _ "[w_u32 D (sg_size g), write_all (sign_serialize D) (sg_arr g)]"])
    (auto simp: signs_serialize_def signs_unserialize_def [abs_def] signs_wf_def
      intro!: carries_next carries_done carries_array carries_sign carries_prim)

lemma carries_rdata: "rdata_wf r \<Longrightarrow> carries reads (rdata_serialize D r) (rdata_unserialize D) r"
  by (rule carriesI [of _ "[hash_serialize D (proph r), w_u32 D (propv r), hash_serialize D (justh r), w_u32 D (justv r),
        w_u8 D (phase r)]"])
    (auto simp: rdata_serialize_def rdata_unserialize_def [abs_def] rdata_wf_def RData_new_def
      intro!: carries_next carries_done carries_hash carries_prim)

lemma carries_rdataPara: "rdata_wf r \<Longrightarrow> carries reads (rdataPara_serialize D r) (rdataPara_unserialize D) r"
  by (rule carriesI [of _ "[hash_serialize D (proph r), w_u32 D (propv r), hash_serialize D (justh r), w_u32 D (justv r),
        w_u8 D (phase r), w_u32 D (seqNumber r)]"])
    (auto simp: rdataPara_serialize_def rdataPara_unserialize_def [abs_def] rdata_wf_def RDataPara_new_def
      intro!: carries_next carries_done carries_hash carries_prim)

lemma carries_trans_array:
  "trans_array_wf ts \<Longrightarrow> carries reads (write_all (trans_serialize D) ts) (read_n (trans_unserialize D) MAX_NUM_TRANSACTIONS) ts"
  by (rule carries_array) (auto simp: trans_array_wf_def intro!: carries_trans)

lemma carries_block: "block_wf b \<Longrightarrow> carries reads (block_serialize D b) (block_unserialize D) b"
  by (rule carriesI [of _ "[w_bool D (b_set b), hash_serialize D (b_prevHash b), w_u32 D (b_size b),
        write_all (trans_serialize D) (b_transactions b)]"])
    (auto simp: block_serialize_def block_unserialize_def [abs_def] block_wf_def
      intro!: carries_next carries_done carries_hash carries_trans_array carries_prim)

lemma carries_pblock: "pblock_wf b \<Longrightarrow> carries reads (pblock_serialize D b) (pblock_unserialize D) b"
  by (rule carriesI [of _ "[w_bool D (p_set b), hash_serialize D (p_prevHash b), w_u32 D (p_size b), w_u32 D (p_seqNumber b),
        write_all (trans_serialize D) (p_transactions b)]"])
    (auto simp: pblock_serialize_def pblock_unserialize_def [abs_def] pblock_wf_def
      intro!: carries_next carries_done carries_hash carries_trans_array carries_prim)

lemma carries_union:
  "rdata_wf r \<Longrightarrow> carries reads (rdata_serialize D r) (union_unserialize D 0) (URData r)"
  "rdata_wf r' \<Longrightarrow> carries reads (rdataPara_serialize D r') (union_unserialize D 1) (URDataPara r')"
proof -
  show "rdata_wf r \<Longrightarrow> carries reads (rdata_serialize D r) (union_unserialize D 0) (URData r)"
    by (rule carriesI [of _ "[rdata_serialize D r]"])
      (auto simp: union_unserialize_def [abs_def] intro!: carries_next carries_done carries_rdata)
  show "rdata_wf r' \<Longrightarrow> carries reads (rdataPara_serialize D r') (union_unserialize D 1) (URDataPara r')"
    by (rule carriesI [of _ "[rdataPara_serialize D r']"])
      (auto simp: union_unserialize_def [abs_def] intro!: carries_next carries_done carries_rdataPara)
qed

lemma carries_just: "just_wf j \<Longrightarrow> carries reads (just_serialize D j) (just_unserialize D) j"
proof -
  assume wf: "just_wf j"
  show ?thesis
  proof (cases "j_data j")
    case (URData r)
    have w: "just_serialize D j s = fold (\<lambda>w. w) [w_bool D (j_set j), w_i32 D 0, rdata_serialize D r, signs_serialize D (j_signs j)] s" for s
      using URData by (simp add: just_serialize_def getRDataType_def)
    show ?thesis
      by (rule carriesI [OF _ w])
        (use wf URData in \<open>auto simp: just_unserialize_def [abs_def] just_wf_def intro!: carries_next carries_done carries_union carries_signs carries_prim\<close>)
  next
    case (URDataPara r)
    have w: "just_serialize D j s = fold (\<lambda>w. w) [w_bool D (j_set j), w_i32 D 1, rdataPara_serialize D r, signs_serialize D (j_signs j)] s" for s
      using URDataPara by (simp add: just_serialize_def getRDataType_def)
    show ?thesis
      by (rule carriesI [OF _ w])
        (use wf URDataPara in \<open>auto simp: just_unserialize_def [abs_def] just_wf_def intro!: carries_next carries_done carries_union carries_signs carries_prim\<close>)
  qed
qed

lemma carries_jblock: "jblock_wf b \<Longrightarrow> carries reads (jblock_serialize D b) (jblock_unserialize D) b"
  by (rule carriesI [of _ "[w_bool D (jb_set b), w_bool D (jb_executed b), w_u32 D (jb_view b), just_serialize D (jb_just b),
        w_u32 D (jb_size b), write_all (trans_serialize D) (jb_transactions b)]"])
    (auto simp: jblock_serialize_def jblock_unserialize_def [abs_def] jblock_wf_def
      intro!: carries_next carries_done carries_just carries_trans_array carries_prim)

text \<open>The messages.\<close>

lemma carries_msg:
  "carries reads (ser (m_rdata m)) uns (m_rdata m) \<Longrightarrow> signs_wf (m_signs m) \<Longrightarrow>
   carries reads (msg_serialize ser D m) (msg_unserialize uns D) m"
  by (rule carriesI [of _ "[ser (m_rdata m), signs_serialize D (m_signs m)]"])
    (auto simp: msg_serialize_def msg_unserialize_def [abs_def] Msg_new_def intro!: carries_next carries_done carries_signs)

lemma carries_ldrmsg:
  "carries reads (ser (l_prop m)) uns (l_prop m) \<Longrightarrow> signs_wf (l_signs m) \<Longrightarrow>
   carries reads (ldrmsg_serialize ser D m) (ldrmsg_unserialize uns D) m"
  by (rule carriesI [of _ "[ser (l_prop m), signs_serialize D (l_signs m)]"])
    (auto simp: ldrmsg_serialize_def ldrmsg_unserialize_def [abs_def] LdrMsg_new_def intro!: carries_next carries_done carries_signs)

lemma carries_proposal:
  "just_wf (pr_just p) \<Longrightarrow> block_wf (pr_block p) \<Longrightarrow> carries reads (proposal_serialize D p) (proposal_unserialize D) p"
  by (rule carriesI [of _ "[just_serialize D (pr_just p), block_serialize D (pr_block p)]"])
    (auto simp: proposal_serialize_def proposal_unserialize_def [abs_def] Proposal_new_def
      intro!: carries_next carries_done carries_just carries_block)

lemma carries_paraProposal:
  "just_wf (pr_just p') \<Longrightarrow> pblock_wf (pr_block p') \<Longrightarrow>
   carries reads (paraProposal_serialize D p') (paraProposal_unserialize D) p'"
  by (rule carriesI [of _ "[just_serialize D (pr_just p'), pblock_serialize D (pr_block p')]"])
    (auto simp: paraProposal_serialize_def paraProposal_unserialize_def [abs_def] Proposal_new_def
      intro!: carries_next carries_done carries_just carries_pblock)

lemma carries_msgCh:
  "rdata_wf (c_data m) \<Longrightarrow> sign_wf (c_sign m) \<Longrightarrow> carries reads (msgCh_serialize D m) (msgCh_unserialize D) m"
  by (rule carriesI [of _ "[rdata_serialize D (c_data m), sign_serialize D (c_sign m)]"])
    (auto simp: msgCh_serialize_def msgCh_unserialize_def [abs_def] intro!: carries_next carries_done carries_rdata carries_sign)

lemma carries_ldrCh:
  "jblock_wf (lc_block m) \<Longrightarrow> sign_wf (lc_sign m) \<Longrightarrow> carries reads (ldrCh_serialize D m) (ldrCh_unserialize D) m"
  by (rule carriesI [of _ "[jblock_serialize D (lc_block m), sign_serialize D (lc_sign m)]"])
    (auto simp: ldrCh_serialize_def ldrCh_unserialize_def [abs_def] intro!: carries_next carries_done carries_jblock carries_sign)

lemma carries_recover:
  assumes "rdata_wf (rc_rdata m)" and "signs_wf (rc_signs m)" and "\<forall>b\<in>set (rc_blocks m). pblock_wf b"
    and "length (rc_blocks m) < 2 ^ 32"
  shows "carries reads (recover_serialize D m) (recover_deserialize D) m"
  by (rule carriesI [of _ "[rdataPara_serialize D (rc_rdata m), signs_serialize D (rc_signs m),
        w_u32 D (word_of_nat (length (rc_blocks m))), write_all (pblock_serialize D) (rc_blocks m)]"])
    (use assms in \<open>auto simp: recover_serialize_def recover_deserialize_def [abs_def] unat_of_nat_u32
      intro!: carries_next carries_done carries_rdataPara carries_signs carries_array carries_pblock carries_prim\<close>)

lemma carries_ldrRecover:
  assumes "rdata_wf (lr_rdata m)" and "signs_wf (lr_signs m)" and "length (lr_missing m) < 2 ^ 32"
  shows "carries reads (ldrRecover_serialize D m) (ldrRecover_deserialize D) m"
  by (rule carriesI [of _ "[rdataPara_serialize D (lr_rdata m), signs_serialize D (lr_signs m),
        w_u32 D (word_of_nat (length (lr_missing m))), write_all (w_u32 D) (lr_missing m)]"])
    (use assms in \<open>auto simp: ldrRecover_serialize_def ldrRecover_deserialize_def [abs_def] unat_of_nat_u32
      intro!: carries_next carries_done carries_rdataPara carries_signs carries_array carries_prim\<close>)

lemma carries_verify:
  assumes "rdata_wf (vf_rdata m)" and "signs_wf (vf_signs m)" and "\<forall>h\<in>set (vf_hashes m). hash_ok h"
    and "length (vf_hashes m) < 2 ^ 64"
  shows "carries reads (verify_serialize D m) (verify_unserialize D) m"
  by (rule carriesI [of _ "[rdataPara_serialize D (vf_rdata m), signs_serialize D (vf_signs m),
        w_u64 D (word_of_nat (length (vf_hashes m))), write_all (hash_serialize D) (vf_hashes m)]"])
    (use assms in \<open>auto simp: verify_serialize_def verify_unserialize_def [abs_def] unat_of_nat take_bit_nat_eq_self_iff
      intro!: carries_next carries_done carries_rdataPara carries_signs carries_array carries_hash carries_prim\<close>)

lemma carries_transaction:
  "trans_wf (t_trans m) \<Longrightarrow> sign_wf (t_sign m) \<Longrightarrow> carries reads (transaction_serialize D m) (transaction_unserialize D) m"
  by (rule carriesI [of _ "[trans_serialize D (t_trans m), sign_serialize D (t_sign m)]"])
    (auto simp: transaction_serialize_def transaction_unserialize_def [abs_def]
      intro!: carries_next carries_done carries_trans carries_sign)

lemma carries_start: "sign_wf (st_sign m) \<Longrightarrow> carries reads (start_serialize D m) (start_unserialize D) m"
  by (rule carriesI [of _ "[w_u32 D (st_cid m), sign_serialize D (st_sign m)]"])
    (auto simp: start_serialize_def start_unserialize_def [abs_def] intro!: carries_next carries_done carries_sign carries_prim)

lemma carries_reply: "carries reads (reply_serialize D m) (reply_unserialize D) m"
  by (rule carriesI [of _ "[w_u32 D (reply m)]"])
    (auto simp: reply_serialize_def reply_unserialize_def [abs_def] intro!: carries_next carries_done carries_prim)

lemma carries_receive: "carries reads w r m \<Longrightarrow> carries reads w (receive f r) (f m)"
  by (rule carriesI [of _ "[w]"]) (auto simp: receive_def [abs_def] intro!: carries_next carries_done)

lemmas carries_messages = carries_msg carries_ldrmsg carries_proposal carries_paraProposal carries_msgCh carries_ldrCh
  carries_recover carries_ldrRecover carries_verify carries_rdata carries_rdataPara

lemma carries_net: "net_wf m \<Longrightarrow> carries reads (net_serialize D m) (net_unserialize D (net_opcode m)) m"
  by (cases m) (simp_all add: net_unserialize_def carries_receive carries_messages)

end

section \<open>A stream of bytes\<close>

text \<open>An instance of the contract: a buffer of bytes, numbers with the low byte first.\<close>

fun nat_bytes :: "nat \<Rightarrow> nat \<Rightarrow> bytes" where
  "nat_bytes 0 x = []"
| "nat_bytes (Suc n) x = word_of_nat (x mod 256) # nat_bytes n (x div 256)"

fun bytes_nat :: "bytes \<Rightarrow> nat" where
  "bytes_nat [] = 0"
| "bytes_nat (b # bs) = unat b + 256 * bytes_nat bs"

lemma length_nat_bytes [simp]: "length (nat_bytes n x) = n"
  by (induction n arbitrary: x) simp_all

lemma bytes_nat_bytes: "x < 256 ^ n \<Longrightarrow> bytes_nat (nat_bytes n x) = x"
proof (induction n arbitrary: x)
  case (Suc n)
  then have "x div 256 < 256 ^ n" by (simp add: less_mult_imp_div_less)
  with Suc.IH show ?case by (simp add: unat_of_nat take_bit_eq_mod)
qed simp

definition get_bytes :: "nat \<Rightarrow> bytes \<Rightarrow> (nat \<times> bytes) res" where
  "get_bytes n s = (if n \<le> length s then Inr (bytes_nat (take n s), drop n s) else Inl RuntimeError)"

definition get_word :: "nat \<Rightarrow> bytes \<Rightarrow> ('a::len word \<times> bytes) res" where
  "get_word n s = bindE (get_bytes n s) (\<lambda>(x, s). Inr (word_of_nat x, s))"

definition byte_stream :: "bytes stream_ops" where
  "byte_stream = \<lparr>new_stream = [], w_u8 = (\<lambda>a s. s @ nat_bytes 1 (unat a)),
     w_bool = (\<lambda>b s. s @ nat_bytes 1 (if b then 1 else 0)),
     w_u32 = (\<lambda>c s. s @ nat_bytes 4 (unat c)), w_i32 = (\<lambda>c s. s @ nat_bytes 4 (unat c)),
     w_u64 = (\<lambda>d s. s @ nat_bytes 8 (unat d)),
     r_u8 = get_word 1, r_bool = (\<lambda>s. bindE (get_bytes 1 s) (\<lambda>(x, s). Inr (x \<noteq> 0, s))),
     r_u32 = get_word 4, r_i32 = get_word 4, r_u64 = get_word 8\<rparr>"

fun token_bytes :: "token \<Rightarrow> bytes" where
  "token_bytes (T8 a) = nat_bytes 1 (unat a)"
| "token_bytes (TBool b) = nat_bytes 1 (if b then 1 else 0)"
| "token_bytes (T32 c) = nat_bytes 4 (unat c)"
| "token_bytes (TInt c) = nat_bytes 4 (unat c)"
| "token_bytes (T64 d) = nat_bytes 8 (unat d)"

definition byte_reads :: "bytes \<Rightarrow> token list \<Rightarrow> bool" where
  "byte_reads s ts \<longleftrightarrow> s = concat (map token_bytes ts)"

lemma get_bytes_append: "x < 256 ^ n \<Longrightarrow> get_bytes n (nat_bytes n x @ s) = Inr (x, s)"
  by (simp add: get_bytes_def bytes_nat_bytes)

lemma get_word_append:
  "2 ^ LENGTH('a) = (256 :: nat) ^ n \<Longrightarrow> get_word n (nat_bytes n (unat (w :: 'a::len word)) @ s) = Inr (w, s)"
  using unsigned_less [of w, where 'a = nat] by (simp add: get_word_def get_bytes_append)

interpretation byte_stream: data_stream byte_stream byte_reads
proof
  show "\<exists>s'. r_u8 byte_stream s = Inr (a, s') \<and> byte_reads s' ts" if "byte_reads s (T8 a # ts)" for s ts a
    using that get_word_append [of 1 a] by (simp add: byte_reads_def byte_stream_def)
  show "\<exists>s'. r_bool byte_stream s = Inr (b, s') \<and> byte_reads s' ts" if "byte_reads s (TBool b # ts)" for s ts b
    using that get_bytes_append [of "if b then 1 else 0" 1] by (simp add: byte_reads_def byte_stream_def split: if_splits)
  show "\<exists>s'. r_u32 byte_stream s = Inr (c, s') \<and> byte_reads s' ts" if "byte_reads s (T32 c # ts)" for s ts c
    using that get_word_append [of 4 c] by (simp add: byte_reads_def byte_stream_def)
  show "\<exists>s'. r_i32 byte_stream s = Inr (c, s') \<and> byte_reads s' ts" if "byte_reads s (TInt c # ts)" for s ts c
    using that get_word_append [of 4 c] by (simp add: byte_reads_def byte_stream_def)
  show "\<exists>s'. r_u64 byte_stream s = Inr (d, s') \<and> byte_reads s' ts" if "byte_reads s (T64 d # ts)" for s ts d
    using that get_word_append [of 8 d] by (simp add: byte_reads_def byte_stream_def)
qed (simp_all add: byte_reads_def byte_stream_def)

section \<open>Properties\<close>

text \<open>
  C17. Round trip of every message between replicas. Over a stream that returns values in
  the order in which they were written, the message that a receiver constructs for the opcode
  and the bytes of a sent message is the message, for all sixteen message types of the three
  protocols; its arrays have their declared lengths, and the number of elements of a vector
  fits the width that it is written with.
\<close>

theorem net_roundtrip:
  assumes "data_stream D reads" and "net_wf m"
  shows "\<exists>s. net_unserialize D (net_opcode m) (net_serialize D m (new_stream D)) = Inr (m, s)"
  by (rule carries_use [OF data_stream.carries_net [OF assms] data_stream.new [OF assms(1)]])

theorem net_roundtrip_witness:
  "\<exists>s. net_unserialize byte_stream (0x12 :: u8) (net_serialize byte_stream
      (Net_LdrRecoverPara \<lparr>lr_rdata = RDataPara_default, lr_signs = Signs_empty, lr_missing = [3, 7]\<rparr>) []) =
    Inr (Net_LdrRecoverPara \<lparr>lr_rdata = RDataPara_default, lr_signs = Signs_empty, lr_missing = [3, 7]\<rparr>, s)"
  using net_roundtrip [OF byte_stream.data_stream_axioms,
      of "Net_LdrRecoverPara \<lparr>lr_rdata = RDataPara_default, lr_signs = Signs_empty, lr_missing = [3, 7]\<rparr>"]
  by (simp add: rdata_wf_def RDataPara_default_def RDataPara_new_def signs_wf_def Signs_empty_def sign_wf_def Sign_default_def
      byte_stream_def)

end
