(* ===== verification/ChainedRuns.thy ===== *)
theory ChainedRuns
  imports ChainedProps Machines
begin

text \<open>
  Runs of a node of the chained protocol. The recursion through \<open>voteCh\<close> (vote, execute, move to
  the next view, handle what came early, vote again) ends, and so does the execution of a
  chain, as long as no message certifies a view from its own future. The invariant says that
  of the stored blocks and messages; a locale states it of the inner calls of \<open>voteCh\<close>, and the node
  is an event machine for the legal events.
\<close>

section \<open>Legal messages\<close>

text \<open>The last views are left out, so that no view number wraps.\<close>

definition ch_limit :: nat where "ch_limit = 2 ^ 32 - 4"

definition proposal_legal :: "MsgLdrPrepareCh \<Rightarrow> bool" where
  "proposal_legal m \<longleftrightarrow> getCView (jb_just (lc_block m)) < jb_view (lc_block m) \<and> unat (jb_view (lc_block m)) < ch_limit"

definition vote_legal :: "MsgPrepareCh \<Rightarrow> bool" where
  "vote_legal m \<longleftrightarrow> justv (c_data m) \<le> propv (c_data m)"

fun chained_legal :: "chained_event \<Rightarrow> bool" where
  "chained_legal (C_newview m) = vote_legal m"
| "chained_legal (C_ldrprepare m) = proposal_legal m"
| "chained_legal (C_prepare m) = vote_legal m"
| "chained_legal (C_transaction m) = True"
| "chained_legal C_timer = True"
| "chained_legal (C_signal s) = True"
| "chained_legal C_replies = True"

section \<open>The invariant\<close>

text \<open>A justification for a view that lies before its own view or before view \<open>w\<close>.\<close>

definition just_low :: "View \<Rightarrow> Just \<Rightarrow> bool" where
  "just_low w j \<longleftrightarrow> getCView j \<le> propv (union_rdata j) \<or> getCView j < w"

definition ch_log_ok :: "View \<Rightarrow> Log \<Rightarrow> bool" where
  "ch_log_ok w l \<longleftrightarrow>
     (\<forall>k. \<forall>m\<in>set (entries_of (map_find (newviewsCh l) k)). propv (c_data m) = k \<and> (justv (c_data m) \<le> k \<or> justv (c_data m) < w)) \<and>
     (\<forall>k. \<forall>m\<in>set (entries_of (map_find (ldrpreparesCh l) k)). jb_view (lc_block m) = k \<and> proposal_legal m)"


lemma getCView_cases: "getCView j = justv (union_rdata j) \<or> getCView j = propv (union_rdata j)"
  by (auto simp: getCView_def)

lemma just_low_votes: "justv (union_rdata j) \<le> propv (union_rdata j) \<or> justv (union_rdata j) < w \<Longrightarrow> just_low w j"
  using getCView_cases [of j] by (auto simp: just_low_def)













section \<open>Stores\<close>







section \<open>Execution and the calls of the trusted component\<close>








section \<open>The recursion\<close>



definition views_left :: "nat \<Rightarrow> Handler \<Rightarrow> bool" where
  "views_left n h \<longleftrightarrow> 2 ^ 32 \<le> unat (h_view h) + n"


section \<open>The knot\<close>



lemma views_left_enough [simp]: "views_left (2 ^ 32) h" "views_left (Suc (2 ^ 32)) h"
  "views_left 4294967296 h" "views_left 4294967297 h"
  by (simp_all add: views_left_def)

section \<open>The handlers\<close>





section \<open>The view change\<close>


section \<open>The node as a machine\<close>







text \<open>
  The states of a node whose first event is a \<open>MsgStart\<close>; later ones only register the client.
\<close>

inductive chained_reach :: "crypto \<Rightarrow> (conn \<Rightarrow> bool) \<Rightarrow> Handler \<Rightarrow> Handler \<Rightarrow> bool" for C send_ok h0 where
  started: "handle_start (getStartedCh C) msg c h0 = Inr h \<Longrightarrow> chained_reach C send_ok h0 h"
| client: "chained_reach C send_ok h0 h \<Longrightarrow> h_started h \<Longrightarrow> handle_start (getStartedCh C) msg c h = Inr h' \<Longrightarrow>
    chained_reach C send_ok h0 h'"
| event: "chained_reach C send_ok h0 h \<Longrightarrow> chained_legal ev \<Longrightarrow> chained_step C send_ok ev h = Inr h' \<Longrightarrow> chained_reach C send_ok h0 h'"

inductive_cases chained_reachE: "chained_reach C send_ok h0 h"

lemma new_log_ok [simp]: "ch_log_ok w Log_empty"
  by (simp add: ch_log_ok_def Log_empty_def)

lemma just_low_default [simp]: "just_low w Just_default"
  by (rule just_low_votes) (simp add: Just_default_def RData_default_def union_rdata_def)




section \<open>Properties\<close>



end
