(* ===== verification/ParallelFacts.thy ===== *)
theory ParallelFacts
  imports ParallelProps ChainedRuns
begin

text \<open>
  Facts for the runs of a node of the parallel protocol. Every event is dealt with, and the view only
  grows, as long as no message names the last view or the last sequence number (those messages
  stop a node, see \<open>one_message_stops_replica\<close> and \<open>getMissing_correct\<close>). The recursion goes
  through the view change: executing the last block of a view starts the next view, which handles
  early messages, which may execute its last block.
\<close>

section \<open>Legal messages\<close>

definition rp_legal :: "RDataPara \<Rightarrow> bool" where
  "rp_legal r \<longleftrightarrow> propv r \<noteq> - 1 \<and> seqNumber r \<noteq> - 1"

fun para_legal :: "para_event \<Rightarrow> bool" where
  "para_legal (P_newview m) = rp_legal (m_rdata m)"
| "para_legal (P_recover m) = rp_legal (rc_rdata m)"
| "para_legal (P_verify m) = rp_legal (vf_rdata m)"
| "para_legal (P_prepare m) = rp_legal (m_rdata m)"
| "para_legal (P_precommit m) = rp_legal (m_rdata m)"
| "para_legal _ = True"

section \<open>The invariant\<close>

text \<open>The trusted component: its phases, and the keys of its pre-commit data.\<close>

definition tq_live :: "TrustedPara \<Rightarrow> bool" where
  "tq_live t \<longleftrightarrow> (tq_phase t = PH1_NEWVIEW \<or> tq_phase t = PH1_PARALLEL) \<and>
     map_ok (tq_precommitData t) \<and> - 1 \<notin> fst ` set (tq_precommitData t) \<and> tq_latestPreparedSeqNumber t \<noteq> - 1"

text \<open>Votes are filed under their sequence number; no verify message is ever stored.\<close>

definition para_log_ok :: "Log \<Rightarrow> bool" where
  "para_log_ok l \<longleftrightarrow>
     (\<forall>v. \<forall>m\<in>set (entries_of (map_find (newviewsPara l) v)). seqNumber (m_rdata m) \<noteq> - 1) \<and>
     (\<forall>v sq. \<forall>m\<in>set (entries_of (seq_find (preparesPara l) v sq)). seqNumber (m_rdata m) = sq) \<and>
     (\<forall>v sq. \<forall>m\<in>set (entries_of (seq_find (precommitsPara l) v sq)). seqNumber (m_rdata m) = sq) \<and>
     verifiesPara l = []"

definition para_inv :: "u32 \<Rightarrow> View \<Rightarrow> Handler \<Rightarrow> bool" where
  "para_inv mv w h \<longleftrightarrow>
     tq_live (h_tpara h) \<and> w \<le> h_view h \<and> h_view h \<noteq> - 1 \<and> h_maxViews h = mv \<and> 0 < mv \<and>
     h_maxBlocksInView h \<noteq> - 1 \<and> para_log_ok (h_log h)"

text \<open>Updates of members that the invariant does not read.\<close>

lemma para_inv_upd [simp]:
  "para_inv mv w (h\<lparr>h_pblocks := a\<rparr>) = para_inv mv w h" "para_inv mv w (h\<lparr>h_localSeq := b\<rparr>) = para_inv mv w h"
  "para_inv mv w (h\<lparr>h_lastExecutedSeq := c\<rparr>) = para_inv mv w h" "para_inv mv w (h\<lparr>h_viewsWithoutNewTrans := d\<rparr>) = para_inv mv w h"
  "para_inv mv w (h\<lparr>h_draws := e\<rparr>) = para_inv mv w h" "para_inv mv w (h\<lparr>h_recoverResponses := f\<rparr>) = para_inv mv w h"
  "para_inv mv w (h\<lparr>h_verifiedJust := g\<rparr>) = para_inv mv w h" "para_inv mv w (h\<lparr>h_transactions := i\<rparr>) = para_inv mv w h"
  "para_inv mv w (h\<lparr>h_rep_queue := j\<rparr>) = para_inv mv w h" "para_inv mv w (h\<lparr>h_clients := k\<rparr>) = para_inv mv w h"
  "para_inv mv w (h\<lparr>h_timerView := l\<rparr>) = para_inv mv w h" "para_inv mv w (emit es h) = para_inv mv w h"
  by (simp_all add: para_inv_def)

lemma para_inv_tpara [simp]: "para_inv mv w h \<Longrightarrow> para_inv mv w (h\<lparr>h_tpara := t\<rparr>) = tq_live t"
  by (auto simp: para_inv_def)

lemma para_inv_log [simp]: "para_inv mv w h \<Longrightarrow> para_inv mv w (h\<lparr>h_log := l\<rparr>) = para_log_ok l"
  by (auto simp: para_inv_def)

lemma para_inv_parts: "para_inv mv w h \<Longrightarrow> tq_live (h_tpara h) \<and> para_log_ok (h_log h) \<and> h_view h \<noteq> - 1"
  by (simp add: para_inv_def)

lemma para_inv_mono: "para_inv mv w h \<Longrightarrow> w' \<le> w \<Longrightarrow> para_inv mv w' h"
  by (auto simp: para_inv_def)

lemma para_inv_self: "para_inv mv w h \<Longrightarrow> para_inv mv (h_view h) h"
  by (simp add: para_inv_def)

lemma para_inv_frame:
  "para_inv mv w h \<Longrightarrow> h_tpara h' = h_tpara h \<Longrightarrow> h_view h' = h_view h \<Longrightarrow> h_maxViews h' = h_maxViews h \<Longrightarrow>
   h_maxBlocksInView h' = h_maxBlocksInView h \<Longrightarrow> h_log h' = h_log h \<Longrightarrow> para_inv mv w h'"
  by (simp add: para_inv_def)

section \<open>The block vectors\<close>

lemma pblocks_at_inv [simp]: "para_inv mv w (snd (pblocks_at v h)) = para_inv mv w h"
  by (simp add: pblocks_at_def Let_def case_prod_beta)

lemma pblocks_at_keeps: "pblocks_at v h = (bs, h') \<Longrightarrow> para_inv mv w h' = para_inv mv w h"
  by (metis pblocks_at_inv snd_conv)

lemma pblocks_get_ends: "para_inv mv w h \<Longrightarrow> ends_in (\<lambda>(b, h'). para_inv mv w h') (pblocks_get v i h)"
  using pblocks_at_inv [of mv w v h]
  by (auto simp: pblocks_get_def Let_def case_prod_beta ends_in_def bindE_Inr_iff bindE_Inl_iff)

lemma pblocks_put_ends: "para_inv mv w h \<Longrightarrow> ends_in (para_inv mv w) (pblocks_put v i b h)"
  using pblocks_at_inv [of mv w v h]
  by (auto simp: pblocks_put_def Let_def case_prod_beta ends_in_def bindE_Inr_iff bindE_Inl_iff)

lemma pblocks_resize_inv [simp]: "para_inv mv w (pblocks_resize v h) = para_inv mv w h"
  by (simp add: pblocks_resize_def Let_def case_prod_beta)

section \<open>Stores\<close>

lemma store_seq_entries:
  assumes "store_seq lt hrd v sq m log = Inr (log', n)" and "strict_weak_order lt"
  shows "x \<in> set (entries_of (seq_find log' v' sq')) \<Longrightarrow> x \<in> set (entries_of (seq_find log v' sq')) \<or> v' = v \<and> sq' = sq \<and> x = m"
  using assms(1) strict_weak_order.insert_subset [OF assms(2)]
  by (fastforce simp: store_seq_def Let_def bindE_Inr_iff seq_find_set entries_of_at split: if_splits)

lemma storeNvPara_ok:
  assumes "storeNvPara m l = Inr (l', n)" and "para_log_ok l" and "seqNumber (m_rdata m) \<noteq> - 1"
  shows "para_log_ok l'"
proof -
  obtain S x where "store_new msg_less (\<lambda>ms. msgNewViewFrom ms S) (propv (m_rdata m)) m (newviewsPara l) = Inr (x, n)"
    and "l' = l\<lparr>newviewsPara := x\<rparr>"
    using assms(1) by (auto simp: storeNvPara_def bindE_Inr_iff)
  with store_new_entries [OF this(1) msg_order.strict_weak_order_axioms] assms(2,3) show ?thesis
    by (fastforce simp: para_log_ok_def)
qed

lemma storePrepPara_ok:
  assumes "storePrepPara m l = Inr (l', n)" and "para_log_ok l"
  shows "para_log_ok l'"
proof -
  obtain S x where "store_seq msg_less (\<lambda>ms. msgPrepareFrom ms S) (propv (m_rdata m)) (seqNumber (m_rdata m)) m (preparesPara l) = Inr (x, n)"
    and "l' = l\<lparr>preparesPara := x\<rparr>"
    using assms(1) by (auto simp: storePrepPara_def bindE_Inr_iff)
  with store_seq_entries [OF this(1) msg_order.strict_weak_order_axioms] assms(2) show ?thesis
    by (fastforce simp: para_log_ok_def)
qed

lemma storePcPara_ok:
  assumes "storePcPara m l = Inr (l', n)" and "para_log_ok l"
  shows "para_log_ok l'"
proof -
  obtain S x where "store_seq msg_less (\<lambda>ms. msgPreCommitFrom ms S) (propv (m_rdata m)) (seqNumber (m_rdata m)) m (precommitsPara l) = Inr (x, n)"
    and "l' = l\<lparr>precommitsPara := x\<rparr>"
    using assms(1) by (auto simp: storePcPara_def bindE_Inr_iff)
  with store_seq_entries [OF this(1) msg_order.strict_weak_order_axioms] assms(2) show ?thesis
    by (fastforce simp: para_log_ok_def)
qed

lemma storeOther_ok:
  assumes "para_log_ok l"
  shows "storeComPara m l = Inr (l', n) \<Longrightarrow> para_log_ok l'" and "storePropPara mp l = Inr (l', n) \<Longrightarrow> para_log_ok l'"
proof -
  have same: "para_log_ok l'" if "newviewsPara l' = newviewsPara l" "preparesPara l' = preparesPara l"
    "precommitsPara l' = precommitsPara l" "verifiesPara l' = verifiesPara l"
    using assms that by (simp add: para_log_ok_def)
  show "storeComPara m l = Inr (l', n) \<Longrightarrow> para_log_ok l'"
    by (rule same) (auto simp: storeComPara_def bindE_Inr_iff)
  show "storePropPara mp l = Inr (l', n) \<Longrightarrow> para_log_ok l'"
    by (rule same) (auto simp: storePropPara_def bindE_Inr_iff)
qed

lemma keep_para:
  assumes "para_inv mv w h"
  shows "ends_in (para_inv mv w) (bindE (storePrepPara m (h_log h)) (\<lambda>(l, n). Inr (h\<lparr>h_log := l\<rparr>)))"
    and "ends_in (para_inv mv w) (bindE (storePcPara m (h_log h)) (\<lambda>(l, n). Inr (h\<lparr>h_log := l\<rparr>)))"
    and "ends_in (para_inv mv w) (bindE (storeComPara m (h_log h)) (\<lambda>(l, n). Inr (h\<lparr>h_log := l\<rparr>)))"
    and "ends_in (para_inv mv w) (bindE (storePropPara mp (h_log h)) (\<lambda>(l, n). Inr (h\<lparr>h_log := l\<rparr>)))"
  using assms para_inv_parts [OF assms]
  by (auto intro!: ends_in_bind_pair intro: storePrepPara_ok storePcPara_ok storeOther_ok)

section \<open>The trusted component\<close>

lemma map_keys_bound:
  assumes "map_ok m" and "- 1 \<notin> fst ` set m"
  shows "length (m :: (u32, 'a) stdmap) < 2 ^ 32"
proof -
  have "distinct (map fst m)" using assms(1) strict_sorted_iff unfolding map_ok_def by blast
  then have "length m = card (fst ` set m)" by (metis distinct_card length_map list.set_map)
  also have "\<dots> \<le> card (UNIV - {- 1 :: u32})" using assms(2) by (intro card_mono) (simp, blast)
  also have "\<dots> < 2 ^ 32" by (simp add: card_word)
  finally show ?thesis .
qed

lemma tq_live_node_phase [simp]: "tq_live t \<Longrightarrow> tq_live (tq_increment_node_phase t)"
  by (auto simp: tq_live_def tq_increment_node_phase_def tq_increment_view_def phase_defs)

lemma tq_live_changeView [simp]: "tq_live t \<Longrightarrow> tq_live (tq_changeView v t)"
  by (simp add: tq_live_def tq_changeView_def)

lemma tq_live_signBlock:
  assumes "tq_live t" and "tq_signBlock C h1 h2 v2 sq t = (j, t')"
  shows "tq_live t' \<and> (\<exists>r. getRDataPara j = Inr r \<and> seqNumber r = sq)"
proof -
  have "tq_phase t' \<in> {tq_phase t, PH1_PARALLEL}" "tq_precommitData t' = tq_precommitData t"
    "tq_latestPreparedSeqNumber t' = tq_latestPreparedSeqNumber t"
    using assms(2) by (auto simp: tq_signBlock_def tq_increment_block_phase_def Let_def split: option.splits)
  with assms show ?thesis by (auto simp: tq_live_def tq_signBlock_def Let_def)
qed

text \<open>A justification that does not name the last sequence number.\<close>

definition seq_legal :: "Just \<Rightarrow> bool" where
  "seq_legal j \<longleftrightarrow> (\<forall>r. getRDataPara j = Inr r \<longrightarrow> seqNumber r \<noteq> - 1)"

lemma JustPara_fail_seq [simp]: "getRDataPara JustPara_fail = Inr RDataPara_default"
  by (simp add: JustPara_fail_def JustPara_flag_def getRDataPara_def)

lemma callTEEpreparePara_ends:
  assumes inv: "para_inv mv w h"
  shows "ends_in (\<lambda>(j, h'). para_inv mv w h') (callTEEpreparePara C b just h)"
proof -
  have t: "tq_live (h_tpara h)" using inv by (simp add: para_inv_def)
  have nd: "tq_TEEprepare C (h_nodes h) b just (h_tpara h) \<noteq> Inl Diverges"
    by (auto simp: tq_TEEprepare_def tq_TEEverify_def bindE_Inl_iff split: if_splits)
  have "tq_live t'" if "tq_TEEprepare C (h_nodes h) b just (h_tpara h) = Inr (j, t')" for j t'
    using that t tq_live_signBlock [OF t] by (fastforce simp: tq_TEEprepare_def bindE_Inr_iff split: if_splits)
  then show ?thesis
    unfolding callTEEpreparePara_def by (intro ends_in_bind_pair [OF nd]) (auto simp: inv)
qed

text \<open>The closure that \<open>TEEstore\<close> calls changes nothing but the block vectors.\<close>

definition but_blocks :: "Handler \<Rightarrow> Handler" where
  "but_blocks h = h\<lparr>h_pblocks := []\<rparr>"

lemma getBlockFunc_frame: "getBlockFunc sq h = Inr (b, h') \<Longrightarrow> but_blocks h' = but_blocks h"
  by (auto simp: getBlockFunc_def pblocks_at_def but_blocks_def Let_def case_prod_beta split: if_splits)

lemma getBlockFunc_ends [simp]: "getBlockFunc sq h \<noteq> Inl Diverges"
  by (simp add: getBlockFunc_def Let_def case_prod_beta)

lemma tq_scan_frame:
  "gives (\<lambda>(r, h'). but_blocks h' = but_blocks h) (tq_scan C getBlockFunc data hiKey fuel i prev lv hi h)"
proof (induction fuel arbitrary: i prev lv hi h)
  case (Suc fuel)
  have get: "gives (\<lambda>(b, g). but_blocks g = but_blocks h) (getBlockFunc i h)" for h
    using getBlockFunc_frame by (fastforce simp: gives_def)
  have scan: "but_blocks g = but_blocks h \<Longrightarrow>
      gives (\<lambda>(r, h'). but_blocks h' = but_blocks h) (tq_scan C getBlockFunc data hiKey fuel i prev lv hi g)" for i prev lv hi g h
    using Suc.IH [of g i prev lv hi] by simp
  have tail: "but_blocks g = but_blocks h \<Longrightarrow> gives (\<lambda>(r, h'). but_blocks h' = but_blocks h) (bindE (getBlockFunc i g) (\<lambda>(b, s).
      bindE (pblock_hash C b) (\<lambda>h. tq_scan C getBlockFunc data hiKey fuel (i + 1) True h i s)))" for g h
    by (rule gives_bind [OF get]) (auto intro!: gives_bind [OF gives_any] scan)
  have wrong: "gives (\<lambda>(b, h'). but_blocks h' = but_blocks h) (if prev \<and> i > 1
      then bindE (getBlockFunc i h) (\<lambda>(b, s). Inr (\<not> pblock_extends b lv, s)) else Inr (False, h))" for h
    by (auto intro!: gives_bind [OF get])
  have blk: "gives (\<lambda>(r, h'). but_blocks h' = but_blocks h) (if pblock_isBlock b then
      bindE (if prev \<and> i > 1 then bindE (getBlockFunc i g) (\<lambda>(b, s). Inr (\<not> pblock_extends b lv, s)) else Inr (False, g)) (\<lambda>(wrong, s).
        if wrong then Inr (hi, s)
        else bindE (getBlockFunc i s) (\<lambda>(b, s). bindE (pblock_hash C b) (\<lambda>h. tq_scan C getBlockFunc data hiKey fuel (i + 1) True h i s)))
      else tq_scan C getBlockFunc data hiKey fuel (i + 1) False lv i g)" if g: "but_blocks g = but_blocks h" for b g h
  proof (cases "pblock_isBlock b")
    case True
    then show ?thesis
      by (simp only: if_True, intro gives_bind [OF wrong]) (auto simp: g intro!: tail)
  qed (simp add: scan g)
  show ?case
    by (auto intro!: gives_bind [OF get] blk split: option.split)
qed simp

lemma para_inv_but_blocks: "but_blocks h' = but_blocks h \<Longrightarrow> para_inv mv w h \<Longrightarrow> para_inv mv w h'"
  using para_inv_upd(1) [of mv w "[]" h'] para_inv_upd(1) [of mv w "[]" h] by (simp add: but_blocks_def)

lemma tq_lockPrefix_live:
  assumes "tq_lockPrefix C getBlock t s = Inr (t', s')" and "tq_live t" and "tq_precommitData t \<noteq> []"
  shows "tq_live t'"
proof -
  have "last (tq_precommitData t) \<in> set (tq_precommitData t)" using assms(3) by simp
  then have "fst (last (tq_precommitData t)) \<noteq> - 1" using assms(2) by (auto simp: tq_live_def image_iff)
  from tq_lockPrefix_spec [OF assms(1) this] assms(2) show ?thesis by (auto simp: tq_live_def)
qed

lemma callTEEstorePara_ends:
  assumes inv: "para_inv mv w h" and j: "seq_legal just"
  shows "ends_in (\<lambda>(j, h'). para_inv mv w h') (callTEEstorePara C just h)"
proof (cases "getRDataPara just")
  case (Inl e)
  then show ?thesis
    by (cases e) (auto simp: callTEEstorePara_def tq_TEEstore_def ends_in_def getRDataPara_def split: RoundUnion.splits)
next
  case (Inr rd)
  have t: "tq_live (h_tpara h)" using inv by (simp add: para_inv_def)
  have sq: "seqNumber rd \<noteq> - 1" using j Inr by (simp add: seq_legal_def)
  define t1 where "t1 = (if propv rd > tq_latestPreparedView (h_tpara h) \<or>
      (propv rd = tq_latestPreparedView (h_tpara h) \<and> seqNumber rd > tq_latestPreparedSeqNumber (h_tpara h))
    then h_tpara h\<lparr>tq_latestPreparedHash := proph rd, tq_latestPreparedView := propv rd, tq_latestPreparedSeqNumber := seqNumber rd\<rparr>
    else h_tpara h)"
  let ?t2 = "t1\<lparr>tq_precommitData := map_set (seqNumber rd) \<lparr>pc_blockHash = proph rd, pc_view = propv rd\<rparr> (tq_precommitData t1)\<rparr>"
  have l1: "tq_live t1" using t sq by (auto simp: t1_def tq_live_def)
  then have l2: "tq_live ?t2" using sq by (auto simp: tq_live_def set_map_fst_map_set)
  then have "length (tq_precommitData ?t2) < 2 ^ 32" "map_ok (tq_precommitData ?t2)"
    using map_keys_bound by (auto simp: tq_live_def)
  then have nd: "tq_lockPrefix C getBlockFunc ?t2 h \<noteq> Inl Diverges"
    by (intro tq_lockPrefix_ends) simp_all
  have lock: "tq_live u \<and> but_blocks h' = but_blocks h" if "tq_lockPrefix C getBlockFunc ?t2 h = Inr (u, h')" for u h'
  proof
    have "map_set (seqNumber rd) \<lparr>pc_blockHash = proph rd, pc_view = propv rd\<rparr> (tq_precommitData t1) \<noteq> []"
      by (metis image_is_empty insert_not_empty set_empty set_map_fst_map_set)
    with tq_lockPrefix_live [OF that l2] show "tq_live u" by simp
    show "but_blocks h' = but_blocks h"
      using that tq_scan_frame [of h C "tq_precommitData ?t2" "fst (last (tq_precommitData ?t2))" "Suc (length (tq_precommitData ?t2))"]
      by (fastforce simp: tq_lockPrefix_def Let_def bindE_Inr_iff gives_def simp del: tq_scan.simps split: prod.splits if_splits)
  qed
  have sb: "tq_live (snd (tq_signBlock C a b c d u))" if "tq_live u" for a b c d u
    using tq_live_signBlock [OF that, of C a b c d] by (metis prod.collapse)
  have "ends_in (\<lambda>((j, t'), h'). tq_live t' \<and> but_blocks h' = but_blocks h)
      (tq_TEEstore C (h_nodes h) just getBlockFunc (h_tpara h) h)"
    unfolding tq_TEEstore_def Inr bindE_simps Let_def t1_def [symmetric]
  proof (rule ends_in_bind, simp add: tq_TEEverify_def bindE_Inl_iff, rule ends_in_if)
    show "ends_in (\<lambda>((j, t'), h'). tq_live t' \<and> but_blocks h' = but_blocks h)
      (bindE (if phase rd = PH1_PRECOMMIT then tq_lockPrefix C getBlockFunc ?t2 h else Inr (t1, h))
        (\<lambda>(t, s). Inr (tq_signBlock C (proph rd) (justh rd) (justv rd) (seqNumber rd) t, s)))"
      by (rule ends_in_bind_pair) (use nd lock l1 sb in \<open>auto simp: case_prod_beta split: if_splits\<close>)
  qed (simp add: t)
  then show ?thesis
    unfolding callTEEstorePara_def
    by (rule ends_in_seq) (use para_inv_but_blocks [OF _ inv] in \<open>auto simp: case_prod_beta\<close>)
qed

lemma callTEEsignPara_inv:
  assumes "para_inv mv w h" and "callTEEsignPara C h = (j, h')"
  shows "para_inv mv w h'" "\<exists>r. getRDataPara j = Inr r \<and> seqNumber r \<noteq> - 1" "\<exists>t. h' = h\<lparr>h_tpara := t\<rparr>"
  using assms para_inv_parts [OF assms(1)]
  by (auto simp: callTEEsignPara_def tq_TEEsign_def tq_sign_def Let_def tq_live_def [of "h_tpara h"])

section \<open>Missing blocks and recovery\<close>

text \<open>Numbers from 1 to \<open>sq\<close> whose first element can be searched for.\<close>

definition among :: "u32 \<Rightarrow> u32 list \<Rightarrow> bool" where
  "among sq xs \<longleftrightarrow> (\<forall>x\<in>set xs. 1 \<le> unat x \<and> unat x \<le> unat sq)"

lemma getMissing_ends:
  assumes inv: "para_inv mv w h" and r: "getRDataPara j = Inr r" and sq: "seqNumber r \<noteq> - 1"
  shows "ends_in (\<lambda>(missing, h'). among (seqNumber r) missing \<and> para_inv mv w h') (getMissingSeqNumbersForJust j h)"
proof -
  have u: "unat (seqNumber r) + 1 < 2 ^ 32" by (rule not_last_word [OF sq])
  obtain bs g where p: "pblocks_at (justv r) h = (bs, g)" by fastforce
  then have g: "para_inv mv w g" using pblocks_at_inv [of mv w "justv r" h] inv by simp
  have "1 \<le> unat x \<and> unat x \<le> unat (seqNumber r)" if "x \<in> word_of_nat ` {1..<Suc (unat (seqNumber r))}" for x :: u32
    using that u by (auto simp: unat_of_nat_u32)
  then have "among (seqNumber r) (filter P (map word_of_nat [1..<Suc (unat (seqNumber r))]))" for P
    unfolding among_def by (auto simp del: upt_Suc)
  moreover have "missing_loop bs (seqNumber r) (Suc (unat (seqNumber r))) 1 [] =
      Inr ([] @ filter (\<lambda>k. \<not> has_block bs k) (map word_of_nat [unat (1 :: u32)..<Suc (unat (seqNumber r))]))"
    by (rule missing_loop_spec) (use u in simp_all)
  ultimately show ?thesis
    using g by (simp add: getMissingSeqNumbersForJust_def r p del: missing_loop.simps upt_Suc)
qed

lemma first_missing_ends:
  assumes "among sq missing" and "missing \<noteq> []" and "sq \<noteq> - 1"
  shows "first_missing missing (Suc (unat sq)) 1 \<noteq> Inl Diverges"
proof -
  obtain x where x: "x \<in> set missing" "1 \<le> unat x" "unat x \<le> unat sq"
    using assms(1,2) by (cases missing) (auto simp: among_def)
  have *: "first_missing missing fuel i \<noteq> Inl Diverges" if "i \<le> int (unat x)" "int (unat x) < i + int fuel" for fuel i
    using that
  proof (induction fuel arbitrary: i)
    case (Suc fuel)
    show ?case
    proof (cases "i = int (unat x)")
      case True
      then show ?thesis using x(1) by simp
    qed (use Suc in auto)
  qed simp
  have "1 \<le> int (unat x)" "int (unat x) < 1 + int (Suc (unat sq))" using x(2,3) by linarith+
  then show ?thesis by (rule *)
qed

section \<open>The leader's messages\<close>

lemma initiateRecoverPara_ends: "para_inv mv w h \<Longrightarrow> ends_in (para_inv mv w) (initiateRecoverPara missing just h)"
  unfolding initiateRecoverPara_def by (rule ends_in_bind) simp_all

lemma createNewBlockPara_inv: "createNewBlockPara prev h = (b, h') \<Longrightarrow> para_inv mv w h \<Longrightarrow> para_inv mv w h'"
proof -
  assume c: "createNewBlockPara prev h = (b, h')" and inv: "para_inv mv w h"
  obtain ts sz g where f: "fill_block h = (ts, sz, g)" by (metis prod_cases3)
  then obtain x where "g = h\<lparr>h_transactions := x\<rparr>" using fill_block_frame by blast
  moreover from c f have "h' = g" by (simp add: createNewBlockPara_def)
  ultimately show "para_inv mv w h'" using inv by simp
qed

lemma prepareBlock_ends:
  assumes inv: "para_inv mv w h"
  shows "ends_in (\<lambda>(prev, h'). para_inv mv w h') (prepareBlock C just prevHash h)"
proof -
  obtain b g where b: "createNewBlockPara prevHash h = (b, g)" by fastforce
  have g: "para_inv mv w (g\<lparr>h_localSeq := h_localSeq g + 1\<rparr>)" using createNewBlockPara_inv [OF b inv] by simp
  have store: "ends_in (\<lambda>(prev, h'). para_inv mv w h') (bindE (storePrepPara m (h_log h')) (\<lambda>(l, n). Inr (x, h'\<lparr>h_log := l\<rparr>)))"
    if "para_inv mv w h'" for h' m x
    using that para_inv_parts [OF that] by (intro ends_in_bind_pair) (auto intro: storePrepPara_ok)
  show ?thesis
    unfolding prepareBlock_def b Let_def prod.case
    apply (rule ends_in_seq [OF callTEEpreparePara_ends [OF g]], clarify, rule ends_in_if)
     apply (rule ends_in_seq [OF pblocks_put_ends], assumption)
     apply (rule ends_in_bind [OF pblock_hash_not_Diverges], rule ends_in_bind [OF getRData_not_Diverges(2)])
     apply (rule store, simp)
    by simp
qed

lemma prepare_loop_ends: "para_inv mv w h \<Longrightarrow> ends_in (para_inv mv w) (prepare_loop C just n prevHash h)"
  by (induction n arbitrary: prevHash h) (auto intro!: ends_in_seq [OF prepareBlock_ends])

lemma preparePara_ends: "para_inv mv w h \<Longrightarrow> ends_in (para_inv mv w) (preparePara C just h)"
  unfolding preparePara_def by (intro ends_in_bind ends_in_if prepare_loop_ends) simp_all

lemma verify_chain_ends [simp]: "verify_chain C prev bs hs \<noteq> Inl Diverges"
  by (induction bs arbitrary: prev hs) (auto simp: bindE_Inl_iff)

lemma verifyHashes_ends [simp]: "verifyHashes C bs \<noteq> Inl Diverges"
  by (cases bs) (auto simp: bindE_Inl_iff)

lemma initiateVerifyPara_ends:
  assumes inv: "para_inv mv w h"
  shows "ends_in (para_inv mv w) (initiateVerifyPara C just h)"
  unfolding initiateVerifyPara_def
proof (rule ends_in_bind)
  fix r assume "getRDataPara just = Inr r"
  obtain bs g where p: "(if unat (justv r) < length (h_pblocks h) then pblocks_at (justv r) h else ([], h)) = (bs, g)" by fastforce
  have g: "para_inv mv w g" using pblocks_at_keeps inv p by (auto split: if_splits)
  then show "ends_in (para_inv mv w) (let jv = justv r;
           (bs, h) = (if unat jv < length (h_pblocks h) then pblocks_at jv h else ([], h))
       in bindE (verifyHashes C bs) (\<lambda>hashes.
            preparePara C just
              (sendMsg (Net_VerifyPara \<lparr>vf_rdata = r, vf_signs = j_signs just, vf_hashes = hashes\<rparr>)
                 (remove_from_peers h (h_myid h)) h)))"
    unfolding Let_def p prod.case by (intro ends_in_bind preparePara_ends) simp_all
qed simp

lemma seq_legal_JustPara [simp]: "seq_legal (JustPara_signs r ss) \<longleftrightarrow> seqNumber r \<noteq> - 1"
  by (auto simp: seq_legal_def JustPara_signs_def getRDataPara_def)

lemma first_seq_legal:
  assumes "para_log_ok l" and "sq \<noteq> - 1"
  shows "seq_legal (firstPreparePara v sq l)" "seq_legal (firstPrecommitPara v sq l)"
proof -
  have d: "seq_legal (Just_typed Type_RDataPara)"
    by (simp add: seq_legal_def Just_typed_def getRDataPara_def RDataPara_default_def)
  show "seq_legal (firstPreparePara v sq l)"
    unfolding firstPreparePara_def
    by (rule first_of_cases, rule d) (use assms in \<open>auto simp: para_log_ok_def\<close>)
  show "seq_legal (firstPrecommitPara v sq l)"
    unfolding firstPrecommitPara_def
    by (rule first_of_cases, rule d) (use assms in \<open>auto simp: para_log_ok_def\<close>)
qed

text \<open>Storing a certificate and the vote that the component returns.\<close>

lemma initiatePreparePara_ends:
  assumes inv: "para_inv mv w h" and sq: "seqNumber rdata \<noteq> - 1"
  shows "ends_in (para_inv mv w) (initiatePreparePara C rdata h)"
  unfolding initiatePreparePara_def Let_def
  apply (rule ends_in_bind [OF gets_not_Diverge(7)])
  apply (rule ends_in_seq [OF callTEEstorePara_ends [of mv w]], simp add: inv, simp add: sq)
  by (auto intro!: ends_in_bind keep_para(2))

lemma initiatePrecommitPara_ends:
  assumes inv: "para_inv mv w h" and sq: "seqNumber rdata \<noteq> - 1"
  shows "ends_in (para_inv mv w) (initiatePrecommitPara C rdata h)"
  unfolding initiatePrecommitPara_def Let_def
  apply (rule ends_in_bind [OF gets_not_Diverge(8)])
  apply (rule ends_in_seq [OF callTEEstorePara_ends [of mv w]], simp add: inv, simp add: sq)
  by (auto intro!: ends_in_bind keep_para(3))

lemma respondToProposalPara_ends:
  assumes inv: "para_inv mv w h"
  shows "ends_in (para_inv mv w) (respondToProposalPara C just block h)"
  unfolding respondToProposalPara_def
  apply (rule ends_in_seq [OF callTEEpreparePara_ends [OF inv]], clarify, rule ends_in_if)
   apply (rule ends_in_seq [OF pblocks_put_ends], assumption)
  by (auto intro!: ends_in_bind)

lemma respondToPrepareJustPara_ends:
  assumes inv: "para_inv mv w h" and sq: "seq_legal just"
  shows "ends_in (para_inv mv w) (respondToPrepareJustPara C just h)"
  unfolding respondToPrepareJustPara_def
  by (rule ends_in_seq [OF callTEEstorePara_ends [OF inv sq]]) (auto intro!: ends_in_bind)

lemma respondToPreCommitJustPara_ends:
  assumes inv: "para_inv mv w h" and sq: "seq_legal just"
  shows "ends_in (para_inv mv w) (respondToPreCommitJustPara C just h)"
  unfolding respondToPreCommitJustPara_def
  apply (rule ends_in_bind, simp)
  by (rule ends_in_seq [OF callTEEstorePara_ends [OF inv sq]]) (auto intro!: ends_in_bind)

section \<open>The signing loop\<close>

text \<open>Statements until the component signs for the view after \<open>v\<close>.\<close>

definition sign_distance :: "View \<Rightarrow> TrustedPara \<Rightarrow> nat" where
  "sign_distance v t = 2 * (Suc (unat v) - unat (tq_view t)) - (if tq_phase t = PH1_PARALLEL then 1 else 0)"

lemma tq_live_sign:
  "tq_live t \<Longrightarrow> tq_live (snd (tq_TEEsign C t)) \<and> tq_latestPreparedSeqNumber (snd (tq_TEEsign C t)) = tq_latestPreparedSeqNumber t"
  by (auto simp: tq_TEEsign_def tq_sign_def Let_def tq_increment_node_phase_def tq_increment_view_def tq_live_def phase_defs)

lemma signUntilViewPara_ends:
  assumes "v \<noteq> - 1"
  shows "para_inv mv w h \<Longrightarrow> callTEEsignPara C h = (j, h1) \<Longrightarrow> sign_distance v (h_tpara h) < fuel \<Longrightarrow>
    \<exists>j' t r. signUntilViewPara C v fuel j h1 = Inr (j', h\<lparr>h_tpara := t\<rparr>) \<and> tq_live t \<and>
      getRDataPara j' = Inr r \<and> seqNumber r \<noteq> - 1"
proof (induction fuel arbitrary: h j h1)
  case (Suc fuel)
  let ?t = "h_tpara h"
  have live: "tq_live ?t" using Suc.prems(1) by (simp add: para_inv_def)
  obtain r where r: "getRDataPara j = Inr r" "seqNumber r \<noteq> - 1" "propv r = tq_view ?t"
    and h1: "h1 = h\<lparr>h_tpara := tq_increment_node_phase ?t\<rparr>"
    using Suc.prems(2) live by (auto simp: callTEEsignPara_def tq_TEEsign_def tq_sign_def Let_def tq_live_def)
  have inv1: "para_inv mv w h1" using Suc.prems(1) live by (simp add: h1)
  show ?case
  proof (cases "tq_view ?t \<le> v")
    case False
    then have "signUntilViewPara C v (Suc fuel) j h1 = Inr (j, h\<lparr>h_tpara := tq_increment_node_phase ?t\<rparr>)" using r by (simp add: h1)
    with r(1,2) live tq_live_node_phase show ?thesis by blast
  next
    case True
    obtain j2 h2 where c: "callTEEsignPara C h1 = (j2, h2)" by fastforce
    have "sign_distance v (tq_increment_node_phase ?t) < sign_distance v ?t"
    proof -
      have le: "unat (tq_view ?t) \<le> unat v" using True by (simp add: word_le_nat_alt)
      then have "unat (tq_view ?t + 1) = Suc (unat (tq_view ?t))"
        using not_last_word [OF assms] by (intro unat_Suc_u32) simp
      with le live show ?thesis
        by (auto simp: sign_distance_def tq_live_def tq_increment_node_phase_def tq_increment_view_def phase_defs)
    qed
    then have "sign_distance v (h_tpara h1) < fuel" using Suc.prems(3) by (simp add: h1)
    from Suc.IH [OF inv1 c this] show ?thesis using True r c by (simp add: h1)
  qed
qed simp

lemma sign_fuel_para: "sign_distance v t < 2 * (unat v + 2)"
  by (simp add: sign_distance_def)

section \<open>Execution\<close>

lemma replyHashPara_ends:
  assumes "para_inv mv w h"
  shows "ends_in (para_inv mv w) (replyHashPara C hash sq h)"
  unfolding replyHashPara_def
proof (rule ends_in_seq [OF pblocks_get_ends [OF assms]], clarify)
  fix b :: PBlock and g assume g: "para_inv mv w g"
  have "para_inv mv w g'" if "replyTransactions (p_transactions b) g = Inr g'" for g'
    using replyTransactions_frame [OF that] g by auto
  then have "ends_in (para_inv mv w) (replyTransactions (p_transactions b) g)" by (simp add: ends_in_def)
  with g show "ends_in (para_inv mv w) (if \<not> pblock_isBlock b then Inr g
       else bindE (pblock_hash C b) (\<lambda>bh. if hash_eq bh hash then replyTransactions (p_transactions b) g else Inr g))"
    by (intro ends_in_if ends_in_bind) simp_all
qed

section \<open>Proposals, new views, recovery\<close>

lemma handleLdrPreparePara_ends:
  assumes inv: "para_inv mv w h"
  shows "ends_in (para_inv mv w) (handleLdrPreparePara C msg h)"
proof -
  obtain g where g: "snd (pblocks_at (h_view h) h) = g" "para_inv mv w g" using inv by simp
  have pr: "ends_in (para_inv mv w) (bindE (pblocks_get v i g) (\<lambda>(b0, h).
      if \<not> pblock_isBlock b0 then respondToProposalPara C just b h else Inr h))" for v i just b
    by (rule ends_in_seq [OF pblocks_get_ends [OF g(2)]]) (auto intro: respondToProposalPara_ends)
  have eq: "just_eq a b \<noteq> Inl Diverges" for a b by (auto simp: just_eq_def bindE_Inl_iff split: RoundUnion.splits)
  show ?thesis
    unfolding handleLdrPreparePara_def Let_def g(1)
    apply (rule ends_in_if, simp add: inv)
    apply (rule ends_in_bind [OF getRData_not_Diverges(2)], rule ends_in_bind, simp)
    apply (rule ends_in_if, simp add: g, rule ends_in_if, rule ends_in_bind [OF eq], rule ends_in_if, rule pr)
     apply (rule ends_in_bind [OF getRData_not_Diverges(2)], rule ends_in_if, rule keep_para(4) [OF g(2)], simp add: g)
    by (rule keep_para(4) [OF g(2)])
qed

lemma changeView_inv:
  assumes "para_inv mv w h" and "w' \<le> v" and "v \<noteq> - 1"
  shows "para_inv mv w' (changeView v h)"
  using assms by (auto simp: para_inv_def)

lemma findHighestNvPara_seq:
  assumes "para_log_ok l"
  shows "\<exists>r. getRDataPara (findHighestNvPara v l) = Inr r \<and> seqNumber r \<noteq> - 1"
proof -
  let ?ok = "\<lambda>j. \<exists>r. getRDataPara j = Inr r \<and> seqNumber r \<noteq> - 1"
  have d: "?ok (Just_typed Type_RDataPara)" by (simp add: Just_typed_def getRDataPara_def RDataPara_default_def)
  have loop: "?ok j \<Longrightarrow> \<forall>m\<in>set ms. seqNumber (m_rdata m) \<noteq> - 1 \<Longrightarrow> ?ok (highestPara_loop ms hv hs j)" for ms hv hs j
    by (induction ms hv hs j rule: highestPara_loop.induct) (auto simp: Let_def JustPara_signs_def getRDataPara_def)
  have "\<forall>m\<in>set (entries_of (map_find (newviewsPara l) v)). seqNumber (m_rdata m) \<noteq> - 1"
    using assms by (simp add: para_log_ok_def)
  with d loop [OF d] show ?thesis
    unfolding findHighestNvPara_def by (cases "map_find (newviewsPara l) v") simp_all
qed

lemma handleNewViewPara_ends:
  assumes inv: "para_inv mv w h" and m: "rp_legal (m_rdata msg)"
  shows "ends_in (para_inv mv w) (handleNewViewPara C msg h)"
proof -
  have go: "ends_in (para_inv mv w) (let justNV = findHighestNvPara (h_view g) (h_log g) in
      bindE (getMissingSeqNumbersForJust justNV g) (\<lambda>(missing, h).
        let recover = h_forced h (h_draws h); h = h\<lparr>h_draws := h_draws h + 1\<rparr> in
        if h_view h = 0 then initiateVerifyPara C justNV h
        else if missing = [] then
          (if recover then
             bindE (getRDataPara justNV) (\<lambda>r.
             let h = (case map_find (h_pblocks h) (justv r) of
                        Some _ \<Rightarrow> h\<lparr>h_pblocks := map_set (justv r)
                            (replicate (unat (h_maxBlocksInView h)) PBlock_default) (h_pblocks h)\<rparr>
                      | None \<Rightarrow> h)
             in bindE (getMissingSeqNumbersForJust justNV h) (\<lambda>(missing, h).
                  initiateRecoverPara missing justNV h))
           else initiateVerifyPara C justNV h)
        else initiateRecoverPara missing justNV h))" if g: "para_inv mv w g" for g
  proof -
    obtain r where r: "getRDataPara (findHighestNvPara (h_view g) (h_log g)) = Inr r" "seqNumber r \<noteq> - 1"
      using findHighestNvPara_seq g unfolding para_inv_def by blast
    show ?thesis
      unfolding Let_def r(1) bindE_simps
      apply (rule ends_in_seq [OF getMissing_ends [OF g r]], clarify)
      apply (intro ends_in_if initiateVerifyPara_ends initiateRecoverPara_ends)
         apply simp_all
      apply (rule ends_in_seq [OF getMissing_ends [OF _ r]])
       apply (simp split: option.split)
      by (auto intro: initiateRecoverPara_ends)
  qed
  have view: "para_inv mv w (if propv (m_rdata msg) > h_view g then changeView (propv (m_rdata msg)) (snd (callTEEsignPara C g)) else g)"
    if g: "para_inv mv w g" for g
  proof (cases "propv (m_rdata msg) > h_view g")
    case True
    moreover have "w \<le> h_view g" using g by (simp add: para_inv_def)
    ultimately have "w \<le> propv (m_rdata msg)" by simp
    moreover obtain j g' where c: "callTEEsignPara C g = (j, g')" by fastforce
    ultimately show ?thesis
      using True m callTEEsignPara_inv(1) [OF g c] by (auto simp: rp_legal_def intro!: changeView_inv)
  qed (simp add: g)
  show ?thesis
    unfolding handleNewViewPara_def
    apply (rule ends_in_if, simp add: inv)
    apply (subst Let_def, subst Let_def, subst Let_def, rule ends_in_if)
     apply (rule ends_in_bind_pair [OF stores_not_Diverge(9)], subst Let_def, rule ends_in_if)
      apply (subst Let_def, rule go [OF view])
    using inv m para_inv_parts [OF inv] by (auto simp: rp_legal_def intro: storeNvPara_ok)
qed

text \<open>While the loop over the received blocks runs, some number is missing.\<close>

lemma recover_loop_ends:
  assumes r: "getRDataPara just = Inr r" "seqNumber r \<noteq> - 1"
  shows "para_inv mv w h \<Longrightarrow> among (seqNumber r) missing \<Longrightarrow> missing \<noteq> [] \<Longrightarrow>
    ends_in (\<lambda>((returned, missing), h'). para_inv mv w h' \<and> (\<not> returned \<longrightarrow> among (seqNumber r) missing \<and> missing \<noteq> []))
      (recover_loop C just v bs missing h)"
proof (induction bs arbitrary: missing h)
  case (Cons block bs)
  let ?K = "\<lambda>((returned, missing), h'). para_inv mv w h' \<and> (\<not> returned \<longrightarrow> among (seqNumber r) missing \<and> missing \<noteq> [])"
  obtain g where g: "(case map_find (h_pblocks h) v of None \<Rightarrow> pblocks_resize v h
      | Some vec \<Rightarrow> if length vec < unat (p_seqNumber block) then pblocks_resize v h else h) = g" "para_inv mv w g"
    using Cons.prems(1) by (auto split: option.split)
  have fill: "ends_in ?K (bindE (pblocks_put v i block h') (\<lambda>h.
      bindE (getMissingSeqNumbersForJust just h) (\<lambda>(missing, h).
        if missing = [] then bindE (initiateVerifyPara C just h) (\<lambda>h. Inr ((True, missing), h))
        else recover_loop C just v bs missing h)))" if h': "para_inv mv w h'" for i h'
  proof (rule ends_in_seq [OF pblocks_put_ends [OF h']])
    fix h2 assume h2: "para_inv mv w h2"
    show "ends_in ?K (bindE (getMissingSeqNumbersForJust just h2) (\<lambda>(missing, h).
        if missing = [] then bindE (initiateVerifyPara C just h) (\<lambda>h. Inr ((True, missing), h))
        else recover_loop C just v bs missing h))"
    proof (rule ends_in_seq [OF getMissing_ends [OF h2 r]], clarify, rule ends_in_if)
      fix ms h3 assume h3: "para_inv mv w h3" and ms: "among (seqNumber r) ms"
      show "ends_in ?K (bindE (initiateVerifyPara C just h3) (\<lambda>h. Inr ((True, ms), h)))"
        by (rule ends_in_seq [OF initiateVerifyPara_ends [OF h3]]) simp
      show "ends_in ?K (recover_loop C just v bs ms h3)" if "ms \<noteq> []"
        by (rule Cons.IH [OF h3 ms that])
    qed
  qed
  show ?case
    unfolding recover_loop.simps Let_def g(1)
    by (rule ends_in_seq [OF pblocks_get_ends [OF g(2)]]) (auto intro!: fill Cons.IH Cons.prems)
qed simp

lemma handleRecoverPara_ends:
  assumes inv: "para_inv mv w h" and m: "rp_legal (rc_rdata msg)"
  shows "ends_in (para_inv mv w) (handleRecoverPara C msg h)"
proof -
  define just where "just = JustPara_signs (rc_rdata msg) (rc_signs msg)"
  have r: "getRDataPara just = Inr (rc_rdata msg)" "seqNumber (rc_rdata msg) \<noteq> - 1"
    using m by (simp_all add: just_def JustPara_signs_def getRDataPara_def rp_legal_def)
  let ?v = "justv (rc_rdata msg)"
  have finish: "ends_in (para_inv mv w) (if returned then Inr g
      else
        (let n = fst (map_at 0 (h_recoverResponses g) ?v) + 1;
             h = g\<lparr>h_recoverResponses := map_set ?v n (h_recoverResponses g)\<rparr>
         in if n \<ge> h_qsize h then
              bindE (first_missing missing (Suc (unat (seqNumber (rc_rdata msg)))) 1) (\<lambda>i.
                if i - 1 > 0 then initiateVerifyPara C just h
                else
                  bindE (getRDataPara (h_verifiedJust h)) (\<lambda>rv.
                    if propv rv = h_view h - 1 then
                      (let newRData = RDataPara_new Hash_default (h_view h) (justh rv) (justv rv) (phase rv) (seqNumber rv);
                           newJust = JustPara_signs newRData (j_signs (h_verifiedJust h))
                       in preparePara C newJust
                            (sendMsg (Net_VerifyPara \<lparr>vf_rdata = newRData, vf_signs = j_signs (h_verifiedJust h),
                               vf_hashes = []\<rparr>) (remove_from_peers h (h_myid h)) h))
                    else Inr h))
            else Inr h))"
    if g: "para_inv mv w g" and ms: "\<not> returned \<longrightarrow> among (seqNumber (rc_rdata msg)) missing \<and> missing \<noteq> []" for returned missing g
    unfolding Let_def
    using g ms first_missing_ends [OF _ _ r(2), of missing]
    by (intro ends_in_if ends_in_bind initiateVerifyPara_ends preparePara_ends) (simp_all del: first_missing.simps)
  have answer: "ends_in (para_inv mv w) (let h = (case map_find (h_recoverResponses g) ?v of
          None \<Rightarrow> g\<lparr>h_recoverResponses := map_set ?v 1 (h_recoverResponses g)\<rparr> | Some _ \<Rightarrow> g)
      in bindE (verifyJustPara C h just) (\<lambda>verified.
         bindE (if verified then recover_loop C just ?v (rc_blocks msg) missing h else Inr ((False, missing), h)) (\<lambda>((returned, missing), h).
           if returned then Inr h
           else
             (let n = fst (map_at 0 (h_recoverResponses h) ?v) + 1;
                  h = h\<lparr>h_recoverResponses := map_set ?v n (h_recoverResponses h)\<rparr>
              in if n \<ge> h_qsize h then
                   bindE (first_missing missing (Suc (unat (seqNumber (rc_rdata msg)))) 1) (\<lambda>i.
                     if i - 1 > 0 then initiateVerifyPara C just h
                     else
                       bindE (getRDataPara (h_verifiedJust h)) (\<lambda>rv.
                         if propv rv = h_view h - 1 then
                           (let newRData = RDataPara_new Hash_default (h_view h) (justh rv) (justv rv) (phase rv) (seqNumber rv);
                                newJust = JustPara_signs newRData (j_signs (h_verifiedJust h))
                            in preparePara C newJust
                                 (sendMsg (Net_VerifyPara \<lparr>vf_rdata = newRData, vf_signs = j_signs (h_verifiedJust h),
                                    vf_hashes = []\<rparr>) (remove_from_peers h (h_myid h)) h))
                         else Inr h))
                 else Inr h))))"
    if g: "para_inv mv w g" and ms: "among (seqNumber (rc_rdata msg)) missing" "missing \<noteq> []" for g missing
  proof -
    obtain g2 where g2: "(case map_find (h_recoverResponses g) ?v of
        None \<Rightarrow> g\<lparr>h_recoverResponses := map_set ?v 1 (h_recoverResponses g)\<rparr> | Some _ \<Rightarrow> g) = g2" "para_inv mv w g2"
      using g by (auto split: option.split)
    have loop: "ends_in (\<lambda>((returned, missing), h'). para_inv mv w h' \<and> (\<not> returned \<longrightarrow> among (seqNumber (rc_rdata msg)) missing \<and> missing \<noteq> []))
        (if b then recover_loop C just ?v (rc_blocks msg) missing g2 else Inr ((False, missing), g2))" for b
      using recover_loop_ends [OF r g2(2) ms] g2(2) ms by simp
    show ?thesis
      unfolding Let_def g2(1)
      apply (rule ends_in_bind [OF verifyJust_not_Diverges(2)], rule ends_in_seq [OF loop])
      using finish [unfolded Let_def] by auto
  qed
  show ?thesis
    unfolding handleRecoverPara_def
    apply (rule ends_in_if, simp add: inv, rule ends_in_if, simp add: inv)
    apply (subst Let_def, subst Let_def)
    unfolding just_def [symmetric]
    by (drule notnotD, rule ends_in_seq [OF getMissing_ends [OF inv r]], clarify, rule ends_in_if)
      (simp, rule answer)
qed

end
