(* ===== verification/ParallelRuns.thy ===== *)
theory ParallelRuns
  imports ParallelFacts
begin

text \<open>
  Runs of a node of the parallel protocol: the recursion from the execution of the last block
  of a view to the next view and back ends, and the node is an event machine for the legal events.
  The inner calls of \<open>startNewView\<close> are a parameter of the locale \<open>later_starts\<close>, under the contract
  that they end and keep the invariant.
\<close>

section \<open>Under the contract of the inner view change\<close>

locale later_starts =
  fixes snv :: "Handler \<Rightarrow> Handler res" and mv :: u32 and w :: View
  assumes snv_ends: "para_inv mv w h \<Longrightarrow> \<not> timeToStop h \<Longrightarrow> ends_in (para_inv mv w) (snv h)"
begin

lemma executeRDataPara_ends:
  assumes "para_inv mv w h"
  shows "ends_in (para_inv mv w) (executeRDataPara C snv rdata h)"
  unfolding executeRDataPara_def Let_def
proof (rule ends_in_seq [OF replyHashPara_ends [OF assms]])
  fix g assume g: "para_inv mv w g"
  have stop: "timeToStop (g\<lparr>h_lastExecutedSeq := sq, h_viewsWithoutNewTrans := x\<rparr>) = timeToStop g"
    "timeToStop (g\<lparr>h_lastExecutedSeq := sq\<rparr>) = timeToStop g" for sq x by (simp_all add: timeToStop_def)
  show "ends_in (para_inv mv w) (if timeToStop (g\<lparr>h_lastExecutedSeq := seqNumber rdata\<rparr>) \<and>
      seqNumber rdata = h_maxBlocksInView (g\<lparr>h_lastExecutedSeq := seqNumber rdata\<rparr>)
    then Inr (emit [StopPeers, StopClients, TimerDel] (recordStats (g\<lparr>h_lastExecutedSeq := seqNumber rdata\<rparr>)))
    else if seqNumber rdata = h_maxBlocksInView (g\<lparr>h_lastExecutedSeq := seqNumber rdata\<rparr>)
    then snv (g\<lparr>h_lastExecutedSeq := seqNumber rdata,
      h_viewsWithoutNewTrans := (if h_transactions (g\<lparr>h_lastExecutedSeq := seqNumber rdata\<rparr>) = []
        then h_viewsWithoutNewTrans (g\<lparr>h_lastExecutedSeq := seqNumber rdata\<rparr>) + 1 else 0)\<rparr>)
    else Inr (g\<lparr>h_lastExecutedSeq := seqNumber rdata\<rparr>))"
    unfolding stop by (intro ends_in_if snv_ends) (use g stop in auto)
qed

lemma execute_loop_ends: "para_inv mv w h \<Longrightarrow> ends_in (para_inv mv w) (execute_loop C snv v is prev ph h)"
proof (induction "is" arbitrary: prev ph h)
  case (Cons i k)
  show ?case
    unfolding execute_loop.simps
  proof (rule ends_in_seq [OF pblocks_get_ends [OF Cons.prems]], clarify, rule ends_in_if)
    fix b :: PBlock and g assume g: "para_inv mv w g"
    then show "ends_in (para_inv mv w) (Inr g)" by simp
    show "ends_in (para_inv mv w) (bindE (if pblock_isBlock b then bindE (pblock_hash C b) (\<lambda>hb. Inr (hb, True)) else Inr (ph, False))
           (\<lambda>(prevHash, prevExists).
         let rdata = m_rdata (getCommitForSeq v (word_of_int (i + 1)) (h_log g)) in
         bindE (if seqNumber rdata = word_of_int (i + 1) then executeRDataPara C snv rdata g else Inr g)
           (execute_loop C snv v k prevExists prevHash)))"
      unfolding Let_def
    proof (rule ends_in_bind_pair)
      show "(if pblock_isBlock b then bindE (pblock_hash C b) (\<lambda>hb. Inr (hb, True)) else Inr (ph, False)) \<noteq> Inl Diverges"
        by (simp add: bindE_Inl_iff)
      fix x y
      have "ends_in (para_inv mv w) (if seqNumber (m_rdata (getCommitForSeq v (word_of_int (i + 1)) (h_log g))) = word_of_int (i + 1)
          then executeRDataPara C snv (m_rdata (getCommitForSeq v (word_of_int (i + 1)) (h_log g))) g else Inr g)"
        using executeRDataPara_ends [OF g] g by simp
      then show "ends_in (para_inv mv w) (bindE
          (if seqNumber (m_rdata (getCommitForSeq v (word_of_int (i + 1)) (h_log g))) = word_of_int (i + 1)
           then executeRDataPara C snv (m_rdata (getCommitForSeq v (word_of_int (i + 1)) (h_log g))) g else Inr g)
          (execute_loop C snv v k y x))"
        by (rule ends_in_seq) (rule Cons.IH)
    qed
  qed
qed simp

lemma executeBlocksFrom_ends:
  assumes inv: "para_inv mv w h"
  shows "ends_in (para_inv mv w) (executeBlocksFrom C snv v startSeq endSeq h)"
  unfolding executeBlocksFrom_def Let_def
proof (rule ends_in_if)
  have g: "para_inv mv w (snd (pblocks_at v h))" using inv by simp
  have "ends_in (\<lambda>((prevExists, prevHash), h'). para_inv mv w h') (if startSeq > 1 then
      bindE (pblocks_get v (vec_index (startSeq - 2)) (snd (pblocks_at v h))) (\<lambda>(b, h).
        if pblock_isBlock b then bindE (pblock_hash C b) (\<lambda>hb. Inr ((True, hb), h))
        else Inr ((startSeq = 1, Hash_default), h))
    else Inr ((startSeq = 1, Hash_default), snd (pblocks_at v h)))"
    by (intro ends_in_if ends_in_seq [OF pblocks_get_ends [OF g]]) (auto simp: inv intro!: ends_in_bind)
  then show "ends_in (para_inv mv w) (bindE (if startSeq > 1 then
      bindE (pblocks_get v (vec_index (startSeq - 2)) (snd (pblocks_at v h))) (\<lambda>(b, h).
        if pblock_isBlock b then bindE (pblock_hash C b) (\<lambda>hb. Inr ((True, hb), h))
        else Inr ((startSeq = 1, Hash_default), h))
    else Inr ((startSeq = 1, Hash_default), snd (pblocks_at v h))) (\<lambda>((prevExists, prevHash), h).
      execute_loop C snv v [startSeq - 1 .. endSeq - 1] prevExists prevHash h))"
    by (rule ends_in_seq) (auto intro: execute_loop_ends)
qed (simp add: inv)

lemma executeReady_ends: "para_inv mv w h \<Longrightarrow> ends_in (para_inv mv w) (executeReady C snv sq h)"
  unfolding executeReady_def Let_def by (intro ends_in_if executeBlocksFrom_ends) simp_all

lemma initiateCommitPara_ends: "para_inv mv w h \<Longrightarrow> ends_in (para_inv mv w) (initiateCommitPara C snv rdata h)"
  unfolding initiateCommitPara_def by (intro ends_in_bind ends_in_if executeReady_ends) simp_all


lemma earlier_seq_ends:
  assumes inv: "para_inv mv w h" and sq: "sq \<noteq> - 1"
  shows "ends_in (para_inv mv w) (earlier_seq C snv sq h)"
proof -
  have l: "para_log_ok (h_log h)" using inv by (simp add: para_inv_def)
  show ?thesis
    unfolding earlier_seq_def Let_def
    by (intro ends_in_bind [OF gets_not_Diverge(8)] ends_in_bind [OF gets_not_Diverge(7)] ends_in_bind [OF gets_not_Diverge(9)]
        ends_in_if ends_in_seq [OF respondToPreCommitJustPara_ends [OF inv]] executeReady_ends respondToPrepareJustPara_ends
        handleLdrPreparePara_ends first_seq_legal l sq inv)
      (simp_all add: inv)
qed

lemma earlier_loop_ends:
  "para_inv mv w h \<Longrightarrow> - 1 \<notin> set sqs \<Longrightarrow> ends_in (para_inv mv w) (earlier_loop C snv sqs h)"
  by (induction sqs arbitrary: h) (auto intro!: ends_in_seq [OF earlier_seq_ends])

lemma handleEarlierMessagesPara_ends:
  assumes inv: "para_inv mv w h"
  shows "ends_in (para_inv mv w) (handleEarlierMessagesPara_body C hv snv h)"
proof -
  note p = para_inv_parts [OF inv]
  have mb: "unat (h_maxBlocksInView h) + 1 < 2 ^ 32"
    using inv by (intro not_last_word) (simp add: para_inv_def)
  have all: "- 1 \<notin> set (map word_of_nat [1..<Suc (unat (h_maxBlocksInView h))] :: u32 list)"
  proof
    assume "- 1 \<in> set (map word_of_nat [1..<Suc (unat (h_maxBlocksInView h))] :: u32 list)"
    then obtain k where "(- 1 :: u32) = word_of_nat k" "k < Suc (unat (h_maxBlocksInView h))" by auto
    then have "(word_of_nat (Suc k) :: u32) = 0" "Suc k < 2 ^ 32"
      using mb by (simp_all flip: \<open>- 1 = word_of_nat k\<close>)
    then show False using unat_of_nat_u32 [of "Suc k"] by simp
  qed
  have empty: "verify_isEmpty (getVerifyPara v (h_log h))" for v
    using p by (simp add: para_log_ok_def getVerifyPara_def verify_isEmpty_def MsgVerifyPara_default_def)
  obtain r where r: "getRDataPara (findHighestNvPara (h_view h) (h_log h)) = Inr r" "seqNumber r \<noteq> - 1"
    using findHighestNvPara_seq p by blast
  have ldr: "ends_in (para_inv mv w) (bindE (getMissingSeqNumbersForJust (findHighestNvPara (h_view h) (h_log h)) h) (\<lambda>(missing, h).
      if missing = [] \<or> h_view h = 0 then initiateVerifyPara C (findHighestNvPara v l) h
      else initiateRecoverPara missing (findHighestNvPara v l) h))" for v l
    by (rule ends_in_seq [OF getMissing_ends [OF inv r]]) (auto intro: initiateVerifyPara_ends initiateRecoverPara_ends)
  show ?thesis
    unfolding handleEarlierMessagesPara_body_def Let_def
    by (intro ends_in_if ends_in_bind [OF gets_not_Diverge(6)] ends_in_bind [OF getRData_not_Diverges(2)] ldr earlier_loop_ends [OF inv all])
      (simp_all add: empty inv)
qed

lemma handleCommitPara_ends:
  assumes inv: "para_inv mv w h"
  shows "ends_in (para_inv mv w) (handleCommitPara C snv msg h)"
proof -
  have com: "ends_in (para_inv mv w) (bindE (storeComPara msg (h_log h)) (\<lambda>(l, n). f l n))"
    if "\<And>l n. para_inv mv w (h\<lparr>h_log := l\<rparr>) \<Longrightarrow> ends_in (para_inv mv w) (f l n)" for f
    using storeOther_ok(1) para_inv_parts [OF inv] by (intro ends_in_bind_pair) (auto simp: inv intro!: that)
  show ?thesis
    unfolding handleCommitPara_def Let_def
    by (intro ends_in_if com ends_in_bind [OF verifyJust_not_Diverges(2)] initiateCommitPara_ends executeReady_ends) (simp_all add: inv)
qed

end

section \<open>The view change\<close>

lemma startNewViewPara_ends:
  assumes inv: "para_inv mv w h" and go: "\<not> timeToStop h"
    and hem: "\<And>g. para_inv mv (h_view h + 1) g \<Longrightarrow> ends_in (para_inv mv (h_view h + 1)) (hem g)"
  shows "ends_in (para_inv mv (h_view h + 1)) (startNewViewPara_body C hem h)"
proof -
  let ?v = "h_view h + 1"
  have "?v < mv" using inv go by (auto simp: para_inv_def timeToStop_def)
  then have v: "h_view h \<noteq> - 1" "?v \<noteq> - 1"
    using inv word_order.extremum_strict [of mv] unfolding para_inv_def by metis+
  obtain j h1 where c: "callTEEsignPara C h = (j, h1)" by fastforce
  from signUntilViewPara_ends [OF v(1) inv c sign_fuel_para]
  obtain j' t r where s: "signUntilViewPara C (h_view h) (2 * (unat (h_view h) + 2)) j h1 = Inr (j', h\<lparr>h_tpara := t\<rparr>)"
    and t: "tq_live t" and r: "getRDataPara j' = Inr r" "seqNumber r \<noteq> - 1" by blast
  have g: "para_inv mv ?v (changeView ?v (h\<lparr>h_tpara := t\<rparr>))"
    by (rule changeView_inv [where w = w]) (use inv t v(2) in simp_all)
  have legal: "rp_legal (m_rdata (Msg_new r ss))" if "propv r = ?v" for ss
    using r(2) v(2) that by (simp add: rp_legal_def Msg_new_def)
  have sent: "para_inv mv ?v (sendMsg m ps (changeView ?v (h\<lparr>h_tpara := t\<rparr>)))" for m ps
    by (rule para_inv_frame [OF g]) simp_all
  have "ends_in (para_inv mv ?v) (if propv r = h_view (changeView ?v (h\<lparr>h_tpara := t\<rparr>)) \<and> phase r = PH1_NEWVIEW
      then if amCurrentLeader (changeView ?v (h\<lparr>h_tpara := t\<rparr>))
        then bindE (hem (changeView ?v (h\<lparr>h_tpara := t\<rparr>))) (handleNewViewPara C (Msg_new r (j_signs j')))
        else hem (sendMsg (Net_NewViewPara (Msg_new r (j_signs j')))
          (keep_from_peers (changeView ?v (h\<lparr>h_tpara := t\<rparr>)) (getCurrentLeader (changeView ?v (h\<lparr>h_tpara := t\<rparr>)))) (changeView ?v (h\<lparr>h_tpara := t\<rparr>)))
      else Inr (changeView ?v (h\<lparr>h_tpara := t\<rparr>)))"
    by (intro ends_in_if ends_in_seq [OF hem [OF g]] hem [OF sent]) (use g legal in \<open>auto intro: handleNewViewPara_ends\<close>)
  moreover have "h_view h1 = h_view h" using callTEEsignPara_inv(3) [OF inv c] by auto
  ultimately show ?thesis
    using s by (auto simp: startNewViewPara_body_def c r(1) Let_def simp del: send_simps signUntilViewPara.simps split: if_splits)
qed

lemma view_grows:
  assumes "para_inv mv w h" and "\<not> timeToStop h"
  shows "unat (h_view h + 1) = Suc (unat (h_view h))" "h_view h < h_view h + 1" "w \<le> h_view h + 1"
proof -
  show u: "unat (h_view h + 1) = Suc (unat (h_view h))"
    using assms not_last_word [of "h_view h"] by (intro unat_Suc_u32) (simp add: para_inv_def)
  then show less: "h_view h < h_view h + 1" by (simp add: word_less_nat_alt)
  show "w \<le> h_view h + 1" using assms(1) less by (auto simp: para_inv_def)
qed

text \<open>Every further view change starts from a later view.\<close>

lemma earlierPara_fuel_ends:
  "2 ^ 32 \<le> unat w + n \<Longrightarrow> para_inv mv w h \<Longrightarrow> ends_in (para_inv mv w) (earlierPara_fuel C n h)"
proof (induction n arbitrary: w h)
  case 0
  then show ?case by (metis add.right_neutral leD unat_u32_less)
next
  case (Suc n)
  have "later_starts (startNewViewPara_body C (earlierPara_fuel C n)) mv w"
  proof
    fix g assume g: "para_inv mv w g" and go: "\<not> timeToStop g"
    have "2 ^ 32 \<le> unat (h_view g + 1) + n"
      using Suc.prems(1) g view_grows(1) [OF g go] by (simp add: para_inv_def word_le_nat_alt)
    then have "ends_in (para_inv mv (h_view g + 1)) (startNewViewPara_body C (earlierPara_fuel C n) g)"
      by (intro startNewViewPara_ends [OF g go] Suc.IH)
    then show "ends_in (para_inv mv w) (startNewViewPara_body C (earlierPara_fuel C n) g)"
      by (rule ends_in_mono) (erule para_inv_mono [OF _ view_grows(3) [OF g go]])
  qed
  then show ?case using Suc.prems(2) by (simp add: later_starts.handleEarlierMessagesPara_ends)
qed

lemma hem_ends: "para_inv mv w h \<Longrightarrow> ends_in (para_inv mv w) (handleEarlierMessagesPara C h)"
  unfolding handleEarlierMessagesPara_def by (rule earlierPara_fuel_ends) (simp_all add: para_fuel_def)

lemma snv_later:
  assumes "para_inv mv w h" and "\<not> timeToStop h"
  shows "ends_in (para_inv mv (h_view h + 1)) (startNewViewPara C h)"
  unfolding startNewViewPara_def by (rule startNewViewPara_ends [OF assms]) (rule hem_ends)

interpretation starts: later_starts "startNewViewPara C" mv w for C mv w
proof
  fix h assume h: "para_inv mv w h" "\<not> timeToStop h"
  show "ends_in (para_inv mv w) (startNewViewPara C h)"
    by (rule ends_in_mono [OF snv_later [OF h]]) (erule para_inv_mono [OF _ view_grows(3) [OF h]])
qed

section \<open>The other handlers\<close>

lemma recover_answer_ends: "para_inv mv w h \<Longrightarrow> ends_in (\<lambda>(bs, h'). para_inv mv w h') (recover_answer v sqs bs h)"
  by (induction sqs arbitrary: bs h) (auto intro!: ends_in_seq [OF pblocks_get_ends])

lemma handleLdrRecoverPara_ends:
  assumes inv: "para_inv mv w h"
  shows "ends_in (para_inv mv w) (handleLdrRecoverPara msg h)"
proof -
  let ?v = "justv (lr_rdata msg)"
  obtain bs g where p: "(if unat ?v < length (h_pblocks h) then pblocks_at ?v h else ([], h)) = (bs, g)" by fastforce
  have g: "para_inv mv w g" using pblocks_at_keeps inv p by (auto split: if_splits)
  have "ends_in (\<lambda>(bs, h'). para_inv mv w h') (if bs \<noteq> [] then recover_answer ?v (lr_missing msg) [] g else Inr ([], g))"
    using recover_answer_ends [OF g] g by simp
  then show ?thesis
    unfolding handleLdrRecoverPara_def Let_def p prod.case
    by (intro ends_in_if) (auto simp: inv intro: ends_in_seq)
qed

lemma hashes_match_ends [simp]: "hashes_match C bs hs \<noteq> Inl Diverges"
  by (induction C bs hs rule: hashes_match.induct) (auto simp: bindE_Inl_iff)

lemma callTEEVerifyPara_ends [simp]: "callTEEVerifyPara C j hs b h \<noteq> Inl Diverges"
  by (auto simp: callTEEVerifyPara_def tq_TEEverifyLeaderQC_def tq_TEEverify_def bindE_Inl_iff Let_def split: if_splits)

lemma handleVerifyPara_ends:
  assumes inv: "para_inv mv w h" and m: "rp_legal (vf_rdata msg)"
  shows "ends_in (para_inv mv w) (handleVerifyPara C msg h)"
proof -
  let ?v = "propv (vf_rdata msg)"
  have accept: "ends_in (para_inv mv w) (bindE (callTEEVerifyPara C j hs b g) (\<lambda>js.
      if j_set js then handleEarlierMessagesPara C (g\<lparr>h_verifiedJust := js\<rparr>) else Inr g))" if "para_inv mv w g" for j hs b g
    using that by (intro ends_in_bind ends_in_if hem_ends) simp_all
  have go: "ends_in (para_inv mv w) (bindE (getRDataPara (h_verifiedJust g)) (\<lambda>rv.
      if justv (vf_rdata msg) > propv rv then
        (let (blocks, h) = pblocks_at (justv (vf_rdata msg)) g in
         bindE (if length blocks \<ge> length (vf_hashes msg) then hashes_match C blocks (vf_hashes msg) else Inr False) (\<lambda>hashesMatch.
           if hashesMatch then
             bindE (callTEEVerifyPara C (JustPara_signs (vf_rdata msg) (vf_signs msg)) (vf_hashes msg) True h) (\<lambda>js.
               if j_set js then handleEarlierMessagesPara C (h\<lparr>h_verifiedJust := js\<rparr>) else Inr h)
           else Inr h))
      else bindE (callTEEVerifyPara C (JustPara_signs (vf_rdata msg) (vf_signs msg)) (vf_hashes msg) False g) (\<lambda>js.
        if j_set js then handleEarlierMessagesPara C (g\<lparr>h_verifiedJust := js\<rparr>) else Inr g)))"
    if g: "para_inv mv w g" for g
  proof -
    obtain bs g' where p: "pblocks_at (justv (vf_rdata msg)) g = (bs, g')" by fastforce
    with g have g': "para_inv mv w g'" by (simp add: pblocks_at_keeps)
    show ?thesis
      unfolding p Let_def prod.case
      by (intro ends_in_bind [OF getRData_not_Diverges(2)] ends_in_if accept ends_in_bind [where f = "\<lambda>m. if m then _ m else _ m"])
        (simp_all add: g g')
  qed
  have view: "para_inv mv w (if ?v > h_view h then changeView ?v h else h)" "\<not> ?v < h_view h \<Longrightarrow> h_view (if ?v > h_view h then changeView ?v h else h) = ?v"
    using inv m by (auto simp: rp_legal_def para_inv_def)
  show ?thesis
    unfolding handleVerifyPara_def handleVerifyPara_body_def
    apply (rule ends_in_if, simp add: inv, subst Let_def, subst Let_def, rule ends_in_if)
     apply (subst Let_def, rule ends_in_if)
      apply (rule go [OF view(1)])
    using view inv by auto
qed

text \<open>A stored vote: the log stays sound and the view is kept.\<close>

lemma handlePreparePara_ends:
  assumes inv: "para_inv mv w h" and m: "rp_legal (m_rdata msg)"
  shows "ends_in (para_inv mv w) (handlePreparePara C msg h)"
proof -
  have st: "ends_in (para_inv mv w) (bindE (storePrepPara msg (h_log h)) (\<lambda>(l, n). f l n))"
    if "\<And>l n. para_inv mv w (h\<lparr>h_log := l\<rparr>) \<Longrightarrow> ends_in (para_inv mv w) (f l n)" for f
    using storePrepPara_ok para_inv_parts [OF inv] by (intro ends_in_bind_pair) (auto simp: inv intro!: that)
  show ?thesis
    unfolding handlePreparePara_def Let_def
    by (intro ends_in_if st initiatePreparePara_ends respondToPrepareJustPara_ends)
      (use m in \<open>simp_all add: inv rp_legal_def\<close>)
qed

lemma handlePrecommitPara_ends:
  assumes inv: "para_inv mv w h" and m: "rp_legal (m_rdata msg)"
  shows "ends_in (para_inv mv w) (handlePrecommitPara C msg h)"
proof -
  have st: "ends_in (para_inv mv w) (bindE (storePcPara msg (h_log h)) (\<lambda>(l, n). f l n))"
    if "\<And>l n. para_inv mv w (h\<lparr>h_log := l\<rparr>) \<Longrightarrow> ends_in (para_inv mv w) (f l n)" for f
    using storePcPara_ok para_inv_parts [OF inv] by (intro ends_in_bind_pair) (auto simp: inv intro!: that)
  show ?thesis
    unfolding handlePrecommitPara_def Let_def
    by (intro ends_in_if st initiatePrecommitPara_ends respondToPreCommitJustPara_ends)
      (use m in \<open>simp_all add: inv rp_legal_def\<close>)
qed

section \<open>The node as a machine\<close>

lemma para_inv_emit: "para_inv mv w h \<Longrightarrow> para_inv mv w (emit es h)"
  by simp

lemma drain_replies_para:
  "h_tpara (drain_replies ok q h) = h_tpara h \<and> h_maxBlocksInView (drain_replies ok q h) = h_maxBlocksInView h"
  by (induction ok q h rule: drain_replies.induct) (auto split: option.splits prod.splits)

lemma on_timer_para_ends:
  assumes inv: "para_inv mv w h"
  shows "ends_in (\<lambda>h'. para_inv mv w h' \<and> (\<not> timeToStop h \<and> \<not> h_isPaused h \<longrightarrow> h_view h < h_view h')) (on_timer (startNewViewPara C) h)"
proof -
  have "ends_in (\<lambda>h'. para_inv mv w h' \<and> h_view h < h_view h') (bindE (startNewViewPara C h) (\<lambda>h. Inr (emit [TimerDel, TimerAdd] h)))"
    if go: "\<not> timeToStop h"
  proof (rule ends_in_seq [OF snv_later [OF inv go]])
    fix g assume g: "para_inv mv (h_view h + 1) g"
    then have "h_view h < h_view g" using view_grows(2) [OF inv go] by (auto simp: para_inv_def)
    then show "ends_in (\<lambda>h'. para_inv mv w h' \<and> h_view h < h_view h') (Inr (emit [TimerDel, TimerAdd] g))"
      using para_inv_mono [OF g view_grows(3) [OF inv go]] by simp
  qed
  then show ?thesis using inv by (auto simp: on_timer_def ends_in_def recordStats_def)
qed

lemma para_step_ends:
  assumes inv: "para_inv mv w h" and e: "para_legal ev"
  shows "ends_in (para_inv mv w) (para_step C send_ok ev h)"
proof (cases ev)
  case (P_transaction m)
  from handleTransaction_frame [of m h] obtain cs ts where "handleTransaction m h = h\<lparr>h_clients := cs, h_transactions := ts\<rparr>" by blast
  with P_transaction inv show ?thesis by (simp add: handle_transaction_def)
next
  case P_timer
  with on_timer_para_ends [OF inv, of C] show ?thesis by (auto elim: ends_in_mono)
next
  case (P_signal s)
  have "para_inv mv w (signalHandler s h)" by (rule para_inv_frame [OF inv]) (simp_all add: signalHandler_def)
  with P_signal show ?thesis by simp
next
  case P_replies
  have "para_inv mv w (process_rep_queue send_ok h)"
    by (rule para_inv_frame [OF inv]) (simp_all add: process_rep_queue_def drain_replies_frame drain_replies_para)
  with P_replies show ?thesis by simp
qed (use e inv in \<open>simp_all add: handle_newview_para_def handle_ldrprepare_para_def handle_recover_para_def handle_ldrrecover_para_def
    handle_verify_para_def handle_prepare_para_def handle_precommit_para_def handle_commit_para_def
    handleNewViewPara_ends handleLdrPreparePara_ends handleRecoverPara_ends handleLdrRecoverPara_ends handleVerifyPara_ends
    handlePreparePara_ends handlePrecommitPara_ends starts.handleCommitPara_ends\<close>)

interpretation parallel: event_machine "para_step C send_ok" para_legal "para_inv mv 0" h_view for C send_ok mv
proof
  fix h e h' assume inv: "para_inv mv 0 h" and l: "para_legal e"
  from para_step_ends [OF inv l, of C send_ok] show "para_step C send_ok e h \<noteq> Inl Diverges"
    by (simp add: ends_in_def)
  assume st: "para_step C send_ok e h = Inr h'"
  from para_step_ends [OF inv l, of C send_ok] st show "para_inv mv 0 h'" by (simp add: ends_in_def)
  from para_step_ends [OF para_inv_self [OF inv] l, of C send_ok] st show "h_view h \<le> h_view h'"
    by (simp add: ends_in_def para_inv_def)
qed

text \<open>
  The states of a node: constructed, then any legal events and any \<open>MsgStart\<close> of clients. The
  first \<open>MsgStart\<close> may come after other messages, unless these have moved the trusted component to
  the last view; later ones only register the client.
\<close>

inductive para_reach :: "crypto \<Rightarrow> (conn \<Rightarrow> bool) \<Rightarrow> Handler \<Rightarrow> Handler \<Rightarrow> bool" for C send_ok h0 where
  constructed: "para_reach C send_ok h0 h0"
| started: "para_reach C send_ok h0 h \<Longrightarrow> h_started h \<or> tq_view (h_tpara h) \<noteq> - 1 \<Longrightarrow>
    handle_start (getStartedPara C) msg c h = Inr h' \<Longrightarrow> para_reach C send_ok h0 h'"
| event: "para_reach C send_ok h0 h \<Longrightarrow> para_legal ev \<Longrightarrow> para_step C send_ok ev h = Inr h' \<Longrightarrow> para_reach C send_ok h0 h'"

inductive_cases para_reachE: "para_reach C send_ok h0 h"

lemma Handler_new_para:
  assumes "Handler_new C i cf nf mv ns k mb fo bz = Inr h0" and "0 < mv" and "mb \<noteq> - 1"
  shows "para_inv mv 0 h0"
proof -
  have "tq_live (TrustedPara_new i k q)" for q
    by (simp add: TrustedPara_new_def tq_live_def map_ok_def)
  moreover have "para_log_ok Log_empty" by (simp add: para_log_ok_def Log_empty_def seq_find_def)
  ultimately show ?thesis using assms(2,3) by (simp add: para_inv_def Handler_new_facts [OF assms(1)])
qed

lemma getStartedPara_ends:
  assumes inv: "para_inv mv w h" and view: "tq_view (h_tpara h) \<noteq> - 1"
  shows "ends_in (para_inv mv w) (getStartedPara C h)"
proof -
  obtain j g where c: "callTEEsignPara C h = (j, g)" by fastforce
  obtain r where r: "getRDataPara j = Inr r" "seqNumber r \<noteq> - 1" "propv r = tq_view (h_tpara h)"
    using c para_inv_parts [OF inv] by (auto simp: callTEEsignPara_def tq_TEEsign_def tq_sign_def Let_def tq_live_def)
  have g: "para_inv mv w (setTimer g)" using callTEEsignPara_inv(1) [OF inv c] by (simp add: setTimer_def)
  have sent: "para_inv mv w (sendMsg m ps (setTimer g))" for m ps by (rule para_inv_frame [OF g]) simp_all
  show ?thesis
    unfolding getStartedPara_def c Let_def prod.case r(1) bindE_simps
    by (intro ends_in_if handleNewViewPara_ends g) (use r view sent in \<open>simp_all add: rp_legal_def Msg_new_def del: send_simps\<close>)
qed

lemma handle_start_para:
  assumes inv: "para_inv mv 0 h" and "h_started h \<or> tq_view (h_tpara h) \<noteq> - 1"
  shows "ends_in (para_inv mv 0) (handle_start (getStartedPara C) msg c h)"
proof -
  let ?g = "case map_find (h_clients h) (st_cid msg) of
      None \<Rightarrow> h\<lparr>h_clients := map_set (st_cid msg) (True, 0, 0, c) (h_clients h)\<rparr> | Some _ \<Rightarrow> h"
  have sel: "h_tpara ?g = h_tpara h" "h_started ?g = h_started h" by (simp_all split: option.split)
  have i: "para_inv mv 0 ?g" "para_inv mv 0 (?g\<lparr>h_started := True\<rparr>)"
    by (rule para_inv_frame [OF inv]; simp split: option.split)+
  have "ends_in (para_inv mv 0) (getStartedPara C (?g\<lparr>h_started := True\<rparr>))" if "\<not> h_started h"
    using that assms(2) sel by (intro getStartedPara_ends [OF i(2)]) simp
  with i(1) sel(2) show ?thesis unfolding handle_start_def Let_def by (auto simp: ends_in_def)
qed

lemma para_reach_inv:
  assumes "Handler_new C i cf nf mv ns k mb fo bz = Inr h0" and "0 < mv" and "mb \<noteq> - 1"
  shows "para_reach C send_ok h0 h \<Longrightarrow> para_inv mv 0 h"
proof (induction rule: para_reach.induct)
  case constructed
  show ?case by (rule Handler_new_para [OF assms])
next
  case (started h msg c h')
  with handle_start_para [of mv h C msg c] show ?case by (auto simp: ends_in_def)
next
  case (event h ev h')
  then show ?case using parallel.step_inv by blast
qed

section \<open>Properties\<close>

text \<open>
  C10. A node of the parallel protocol deals with every legal event. Take a node with a bound
  \<open>0 < maxViews\<close> on the views, a number of blocks per view other than \<open>2 ^ 32 - 1\<close>, and new-view, recovery, verification, prepare
  and pre-commit messages that name neither the last view nor the last sequence number. In
  every state that the node reaches, the next event is processed in finitely many steps: the signing loops,
  the loops over the missing blocks and the stored prefix, and the recursion from the execution of the last
  block of a view to the next view and its early messages all end. If the event does not end in
  an exception, the view has not decreased; then a timeout of a node that is not paused and
  not at its last view (\<open>timeToStop\<close>) has moved it to a later view.
\<close>

theorem para_event_processed:
  assumes "Handler_new C i cf nf mv ns k mb fo bz = Inr h0" and "0 < mv" and "mb \<noteq> - 1"
    and "para_reach C send_ok h0 h" and "para_legal ev"
  shows "para_step C send_ok ev h \<noteq> Inl Diverges \<and>
    (\<forall>h'. para_step C send_ok ev h = Inr h' \<longrightarrow> h_view h \<le> h_view h' \<and>
       (ev = P_timer \<and> \<not> timeToStop h \<and> \<not> h_isPaused h \<longrightarrow> h_view h < h_view h'))"
proof -
  have inv: "para_inv mv 0 h" by (rule para_reach_inv [OF assms(1-4)])
  from on_timer_para_ends [OF inv, of C] have "h_view h < h_view h'"
    if "on_timer (startNewViewPara C) h = Inr h'" "\<not> timeToStop h" "\<not> h_isPaused h" for h'
    using that by (auto simp: ends_in_def)
  with parallel.step_returns [OF inv assms(5)] parallel.step_view [OF inv assms(5)] show ?thesis by auto
qed

theorem para_event_processed_witness:
  "\<exists>h0 h. Handler_new crypto_yes 2 3 1 4 [] 5 10 (\<lambda>_. False) 0 = Inr h0 \<and> para_reach crypto_yes (\<lambda>_. True) h0 h \<and>
     para_step crypto_yes (\<lambda>_. True) P_timer h \<noteq> Inl Diverges"
proof -
  obtain h0 where n: "Handler_new crypto_yes 2 3 1 4 [] 5 10 (\<lambda>_. False) 0 = Inr h0" using Handler_new_total by blast
  note f = Handler_new_facts [OF n]
  obtain h where "handle_start (getStartedPara crypto_yes) demo_start 0 h0 = Inr h"
    by (simp add: handle_start_def f demo_start_def getStartedPara_def callTEEsignPara_def tq_TEEsign_def tq_sign_def Let_def
        amCurrentLeader_def getCurrentLeader_def getLeaderOf_def TrustedPara_new_def)
  then have r: "para_reach crypto_yes (\<lambda>_. True) h0 h"
    by (rule para_reach.started [OF para_reach.constructed, rotated]) (simp add: f TrustedPara_new_def)
  from para_event_processed [OF n _ _ r, of P_timer] n r show ?thesis by auto
qed

end
