(* ===== verification/ParallelOrder.thy ===== *)
theory ParallelOrder
  imports ParallelProps
begin

text \<open>
  In which order a backup of the parallel protocol may receive the commit certificates of a view. The blocks of
  a view are certified independently of each other, so their certificates arrive in any order; a
  certificate that arrives too early is stored, and \<open>findHighestSeq\<close> looks for the stored ones when another
  arrives, but only up to the number of that other one. A reference function says what is executed after any
  sequence of certificates, and the handler is shown to compute it. Then what \<open>executeReady\<close>, the common end of the
  commit handlers, executes in any state, and that a leader executes on single messages.
\<close>

section \<open>The last block of a view\<close>

text \<open>What \<open>executeRDataPara\<close> does after the last block.\<close>

definition view_end :: "(Handler \<Rightarrow> Handler res) \<Rightarrow> Handler \<Rightarrow> Handler res" where
  "view_end snv h =
     (if timeToStop h then Inr (emit [StopPeers, StopClients, TimerDel] (recordStats h))
      else snv (h\<lparr>h_viewsWithoutNewTrans := (if h_transactions h = [] then h_viewsWithoutNewTrans h + 1 else 0)\<rparr>))"

lemma executeRDataPara_last:
  assumes "view_blocks h bs" and "Suc k = unat (h_maxBlocksInView h)" and "seqNumber r = word_of_nat (Suc k)"
    and "r = m_rdata (getCommitForSeq (h_view h) (word_of_nat (Suc k)) (h_log h))"
  shows "executeRDataPara C snv r h =
    view_end snv (h\<lparr>h_rep_queue := h_rep_queue h @ seq_replies C h bs (Suc k), h_lastExecutedSeq := word_of_nat (Suc k)\<rparr>)"
proof -
  have "k < length bs" using assms(1,2) by (simp add: view_blocks_def)
  from replyHashPara_known [OF assms(1) this assms(3,4)]
  have "replyHashPara C (proph r) (seqNumber r) h = Inr (h\<lparr>h_rep_queue := h_rep_queue h @ seq_replies C h bs (Suc k)\<rparr>)" .
  moreover have "word_of_nat (Suc k) = h_maxBlocksInView h" unfolding assms(2) by simp
  ultimately show ?thesis using assms(3) by (simp add: executeRDataPara_def view_end_def timeToStop_def Let_def del: of_nat_Suc)
qed

lemma execute_loop_Nil [simp]: "execute_loop C snv v [] pe ph = Inr"
  by (rule ext) simp

lemma execute_loop_last:
  assumes "unat (h_maxBlocksInView h) = n" and "n < 2 ^ 31" and "view_blocks h bs" and "a < n"
    and "\<forall>k. a < k \<and> k \<le> n \<longrightarrow> linked C bs k \<and>
       seqNumber (m_rdata (getCommitForSeq (h_view h) (word_of_nat k) (h_log h))) = word_of_nat k"
    and "pe \<longleftrightarrow> a = 0 \<or> pblock_isBlock (bs ! (a - 1))"
    and "0 < a \<Longrightarrow> pe \<Longrightarrow> pblock_hash C (bs ! (a - 1)) = Inr ph"
  shows "execute_loop C snv (h_view h) (map int [a..<n]) pe ph h =
    view_end snv (h\<lparr>h_rep_queue := h_rep_queue h @ concat (map (seq_replies C h bs) [Suc a..<Suc n]),
      h_lastExecutedSeq := word_of_nat n\<rparr>)"
  using assms
proof (induction "n - a" arbitrary: a h pe ph)
  case (Suc d)
  let ?r = "m_rdata (getCommitForSeq (h_view h) (word_of_nat (Suc a)) (h_log h))"
  have r: "seqNumber ?r = word_of_nat (Suc a)" "linked C bs (Suc a)" using Suc.prems(4,5) by (simp_all del: of_nat_Suc)
  have up: "[a..<n] = a # [Suc a..<n]" "[Suc a..<Suc n] = Suc a # [Suc (Suc a)..<Suc n]"
    using Suc.prems(4) by (simp_all add: upt_conv_Cons)
  obtain hb where hb: "pblock_hash C (bs ! a) = Inr hb"
    and st: "execute_loop C snv (h_view h) (int a # map int [Suc a..<n]) pe ph h = bindE (executeRDataPara C snv ?r h)
         (execute_loop C snv (h_view h) (map int [Suc a..<n]) (pblock_isBlock (bs ! a)) (if pblock_isBlock (bs ! a) then hb else ph))"
    using execute_loop_step [OF _ _ Suc.prems(3,6,7) refl r(1), of snv "map int [Suc a..<n]"] Suc.prems(1,2,4) r(2) by auto
  let ?h = "h\<lparr>h_rep_queue := h_rep_queue h @ seq_replies C h bs (Suc a), h_lastExecutedSeq := word_of_nat (Suc a)\<rparr>"
  show ?case
  proof (cases "Suc a = n")
    case True
    then have "[Suc a..<n] = []" "[Suc (Suc a)..<Suc n] = []" by simp_all
    moreover have "executeRDataPara C snv ?r h = view_end snv ?h"
      by (rule executeRDataPara_last [OF Suc.prems(3) _ r(1) refl]) (use Suc.prems(1) True in simp)
    ultimately show ?thesis unfolding up list.map st using True by simp
  next
    case False
    then have lt: "Suc a < n" using Suc.prems(4) by simp
    have ex: "executeRDataPara C snv ?r h = Inr ?h"
      by (rule executeRDataPara_step [OF Suc.prems(3) _ r(1) refl]) (use Suc.prems(1) lt in simp)
    let ?ph = "if pblock_isBlock (bs ! a) then hb else ph"
    have vb: "view_blocks ?h bs" using Suc.prems(3) by (simp add: view_blocks_def)
    have "execute_loop C snv (h_view ?h) (map int [Suc a..<n]) (pblock_isBlock (bs ! a)) ?ph ?h =
      view_end snv (?h\<lparr>h_rep_queue := h_rep_queue ?h @ concat (map (seq_replies C ?h bs) [Suc (Suc a)..<Suc n]),
        h_lastExecutedSeq := word_of_nat n\<rparr>)"
      by (rule Suc.hyps(1)) (use Suc.hyps(2) Suc.prems(1,2,5) vb lt hb in simp_all)
    then show ?thesis unfolding up list.map st ex bindE_simps seq_replies_update by simp
  qed
qed simp

lemma executeReady_last:
  assumes "findHighestSeq sq h = h_maxBlocksInView h" and "h_lastExecutedSeq h < h_maxBlocksInView h"
    and "unat (h_maxBlocksInView h) < 2 ^ 31" and "view_blocks h bs" and "commits_keyed (h_log h)"
    and "\<forall>k. unat (h_lastExecutedSeq h) < k \<and> k \<le> unat (h_maxBlocksInView h) \<longrightarrow> linked C bs k"
  shows "executeReady C snv sq h =
    view_end snv (h\<lparr>h_rep_queue := h_rep_queue h @ concat (map (seq_replies C h bs)
      [Suc (unat (h_lastExecutedSeq h))..<Suc (unat (h_maxBlocksInView h))]), h_lastExecutedSeq := h_maxBlocksInView h\<rparr>)"
proof -
  let ?last = "h_lastExecutedSeq h" and ?n = "unat (h_maxBlocksInView h)"
  have lt: "?last < findHighestSeq sq h" "findHighestSeq sq h \<le> h_maxBlocksInView h" using assms(1,2) by simp_all
  from executeReady_loop [OF lt assms(3,4) refl, of C snv] obtain ph where
    l: "executeReady C snv sq h = execute_loop C snv (h_view h) (map int [unat ?last..<unat (findHighestSeq sq h)])
         (?last = 0 \<or> pblock_isBlock (bs ! (unat ?last - 1))) ph h \<and>
      (0 < unat ?last \<longrightarrow> (?last = 0 \<or> pblock_isBlock (bs ! (unat ?last - 1))) \<longrightarrow> pblock_hash C (bs ! (unat ?last - 1)) = Inr ph)" ..
  have key: "seqNumber (m_rdata (getCommitForSeq (h_view h) (word_of_nat k) (h_log h))) = word_of_nat k"
    if "unat ?last < k" "k \<le> ?n" for k
    using findHighestSeq_stored [of k sq h] that assms(1) by (intro getCommitForSeq_key [OF assms(5)]) simp
  have "execute_loop C snv (h_view h) (map int [unat ?last..<?n]) (?last = 0 \<or> pblock_isBlock (bs ! (unat ?last - 1))) ph h =
    view_end snv (h\<lparr>h_rep_queue := h_rep_queue h @ concat (map (seq_replies C h bs) [Suc (unat ?last)..<Suc ?n]),
      h_lastExecutedSeq := word_of_nat ?n\<rparr>)"
    by (rule execute_loop_last [OF refl assms(3,4)])
      (use lt assms(1,6) key l [THEN conjunct2] in \<open>simp_all add: unat_eq_zero word_less_nat_alt\<close>)
  with l [THEN conjunct1] assms(1) show ?thesis by simp
qed

text \<open>All cases together: a number beyond the view, a prefix of the view, the whole view.\<close>

lemma executeReady_all:
  assumes max: "unat (h_maxBlocksInView h) < 2 ^ 31" and vb: "view_blocks h bs" and key: "commits_keyed (h_log h)"
    and ks: "ks = takeWhile (linked C bs) [Suc (unat (h_lastExecutedSeq h))..<Suc (unat (findHighestSeq sq h))]"
    and h': "h' = h\<lparr>h_rep_queue := h_rep_queue h @ concat (map (seq_replies C h bs) ks),
      h_lastExecutedSeq := word_of_nat (unat (h_lastExecutedSeq h) + length ks)\<rparr>"
    and last: "h_lastExecutedSeq h \<le> h_maxBlocksInView h"
  shows "executeReady C snv sq h =
    (if h_maxBlocksInView h < findHighestSeq sq h then Inr h
     else if ks \<noteq> [] \<and> unat (h_lastExecutedSeq h) + length ks = unat (h_maxBlocksInView h) then view_end snv h' else Inr h')"
proof -
  let ?last = "h_lastExecutedSeq h" and ?hi = "findHighestSeq sq h" and ?max = "h_maxBlocksInView h"
  have len: "length ks \<le> unat ?hi - unat ?last"
    using length_takeWhile_le [of "linked C bs" "[Suc (unat ?last)..<Suc (unat ?hi)]"] ks by (simp del: upt_Suc)
  consider (beyond) "?max < ?hi" | (none) "?hi \<le> ?max" "?hi \<le> ?last"
    | (part) "?hi \<le> ?max" "?last < ?hi" "unat ?last + length ks < unat ?max"
    | (whole) "?hi \<le> ?max" "?last < ?hi" "unat ?max \<le> unat ?last + length ks" by fastforce
  then show ?thesis
  proof cases
    case beyond
    then have "?last < ?hi" using last by simp
    with beyond show ?thesis by (simp add: executeReady_def executeBlocksFrom_def)
  next
    case none
    then have "ks = []" using ks by (simp add: word_le_nat_alt)
    moreover have "\<not> ?last < ?hi" using none(2) by simp
    ultimately show ?thesis using none(1) h' by (simp add: executeReady_def Let_def)
  next
    case part
    with executeReady_keyed [OF _ max vb key ks, of snv] h' show ?thesis by simp
  next
    case whole
    then have u: "unat ?last < unat ?hi" "unat ?hi \<le> unat ?max" by (simp_all add: word_less_nat_alt word_le_nat_alt)
    with whole(3) len have l: "length ks = unat ?hi - unat ?last" "unat ?hi = unat ?max" by linarith+
    then have hi: "?hi = ?max" by (simp add: word_unat_eq_iff)
    have "length ks = length [Suc (unat ?last)..<Suc (unat ?hi)]" using l by (simp del: upt_Suc)
    with ks have all: "ks = [Suc (unat ?last)..<Suc (unat ?hi)]" using takeWhile_eq_take [of "linked C bs" "[Suc (unat ?last)..<Suc (unat ?hi)]"] by simp
    with ks have "\<forall>k\<in>set [Suc (unat ?last)..<Suc (unat ?hi)]. linked C bs k" by (metis takeWhile_eq_all_conv)
    then have link: "\<forall>k. unat ?last < k \<and> k \<le> unat ?max \<longrightarrow> linked C bs k" using hi by (simp del: upt_Suc)
    have "unat ?last + length ks = unat ?max" using l u by simp
    moreover from this have "word_of_nat (unat ?last + length ks) = ?max" by simp
    moreover have "ks \<noteq> []" using l u by auto
    moreover have "?last < ?max" using whole(2) hi by simp
    ultimately show ?thesis
      using executeReady_last [OF hi _ max vb key link, of snv] all hi h' by simp
  qed
qed

section \<open>The reference\<close>

text \<open>
  The largest number up to \<open>s\<close> below which the set has no gap; and what has been executed after the
  certificates of a list have arrived one after the other, the first of them with those of \<open>S\<close> stored and the
  numbers up to \<open>e\<close> executed.
\<close>

definition contiguous :: "nat set \<Rightarrow> nat \<Rightarrow> nat" where
  "contiguous S s = length (takeWhile (\<lambda>k. k \<in> S) [1..<Suc s])"

fun executed_upto :: "nat set \<Rightarrow> nat \<Rightarrow> nat list \<Rightarrow> nat" where
  "executed_upto S e [] = e"
| "executed_upto S e (s # arrivals) = executed_upto (insert s S) (max e (contiguous (insert s S) s)) arrivals"

lemma contiguous_iff: "k \<le> contiguous S s \<longleftrightarrow> k \<le> s \<and> {1..k} \<subseteq> S"
proof
  assume k: "k \<le> contiguous S s"
  let ?t = "takeWhile (\<lambda>k. k \<in> S) [1..<Suc s]"
  have len: "length ?t \<le> s" using length_takeWhile_le [of "\<lambda>k. k \<in> S" "[1..<Suc s]"] by (simp del: upt_Suc)
  have "i \<in> S" if i: "i \<in> {1..k}" for i
  proof -
    have "1 \<le> i" "i \<le> k" using i by simp_all
    moreover have "k \<le> length ?t" using k unfolding contiguous_def .
    ultimately have "i - 1 < length ?t" by linarith
    then have "?t ! (i - 1) \<in> S" using set_takeWhileD nth_mem by metis
    moreover have "?t ! (i - 1) = i" using i len \<open>i - 1 < length ?t\<close> by (subst takeWhile_nth) (simp_all add: nth_upt del: upt_Suc)
    ultimately show ?thesis by simp
  qed
  with k len show "k \<le> s \<and> {1..k} \<subseteq> S" by (auto simp: contiguous_def)
next
  assume k: "k \<le> s \<and> {1..k} \<subseteq> S"
  then have "[1..<Suc s] = [1..<Suc k] @ [Suc k..<Suc s]" using upt_add_eq_append [of 1 "Suc k" "s - k"] by simp
  moreover have "takeWhile (\<lambda>k. k \<in> S) [1..<Suc k] = [1..<Suc k]" using k by (auto simp: takeWhile_eq_all_conv simp del: upt_Suc)
  ultimately show "k \<le> contiguous S s"
    by (simp add: contiguous_def takeWhile_append2 del: upt_Suc) (simp add: takeWhile_append del: upt_Suc)
qed

lemma executed_upto_le:
  assumes "S \<union> set arrivals \<subseteq> {1..n}" and "e \<le> n"
  shows "executed_upto S e arrivals \<le> n"
  using assms
proof (induction arrivals arbitrary: S e)
  case (Cons s arrivals)
  have "contiguous (insert s S) s \<le> n" using contiguous_iff [of "contiguous (insert s S) s" "insert s S" s] Cons.prems(1) by simp
  with Cons show ?case by (simp add: insert_absorb)
qed simp

text \<open>The last number is executed exactly if its certificate arrives when all the others have.\<close>

lemma executed_last_iff:
  assumes "distinct arrivals" and "S \<inter> set arrivals = {}" and "S \<union> set arrivals \<subseteq> {1..n}" and "e < n"
  shows "executed_upto S e arrivals = n \<longleftrightarrow> arrivals \<noteq> [] \<and> last arrivals = n \<and> S \<union> set arrivals = {1..n}"
  using assms
proof (induction arrivals arbitrary: S e)
  case (Cons s arrivals)
  let ?S = "insert s S" and ?c = "contiguous (insert s S) s"
  have c: "n \<le> ?c \<longleftrightarrow> s = n \<and> ?S = {1..n}" using Cons.prems(3) by (auto simp: contiguous_iff)
  show ?case
  proof (cases "n \<le> ?c")
    case True
    with c Cons.prems(1-3) have "arrivals = []" by (cases arrivals) auto
    moreover have "?c \<le> n" using contiguous_iff [of ?c ?S s] Cons.prems(3) by auto
    ultimately show ?thesis using True c Cons.prems(4) by auto
  next
    case False
    have "executed_upto ?S (max e ?c) arrivals = n \<longleftrightarrow> arrivals \<noteq> [] \<and> last arrivals = n \<and> ?S \<union> set arrivals = {1..n}"
      by (rule Cons.IH) (use Cons.prems False in auto)
    with False c show ?thesis by auto
  qed
qed simp

section \<open>The backup\<close>

text \<open>The commit certificates of the blocks of a view; and a backup that has the blocks and no certificate.\<close>

definition commit_certs :: "crypto \<Rightarrow> Nodes \<Rightarrow> u32 \<Rightarrow> View \<Rightarrow> PBlock list \<Rightarrow> (nat \<Rightarrow> MsgCommitPara) \<Rightarrow> bool" where
  "commit_certs C ns q v bs m \<longleftrightarrow> (\<forall>k. 1 \<le> k \<and> k \<le> length bs \<longrightarrow>
     propv (m_rdata (m k)) = v \<and> phase (m_rdata (m k)) = PH1_COMMIT \<and> seqNumber (m_rdata (m k)) = word_of_nat k \<and>
     pblock_hash C (bs ! (k - 1)) = Inr (proph (m_rdata (m k))) \<and> msg_good m_signs (m k) \<and> sg_size (m_signs (m k)) = q \<and>
     signs_verify C ns (m_signs (m k)) (rdataPara_toString (m_rdata (m k))) = Inr True)"

definition stored_certs :: "View \<Rightarrow> nat \<Rightarrow> (nat \<Rightarrow> MsgCommitPara) \<Rightarrow> nat set \<Rightarrow> Log \<Rightarrow> bool" where
  "stored_certs v n m S l \<longleftrightarrow> comp_log.votes_ok l \<and> commits_keyed l \<and>
     (\<forall>k. 1 \<le> k \<and> k \<le> n \<longrightarrow> entries_of (seq_find (commitsPara l) v (word_of_nat k)) = (if k \<in> S then [m k] else []))"

definition has_blocks :: "crypto \<Rightarrow> PBlock list \<Rightarrow> Handler \<Rightarrow> bool" where
  "has_blocks C bs h \<longleftrightarrow> \<not> h_isPaused h \<and> \<not> maxViewsReached h \<and> \<not> amCurrentLeader h \<and> view_blocks h bs \<and>
     length bs < 2 ^ 31 \<and> (\<forall>b\<in>set bs. pblock_isBlock b) \<and> (\<forall>k. 1 \<le> k \<and> k \<le> length bs \<longrightarrow> linked C bs k)"

definition block_replies :: "Clients \<Rightarrow> PBlock \<Rightarrow> (TID \<times> CID) list" where
  "block_replies cs b = concat (map (reply_entry cs) (take MAX_NUM_TRANSACTIONS (p_transactions b)))"

text \<open>The backup after the execution of the first \<open>e\<close> blocks.\<close>

definition after_blocks :: "PBlock list \<Rightarrow> Log \<Rightarrow> nat \<Rightarrow> Handler \<Rightarrow> Handler" where
  "after_blocks bs l e h = h\<lparr>h_log := l, h_rep_queue := h_rep_queue h @ concat (map (block_replies (h_clients h)) (take e bs)),
     h_lastExecutedSeq := word_of_nat e\<rparr>"

lemma store_cert:
  assumes c: "commit_certs C ns q v bs m" and l: "stored_certs v (length bs) m S l" and s: "1 \<le> s" "s \<le> length bs" "s \<notin> S"
    and n: "length bs < 2 ^ 31"
  shows "\<exists>l' k. storeComPara (m s) l = Inr (l', k) \<and> stored_certs v (length bs) m (insert s S) l'"
proof -
  have m: "msg_good m_signs (m s)" "propv (m_rdata (m s)) = v" "seqNumber (m_rdata (m s)) = word_of_nat s"
    using c s by (simp_all add: commit_certs_def)
  have ok: "comp_log.votes_ok l" and key: "commits_keyed l" using l by (simp_all add: stored_certs_def)
  from comp_log.total_total [OF ok m(1)] obtain l' k where st: "storeComPara (m s) l = Inr (l', k)" by blast
  have good: "\<forall>x\<in>set (entries_of (seq_find (commitsPara l) v' sq)). msg_good m_signs x" for v' sq
    using comp_log.votes_okD(2) [OF ok, of _ "(v', sq)"] by simp
  have "entries_of (seq_find (commitsPara l') v (word_of_nat j)) = (if j \<in> insert s S then [m j] else [])" if j: "1 \<le> j" "j \<le> length bs" for j
  proof -
    have "unat (word_of_nat j :: u32) = j" "unat (word_of_nat s :: u32) = s" using j s n by (intro unat_of_nat_u32; simp)+
    then have inj: "(word_of_nat j :: u32) = word_of_nat s \<longleftrightarrow> j = s" by metis
    have "entries_of (seq_find (commitsPara l) v (word_of_nat j)) = (if j \<in> S then [m j] else [])" using l j by (simp add: stored_certs_def)
    moreover have "entries_of (seq_find (commitsPara l') v (word_of_nat j)) = (if j = s \<and> \<not> heard m_signs (entries_of (seq_find (commitsPara l) v (word_of_nat j))) (m s)
        then set_insert msg_less (m s) (entries_of (seq_find (commitsPara l) v (word_of_nat j))) else entries_of (seq_find (commitsPara l) v (word_of_nat j)))"
      using comp_log.store_entries [OF _ m(1) st, of "(v, word_of_nat j)"] good inj by (cases "j = s") (simp_all add: m(2,3))
    ultimately show ?thesis using s(3) by (cases "j = s") simp_all
  qed
  then have "stored_certs v (length bs) m (insert s S) l'"
    unfolding stored_certs_def using comp_log.store_keeps [OF ok m(1) st] storeComPara_keyed [OF key st] by blast
  with st show ?thesis by blast
qed


lemma stored_highest:
  assumes "stored_certs v (length bs) m S l" and "h_log g = l" "h_view g = v" and "s \<le> length bs" and "length bs < 2 ^ 31"
  shows "findHighestSeq (word_of_nat s) g = word_of_nat (contiguous S s)"
proof -
  have us: "unat (word_of_nat s :: u32) = s" using assms(4,5) by (intro unat_of_nat_u32) simp
  obtain k where k: "findHighestSeq (word_of_nat s) g = word_of_nat k" "k \<le> s"
    "\<forall>j. 1 \<le> j \<and> j \<le> k \<longrightarrow> hasCommitForSeq v (word_of_nat j) l" "k < s \<longrightarrow> \<not> hasCommitForSeq v (word_of_nat (Suc k)) l"
    using highestSeq_loop_spec [of 1 "unat (word_of_nat s :: u32)" "word_of_nat s" 0 l v] us assms(2,3) by (auto simp: findHighestSeq_def)
  have has: "hasCommitForSeq v (word_of_nat j) l \<longleftrightarrow> j \<in> S" if j: "1 \<le> j" "j \<le> s" for j
  proof -
    have "entries_of (seq_find (commitsPara l) v (word_of_nat j)) = (if j \<in> S then [m j] else [])"
      using assms(1,4) j by (simp add: stored_certs_def)
    then show ?thesis by (auto simp: hasCommitForSeq_def first_of_def entries_of_def split: option.splits list.splits if_splits)
  qed
  have "k = contiguous S s"
  proof (rule antisym)
    show "k \<le> contiguous S s" using k(2,3) has by (auto simp: contiguous_iff)
    show "contiguous S s \<le> k"
    proof (rule ccontr)
      assume "\<not> contiguous S s \<le> k"
      then have "Suc k \<le> s" "{1..Suc k} \<subseteq> S" using contiguous_iff [of "Suc k" S s] by simp_all
      then have "Suc k \<le> s" "Suc k \<in> S" by auto
      with k(4) has [of "Suc k"] show False by simp
    qed
  qed
  with k(1) show ?thesis by simp
qed

lemma stored_replies:
  assumes "commit_certs C ns q v bs m" and "stored_certs v (length bs) m S (h_log g)" and "h_view g = v" and "has_blocks C bs h"
    and "1 \<le> k" "k \<le> length bs" "k \<in> S"
  shows "seq_replies C g bs k = block_replies (h_clients g) (bs ! (k - 1))"
proof -
  have "entries_of (seq_find (commitsPara (h_log g)) v (word_of_nat k)) = [m k]" using assms(2,5-7) by (simp add: stored_certs_def)
  then have "getCommitForSeq v (word_of_nat k) (h_log g) = m k"
    by (auto simp: getCommitForSeq_def first_of_def entries_of_def split: option.splits list.splits)
  moreover have "pblock_hash C (bs ! (k - 1)) = Inr (proph (m_rdata (m k)))" using assms(1,5,6) by (simp add: commit_certs_def)
  moreover have "pblock_isBlock (bs ! (k - 1))" using assms(4-6) by (simp add: has_blocks_def)
  ultimately show ?thesis using assms(3) by (simp add: seq_replies_def block_replies_def)
qed

lemma take_replies:
  assumes "e \<le> c" and "c \<le> length bs"
  shows "concat (map f (take e bs)) @ concat (map (\<lambda>k. f (bs ! (k - 1))) [Suc e..<Suc c]) = concat (map f (take c bs))"
proof -
  have "map (\<lambda>k. f (bs ! (k - 1))) [Suc e..<Suc c] = map f (drop e (take c bs))"
    using assms by (intro nth_equalityI) (simp_all add: min_def del: upt_Suc)
  moreover have "take c bs = take e bs @ drop e (take c bs)"
    using assms append_take_drop_id [of e "take c bs"] by (simp add: min_def)
  ultimately show ?thesis by (metis concat_append map_append)
qed

lemma after_blocks_sel [simp]:
  "h_isPaused (after_blocks bs l e h) = h_isPaused h" "maxViewsReached (after_blocks bs l e h) = maxViewsReached h"
  "amCurrentLeader (after_blocks bs l e h) = amCurrentLeader h" "h_pblocks (after_blocks bs l e h) = h_pblocks h"
  "h_qsize (after_blocks bs l e h) = h_qsize h" "h_nodes (after_blocks bs l e h) = h_nodes h"
  "after_blocks bs l e h\<lparr>h_log := l'\<rparr> = after_blocks bs l' e h"
  "h_log (after_blocks bs l e h) = l" "h_view (after_blocks bs l e h) = h_view h"
  "h_clients (after_blocks bs l e h) = h_clients h" "h_maxBlocksInView (after_blocks bs l e h) = h_maxBlocksInView h"
  "h_lastExecutedSeq (after_blocks bs l e h) = word_of_nat e"
  "after_blocks bs l' e h\<lparr>h_rep_queue := h_rep_queue (after_blocks bs l' e h) @ q, h_lastExecutedSeq := sq\<rparr> =
     h\<lparr>h_log := l', h_rep_queue := h_rep_queue h @ concat (map (block_replies (h_clients h)) (take e bs)) @ q, h_lastExecutedSeq := sq\<rparr>"
  by (simp_all add: after_blocks_def maxViewsReached_def amCurrentLeader_def getCurrentLeader_def getLeaderOf_def)

lemma after_blocks_has [simp]:
  "view_blocks (after_blocks bs l e h) = view_blocks h" "has_blocks C bs (after_blocks bs l e h) = has_blocks C bs h"
  by (auto simp: view_blocks_def has_blocks_def fun_eq_iff)

text \<open>What \<open>executeReady\<close> does when a certificate has been stored.\<close>

lemma execute_stored:
  assumes b: "has_blocks C bs h" and c: "commit_certs C ns q (h_view h) bs m"
    and l: "stored_certs (h_view h) (length bs) m S l" and e: "{1..e} \<subseteq> S" "e < length bs" and s: "1 \<le> s" "s \<le> length bs"
  shows "executeReady C snv (word_of_nat s) (after_blocks bs l e h) =
    (if contiguous S s = length bs then view_end snv (after_blocks bs l (length bs) h)
     else Inr (after_blocks bs l (max e (contiguous S s)) h))"
proof -
  let ?g = "after_blocks bs l e h" and ?c = "contiguous S s" and ?n = "length bs"
  have n: "?n < 2 ^ 31" "unat (h_maxBlocksInView h) = ?n" "view_blocks h bs" using b by (simp_all add: has_blocks_def view_blocks_def)
  have hi: "findHighestSeq (word_of_nat s) ?g = word_of_nat ?c" by (rule stored_highest [OF l]) (use s n in simp_all)
  have cn: "?c \<le> ?n" "{1..?c} \<subseteq> S" using contiguous_iff [of ?c S s] s by simp_all
  have u: "unat (word_of_nat ?c :: u32) = ?c" "unat (word_of_nat e :: u32) = e" using cn(1) e(2) n(1) by (intro unat_of_nat_u32; simp)+
  have max: "h_maxBlocksInView h = word_of_nat ?n" unfolding n(2) [symmetric] by simp
  have link: "\<forall>k. 1 \<le> k \<and> k \<le> ?n \<longrightarrow> linked C bs k" using b by (simp add: has_blocks_def)
  have reps: "concat (map (seq_replies C ?g bs) [Suc e..<Suc ?c]) =
      concat (map (\<lambda>k. block_replies (h_clients h) (bs ! (k - 1))) [Suc e..<Suc ?c])"
  proof (intro arg_cong [of _ _ concat] map_cong refl)
    fix k assume "k \<in> set [Suc e..<Suc ?c]"
    then have "1 \<le> k" "k \<le> ?n" "k \<in> S" using cn by auto
    with stored_replies [OF c _ _ b this] l show "seq_replies C ?g bs k = block_replies (h_clients h) (bs ! (k - 1))" by simp
  qed
  have key: "commits_keyed (h_log ?g)" using l by (simp add: stored_certs_def)
  show ?thesis
  proof (cases "?c = ?n")
    case True
    have "executeReady C snv (word_of_nat s) ?g = view_end snv (?g\<lparr>h_rep_queue := h_rep_queue ?g @ concat (map (seq_replies C ?g bs)
        [Suc (unat (h_lastExecutedSeq ?g))..<Suc (unat (h_maxBlocksInView ?g))]), h_lastExecutedSeq := h_maxBlocksInView ?g\<rparr>)"
      by (rule executeReady_last) (use hi True max n link key e u in \<open>simp_all add: word_less_nat_alt\<close>)
    then show ?thesis using True reps u n(2) max take_replies [of e ?n bs "block_replies (h_clients h)"] e(2)
      by (simp add: after_blocks_def del: upt_Suc)
  next
    case False
    let ?ks = "takeWhile (linked C bs) [Suc (unat (h_lastExecutedSeq ?g))..<Suc (unat (findHighestSeq (word_of_nat s) ?g))]"
    have ks: "?ks = [Suc e..<Suc ?c]" using takeWhile_linked_all [of e ?c "linked C bs"] link cn(1) u hi by simp
    have "executeReady C snv (word_of_nat s) ?g = Inr (?g\<lparr>h_rep_queue := h_rep_queue ?g @ concat (map (seq_replies C ?g bs) ?ks),
        h_lastExecutedSeq := word_of_nat (unat (h_lastExecutedSeq ?g) + length ?ks)\<rparr>)"
    proof (rule executeReady_keyed)
      have "e + length ?ks < ?n" unfolding ks using False cn(1) e(2) by simp
      then show "findHighestSeq (word_of_nat s) ?g \<le> h_maxBlocksInView ?g \<and>
          unat (h_lastExecutedSeq ?g) + length ?ks < unat (h_maxBlocksInView ?g)"
        using hi n u cn(1) by (simp add: word_le_nat_alt del: upt_Suc)
    qed (use n key in simp_all)
    moreover have "e + (?c - e) = max e ?c" by simp
    moreover have "concat (map (block_replies (h_clients h)) (take e bs)) @ concat (map (seq_replies C ?g bs) [Suc e..<Suc ?c]) =
        concat (map (block_replies (h_clients h)) (take (max e ?c) bs))"
      unfolding reps using take_replies [of e ?c bs "block_replies (h_clients h)"] cn(1) by (cases "e \<le> ?c") (simp_all add: max_def del: upt_Suc)
    ultimately show ?thesis unfolding ks using False u by (simp add: after_blocks_def del: upt_Suc)
  qed
qed

lemma commit_step:
  assumes b: "has_blocks C bs h" and c: "commit_certs C (h_nodes h) (h_qsize h) (h_view h) bs m"
    and l: "stored_certs (h_view h) (length bs) m S l" and e: "{1..e} \<subseteq> S" "e < length bs" and s: "1 \<le> s" "s \<le> length bs" "s \<notin> S"
  shows "\<exists>l'. stored_certs (h_view h) (length bs) m (insert s S) l' \<and>
    handle_commit_para C (m s) (after_blocks bs l e h) =
      (if contiguous (insert s S) s = length bs then view_end (startNewViewPara C) (after_blocks bs l' (length bs) h)
       else Inr (after_blocks bs l' (max e (contiguous (insert s S) s)) h))"
proof -
  have n: "length bs < 2 ^ 31" using b by (simp add: has_blocks_def)
  from store_cert [OF c l s n] obtain l' k where st: "storeComPara (m s) l = Inr (l', k)"
    and l': "stored_certs (h_view h) (length bs) m (insert s S) l'" by blast
  have m: "propv (m_rdata (m s)) = h_view h" "phase (m_rdata (m s)) = PH1_COMMIT" "seqNumber (m_rdata (m s)) = word_of_nat s"
    "sg_size (m_signs (m s)) = h_qsize h" "signs_verify C (h_nodes h) (m_signs (m s)) (rdataPara_toString (m_rdata (m s))) = Inr True"
    using c s by (simp_all add: commit_certs_def)
  have h: "\<not> h_isPaused h" "\<not> maxViewsReached h" "\<not> amCurrentLeader h" using b by (simp_all add: has_blocks_def)
  have "handle_commit_para C (m s) (after_blocks bs l e h) =
      executeReady C (startNewViewPara C) (word_of_nat s) (after_blocks bs l' e h)"
    using m h st by (simp add: handle_commit_para_def handleCommitPara_def verifyJustPara_def Sverify_def)
  moreover have "{1..e} \<subseteq> insert s S" using e(1) by blast
  ultimately show ?thesis using execute_stored [OF b c l' _ e(2) s(1,2)] l' by auto
qed

lemma commits_run:
  assumes b: "has_blocks C bs h" and c: "commit_certs C (h_nodes h) (h_qsize h) (h_view h) bs m"
    and "stored_certs (h_view h) (length bs) m S l" and "{1..e} \<subseteq> S" and "e < length bs"
    and "distinct arrivals" and "S \<inter> set arrivals = {}" and "set arrivals \<subseteq> {1..length bs}" and "S \<subseteq> {1..length bs}"
  shows "\<exists>l'. stored_certs (h_view h) (length bs) m (S \<union> set arrivals) l' \<and>
    event_run (para_step C send_ok) (map (\<lambda>s. P_commit (m s)) arrivals) (after_blocks bs l e h) =
      (if executed_upto S e arrivals = length bs then view_end (startNewViewPara C) (after_blocks bs l' (length bs) h)
       else Inr (after_blocks bs l' (executed_upto S e arrivals) h))"
  using assms(3-)
proof (induction arrivals arbitrary: S l e)
  case (Cons s arrivals)
  let ?S = "insert s S" and ?c = "contiguous (insert s S) s"
  have s: "1 \<le> s" "s \<le> length bs" "s \<notin> S" using Cons.prems by auto
  from commit_step [OF b c Cons.prems(1-3) s] obtain l' where l': "stored_certs (h_view h) (length bs) m ?S l'"
    and st: "handle_commit_para C (m s) (after_blocks bs l e h) =
      (if ?c = length bs then view_end (startNewViewPara C) (after_blocks bs l' (length bs) h) else Inr (after_blocks bs l' (max e ?c) h))"
    by blast
  have c_iff: "k \<le> ?c \<longleftrightarrow> k \<le> s \<and> {1..k} \<subseteq> ?S" for k by (rule contiguous_iff)
  show ?case
  proof (cases "?c = length bs")
    case True
    with c_iff [of ?c] have "{1..length bs} \<subseteq> ?S" by simp
    with Cons.prems(4-6) have Nil: "arrivals = []" by (cases arrivals) auto
    show ?thesis using True Nil st l' Cons.prems(3) by (intro exI [of _ l']) (simp add: max_def)
  next
    case False
    have le: "?c < length bs" using False c_iff [of ?c] s by simp
    have "{1..max e ?c} \<subseteq> ?S" using c_iff [of ?c] Cons.prems(2) by (auto simp: max_def)
    then have "\<exists>l''. stored_certs (h_view h) (length bs) m (?S \<union> set arrivals) l'' \<and>
      event_run (para_step C send_ok) (map (\<lambda>s. P_commit (m s)) arrivals) (after_blocks bs l' (max e ?c) h) =
        (if executed_upto ?S (max e ?c) arrivals = length bs then view_end (startNewViewPara C) (after_blocks bs l'' (length bs) h)
         else Inr (after_blocks bs l'' (executed_upto ?S (max e ?c) arrivals) h))"
      using Cons.prems le s by (intro Cons.IH [OF l']) auto
    then show ?thesis using False by (simp add: st del: split_paired_Ex) (erule exE, rule exI, auto)
  qed
qed auto

section \<open>The order of the certificates\<close>

text \<open>
  C13. The order of the commit certificates decides what a backup of the parallel protocol executes. Let a
  backup have the \<open>n\<close> linked blocks of its view, nothing executed, and the certificates of the numbers in \<open>S\<close>
  stored; let certificates of other numbers arrive in any order. Every one of them is stored, and the blocks
  executed and answered, in order and once each, are the first \<open>executed_upto S 0 arrivals\<close>: at each arrival
  the contiguous numbers up to the one that arrived. The last block is executed, and the view ended, exactly if
  all numbers are certified and the certificate of number \<open>n\<close> is the one that arrives last; otherwise
  the backup keeps certified blocks unexecuted and stays in the view.
\<close>

theorem commits_in_any_order:
  assumes "has_blocks C bs h" and "bs \<noteq> []" and "h_lastExecutedSeq h = 0"
    and "commit_certs C (h_nodes h) (h_qsize h) (h_view h) bs m"
    and "stored_certs (h_view h) (length bs) m S (h_log h)" and "S \<subseteq> {1..length bs}"
    and "distinct arrivals" and "S \<inter> set arrivals = {}" and "set arrivals \<subseteq> {1..length bs}"
  shows "\<exists>l. stored_certs (h_view h) (length bs) m (S \<union> set arrivals) l \<and>
    event_run (para_step C send_ok) (map (\<lambda>s. P_commit (m s)) arrivals) h =
      (if arrivals \<noteq> [] \<and> last arrivals = length bs \<and> S \<union> set arrivals = {1..length bs}
       then view_end (startNewViewPara C) (after_blocks bs l (length bs) h)
       else Inr (after_blocks bs l (executed_upto S 0 arrivals) h))"
proof -
  have "after_blocks bs (h_log h) 0 h = h" using assms(3) by (simp add: after_blocks_def)
  moreover have "executed_upto S 0 arrivals = length bs \<longleftrightarrow>
      arrivals \<noteq> [] \<and> last arrivals = length bs \<and> S \<union> set arrivals = {1..length bs}"
    using assms(2,6-9) by (intro executed_last_iff) simp_all
  ultimately show ?thesis
    using commits_run [OF assms(1,4,5), of 0 arrivals send_ok] assms(2,6-9) by simp
qed

text \<open>Two blocks at a node of four that has just started.\<close>

definition demo_linked_blocks :: "PBlock list" where
  "demo_linked_blocks =
     [demo_pblock 7, PBlock_new (Hash_of (replicate SHA256_DIGEST_LENGTH 1)) 1 2 (Transaction_new 8 1 # replicate 99 Transaction_dummy)]"

definition demo_backup :: Handler where
  "demo_backup = (demo_para crypto_yes 1)\<lparr>h_pblocks := [(0, demo_linked_blocks)]\<rparr>"

definition demo_seq_cert :: "nat \<Rightarrow> MsgCommitPara" where
  "demo_seq_cert k = Msg_new (RDataPara_new (Hash_of (replicate SHA256_DIGEST_LENGTH 1)) 0 (Hash_zero True) 0 PH1_COMMIT (word_of_nat k))
     (Signs_array 3 ([Sign_char 0 65, Sign_char 1 65, Sign_char 2 65] @ replicate (MAX_NUM_SIGNATURES - 3) Sign_default))"

lemma demo_blocks_hash: "b \<in> set demo_linked_blocks \<Longrightarrow>
   pblock_hash crypto_yes b = Inr (Hash_of (replicate SHA256_DIGEST_LENGTH 1)) \<and> pblock_ok b \<and> pblock_isBlock b"
  by (auto simp: demo_linked_blocks_def demo_pblock_def PBlock_new_def pblock_hash_def pblock_toString_def pblock_isBlock_def
      pblock_transactions2string_def crypto_yes_def MAX_NUM_TRANSACTIONS_def pblock_ok_def)

lemma demo_backup_has: "has_blocks crypto_yes demo_linked_blocks demo_backup"
proof -
  have len: "length demo_linked_blocks = 2" by (simp add: demo_linked_blocks_def)
  have "linked crypto_yes demo_linked_blocks k" if "1 \<le> k \<and> k \<le> 2" for k
  proof (cases "k = 1")
    case False
    with that have "k = 2" by simp
    moreover have "pblock_hash crypto_yes (demo_linked_blocks ! 0) = Inr (Hash_of (replicate SHA256_DIGEST_LENGTH 1))"
      using demo_blocks_hash [of "demo_linked_blocks ! 0"] len by simp
    moreover have "p_prevHash (demo_linked_blocks ! 1) = Hash_of (replicate SHA256_DIGEST_LENGTH 1)"
      by (simp add: demo_linked_blocks_def PBlock_new_def)
    ultimately show ?thesis by (simp add: linked_def pblock_extends_def)
  qed (simp add: linked_def)
  with len demo_blocks_hash show ?thesis
    by (auto simp: has_blocks_def demo_backup_def view_blocks_def maxViewsReached_def amCurrentLeader_def getCurrentLeader_def getLeaderOf_def)
qed

lemma demo_seq_cert_facts: "commit_certs crypto_yes demo_four 3 0 demo_linked_blocks demo_seq_cert"
proof -
  have sg: "signs_ok (m_signs (demo_seq_cert k))" "sig_list (m_signs (demo_seq_cert k)) = [Sign_char 0 65, Sign_char 1 65, Sign_char 2 65]" for k
    by (simp_all add: demo_seq_cert_def signs_ok_def sig_list_def Signs_array_def MAX_NUM_SIGNATURES_def)
  have "signs_verify crypto_yes demo_four (m_signs (demo_seq_cert k)) t = Inr True" for k t
    by (rule signs_verify_yes) (auto simp: sg Sign_char_def demo_four_def addNode_def nodes_find_def)
  moreover have "m_rdata (demo_seq_cert k) = RDataPara_new (Hash_of (replicate SHA256_DIGEST_LENGTH 1)) 0 (Hash_zero True) 0 PH1_COMMIT (word_of_nat k)"
    "sg_size (m_signs (demo_seq_cert k)) = 3" for k by (simp_all add: demo_seq_cert_def Signs_array_def)
  moreover have "pblock_hash crypto_yes (demo_linked_blocks ! (k - 1)) = Inr (Hash_of (replicate SHA256_DIGEST_LENGTH 1))"
    if "1 \<le> k" "k \<le> length demo_linked_blocks" for k
    using demo_blocks_hash [of "demo_linked_blocks ! (k - 1)"] that by simp
  ultimately show ?thesis by (simp add: commit_certs_def msg_good_def sg)
qed

text \<open>In the order 2, 1 only the first block is executed, and in the order 1, 2 the view ends.\<close>

theorem commits_in_any_order_witness:
  "(\<exists>g. event_run (para_step crypto_yes (\<lambda>_. True)) [P_commit (demo_seq_cert 2), P_commit (demo_seq_cert 1)] demo_backup = Inr g \<and>
      h_lastExecutedSeq g = 1 \<and> hasCommitForSeq 0 2 (h_log g)) \<and>
   (\<exists>l. event_run (para_step crypto_yes (\<lambda>_. True)) [P_commit (demo_seq_cert 1), P_commit (demo_seq_cert 2)] demo_backup =
      view_end (startNewViewPara crypto_yes) (after_blocks demo_linked_blocks l 2 demo_backup))"
proof -
  have len: "length demo_linked_blocks = 2" "demo_linked_blocks \<noteq> []" by (simp_all add: demo_linked_blocks_def)
  have f: "h_lastExecutedSeq demo_backup = 0" "h_view demo_backup = 0"
    "commit_certs crypto_yes (h_nodes demo_backup) (h_qsize demo_backup) (h_view demo_backup) demo_linked_blocks demo_seq_cert"
    using demo_seq_cert_facts by (simp_all add: demo_backup_def)
  have st: "stored_certs (h_view demo_backup) (length demo_linked_blocks) demo_seq_cert {} (h_log demo_backup)"
    by (auto simp: demo_backup_def stored_certs_def votes_ok_defs Log_empty_def commits_keyed_def)
  have e: "executed_upto {} 0 [2, 1] = 1" by (simp add: contiguous_def upt_rec)
  note run = commits_in_any_order [OF demo_backup_has len(2) f(1,3) st, of _ "\<lambda>_. True"]
  from run [of "[2, 1]"] len obtain l where l: "stored_certs 0 2 demo_seq_cert {2, 1} l"
    "event_run (para_step crypto_yes (\<lambda>_. True)) [P_commit (demo_seq_cert 2), P_commit (demo_seq_cert 1)] demo_backup =
      Inr (after_blocks demo_linked_blocks l 1 demo_backup)" by (auto simp: e [unfolded One_nat_def] f(2) simp del: executed_upto.simps event_run.simps)
  have "hasCommitForSeq 0 2 l"
    using l(1) by (auto simp: stored_certs_def hasCommitForSeq_def first_of_def entries_of_def dest: spec [of _ "2::nat"] split: option.splits list.splits)
  moreover from run [of "[1, 2]"] len have "\<exists>l. event_run (para_step crypto_yes (\<lambda>_. True)) [P_commit (demo_seq_cert 1), P_commit (demo_seq_cert 2)] demo_backup =
      view_end (startNewViewPara crypto_yes) (after_blocks demo_linked_blocks l 2 demo_backup)"
    by (auto simp del: executed_upto.simps event_run.simps)
  ultimately show ?thesis using l(2) by auto
qed

section \<open>Executing what is ready\<close>


text \<open>
  C14. One message per earlier sequence number is enough. Let a leader count \<open>qsize\<close> commit messages for a
  sequence number \<open>s\<close> of the view (at most \<open>maxBlocksInView < 2 ^ 31\<close>) that is not executed, let its log hold at
  least one commit message, from whatever sender, for every number from 1 to \<open>s\<close>, and let its blocks up to \<open>s\<close> extend
  each other. Then it executes all of them up to \<open>s\<close> (and the view ends if \<open>s\<close> is the last), and nothing on
  the path calls the signature verification: the result does not depend on it.
\<close>

theorem leader_executes_single_votes:
  assumes "\<not> maxViewsReached h" and "amCurrentLeader h" and "propv (m_rdata msg) = h_view h" "phase (m_rdata msg) = PH1_COMMIT"
    and "storeComPara msg (h_log h) = Inr (l, h_qsize h)" "commits_keyed (h_log h)"
    and "getCommitPara (h_view h) (h_qsize h) (seqNumber (m_rdata msg)) l = Inr signs" "sg_size signs = h_qsize h"
    and "\<forall>k. 1 \<le> k \<and> k \<le> unat (seqNumber (m_rdata msg)) \<longrightarrow>
           (\<exists>m ms. seq_find (commitsPara l) (h_view h) (word_of_nat k) = Some (m # ms))"
    and "view_blocks h bs" "seqNumber (m_rdata msg) \<le> h_maxBlocksInView h" "unat (h_maxBlocksInView h) < 2 ^ 31"
    and "\<forall>k. unat (h_lastExecutedSeq h) < k \<and> k \<le> unat (seqNumber (m_rdata msg)) \<longrightarrow> linked C bs k"
    and "h_lastExecutedSeq h < seqNumber (m_rdata msg)"
  shows "\<exists>g h'. h_log g = l \<and> h_clients g = h_clients h \<and>
      h' = g\<lparr>h_rep_queue := h_rep_queue h @ concat (map (seq_replies C g bs)
             [Suc (unat (h_lastExecutedSeq h))..<Suc (unat (seqNumber (m_rdata msg)))]),
           h_lastExecutedSeq := seqNumber (m_rdata msg)\<rparr> \<and>
      (\<forall>verify. handleCommitPara (C\<lparr>ECDSA_verify := verify\<rparr>) snv msg h =
         (if seqNumber (m_rdata msg) = h_maxBlocksInView h then view_end snv h' else Inr h'))"
proof -
  let ?sq = "seqNumber (m_rdata msg)" and ?last = "h_lastExecutedSeq h"
  let ?g = "sendMsg (Net_CommitPara (Msg_new (m_rdata msg) signs)) (remove_from_peers h (h_myid h)) (h\<lparr>h_log := l\<rparr>)"
  let ?ks = "[Suc (unat ?last)..<Suc (unat ?sq)]"
  let ?h = "?g\<lparr>h_rep_queue := h_rep_queue h @ concat (map (seq_replies C ?g bs) ?ks), h_lastExecutedSeq := ?sq\<rparr>"
  have g: "h_log ?g = l" "h_view ?g = h_view h" "h_maxBlocksInView ?g = h_maxBlocksInView h"
    "h_lastExecutedSeq ?g = ?last" "h_rep_queue ?g = h_rep_queue h" "h_clients ?g = h_clients h" "h_pblocks ?g = h_pblocks h"
    by simp_all
  have hi: "findHighestSeq ?sq ?g = ?sq"
    by (rule findHighestSeq_all) (use assms(9) hasCommitForSeq_find in \<open>simp only: g, blast\<close>)
  have lt: "unat ?last < unat ?sq" using assms(14) by (simp add: word_less_nat_alt)
  then have len: "unat ?last + length ?ks = unat ?sq" by simp
  have key: "commits_keyed (h_log ?g)" unfolding g by (rule storeComPara_keyed [OF assms(6,5)])
  have vb: "view_blocks ?g bs" using assms(10) unfolding view_blocks_def g .
  have "executeReady (C\<lparr>ECDSA_verify := verify\<rparr>) snv ?sq ?g =
      (if ?sq = h_maxBlocksInView h then view_end snv ?h else Inr ?h)" for verify
  proof -
    have "executeReady (C\<lparr>ECDSA_verify := verify\<rparr>) snv ?sq ?g =
      (if h_maxBlocksInView ?g < findHighestSeq ?sq ?g then Inr ?g
       else if ?ks \<noteq> [] \<and> unat (h_lastExecutedSeq ?g) + length ?ks = unat (h_maxBlocksInView ?g) then view_end snv ?h else Inr ?h)"
    proof (rule executeReady_all [OF _ vb key])
      show "?ks = takeWhile (linked (C\<lparr>ECDSA_verify := verify\<rparr>) bs)
          [Suc (unat (h_lastExecutedSeq ?g))..<Suc (unat (findHighestSeq ?sq ?g))]"
        unfolding hi g linked_verify takeWhile_linked_all [OF assms(13)] ..
      show "?h = ?g\<lparr>h_rep_queue := h_rep_queue ?g @ concat (map (seq_replies (C\<lparr>ECDSA_verify := verify\<rparr>) ?g bs) ?ks),
          h_lastExecutedSeq := word_of_nat (unat (h_lastExecutedSeq ?g) + length ?ks)\<rparr>"
        unfolding g seq_replies_verify len by simp
      show "h_lastExecutedSeq ?g \<le> h_maxBlocksInView ?g" using assms(11,14) unfolding g by simp
    qed (use assms(12) in simp)
    moreover have "\<not> h_maxBlocksInView h < ?sq" "?ks \<noteq> [] \<and> unat ?sq = unat (h_maxBlocksInView h) \<longleftrightarrow> ?sq = h_maxBlocksInView h"
      using assms(11) lt by (simp_all add: word_unat_eq_iff del: upt_Suc)
    ultimately show ?thesis unfolding hi g len by (simp only: if_False)
  qed
  moreover have "handleCommitPara (C\<lparr>ECDSA_verify := verify\<rparr>) snv msg h = executeReady (C\<lparr>ECDSA_verify := verify\<rparr>) snv ?sq ?g" for verify
    using assms(1-5,7,8) by (simp add: handleCommitPara_def initiateCommitPara_def Let_def remove_from_peers_def)
  ultimately have "handleCommitPara (C\<lparr>ECDSA_verify := verify\<rparr>) snv msg h =
      (if ?sq = h_maxBlocksInView h then view_end snv ?h else Inr ?h)" for verify by simp
  with g(1,6) show ?thesis by (intro exI [of _ ?g] exI [of _ ?h] conjI allI refl)
qed




theorem leader_executes_single_votes_witness:
  "\<exists>h. handleCommitPara crypto_no Inr (demo_vote 3 2) demo_counting = Inr h \<and> h_lastExecutedSeq h = 2 \<and>
     length (the (seq_find (commitsPara (h_log h)) 0 1)) = 1"
proof -
  let ?l = "demo_votes [demo_vote 1 2, demo_vote 2 2, demo_vote 3 2]"
  have r: "propv (m_rdata (demo_vote 3 2)) = 0" "phase (m_rdata (demo_vote 3 2)) = PH1_COMMIT" "seqNumber (m_rdata (demo_vote 3 2)) = 2"
    by (simp_all add: demo_vote_def)
  obtain s where s: "getCommitPara 0 3 2 ?l = Inr s" "sg_size s = 3"
    using demo_collect by (cases "getCommitPara 0 3 2 ?l") simp_all
  have all: "\<exists>m ms. seq_find (commitsPara ?l) 0 (word_of_nat k) = Some (m # ms)" if "1 \<le> k \<and> k \<le> 2" for k
    using that by (auto simp: demo_votes_find le_Suc_eq numeral_2_eq_2)
  obtain g h' where g: "h_log g = ?l" "h_clients g = h_clients demo_counting"
    "h' = g\<lparr>h_rep_queue := h_rep_queue demo_counting @ concat (map (seq_replies crypto_no g (replicate 3 PBlock_default)) [Suc 0..<Suc 2]),
            h_lastExecutedSeq := 2\<rparr>"
    "\<forall>verify. handleCommitPara (crypto_no\<lparr>ECDSA_verify := verify\<rparr>) Inr (demo_vote 3 2) demo_counting = Inr h'"
    using leader_executes_single_votes [of demo_counting "demo_vote 3 2" ?l s "replicate 3 PBlock_default" crypto_no Inr] all s
    by (auto simp: demo_counting_sel r demo_store_com demo_votes_keyed demo_linked simp del: upt_Suc)
  from g(4) [rule_format, of "ECDSA_verify crypto_no"] g(1,3) show ?thesis by (auto simp: demo_votes_find)
qed

end
