(* ===== verification/Agreement.thy ===== *)
theory Agreement
  imports WireProps BasicProps
begin

text \<open>
  Agreement of the replicas of the basic protocol within a view. Three ingredients are put
  together: the text of a signed statement determines the statement, up to the width of one
  number (and exactly that gap is a defect, shown below); the trusted components do not
  sign two statements for one view and phase; two sets of \<open>qsize\<close> nodes have an honest node in
  common. Also here: what the trusted component returns is well-typed, so it can be sent.
\<close>

section \<open>The text of a statement\<close>

lemma length_bool_string [simp]: "length (bool_string b) = 1"
  by (simp add: bool_string_def)

lemma bool_string_inj [simp]: "bool_string a = bool_string b \<longleftrightarrow> a = b"
  by (simp add: bool_string_def)

lemma length_hash_toString [simp]: "hash_ok h \<Longrightarrow> length (hash_toString h) = Suc SHA256_DIGEST_LENGTH"
  by (simp add: hash_toString_def hash_ok_def)

lemma hash_toString_inj: "hash_ok a \<Longrightarrow> hash_ok b \<Longrightarrow> hash_toString a = hash_toString b \<Longrightarrow> a = b"
  by (cases a; cases b) (simp add: hash_toString_def hash_ok_def)

lemma length_to_string_digit: "unat w < 10 \<Longrightarrow> length (to_string w) = 1"
  by (simp add: to_string_def dec_digits_small)

text \<open>The width of \<open>justv\<close>, which the text does not show.\<close>

definition justv_width :: "RData \<Rightarrow> nat" where
  "justv_width r = length (to_string (justv r))"

lemma rdata_toString_inj:
  assumes t: "rdata_toString a = rdata_toString b"
    and wf: "rdata_wf a" "rdata_wf b" and ph: "unat (phase a) < 10" "unat (phase b) < 10"
    and w: "justv_width a = justv_width b"
  shows "a = b"
proof -
  have ok: "hash_ok (proph a)" "hash_ok (proph b)" "hash_ok (justh a)" "hash_ok (justh b)"
    using wf by (simp_all add: rdata_wf_def)
  have l: "length (to_string (phase a)) = length (to_string (phase b))"
    using ph by (simp add: length_to_string_digit)
  with arg_cong [OF t, of length] ok w have lv: "length (to_string (propv a)) = length (to_string (propv b))"
    by (simp add: rdata_toString_def justv_width_def)
  have "hash_toString (proph a) = hash_toString (proph b) \<and> to_string (propv a) = to_string (propv b) \<and>
      hash_toString (justh a) = hash_toString (justh b) \<and> to_string (justv a) = to_string (justv b) \<and>
      to_string (phase a) = to_string (phase b)"
    using t l lv w ok by (simp add: rdata_toString_def justv_width_def)
  with ok show ?thesis
    by (cases a; cases b) (simp add: to_string_inj hash_toString_inj)
qed

text \<open>
  The text signed for a vote does not determine the vote. A statement of a view \<open>v\<close>
  with \<open>justv = 10\<close> and a \<open>justh\<close> that begins with a decimal digit \<open>d\<close> has the same
  text as a statement of the view \<open>10 * v + d\<close> with \<open>justv = 0\<close>, for every proposed hash
  and phase, because the numbers are not delimited.
\<close>

theorem rdata_text_ambiguous:
  assumes "unat d < 10" and "10 * unat v + unat d < 2 ^ 32" and "v \<noteq> 0"
    and "length bs = SHA256_DIGEST_LENGTH - 1"
  shows "rdata_toString (RData_new h v \<lparr>hbytes = (48 + d) # bs, hset = True\<rparr> 10 p) =
      rdata_toString (RData_new h (10 * v + ucast d) \<lparr>hbytes = bs @ [49], hset = True\<rparr> 0 p) \<and>
    \<not> rdata_eq (RData_new h v \<lparr>hbytes = (48 + d) # bs, hset = True\<rparr> 10 p)
      (RData_new h (10 * v + ucast d) \<lparr>hbytes = bs @ [49], hset = True\<rparr> 0 p)"
proof -
  have u: "unat (10 * v + ucast d) = 10 * unat v + unat d"
    using assms(1,2) by (simp add: unat_word_ariths unsigned_ucast_eq take_bit_nat_eq_self)
  moreover have "0 < unat v" using assms(3) by (simp add: unat_gt_0)
  ultimately have "to_string (10 * v + ucast d) = to_string v @ [48 + d]"
    using assms(1) by (simp add: to_string_def dec_digits_big)
  moreover have "to_string (10 :: u32) = [49, 48]" "to_string (0 :: u32) = [48]"
    by (simp_all add: to_string_def dec_digits_big dec_digits_small)
  ultimately have "rdata_toString (RData_new h v \<lparr>hbytes = (48 + d) # bs, hset = True\<rparr> 10 p) =
      rdata_toString (RData_new h (10 * v + ucast d) \<lparr>hbytes = bs @ [49], hset = True\<rparr> 0 p)"
    by (simp add: rdata_toString_def hash_toString_def bool_string_def)
  then show ?thesis by (simp add: rdata_eq_def)
qed

theorem rdata_text_ambiguous_witness:
  "rdata_toString (RData_new Hash_default 2 \<lparr>hbytes = 53 # replicate 31 7, hset = True\<rparr> 10 PH1_PREPARE) =
   rdata_toString (RData_new Hash_default 25 \<lparr>hbytes = replicate 31 7 @ [49], hset = True\<rparr> 0 PH1_PREPARE)"
  using rdata_text_ambiguous [of 5 2 "replicate 31 7" Hash_default PH1_PREPARE]
  by (simp add: SHA256_DIGEST_LENGTH_def)

text \<open>
  C24. A vote for a view counts for a later one. A component whose host has skipped ahead to
  view \<open>10 * v < 2 ^ 32\<close>, \<open>v \<noteq> 0\<close>, and that has prepared nothing but the genesis block (\<open>prepv = 0\<close>) signs
  this there, truthfully. The text of this statement
  is also that of a new-view statement of view \<open>v\<close> that claims \<open>justv = 10\<close>. With it
  \<open>TEEprepare\<close> of any component in view \<open>v\<close> with a lock of a view below 10 signs a vote for any
  hash \<open>h\<close>, and the text of that vote is the text of a vote for \<open>h\<close> in view \<open>10 * v\<close>.
\<close>

theorem vote_counts_for_later_view:
  assumes "tf_TEEsign C u = (j, u')" and "tf_view u = 10 * v" and "tf_phase u = PH1_NEWVIEW"
    and "tf_preph u = Hash_default" and "tf_prepv u = 0"
    and "signs_verify C ns (j_signs j) (rdata_toString (union_rdata j)) = Inr True"
    and "just = j\<lparr>j_data := URData (RData_new (Hash_zero False) v (Hash_zero False) 10 PH1_NEWVIEW)\<rparr>"
    and "tf_view t = v" and "v \<noteq> 0" and "10 * unat v < 2 ^ 32" and "tf_lockv t < 10"
  shows "\<exists>vote t'. tf_TEEprepare C ns h just t = Inr (vote, t') \<and> j_set vote \<and>
    propv (union_rdata vote) = v \<and>
    rdata_toString (union_rdata vote) = rdata_toString (RData_new h (10 * v) Hash_default 0 (tf_phase t))"
proof -
  have u: "unat (10 * v) = 10 * unat v" using assms(10) by (simp add: unat_word_ariths)
  moreover have "0 < unat v" using assms(9) by (simp add: unat_gt_0)
  ultimately have v: "to_string (10 * v) = to_string v @ [48]"
    by (simp add: to_string_def dec_digits_big)
  have "to_string (10 :: u32) = [49, 48]" "to_string (0 :: u32) = [48]"
    by (simp_all add: to_string_def dec_digits_big dec_digits_small)
  moreover have "48 # replicate SHA256_DIGEST_LENGTH x = replicate SHA256_DIGEST_LENGTH x @ [48]" if "x = 48" for x :: u8
    by (simp add: that replicate_app_Cons_same)
  ultimately have same: "rdata_toString (RData_new g v (Hash_zero False) 10 p) =
      rdata_toString (RData_new g (10 * v) Hash_default 0 p)" for g p
    by (simp add: v rdata_toString_def hash_toString_def bool_string_def Hash_zero_def Hash_default_def)
  have "j_signs just = j_signs j" "union_rdata j = RData_new (Hash_zero False) (10 * v) Hash_default 0 PH1_NEWVIEW"
    using assms(1-5,7) by (auto simp: tf_TEEsign_def tf_sign_def Let_def union_rdata_def)
  moreover have "getRData just = Inr (RData_new (Hash_zero False) v (Hash_zero False) 10 PH1_NEWVIEW)"
    by (simp add: assms(7) getRData_def)
  ultimately show ?thesis
    using assms(6,8,11) by (auto simp: tf_TEEprepare_def tf_TEEverify_def tf_safeNode_def tf_sign_def Let_def union_rdata_def same)
qed

theorem vote_counts_for_later_view_witness:
  "\<exists>vote t'. tf_TEEprepare crypto_yes (addNode [] 3 [] 1 1) Hash_default
      (Just_sign (RData_new (Hash_zero False) 1 (Hash_zero False) 10 PH1_NEWVIEW)
        (Sign_make crypto_yes 5 3 (rdata_toString (RData_new (Hash_zero False) 10 Hash_default 0 PH1_NEWVIEW))))
      (TrustedFun_new 1 5 3\<lparr>tf_view := 1, tf_phase := PH1_PREPARE\<rparr>) = Inr (vote, t') \<and>
    rdata_toString (union_rdata vote) = rdata_toString (RData_new Hash_default 10 Hash_default 0 PH1_PREPARE)"
proof -
  let ?u = "TrustedFun_new 3 5 3\<lparr>tf_view := 10\<rparr>" and ?t = "TrustedFun_new 1 5 3\<lparr>tf_view := 1, tf_phase := PH1_PREPARE\<rparr>"
  let ?s = "RData_new (Hash_zero False) 10 Hash_default 0 PH1_NEWVIEW"
  have d: "Hash_zero True = Hash_default" by (simp add: Hash_zero_def Hash_default_def)
  have j: "tf_TEEsign crypto_yes ?u = (Just_sign ?s (Sign_make crypto_yes 5 3 (rdata_toString ?s)), tf_increment ?u)"
    by (simp add: tf_TEEsign_def tf_sign_def Let_def TrustedFun_new_def d)
  have "signs_verify crypto_yes (addNode [] 3 [] 1 1) (Signs_one (Sign_make crypto_yes 5 3 x)) y = Inr True" for x y
    by (rule signs_verify_yes) (simp_all add: addNode_def nodes_find_def)
  with vote_counts_for_later_view [OF j, of 1 "addNode [] 3 [] 1 1" _ ?t Hash_default, OF _ _ _ _ _ refl]
  show ?thesis by (auto simp: TrustedFun_new_def d Just_sign_def)
qed

section \<open>What the trusted component returns is well-typed\<close>

definition fresh_wf :: "crypto \<Rightarrow> bool" where
  "fresh_wf C \<longleftrightarrow> (\<forall>text. length (fresh_buffer C text) = SIGN_LEN)"

definition tf_wf :: "TrustedFun \<Rightarrow> bool" where
  "tf_wf t \<longleftrightarrow> hash_ok (tf_lockh t) \<and> hash_ok (tf_preph t)"

fun tf_call_wf :: "tf_call \<Rightarrow> bool" where
  "tf_call_wf TF_sign = True"
| "tf_call_wf (TF_prepare h j) = (hash_ok h \<and> just_wf j)"
| "tf_call_wf (TF_store j) = just_wf j"

lemma Sign_make_wf: "fresh_wf C \<Longrightarrow> sign_wf (Sign_make C k p text)"
  by (auto simp: fresh_wf_def sign_wf_def Sign_make_def signText_def Let_def SHA256_DIGEST_LENGTH_def SIGN_LEN_def
      split: option.split)

lemma just_wf_default [simp]: "just_wf Just_default"
  by (simp add: just_wf_def signs_wf_def Signs_empty_def sign_wf_def Sign_default_def rdata_wf_def RData_default_def)

lemma signs_one_wf: "sign_wf s \<Longrightarrow> signs_wf (Signs_one s)"
  by (auto simp: signs_wf_def Signs_one_def sign_wf_def Sign_default_def dest: set_update_subset_insert [THEN subsetD])

lemma tf_sign_wf:
  assumes "fresh_wf C" and "hash_ok h1" and "hash_ok h2" and "tf_wf t" and "tf_sign C h1 h2 v t = (j, t')"
  shows "just_wf j \<and> tf_wf t'"
  using assms by (auto simp: tf_sign_def Let_def just_wf_def tf_wf_def rdata_wf_def intro!: signs_one_wf Sign_make_wf)

lemma getRData_wf: "getRData j = Inr r \<Longrightarrow> just_wf j \<Longrightarrow> rdata_wf r"
  by (auto simp: getRData_Inr_iff just_wf_def)

lemma tf_exec_wf:
  assumes "fresh_wf C" and "tf_wf t" and "tf_call_wf c" and "tf_exec C ns c t = Inr (j, t')"
  shows "just_wf j \<and> tf_wf t'"
proof (cases c)
  case TF_sign
  with assms show ?thesis
    by (intro tf_sign_wf [OF assms(1), of "Hash_zero False" "tf_preph t" t "tf_prepv t"]) (auto simp: tf_TEEsign_def tf_wf_def)
next
  case (TF_prepare h just)
  then have "(j = Just_default \<and> t' = t) \<or>
      (\<exists>rd. getRData just = Inr rd \<and> tf_sign C h (justh rd) (justv rd) t = (j, t'))"
    using assms(4) by (auto simp: tf_TEEprepare_def bindE_Inr_iff split: if_splits)
  with TF_prepare assms show ?thesis by (auto dest: tf_sign_wf dest!: getRData_wf simp: rdata_wf_def)
next
  case (TF_store just)
  with assms(4) consider "j = Just_default" "t' = t"
    | rd where "getRData just = Inr rd" "tf_sign C (proph rd) Hash_default 0
        (t\<lparr>tf_preph := proph rd, tf_prepv := propv rd, tf_lockh := proph rd, tf_lockv := propv rd\<rparr>) = (j, t')"
    by (auto simp: tf_TEEstore_def bindE_Inr_iff Let_def split: if_splits)
  then show ?thesis
  proof cases
    case (2 rd)
    have "hash_ok (proph rd)" using getRData_wf [OF 2(1)] TF_store assms(3) by (simp add: rdata_wf_def)
    with 2 show ?thesis by (intro tf_sign_wf [OF assms(1) _ _ _ 2(2)]) (simp_all add: tf_wf_def)
  qed (use assms in simp)
qed

lemma tf_run_wf:
  assumes "fresh_wf C"
  shows "tf_wf t \<Longrightarrow> \<forall>c\<in>set cs. tf_call_wf c \<Longrightarrow> call_run (tf_exec C ns) cs t = Inr (js, t') \<Longrightarrow>
    (\<forall>j\<in>set js. just_wf j) \<and> tf_wf t'"
proof (induction cs arbitrary: t js)
  case (Cons c cs)
  from Cons.prems(3) obtain j u ks where c: "tf_exec C ns c t = Inr (j, u)"
    and r: "call_run (tf_exec C ns) cs u = Inr (ks, t')" "js = j # ks"
    by (auto simp: bindE_Inr_iff)
  have "tf_call_wf c" using Cons.prems(2) by simp
  from tf_exec_wf [OF assms Cons.prems(1) this c] Cons.IH [OF _ _ r(1)] Cons.prems(2) show ?case by (simp add: r(2))
qed simp

lemma tf_wf_new [simp]: "tf_wf (TrustedFun_new i k q)"
  by (simp add: tf_wf_def TrustedFun_new_def)

text \<open>
  Type soundness of the trusted component: called with hashes, justifications and
  signature arrays of their declared sizes, in any order, everything it returns has its
  declared sizes again: 32 bytes per hash, \<open>SIGN_LEN\<close> bytes per signature (although
  only the first 32 are written), \<open>MAX_NUM_SIGNATURES\<close> signatures per array.
\<close>

theorem tf_typed:
  assumes "\<forall>text. length (fresh_buffer C text) = SIGN_LEN"
    and "\<forall>c\<in>set calls. tf_call_wf c" and "call_run (tf_exec C ns) calls (TrustedFun_new i k q) = Inr (js, t)"
  shows "\<forall>j\<in>set js. just_wf j"
  using tf_run_wf [OF _ tf_wf_new assms(2,3)] assms(1) by (simp add: fresh_wf_def)

theorem tf_typed_witness:
  "\<exists>js t. call_run (tf_exec crypto_yes []) [TF_prepare Hash_default Just_default] (TrustedFun_new 1 5 3) = Inr (js, t) \<and>
     js \<noteq> [Just_default] \<and> (\<forall>j\<in>set js. just_wf j)"
proof -
  have "tf_TEEverify crypto_yes [] Just_default = Inr True"
    by (simp add: tf_TEEverify_def signs_verify_empty)
  then obtain js t where r: "call_run (tf_exec crypto_yes []) [TF_prepare Hash_default Just_default] (TrustedFun_new 1 5 3) = Inr (js, t)"
    and "j_set (js ! 0)"
    by (auto simp: tf_TEEprepare_def tf_sign_def Let_def TrustedFun_new_def RData_default_def tf_safeNode_def hash_eq_iff
        Hash_default_def Hash_zero_def)
  with tf_typed [OF _ _ r] show ?thesis by (auto simp: crypto_yes_def)
qed

section \<open>Quorums\<close>

lemma quorum_overlap:
  assumes "finite N" and "card N \<le> c * f + 1" and "3 \<le> c" and "card (N - honest) \<le> f"
    and "A \<subseteq> N" "B \<subseteq> N" and "card A = c * f + 1 - f" "card B = c * f + 1 - f"
  shows "\<exists>p\<in>honest. p \<in> A \<and> p \<in> B"
proof (rule ccontr)
  assume "\<not> ?thesis"
  then have "A \<inter> B \<subseteq> N - honest" using assms(5) by auto
  then have "card (A \<inter> B) \<le> f" using card_mono [of "N - honest" "A \<inter> B"] assms(1,4) by simp
  moreover have "card A + card B = card (A \<union> B) + card (A \<inter> B)"
    using assms(1,5,6) by (intro card_Un_Int) (auto dest: finite_subset)
  moreover have "card (A \<union> B) \<le> card N" using assms(1,5,6) by (intro card_mono) auto
  moreover have "3 * f \<le> c * f" using assms(3) by simp
  ultimately show False using assms(2,7,8) by linarith
qed

section \<open>Honest components\<close>

text \<open>
  \<open>honest_runs\<close>: every honest node has a trusted component that has been called, with
  well-typed arguments and fewer than 4 * 2 ^ 32 times, by an arbitrary host, and \<open>js p\<close> is
  what it returned. \<open>unforgeable\<close>: a signature in an honest node's name verifies only for a text
  that its component has signed. \<open>decodable\<close>: the statement behind a text has the width of
  \<open>justv\<close> that the reader assumes (see \<open>rdata_text_ambiguous\<close> for what happens otherwise).
\<close>

definition honest_runs :: "crypto \<Rightarrow> Nodes \<Rightarrow> PID set \<Rightarrow> (PID \<Rightarrow> Just list) \<Rightarrow> bool" where
  "honest_runs C ns honest js \<longleftrightarrow>
     (\<forall>p\<in>honest. \<exists>calls priv q t. call_run (tf_exec C ns) calls (TrustedFun_new p priv q) = Inr (js p, t) \<and>
        length calls < 4 * 2 ^ 32 \<and> (\<forall>c\<in>set calls. tf_call_wf c))"

definition unforgeable :: "crypto \<Rightarrow> Nodes \<Rightarrow> PID set \<Rightarrow> (PID \<Rightarrow> Just list) \<Rightarrow> bool" where
  "unforgeable C ns honest js \<longleftrightarrow>
     (\<forall>p\<in>honest. \<forall>s text. signer s = p \<and> sig_valid C ns text s \<longrightarrow>
        (\<exists>j\<in>set (js p). j_set j \<and> rdata_toString (union_rdata j) = text))"

definition decodable :: "PID set \<Rightarrow> (PID \<Rightarrow> Just list) \<Rightarrow> RData \<Rightarrow> bool" where
  "decodable honest js r \<longleftrightarrow>
     (\<forall>p\<in>honest. \<forall>j\<in>set (js p). rdata_toString (union_rdata j) = rdata_toString r \<longrightarrow>
        justv_width (union_rdata j) = justv_width r)"

lemma tf_run_phases:
  "tf_ok t \<Longrightarrow> call_run (tf_exec C ns) cs t = Inr (js, t') \<Longrightarrow> j \<in> set js \<Longrightarrow> j_set j \<Longrightarrow>
   unat (phase (union_rdata j)) < 4 \<and> j_data j = URData (union_rdata j)"
proof (induction cs arbitrary: t js)
  case (Cons c cs)
  from Cons.prems(2) obtain i u ks where c: "tf_exec C ns c t = Inr (i, u)"
    and r: "call_run (tf_exec C ns) cs u = Inr (ks, t')" "js = i # ks"
    by (auto simp: bindE_Inr_iff)
  have eff: "tf_ok u \<and> (j_set i \<longrightarrow> unat (phase (union_rdata i)) < 4 \<and> j_data i = URData (union_rdata i))"
  proof -
    consider "i = Just_default" "u = t"
      | h1 h2 v2 w where "tf_sign C h1 h2 v2 w = (i, u)" "tf_phase w = tf_phase t"
      using tf_exec_effect [OF c] by blast
    then show ?thesis
    proof cases
      case (2 h1 h2 v2 w)
      have "tf_ok w" using Cons.prems(1) tf_ok_cong [OF 2(2)] by simp
      with tf_sign_effect [OF 2(1)] tf_ok_phase [OF this] show ?thesis
        by (auto simp: union_rdata_def intro: tf_increment_ok)
    qed (use Cons.prems(1) in simp)
  qed
  from Cons.IH [OF _ r(1)] eff Cons.prems(3,4) show ?case by (auto simp: r(2))
qed simp

text \<open>
  What agreement needs of the honest nodes, for any kind of component: well-typed statements, and
  not two of them for one view and phase.
\<close>

definition consistent :: "PID set \<Rightarrow> (PID \<Rightarrow> Just list) \<Rightarrow> bool" where
  "consistent honest js \<longleftrightarrow>
     (\<forall>p\<in>honest. \<forall>j\<in>set (js p). j_set j \<longrightarrow>
        rdata_wf (union_rdata j) \<and> unat (phase (union_rdata j)) < 10 \<and>
        (\<forall>j'\<in>set (js p). j_set j' \<and> propv (union_rdata j') = propv (union_rdata j) \<and>
           phase (union_rdata j') = phase (union_rdata j) \<longrightarrow> j' = j))"

lemma honest_runs_consistent:
  assumes runs: "honest_runs C ns honest js" and fresh: "\<forall>text. length (fresh_buffer C text) = SIGN_LEN"
  shows "consistent honest js"
  unfolding consistent_def
proof (intro ballI impI)
  fix p j assume p: "p \<in> honest" and j: "j \<in> set (js p)" "j_set j"
  obtain calls priv q t where r: "call_run (tf_exec C ns) calls (TrustedFun_new p priv q) = Inr (js p, t)"
    and n: "length calls < 4 * 2 ^ 32" "\<forall>c\<in>set calls. tf_call_wf c"
    using runs p unfolding honest_runs_def by blast
  note ph = tf_run_phases [OF tf_ok_new(1) r j]
  have "just_wf j" using tf_run_wf [OF _ tf_wf_new n(2) r] fresh j(1) by (simp add: fresh_wf_def)
  then have "rdata_wf (union_rdata j)" using ph by (metis RoundUnion.case(1) just_wf_def)
  moreover have "j' = j" if "j' \<in> set (js p)" "j_set j'" "propv (union_rdata j') = propv (union_rdata j)"
    "phase (union_rdata j') = phase (union_rdata j)" for j'
    using tf.run_no_equivocation [OF tf_ok_new(1) _ r that(1) j(1) that(2) j(2)] n(1) that
    by (simp add: tf_limit_def tf_stamp_def)
  ultimately show "rdata_wf (union_rdata j) \<and> unat (phase (union_rdata j)) < 10 \<and>
      (\<forall>j'\<in>set (js p). j_set j' \<and> propv (union_rdata j') = propv (union_rdata j) \<and>
         phase (union_rdata j') = phase (union_rdata j) \<longrightarrow> j' = j)" using ph by auto
qed

text \<open>Two verified statements of one view and phase with a common honest signer are the same.\<close>

lemma honest_signer_agrees:
  assumes env: "consistent honest js" "unforgeable C ns honest js"
    and p: "p \<in> honest" "signer s1 = p" "signer s2 = p"
    and v: "sig_valid C ns (rdata_toString r1) s1" "sig_valid C ns (rdata_toString r2) s2"
    and wf: "rdata_wf r1" "rdata_wf r2" "unat (phase r1) < 10" "decodable honest js r1" "decodable honest js r2"
    and same: "propv r1 = propv r2" "phase r1 = phase r2"
  shows "r1 = r2"
proof -
  have js: "union_rdata j = r" if "j \<in> set (js p)" "j_set j" "rdata_toString (union_rdata j) = rdata_toString r"
    "decodable honest js r" "rdata_wf r" "unat (phase r) < 10" for j r
    by (rule rdata_toString_inj [OF that(3) _ that(5) _ that(6)])
      (use env(1) p(1) that in \<open>simp_all add: consistent_def decodable_def\<close>)
  obtain j1 where j1: "j1 \<in> set (js p)" "j_set j1" "rdata_toString (union_rdata j1) = rdata_toString r1"
    using env(2) p v(1) unfolding unforgeable_def by blast
  obtain j2 where j2: "j2 \<in> set (js p)" "j_set j2" "rdata_toString (union_rdata j2) = rdata_toString r2"
    using env(2) p v(2) unfolding unforgeable_def by blast
  note u = js [OF j1 wf(4,1,3)] js [OF j2 wf(5,2)]
  from u same wf(3) env(1) p(1) j1 j2 have "j1 = j2" unfolding consistent_def by simp
  with u same wf(3) show ?thesis by simp
qed

text \<open>Two certificates of \<open>qsize\<close> different signers.\<close>

definition certifies :: "crypto \<Rightarrow> Nodes \<Rightarrow> nat \<Rightarrow> RData \<Rightarrow> Signs \<Rightarrow> bool" where
  "certifies C ns q r sg \<longleftrightarrow> signs_ok sg \<and> unat (sg_size sg) = q \<and> distinct (map signer (sig_list sg)) \<and>
     signs_verify C ns sg (rdata_toString r) = Inr True"

lemma certifies_signers:
  assumes "certifies C ns q r sg"
  shows "card (signer ` set (sig_list sg)) = q" and "signer ` set (sig_list sg) \<subseteq> set (getIds ns)"
    and "s \<in> set (sig_list sg) \<Longrightarrow> sig_valid C ns (rdata_toString r) s"
proof -
  have ok: "signs_ok sg" and valid: "\<forall>s\<in>set (sig_list sg). sig_valid C ns (rdata_toString r) s"
    using assms by (auto simp: certifies_def signs_verify_eq)
  show "card (signer ` set (sig_list sg)) = q"
    using assms length_sig_list [OF ok] distinct_card [of "map signer (sig_list sg)"] by (simp add: certifies_def)
  show "s \<in> set (sig_list sg) \<Longrightarrow> sig_valid C ns (rdata_toString r) s" using valid by simp
  have "signer s \<in> set (getIds ns)" if "sig_valid C ns (rdata_toString r) s" for s
    using that by (auto simp: sig_valid_def nodes_find_def getIds_def image_iff split: option.splits dest!: map_find_in_set)
      (metis fst_conv)
  with valid show "signer ` set (sig_list sg) \<subseteq> set (getIds ns)" by auto
qed

lemma certificates_agree:
  assumes env: "consistent honest js" "unforgeable C ns honest js"
    and N: "card (set (getIds ns)) \<le> c * f + 1" "3 \<le> c" "card (set (getIds ns) - honest) \<le> f"
    and certs: "certifies C ns (c * f + 1 - f) r1 sg1" "certifies C ns (c * f + 1 - f) r2 sg2"
    and wf: "rdata_wf r1" "rdata_wf r2" "unat (phase r1) < 10" "decodable honest js r1" "decodable honest js r2"
    and same: "propv r1 = propv r2" "phase r1 = phase r2"
  shows "r1 = r2"
proof -
  note q = certifies_signers [OF certs(1)] certifies_signers [OF certs(2)]
  obtain p where "p \<in> honest" "p \<in> signer ` set (sig_list sg1)" "p \<in> signer ` set (sig_list sg2)"
    using quorum_overlap [OF _ N(1,2,3) q(2,5,1,4)] by auto
  then obtain s1 s2 where s: "p \<in> honest" "signer s1 = p" "signer s2 = p" "s1 \<in> set (sig_list sg1)" "s2 \<in> set (sig_list sg2)"
    by (auto simp: image_iff)
  show ?thesis
    by (rule honest_signer_agrees [OF env s(1-3) q(3) [OF s(4)] q(6) [OF s(5)] wf same])
qed

section \<open>Agreement\<close>

text \<open>
  Agreement of the backups. Take a configuration with at most \<open>c * f + 1\<close> known nodes,
  \<open>3 \<le> c\<close>, of which at most \<open>f\<close> are not honest, and quorums of \<open>c * f + 1 - f\<close>
  (\<open>qsize\<close> of \<open>Handler\<close>). If two backups execute in the same view, each on a commit message
  signed by different nodes, then the two messages carry the same statement, hence the same
  block. The hosts of the honest nodes may call their components in any order; the
  dishonest nodes may sign whatever they like.
\<close>

theorem basic_agreement:
  assumes "honest_runs C ns honest js" and "unforgeable C ns honest js" and "\<forall>text. length (fresh_buffer C text) = SIGN_LEN"
    and "card (set (getIds ns)) \<le> c * f + 1" and "3 \<le> c" and "card (set (getIds ns) - honest) \<le> f"
    and "handleCommit C snv1 m1 h1 = Inr h1'" and "\<not> amCurrentLeader h1" and "\<forall>l. h1' \<noteq> h1\<lparr>h_log := l\<rparr>"
    and "handleCommit C snv2 m2 h2 = Inr h2'" and "\<not> amCurrentLeader h2" and "\<forall>l. h2' \<noteq> h2\<lparr>h_log := l\<rparr>"
    and "h_nodes h1 = ns" "h_nodes h2 = ns" "unat (h_qsize h1) = c * f + 1 - f" "unat (h_qsize h2) = c * f + 1 - f"
    and "h_view h1 = h_view h2"
    and "signs_ok (m_signs m1)" "signs_ok (m_signs m2)" "rdata_wf (m_rdata m1)" "rdata_wf (m_rdata m2)"
    and "distinct (map signer (sig_list (m_signs m1)))" "distinct (map signer (sig_list (m_signs m2)))"
    and "decodable honest js (m_rdata m1)" "decodable honest js (m_rdata m2)"
  shows "m_rdata m1 = m_rdata m2"
proof -
  note e1 = handleCommit_backup [OF assms(7,8)] and e2 = handleCommit_backup [OF assms(10,11)]
  have "certifies C ns (c * f + 1 - f) (m_rdata m1) (m_signs m1)" "certifies C ns (c * f + 1 - f) (m_rdata m2) (m_signs m2)"
    using e1 e2 assms(9,12-16,18,19,22,23) by (auto simp: certifies_def)
  moreover have "propv (m_rdata m1) = propv (m_rdata m2)" "phase (m_rdata m1) = PH1_COMMIT" "phase (m_rdata m2) = PH1_COMMIT"
    using e1 e2 assms(9,12,17) by auto
  moreover have "unat PH1_COMMIT < 10" by (simp add: phase_defs)
  ultimately show ?thesis
    using certificates_agree [OF honest_runs_consistent [OF assms(1,3)] assms(2,4-6) _ _ assms(20,21) _ assms(24,25)] by metis
qed

text \<open>A configuration with one node and a library that accepts exactly the text it has signed to commit.\<close>

definition demo_vote :: RData where
  "demo_vote = RData_new (Hash_zero False) 0 (Hash_zero True) 0 PH1_COMMIT"

definition demo_crypto :: crypto where
  "demo_crypto = crypto_yes\<lparr>SHA256 := (\<lambda>x. x), ECDSA_verify := (\<lambda>d s k. if d = rdata_toString demo_vote then 1 else 0)\<rparr>"

definition demo_msg :: "u8 \<Rightarrow> MsgCommit" where
  "demo_msg c = Msg_new demo_vote (Signs_one (Sign_char 1 c))"

lemma demo_run:
  "\<exists>js t. call_run (tf_exec demo_crypto demo_nodes) [TF_sign, TF_sign, TF_sign, TF_sign] (TrustedFun_new 1 5 1) = Inr (js, t) \<and>
     (\<forall>j\<in>set js. justv (union_rdata j) = 0) \<and> (\<exists>j\<in>set js. j_set j \<and> union_rdata j = demo_vote)"
  by (simp add: tf_TEEsign_def tf_sign_def Let_def tf_increment_def TrustedFun_new_def union_rdata_def demo_vote_def)

lemma demo_executes:
  "\<exists>h0 h'. Handler_new demo_crypto 1 3 0 1 demo_nodes 5 10 (\<lambda>_. False) 0 = Inr h0 \<and>
     handleCommit demo_crypto Inr (demo_msg c) h0 = Inr h' \<and> \<not> amCurrentLeader h0 \<and> (\<forall>l. h' \<noteq> h0\<lparr>h_log := l\<rparr>) \<and>
     h_nodes h0 = demo_nodes \<and> h_qsize h0 = 1 \<and> h_view h0 = 0"
proof -
  obtain h0 where n: "Handler_new demo_crypto 1 3 0 1 demo_nodes 5 10 (\<lambda>_. False) 0 = Inr h0" using Handler_new_total by blast
  note f = Handler_new_facts [OF n]
  have more: "h_blocks h0 = []" "h_nodes h0 = demo_nodes" "outs h0 = []"
    using n by (auto simp: Handler_new_def Let_def bindE_Inr_iff)
  have v: "signs_verify demo_crypto demo_nodes (m_signs (demo_msg c)) (rdata_toString demo_vote) = Inr True"
    by (simp add: signs_verify_eq demo_msg_def sig_valid_def sign_verify_def verifyText_def demo_crypto_def Sign_char_def
        demo_nodes_def addNode_def nodes_find_def)
  have notldr: "\<not> amCurrentLeader h0" by (simp add: f amCurrentLeader_def getCurrentLeader_def getLeaderOf_def)
  obtain h' where h': "handleCommit demo_crypto Inr (demo_msg c) h0 = Inr h'" "outs h' = [RecordStats]"
    using notldr v
    by (simp add: handleCommit_def Let_def demo_msg_def demo_vote_def f more verifyJust_def Sverify_def executeRData_def replyHash_def timeToStop_def)
  then have "h' \<noteq> h0\<lparr>h_log := l\<rparr>" for l using more by auto
  with n h' notldr more f show ?thesis by auto
qed

theorem basic_agreement_witness: "m_rdata (demo_msg 65) = m_rdata (demo_msg 66)"
proof -
  obtain calls t j4 js where r: "call_run (tf_exec demo_crypto demo_nodes) calls (TrustedFun_new 1 5 1) = Inr (js, t)"
    and calls: "calls = [TF_sign, TF_sign, TF_sign, TF_sign]" and zero: "\<forall>j\<in>set js. justv (union_rdata j) = 0"
    and j4: "j4 \<in> set js" "j_set j4" "union_rdata j4 = demo_vote"
    using demo_run by blast
  have "honest_runs demo_crypto demo_nodes {1} (\<lambda>_. js)"
    unfolding honest_runs_def
    by (intro ballI exI [of _ calls] exI [of _ 5] exI [of _ 1] exI [of _ t] conjI) (use r in simp, simp_all add: calls)
  moreover have "unforgeable demo_crypto demo_nodes {1} (\<lambda>_. js)"
    using j4 by (auto simp: unforgeable_def sig_valid_def sign_verify_def verifyText_def demo_crypto_def split: option.splits if_splits)
  moreover have "decodable {1} (\<lambda>_. js) (m_rdata (demo_msg c))" for c
    using zero by (simp add: decodable_def justv_width_def demo_msg_def demo_vote_def)
  moreover have "\<forall>text. length (fresh_buffer demo_crypto text) = SIGN_LEN"
    by (simp add: demo_crypto_def crypto_yes_def)
  moreover have "getIds demo_nodes = [1]" by (simp add: getIds_def demo_nodes_def addNode_def)
  moreover have "signs_ok (m_signs (demo_msg c))" "sig_list (m_signs (demo_msg c)) = [Sign_char 1 c]" "rdata_wf (m_rdata (demo_msg c))" for c
    by (simp_all add: demo_msg_def demo_vote_def rdata_wf_def)
  ultimately show ?thesis
    using basic_agreement [of demo_crypto demo_nodes "{1}" "\<lambda>_. js" 3 0 Inr "demo_msg 65" _ _ Inr "demo_msg 66"]
      demo_executes [of 65] demo_executes [of 66] by (elim exE) auto
qed

section \<open>The chained protocol\<close>

definition sha_wf :: "crypto \<Rightarrow> bool" where
  "sha_wf C \<longleftrightarrow> (\<forall>text. length (SHA256 C text) = SHA256_DIGEST_LENGTH)"

definition tc_wf :: "TrustedCh \<Rightarrow> bool" where
  "tc_wf t \<longleftrightarrow> hash_ok (tc_preph t) \<and> tc_ok t"

fun tc_call_wf :: "tc_call \<Rightarrow> bool" where
  "tc_call_wf TC_sign = True"
| "tc_call_wf (TC_prepare b b0 b1) = jblock_wf b"

lemma jblock_hash_wf: "sha_wf C \<Longrightarrow> jblock_hash C b = Inr h \<Longrightarrow> hash_ok h"
  by (auto simp: jblock_hash_def bindE_Inr_iff sha_wf_def)

lemma getCHash_wf: "just_wf j \<Longrightarrow> hash_ok (getCHash j)"
  by (auto simp: getCHash_def just_wf_def union_rdata_def rdata_wf_def RData.truncate_def split: RoundUnion.splits)

lemma tc_advance_wf:
  "tc_advance C j j0 b0 b1 t = Inr u \<Longrightarrow> just_wf j \<Longrightarrow> tc_wf t \<Longrightarrow> tc_wf u"
  by (auto simp: tc_advance_def tc_wf_def tc_ok_def bindE_Inr_iff Let_def getCHash_wf split: if_splits)

lemma tc_sign_wf:
  assumes "fresh_wf C" and "hash_ok h1" and "hash_ok h2" and "tc_wf t" and "Suc (tc_pos t) < tc_limit"
    and "tc_sign C h1 h2 v t = (j, t')"
  shows "(just_wf j \<and> unat (phase (union_rdata j)) < 10 \<and> rdata_wf (union_rdata j)) \<and> tc_wf t'"
proof -
  have "tc_ok (tc_increment t)" using tc_increment_pos assms(4,5) by (simp add: tc_wf_def)
  moreover have "tc_preph (tc_increment t) = tc_preph t" by (simp add: tc_increment_def)
  moreover have "unat (tc_phase t) < 10" using assms(4) by (auto simp: tc_wf_def tc_ok_def phase_defs)
  ultimately show ?thesis
    using assms by (auto simp: tc_sign_def Let_def just_wf_def tc_wf_def rdata_wf_def union_rdata_def intro!: signs_one_wf Sign_make_wf)
qed

lemma tc_exec_wf:
  assumes C: "fresh_wf C" "sha_wf C" and t: "tc_wf t" "tc_call_wf c" and lim: "Suc (tc_pos t) < tc_limit"
    and c: "tc_exec C ns c t = Inr (j, t')"
  shows "(j_set j \<longrightarrow> unat (phase (union_rdata j)) < 10 \<and> rdata_wf (union_rdata j)) \<and> tc_wf t'"
proof (cases c)
  case TC_sign
  then have "tc_sign C (Hash_zero False) (tc_preph t) (tc_prepv t) t = (j, t')" using c by (simp add: tc_TEEsign_def)
  from tc_sign_wf [OF C(1) _ _ t(1) lim this] t(1) show ?thesis by (simp add: tc_wf_def)
next
  case (TC_prepare b b0 b1)
  have jw: "just_wf (jb_just b)" using t(2) TC_prepare by (simp add: jblock_wf_def)
  from c TC_prepare consider "j = Just_default" "t' = t"
    | u where "tc_advance C (jb_just b) (jb_just b0) b0 b1 t = Inr u" "j = Just_default" "t' = u"
    | u h where "tc_advance C (jb_just b) (jb_just b0) b0 b1 t = Inr u" "jblock_hash C b = Inr h"
        "tc_sign C h Hash_default 0 u = (j, t')"
    by (auto simp: tc_TEEprepare_def bindE_Inr_iff Let_def split: if_splits)
  then show ?thesis
  proof cases
    case (3 u h)
    have "Suc (tc_pos u) < tc_limit" using tc_advance_sel [OF 3(1)] lim by (simp add: tc_pos_def)
    from tc_sign_wf [OF C(1) jblock_hash_wf [OF C(2) 3(2)] _ tc_advance_wf [OF 3(1) jw t(1)] this 3(3)] show ?thesis by simp
  qed (use t jw tc_advance_wf in auto)
qed

lemma tc_run_wf:
  assumes C: "fresh_wf C" "sha_wf C"
  shows "tc_wf t \<Longrightarrow> \<forall>c\<in>set cs. tc_call_wf c \<Longrightarrow> tc_pos t + length cs < tc_limit \<Longrightarrow>
    call_run (tc_exec C ns) cs t = Inr (js, t') \<Longrightarrow> j \<in> set js \<Longrightarrow> j_set j \<Longrightarrow>
    unat (phase (union_rdata j)) < 10 \<and> rdata_wf (union_rdata j)"
proof (induction cs arbitrary: t js)
  case (Cons c cs)
  from Cons.prems(4) obtain i u ks where c: "tc_exec C ns c t = Inr (i, u)"
    and r: "call_run (tc_exec C ns) cs u = Inr (ks, t')" "js = i # ks"
    by (auto simp: bindE_Inr_iff)
  have "tc_call_wf c" "Suc (tc_pos t) < tc_limit" using Cons.prems(2,3) by auto
  note e = tc_exec_wf [OF C Cons.prems(1) this c]
  have "tc_ok t" using Cons.prems(1) by (simp add: tc_wf_def)
  from tc.call_pos [OF this \<open>Suc (tc_pos t) < tc_limit\<close> c] have "tc_pos u + length cs < tc_limit"
    using Cons.prems(3) by (auto split: if_splits)
  with Cons.IH [OF _ _ _ r(1)] e Cons.prems(2,5,6) show ?case by (auto simp: r(2))
qed simp

definition honest_runs_ch :: "crypto \<Rightarrow> Nodes \<Rightarrow> PID set \<Rightarrow> (PID \<Rightarrow> Just list) \<Rightarrow> bool" where
  "honest_runs_ch C ns honest js \<longleftrightarrow>
     (\<forall>p\<in>honest. \<exists>calls priv q t0 t. TrustedCh_new C p priv q = Inr t0 \<and>
        call_run (tc_exec C ns) calls t0 = Inr (js p, t) \<and>
        length calls < 2 * 2 ^ 32 - 2 \<and> (\<forall>c\<in>set calls. tc_call_wf c))"

lemma honest_runs_ch_consistent:
  assumes runs: "honest_runs_ch C ns honest js" and C: "fresh_wf C" "sha_wf C"
  shows "consistent honest js"
  unfolding consistent_def
proof (intro ballI impI)
  fix p j assume p: "p \<in> honest" and j: "j \<in> set (js p)" "j_set j"
  obtain calls priv q t0 t where n: "TrustedCh_new C p priv q = Inr t0"
    and r: "call_run (tc_exec C ns) calls t0 = Inr (js p, t)"
    and l: "length calls < 2 * 2 ^ 32 - 2" "\<forall>c\<in>set calls. tc_call_wf c"
    using runs p unfolding honest_runs_ch_def by blast
  have "tc_wf t0" using n tc_new [OF n] jblock_hash_wf [OF C(2)] by (auto simp: TrustedCh_new_def bindE_Inr_iff tc_wf_def)
  moreover have t0: "tc_ok t0" "tc_pos t0 + length calls < tc_limit" using tc_new [OF n] l(1) by (simp_all add: tc_limit_def)
  ultimately have "unat (phase (union_rdata j)) < 10 \<and> rdata_wf (union_rdata j)"
    using tc_run_wf [OF C _ l(2) _ r j] by blast
  moreover have "j' = j" if "j' \<in> set (js p)" "j_set j'" "propv (union_rdata j') = propv (union_rdata j)"
    "phase (union_rdata j') = phase (union_rdata j)" for j'
    using tc.run_no_equivocation [OF t0 r that(1) j(1) that(2) j(2)] that by (simp add: tc_stamp_def)
  ultimately show "rdata_wf (union_rdata j) \<and> unat (phase (union_rdata j)) < 10 \<and>
      (\<forall>j'\<in>set (js p). j_set j' \<and> propv (union_rdata j') = propv (union_rdata j) \<and>
         phase (union_rdata j') = phase (union_rdata j) \<longrightarrow> j' = j)" by auto
qed

text \<open>
  C5. Agreement on what is extended. If trusted components of the chained protocol (with quorum size
  \<open>c * f + 1 - f\<close>, \<open>3 \<le> c\<close>) vote for two proposals whose justifications are prepare certificates of the same view, by
  \<open>qsize\<close> different signers each, then the two proposals extend the same block: the certificates
  are for the same hash. At most \<open>f\<close> of at most \<open>c * f + 1\<close> known nodes are dishonest; the
  components of the others have been called fewer than \<open>2 * 2 ^ 32 - 2\<close> times (\<open>honest_runs_ch\<close>), and no signature in their names
  verifies for another text than they have signed (\<open>unforgeable\<close>). Both certified statements are \<open>decodable\<close>:
  any honest statement with the same text writes its \<open>justv\<close> with as many digits. (Without this a
  certificate of view \<open>10 * v\<close> could be read as one of view \<open>v\<close>.)
\<close>

theorem chained_agreement:
  assumes "honest_runs_ch C ns honest js" and "unforgeable C ns honest js"
    and "\<forall>text. length (fresh_buffer C text) = SIGN_LEN" and "\<forall>text. length (SHA256 C text) = SHA256_DIGEST_LENGTH"
    and "card (set (getIds ns)) \<le> c * f + 1" and "3 \<le> c" and "card (set (getIds ns) - honest) \<le> f"
    and "tc_TEEprepare C ns b1 b1' b1'' t1 = Inr (v1, u1)" and "j_set v1"
    and "tc_TEEprepare C ns b2 b2' b2'' t2 = Inr (v2, u2)" and "j_set v2"
    and "unat (tc_qsize t1) = c * f + 1 - f" and "unat (tc_qsize t2) = c * f + 1 - f"
    and "wellFormedPrep (jb_just b1) (tc_qsize t1)" and "wellFormedPrep (jb_just b2) (tc_qsize t2)"
    and "just_wf (jb_just b1)" "just_wf (jb_just b2)" "signs_ok (j_signs (jb_just b1))" "signs_ok (j_signs (jb_just b2))"
    and "distinct (map signer (sig_list (j_signs (jb_just b1))))" "distinct (map signer (sig_list (j_signs (jb_just b2))))"
    and "decodable honest js (union_rdata (jb_just b1))" "decodable honest js (union_rdata (jb_just b2))"
    and "getCView (jb_just b1) = getCView (jb_just b2)"
  shows "getCHash (jb_just b1) = getCHash (jb_just b2)"
proof -
  have C: "fresh_wf C" "sha_wf C" using assms(3,4) by (simp_all add: fresh_wf_def sha_wf_def)
  obtain r1 where r1: "getRData (jb_just b1) = Inr r1" "signs_verify C ns (j_signs (jb_just b1)) (rdata_toString r1) = Inr True"
    using tc_vote_effect [OF assms(8,9)] by blast
  obtain r2 where r2: "getRData (jb_just b2) = Inr r2" "signs_verify C ns (j_signs (jb_just b2)) (rdata_toString r2) = Inr True"
    using tc_vote_effect [OF assms(10,11)] by blast
  have u: "union_rdata (jb_just b1) = r1" "union_rdata (jb_just b2) = r2"
    using r1(1) r2(1) by (simp_all add: getRData_Inr_iff union_rdata_def)
  have ph: "phase r1 = PH1_PREPARE" "phase r2 = PH1_PREPARE" and sz: "sg_size (j_signs (jb_just b1)) = tc_qsize t1"
    "sg_size (j_signs (jb_just b2)) = tc_qsize t2"
    using assms(14,15) u by (simp_all add: wellFormedPrep_def)
  then have nf: "\<not> wellFormedInit (jb_just b1) \<and> \<not> wellFormedNv (jb_just b1)" "\<not> wellFormedInit (jb_just b2) \<and> \<not> wellFormedNv (jb_just b2)"
    using u by (auto simp: wellFormedInit_def wellFormedNv_def)
  have "certifies C ns (c * f + 1 - f) r1 (j_signs (jb_just b1))" "certifies C ns (c * f + 1 - f) r2 (j_signs (jb_just b2))"
    using r1(2) r2(2) sz assms(12,13,18-21) by (simp_all add: certifies_def)
  moreover have "propv r1 = propv r2" using assms(24) nf u by (simp add: getCView_def)
  moreover have "unat (phase r1) < 10" by (simp add: ph phase_defs)
  ultimately have "r1 = r2"
    using certificates_agree [OF honest_runs_ch_consistent [OF assms(1) C] assms(2,5-7), of r1 _ r2] ph u
      getRData_wf [OF r1(1) assms(16)] getRData_wf [OF r2(1) assms(17)] assms(22,23) by metis
  then show ?thesis using u nf by (simp add: getCHash_def)
qed

text \<open>
  One node, a hash function that tells one text from all others, and a library that accepts
  signatures of that text only: the text of the vote \<open>demo_prep\<close> for the block of view 1.
\<close>

definition demo_prep :: RData where
  "demo_prep = RData_new (Hash_of (replicate 32 50)) 1 Hash_default 0 PH1_PREPARE"

definition demo_cryptoC :: crypto where
  "demo_cryptoC = crypto_yes\<lparr>
     SHA256 := (\<lambda>text. if text = rdata_toString demo_prep then replicate 32 49 else replicate 32 50),
     ECDSA_verify := (\<lambda>d s k. if d = replicate 32 49 then 1 else 0)\<rparr>"

definition demo_first :: JBlock where
  "demo_first = JBlock_new 1 (Just_flag False (RData_new (Hash_zero False) 0 (Hash_of (replicate 32 50)) 0 PH1_NEWVIEW) Signs_empty)
     0 (replicate MAX_NUM_TRANSACTIONS Transaction_dummy)"

definition demo_next :: "u8 \<Rightarrow> JBlock" where
  "demo_next c = JBlock_new 2 (Just_sign demo_prep (Sign_char 1 c)) 0 (replicate MAX_NUM_TRANSACTIONS Transaction_dummy)"

lemma demo_hash:
  assumes "jblock_ok b" and "jb_set b"
  shows "jblock_hash demo_cryptoC b = Inr (Hash_of (replicate 32 50))"
proof -
  obtain tx where "jblock_toString b = Inr (49 # tx)"
    using assms by (simp add: jblock_toString_def just_toString_def jblock_transactions2string_def jblock_ok_def
        signs_toString_ok bool_string_def)
  moreover have "hd (rdata_toString demo_prep) = 50"
    by (simp add: demo_prep_def rdata_toString_def hash_toString_def Hash_of_def SHA256_DIGEST_LENGTH_def)
  then have "49 # tx \<noteq> rdata_toString demo_prep" by (auto dest: arg_cong [of _ _ hd])
  ultimately show ?thesis by (simp add: jblock_hash_def demo_cryptoC_def)
qed

lemma demo_blocks_ok [simp]: "jblock_ok demo_first" "jb_set demo_first" "jblock_ok (demo_next c)" "jb_set (demo_next c)"
  "jb_set JBlock_genesis"
  by (simp_all add: jblock_ok_def demo_first_def demo_next_def JBlock_new_def Just_flag_def JBlock_genesis_def JBlock_flag_def)

lemma demo_certificate: "signs_verify demo_cryptoC demo_nodes (Signs_one (Sign_char 1 c)) (rdata_toString demo_prep) = Inr True"
  by (simp add: signs_verify_eq sig_valid_def sign_verify_def verifyText_def demo_cryptoC_def Sign_char_def
      demo_nodes_def addNode_def nodes_find_def)

lemma demo_next_just:
  "getRData (jb_just (demo_next c)) = Inr demo_prep" "wellFormedPrep (jb_just (demo_next c)) 1"
  "getCHash (jb_just (demo_next c)) = Hash_of (replicate 32 50)" "getCView (jb_just (demo_next c)) = 1"
  "union_rdata (jb_just (demo_next c)) = demo_prep" "j_signs (jb_just (demo_next c)) = Signs_one (Sign_char 1 c)"
  "tc_verify demo_cryptoC demo_nodes (jb_just (demo_next c)) = Inr True"
  using demo_certificate by (simp_all add: demo_next_def JBlock_new_def wellFormedPrep_def getCHash_def getCView_def wellFormedInit_def
      wellFormedNv_def union_rdata_def demo_prep_def tc_verify_def)

lemma demo_first_just:
  "getRData (jb_just demo_first) = Inr (RData_new (Hash_zero False) 0 (Hash_of (replicate 32 50)) 0 PH1_NEWVIEW)"
  "wellFormed (jb_just demo_first) q" "getCHash (jb_just demo_first) = Hash_of (replicate 32 50)"
  "tc_verify demo_cryptoC demo_nodes (jb_just demo_first) = Inr True"
  by (simp_all add: demo_first_def JBlock_new_def Just_flag_def wellFormed_def getCHash_def wellFormedInit_def
      union_rdata_def getRDataType_def getRData_def tc_verify_def signs_verify_empty)

definition demo_voter :: TrustedCh where
  "demo_voter = \<lparr>tc_lockh = Hash_of (replicate 32 50), tc_lockv = 0, tc_preph = Hash_of (replicate 32 50), tc_prepv = 0, tc_view = 2,
      tc_phase = PH1_PREPARE, tc_id = 1, tc_priv = 5, tc_qsize = 1\<rparr>"

lemma demo_next_votes:
  "\<exists>v t'. tc_TEEprepare demo_cryptoC demo_nodes (demo_next c) demo_first JBlock_genesis demo_voter = Inr (v, t') \<and> j_set v"
proof -
  have "propv demo_prep = 1" by (simp add: demo_prep_def)
  moreover have "wellFormed (jb_just (demo_next c)) 1" by (simp add: demo_next_just wellFormed_def)
  ultimately show ?thesis
    by (simp add: tc_TEEprepare_def demo_next_just demo_first_just demo_voter_def tc_advance_def demo_hash tc_safeNode_def
        tc_sign_def Let_def)
qed

lemma demo_first_wf: "jblock_wf demo_first"
  by (simp add: jblock_wf_def demo_first_def JBlock_new_def Just_flag_def just_wf_def rdata_wf_def signs_wf_def Signs_empty_def
      sign_wf_def Sign_default_def trans_array_wf_def trans_wf_def Transaction_dummy_def
      hash_ok_def Hash_of_def SHA256_DIGEST_LENGTH_def Hash_zero_def)

lemma demo_genesis_just: "wellFormed (jb_just JBlock_genesis) q" "getCHash (jb_just JBlock_genesis) = Hash_default"
  by (simp_all add: JBlock_genesis_def JBlock_flag_def Just_default_def RData_default_def wellFormed_def getCHash_def
      wellFormedInit_def union_rdata_def getRDataType_def)

lemma demo_run_ch:
  "\<exists>t0 js t. TrustedCh_new demo_cryptoC 1 5 1 = Inr t0 \<and>
     call_run (tc_exec demo_cryptoC demo_nodes) [TC_sign, TC_prepare demo_first JBlock_genesis JBlock_genesis] t0 = Inr (js, t) \<and>
     (\<forall>j\<in>set js. justv (union_rdata j) = 0) \<and> (\<exists>j\<in>set js. j_set j \<and> union_rdata j = demo_prep)"
proof -
  have "\<not> hash_eq Hash_default (Hash_of (replicate 32 50))"
    by (simp add: hash_eq_iff Hash_default_def Hash_of_def SHA256_DIGEST_LENGTH_def)
  then show ?thesis
    by (simp add: TrustedCh_new_def demo_hash tc_TEEsign_def tc_sign_def Let_def tc_increment_def tc_TEEprepare_def
        demo_first_just demo_genesis_just tc_advance_def tc_safeNode_def union_rdata_def demo_prep_def)
qed

theorem chained_agreement_witness:
  "getCHash (jb_just (demo_next 65)) = getCHash (jb_just (demo_next 66))"
proof -
  let ?calls = "[TC_sign, TC_prepare demo_first JBlock_genesis JBlock_genesis]"
  obtain t0 js t where n: "TrustedCh_new demo_cryptoC 1 5 1 = Inr t0"
    and r: "call_run (tc_exec demo_cryptoC demo_nodes) ?calls t0 = Inr (js, t)" and zero: "\<forall>j\<in>set js. justv (union_rdata j) = 0"
    and j: "\<exists>j\<in>set js. j_set j \<and> union_rdata j = demo_prep"
    using demo_run_ch by blast
  have "length ?calls < 2 * 2 ^ 32 - 2" "\<forall>c\<in>set ?calls. tc_call_wf c" by (simp_all add: demo_first_wf)
  with n r have "honest_runs_ch demo_cryptoC demo_nodes {1} (\<lambda>_. js)" unfolding honest_runs_ch_def by blast
  moreover have "unforgeable demo_cryptoC demo_nodes {1} (\<lambda>_. js)"
  proof -
    have "(replicate 32 50 :: bytes) \<noteq> replicate 32 49" by simp
    with j show ?thesis
      by (auto simp: unforgeable_def sig_valid_def sign_verify_def verifyText_def demo_cryptoC_def split: option.splits if_splits)
  qed
  moreover have "decodable {1} (\<lambda>_. js) demo_prep"
    using zero by (simp add: decodable_def justv_width_def demo_prep_def)
  moreover have "\<forall>text. length (fresh_buffer demo_cryptoC text) = SIGN_LEN"
    "\<forall>text. length (SHA256 demo_cryptoC text) = SHA256_DIGEST_LENGTH"
    by (simp_all add: demo_cryptoC_def crypto_yes_def SHA256_DIGEST_LENGTH_def)
  moreover have "getIds demo_nodes = [1]" by (simp add: getIds_def demo_nodes_def addNode_def)
  moreover have "just_wf (jb_just (demo_next c))" for c
    by (auto simp: demo_next_def JBlock_new_def just_wf_def rdata_wf_def demo_prep_def sign_wf_def Sign_char_def
        hash_ok_def Hash_of_def SHA256_DIGEST_LENGTH_def Hash_default_def Hash_zero_def intro!: signs_one_wf)
  moreover have "tc_qsize demo_voter = 1" by (simp add: demo_voter_def)
  ultimately show ?thesis
    using chained_agreement [of demo_cryptoC demo_nodes "{1}" "\<lambda>_. js" 3 0 "demo_next 65" demo_first JBlock_genesis demo_voter _ _
        "demo_next 66" demo_first JBlock_genesis demo_voter]
      demo_next_votes [of 65] demo_next_votes [of 66] demo_next_just [of 65] demo_next_just [of 66] by (elim exE) auto
qed

end
