(* ===== verification/BasicHost.thy ===== *)
theory BasicHost
  imports Agreement ChainedRuns
begin

text \<open>
  What a node of the basic protocol does to its trusted component and to the network. The
  handlers touch the component only through its three calls, with arguments of the
  declared sizes, and they send only messages of the declared sizes, if that is what they
  receive. \<open>hosts C h h'\<close> says so of the way from \<open>h\<close> to \<open>h'\<close>; it is a preorder, every call and
  every send stays within it, and so does every handler.
\<close>

section \<open>Well-formed nodes\<close>

definition crypto_wf :: "crypto \<Rightarrow> bool" where
  "crypto_wf C \<longleftrightarrow> fresh_wf C \<and> sha_wf C"

definition vote_wf :: "RData msg \<Rightarrow> bool" where
  "vote_wf m \<longleftrightarrow> rdata_wf (m_rdata m) \<and> signs_wf (m_signs m)"

definition basic_log_wf :: "Log \<Rightarrow> bool" where
  "basic_log_wf l \<longleftrightarrow>
     (\<forall>k. (\<forall>m\<in>set (entries_of (map_find (newviews l) k)). vote_wf m) \<and>
          (\<forall>m\<in>set (entries_of (map_find (prepares l) k)). vote_wf m) \<and>
          (\<forall>m\<in>set (entries_of (map_find (precommits l) k)). vote_wf m) \<and>
          (\<forall>m\<in>set (entries_of (map_find (commits l) k)). vote_wf m) \<and>
          (\<forall>m\<in>set (entries_of (map_find (proposals l) k)). net_wf (Net_LdrPrepare m)))"

definition host_wf :: "Handler \<Rightarrow> bool" where
  "host_wf h \<longleftrightarrow> tf_wf (h_tf h) \<and> basic_log_wf (h_log h) \<and> (\<forall>t\<in>set (h_transactions h). trans_wf t)"

fun effect_wf :: "Effect \<Rightarrow> bool" where
  "effect_wf (Multicast m ps) = net_wf m"
| "effect_wf _ = True"

fun basic_event_wf :: "basic_event \<Rightarrow> bool" where
  "basic_event_wf (B_newview m) = net_wf (Net_NewView m)"
| "basic_event_wf (B_ldrprepare m) = net_wf (Net_LdrPrepare m)"
| "basic_event_wf (B_prepare m) = net_wf (Net_Prepare m)"
| "basic_event_wf (B_precommit m) = net_wf (Net_PreCommit m)"
| "basic_event_wf (B_commit m) = net_wf (Net_Commit m)"
| "basic_event_wf (B_transaction m) = trans_wf (t_trans m)"
| "basic_event_wf _ = True"

text \<open>\<open>signed_run C h js h'\<close>: the component of \<open>h\<close> becomes that of \<open>h'\<close> by calls that return \<open>js\<close>.\<close>

definition signed_run :: "crypto \<Rightarrow> Handler \<Rightarrow> Just list \<Rightarrow> Handler \<Rightarrow> bool" where
  "signed_run C h js h' \<longleftrightarrow>
     (\<exists>calls. call_run (tf_exec C (h_nodes h)) calls (h_tf h) = Inr (js, h_tf h') \<and> (\<forall>c\<in>set calls. tf_call_wf c))"

definition hosts :: "crypto \<Rightarrow> Handler \<Rightarrow> Handler \<Rightarrow> bool" where
  "hosts C h h' \<longleftrightarrow> host_wf h' \<and> h_nodes h' = h_nodes h \<and> h_qsize h' = h_qsize h \<and>
     (\<exists>js. signed_run C h js h') \<and> (\<exists>es. outs h' = outs h @ es \<and> (\<forall>e\<in>set es. effect_wf e))"

lemma call_run_append:
  "call_run call cs t = Inr (js, u) \<Longrightarrow> call_run call ds u = Inr (ks, v) \<Longrightarrow> call_run call (cs @ ds) t = Inr (js @ ks, v)"
  by (induction cs arbitrary: t js) (auto simp: bindE_Inr_iff)

lemma signed_run_trans:
  assumes "signed_run C h js h1" and "signed_run C h1 ks h2" and "h_nodes h1 = h_nodes h"
  shows "signed_run C h (js @ ks) h2"
proof -
  obtain cs ds where "call_run (tf_exec C (h_nodes h)) cs (h_tf h) = Inr (js, h_tf h1)" "\<forall>c\<in>set cs. tf_call_wf c"
    "call_run (tf_exec C (h_nodes h)) ds (h_tf h1) = Inr (ks, h_tf h2)" "\<forall>c\<in>set ds. tf_call_wf c"
    using assms by (auto simp: signed_run_def)
  with call_run_append [OF this(1,3)] show ?thesis unfolding signed_run_def by (intro exI [of _ "cs @ ds"]) auto
qed

lemma signed_run_refl: "h_tf h' = h_tf h \<Longrightarrow> signed_run C h [] h'"
  unfolding signed_run_def by (intro exI [of _ "[]"]) simp

lemma hosts_refl: "host_wf h \<Longrightarrow> hosts C h h"
  using signed_run_refl by (force simp: hosts_def)

lemma hosts_wf: "hosts C h0 h \<Longrightarrow> host_wf h"
  by (simp add: hosts_def)

text \<open>What each kind of step needs.\<close>

lemma hosts_frame:
  assumes "hosts C h0 h" and "h_tf h' = h_tf h" "h_nodes h' = h_nodes h" "h_qsize h' = h_qsize h" "outs h' = outs h"
    and "h_log h' = h_log h" "h_transactions h' = h_transactions h"
  shows "hosts C h0 h'"
  using assms by (simp add: hosts_def host_wf_def signed_run_def)

lemma hosts_send: "hosts C h0 h \<Longrightarrow> \<forall>e\<in>set es. effect_wf e \<Longrightarrow> hosts C h0 (emit es h)"
  unfolding hosts_def host_wf_def signed_run_def by (auto intro: exI [of _ "_ @ es"])

lemma hosts_log: "hosts C h0 h \<Longrightarrow> basic_log_wf l \<Longrightarrow> hosts C h0 (h\<lparr>h_log := l\<rparr>)"
  by (simp add: hosts_def host_wf_def signed_run_def)

lemma hosts_transactions:
  "hosts C h0 h \<Longrightarrow> \<forall>t\<in>set ts. trans_wf t \<Longrightarrow> hosts C h0 (h\<lparr>h_transactions := ts\<rparr>)"
  by (simp add: hosts_def host_wf_def signed_run_def)

lemma hosts_call:
  assumes C: "crypto_wf C" and h: "hosts C h0 h" and c: "tf_exec C (h_nodes h) c (h_tf h) = Inr (j, t)" "tf_call_wf c"
  shows "hosts C h0 (h\<lparr>h_tf := t\<rparr>) \<and> just_wf j"
proof -
  have w: "just_wf j \<and> tf_wf t"
    using tf_exec_wf [OF _ _ c(2,1)] C h by (simp add: crypto_wf_def hosts_def host_wf_def)
  obtain js where js: "signed_run C h0 js h" "h_nodes h = h_nodes h0" using h by (auto simp: hosts_def)
  have "signed_run C h [j] (h\<lparr>h_tf := t\<rparr>)"
    unfolding signed_run_def using c by (intro exI [of _ "[c]"]) simp
  from signed_run_trans [OF js(1) this js(2)] w h show ?thesis
    unfolding hosts_def host_wf_def by auto
qed

lemma host_wf_parts: "hosts C h0 h \<Longrightarrow> basic_log_wf (h_log h) \<and> (\<forall>t\<in>set (h_transactions h). trans_wf t)"
  by (simp add: hosts_def host_wf_def)

section \<open>Data\<close>

lemma just_wf_signs [simp]: "just_wf (Just_signs r ss) \<longleftrightarrow> rdata_wf r \<and> signs_wf ss"
  by (auto simp: just_wf_def Just_signs_def)

lemma vote_wf_new [simp]: "vote_wf (Msg_new r ss) \<longleftrightarrow> rdata_wf r \<and> signs_wf ss"
  by (simp add: vote_wf_def Msg_new_def)

lemma just_wf_j_signs: "just_wf j \<Longrightarrow> signs_wf (j_signs j)"
  by (simp add: just_wf_def)

lemma rdata_wf_new [simp]: "rdata_wf (RData_new a v b w p) \<longleftrightarrow> hash_ok a \<and> hash_ok b"
  by (simp add: rdata_wf_def)

lemma getRData_gives: "just_wf j \<Longrightarrow> gives rdata_wf (getRData j)"
  by (simp add: gives_def getRData_wf)

lemma block_hash_gives: "crypto_wf C \<Longrightarrow> gives hash_ok (block_hash C b)"
  by (auto simp: gives_def block_hash_def bindE_Inr_iff crypto_wf_def sha_wf_def)

lemma signs_wf_empty [simp]: "signs_wf Signs_empty"
  by (simp add: signs_wf_def Signs_empty_def sign_wf_def Sign_default_def)

lemma addUpto_loop_wf: "signs_wf others \<Longrightarrow> signs_wf sg \<Longrightarrow> gives signs_wf (addUpto_loop others n is sg)"
proof (induction "is" arbitrary: sg)
  case (Cons i k)
  have get: "gives sign_wf (signs_get others i)"
    using Cons.prems(1) by (auto simp: gives_def signs_get_def arr_iffs signs_wf_def)
  have add: "gives signs_wf (signs_add sg s)" if "sign_wf s" for s
    using Cons.prems(2) that set_update_subset_insert
    by (fastforce simp: gives_def signs_add_def arr_iffs signs_wf_def bindE_Inr_iff)
  show ?case
    by (simp, intro impI conjI gives_bind [OF get] gives_bind [OF add] Cons.IH Cons.prems)
qed simp

lemma collect_wf:
  "\<forall>m\<in>set ms. signs_wf (sg m) \<Longrightarrow> signs_wf acc \<Longrightarrow> gives signs_wf (collect sg n ms acc)"
  by (induction ms arbitrary: acc) (auto simp: addUpto_def intro!: gives_bind [OF addUpto_loop_wf])

lemma collect_at_wf: "\<forall>m\<in>set (entries_of e). signs_wf (sg m) \<Longrightarrow> gives signs_wf (collect_at sg n e)"
  by (auto simp: collect_at_def intro: collect_wf split: option.split)

lemma get_signs_wf:
  assumes "basic_log_wf l"
  shows "gives signs_wf (getNewView v n l)" "gives signs_wf (getPrepare v n l)"
    "gives signs_wf (getPrecommit v n l)" "gives signs_wf (getCommit v n l)"
  using assms
  by (auto simp: getNewView_def getPrepare_def getPrecommit_def getCommit_def basic_log_wf_def vote_wf_def intro!: collect_at_wf)

lemma first_wf:
  assumes "basic_log_wf l"
  shows "just_wf (firstPrepare v l)" "just_wf (firstPrecommit v l)" "just_wf (firstCommit v l)"
    "net_wf (Net_LdrPrepare (firstProposal v l))"
proof -
  show "just_wf (firstPrepare v l)" unfolding firstPrepare_def
    by (rule first_of_cases) (use assms in \<open>auto simp: basic_log_wf_def vote_wf_def\<close>)
  show "just_wf (firstPrecommit v l)" unfolding firstPrecommit_def
    by (rule first_of_cases) (use assms in \<open>auto simp: basic_log_wf_def vote_wf_def\<close>)
  show "just_wf (firstCommit v l)" unfolding firstCommit_def
    by (rule first_of_cases) (use assms in \<open>auto simp: basic_log_wf_def vote_wf_def\<close>)
  have d: "net_wf (Net_LdrPrepare MsgLdrPrepare_default)"
    by (simp add: MsgLdrPrepare_default_def LdrMsg_new_def Proposal_new_def block_wf_def Block_genesis_def Block_flag_def
        trans_array_wf_def trans_wf_def Transaction_dummy_def)
  show "net_wf (Net_LdrPrepare (firstProposal v l))" unfolding firstProposal_def
    by (rule first_of_cases [of "\<lambda>m. net_wf (Net_LdrPrepare m)", OF d]) (use assms in \<open>auto simp: basic_log_wf_def\<close>)
qed

lemma findHighestNv_wf:
  assumes "basic_log_wf l"
  shows "just_wf (findHighestNv v l)"
proof -
  have "just_wf j \<Longrightarrow> \<forall>m\<in>set ms. vote_wf m \<Longrightarrow>
      just_wf (highest_loop (\<lambda>m. justv (m_rdata m)) (\<lambda>m. Just_signs (m_rdata m) (m_signs m)) ms h j)" for ms h j
    by (induction ms arbitrary: h j) (auto simp: vote_wf_def)
  moreover have "\<forall>m\<in>set (entries_of (map_find (newviews l) v)). vote_wf m"
    using assms by (simp add: basic_log_wf_def)
  ultimately show ?thesis
    unfolding findHighestNv_def by (cases "map_find (newviews l) v") simp_all
qed

text \<open>Storing a well-formed message keeps the log well-formed.\<close>

lemma basic_log_wf_upd:
  assumes "basic_log_wf l"
  shows "(\<And>k m. m \<in> set (entries_of (map_find x k)) \<Longrightarrow> vote_wf m) \<Longrightarrow> basic_log_wf (l\<lparr>newviews := x\<rparr>)"
    "(\<And>k m. m \<in> set (entries_of (map_find x k)) \<Longrightarrow> vote_wf m) \<Longrightarrow> basic_log_wf (l\<lparr>prepares := x\<rparr>)"
    "(\<And>k m. m \<in> set (entries_of (map_find x k)) \<Longrightarrow> vote_wf m) \<Longrightarrow> basic_log_wf (l\<lparr>precommits := x\<rparr>)"
    "(\<And>k m. m \<in> set (entries_of (map_find x k)) \<Longrightarrow> vote_wf m) \<Longrightarrow> basic_log_wf (l\<lparr>commits := x\<rparr>)"
    "(\<And>k m. m \<in> set (entries_of (map_find y k)) \<Longrightarrow> net_wf (Net_LdrPrepare m)) \<Longrightarrow> basic_log_wf (l\<lparr>proposals := y\<rparr>)"
  using assms by (simp_all add: basic_log_wf_def)

lemma store_new_wf:
  assumes "store_new lt hrd v m log = Inr (log', n)" and "strict_weak_order lt"
    and "\<And>k m. m \<in> set (entries_of (map_find log k)) \<Longrightarrow> P m" and "P m"
  shows "x \<in> set (entries_of (map_find log' k)) \<Longrightarrow> P x"
  using store_new_entries [OF assms(1,2)] assms(3,4) by blast

lemma stores_wf:
  assumes l: "basic_log_wf l"
  shows "vote_wf m \<Longrightarrow> gives (\<lambda>(l', n). basic_log_wf l') (storeNv m l)"
    and "vote_wf m \<Longrightarrow> gives (\<lambda>(l', n). basic_log_wf l') (storePrep m l)"
    and "vote_wf m \<Longrightarrow> gives (\<lambda>(l', n). basic_log_wf l') (storePc m l)"
    and "vote_wf m \<Longrightarrow> gives (\<lambda>(l', n). basic_log_wf l') (storeCom m l)"
    and "net_wf (Net_LdrPrepare mp) \<Longrightarrow> gives (\<lambda>(l', n). basic_log_wf l') (storeProp mp l)"
proof -
  have e: "vote_wf x" if "x \<in> set (entries_of (map_find (f l) k))" "f \<in> {newviews, prepares, precommits, commits}" for x k f
    using l that unfolding basic_log_wf_def by blast
  have p: "net_wf (Net_LdrPrepare x)" if "x \<in> set (entries_of (map_find (proposals l) k))" for x k
    using l that unfolding basic_log_wf_def by blast
  have st: "gives (\<lambda>(l', n). basic_log_wf l')
      (bindE (getSigners (m_signs m)) (\<lambda>S. bindE (store_new msg_less (hrd S) v m (f l)) (\<lambda>(x, n). Inr (upd x, n))))"
    if m: "vote_wf m" and f: "f \<in> {newviews, prepares, precommits, commits}"
      and upd: "\<And>x. (\<And>k m. m \<in> set (entries_of (map_find x k)) \<Longrightarrow> vote_wf m) \<Longrightarrow> basic_log_wf (upd x)" for f upd hrd v
  proof (rule gives_bind [OF gives_any])
    fix S
    have "basic_log_wf (upd x)" if "store_new msg_less (hrd S) v m (f l) = Inr (x, n)" for x n
      using store_new_wf [where P = vote_wf, OF that msg_order.strict_weak_order_axioms] e [OF _ f] m by (intro upd) blast
    then show "gives (\<lambda>(l', n). basic_log_wf l') (bindE (store_new msg_less (hrd S) v m (f l)) (\<lambda>(x, n). Inr (upd x, n)))"
      by (auto simp: gives_def bindE_Inr_iff)
  qed
  show "vote_wf m \<Longrightarrow> gives (\<lambda>(l', n). basic_log_wf l') (storeNv m l)"
    unfolding storeNv_def by (rule st) (auto intro: basic_log_wf_upd(1) [OF l])
  show "vote_wf m \<Longrightarrow> gives (\<lambda>(l', n). basic_log_wf l') (storePrep m l)"
    unfolding storePrep_def by (rule st) (auto intro: basic_log_wf_upd(2) [OF l])
  show "vote_wf m \<Longrightarrow> gives (\<lambda>(l', n). basic_log_wf l') (storePc m l)"
    unfolding storePc_def by (rule st) (auto intro: basic_log_wf_upd(3) [OF l])
  show "vote_wf m \<Longrightarrow> gives (\<lambda>(l', n). basic_log_wf l') (storeCom m l)"
    unfolding storeCom_def by (rule st) (auto intro: basic_log_wf_upd(4) [OF l])
  assume mp: "net_wf (Net_LdrPrepare mp)"
  have "basic_log_wf (l\<lparr>proposals := x\<rparr>)" if "store_new ldr_msg_less hrd v mp (proposals l) = Inr (x, n)" for x n hrd v
    using store_new_wf [where P = "\<lambda>m. net_wf (Net_LdrPrepare m)", OF that ldr_msg_order.strict_weak_order_axioms] p mp
    by (intro basic_log_wf_upd(5) [OF l]) blast
  then show "gives (\<lambda>(l', n). basic_log_wf l') (storeProp mp l)"
    by (auto simp: gives_def storeProp_def bindE_Inr_iff)
qed

section \<open>The calls\<close>

lemma hosts_upd [simp]:
  "hosts C h0 (h\<lparr>h_blocks := a\<rparr>) = hosts C h0 h" "hosts C h0 (h\<lparr>h_rep_queue := b\<rparr>) = hosts C h0 h"
  "hosts C h0 (h\<lparr>h_viewsWithoutNewTrans := c\<rparr>) = hosts C h0 h" "hosts C h0 (h\<lparr>h_view := d\<rparr>) = hosts C h0 h"
  "hosts C h0 (h\<lparr>h_timerView := e\<rparr>) = hosts C h0 h" "hosts C h0 (h\<lparr>h_clients := f\<rparr>) = hosts C h0 h"
  "hosts C h0 (h\<lparr>h_started := g\<rparr>) = hosts C h0 h"
  by (simp_all add: hosts_def host_wf_def signed_run_def)

lemma hosts_effect: "hosts C h0 h \<Longrightarrow> effect_wf e \<Longrightarrow> hosts C h0 (emit [e] h)"
  by (rule hosts_send) simp_all

lemma callTEEsign_hosts:
  assumes "crypto_wf C" and "hosts C h0 h" and "callTEEsign C h = (j, h1)"
  shows "hosts C h0 h1" "just_wf j"
  using hosts_call [OF assms(1,2), of TF_sign j "snd (tf_TEEsign C (h_tf h))"] assms(3)
  by (auto simp: callTEEsign_def split: prod.splits)

lemma callTEEprepare_hosts:
  assumes "crypto_wf C" and "hosts C h0 h" and "hash_ok bh" and "just_wf j"
  shows "gives (\<lambda>(j', h'). just_wf j' \<and> hosts C h0 h') (callTEEprepare C bh j h)"
  using hosts_call [OF assms(1,2), of "TF_prepare bh j"] assms(3,4)
  by (auto simp: callTEEprepare_def gives_def bindE_Inr_iff)

lemma callTEEstore_hosts:
  assumes "crypto_wf C" and "hosts C h0 h" and "just_wf j"
  shows "gives (\<lambda>(j', h'). just_wf j' \<and> hosts C h0 h') (callTEEstore C j h)"
  using hosts_call [OF assms(1,2), of "TF_store j"] assms(3)
  by (auto simp: callTEEstore_def gives_def bindE_Inr_iff)

lemma keep_vote:
  assumes "hosts C h0 h" and "vote_wf m"
    and "\<And>l n. basic_log_wf l \<Longrightarrow> hosts C h0 (h\<lparr>h_log := l\<rparr>) \<Longrightarrow> gives K (f l n)"
  shows "gives K (bindE (storeNv m (h_log h)) (\<lambda>(l, n). f l n))" "gives K (bindE (storePrep m (h_log h)) (\<lambda>(l, n). f l n))"
    "gives K (bindE (storePc m (h_log h)) (\<lambda>(l, n). f l n))" "gives K (bindE (storeCom m (h_log h)) (\<lambda>(l, n). f l n))"
proof -
  note l = host_wf_parts [OF assms(1), THEN conjunct1]
  have go: "gives K (bindE s (\<lambda>(l, n). f l n))" if "gives (\<lambda>(l', n). basic_log_wf l') s" for s
    by (rule gives_bind [OF that]) (auto intro!: assms(3) hosts_log [OF assms(1)])
  show "gives K (bindE (storeNv m (h_log h)) (\<lambda>(l, n). f l n))" "gives K (bindE (storePrep m (h_log h)) (\<lambda>(l, n). f l n))"
    "gives K (bindE (storePc m (h_log h)) (\<lambda>(l, n). f l n))" "gives K (bindE (storeCom m (h_log h)) (\<lambda>(l, n). f l n))"
    by (rule go [OF stores_wf(1) [OF l assms(2)]], rule go [OF stores_wf(2) [OF l assms(2)]],
        rule go [OF stores_wf(3) [OF l assms(2)]], rule go [OF stores_wf(4) [OF l assms(2)]])
qed

section \<open>Answers of a backup\<close>

lemma respondToProposal_hosts:
  assumes C: "crypto_wf C" and h: "hosts C h0 h" and j: "just_wf j"
  shows "gives (hosts C h0) (respondToProposal C j b h)"
  unfolding respondToProposal_def Let_def
  apply (rule gives_bind [OF block_hash_gives [OF C]], rule gives_bind [OF callTEEprepare_hosts [OF C h _ j]], assumption)
  apply (clarify, rule gives_if, rule gives_bind [OF getRData_gives], assumption)
  by (auto simp: Msg_new_def dest: just_wf_j_signs intro!: hosts_effect)

lemma respondToPrepareJust_hosts:
  assumes C: "crypto_wf C" and h: "hosts C h0 h" and j: "just_wf j"
  shows "gives (hosts C h0) (respondToPrepareJust C j h)"
  unfolding respondToPrepareJust_def
  by (rule gives_bind [OF callTEEstore_hosts [OF C h j]], clarify, rule gives_bind [OF getRData_gives], assumption)
    (auto simp: Msg_new_def dest: just_wf_j_signs intro!: hosts_effect)

lemma respondToPreCommitJust_hosts:
  assumes C: "crypto_wf C" and h: "hosts C h0 h" and j: "just_wf j"
  shows "gives (hosts C h0) (respondToPreCommitJust C j h)"
  unfolding respondToPreCommitJust_def
  by (rule gives_bind [OF callTEEstore_hosts [OF C h j]], clarify, rule gives_bind [OF getRData_gives], assumption)
    (auto simp: Msg_new_def dest: just_wf_j_signs intro!: hosts_effect)

lemma createNewBlock_hosts:
  assumes h: "hosts C h0 h" and b: "createNewBlock hash h = (b, h')" and ok: "hash_ok hash"
  shows "hosts C h0 h'" "block_wf b"
proof -
  let ?ts = "h_transactions h"
  have ts: "\<forall>t\<in>set ?ts. trans_wf t" using host_wf_parts [OF h] by blast
  have d: "trans_wf Transaction_dummy" by (simp add: trans_wf_def Transaction_dummy_def)
  have tk: "t \<in> set (take n ?ts) \<Longrightarrow> trans_wf t" for t n using ts in_set_takeD by fast
  show "block_wf b"
    using b ok d ts
    by (auto simp: createNewBlock_def fill_block_def Let_def Block_new_def block_wf_def trans_array_wf_def dest: tk)
  show "hosts C h0 h'"
    using b ts by (auto simp: createNewBlock_def fill_block_def Let_def intro!: hosts_transactions [OF h] dest: in_set_dropD)
qed

lemma handleLdrPrepare_hosts:
  assumes C: "crypto_wf C" and h: "hosts C h0 h" and m: "net_wf (Net_LdrPrepare msg)"
  shows "gives (hosts C h0) (handleLdrPrepare C msg h)"
proof -
  have "gives (hosts C h0) (bindE (storeProp msg (h_log h)) (\<lambda>(l, n). Inr (h\<lparr>h_log := l\<rparr>)))"
    by (rule gives_bind [OF stores_wf(5) [OF conjunct1 [OF host_wf_parts [OF h]] m]]) (auto intro: hosts_log [OF h])
  moreover have "gives (hosts C h0) (respondToProposal C (pr_just (l_prop msg)) b h)" for b
    using m by (intro respondToProposal_hosts [OF C h]) simp
  ultimately show ?thesis
    using h unfolding handleLdrPrepare_def Let_def by (intro gives_bind [OF gives_any]) simp
qed

section \<open>The leader's phases and the view change\<close>

text \<open>The inner calls of \<open>startNewView\<close>.\<close>

locale hosted_views =
  fixes C :: crypto and snv :: "Handler \<Rightarrow> Handler res"
  assumes snv_hosts: "crypto_wf C \<Longrightarrow> hosts C h0 h \<Longrightarrow> gives (hosts C h0) (snv h)"
begin

lemma executeRData_hosts:
  assumes C: "crypto_wf C" and h: "hosts C h0 h"
  shows "gives (hosts C h0) (executeRData C snv rdata h)"
proof -
  have rep: "gives (hosts C h0) (replyHash C x g)" if "hosts C h0 g" for x g
    using that replyHash_frame by (fastforce simp: gives_def)
  show ?thesis
    unfolding executeRData_def Let_def
    by (rule gives_bind [OF rep]) (auto simp: recordStats_def h intro!: hosts_effect snv_hosts [OF C])
qed

lemma initiateCommit_hosts:
  assumes C: "crypto_wf C" and h: "hosts C h0 h" and r: "rdata_wf rdata"
  shows "gives (hosts C h0) (initiateCommit C snv rdata h)"
  unfolding initiateCommit_def sendMsg_def
  by (rule gives_bind [OF get_signs_wf(4) [OF conjunct1 [OF host_wf_parts [OF h]]]])
    (auto simp: h r Msg_new_def intro!: executeRData_hosts [OF C] hosts_effect)

lemma initiatePrecommit_hosts:
  assumes C: "crypto_wf C" and h: "hosts C h0 h" and r: "rdata_wf rdata"
  shows "gives (hosts C h0) (initiatePrecommit C snv rdata h)"
  unfolding initiatePrecommit_def sendMsg_def Let_def
  apply (rule gives_bind [OF get_signs_wf(3) [OF conjunct1 [OF host_wf_parts [OF h]]]], rule gives_if)
   apply (rule gives_bind [OF callTEEstore_hosts [OF C hosts_effect [OF h]]])
     apply (simp add: r Msg_new_def, simp add: r, clarify, rule gives_bind [OF getRData_gives], assumption)
   apply (rule keep_vote(4), assumption)
  by (auto simp: h dest: just_wf_j_signs intro!: initiateCommit_hosts [OF C])

lemma initiatePrepare_hosts:
  assumes C: "crypto_wf C" and h: "hosts C h0 h" and r: "rdata_wf rdata"
  shows "gives (hosts C h0) (initiatePrepare C snv rdata h)"
  unfolding initiatePrepare_def sendMsg_def Let_def
  apply (rule gives_bind [OF get_signs_wf(2) [OF conjunct1 [OF host_wf_parts [OF h]]]], rule gives_if)
   apply (rule gives_bind [OF callTEEstore_hosts [OF C hosts_effect [OF h]]])
     apply (simp add: r Msg_new_def, simp add: r, clarify, rule gives_bind [OF getRData_gives], assumption)
   apply (rule keep_vote(3), assumption)
  by (auto simp: h dest: just_wf_j_signs intro!: initiatePrecommit_hosts [OF C])

lemma prepare_hosts:
  assumes C: "crypto_wf C" and h: "hosts C h0 h"
  shows "gives (hosts C h0) (prepare C snv h)"
proof -
  let ?j = "findHighestNv (h_view h) (h_log h)"
  have j: "just_wf ?j" using host_wf_parts [OF h] by (simp add: findHighestNv_wf)
  have go: "gives (hosts C h0) (bindE (storePrep (Msg_new r (j_signs jp)) (h_log g)) (\<lambda>(l, n).
      let h = g\<lparr>h_log := l\<rparr> in if h_qsize h \<le> n then initiatePrepare C snv r h else Inr h))"
    if "hosts C h0 g" "just_wf jp" "rdata_wf r" for g jp r
    unfolding Let_def by (rule keep_vote(2) [OF that(1)]) (use that in \<open>auto dest: just_wf_j_signs intro!: initiatePrepare_hosts [OF C]\<close>)
  have prep: "gives (hosts C h0) (bindE (callTEEprepare C bh ?j g) (\<lambda>(justPrep, h).
          if j_set justPrep then
            (let h = h\<lparr>h_blocks := map_set (h_view h) b (h_blocks h)\<rparr>; signs = j_signs justPrep in
             bindE (getRData justPrep) (\<lambda>r.
               let h = sendMsg (Net_LdrPrepare (LdrMsg_new (Proposal_new ?j b) signs))
                         (remove_from_peers h (h_myid h)) h
               in bindE (storePrep (Msg_new r signs) (h_log h)) (\<lambda>(l, n).
                    let h = h\<lparr>h_log := l\<rparr> in
                    if h_qsize h \<le> n then initiatePrepare C snv r h else Inr h)))
          else Inr h))" if g: "hosts C h0 g" "block_wf b" and bh: "hash_ok bh" for g b bh
  proof (rule gives_bind [OF callTEEprepare_hosts [OF C g(1) bh j]], clarify, rule gives_if)
    fix jp g' assume jp: "just_wf jp" and g': "hosts C h0 g'"
    show "gives (hosts C h0) (let h = g'\<lparr>h_blocks := map_set (h_view g') b (h_blocks g')\<rparr>; signs = j_signs jp in
             bindE (getRData jp) (\<lambda>r.
               let h = sendMsg (Net_LdrPrepare (LdrMsg_new (Proposal_new ?j b) signs))
                         (remove_from_peers h (h_myid h)) h
               in bindE (storePrep (Msg_new r signs) (h_log h)) (\<lambda>(l, n).
                    let h = h\<lparr>h_log := l\<rparr> in
                    if h_qsize h \<le> n then initiatePrepare C snv r h else Inr h)))"
      unfolding Let_def [of "_\<lparr>h_blocks := _\<rparr>"] Let_def [of "j_signs _"] Let_def [of "sendMsg _ _ _"]
      by (intro gives_bind [OF getRData_gives [OF jp]] go jp) (simp add: g' hosts_effect sendMsg_def LdrMsg_new_def Proposal_new_def j g(2) just_wf_j_signs [OF jp])
  qed simp
  show ?thesis
    unfolding prepare_def Let_def [of "findHighestNv _ _"]
  proof (rule gives_bind [OF getRData_gives [OF j]])
    fix r assume r: "rdata_wf r"
    obtain b g where b: "createNewBlock (justh r) h = (b, g)" by fastforce
    from createNewBlock_hosts [OF h b] r have g: "hosts C h0 g" "block_wf b" by (simp_all add: rdata_wf_def)
    show "gives (hosts C h0) (let (block, h) = createNewBlock (justh r) h in
        bindE (block_hash C block) (\<lambda>bh.
        bindE (callTEEprepare C bh ?j h) (\<lambda>(justPrep, h).
          if j_set justPrep then
            (let h = h\<lparr>h_blocks := map_set (h_view h) block (h_blocks h)\<rparr>; signs = j_signs justPrep in
             bindE (getRData justPrep) (\<lambda>r.
               let h = sendMsg (Net_LdrPrepare (LdrMsg_new (Proposal_new ?j block) signs))
                         (remove_from_peers h (h_myid h)) h
               in bindE (storePrep (Msg_new r signs) (h_log h)) (\<lambda>(l, n).
                    let h = h\<lparr>h_log := l\<rparr> in
                    if h_qsize h \<le> n then initiatePrepare C snv r h else Inr h)))
          else Inr h)))"
      unfolding b Let_def [of "(b, g)"] prod.case
      by (rule gives_bind [OF block_hash_gives [OF C]], rule prep [OF g])
  qed
qed

lemma handleNewview_hosts:
  assumes C: "crypto_wf C" and h: "hosts C h0 h" and m: "vote_wf msg"
  shows "gives (hosts C h0) (handleNewview C snv msg h)"
  unfolding handleNewview_def Let_def
  by (rule gives_if, rule keep_vote(1) [OF h m]) (use h in \<open>auto intro: prepare_hosts [OF C]\<close>)

lemma handlePrepare_hosts:
  assumes C: "crypto_wf C" and h: "hosts C h0 h" and m: "vote_wf msg"
  shows "gives (hosts C h0) (handlePrepare C snv msg h)"
  unfolding handlePrepare_def Let_def
  by (intro gives_if keep_vote(2) [OF h m] initiatePrepare_hosts [OF C] respondToPrepareJust_hosts [OF C h])
    (use h m in \<open>simp_all add: vote_wf_def\<close>)

lemma handlePrecommit_hosts:
  assumes C: "crypto_wf C" and h: "hosts C h0 h" and m: "vote_wf msg"
  shows "gives (hosts C h0) (handlePrecommit C snv msg h)"
  unfolding handlePrecommit_def Let_def
  by (intro gives_if keep_vote(3) [OF h m] initiatePrecommit_hosts [OF C] respondToPreCommitJust_hosts [OF C h])
    (use h m in \<open>simp_all add: vote_wf_def\<close>)

lemma handleCommit_hosts:
  assumes C: "crypto_wf C" and h: "hosts C h0 h" and m: "vote_wf msg"
  shows "gives (hosts C h0) (handleCommit C snv msg h)"
  unfolding handleCommit_def Let_def
  by (intro gives_if keep_vote(4) [OF h m] initiateCommit_hosts [OF C] gives_bind [OF gives_any, of _ "\<lambda>b. if b then _ b else _ b"]
      executeRData_hosts [OF C])
    (use h m in \<open>simp_all add: vote_wf_def\<close>)

lemma handleEarlierMessages_hosts:
  assumes C: "crypto_wf C" and h: "hosts C h0 h"
  shows "gives (hosts C h0) (handleEarlierMessages C snv h)"
proof -
  note l = host_wf_parts [OF h, THEN conjunct1]
  obtain j1 g1 where c1: "callTEEsign C h = (j1, g1)" by fastforce
  obtain j2 g2 where c2: "callTEEsign C g1 = (j2, g2)" by fastforce
  note g1 = callTEEsign_hosts(1) [OF C h c1]
  note g2 = callTEEsign_hosts(1) [OF C g1 c2]
  have com: "gives (hosts C h0) (bindE (getCommit (h_view g) (h_qsize g) (h_log g)) (\<lambda>signsCom.
      if sg_size signsCom = h_qsize g then
        bindE (getRData (firstCommit (h_view g) (h_log g))) (\<lambda>r. executeRData C snv r g)
      else Inr g))" if "hosts C h0 g" for g
    by (intro gives_bind [OF gives_any] gives_if executeRData_hosts [OF C]) (simp_all add: that)
  have pc: "gives (hosts C h0) (bindE (respondToPreCommitJust C (firstPrecommit (h_view h) (h_log h)) g2) (\<lambda>h.
      bindE (getCommit (h_view h) (h_qsize h) (h_log h)) (\<lambda>signsCom.
        if sg_size signsCom = h_qsize h then
          bindE (getRData (firstCommit (h_view h) (h_log h))) (\<lambda>r. executeRData C snv r h)
        else Inr h)))"
    by (rule gives_bind [OF respondToPreCommitJust_hosts [OF C g2 first_wf(2) [OF l]] com])
  have prp: "gives (hosts C h0) (respondToProposal C (pr_just (l_prop (firstProposal v (h_log h)))) b h)" for v b
    using first_wf(4) [OF l, of v] by (intro respondToProposal_hosts [OF C h]) simp
  show ?thesis
    unfolding handleEarlierMessages_def Let_def c1 c2 prod.case
    by (intro gives_if gives_bind [OF gives_any, of "\<lambda>s. if _ s then _ s else _ s"] gives_bind [OF gives_any] prepare_hosts [OF C h] pc prp
        respondToPrepareJust_hosts [OF C g1 first_wf(1) [OF l]]) (simp_all add: h)
qed

lemma signUntilView_hosts:
  assumes C: "crypto_wf C"
  shows "hosts C h0 h \<Longrightarrow> just_wf j \<Longrightarrow> gives (\<lambda>(j', h'). just_wf j' \<and> hosts C h0 h') (signUntilView C v fuel j h)"
proof (induction fuel arbitrary: j h)
  case (Suc fuel)
  obtain j1 h1 where c: "callTEEsign C h = (j1, h1)" by fastforce
  note c' = callTEEsign_hosts [OF C Suc.prems(1) c]
  show ?case
    unfolding signUntilView.simps Let_def c prod.case
    by (intro gives_bind [OF gives_any] gives_if Suc.IH c') (simp add: Suc.prems)
qed simp

lemma startNewView_body_hosts:
  assumes C: "crypto_wf C" and h: "hosts C h0 h"
  shows "gives (hosts C h0) (startNewView_body C snv h)"
proof -
  obtain j1 h1 where c: "callTEEsign C h = (j1, h1)" by fastforce
  note c' = callTEEsign_hosts [OF C h c]
  show ?thesis
    unfolding startNewView_body_def c prod.case Let_def [of "(j1, h1)"]
  proof (rule gives_bind [OF signUntilView_hosts [OF C c']], clarify)
    fix j g assume j: "just_wf j" and g: "hosts C h0 g"
    let ?g = "setTimer (g\<lparr>h_view := h_view g + 1\<rparr>)"
    have t: "hosts C h0 ?g" using g by (auto simp: setTimer_def intro!: hosts_send)
    have nv: "vote_wf (Msg_new r (j_signs j))" if "rdata_wf r" for r using that just_wf_j_signs [OF j] by simp
    have sent: "hosts C h0 (sendMsg (Net_NewView (Msg_new r (j_signs j))) ps ?g)" if "rdata_wf r" for r ps
      unfolding sendMsg_def using that just_wf_j_signs [OF j] by (intro hosts_effect [OF t]) (simp add: Msg_new_def)
    show "gives (hosts C h0) (let h = ?g in
        bindE (getRData j) (\<lambda>r.
          if propv r = h_view h \<and> phase r = PH1_NEWVIEW then
            (let msg = Msg_new r (j_signs j) in
             if amCurrentLeader h then
               bindE (handleEarlierMessages C snv h) (\<lambda>h. handleNewview C snv msg h)
             else
               handleEarlierMessages C snv
                 (sendMsg (Net_NewView msg) (keep_from_peers h (getCurrentLeader h)) h))
          else Inr h))"
      unfolding Let_def
      by (intro gives_bind [OF getRData_gives [OF j]] gives_if gives_bind [OF handleEarlierMessages_hosts [OF C t]]
          handleNewview_hosts [OF C] handleEarlierMessages_hosts [OF C sent] nv t gives_Inr [THEN iffD2])
  qed
qed

end

lemma startNewView_fuel_hosted: "hosted_views C (startNewView_fuel C n)"
proof (induction n)
  case (Suc n)
  then show ?case by (intro hosted_views.intro) (simp add: hosted_views.startNewView_body_hosts)
qed (simp add: hosted_views_def)

interpretation host: hosted_views C "startNewView C" for C
  using startNewView_fuel_hosted [of C view_fuel] unfolding startNewView_def [abs_def] .

section \<open>Every event\<close>

lemma drain_replies_hosts: "hosts C h0 h \<Longrightarrow> hosts C h0 (drain_replies ok q h)"
proof (induction ok q h rule: drain_replies.induct)
  case (2 ok tid cid q h)
  have "hosts C h0 (emit [SendReply r c] h)" for r c using "2.prems" by (simp add: hosts_effect)
  with 2 show ?case by (auto split: option.splits prod.splits)
qed simp

lemma handleTransaction_hosts:
  assumes h: "hosts C h0 h" and m: "trans_wf (t_trans m)"
  shows "hosts C h0 (handleTransaction m h)"
proof -
  have "\<forall>t\<in>set (h_transactions h @ [t_trans m]). trans_wf t" using host_wf_parts [OF h] m by simp
  from hosts_transactions [OF _ this] h show ?thesis
    by (auto simp: handleTransaction_def split: option.splits prod.splits)
qed

lemma getStarted_hosts:
  assumes C: "crypto_wf C" and h: "hosts C h0 h"
  shows "gives (hosts C h0) (getStarted C h)"
proof -
  obtain j g where c: "callTEEsign C h = (j, g)" by fastforce
  note c' = callTEEsign_hosts [OF C h c]
  have nv: "vote_wf (Msg_new r (j_signs j))" if "rdata_wf r" for r using that just_wf_j_signs [OF c'(2)] by simp
  have sent: "hosts C h0 (sendMsg (Net_NewView (Msg_new r (j_signs j))) ps g)" if "rdata_wf r" for r ps
    unfolding sendMsg_def using that just_wf_j_signs [OF c'(2)] by (intro hosts_effect [OF c'(1)]) (simp add: Msg_new_def)
  show ?thesis
    unfolding getStarted_def c Let_def prod.case
    by (intro gives_bind [OF getRData_gives [OF c'(2)]] gives_if host.handleNewview_hosts [OF C c'(1)] nv gives_Inr [THEN iffD2] sent)
qed

lemma basic_step_hosts:
  assumes C: "crypto_wf C" and h: "hosts C h0 h" and e: "basic_event_wf ev"
  shows "gives (hosts C h0) (basic_step C send_ok ev h)"
proof (cases ev)
  case B_timer
  have "gives (hosts C h0) (bindE (if \<not> h_isPaused h then startNewView C h else Inr h) (\<lambda>h. Inr (emit [TimerDel, TimerAdd] h)))"
    by (rule gives_bind [of "hosts C h0"]) (auto simp: h intro!: hosts_send host.snv_hosts [OF C])
  with B_timer h show ?thesis by (auto simp: on_timer_def recordStats_def intro!: hosts_send hosts_effect)
next
  case (B_signal s)
  have "hosts C h0 (signalHandler s h)" by (rule hosts_frame [OF h]) (simp_all add: signalHandler_def)
  with B_signal show ?thesis by simp
qed (use e h in \<open>simp_all add: handle_newview_def handle_ldrprepare_def handle_prepare_def handle_precommit_def handle_commit_def
    handle_transaction_def process_rep_queue_def drain_replies_hosts handleTransaction_hosts vote_wf_def
    host.handleNewview_hosts [OF C] handleLdrPrepare_hosts [OF C] host.handlePrepare_hosts [OF C]
    host.handlePrecommit_hosts [OF C] host.handleCommit_hosts [OF C]\<close>)

end
