(* ===== verification/BasicNetwork.thy ===== *)
theory BasicNetwork
  imports BasicHost
begin

text \<open>
  A network of nodes of the basic protocol. The honest nodes run the handlers of the
  program, one event at a time, in any interleaving; what arrives at them is arbitrary (lost,
  repeated, reordered or made up by the attacker) as long as it has the declared sizes. The
  network keeps, for every node, what its trusted component has returned (\<open>J\<close>), and the
  statements that backups have executed (\<open>X\<close>).
\<close>

section \<open>The network\<close>

text \<open>
  What a backup executes when a commit message of different signers arrives in its view; anything but the log changes
  then. The executions of a leader on the votes it has collected are not recorded, and neither are those that a
  backup makes on stored commit messages in \<open>handleEarlierMessages\<close>, in this or a later round of
  \<open>startNewView\<close>.
\<close>

fun executed_by :: "PID \<Rightarrow> basic_event \<Rightarrow> Handler \<Rightarrow> Handler \<Rightarrow> (PID \<times> RData) set" where
  "executed_by p (B_commit m) h h' =
     (if \<not> amCurrentLeader h \<and> (\<forall>l. h' \<noteq> h\<lparr>h_log := l\<rparr>) \<and> distinct (map signer (sig_list (m_signs m)))
      then {(p, m_rdata m)} else {})"
| "executed_by p ev h h' = {}"

inductive net_reach :: "crypto \<Rightarrow> (conn \<Rightarrow> bool) \<Rightarrow> PID set \<Rightarrow> (PID \<Rightarrow> Handler) \<Rightarrow>
    (PID \<Rightarrow> Handler) \<Rightarrow> (PID \<Rightarrow> Just list) \<Rightarrow> (PID \<times> RData) set \<Rightarrow> bool"
  for C send_ok honest H0 where
  init: "net_reach C send_ok honest H0 H0 (\<lambda>_. []) {}"
| start: "net_reach C send_ok honest H0 H J X \<Longrightarrow> p \<in> honest \<Longrightarrow>
    handle_start (getStarted C) msg c (H p) = Inr h' \<Longrightarrow> signed_run C (H p) js h' \<Longrightarrow>
    net_reach C send_ok honest H0 (H(p := h')) (J(p := J p @ js)) X"
| event: "net_reach C send_ok honest H0 H J X \<Longrightarrow> p \<in> honest \<Longrightarrow> basic_event_wf ev \<Longrightarrow>
    basic_step C send_ok ev (H p) = Inr h' \<Longrightarrow> signed_run C (H p) js h' \<Longrightarrow>
    net_reach C send_ok honest H0 (H(p := h')) (J(p := J p @ js)) (executed_by p ev (H p) h' \<union> X)"

inductive_cases net_reachE: "net_reach C send_ok honest H0 H J X"

section \<open>The invariant\<close>

lemma signs_verify_size:
  assumes "signs_verify C ns sg text = Inr True"
  shows "unat (sg_size sg) \<le> length (sg_arr sg)"
proof -
  have "\<forall>i\<in>set is. i < length arr" if "signs_verify_loop C ns text arr is = Inr True" for arr "is"
    using that by (induction "is") (auto simp: bindE_Inr_iff arr_iffs split: option.splits if_splits)
  with assms have "\<forall>i<unat (sg_size sg). i < length (sg_arr sg)" by (auto simp: signs_verify_def)
  then show ?thesis by (meson leI order.irrefl)
qed

lemma handle_start_hosts:
  assumes C: "crypto_wf C" and h: "hosts C h0 h"
  shows "gives (hosts C h0) (handle_start (getStarted C) msg c h)"
  unfolding handle_start_def Let_def
  by (rule gives_if, rule getStarted_hosts [OF C]) (auto simp: h split: option.split)

text \<open>A node of the network: its component is where the recorded calls have brought it.\<close>

definition node_ok :: "crypto \<Rightarrow> Handler \<Rightarrow> Just list \<Rightarrow> Handler \<Rightarrow> bool" where
  "node_ok C h0 js h \<longleftrightarrow> host_wf h \<and> h_nodes h = h_nodes h0 \<and> h_qsize h = h_qsize h0 \<and> signed_run C h0 js h \<and>
     (\<forall>e\<in>set (outs h). effect_wf e)"

lemma node_ok_step:
  assumes "node_ok C h0 js h" and "gives (hosts C h) r" and "r = Inr h'" and "signed_run C h ks h'"
  shows "node_ok C h0 (js @ ks) h'"
proof -
  from assms(2,3) have "hosts C h h'" by (simp add: gives_def)
  with assms(1) signed_run_trans [of C h0 js h ks h'] assms(4) show ?thesis by (auto simp: node_ok_def hosts_def)
qed

definition net_ok :: "crypto \<Rightarrow> Nodes \<Rightarrow> nat \<Rightarrow> PID set \<Rightarrow> (PID \<Rightarrow> Handler) \<Rightarrow> (PID \<Rightarrow> Handler) \<Rightarrow> (PID \<Rightarrow> Just list) \<Rightarrow>
    (PID \<times> RData) set \<Rightarrow> bool" where
  "net_ok C ns q honest H0 H J X \<longleftrightarrow> (\<forall>p\<in>honest. node_ok C (H0 p) (J p) (H p)) \<and>
     (\<forall>(p, r)\<in>X. rdata_wf r \<and> phase r = PH1_COMMIT \<and> (\<exists>sg. certifies C ns q r sg))"

lemma executed_by_certified:
  assumes "basic_step C send_ok ev h = Inr h'" and "basic_event_wf ev" and "(p, r) \<in> executed_by i ev h h'"
  shows "rdata_wf r \<and> phase r = PH1_COMMIT \<and> (\<exists>sg. certifies C (h_nodes h) (unat (h_qsize h)) r sg)"
proof -
  from assms(3) obtain m where m: "ev = B_commit m" "r = m_rdata m" "\<not> amCurrentLeader h" "\<forall>l. h' \<noteq> h\<lparr>h_log := l\<rparr>"
    "distinct (map signer (sig_list (m_signs m)))"
    by (cases ev) (auto split: if_splits)
  have "h' \<noteq> h\<lparr>h_log := h_log h\<rparr>" using m(4) by blast
  then have "\<not> h_isPaused h" using assms(1) m(1) by (auto simp: handle_commit_def)
  then have "handleCommit C (startNewView C) m h = Inr h'" using assms(1) m(1) by (simp add: handle_commit_def)
  from handleCommit_backup [OF this m(3)] m(4)
  have e: "phase r = PH1_COMMIT" "sg_size (m_signs m) = h_qsize h"
    "signs_verify C (h_nodes h) (m_signs m) (rdata_toString r) = Inr True"
    by (auto simp: m(2))
  moreover have "rdata_wf r" "length (sg_arr (m_signs m)) = MAX_NUM_SIGNATURES"
    using assms(2) m(1,2) by (simp_all add: signs_wf_def)
  moreover from this(2) signs_verify_size [OF e(3)] have "signs_ok (m_signs m)" by (simp add: signs_ok_def)
  ultimately show ?thesis using m(5) unfolding certifies_def by metis
qed

lemma net_reach_ok:
  assumes C: "crypto_wf C"
    and H0: "\<forall>p\<in>honest. host_wf (H0 p) \<and> h_nodes (H0 p) = ns \<and> unat (h_qsize (H0 p)) = q \<and> outs (H0 p) = []"
  shows "net_reach C send_ok honest H0 H J X \<Longrightarrow> net_ok C ns q honest H0 H J X"
proof (induction rule: net_reach.induct)
  case init
  then show ?case using H0 signed_run_refl by (auto simp: net_ok_def node_ok_def)
next
  case (start H J X p msg c h' js)
  then have ok: "node_ok C (H0 p) (J p) (H p)" by (simp add: net_ok_def)
  then have "gives (hosts C (H p)) (handle_start (getStarted C) msg c (H p))"
    by (intro handle_start_hosts [OF C] hosts_refl) (simp add: node_ok_def)
  from node_ok_step [OF ok this start(3,4)] start show ?case by (auto simp: net_ok_def)
next
  case (event H J X p ev h' js)
  then have ok: "node_ok C (H0 p) (J p) (H p)" by (simp add: net_ok_def)
  then have "gives (hosts C (H p)) (basic_step C send_ok ev (H p))"
    by (intro basic_step_hosts [OF C _ event(3)] hosts_refl) (simp add: node_ok_def)
  from node_ok_step [OF ok this event(4,5)] have n: "node_ok C (H0 p) (J p @ js) h'" .
  have "h_nodes (H p) = ns" "unat (h_qsize (H p)) = q" using ok H0 event(2) by (auto simp: node_ok_def)
  with executed_by_certified [OF event(4,3)] n event.IH show ?case by (auto simp: net_ok_def)
qed

section \<open>Agreement of the network\<close>

lemma crypto_sizes_wf:
  "\<forall>text. length (fresh_buffer C text) = SIGN_LEN \<Longrightarrow> \<forall>text. length (SHA256 C text) = SHA256_DIGEST_LENGTH \<Longrightarrow> crypto_wf C"
  by (simp add: crypto_wf_def fresh_wf_def sha_wf_def)

lemma Handler_new_host:
  assumes "Handler_new C i cf nf mv ns k mb fo bz = Inr h0"
  shows "host_wf h0" "h_nodes h0 = ns" "outs h0 = []"
  using assms
  by (auto simp: Handler_new_def Let_def bindE_Inr_iff host_wf_def basic_log_wf_def Log_empty_def)



text \<open>A network of nodes that are constructed with one configuration.\<close>

lemma net_reach_new:
  assumes "\<forall>p\<in>honest. Handler_new C p cf nf mv ns (priv p) mb (fo p) bz = Inr (H0 p)" and "crypto_wf C"
    and "net_reach C send_ok honest H0 H J X"
  shows "net_ok C ns (unat (cf * nf + 1 - nf)) honest H0 H J X"
proof (rule net_reach_ok [OF assms(2) _ assms(3)], rule ballI)
  fix p assume "p \<in> honest"
  with assms(1) have n: "Handler_new C p cf nf mv ns (priv p) mb (fo p) bz = Inr (H0 p)" by blast
  show "host_wf (H0 p) \<and> h_nodes (H0 p) = ns \<and> unat (h_qsize (H0 p)) = unat (cf * nf + 1 - nf) \<and> outs (H0 p) = []"
    by (simp add: Handler_new_host [OF n] Handler_new_facts [OF n])
qed


section \<open>What is sent is received\<close>

text \<open>
  C25. Nodes understand each other. In every state that the network of C2 reaches, whatever messages of the declared
  sizes the dishonest nodes make up, every message in a multicast of an honest node is of the declared sizes again
  (\<open>net_wf\<close>: hashes, signatures, signature arrays and transaction arrays), and whoever reads it from the stream gets the message
  that was sent: reading back with its opcode what was serialized gives the same message, whatever
  stream of the network library carries it.
\<close>

theorem sent_is_received:
  assumes "\<forall>text. length (fresh_buffer C text) = SIGN_LEN" and "\<forall>text. length (SHA256 C text) = SHA256_DIGEST_LENGTH"
    and "\<forall>p\<in>honest. Handler_new C p cf nf mv ns (priv p) mb (fo p) bz = Inr (H0 p)"
    and "net_reach C send_ok honest H0 H J X" and "p \<in> honest" and "Multicast m ps \<in> set (outs (H p))" and "data_stream D reads"
  shows "net_wf m \<and> (\<exists>s. net_unserialize D (net_opcode m) (net_serialize D m (new_stream D)) = Inr (m, s))"
proof -
  from net_reach_new [OF assms(3) crypto_sizes_wf [OF assms(1,2)] assms(4)] assms(5)
  have "\<forall>e\<in>set (outs (H p)). effect_wf e" by (simp add: net_ok_def node_ok_def)
  with assms(6) have "net_wf m" by fastforce
  then show ?thesis
    using carries_use [OF data_stream.carries_net [OF assms(7)] data_stream.new [OF assms(7)]] by blast
qed

text \<open>A started backup has sent its new-view message.\<close>

definition net_crypto :: crypto where
  "net_crypto = crypto_yes\<lparr>SHA256 := (\<lambda>x. replicate SHA256_DIGEST_LENGTH (if x = rdata_toString demo_vote then 1 else 0)),
     ECDSA_verify := (\<lambda>d s k. if d = replicate SHA256_DIGEST_LENGTH 1 then 1 else 0)\<rparr>"

lemma net_crypto_sizes: "\<forall>text. length (fresh_buffer net_crypto text) = SIGN_LEN"
  "\<forall>text. length (SHA256 net_crypto text) = SHA256_DIGEST_LENGTH"
  by (simp_all add: net_crypto_def crypto_yes_def)

theorem sent_is_received_witness:
  "\<exists>H0 H J m ps s. Handler_new net_crypto 2 3 1 4 demo_nodes 5 10 (\<lambda>_. False) 0 = Inr (H0 2) \<and>
     net_reach net_crypto (\<lambda>_. True) {2} H0 H J {} \<and> Multicast m ps \<in> set (outs (H 2)) \<and> net_wf m \<and>
     net_unserialize byte_stream (net_opcode m) (net_serialize byte_stream m (new_stream byte_stream)) = Inr (m, s)"
proof -
  obtain h0 where n: "Handler_new net_crypto 2 3 1 4 demo_nodes 5 10 (\<lambda>_. False) 0 = Inr h0" using Handler_new_total by blast
  note f = Handler_new_facts [OF n]
  have "\<exists>h1. handle_start (getStarted net_crypto) demo_start 0 h0 = Inr h1 \<and> (\<exists>m ps. Multicast m ps \<in> set (outs h1))"
    by (simp add: handle_start_def getStarted_def callTEEsign_def tf_TEEsign_def tf_sign_def Let_def demo_start_def
        f amCurrentLeader_def getCurrentLeader_def getLeaderOf_def) blast
  then obtain h1 m ps where h: "handle_start (getStarted net_crypto) demo_start 0 h0 = Inr h1" "Multicast m ps \<in> set (outs h1)"
    by blast
  have C: "crypto_wf net_crypto" by (rule crypto_sizes_wf [OF net_crypto_sizes])
  from handle_start_hosts [OF C hosts_refl [OF Handler_new_host(1) [OF n]], of demo_start 0] h(1)
  obtain js where js: "signed_run net_crypto h0 js h1" by (auto simp: gives_def hosts_def)
  let ?H = "(\<lambda>_. h0)(2 := h1)" and ?J = "(\<lambda>_. [])(2 := js)"
  from net_reach.start [OF net_reach.init, of 2 "{2}" net_crypto demo_start 0 "\<lambda>_. h0" h1 js "\<lambda>_. True"] h(1) js
  have r: "net_reach net_crypto (\<lambda>_. True) {2} (\<lambda>_. h0) ?H ?J {}" by simp
  from sent_is_received [OF net_crypto_sizes _ r _ _ byte_stream.data_stream_axioms, of 3 1 4 demo_nodes "\<lambda>_. 5" 10 "\<lambda>_ _. False" 0 2 m ps] n h
  obtain s where "net_wf m" "net_unserialize byte_stream (net_opcode m) (net_serialize byte_stream m (new_stream byte_stream)) = Inr (m, s)"
    by auto
  with n r h(2) show ?thesis by (intro exI [of _ "\<lambda>_. h0"] exI [of _ ?H] exI [of _ ?J]) auto
qed





end
