(* ===== verification/BasicView.thy ===== *)
theory BasicView
  imports BasicProps
begin

text \<open>
  A view of the basic protocol in which nothing goes wrong: the new-view messages, the proposal, the votes and the
  certificates of a quorum arrive, and every node of the quorum executes the leader's block. First what a leader
  does with the votes that it collects, then the steps of a backup and of the leader, then the view.
\<close>

section \<open>Collecting votes\<close>

definition voter :: "('m \<Rightarrow> Signs) \<Rightarrow> 'm \<Rightarrow> PID" where
  "voter sg m = signer (hd (sig_list (sg m)))"

context vote_log_fresh
begin

text \<open>A single vote of a node that has not been heard.\<close>

lemma store_vote:
  assumes ok: "votes_ok l" and m: "msg_good sg m" "length (sig_list (sg m)) = 1"
    and new: "voter sg m \<notin> voters sg (entries l (key m))"
  shows "\<exists>l'. store m l = Inr (l', word_of_nat (Suc (length (entries l (key m))))) \<and> votes_ok l' \<and>
    set (entries l' (key m)) = insert m (set (entries l (key m))) \<and>
    length (entries l' (key m)) = Suc (length (entries l (key m)))"
proof -
  have good: "\<forall>x\<in>set (entries l (key m)). msg_good sg x" using ok votes_okD(2) by blast
  obtain s where s: "sig_list (sg m) = [s]" using m(2) by (auto simp: length_Suc_conv)
  then have unheard: "\<not> heard sg (entries l (key m)) m" using new by (simp add: heard_def voter_def)
  obtain l' n where st: "store m l = Inr (l', n)" using store_total [OF good m(1)] by blast
  note e = store_entries [OF good m(1) st, of "key m"] and i = insert_unheard [OF good m(1) unheard]
  have "n = word_of_nat (length (entries l' (key m)))" using store_count [OF good m(1) st] unheard by simp
  with st e i unheard store_keeps [OF ok m(1) st] show ?thesis by simp
qed

lemma store_first:
  assumes "votes_ok l" and "msg_good sg m" "length (sig_list (sg m)) = 1" and "entries l (key m) = []"
  shows "\<exists>l'. store m l = Inr (l', 1) \<and> votes_ok l' \<and> entries l' (key m) = [m]"
proof -
  from store_vote [OF assms(1-3)] assms(4) obtain l' where "store m l = Inr (l', 1)" "votes_ok l'"
    "set (entries l' (key m)) = {m}" "length (entries l' (key m)) = 1" by auto
  then show ?thesis by (intro exI [of _ l']) (auto simp: length_Suc_conv)
qed

text \<open>
  A handler that stores each message in its log and goes on at the quorum: votes of different nodes, as
  many as are missing, end with the call at the last of them, and the log holds them all.
\<close>

lemma collect_votes:
  assumes upd: "\<And>l h. upd l (upd l' h) = upd l h"
    and f: "\<And>m l. m \<in> set ms \<Longrightarrow> f m (upd l h) = bindE (store m l) (\<lambda>(l, n). if n = q then go m (upd l h) else Inr (upd l h))"
    and fr: "\<And>m l l' n. store m l = Inr (l', n) \<Longrightarrow> fr l' = fr l"
    and ok: "votes_ok l" and ms: "\<forall>m\<in>set ms. msg_good sg m \<and> key m = k \<and> length (sig_list (sg m)) = 1"
    and dist: "distinct (map (voter sg) ms)" and new: "\<forall>m\<in>set ms. voter sg m \<notin> voters sg (entries l k)"
    and len: "length (entries l k) + length ms = unat (q :: u32)" and ne: "ms \<noteq> []"
  shows "\<exists>l'. event_run f ms (upd l h) = go (last ms) (upd l' h) \<and> votes_ok l' \<and> fr l' = fr l \<and>
    set (entries l' k) = set (entries l k) \<union> set ms \<and> length (entries l' k) = unat q"
  using f ok ms dist new len ne
proof (induction ms arbitrary: l)
  case (Cons m ms)
  have m: "msg_good sg m" "length (sig_list (sg m)) = 1" "key m = k" using Cons.prems(3) by simp_all
  from store_vote [OF Cons.prems(2) m(1,2)] Cons.prems(5) m(3)
  obtain l1 where l1: "store m l = Inr (l1, word_of_nat (Suc (length (entries l k))))" "votes_ok l1"
    "set (entries l1 k) = insert m (set (entries l k))" "length (entries l1 k) = Suc (length (entries l k))" by auto
  have u: "unat (word_of_nat (Suc (length (entries l k))) :: u32) = Suc (length (entries l k))"
    using Cons.prems(6) unat_u32_less [of q] by (intro unat_of_nat_u32) simp
  show ?case
  proof (cases "ms = []")
    case True
    with u Cons.prems(6) have "1 + word_of_nat (length (entries l k)) = q" by (simp add: word_unat_eq_iff)
    with True l1 Cons.prems(1) Cons.prems(6) fr [OF l1(1)] show ?thesis
      by (intro exI [of _ l1]) simp
  next
    case False
    then have "word_of_nat (Suc (length (entries l k))) \<noteq> q" using u Cons.prems(6) by (auto dest: arg_cong [of _ _ unat])
    with l1(1) Cons.prems(1) have step: "event_run f (m # ms) (upd l h) = event_run f ms (upd l1 h)" by simp
    have "voter sg x \<notin> voters sg (entries l1 k)" if x: "x \<in> set ms" for x
    proof -
      have "voters sg (entries l1 k) = insert (voter sg m) (voters sg (entries l k))"
        using l1(3) m(2) voters_set [of "entries l1 k" "m # entries l k" sg] by (auto simp: voter_def length_Suc_conv)
      with x Cons.prems(4,5) show ?thesis by (auto simp: image_iff)
    qed
    then have "\<exists>l'. event_run f ms (upd l1 h) = go (last ms) (upd l' h) \<and> votes_ok l' \<and> fr l' = fr l1 \<and>
        set (entries l' k) = set (entries l1 k) \<union> set ms \<and> length (entries l' k) = unat q"
      using Cons.prems False l1 by (intro Cons.IH) auto
    with step l1(3) False fr [OF l1(1)] show ?thesis by auto
  qed
qed simp

end

text \<open>The certificate that is collected from the stored votes.\<close>

lemma collect_certificate:
  assumes "\<forall>m\<in>set (entries_of e). signs_ok (sg m) \<and> length (sig_list (sg m)) = 1 \<and> (\<forall>s\<in>set (sig_list (sg m)). P s)"
    and "length (entries_of e) = unat q" and "unat q \<le> MAX_NUM_SIGNATURES"
  shows "\<exists>s'. collect_at sg q e = Inr s' \<and> signs_ok s' \<and> sg_size s' = q \<and> (\<forall>s\<in>set (sig_list s'). P s)"
proof -
  have "length (concat (map (\<lambda>m. sig_list (sg m)) (entries_of e))) = unat q"
    using assms(1,2) by (subst length_concat_singletons) auto
  moreover from collect_at_ok [of e sg q] assms obtain s' where s: "collect_at sg q e = Inr s'" "signs_ok s'"
    "sig_list s' = take (unat q) (concat (map (\<lambda>m. sig_list (sg m)) (entries_of e)))" by blast
  ultimately have "length (sig_list s') = unat q" by simp
  then have "unat (sg_size s') = unat q" using s(2) by (simp add: length_sig_list)
  then have "sg_size s' = q" by (simp add: word_unat_eq_iff)
  with s assms(1) show ?thesis by (auto dest!: in_set_takeD)
qed


section \<open>Votes and certificates\<close>

text \<open>The vote of a node for a statement, a vote that verifies, and a certificate.\<close>

definition vote :: "crypto \<Rightarrow> Handler \<Rightarrow> RData \<Rightarrow> RData msg" where
  "vote C h r = Msg_new r (Signs_one (Sign_make C (tf_priv (h_tf h)) (tf_id (h_tf h)) (rdata_toString r)))"

definition good_vote :: "crypto \<Rightarrow> Nodes \<Rightarrow> RData \<Rightarrow> RData msg \<Rightarrow> bool" where
  "good_vote C ns r m \<longleftrightarrow> m_rdata m = r \<and> signs_ok (m_signs m) \<and> length (sig_list (m_signs m)) = 1 \<and>
     (\<forall>s\<in>set (sig_list (m_signs m)). sig_valid C ns (rdata_toString r) s)"

definition quorum_cert :: "crypto \<Rightarrow> Nodes \<Rightarrow> u32 \<Rightarrow> RData \<Rightarrow> Signs \<Rightarrow> bool" where
  "quorum_cert C ns q r s \<longleftrightarrow> sg_size s = q \<and> signs_verify C ns s (rdata_toString r) = Inr True"

text \<open>What a node states after a certificate for \<open>r\<close>, and its component then.\<close>

definition next_rdata :: "RData \<Rightarrow> Phase1 \<Rightarrow> RData" where
  "next_rdata r ph = RData_new (proph r) (propv r) Hash_default 0 ph"

definition locked :: "RData \<Rightarrow> TrustedFun \<Rightarrow> TrustedFun" where
  "locked r t = tf_increment (t\<lparr>tf_preph := proph r, tf_prepv := propv r, tf_lockh := proph r, tf_lockv := propv r\<rparr>)"

definition in_view :: "Nodes \<Rightarrow> u32 \<Rightarrow> View \<Rightarrow> Phase1 \<Rightarrow> Handler \<Rightarrow> bool" where
  "in_view ns q v ph h \<longleftrightarrow> h_nodes h = ns \<and> h_qsize h = q \<and> tf_qsize (h_tf h) = q \<and> h_view h = v \<and>
     tf_view (h_tf h) = v \<and> tf_phase (h_tf h) = ph \<and> \<not> h_isPaused h"

lemma good_voteD:
  "good_vote C ns r m \<Longrightarrow> msg_good m_signs m \<and> length (sig_list (m_signs m)) = 1 \<and> m_rdata m = r"
  by (auto simp: good_vote_def msg_good_def)

lemma good_vote_vote:
  "sig_valid C ns (rdata_toString r) (Sign_make C (tf_priv (h_tf h)) (tf_id (h_tf h)) (rdata_toString r)) \<Longrightarrow>
   good_vote C ns r (vote C h r)"
  by (simp add: good_vote_def vote_def)

lemma certificate_of_votes:
  assumes "\<forall>m\<in>set (entries_of e). good_vote C ns r m" and "length (entries_of e) = unat q" and "unat q \<le> MAX_NUM_SIGNATURES"
  shows "\<exists>s. collect_at m_signs q e = Inr s \<and> quorum_cert C ns q r s"
proof -
  from collect_certificate [of e m_signs "sig_valid C ns (rdata_toString r)" q] assms
  obtain s where "collect_at m_signs q e = Inr s" "signs_ok s" "sg_size s = q" "\<forall>x\<in>set (sig_list s). sig_valid C ns (rdata_toString r) x"
    by (auto simp: good_vote_def)
  then show ?thesis by (auto simp: quorum_cert_def signs_verify_eq)
qed

lemma callTEEstore_certified:
  assumes "in_view ns q v ph h" and "quorum_cert C ns q r s" and "propv r = v" and "phase r = PH1_PREPARE \<or> phase r = PH1_PRECOMMIT"
  shows "callTEEstore C (Just_signs r s) h = Inr (Just_sign (next_rdata r ph) (Sign_make C (tf_priv (h_tf h)) (tf_id (h_tf h))
    (rdata_toString (next_rdata r ph))), h\<lparr>h_tf := locked r (h_tf h)\<rparr>)"
  using assms
  by (auto simp: callTEEstore_def tf_TEEstore_def tf_TEEverify_def tf_sign_def in_view_def quorum_cert_def Let_def
      next_rdata_def locked_def phase_defs)

text \<open>Messages of a backup to the leader, messages of the leader to the others, and its proposal.\<close>

abbreviation to_leader :: "Handler \<Rightarrow> NetMsg list \<Rightarrow> Effect list" where
  "to_leader h \<equiv> map (\<lambda>m. Multicast m (getPeerids (keep_from_peers h (getCurrentLeader h))))"

abbreviation to_backups :: "Handler \<Rightarrow> NetMsg list \<Rightarrow> Effect list" where
  "to_backups h \<equiv> map (\<lambda>m. Multicast m (getPeerids (remove_from_peers h (h_myid h))))"

abbreviation proposal_of :: "crypto \<Rightarrow> Handler \<Rightarrow> MsgNewView \<Rightarrow> Block \<Rightarrow> RData \<Rightarrow> MsgLdrPrepare" where
  "proposal_of C h m b r \<equiv> LdrMsg_new (Proposal_new (Just_signs (m_rdata m) (m_signs m)) b) (m_signs (vote C h r))"

abbreviation backup_events :: "MsgLdrPrepare \<Rightarrow> MsgPrepare \<Rightarrow> MsgPreCommit \<Rightarrow> MsgCommit \<Rightarrow> basic_event list" where
  "backup_events p c1 c2 c3 \<equiv> [B_ldrprepare p, B_prepare c1, B_precommit c2, B_commit c3]"

section \<open>A backup\<close>

lemma backup_prepares:
  assumes "in_view ns q v PH1_PREPARE h" and "pr_just (l_prop msg) = Just_signs nv s" and "pr_block (l_prop msg) = b"
    and "block_hash C b = Inr bh" and "block_extends b (justh nv)" and "propv nv = v" and "phase nv = PH1_NEWVIEW"
    and "signs_verify C ns s (rdata_toString nv) = Inr True"
    and "signs_verify C ns (l_signs msg) (rdata_toString (RData_new bh v (justh nv) (justv nv) PH1_PREPARE)) = Inr True"
    and "tf_safeNode (h_tf h) (justh nv) (justv nv)"
  shows "handle_ldrprepare C msg h =
    Inr (sendMsg (Net_Prepare (vote C h (RData_new bh v (justh nv) (justv nv) PH1_PREPARE))) (keep_from_peers h (getCurrentLeader h))
      (h\<lparr>h_tf := tf_increment (h_tf h), h_blocks := map_set v b (h_blocks h)\<rparr>))"
  using assms
  by (simp add: handle_ldrprepare_def handleLdrPrepare_def Let_def verifyJust_def Sverify_def respondToProposal_def in_view_def
      callTEEprepare_def tf_TEEprepare_def tf_TEEverify_def tf_sign_def getCurrentLeader_def getLeaderOf_def keep_from_peers_def vote_def)

lemma backup_precommits:
  assumes "in_view ns q v PH1_PRECOMMIT h" and "\<not> amCurrentLeader h" and "quorum_cert C ns q r s" and "propv r = v" and "phase r = PH1_PREPARE"
  shows "handle_prepare C (Msg_new r s) h =
    Inr (sendMsg (Net_PreCommit (vote C h (next_rdata r PH1_PRECOMMIT))) (keep_from_peers h (getCurrentLeader h)) (h\<lparr>h_tf := locked r (h_tf h)\<rparr>))"
proof -
  have "h_view h = v" "h_qsize h = q" "sg_size s = q" "\<not> h_isPaused h" using assms(1,3) by (simp_all add: in_view_def quorum_cert_def)
  with assms callTEEstore_certified [OF assms(1,3,4)] show ?thesis
    by (simp add: handle_prepare_def handlePrepare_def Let_def respondToPrepareJust_def getCurrentLeader_def getLeaderOf_def
        keep_from_peers_def vote_def)
qed

lemma backup_commits:
  assumes "in_view ns q v PH1_COMMIT h" and "\<not> amCurrentLeader h" and "quorum_cert C ns q r s" and "propv r = v" and "phase r = PH1_PRECOMMIT"
  shows "handle_precommit C (Msg_new r s) h =
    Inr (sendMsg (Net_Commit (vote C h (next_rdata r PH1_COMMIT))) (keep_from_peers h (getCurrentLeader h)) (h\<lparr>h_tf := locked r (h_tf h)\<rparr>))"
proof -
  have "h_view h = v" "h_qsize h = q" "sg_size s = q" "\<not> h_isPaused h" using assms(1,3) by (simp_all add: in_view_def quorum_cert_def)
  with assms callTEEstore_certified [OF assms(1,3,4)] show ?thesis
    by (simp add: handle_precommit_def handlePrecommit_def Let_def respondToPreCommitJust_def getCurrentLeader_def getLeaderOf_def
        keep_from_peers_def vote_def)
qed

lemma backup_executes:
  assumes "h_nodes h = ns" "h_qsize h = q" "h_view h = v" "\<not> h_isPaused h" and "\<not> amCurrentLeader h" and "quorum_cert C ns q r s"
    and "propv r = v" and "phase r = PH1_COMMIT"
  shows "handle_commit C (Msg_new r s) h = executeRData C (startNewView C) r h"
  using assms by (simp add: handle_commit_def handleCommit_def Let_def verifyJust_def Sverify_def quorum_cert_def)


lemma signs_verify_one: "sig_valid C ns text s \<Longrightarrow> signs_verify C ns (Signs_one s) text = Inr True"
  by (simp add: signs_verify_eq)

text \<open>All the steps of a backup, from the proposal to the execution.\<close>

lemma backup_view:
  assumes h: "in_view ns q v PH1_PREPARE h" "\<not> amCurrentLeader h" "tf_safeNode (h_tf h) (justh nv) (justv nv)"
    and p: "pr_just (l_prop msg) = Just_signs nv s" "pr_block (l_prop msg) = b" "block_hash C b = Inr bh" "block_extends b (justh nv)"
    and nv: "propv nv = v" "phase nv = PH1_NEWVIEW" "signs_verify C ns s (rdata_toString nv) = Inr True"
    and r: "r1 = RData_new bh v (justh nv) (justv nv) PH1_PREPARE" "r2 = next_rdata r1 PH1_PRECOMMIT" "r3 = next_rdata r2 PH1_COMMIT"
    and l: "signs_verify C ns (l_signs msg) (rdata_toString r1) = Inr True"
    and c: "quorum_cert C ns q r1 s1" "quorum_cert C ns q r2 s2" "quorum_cert C ns q r3 s3"
  shows "\<exists>h'. event_run (basic_step C send_ok) (backup_events msg (Msg_new r1 s1) (Msg_new r2 s2) (Msg_new r3 s3)) h =
      executeRData C (startNewView C) r3 h' \<and> map_find (h_blocks h') v = Some b \<and> h_view h' = v \<and>
    outs h' = outs h @ to_leader h
      [Net_Prepare (vote C h r1), Net_PreCommit (vote C h r2), Net_Commit (vote C h r3)]"
proof -
  let ?send = "\<lambda>m h. sendMsg m (keep_from_peers h (getCurrentLeader h)) h"
  let ?h1 = "?send (Net_Prepare (vote C h r1)) (h\<lparr>h_tf := tf_increment (h_tf h), h_blocks := map_set v b (h_blocks h)\<rparr>)"
  let ?h2 = "?send (Net_PreCommit (vote C h r2)) (?h1\<lparr>h_tf := locked r1 (h_tf ?h1)\<rparr>)"
  let ?h3 = "?send (Net_Commit (vote C h r3)) (?h2\<lparr>h_tf := locked r2 (h_tf ?h2)\<rparr>)"
  note ldr = amCurrentLeader_def getCurrentLeader_def getLeaderOf_def keep_from_peers_def
  have inv: "in_view ns q v PH1_PRECOMMIT ?h1" "in_view ns q v PH1_COMMIT ?h2"
    using h(1) by (simp_all add: in_view_def locked_def tf_increment_def phase_defs)
  have ph: "propv r1 = v" "phase r1 = PH1_PREPARE" "propv r2 = v" "phase r2 = PH1_PRECOMMIT" "propv r3 = v" "phase r3 = PH1_COMMIT"
    by (simp_all add: r next_rdata_def)
  have nl: "\<not> amCurrentLeader ?h1" "\<not> amCurrentLeader ?h2" "\<not> amCurrentLeader ?h3" using h(2) by (simp_all add: ldr)
  have v: "vote C ?h1 r2 = vote C h r2" "vote C ?h2 r3 = vote C h r3" by (simp_all add: vote_def locked_def)
  have 1: "handle_ldrprepare C msg h = Inr ?h1"
    using backup_prepares [OF h(1) p nv _ h(3)] l by (simp add: r(1) ldr)
  have 2: "handle_prepare C (Msg_new r1 s1) ?h1 = Inr ?h2"
    using backup_precommits [OF inv(1) nl(1) c(1) ph(1,2)] v(1) by (simp add: r(2) ldr)
  have 3: "handle_precommit C (Msg_new r2 s2) ?h2 = Inr ?h3"
    using backup_commits [OF inv(2) nl(2) c(2) ph(3,4)] v(2) by (simp add: r(3) ldr)
  have 4: "handle_commit C (Msg_new r3 s3) ?h3 = executeRData C (startNewView C) r3 ?h3"
    using h(1) nl(3) c(3) ph(5,6) by (intro backup_executes [of _ ns q v]) (simp_all add: in_view_def)
  have "event_run (basic_step C send_ok) (backup_events msg (Msg_new r1 s1) (Msg_new r2 s2) (Msg_new r3 s3)) h =
      executeRData C (startNewView C) r3 ?h3"
    by (simp only: event_run.simps(2) basic_step.simps 1 2 3 4 bindE_simps event_run_Nil bindE_Inr_right)
  then show ?thesis
    by (rule exI [where x = ?h3, OF conjI]) (use h(1) in \<open>simp add: in_view_def ldr\<close>)
qed

section \<open>The leader\<close>

lemma votes_ok_fields:
  "prepares l' = prepares l \<Longrightarrow> prep_log.votes_ok l' = prep_log.votes_ok l"
  "precommits l' = precommits l \<Longrightarrow> pc_log.votes_ok l' = pc_log.votes_ok l"
  "commits l' = commits l \<Longrightarrow> com_log.votes_ok l' = com_log.votes_ok l"
  by (simp_all add: votes_ok_defs)

text \<open>The votes for \<open>r\<close> that the leader waits for, of as many nodes as are missing.\<close>

definition missing_votes :: "crypto \<Rightarrow> Nodes \<Rightarrow> u32 \<Rightarrow> RData \<Rightarrow> RData msg \<Rightarrow> RData msg list \<Rightarrow> bool" where
  "missing_votes C ns q r m0 ms \<longleftrightarrow> ms \<noteq> [] \<and> unat q = Suc (length ms) \<and> unat q \<le> MAX_NUM_SIGNATURES \<and>
     (\<forall>m\<in>set (m0 # ms). good_vote C ns r m) \<and> distinct (map (voter m_signs) (m0 # ms))"

lemma missing_votesD:
  assumes "missing_votes C ns q r m0 ms"
  shows "ms \<noteq> []" and "unat q = Suc (length ms)" and "unat q \<le> MAX_NUM_SIGNATURES"
    and "\<forall>m\<in>set ms. good_vote C ns r m" and "good_vote C ns r m0" and "m_rdata (last ms) = r"
    and "distinct (map (voter m_signs) ms)"
    and "\<forall>m\<in>set ms. voter m_signs m \<notin> voters m_signs [m0]"
    and "\<forall>m\<in>set ms. msg_good m_signs m \<and> propv (m_rdata m) = propv r \<and> length (sig_list (m_signs m)) = 1"
    and "\<not> q \<le> 1"
proof -
  note d = assms [unfolded missing_votes_def]
  then show "ms \<noteq> []" "unat q = Suc (length ms)" "unat q \<le> MAX_NUM_SIGNATURES" "\<forall>m\<in>set ms. good_vote C ns r m" "good_vote C ns r m0"
    "distinct (map (voter m_signs) ms)" by simp_all
  then show "m_rdata (last ms) = r" by (auto dest: good_voteD)
  from d show "\<forall>m\<in>set ms. msg_good m_signs m \<and> propv (m_rdata m) = propv r \<and> length (sig_list (m_signs m)) = 1"
    by (simp add: good_vote_def msg_good_def) force
  obtain s where "sig_list (m_signs m0) = [s]" using d by (auto simp: good_vote_def length_Suc_conv)
  with d show "\<forall>m\<in>set ms. voter m_signs m \<notin> voters m_signs [m0]"
    by (auto simp: voters_def voter_def image_iff)
  from d have "1 < unat q" by (cases ms) auto
  then show "\<not> q \<le> 1" by (simp add: word_le_nat_alt)
qed


text \<open>Storing the leader's own vote, the first of its view.\<close>

lemma store_own:
  assumes "good_vote C ns r m"
  shows "prep_log.votes_ok l \<Longrightarrow> entries_of (map_find (prepares l) (propv r)) = [] \<Longrightarrow>
      \<exists>x. storePrep m l = Inr (l\<lparr>prepares := x\<rparr>, 1) \<and> prep_log.votes_ok (l\<lparr>prepares := x\<rparr>) \<and> entries_of (map_find x (propv r)) = [m]"
    and "pc_log.votes_ok l \<Longrightarrow> entries_of (map_find (precommits l) (propv r)) = [] \<Longrightarrow>
      \<exists>x. storePc m l = Inr (l\<lparr>precommits := x\<rparr>, 1) \<and> pc_log.votes_ok (l\<lparr>precommits := x\<rparr>) \<and> entries_of (map_find x (propv r)) = [m]"
    and "com_log.votes_ok l \<Longrightarrow> entries_of (map_find (commits l) (propv r)) = [] \<Longrightarrow>
      \<exists>x. storeCom m l = Inr (l\<lparr>commits := x\<rparr>, 1) \<and> com_log.votes_ok (l\<lparr>commits := x\<rparr>) \<and> entries_of (map_find x (propv r)) = [m]"
proof -
  have m: "msg_good m_signs m" "length (sig_list (m_signs m)) = 1" "m_rdata m = r" using assms good_voteD by blast+
  show "prep_log.votes_ok l \<Longrightarrow> entries_of (map_find (prepares l) (propv r)) = [] \<Longrightarrow>
      \<exists>x. storePrep m l = Inr (l\<lparr>prepares := x\<rparr>, 1) \<and> prep_log.votes_ok (l\<lparr>prepares := x\<rparr>) \<and> entries_of (map_find x (propv r)) = [m]"
    by (drule prep_log.store_first [OF _ m(1,2)], simp add: m(3), elim exE conjE, frule store_frames(2), auto simp: m(3))
  show "pc_log.votes_ok l \<Longrightarrow> entries_of (map_find (precommits l) (propv r)) = [] \<Longrightarrow>
      \<exists>x. storePc m l = Inr (l\<lparr>precommits := x\<rparr>, 1) \<and> pc_log.votes_ok (l\<lparr>precommits := x\<rparr>) \<and> entries_of (map_find x (propv r)) = [m]"
    by (drule pc_log.store_first [OF _ m(1,2)], simp add: m(3), elim exE conjE, frule store_frames(3), auto simp: m(3))
  show "com_log.votes_ok l \<Longrightarrow> entries_of (map_find (commits l) (propv r)) = [] \<Longrightarrow>
      \<exists>x. storeCom m l = Inr (l\<lparr>commits := x\<rparr>, 1) \<and> com_log.votes_ok (l\<lparr>commits := x\<rparr>) \<and> entries_of (map_find x (propv r)) = [m]"
    by (drule com_log.store_first [OF _ m(1,2)], simp add: m(3), elim exE conjE, frule store_frames(4), auto simp: m(3))
qed

lemma leader_certifies_prepare:
  assumes h: "in_view ns q v PH1_PRECOMMIT h" "amCurrentLeader h" and r: "propv r = v" "phase r = PH1_PREPARE"
    and ms: "missing_votes C ns q r m0 ms" and l: "prep_log.votes_ok (h_log h)" "entries_of (map_find (prepares (h_log h)) v) = [m0]"
    and nx: "pc_log.votes_ok (h_log h)" "entries_of (map_find (precommits (h_log h)) v) = []"
    and own: "good_vote C ns (next_rdata r PH1_PRECOMMIT) (vote C h (next_rdata r PH1_PRECOMMIT))"
  shows "\<exists>s l. quorum_cert C ns q r s \<and> pc_log.votes_ok l \<and> commits l = commits (h_log h) \<and>
    entries_of (map_find (precommits l) v) = [vote C h (next_rdata r PH1_PRECOMMIT)] \<and>
    event_run (handle_prepare C) ms h = Inr (sendMsg (Net_Prepare (Msg_new r s)) (remove_from_peers h (h_myid h))
      (h\<lparr>h_log := l, h_tf := locked r (h_tf h)\<rparr>))"
proof -
  note m = missing_votesD [OF ms]
  let ?upd = "\<lambda>l h. h\<lparr>h_log := l\<rparr>"
  have hv: "h_view h = v" "h_qsize h = q" "\<not> h_isPaused h" using h(1) by (simp_all add: in_view_def)
  have step: "handle_prepare C x (?upd l h) = bindE (storePrep x l) (\<lambda>(l, n).
      if n = q then initiatePrepare C (startNewView C) r (?upd l h) else Inr (?upd l h))" if "x \<in> set ms" for x l
    using that hv h(2) m(4) r by (auto simp: handle_prepare_def handlePrepare_def Let_def amCurrentLeader_def getCurrentLeader_def
        getLeaderOf_def good_vote_def)
  have "\<exists>l'. event_run (handle_prepare C) ms (?upd (h_log h) h) = initiatePrepare C (startNewView C) r (?upd l' h) \<and>
      prep_log.votes_ok l' \<and> (precommits l', commits l') = (precommits (h_log h), commits (h_log h)) \<and>
      set (entries_of (map_find (prepares l') v)) = set (entries_of (map_find (prepares (h_log h)) v)) \<union> set ms \<and> length (entries_of (map_find (prepares l') v)) = unat q"
  proof (rule prep_log.collect_votes [where upd = ?upd and go = "\<lambda>_. initiatePrepare C (startNewView C) r"])
    show "(precommits l', commits l') = (precommits l, commits l)" if "storePrep x l = Inr (l', n)" for x l l' n
      using store_frames(2) [OF that] by auto
  qed (use l m r step in \<open>simp_all\<close>)
  then obtain l1 where l1: "event_run (handle_prepare C) ms h = initiatePrepare C (startNewView C) r (?upd l1 h)"
    "precommits l1 = precommits (h_log h)" "commits l1 = commits (h_log h)"
    "set (entries_of (map_find (prepares l1) v)) = set [m0] \<union> set ms" "length (entries_of (map_find (prepares l1) v)) = unat q"
    using l(2) by auto
  from certificate_of_votes [of _ C ns r, OF _ l1(5) m(3)] l1(4) m(4,5) obtain s where
    s: "collect_at m_signs q (map_find (prepares l1) v) = Inr s" "quorum_cert C ns q r s" by auto
  have "pc_log.votes_ok l1" "entries_of (map_find (precommits l1) (propv (next_rdata r PH1_PRECOMMIT))) = []"
    using nx l1(2) votes_ok_fields(2) [OF l1(2)] r by (simp_all add: next_rdata_def)
  from store_own(2) [OF own this] obtain x where x: "storePc (vote C h (next_rdata r PH1_PRECOMMIT)) l1 = Inr (l1\<lparr>precommits := x\<rparr>, 1)"
    "pc_log.votes_ok (l1\<lparr>precommits := x\<rparr>)" "entries_of (map_find x (propv (next_rdata r PH1_PRECOMMIT))) = [vote C h (next_rdata r PH1_PRECOMMIT)]" by blast
  let ?h = "sendMsg (Net_Prepare (Msg_new r s)) (remove_from_peers h (h_myid h)) (?upd l1 h)"
  have iv: "in_view ns q v PH1_PRECOMMIT ?h" using h(1) by (simp add: in_view_def)
  have "event_run (handle_prepare C) ms h = Inr (sendMsg (Net_Prepare (Msg_new r s)) (remove_from_peers h (h_myid h))
      (h\<lparr>h_log := l1\<lparr>precommits := x\<rparr>, h_tf := locked r (h_tf h)\<rparr>))"
    using s x m(10) callTEEstore_certified [OF iv s(2) r(1)] r hv
    by (simp add: l1(1) initiatePrepare_def getPrepare_def quorum_cert_def remove_from_peers_def vote_def Let_def emit_def)
  with s(2) x(2,3) l1(3) r show ?thesis
    by (intro exI [of _ s] exI [of _ "l1\<lparr>precommits := x\<rparr>"]) (simp add: next_rdata_def)
qed

lemma leader_certifies_precommit:
  assumes h: "in_view ns q v PH1_COMMIT h" "amCurrentLeader h" and r: "propv r = v" "phase r = PH1_PRECOMMIT"
    and ms: "missing_votes C ns q r m0 ms" and l: "pc_log.votes_ok (h_log h)" "entries_of (map_find (precommits (h_log h)) v) = [m0]"
    and nx: "com_log.votes_ok (h_log h)" "entries_of (map_find (commits (h_log h)) v) = []"
    and own: "good_vote C ns (next_rdata r PH1_COMMIT) (vote C h (next_rdata r PH1_COMMIT))"
  shows "\<exists>s l. quorum_cert C ns q r s \<and> com_log.votes_ok l \<and>
    entries_of (map_find (commits l) v) = [vote C h (next_rdata r PH1_COMMIT)] \<and>
    event_run (handle_precommit C) ms h = Inr (sendMsg (Net_PreCommit (Msg_new r s)) (remove_from_peers h (h_myid h))
      (h\<lparr>h_log := l, h_tf := locked r (h_tf h)\<rparr>))"
proof -
  note m = missing_votesD [OF ms]
  let ?upd = "\<lambda>l h. h\<lparr>h_log := l\<rparr>"
  have hv: "h_view h = v" "h_qsize h = q" "\<not> h_isPaused h" using h(1) by (simp_all add: in_view_def)
  have step: "handle_precommit C x (?upd l h) = bindE (storePc x l) (\<lambda>(l, n).
      if n = q then initiatePrecommit C (startNewView C) r (?upd l h) else Inr (?upd l h))" if "x \<in> set ms" for x l
    using that hv h(2) m(4) r by (auto simp: handle_precommit_def handlePrecommit_def Let_def amCurrentLeader_def getCurrentLeader_def
        getLeaderOf_def good_vote_def)
  have "\<exists>l'. event_run (handle_precommit C) ms (?upd (h_log h) h) = initiatePrecommit C (startNewView C) r (?upd l' h) \<and>
      pc_log.votes_ok l' \<and> commits l' = commits (h_log h) \<and>
      set (entries_of (map_find (precommits l') v)) = set (entries_of (map_find (precommits (h_log h)) v)) \<union> set ms \<and> length (entries_of (map_find (precommits l') v)) = unat q"
  proof (rule pc_log.collect_votes [where upd = ?upd and go = "\<lambda>_. initiatePrecommit C (startNewView C) r"])
    show "commits l' = commits l" if "storePc x l = Inr (l', n)" for x l l' n
      using store_frames(3) [OF that] by auto
  qed (use l m r step in \<open>simp_all\<close>)
  then obtain l1 where l1: "event_run (handle_precommit C) ms h = initiatePrecommit C (startNewView C) r (?upd l1 h)"
    "commits l1 = commits (h_log h)"
    "set (entries_of (map_find (precommits l1) v)) = set [m0] \<union> set ms" "length (entries_of (map_find (precommits l1) v)) = unat q"
    using l(2) by auto
  from certificate_of_votes [of _ C ns r, OF _ l1(4) m(3)] l1(3) m(4,5) obtain s where
    s: "collect_at m_signs q (map_find (precommits l1) v) = Inr s" "quorum_cert C ns q r s" by auto
  have "com_log.votes_ok l1" "entries_of (map_find (commits l1) (propv (next_rdata r PH1_COMMIT))) = []"
    using nx l1(2) votes_ok_fields(3) [OF l1(2)] r by (simp_all add: next_rdata_def)
  from store_own(3) [OF own this] obtain x where x: "storeCom (vote C h (next_rdata r PH1_COMMIT)) l1 = Inr (l1\<lparr>commits := x\<rparr>, 1)"
    "com_log.votes_ok (l1\<lparr>commits := x\<rparr>)" "entries_of (map_find x (propv (next_rdata r PH1_COMMIT))) = [vote C h (next_rdata r PH1_COMMIT)]" by blast
  let ?h = "sendMsg (Net_PreCommit (Msg_new r s)) (remove_from_peers h (h_myid h)) (?upd l1 h)"
  have iv: "in_view ns q v PH1_COMMIT ?h" using h(1) by (simp add: in_view_def)
  have "event_run (handle_precommit C) ms h = Inr (sendMsg (Net_PreCommit (Msg_new r s)) (remove_from_peers h (h_myid h))
      (h\<lparr>h_log := l1\<lparr>commits := x\<rparr>, h_tf := locked r (h_tf h)\<rparr>))"
    using s x m(10) callTEEstore_certified [OF iv s(2) r(1)] r hv
    by (simp add: l1(1) initiatePrecommit_def getPrecommit_def quorum_cert_def remove_from_peers_def vote_def Let_def emit_def)
  with s(2) x(2,3) r show ?thesis
    by (intro exI [of _ s] exI [of _ "l1\<lparr>commits := x\<rparr>"]) (simp add: next_rdata_def)
qed

lemma leader_executes:
  assumes h: "h_nodes h = ns" "h_qsize h = q" "h_view h = v" "\<not> h_isPaused h" "amCurrentLeader h" and r: "propv r = v" "phase r = PH1_COMMIT"
    and ms: "missing_votes C ns q r m0 ms" and l: "com_log.votes_ok (h_log h)" "entries_of (map_find (commits (h_log h)) v) = [m0]"
  shows "\<exists>s l. quorum_cert C ns q r s \<and> event_run (handle_commit C) ms h =
    executeRData C (startNewView C) r (sendMsg (Net_Commit (Msg_new r s)) (remove_from_peers h (h_myid h)) (h\<lparr>h_log := l\<rparr>))"
proof -
  note m = missing_votesD [OF ms]
  let ?upd = "\<lambda>l h. h\<lparr>h_log := l\<rparr>"
  have step: "handle_commit C x (?upd l h) = bindE (storeCom x l) (\<lambda>(l, n).
      if n = q then initiateCommit C (startNewView C) r (?upd l h) else Inr (?upd l h))" if "x \<in> set ms" for x l
    using that h m(4) r by (auto simp: handle_commit_def handleCommit_def Let_def amCurrentLeader_def getCurrentLeader_def
        getLeaderOf_def good_vote_def)
  have "\<exists>l'. event_run (handle_commit C) ms (?upd (h_log h) h) = initiateCommit C (startNewView C) r (?upd l' h) \<and>
      com_log.votes_ok l' \<and> () = () \<and>
      set (entries_of (map_find (commits l') v)) = set (entries_of (map_find (commits (h_log h)) v)) \<union> set ms \<and> length (entries_of (map_find (commits l') v)) = unat q"
    by (rule com_log.collect_votes [where upd = ?upd and go = "\<lambda>_. initiateCommit C (startNewView C) r"])
      (use l m r step in simp_all)
  then obtain l1 where l1: "event_run (handle_commit C) ms h = initiateCommit C (startNewView C) r (?upd l1 h)"
    "set (entries_of (map_find (commits l1) v)) = set [m0] \<union> set ms" "length (entries_of (map_find (commits l1) v)) = unat q"
    using l(2) by auto
  from certificate_of_votes [of _ C ns r, OF _ l1(3) m(3)] l1(2) m(4,5) obtain s where
    s: "collect_at m_signs q (map_find (commits l1) v) = Inr s" "quorum_cert C ns q r s" by auto
  then have "event_run (handle_commit C) ms h =
      executeRData C (startNewView C) r (sendMsg (Net_Commit (Msg_new r s)) (remove_from_peers h (h_myid h)) (h\<lparr>h_log := l1\<rparr>))"
    using h r by (simp add: l1(1) initiateCommit_def getCommit_def quorum_cert_def remove_from_peers_def emit_def)
  with s(2) show ?thesis by blast
qed

text \<open>The new-view messages of a quorum, and the one that the leader builds on.\<close>

definition new_views :: "crypto \<Rightarrow> Nodes \<Rightarrow> u32 \<Rightarrow> View \<Rightarrow> RData msg list \<Rightarrow> bool" where
  "new_views C ns q v ms \<longleftrightarrow> 1 < length ms \<and> unat q = length ms \<and> distinct (map (voter m_signs) ms) \<and>
     (\<forall>m\<in>set ms. good_vote C ns (m_rdata m) m \<and> propv (m_rdata m) = v \<and> phase (m_rdata m) = PH1_NEWVIEW \<and>
        hash_isDummy (proph (m_rdata m)))"

definition highest_in :: "RData msg \<Rightarrow> RData msg set \<Rightarrow> bool" where
  "highest_in m M \<longleftrightarrow> m \<in> M \<and> (\<forall>x\<in>M. justv (m_rdata x) \<le> justv (m_rdata m))"

lemma findHighestNv_in:
  assumes "set (entries_of (map_find (newviews l) v)) = M" and "M \<noteq> {}"
  shows "\<exists>m. highest_in m M \<and> findHighestNv v l = Just_signs (m_rdata m) (m_signs m)"
proof -
  let ?e = "entries_of (map_find (newviews l) v)" and ?vw = "\<lambda>m. justv (m_rdata m)"
  let ?top = "filter (\<lambda>m. ?vw m = Max (?vw ` set ?e)) ?e"
  have ne: "?e \<noteq> []" using assms by auto
  then obtain x where e: "x \<in> set ?e" by (cases ?e) auto
  from ne have f: "findHighestNv v l = Just_signs (m_rdata (last ?top)) (m_signs (last ?top))"
    by (cases "map_find (newviews l) v") (auto simp: findHighestNv_def highest_loop_spec neq_Nil_conv)
  have "Max (?vw ` set ?e) \<in> ?vw ` set ?e" using e by (intro Max_in) auto
  then have "?top \<noteq> []" by (auto simp: filter_empty_conv)
  then have "last ?top \<in> set ?top" by (rule last_in_set)
  then have "last ?top \<in> M \<and> ?vw (last ?top) = Max (?vw ` M)" using assms(1) by auto
  then have "highest_in (last ?top) M" using assms(1) by (auto simp: highest_in_def)
  with f show ?thesis by blast
qed

lemma createNewBlock_hash:
  assumes "createNewBlock hash h = (b, h')"
  shows "\<exists>bh. block_hash C b = Inr bh" and "b_prevHash b = hash"
proof -
  let ?ts = "take MAX_NUM_TRANSACTIONS (h_transactions h)"
  have "length ?ts < 2 ^ 32" by (simp add: MAX_NUM_TRANSACTIONS_def)
  then have "unat (word_of_nat (length ?ts) :: u32) = length ?ts" by (rule unat_of_nat_u32)
  with assms show "\<exists>bh. block_hash C b = Inr bh" "b_prevHash b = hash"
    by (auto simp: createNewBlock_def fill_block_def Let_def Block_new_def block_hash_Inr_iff)
qed

lemma leader_proposes:
  assumes h: "in_view ns q v PH1_PREPARE h" "amCurrentLeader h" and nv: "new_views C ns q v (m0 # ms)"
    and l: "nv_log.votes_ok (h_log h)" "entries_of (map_find (newviews (h_log h)) v) = [m0]"
    and nx: "prep_log.votes_ok (h_log h)" "entries_of (map_find (prepares (h_log h)) v) = []"
    and safe: "\<And>m. highest_in m (set (m0 # ms)) \<Longrightarrow> tf_safeNode (h_tf h) (justh (m_rdata m)) (justv (m_rdata m))"
    and own: "\<And>r. propv r = v \<Longrightarrow> good_vote C ns r (vote C h r)"
  shows "\<exists>m b bh r l ts. highest_in m (set (m0 # ms)) \<and> block_hash C b = Inr bh \<and> b_prevHash b = justh (m_rdata m) \<and>
    r = RData_new bh v (justh (m_rdata m)) (justv (m_rdata m)) PH1_PREPARE \<and> prep_log.votes_ok l \<and>
    precommits l = precommits (h_log h) \<and> commits l = commits (h_log h) \<and> entries_of (map_find (prepares l) v) = [vote C h r] \<and>
    event_run (handle_newview C) ms h = Inr (sendMsg (Net_LdrPrepare (proposal_of C h m b r)) (remove_from_peers h (h_myid h))
      (h\<lparr>h_log := l, h_tf := tf_increment (h_tf h), h_transactions := ts, h_blocks := map_set v b (h_blocks h)\<rparr>))"
proof -
  let ?upd = "\<lambda>l h. h\<lparr>h_log := l\<rparr>"
  have hv: "h_view h = v" "h_qsize h = q" "\<not> h_isPaused h" "h_nodes h = ns" "tf_view (h_tf h) = v" "tf_phase (h_tf h) = PH1_PREPARE"
    using h(1) by (simp_all add: in_view_def)
  have m: "ms \<noteq> []" "unat q = Suc (length ms)" "distinct (map (voter m_signs) ms)" using nv by (auto simp: new_views_def)
  have g: "msg_good m_signs x" "length (sig_list (m_signs x)) = 1" "propv (m_rdata x) = v" "phase (m_rdata x) = PH1_NEWVIEW"
    "hash_isDummy (proph (m_rdata x))" "good_vote C ns (m_rdata x) x" if "x \<in> set (m0 # ms)" for x
    using nv that good_voteD [of C ns "m_rdata x" x] by (auto simp: new_views_def)
  have fresh: "voter m_signs x \<notin> voters m_signs [m0]" if "x \<in> set ms" for x
    using nv that g(2) [of m0] by (auto simp: new_views_def voters_def voter_def length_Suc_conv image_iff)
  have step: "handle_newview C x (?upd l h) = bindE (storeNv x l) (\<lambda>(l, n).
      if n = q then prepare C (startNewView C) (?upd l h) else Inr (?upd l h))" if "x \<in> set ms" for x l
    using that hv h(2) g [of x] by (auto simp: handle_newview_def handleNewview_def Let_def amCurrentLeader_def getCurrentLeader_def
        getLeaderOf_def amLeaderOf_def)
  have "\<exists>l'. event_run (handle_newview C) ms (?upd (h_log h) h) = prepare C (startNewView C) (?upd l' h) \<and>
      nv_log.votes_ok l' \<and> (prepares l', precommits l', commits l') = (prepares (h_log h), precommits (h_log h), commits (h_log h)) \<and>
      set (entries_of (map_find (newviews l') v)) = set (entries_of (map_find (newviews (h_log h)) v)) \<union> set ms \<and>
      length (entries_of (map_find (newviews l') v)) = unat q"
  proof (rule nv_log.collect_votes [where upd = ?upd and go = "\<lambda>_. prepare C (startNewView C)"])
    show "(prepares l', precommits l', commits l') = (prepares l, precommits l, commits l)" if "storeNv x l = Inr (l', n)" for x l l' n
      using store_frames(1) [OF that] by auto
  qed (use l m step g fresh in simp_all)
  then obtain l1 where l1: "event_run (handle_newview C) ms h = prepare C (startNewView C) (?upd l1 h)"
    "prepares l1 = prepares (h_log h)" "precommits l1 = precommits (h_log h)" "commits l1 = commits (h_log h)"
    "set (entries_of (map_find (newviews l1) v)) = set (m0 # ms)" using l(2) by auto
  from findHighestNv_in [OF l1(5)] obtain m where hi: "highest_in m (set (m0 # ms))"
    and f: "findHighestNv v l1 = Just_signs (m_rdata m) (m_signs m)" by auto
  then have mm: "m \<in> set (m0 # ms)" by (simp add: highest_in_def)
  obtain b h2 where b: "createNewBlock (justh (m_rdata m)) (?upd l1 h) = (b, h2)" by fastforce
  then obtain ts where h2: "h2 = h\<lparr>h_log := l1, h_transactions := ts\<rparr>" using createNewBlock_frame by blast
  from createNewBlock_hash [OF b] obtain bh where bh: "block_hash C b = Inr bh" "b_prevHash b = justh (m_rdata m)" by blast
  define r where "r = RData_new bh v (justh (m_rdata m)) (justv (m_rdata m)) PH1_PREPARE"
  have sv: "signs_verify C ns (m_signs m) (rdata_toString (m_rdata m)) = Inr True"
    using g(6) [OF mm] by (auto simp: good_vote_def signs_verify_eq)
  have "prep_log.votes_ok l1" "entries_of (map_find (prepares l1) (propv r)) = []"
    using nx l1(2) votes_ok_fields(1) [OF l1(2)] by (simp_all add: r_def)
  moreover have "good_vote C ns r (vote C h r)" using own by (simp add: r_def)
  ultimately obtain x where x: "storePrep (vote C h r) l1 = Inr (l1\<lparr>prepares := x\<rparr>, 1)"
    "prep_log.votes_ok (l1\<lparr>prepares := x\<rparr>)" "entries_of (map_find x (propv r)) = [vote C h r]" using store_own(1) by blast
  have "\<not> q \<le> 1" using m(1,2) by (cases ms) (auto simp: word_le_nat_alt)
  then have "event_run (handle_newview C) ms h = Inr (sendMsg (Net_LdrPrepare (proposal_of C h m b r)) (remove_from_peers h (h_myid h))
      (h\<lparr>h_log := l1\<lparr>prepares := x\<rparr>, h_tf := tf_increment (h_tf h), h_transactions := ts, h_blocks := map_set v b (h_blocks h)\<rparr>))"
    using x(1) hv bh sv safe [OF hi] g(3,4) [OF mm]
    by (simp add: l1(1) prepare_def f b h2 Let_def callTEEprepare_def tf_TEEprepare_def tf_TEEverify_def tf_sign_def
        remove_from_peers_def emit_def vote_def r_def)
  with hi bh x(2,3) l1(3,4) show ?thesis
    by (intro exI [of _ m] exI [of _ b] exI [of _ bh] exI [of _ r] exI [of _ "l1\<lparr>prepares := x\<rparr>"] exI [of _ ts]) (simp add: r_def)
qed

section \<open>The view\<close>

text \<open>The new-view message of a node.\<close>

definition nv_of :: "crypto \<Rightarrow> Handler \<Rightarrow> MsgNewView" where
  "nv_of C h = vote C h (RData_new (Hash_zero False) (h_view h) (tf_preph (h_tf h)) (tf_prepv (h_tf h)) PH1_NEWVIEW)"

text \<open>
  The beginning of view \<open>v\<close> with leader \<open>L\<close>: the nodes of a quorum \<open>L # B\<close> have sent their
  new-view messages, the leader has stored its own, their keys are in the table, and no two of them
  are locked on different blocks of one view.
\<close>

definition view_starts :: "crypto \<Rightarrow> Nodes \<Rightarrow> u32 \<Rightarrow> View \<Rightarrow> PID \<Rightarrow> PID list \<Rightarrow> (PID \<Rightarrow> Handler) \<Rightarrow> bool" where
  "view_starts C ns q v L B hs \<longleftrightarrow>
     B \<noteq> [] \<and> distinct (L # B) \<and> unat q = length (L # B) \<and> unat q \<le> MAX_NUM_SIGNATURES \<and>
     (\<forall>p\<in>set (L # B). in_view ns q v PH1_PREPARE (hs p) \<and> tf_id (h_tf (hs p)) = p \<and> (amCurrentLeader (hs p) \<longleftrightarrow> p = L) \<and>
        tf_preph (h_tf (hs p)) = tf_lockh (h_tf (hs p)) \<and> tf_prepv (h_tf (hs p)) = tf_lockv (h_tf (hs p)) \<and>
        (\<forall>text. sig_valid C ns text (Sign_make C (tf_priv (h_tf (hs p))) p text))) \<and>
     (\<forall>p\<in>set (L # B). \<forall>p'\<in>set (L # B). tf_lockv (h_tf (hs p)) = tf_lockv (h_tf (hs p')) \<longrightarrow> tf_lockh (h_tf (hs p)) = tf_lockh (h_tf (hs p'))) \<and>
     log_ok (h_log (hs L)) \<and> entries_of (map_find (newviews (h_log (hs L))) v) = [nv_of C (hs L)] \<and>
     entries_of (map_find (prepares (h_log (hs L))) v) = [] \<and> entries_of (map_find (precommits (h_log (hs L))) v) = [] \<and>
     entries_of (map_find (commits (h_log (hs L))) v) = []"

lemma vote_cong: "tf_priv (h_tf g) = tf_priv (h_tf h) \<Longrightarrow> tf_id (h_tf g) = tf_id (h_tf h) \<Longrightarrow> vote C g r = vote C h r"
  by (simp add: vote_def)

lemma vote_sel [simp]: "m_rdata (vote C h r) = r" "voter m_signs (vote C h r) = tf_id (h_tf h)"
  by (simp_all add: vote_def voter_def)

lemma view_starts_votes:
  assumes "view_starts C ns q v L B hs"
  shows "p \<in> set (L # B) \<Longrightarrow> good_vote C ns r (vote C (hs p) r)"
    and "distinct P \<Longrightarrow> set P = set B \<Longrightarrow> missing_votes C ns q r (vote C (hs L) r) (map (\<lambda>p. vote C (hs p) r) P)"
    and "distinct P \<Longrightarrow> set P = set B \<Longrightarrow> new_views C ns q v (nv_of C (hs L) # map (\<lambda>p. nv_of C (hs p)) P)"
proof -
  have b: "B \<noteq> []" "distinct (L # B)" "unat q = length (L # B)" "unat q \<le> MAX_NUM_SIGNATURES"
    using assms by (simp_all add: view_starts_def)
  have id: "tf_id (h_tf (hs p)) = p" "h_view (hs p) = v" "\<forall>text. sig_valid C ns text (Sign_make C (tf_priv (h_tf (hs p))) p text)"
    if "p \<in> set (L # B)" for p using assms that unfolding view_starts_def in_view_def by blast+
  have g: "good_vote C ns r (vote C (hs p) r)" if "p \<in> set (L # B)" for p r
    using id [OF that] by (intro good_vote_vote) simp
  then show "p \<in> set (L # B) \<Longrightarrow> good_vote C ns r (vote C (hs p) r)" .
  assume P: "distinct P" "set P = set B"
  have len: "length P = length B" using P b(2) distinct_card by (metis distinct.simps(2))
  have ne: "P \<noteq> []" using P(2) b(1) by auto
  have vs: "map (\<lambda>p. tf_id (h_tf (hs p))) (L # P) = L # P"
    using P(2) id(1) by (intro map_idI) auto
  have LP: "distinct (L # P)" using P b(2) by simp
  show "missing_votes C ns q r (vote C (hs L) r) (map (\<lambda>p. vote C (hs p) r) P)"
    unfolding missing_votes_def
  proof (intro conjI ballI)
    show "distinct (map (voter m_signs) (vote C (hs L) r # map (\<lambda>p. vote C (hs p) r) P))" using vs LP by (simp add: comp_def)
  qed (use g P b len ne in auto)
  have nv: "propv (m_rdata (nv_of C (hs p))) = v \<and> phase (m_rdata (nv_of C (hs p))) = PH1_NEWVIEW \<and>
      hash_isDummy (proph (m_rdata (nv_of C (hs p)))) \<and> voter m_signs (nv_of C (hs p)) = tf_id (h_tf (hs p)) \<and>
      good_vote C ns (m_rdata (nv_of C (hs p))) (nv_of C (hs p))" if "p \<in> set (L # B)" for p
    using id [OF that] g [OF that] by (simp add: nv_of_def hash_isDummy_def Hash_zero_def)
  have eq: "map (voter m_signs) (nv_of C (hs L) # map (\<lambda>p. nv_of C (hs p)) P) = map (\<lambda>p. tf_id (h_tf (hs p))) (L # P)"
    using nv P(2) by simp
  have "distinct (map (voter m_signs) (nv_of C (hs L) # map (\<lambda>p. nv_of C (hs p)) P))" unfolding eq vs by (rule LP)
  moreover have "\<forall>m\<in>set (nv_of C (hs L) # map (\<lambda>p. nv_of C (hs p)) P). \<exists>p\<in>set (L # B). m = nv_of C (hs p)" using P(2) by auto
  ultimately show "new_views C ns q v (nv_of C (hs L) # map (\<lambda>p. nv_of C (hs p)) P)"
    using b(3) len ne nv by (auto simp: new_views_def)
qed

lemma basic_rounds:
  "event_run (basic_step C send_ok) (map (\<lambda>p. B_newview (f p)) ps) h = event_run (handle_newview C) (map f ps) h"
  "event_run (basic_step C send_ok) (map (\<lambda>p. B_prepare (g p)) ps) h = event_run (handle_prepare C) (map g ps) h"
  "event_run (basic_step C send_ok) (map (\<lambda>p. B_precommit (g p)) ps) h = event_run (handle_precommit C) (map g ps) h"
  "event_run (basic_step C send_ok) (map (\<lambda>p. B_commit (g p)) ps) h = event_run (handle_commit C) (map g ps) h"
  by (induction ps arbitrary: h) (simp_all cong: bindE_cong)


text \<open>What the leader receives, in four rounds with the backups in the orders \<open>N\<close>, \<open>P\<close>, \<open>Q\<close> and \<open>R\<close>.\<close>

abbreviation leader_events ::
  "crypto \<Rightarrow> (PID \<Rightarrow> Handler) \<Rightarrow> PID list \<Rightarrow> PID list \<Rightarrow> PID list \<Rightarrow> PID list \<Rightarrow> RData \<Rightarrow> RData \<Rightarrow> RData \<Rightarrow> basic_event list" where
  "leader_events C hs N P Q R r1 r2 r3 \<equiv>
     map (\<lambda>p. B_newview (nv_of C (hs p))) N @ map (\<lambda>p. B_prepare (vote C (hs p) r1)) P @
     map (\<lambda>p. B_precommit (vote C (hs p) r2)) Q @ map (\<lambda>p. B_commit (vote C (hs p) r3)) R"

text \<open>The node holds block \<open>b\<close> for the view, and the commit statement \<open>r\<close> is for that block.\<close>

definition decided :: "crypto \<Rightarrow> View \<Rightarrow> Block \<Rightarrow> RData \<Rightarrow> Handler \<Rightarrow> bool" where
  "decided C v b r h \<longleftrightarrow> h_view h = v \<and> map_find (h_blocks h) v = Some b \<and> block_hash C b = Inr (proph r) \<and> phase r = PH1_COMMIT"

lemma view_starts_safe:
  assumes "view_starts C ns q v L B hs" and m: "highest_in m (set (map (\<lambda>p. nv_of C (hs p)) (L # B)))" and p: "p \<in> set (L # B)"
  shows "tf_safeNode (h_tf (hs p)) (justh (m_rdata m)) (justv (m_rdata m))"
proof -
  from m obtain x where x: "x \<in> set (L # B)" "m = nv_of C (hs x)" by (auto simp: highest_in_def)
  have "justv (m_rdata (nv_of C (hs p))) \<le> justv (m_rdata m)" using m p by (auto simp: highest_in_def)
  moreover have "tf_preph (h_tf (hs y)) = tf_lockh (h_tf (hs y)) \<and> tf_prepv (h_tf (hs y)) = tf_lockv (h_tf (hs y))" if "y \<in> set (L # B)" for y
    using assms(1) that unfolding view_starts_def by blast
  moreover have "tf_lockv (h_tf (hs p)) = tf_lockv (h_tf (hs x)) \<longrightarrow> tf_lockh (h_tf (hs p)) = tf_lockh (h_tf (hs x))"
    using assms(1) p x(1) unfolding view_starts_def by blast
  ultimately show ?thesis using p x by (auto simp: nv_of_def tf_safeNode_def)
qed

text \<open>The leader after the first two rounds: the block is certified, and its own pre-commit vote is stored.\<close>

definition prepared :: "crypto \<Rightarrow> Nodes \<Rightarrow> u32 \<Rightarrow> View \<Rightarrow> Block \<Rightarrow> RData \<Rightarrow> Handler \<Rightarrow> Handler \<Rightarrow> bool" where
  "prepared C ns q v b r2 h h' \<longleftrightarrow> in_view ns q v PH1_COMMIT h' \<and> amCurrentLeader h' \<and> (\<forall>r. vote C h' r = vote C h r) \<and>
     h_peers h' = h_peers h \<and> h_myid h' = h_myid h \<and> map_find (h_blocks h') v = Some b \<and>
     pc_log.votes_ok (h_log h') \<and> entries_of (map_find (precommits (h_log h')) v) = [vote C h r2] \<and>
     com_log.votes_ok (h_log h') \<and> entries_of (map_find (commits (h_log h')) v) = []"

lemma view_prepared:
  assumes vs: "view_starts C ns q v L B hs" and N: "distinct N" "set N = set B" and P: "distinct P" "set P = set B"
  shows "\<exists>m b r1 s1 h2. highest_in m (set (map (\<lambda>p. nv_of C (hs p)) (L # B))) \<and> b_prevHash b = justh (m_rdata m) \<and>
    block_hash C b = Inr (proph r1) \<and> r1 = RData_new (proph r1) v (justh (m_rdata m)) (justv (m_rdata m)) PH1_PREPARE \<and>
    quorum_cert C ns q r1 s1 \<and> prepared C ns q v b (next_rdata r1 PH1_PRECOMMIT) (hs L) h2 \<and>
    bindE (event_run (handle_newview C) (map (\<lambda>p. nv_of C (hs p)) N) (hs L))
      (event_run (handle_prepare C) (map (\<lambda>p. vote C (hs p) r1) P)) = Inr h2 \<and>
    outs h2 = outs (hs L) @ to_backups (hs L) [Net_LdrPrepare (proposal_of C (hs L) m b r1), Net_Prepare (Msg_new r1 s1)]"
proof -
  let ?h = "hs L"
  note d = vs [unfolded view_starts_def]
  have h: "in_view ns q v PH1_PREPARE ?h" "amCurrentLeader ?h" using d by simp_all
  have own: "good_vote C ns r (vote C ?h r)" for r by (rule view_starts_votes(1) [OF vs]) simp
  have safe: "tf_safeNode (h_tf ?h) (justh (m_rdata m)) (justv (m_rdata m))"
    if "highest_in m (set (nv_of C ?h # map (\<lambda>p. nv_of C (hs p)) N))" for m
    using that N(2) by (intro view_starts_safe [OF vs]) simp_all
  from d have l: "nv_log.votes_ok (h_log ?h)" "prep_log.votes_ok (h_log ?h)" "pc_log.votes_ok (h_log ?h)" "com_log.votes_ok (h_log ?h)"
    by (simp_all add: log_ok_def)
  from leader_proposes [OF h view_starts_votes(3) [OF vs N] l(1) _ l(2) _ safe own] d
  obtain m b bh r1 l1 ts where m: "highest_in m (set (nv_of C ?h # map (\<lambda>p. nv_of C (hs p)) N))"
    and b: "block_hash C b = Inr bh" "b_prevHash b = justh (m_rdata m)" "r1 = RData_new bh v (justh (m_rdata m)) (justv (m_rdata m)) PH1_PREPARE"
    and l1: "prep_log.votes_ok l1" "precommits l1 = precommits (h_log ?h)" "commits l1 = commits (h_log ?h)"
      "entries_of (map_find (prepares l1) v) = [vote C ?h r1]"
    and 1: "event_run (handle_newview C) (map (\<lambda>p. nv_of C (hs p)) N) ?h = Inr (sendMsg (Net_LdrPrepare (proposal_of C ?h m b r1)) (remove_from_peers ?h (h_myid ?h))
        (?h\<lparr>h_log := l1, h_tf := tf_increment (h_tf ?h), h_transactions := ts, h_blocks := map_set v b (h_blocks ?h)\<rparr>))"
    by blast
  define h1 where "h1 = sendMsg (Net_LdrPrepare (proposal_of C ?h m b r1)) (remove_from_peers ?h (h_myid ?h))
        (?h\<lparr>h_log := l1, h_tf := tf_increment (h_tf ?h), h_transactions := ts, h_blocks := map_set v b (h_blocks ?h)\<rparr>)"
  define r2 where "r2 = next_rdata r1 PH1_PRECOMMIT"
  note ldr = amCurrentLeader_def getCurrentLeader_def getLeaderOf_def
  note lok = votes_ok_fields(2) [of l1 "h_log ?h"] votes_ok_fields(3) [of l1 "h_log ?h"]
  have r: "propv r1 = v" "phase r1 = PH1_PREPARE" "proph r1 = bh" by (simp_all add: b(3))
  have h1: "in_view ns q v PH1_PRECOMMIT h1" "amCurrentLeader h1"
    using h by (simp_all add: h1_def in_view_def tf_increment_def phase_defs ldr)
  have v1: "vote C h1 r = vote C ?h r" for r by (rule vote_cong) (simp_all add: h1_def)
  have log1: "h_log h1 = l1" by (simp add: h1_def)
  have empty: "entries_of (map_find (precommits (h_log ?h)) v) = []" "entries_of (map_find (commits (h_log ?h)) v) = []"
    using d by simp_all
  have e1: "prep_log.votes_ok (h_log h1)" "entries_of (map_find (prepares (h_log h1)) v) = [vote C ?h r1]"
    "pc_log.votes_ok (h_log h1)" "entries_of (map_find (precommits (h_log h1)) v) = []"
    "good_vote C ns (next_rdata r1 PH1_PRECOMMIT) (vote C h1 (next_rdata r1 PH1_PRECOMMIT))"
    using l1 l(3) empty(1) own by (simp_all add: log1 lok(1) v1)
  obtain s1 l2 where s1: "quorum_cert C ns q r1 s1" "pc_log.votes_ok l2" "commits l2 = commits l1"
      "entries_of (map_find (precommits l2) v) = [vote C ?h r2]"
    and 2: "event_run (handle_prepare C) (map (\<lambda>p. vote C (hs p) r1) P) h1 = Inr (sendMsg (Net_Prepare (Msg_new r1 s1)) (remove_from_peers h1 (h_myid h1))
      (h1\<lparr>h_log := l2, h_tf := locked r1 (h_tf h1)\<rparr>))"
    using leader_certifies_prepare [OF h1 r(1,2) view_starts_votes(2) [OF vs P, of r1] e1] unfolding v1 r2_def log1 by blast
  define h2 where "h2 = sendMsg (Net_Prepare (Msg_new r1 s1)) (remove_from_peers h1 (h_myid h1)) (h1\<lparr>h_log := l2, h_tf := locked r1 (h_tf h1)\<rparr>)"
  have h2: "in_view ns q v PH1_COMMIT h2" "amCurrentLeader h2"
    using h1 by (simp_all add: h2_def in_view_def locked_def tf_increment_def phase_defs ldr)
  have v2: "vote C h2 r = vote C ?h r" for r
    unfolding v1 [symmetric] by (rule vote_cong) (simp_all add: h2_def locked_def)
  have log2: "h_log h2 = l2" by (simp add: h2_def)
  have "prepared C ns q v b r2 ?h h2"
    using h2 v2 s1(2-4) l1(3) l(4) empty(2) votes_ok_fields(3) [of l2 "h_log ?h"]
    by (simp add: prepared_def log2) (simp add: h2_def h1_def)
  moreover have "highest_in m (set (map (\<lambda>p. nv_of C (hs p)) (L # B)))" using m N(2) by simp
  moreover have "bindE (event_run (handle_newview C) (map (\<lambda>p. nv_of C (hs p)) N) ?h) (event_run (handle_prepare C) (map (\<lambda>p. vote C (hs p) r1) P)) = Inr h2"
    by (simp only: 1 h1_def [symmetric] 2 h2_def [symmetric] bindE_simps)
  moreover have "outs h2 = outs ?h @ to_backups ?h [Net_LdrPrepare (proposal_of C ?h m b r1), Net_Prepare (Msg_new r1 s1)]"
    by (simp add: h2_def h1_def remove_from_peers_def)
  ultimately show ?thesis
    using b s1(1) r(3) by (intro exI [of _ m] exI [of _ b] exI [of _ r1] exI [of _ s1] exI [of _ h2]) (simp only: r2_def simp_thms)
qed

lemma view_leader:
  assumes vs: "view_starts C ns q v L B hs"
    and N: "distinct N" "set N = set B" and P: "distinct P" "set P = set B" and Q: "distinct Q" "set Q = set B" and R: "distinct R" "set R = set B"
  shows "\<exists>m b r1 r2 r3 s1 s2 s3 h'. highest_in m (set (map (\<lambda>p. nv_of C (hs p)) (L # B))) \<and>
    b_prevHash b = justh (m_rdata m) \<and> block_hash C b = Inr (proph r1) \<and>
    r1 = RData_new (proph r1) v (justh (m_rdata m)) (justv (m_rdata m)) PH1_PREPARE \<and>
    r2 = next_rdata r1 PH1_PRECOMMIT \<and> r3 = next_rdata r2 PH1_COMMIT \<and>
    quorum_cert C ns q r1 s1 \<and> quorum_cert C ns q r2 s2 \<and> quorum_cert C ns q r3 s3 \<and>
    event_run (basic_step C send_ok) (leader_events C hs N P Q R r1 r2 r3) (hs L) =
      executeRData C (startNewView C) r3 h' \<and> decided C v b r3 h' \<and>
    outs h' = outs (hs L) @ to_backups (hs L)
      [Net_LdrPrepare (proposal_of C (hs L) m b r1),
       Net_Prepare (Msg_new r1 s1), Net_PreCommit (Msg_new r2 s2), Net_Commit (Msg_new r3 s3)]"
proof -
  let ?h = "hs L"
  from view_prepared [OF vs N P] obtain m b r1 s1 h2 where m: "highest_in m (set (map (\<lambda>p. nv_of C (hs p)) (L # B)))"
    and b: "b_prevHash b = justh (m_rdata m)" "block_hash C b = Inr (proph r1)"
      "r1 = RData_new (proph r1) v (justh (m_rdata m)) (justv (m_rdata m)) PH1_PREPARE"
    and s1: "quorum_cert C ns q r1 s1" and h2: "prepared C ns q v b (next_rdata r1 PH1_PRECOMMIT) ?h h2"
    and 2: "bindE (event_run (handle_newview C) (map (\<lambda>p. nv_of C (hs p)) N) ?h) (event_run (handle_prepare C) (map (\<lambda>p. vote C (hs p) r1) P)) = Inr h2"
    and o2: "outs h2 = outs ?h @ to_backups ?h [Net_LdrPrepare (proposal_of C ?h m b r1), Net_Prepare (Msg_new r1 s1)]" by blast
  define r2 where "r2 = next_rdata r1 PH1_PRECOMMIT"
  define r3 where "r3 = next_rdata r2 PH1_COMMIT"
  note ldr = amCurrentLeader_def getCurrentLeader_def getLeaderOf_def
  have "propv r1 = v" by (subst b(3)) simp
  then have r: "propv r2 = v" "phase r2 = PH1_PRECOMMIT" "propv r3 = v" "phase r3 = PH1_COMMIT" "proph r3 = proph r1"
    by (simp_all add: r2_def r3_def next_rdata_def)
  note p = h2 [unfolded prepared_def, folded r2_def]
  then have iv: "in_view ns q v PH1_COMMIT h2" "amCurrentLeader h2" and v2: "vote C h2 r = vote C ?h r" for r by simp_all
  have own: "good_vote C ns (next_rdata r2 PH1_COMMIT) (vote C h2 (next_rdata r2 PH1_COMMIT))"
    using view_starts_votes(1) [OF vs, of L] by (simp add: v2)
  obtain s2 l3 where s2: "quorum_cert C ns q r2 s2" "com_log.votes_ok l3" "entries_of (map_find (commits l3) v) = [vote C ?h r3]"
    and 3: "event_run (handle_precommit C) (map (\<lambda>p. vote C (hs p) r2) Q) h2 = Inr (sendMsg (Net_PreCommit (Msg_new r2 s2)) (remove_from_peers h2 (h_myid h2))
      (h2\<lparr>h_log := l3, h_tf := locked r2 (h_tf h2)\<rparr>))"
    using leader_certifies_precommit [OF iv r(1,2) view_starts_votes(2) [OF vs Q, of r2] _ _ _ _ own] p unfolding v2 r3_def by blast
  define h3 where "h3 = sendMsg (Net_PreCommit (Msg_new r2 s2)) (remove_from_peers h2 (h_myid h2)) (h2\<lparr>h_log := l3, h_tf := locked r2 (h_tf h2)\<rparr>)"
  have h3: "h_nodes h3 = ns" "h_qsize h3 = q" "h_view h3 = v" "\<not> h_isPaused h3" "amCurrentLeader h3"
    using iv by (simp_all add: h3_def in_view_def ldr)
  have log3: "h_log h3 = l3" by (simp add: h3_def)
  obtain s3 l4 where s3: "quorum_cert C ns q r3 s3"
    and 4: "event_run (handle_commit C) (map (\<lambda>p. vote C (hs p) r3) R) h3 =
      executeRData C (startNewView C) r3 (sendMsg (Net_Commit (Msg_new r3 s3)) (remove_from_peers h3 (h_myid h3)) (h3\<lparr>h_log := l4\<rparr>))"
    using leader_executes [OF h3 r(3,4) view_starts_votes(2) [OF vs R, of r3]] s2(2,3) unfolding log3 by blast
  define h4 where "h4 = sendMsg (Net_Commit (Msg_new r3 s3)) (remove_from_peers h3 (h_myid h3)) (h3\<lparr>h_log := l4\<rparr>)"
  from 2 obtain g where g: "event_run (handle_newview C) (map (\<lambda>p. nv_of C (hs p)) N) ?h = Inr g"
    "event_run (handle_prepare C) (map (\<lambda>p. vote C (hs p) r1) P) g = Inr h2" by (auto simp: bindE_Inr_iff)
  have run: "event_run (basic_step C send_ok) (leader_events C hs N P Q R r1 r2 r3) ?h = executeRData C (startNewView C) r3 h4"
    by (simp only: event_run_append basic_rounds g 3 h3_def [symmetric] 4 h4_def [symmetric] bindE_simps)
  have dec: "decided C v b r3 h4"
    using h3(3) b(2) r p by (simp add: decided_def h4_def h3_def)
  have os: "outs h4 = outs ?h @ to_backups ?h
      [Net_LdrPrepare (proposal_of C ?h m b r1),
       Net_Prepare (Msg_new r1 s1), Net_PreCommit (Msg_new r2 s2), Net_Commit (Msg_new r3 s3)]"
    using p by (simp add: h4_def h3_def o2 remove_from_peers_def)
  show ?thesis
    by (intro exI [of _ m] exI [of _ b] exI [of _ r1] exI [of _ r2] exI [of _ r3] exI [of _ s1] exI [of _ s2] exI [of _ s3] exI [of _ h4] conjI)
      (use m b s1 s2(1) s3 run dec os in \<open>simp_all only: r2_def r3_def\<close>)
qed


section \<open>Concrete nodes\<close>

text \<open>Two of three nodes, just started: node 0 leads, and node 1 is the backup.\<close>

definition demo_two :: Nodes where
  "demo_two = addNode (addNode [] 0 [] 1 1) 1 [] 1 1"

lemma demo_two_valid: "p \<in> {0, 1} \<Longrightarrow> sig_valid crypto_yes demo_two text (Sign_make crypto_yes k p text)"
  by (auto simp: sig_valid_def sign_verify_def verifyText_def crypto_yes_def demo_two_def addNode_def nodes_find_def)

lemma demo_two_started:
  assumes n: "Handler_new crypto_yes p 2 1 4 demo_two 5 10 (\<lambda>_. False) 0 = Inr h0" and p: "p \<in> {0, 1}"
  shows "\<exists>h. handle_start (getStarted crypto_yes) demo_start 0 h0 = Inr h \<and> in_view demo_two 2 0 PH1_PREPARE h \<and>
    tf_id (h_tf h) = p \<and> amCurrentLeader h = (p = 0) \<and> tf_preph (h_tf h) = tf_lockh (h_tf h) \<and>
    tf_prepv (h_tf h) = 0 \<and> tf_lockv (h_tf h) = 0 \<and> tf_lockh (h_tf h) = Hash_zero True \<and> log_ok (h_log h) \<and>
    prepares (h_log h) = [] \<and> precommits (h_log h) = [] \<and> commits (h_log h) = [] \<and>
    (p = 0 \<longrightarrow> entries_of (map_find (newviews (h_log h)) 0) = [nv_of crypto_yes h])"
proof -
  note f = Handler_new_facts [OF n]
  have more: "h_nodes h0 = demo_two" "h_isPaused h0 = False"
    using n by (auto simp: Handler_new_def Let_def bindE_Inr_iff)
  let ?nv = "nv_of crypto_yes h0"
  have g: "msg_good m_signs ?nv" "length (sig_list (m_signs ?nv)) = 1" by (simp_all add: nv_of_def vote_def msg_good_def)
  obtain l where st: "storeNv ?nv Log_empty = Inr (l, 1)" and e: "entries_of (map_find (newviews l) 0) = [?nv]"
    using nv_log.store_first [of Log_empty ?nv] g log_ok_votes(1) [OF log_ok_empty]
    by (auto simp: nv_of_def f Log_empty_def)
  have l: "log_ok l" by (rule storeNv_log_ok [OF log_ok_empty g(1) st])
  have fr: "prepares l = []" "precommits l = []" "commits l = []" using store_frames(1) [OF st] by (auto simp: Log_empty_def)
  let ?h = "h0\<lparr>h_clients := [(7, (True, 0, 0, 0))], h_started := True, h_tf := tf_increment (TrustedFun_new p 5 2)\<rparr>"
  have h: "h_tf h0 = TrustedFun_new p 5 2" "h_qsize h0 = 2" "h_total h0 = 3" using f by simp_all
  have sg: "callTEEsign crypto_yes (h0\<lparr>h_clients := [(7, (True, 0, 0, 0))], h_started := True\<rparr>) =
      (Just_sign (m_rdata ?nv) (Sign_make crypto_yes 5 p (rdata_toString (m_rdata ?nv))), ?h)"
    by (simp add: callTEEsign_def tf_TEEsign_def tf_sign_def Let_def nv_of_def vote_def f h TrustedFun_new_def)
  have nv: "Msg_new (m_rdata ?nv) (Signs_one (Sign_make crypto_yes 5 p (rdata_toString (m_rdata ?nv)))) = ?nv"
    by (simp add: nv_of_def vote_def h) (simp add: TrustedFun_new_def)
  have ldr: "amCurrentLeader g = (p = 0)" "amLeaderOf g 0 = (p = 0)" if "h_myid g = p" "h_view g = 0" "h_total g = 3" for g
    using that by (simp_all add: amCurrentLeader_def getCurrentLeader_def getLeaderOf_def amLeaderOf_def)
  have nvf: "hash_isDummy (proph (m_rdata ?nv))" "propv (m_rdata ?nv) = 0" "phase (m_rdata ?nv) = PH1_NEWVIEW"
    by (simp_all add: nv_of_def f hash_isDummy_def Hash_zero_def)
  have hn: "handleNewview crypto_yes (startNewView crypto_yes) ?nv ?h = Inr (?h\<lparr>h_log := l\<rparr>)" if "p = 0"
    using that nvf st by (simp add: handleNewview_def Let_def ldr f)
  have start: "handle_start (getStarted crypto_yes) demo_start 0 h0 =
      Inr (if p = 0 then ?h\<lparr>h_log := l\<rparr> else sendMsg (Net_NewView ?nv) (keep_from_peers ?h (getCurrentLeader ?h)) ?h)"
    by (cases "p = 0") (use sg nv hn in \<open>simp_all add: handle_start_def getStarted_def demo_start_def ldr f h Let_def
      keep_from_peers_def getCurrentLeader_def getLeaderOf_def del: send_simps\<close>)
  show ?thesis
  proof (cases "p = 0")
    case True
    then show ?thesis
      using start l fr e more by (simp add: in_view_def h f ldr) (simp add: TrustedFun_new_def tf_increment_def nv_of_def vote_def h f)
  next
    case False
    then show ?thesis
      using start p more by (simp add: in_view_def h f ldr) (simp add: TrustedFun_new_def tf_increment_def Log_empty_def f)
  qed
qed

lemma demo_two_view:
  "\<exists>hs. view_starts crypto_yes demo_two 2 0 0 [1] hs \<and>
     (\<forall>p\<in>{0, 1}. \<exists>h0. Handler_new crypto_yes p 2 1 4 demo_two 5 10 (\<lambda>_. False) 0 = Inr h0 \<and> basic_reach crypto_yes (\<lambda>_. True) h0 (hs p))"
proof -
  obtain a where a: "Handler_new crypto_yes 0 2 1 4 demo_two 5 10 (\<lambda>_. False) 0 = Inr a" using Handler_new_total by blast
  moreover obtain b where b: "Handler_new crypto_yes 1 2 1 4 demo_two 5 10 (\<lambda>_. False) 0 = Inr b" using Handler_new_total by blast
  ultimately have n: "Handler_new crypto_yes 0 2 1 4 demo_two 5 10 (\<lambda>_. False) 0 = Inr a" "Handler_new crypto_yes 1 2 1 4 demo_two 5 10 (\<lambda>_. False) 0 = Inr b"
    by simp_all
  from demo_two_started [OF n(1)] obtain h where h: "handle_start (getStarted crypto_yes) demo_start 0 a = Inr h"
    "in_view demo_two 2 0 PH1_PREPARE h" "tf_id (h_tf h) = 0" "amCurrentLeader h" "tf_preph (h_tf h) = tf_lockh (h_tf h)"
    "tf_prepv (h_tf h) = 0" "tf_lockv (h_tf h) = 0" "tf_lockh (h_tf h) = Hash_zero True" "log_ok (h_log h)"
    "prepares (h_log h) = []" "precommits (h_log h) = []" "commits (h_log h) = []"
    "entries_of (map_find (newviews (h_log h)) 0) = [nv_of crypto_yes h]" by auto
  from demo_two_started [OF n(2)] obtain g where g: "handle_start (getStarted crypto_yes) demo_start 0 b = Inr g"
    "in_view demo_two 2 0 PH1_PREPARE g" "tf_id (h_tf g) = 1" "\<not> amCurrentLeader g" "tf_preph (h_tf g) = tf_lockh (h_tf g)"
    "tf_prepv (h_tf g) = 0" "tf_lockv (h_tf g) = 0" "tf_lockh (h_tf g) = Hash_zero True" by auto
  let ?hs = "\<lambda>p :: PID. if p = 0 then h else g"
  have "view_starts crypto_yes demo_two 2 0 0 [1] ?hs"
    unfolding view_starts_def using h g by (simp add: demo_two_valid MAX_NUM_SIGNATURES_def)
  moreover have "\<forall>p\<in>{0, 1}. \<exists>h0. Handler_new crypto_yes p 2 1 4 demo_two 5 10 (\<lambda>_. False) 0 = Inr h0 \<and>
      basic_reach crypto_yes (\<lambda>_. True) h0 (?hs p)"
    using n basic_reach_started [OF n(1) h(1)] basic_reach_started [OF n(2) g(1)] by simp
  ultimately show ?thesis by blast
qed

section \<open>Property\<close>

text \<open>
  C3. A view with a correct leader decides. At the beginning of a view, let the new-view messages of
  the backups of a quorum reach the leader, then their prepare, pre-commit and commit votes,
  each round in any order; and let every backup receive the four messages of the leader. Then the
  leader proposes a block, certifies it three times and executes it, and every backup
  answers with the votes that the leader counts and executes the same block: all of them reach
  \<open>executeRData\<close> for one statement \<open>r3\<close> whose hash is the hash of the block that they hold
  for the view. What the leader receives is what the backups send, and the other way round.
\<close>

theorem view_decides:
  assumes "view_starts C ns q v L B hs"
    and "distinct N" "set N = set B" "distinct P" "set P = set B" "distinct Q" "set Q = set B" "distinct R" "set R = set B"
  shows "\<exists>b p1 r1 r2 r3 s1 s2 s3 hL hB.
    event_run (basic_step C send_ok) (leader_events C hs N P Q R r1 r2 r3) (hs L) =
      executeRData C (startNewView C) r3 hL \<and> decided C v b r3 hL \<and>
    outs hL = outs (hs L) @ to_backups (hs L)
      [Net_LdrPrepare p1, Net_Prepare (Msg_new r1 s1), Net_PreCommit (Msg_new r2 s2), Net_Commit (Msg_new r3 s3)] \<and>
    (\<forall>p\<in>set B.
      event_run (basic_step C send_ok) (backup_events p1 (Msg_new r1 s1) (Msg_new r2 s2) (Msg_new r3 s3)) (hs p) =
        executeRData C (startNewView C) r3 (hB p) \<and> decided C v b r3 (hB p) \<and>
      outs (hB p) = outs (hs p) @ to_leader (hs p)
        [Net_Prepare (vote C (hs p) r1), Net_PreCommit (vote C (hs p) r2), Net_Commit (vote C (hs p) r3)])"
proof -
  from view_leader [OF assms, of send_ok] obtain m b r1 r2 r3 s1 s2 s3 hL
    where m: "highest_in m (set (map (\<lambda>p. nv_of C (hs p)) (L # B)))" and b: "b_prevHash b = justh (m_rdata m)" "block_hash C b = Inr (proph r1)"
    and r: "r1 = RData_new (proph r1) v (justh (m_rdata m)) (justv (m_rdata m)) PH1_PREPARE" "r2 = next_rdata r1 PH1_PRECOMMIT" "r3 = next_rdata r2 PH1_COMMIT"
    and c: "quorum_cert C ns q r1 s1" "quorum_cert C ns q r2 s2" "quorum_cert C ns q r3 s3"
    and L: "event_run (basic_step C send_ok) (leader_events C hs N P Q R r1 r2 r3) (hs L) =
        executeRData C (startNewView C) r3 hL" "decided C v b r3 hL"
      "outs hL = outs (hs L) @ to_backups (hs L)
        [Net_LdrPrepare (proposal_of C (hs L) m b r1),
         Net_Prepare (Msg_new r1 s1), Net_PreCommit (Msg_new r2 s2), Net_Commit (Msg_new r3 s3)]" by blast
  let ?msg = "proposal_of C (hs L) m b r1"
  have msg: "pr_just (l_prop ?msg) = Just_signs (m_rdata m) (m_signs m)" "pr_block (l_prop ?msg) = b" "l_signs ?msg = m_signs (vote C (hs L) r1)"
    by (simp_all add: LdrMsg_new_def Proposal_new_def)
  from view_starts_votes(3) [OF assms(1) _ refl] assms(1) m have nv: "propv (m_rdata m) = v" "phase (m_rdata m) = PH1_NEWVIEW"
      "good_vote C ns (m_rdata m) m" by (auto simp: highest_in_def new_views_def view_starts_def)
  have sv: "signs_verify C ns (m_signs x) (rdata_toString r) = Inr True" if "good_vote C ns r x" for r x
    using that by (auto simp: good_vote_def signs_verify_eq)
  have "block_extends b (justh (m_rdata m))" by (simp add: block_extends_def b(1))
  have "\<exists>h'. event_run (basic_step C send_ok) (backup_events ?msg (Msg_new r1 s1) (Msg_new r2 s2) (Msg_new r3 s3)) (hs p) =
        executeRData C (startNewView C) r3 h' \<and> decided C v b r3 h' \<and>
      outs h' = outs (hs p) @ to_leader (hs p)
        [Net_Prepare (vote C (hs p) r1), Net_PreCommit (vote C (hs p) r2), Net_Commit (vote C (hs p) r3)]" if p: "p \<in> set B" for p
  proof -
    have h: "in_view ns q v PH1_PREPARE (hs p)" "\<not> amCurrentLeader (hs p)"
      using assms(1) p by (auto simp: view_starts_def)
    have "tf_safeNode (h_tf (hs p)) (justh (m_rdata m)) (justv (m_rdata m))"
      using p by (intro view_starts_safe [OF assms(1) m]) simp
    from backup_view [OF h this msg(1,2) b(2) \<open>block_extends _ _\<close> nv(1,2) sv [OF nv(3)] r(1-3) _ c, of send_ok]
      view_starts_votes(1) [OF assms(1), of L r1] sv L(2) show ?thesis by (auto simp: msg(3) decided_def)
  qed
  then obtain hB where "\<forall>p\<in>set B. event_run (basic_step C send_ok) (backup_events ?msg (Msg_new r1 s1) (Msg_new r2 s2) (Msg_new r3 s3)) (hs p) =
        executeRData C (startNewView C) r3 (hB p) \<and> decided C v b r3 (hB p) \<and>
      outs (hB p) = outs (hs p) @ to_leader (hs p)
        [Net_Prepare (vote C (hs p) r1), Net_PreCommit (vote C (hs p) r2), Net_Commit (vote C (hs p) r3)]" by metis
  with L show ?thesis by blast
qed

theorem view_decides_witness:
  "\<exists>hs b r hL hB. (\<forall>p\<in>{0, 1}. \<exists>h0. Handler_new crypto_yes p 2 1 4 demo_two 5 10 (\<lambda>_. False) 0 = Inr h0 \<and>
       basic_reach crypto_yes (\<lambda>_. True) h0 (hs p)) \<and> decided crypto_yes 0 b r hL \<and> decided crypto_yes 0 b r (hB (1 :: PID))"
proof -
  obtain hs where s: "view_starts crypto_yes demo_two 2 0 0 [1] hs" and r: "\<forall>p\<in>{0, 1}. \<exists>h0.
      Handler_new crypto_yes p 2 1 4 demo_two 5 10 (\<lambda>_. False) 0 = Inr h0 \<and> basic_reach crypto_yes (\<lambda>_. True) h0 (hs p)"
    using demo_two_view by blast
  have "distinct [1 :: PID]" by simp
  note one = this refl [of "set [1 :: PID]"]
  from view_decides [OF s one one one one] have "\<exists>b r hL hB. decided crypto_yes 0 b r hL \<and> decided crypto_yes 0 b r (hB (1 :: PID))"
    by fastforce
  with r show ?thesis by blast
qed

end
