(* ===== verification/ParallelRounds.thy ===== *)
theory ParallelRounds
  imports ParallelOrder BasicView
begin

text \<open>
  The rounds of votes of the parallel protocol at the leader. Every block of a view has its own count, its own phase in the
  trusted component and its own certificate; the votes for the blocks of a view arrive
  interleaved. First the rounds of any log whose store returns the number of votes, then the
  leader's handler of prepare votes.
\<close>

section \<open>Interleaved rounds\<close>

context vote_log_total
begin

text \<open>A single vote of a node that has not been heard.\<close>

lemma store_vote_total:
  assumes ok: "votes_ok l" and m: "msg_good sg m" "length (sig_list (sg m)) = 1"
    and new: "voter sg m \<notin> voters sg (entries l (key m))"
  shows "\<exists>l'. store m l = Inr (l', word_of_nat (Suc (length (entries l (key m))))) \<and> votes_ok l' \<and>
    set (entries l' (key m)) = insert m (set (entries l (key m))) \<and>
    length (entries l' (key m)) = Suc (length (entries l (key m))) \<and>
    voters sg (entries l' (key m)) = insert (voter sg m) (voters sg (entries l (key m))) \<and>
    (\<forall>k. k \<noteq> key m \<longrightarrow> entries l' k = entries l k)"
proof -
  have good: "\<forall>x\<in>set (entries l (key m)). msg_good sg x" using ok votes_okD(2) by blast
  obtain s where s: "sig_list (sg m) = [s]" using m(2) by (auto simp: length_Suc_conv)
  then have unheard: "\<not> heard sg (entries l (key m)) m" using new by (simp add: heard_def voter_def)
  obtain l' n where st: "store m l = Inr (l', n)" using store_total [OF good m(1)] by blast
  note e = store_entries [OF good m(1) st, of "key m"] and i = insert_unheard [OF good m(1) unheard]
  have "n = word_of_nat (length (entries l' (key m)))" by (rule store_count_total [OF good m(1) st])
  with st e i unheard store_keeps [OF ok m(1) st] store_extends(3) [OF ok m(1) st] s show ?thesis
    by (simp add: voter_def)
qed

text \<open>
  A handler that stores each message and certifies at the quorum, with a state of which \<open>Inv\<close> holds: votes
  for any number of keys in any order lead to one certificate for each key that reaches the
  quorum.
\<close>

lemma rounds:
  fixes q :: u32
  assumes store: "\<And>m h l n. Inv h \<Longrightarrow> good m \<Longrightarrow> store m (lg h) = Inr (l, n) \<Longrightarrow>
      set (entries l (key m)) = insert m (set (entries (lg h) (key m))) \<Longrightarrow>
      length (entries l (key m)) = Suc (length (entries (lg h) (key m))) \<Longrightarrow> n = word_of_nat (length (entries l (key m))) \<Longrightarrow>
      votes_ok l \<Longrightarrow> \<forall>k. k \<noteq> key m \<longrightarrow> entries l k = entries (lg h) k \<Longrightarrow> length (entries l (key m)) < 2 ^ 32 \<Longrightarrow>
      \<exists>h'. f m h = Inr h' \<and> Inv h' \<and> (\<forall>k. entries (lg h') k = entries l k) \<and>
        (if length (entries l (key m)) = unat q then \<exists>e. out h' = out h @ [e] \<and> sent (key m) e else out h' = out h)"
    and inv: "\<And>h. Inv h \<Longrightarrow> votes_ok (lg h)"
    and good: "\<And>m. good m \<Longrightarrow> msg_good sg m \<and> length (sig_list (sg m)) = 1"
  shows "Inv h \<Longrightarrow> \<forall>m\<in>set ms. good m \<Longrightarrow> \<forall>k. distinct (map (voter sg) (filter (\<lambda>m. key m = k) ms)) \<Longrightarrow>
    \<forall>m\<in>set ms. voter sg m \<notin> voters sg (entries (lg h) (key m)) \<Longrightarrow>
    \<forall>k\<in>key ` set ms. length (entries (lg h) k) + length (filter (\<lambda>m. key m = k) ms) < 2 ^ 32 \<Longrightarrow>
    \<exists>h' ks es. event_run f ms h = Inr h' \<and> Inv h' \<and>
      (\<forall>k. set (entries (lg h') k) = set (entries (lg h) k) \<union> {m \<in> set ms. key m = k}) \<and>
      distinct ks \<and> (\<forall>k. k \<in> set ks \<longleftrightarrow> length (entries (lg h) k) < unat q \<and>
         unat q \<le> length (entries (lg h) k) + length (filter (\<lambda>m. key m = k) ms)) \<and>
      out h' = out h @ es \<and> list_all2 sent ks es"
proof (induction ms arbitrary: h)
  case Nil
  then show ?case by (intro exI [of _ h] exI [of _ "[]"]) auto
next
  case (Cons m ms)
  have g: "good m" "msg_good sg m" "length (sig_list (sg m)) = 1" using Cons.prems(2) good by auto
  have nv: "voter sg m \<notin> voters sg (entries (lg h) (key m))" using Cons.prems(4) by simp
  from store_vote_total [OF inv [OF Cons.prems(1)] g(2,3) nv] obtain l where l: "store m (lg h) = Inr (l, word_of_nat (length (entries l (key m))))"
    "votes_ok l" "set (entries l (key m)) = insert m (set (entries (lg h) (key m)))"
    "length (entries l (key m)) = Suc (length (entries (lg h) (key m)))"
    "voters sg (entries l (key m)) = insert (voter sg m) (voters sg (entries (lg h) (key m)))"
    "\<forall>k. k \<noteq> key m \<longrightarrow> entries l k = entries (lg h) k" by auto
  have small: "length (entries l (key m)) < 2 ^ 32"
    using Cons.prems(5) [rule_format, of "key m"] l(4) by simp
  from store [OF Cons.prems(1) g(1) l(1,3,4) refl l(2,6) small] obtain h1 where h1: "f m h = Inr h1" "Inv h1"
    "\<forall>k. entries (lg h1) k = entries l k"
    "if length (entries l (key m)) = unat q then \<exists>e. out h1 = out h @ [e] \<and> sent (key m) e else out h1 = out h" by blast
  have new: "voter sg x \<notin> voters sg (entries (lg h1) (key x))" if x: "x \<in> set ms" for x
  proof (cases "key x = key m")
    case True
    then have "voter sg x \<noteq> voter sg m" using Cons.prems(3) [rule_format, of "key m"] x by (auto simp: image_iff)
    with True x Cons.prems(4) show ?thesis by (auto simp: h1(3) l(5))
  qed (use x Cons.prems(4) h1(3) l(6) in auto)
  have dist: "distinct (map (voter sg) (filter (\<lambda>m. key m = k) ms))" for k
    using Cons.prems(3) [rule_format, of k] by (simp split: if_splits)
  have len: "\<forall>k\<in>key ` set ms. length (entries (lg h1) k) + length (filter (\<lambda>m. key m = k) ms) < 2 ^ 32"
  proof
    fix k assume "k \<in> key ` set ms"
    then show "length (entries (lg h1) k) + length (filter (\<lambda>m. key m = k) ms) < 2 ^ 32"
      using Cons.prems(5) [rule_format, of k] l(4,6) h1(3) by (cases "k = key m") auto
  qed
  have "\<forall>m\<in>set ms. good m" using Cons.prems(2) by simp
  from Cons.IH [OF h1(2) this] new dist len obtain h' ks es where IH: "event_run f ms h1 = Inr h'" "Inv h'"
    "\<forall>k. set (entries (lg h') k) = set (entries (lg h1) k) \<union> {m \<in> set ms. key m = k}" "distinct ks"
    "\<forall>k. k \<in> set ks \<longleftrightarrow> length (entries (lg h1) k) < unat q \<and>
       unat q \<le> length (entries (lg h1) k) + length (filter (\<lambda>m. key m = k) ms)"
    "out h' = out h1 @ es" "list_all2 sent ks es" by blast
  have ent: "set (entries (lg h') k) = set (entries (lg h) k) \<union> {x \<in> set (m # ms). key x = k}" for k
    using IH(3) h1(3) l(3,6) by (cases "k = key m") auto
  have run: "event_run f (m # ms) h = Inr h'" using h1(1) IH(1) by simp
  show ?case
  proof (cases "length (entries l (key m)) = unat q")
    case True
    with h1(4) obtain e where e: "out h1 = out h @ [e]" "sent (key m) e" by auto
    have "key m \<notin> set ks" using IH(5) h1(3) True by simp
    moreover have "k \<in> set (key m # ks) \<longleftrightarrow> length (entries (lg h) k) < unat q \<and>
       unat q \<le> length (entries (lg h) k) + length (filter (\<lambda>m. key m = k) (m # ms))" for k
      using IH(5) h1(3) l(4,6) True by (cases "k = key m") auto
    ultimately show ?thesis using run IH(2,4,6,7) ent e
      by (intro exI [of _ h'] exI [of _ "key m # ks"] exI [of _ "e # es"]) simp
  next
    case False
    have "k \<in> set ks \<longleftrightarrow> length (entries (lg h) k) < unat q \<and>
       unat q \<le> length (entries (lg h) k) + length (filter (\<lambda>m. key m = k) (m # ms))" for k
      using IH(5) h1(3) l(4,6) False by (cases "k = key m") auto
    then show ?thesis using run IH(2,4,6,7) ent h1(4) False by (intro exI [of _ h'] exI [of _ ks] exI [of _ es]) simp
  qed
qed

end

section \<open>Votes and certificates\<close>

definition good_vote_para :: "crypto \<Rightarrow> Nodes \<Rightarrow> RDataPara \<Rightarrow> RDataPara msg \<Rightarrow> bool" where
  "good_vote_para C ns r m \<longleftrightarrow> m_rdata m = r \<and> signs_ok (m_signs m) \<and> length (sig_list (m_signs m)) = 1 \<and>
     (\<forall>s\<in>set (sig_list (m_signs m)). sig_valid C ns (rdataPara_toString r) s)"

definition quorum_cert_para :: "crypto \<Rightarrow> Nodes \<Rightarrow> u32 \<Rightarrow> RDataPara \<Rightarrow> Signs \<Rightarrow> bool" where
  "quorum_cert_para C ns q r s \<longleftrightarrow> sg_size s = q \<and> signs_verify C ns s (rdataPara_toString r) = Inr True"

definition vote_para :: "crypto \<Rightarrow> TrustedPara \<Rightarrow> RDataPara \<Rightarrow> RDataPara msg" where
  "vote_para C t r = Msg_new r (Signs_one (Sign_make C (tq_priv t) (tq_id t) (rdataPara_toString r)))"

definition next_para :: "RDataPara \<Rightarrow> Phase1 \<Rightarrow> RDataPara" where
  "next_para r ph = RDataPara_new (proph r) (propv r) (justh r) (justv r) ph (seqNumber r)"

lemma good_vote_paraD:
  "good_vote_para C ns r m \<Longrightarrow> msg_good m_signs m \<and> length (sig_list (m_signs m)) = 1 \<and> m_rdata m = r"
  by (auto simp: good_vote_para_def msg_good_def)

lemma next_para_sel [simp]:
  "proph (next_para r ph) = proph r" "propv (next_para r ph) = propv r" "phase (next_para r ph) = ph"
  "seqNumber (next_para r ph) = seqNumber r" "justh (next_para r ph) = justh r" "justv (next_para r ph) = justv r"
  by (simp_all add: next_para_def)

lemma certificate_of_votes_para:
  assumes "\<forall>m\<in>set (entries_of e). good_vote_para C ns r m" and "length (entries_of e) = unat q" and "unat q \<le> MAX_NUM_SIGNATURES"
  shows "\<exists>s. collect_at m_signs q e = Inr s \<and> quorum_cert_para C ns q r s"
proof -
  from collect_certificate [of e m_signs "sig_valid C ns (rdataPara_toString r)" q] assms
  obtain s where "collect_at m_signs q e = Inr s" "signs_ok s" "sg_size s = q" "\<forall>x\<in>set (sig_list s). sig_valid C ns (rdataPara_toString r) x"
    by (auto simp: good_vote_para_def)
  then show ?thesis by (auto simp: quorum_cert_para_def signs_verify_eq)
qed

text \<open>What the component answers to a prepare certificate of a block that it has signed a proposal of.\<close>

lemma tq_signBlock_known:
  assumes "map_find (tq_blockPhases t) (hbytes h1) = Some PH1_PRECOMMIT"
  shows "tq_signBlock C h1 h2 v2 sq t =
    (let r = RDataPara_new h1 (tq_view t) h2 v2 PH1_PRECOMMIT sq
     in (JustPara_sign r (Sign_make C (tq_priv t) (tq_id t) (rdataPara_toString r)),
         t\<lparr>tq_blockPhases := map_set (hbytes h1) PH1_COMMIT (tq_blockPhases t)\<rparr>))"
  using assms by (simp add: tq_signBlock_def tq_increment_block_phase_def map_at_def Let_def)

lemma callTEEstorePara_prepared:
  assumes c: "quorum_cert_para C (h_nodes h) (tq_qsize (h_tpara h)) r s" and r: "propv r = tq_view (h_tpara h)" "phase r = PH1_PREPARE"
    and p: "map_find (tq_blockPhases (h_tpara h)) (hbytes (proph r)) = Some PH1_PRECOMMIT"
  shows "\<exists>t. callTEEstorePara C (JustPara_signs r s) h =
      Inr (JustPara_sign (next_para r PH1_PRECOMMIT) (Sign_make C (tq_priv (h_tpara h)) (tq_id (h_tpara h))
        (rdataPara_toString (next_para r PH1_PRECOMMIT))), h\<lparr>h_tpara := t\<rparr>) \<and>
    tq_blockPhases t = map_set (hbytes (proph r)) PH1_COMMIT (tq_blockPhases (h_tpara h)) \<and>
    tq_view t = tq_view (h_tpara h) \<and> tq_qsize t = tq_qsize (h_tpara h) \<and> tq_id t = tq_id (h_tpara h) \<and> tq_priv t = tq_priv (h_tpara h)"
proof -
  let ?t = "h_tpara h"
  define t where "t = (if propv r > tq_latestPreparedView ?t \<or> propv r = tq_latestPreparedView ?t \<and> seqNumber r > tq_latestPreparedSeqNumber ?t
    then ?t\<lparr>tq_latestPreparedHash := proph r, tq_latestPreparedView := propv r, tq_latestPreparedSeqNumber := seqNumber r\<rparr> else ?t)"
  have t: "tq_blockPhases t = tq_blockPhases ?t" "tq_view t = tq_view ?t" "tq_qsize t = tq_qsize ?t" "tq_id t = tq_id ?t" "tq_priv t = tq_priv ?t"
    by (simp_all add: t_def)
  from c have "sg_size s = tq_qsize ?t" "signs_verify C (h_nodes h) s (rdataPara_toString r) = Inr True" by (simp_all add: quorum_cert_para_def)
  with r have "tq_TEEstore C (h_nodes h) (JustPara_signs r s) getBlockFunc ?t h =
      Inr (tq_signBlock C (proph r) (justh r) (justv r) (seqNumber r) t, h)"
    unfolding tq_TEEstore_def tq_TEEverify_def t_def [symmetric] by (simp add: Let_def phase_defs t_def)
  moreover have "tq_signBlock C (proph r) (justh r) (justv r) (seqNumber r) t =
      (JustPara_sign (next_para r PH1_PRECOMMIT) (Sign_make C (tq_priv ?t) (tq_id ?t) (rdataPara_toString (next_para r PH1_PRECOMMIT))),
       t\<lparr>tq_blockPhases := map_set (hbytes (proph r)) PH1_COMMIT (tq_blockPhases t)\<rparr>)"
    using p r(1) by (simp add: tq_signBlock_known t next_para_def Let_def)
  ultimately show ?thesis using t
    by (intro exI [of _ "t\<lparr>tq_blockPhases := map_set (hbytes (proph r)) PH1_COMMIT (tq_blockPhases t)\<rparr>"])
      (simp add: callTEEstorePara_def)
qed

section \<open>The leader's prepare rounds\<close>

text \<open>
  The leader \<open>h0\<close> with its own votes for the blocks \<open>rs 1, ..., rs n\<close> of its view, after some votes of other nodes: the log
  holds votes for the blocks; for those with a quorum the component has answered the
  certificate, and the log holds the answer.
\<close>

definition leads :: "crypto \<Rightarrow> (nat \<Rightarrow> RDataPara) \<Rightarrow> nat \<Rightarrow> Handler \<Rightarrow> Handler \<Rightarrow> bool" where
  "leads C rs n h0 h \<longleftrightarrow>
     h_nodes h = h_nodes h0 \<and> h_qsize h = h_qsize h0 \<and> h_view h = h_view h0 \<and> h_peers h = h_peers h0 \<and> h_myid h = h_myid h0 \<and>
     \<not> h_isPaused h \<and> \<not> maxViewsReached h \<and> amCurrentLeader h \<and>
     tq_view (h_tpara h) = h_view h \<and> tq_qsize (h_tpara h) = h_qsize h \<and>
     tq_id (h_tpara h) = tq_id (h_tpara h0) \<and> tq_priv (h_tpara h) = tq_priv (h_tpara h0) \<and>
     prepp_log.votes_ok (h_log h) \<and> pcp_log.votes_ok (h_log h) \<and>
     (\<forall>k. 1 \<le> k \<and> k \<le> n \<longrightarrow>
       (let votes = entries_of (seq_find (preparesPara (h_log h)) (h_view h) (word_of_nat k));
            certified = unat (h_qsize h) \<le> length votes
        in (\<forall>m\<in>set votes. good_vote_para C (h_nodes h) (rs k) m) \<and>
           map_find (tq_blockPhases (h_tpara h)) (hbytes (proph (rs k))) = Some (if certified then PH1_COMMIT else PH1_PRECOMMIT) \<and>
           entries_of (seq_find (precommitsPara (h_log h)) (h_view h) (word_of_nat k)) =
             (if certified then [vote_para C (h_tpara h0) (next_para (rs k) PH1_PRECOMMIT)] else [])))"

text \<open>The statements of different blocks of the view, which hash to different values.\<close>

definition statements :: "View \<Rightarrow> nat \<Rightarrow> (nat \<Rightarrow> RDataPara) \<Rightarrow> bool" where
  "statements v n rs \<longleftrightarrow> n < 2 ^ 32 \<and>
     (\<forall>k. 1 \<le> k \<and> k \<le> n \<longrightarrow> propv (rs k) = v \<and> phase (rs k) = PH1_PREPARE \<and> seqNumber (rs k) = word_of_nat k) \<and>
     inj_on (\<lambda>k. hbytes (proph (rs k))) {1..n}"

definition prepare_cert :: "crypto \<Rightarrow> (nat \<Rightarrow> RDataPara) \<Rightarrow> Handler \<Rightarrow> u32 \<Rightarrow> Effect \<Rightarrow> bool" where
  "prepare_cert C rs h0 k e \<longleftrightarrow> (\<exists>s. quorum_cert_para C (h_nodes h0) (h_qsize h0) (rs (unat k)) s \<and>
     e = Multicast (Net_PreparePara (Msg_new (rs (unat k)) s)) (getPeerids (remove_from_peers h0 (h_myid h0))))"

lemma statementsD:
  assumes "statements v n rs" and "1 \<le> k" "k \<le> n"
  shows "propv (rs k) = v" "phase (rs k) = PH1_PREPARE" "seqNumber (rs k) = word_of_nat k"
    and "1 \<le> j \<Longrightarrow> j \<le> n \<Longrightarrow> (word_of_nat j :: u32) = word_of_nat k \<longleftrightarrow> j = k"
    and "1 \<le> j \<Longrightarrow> j \<le> n \<Longrightarrow> hbytes (proph (rs j)) = hbytes (proph (rs k)) \<longleftrightarrow> j = k"
    and "unat (word_of_nat k :: u32) = k"
proof -
  show "propv (rs k) = v" "phase (rs k) = PH1_PREPARE" "seqNumber (rs k) = word_of_nat k" using assms by (simp_all add: statements_def)
  have u: "unat (word_of_nat j :: u32) = j" if "j \<le> n" for j using assms(1) that by (intro unat_of_nat_u32) (simp add: statements_def)
  from u show "unat (word_of_nat k :: u32) = k" using assms(3) .
  show "1 \<le> j \<Longrightarrow> j \<le> n \<Longrightarrow> (word_of_nat j :: u32) = word_of_nat k \<longleftrightarrow> j = k" using u [of j] u [of k] assms(3) by metis
  have "inj_on (\<lambda>k. hbytes (proph (rs k))) {1..n}" using assms(1) by (simp add: statements_def)
  then show "1 \<le> j \<Longrightarrow> j \<le> n \<Longrightarrow> hbytes (proph (rs j)) = hbytes (proph (rs k)) \<longleftrightarrow> j = k"
    using assms(2,3) inj_onD [of _ "{1..n}" j k] by auto
qed

lemma vote_para_good: "msg_good m_signs (vote_para C t r)" "length (sig_list (m_signs (vote_para C t r))) = 1" "m_rdata (vote_para C t r) = r"
  by (simp_all add: vote_para_def msg_good_def)

text \<open>The certificate of one block: the component's answer is the only message stored for its pre-commit round.\<close>

lemma leader_certifies:
  assumes q: "unat (h_qsize h) \<le> MAX_NUM_SIGNATURES" and t: "tq_view (h_tpara h) = h_view h" "tq_qsize (h_tpara h) = h_qsize h"
    and pc: "pcp_log.votes_ok (h_log h)" "entries_of (seq_find (precommitsPara (h_log h)) (h_view h) (seqNumber r)) = []"
    and r: "propv r = h_view h" "phase r = PH1_PREPARE" and ph: "map_find (tq_blockPhases (h_tpara h)) (hbytes (proph r)) = Some PH1_PRECOMMIT"
    and votes: "\<forall>m\<in>set (entries_of (seq_find (preparesPara (h_log h)) (h_view h) (seqNumber r))). good_vote_para C (h_nodes h) r m"
    and len: "length (entries_of (seq_find (preparesPara (h_log h)) (h_view h) (seqNumber r))) = unat (h_qsize h)"
  shows "\<exists>s t x. initiatePreparePara C r h = Inr (emit [Multicast (Net_PreparePara (Msg_new r s)) (getPeerids (remove_from_peers h (h_myid h)))]
        (h\<lparr>h_log := (h_log h)\<lparr>precommitsPara := x\<rparr>, h_tpara := t\<rparr>)) \<and> quorum_cert_para C (h_nodes h) (h_qsize h) r s \<and>
    pcp_log.votes_ok ((h_log h)\<lparr>precommitsPara := x\<rparr>) \<and>
    (\<forall>v' sq. entries_of (seq_find x v' sq) = (if (v', sq) = (h_view h, seqNumber r)
      then [vote_para C (h_tpara h) (next_para r PH1_PRECOMMIT)] else entries_of (seq_find (precommitsPara (h_log h)) v' sq))) \<and>
    tq_blockPhases t = map_set (hbytes (proph r)) PH1_COMMIT (tq_blockPhases (h_tpara h)) \<and>
    tq_view t = tq_view (h_tpara h) \<and> tq_qsize t = tq_qsize (h_tpara h) \<and> tq_id t = tq_id (h_tpara h) \<and> tq_priv t = tq_priv (h_tpara h)"
proof -
  from certificate_of_votes_para [OF votes len q] obtain s where
    s: "getPreparePara (h_view h) (h_qsize h) (seqNumber r) (h_log h) = Inr s" "quorum_cert_para C (h_nodes h) (h_qsize h) r s"
    by (auto simp: getPreparePara_def)
  let ?h = "emit [Multicast (Net_PreparePara (Msg_new r s)) (getPeerids (remove_from_peers h (h_myid h)))] h"
  let ?vote = "vote_para C (h_tpara h) (next_para r PH1_PRECOMMIT)"
  from callTEEstorePara_prepared [of C ?h r s] s(2) t r ph obtain t' where
    t': "callTEEstorePara C (JustPara_signs r s) ?h = Inr (JustPara_sign (next_para r PH1_PRECOMMIT)
        (Sign_make C (tq_priv (h_tpara h)) (tq_id (h_tpara h)) (rdataPara_toString (next_para r PH1_PRECOMMIT))), ?h\<lparr>h_tpara := t'\<rparr>)"
      "tq_blockPhases t' = map_set (hbytes (proph r)) PH1_COMMIT (tq_blockPhases (h_tpara h))"
      "tq_view t' = tq_view (h_tpara h)" "tq_qsize t' = tq_qsize (h_tpara h)" "tq_id t' = tq_id (h_tpara h)" "tq_priv t' = tq_priv (h_tpara h)"
    by (auto simp: emit_def)
  from pcp_log.store_vote_total [OF pc(1) vote_para_good(1,2), of C "h_tpara h" "next_para r PH1_PRECOMMIT"] pc(2) r(1) obtain l' n where
    l': "storePcPara ?vote (h_log h) = Inr (l', n)" "pcp_log.votes_ok l'"
      "set (entries_of (seq_find (precommitsPara l') (h_view h) (seqNumber r))) = {?vote}"
      "length (entries_of (seq_find (precommitsPara l') (h_view h) (seqNumber r))) = 1"
      "\<forall>k. k \<noteq> (h_view h, seqNumber r) \<longrightarrow> (case k of (v, s) \<Rightarrow> entries_of (seq_find (precommitsPara l') v s)) =
        (case k of (v, s) \<Rightarrow> entries_of (seq_find (precommitsPara (h_log h)) v s))"
    by (auto simp: vote_para_good(3))
  from store_frames(11) [OF l'(1)] obtain x where x: "l' = (h_log h)\<lparr>precommitsPara := x\<rparr>" by blast
  have "entries_of (seq_find (precommitsPara l') (h_view h) (seqNumber r)) = [?vote]"
    using l'(3,4) by (auto simp: length_Suc_conv)
  then have e: "\<forall>v' sq. entries_of (seq_find x v' sq) = (if (v', sq) = (h_view h, seqNumber r) then [?vote]
      else entries_of (seq_find (precommitsPara (h_log h)) v' sq))" using l'(5) by (auto simp: x)
  have vote: "Msg_new (next_para r PH1_PRECOMMIT) (Signs_one (Sign_make C (tq_priv (h_tpara h)) (tq_id (h_tpara h))
      (rdataPara_toString (next_para r PH1_PRECOMMIT)))) = ?vote" by (simp add: vote_para_def)
  have "RDataPara_new (proph r) (propv r) (justh r) (justv r) PH1_PREPARE (seqNumber r) = r"
    using r(2) by (simp add: RDataPara_new_def)
  then have "initiatePreparePara C r h = Inr (?h\<lparr>h_log := (h_log h)\<lparr>precommitsPara := x\<rparr>, h_tpara := t'\<rparr>)"
    using s(1) t'(1) l'(1) r(1) vote by (simp add: initiatePreparePara_def Let_def emit_def x)
  with s(2) l'(2) e t' show ?thesis
    by (intro exI [of _ s] exI [of _ t'] exI [of _ x]) (simp add: x emit_def)
qed

abbreviation votes_of :: "Handler \<Rightarrow> u32 \<Rightarrow> MsgPreparePara list" where
  "votes_of h k \<equiv> entries_of (seq_find (preparesPara (h_log h)) (h_view h) k)"

lemma leads_frame:
  assumes "leads C rs n h0 h"
  shows "h_nodes h = h_nodes h0" "h_qsize h = h_qsize h0" "h_view h = h_view h0" "h_peers h = h_peers h0" "h_myid h = h_myid h0"
    "\<not> h_isPaused h" "\<not> maxViewsReached h" "amCurrentLeader h" "tq_view (h_tpara h) = h_view h0" "tq_qsize (h_tpara h) = h_qsize h0"
    "tq_id (h_tpara h) = tq_id (h_tpara h0)" "tq_priv (h_tpara h) = tq_priv (h_tpara h0)"
    "prepp_log.votes_ok (h_log h)" "pcp_log.votes_ok (h_log h)"
  using assms by (simp_all add: leads_def)

lemma leads_votes:
  assumes "leads C rs n h0 h" and "1 \<le> k" "k \<le> n"
  shows "\<forall>m\<in>set (votes_of h (word_of_nat k)). good_vote_para C (h_nodes h0) (rs k) m"
    and "map_find (tq_blockPhases (h_tpara h)) (hbytes (proph (rs k))) =
      Some (if unat (h_qsize h0) \<le> length (votes_of h (word_of_nat k)) then PH1_COMMIT else PH1_PRECOMMIT)"
    and "entries_of (seq_find (precommitsPara (h_log h)) (h_view h0) (word_of_nat k)) =
      (if unat (h_qsize h0) \<le> length (votes_of h (word_of_nat k)) then [vote_para C (h_tpara h0) (next_para (rs k) PH1_PRECOMMIT)] else [])"
proof -
  note f = leads_frame(1-3) [OF assms(1)]
  from assms show "\<forall>m\<in>set (votes_of h (word_of_nat k)). good_vote_para C (h_nodes h0) (rs k) m"
    unfolding leads_def Let_def f by blast
  from assms show "map_find (tq_blockPhases (h_tpara h)) (hbytes (proph (rs k))) =
      Some (if unat (h_qsize h0) \<le> length (votes_of h (word_of_nat k)) then PH1_COMMIT else PH1_PRECOMMIT)"
    unfolding leads_def Let_def f by blast
  from assms show "entries_of (seq_find (precommitsPara (h_log h)) (h_view h0) (word_of_nat k)) =
      (if unat (h_qsize h0) \<le> length (votes_of h (word_of_nat k)) then [vote_para C (h_tpara h0) (next_para (rs k) PH1_PRECOMMIT)] else [])"
    unfolding leads_def Let_def f by blast
qed

text \<open>The state with another log, component and output, and with other blocks.\<close>

lemma leads_update_all:
  assumes "leads C rs n h0 h" and "h' = h\<lparr>h_transactions := ts, h_localSeq := s, h_tpara := t, h_pblocks := pb, h_log := l, outs := es\<rparr>"
    and "prepp_log.votes_ok l" "pcp_log.votes_ok l"
    and "tq_view t = h_view h0" "tq_qsize t = h_qsize h0" "tq_id t = tq_id (h_tpara h0)" "tq_priv t = tq_priv (h_tpara h0)"
    and "\<And>k. 1 \<le> k \<Longrightarrow> k \<le> n' \<Longrightarrow>
       (let votes = entries_of (seq_find (preparesPara l) (h_view h0) (word_of_nat k)); certified = unat (h_qsize h0) \<le> length votes
        in (\<forall>m\<in>set votes. good_vote_para C (h_nodes h0) (rs k) m) \<and>
           map_find (tq_blockPhases t) (hbytes (proph (rs k))) = Some (if certified then PH1_COMMIT else PH1_PRECOMMIT) \<and>
           entries_of (seq_find (precommitsPara l) (h_view h0) (word_of_nat k)) =
             (if certified then [vote_para C (h_tpara h0) (next_para (rs k) PH1_PRECOMMIT)] else []))"
  shows "leads C rs n' h0 h'"
proof -
  have "maxViewsReached h' = maxViewsReached h" "amCurrentLeader h' = amCurrentLeader h"
    by (simp_all add: assms(2) maxViewsReached_def amCurrentLeader_def getCurrentLeader_def getLeaderOf_def)
  with assms(3-) leads_frame [OF assms(1)] show ?thesis by (simp add: leads_def assms(2))
qed

lemma leads_update:
  assumes "leads C rs n h0 h" and "h' = h\<lparr>h_log := l, h_tpara := t, outs := es\<rparr>"
    and "prepp_log.votes_ok l" "pcp_log.votes_ok l"
    and "tq_view t = h_view h0" "tq_qsize t = h_qsize h0" "tq_id t = tq_id (h_tpara h0)" "tq_priv t = tq_priv (h_tpara h0)"
    and "\<And>k. 1 \<le> k \<Longrightarrow> k \<le> n \<Longrightarrow>
       (let votes = entries_of (seq_find (preparesPara l) (h_view h0) (word_of_nat k)); certified = unat (h_qsize h0) \<le> length votes
        in (\<forall>m\<in>set votes. good_vote_para C (h_nodes h0) (rs k) m) \<and>
           map_find (tq_blockPhases t) (hbytes (proph (rs k))) = Some (if certified then PH1_COMMIT else PH1_PRECOMMIT) \<and>
           entries_of (seq_find (precommitsPara l) (h_view h0) (word_of_nat k)) =
             (if certified then [vote_para C (h_tpara h0) (next_para (rs k) PH1_PRECOMMIT)] else []))"
  shows "leads C rs n h0 h'"
  by (rule leads_update_all [OF assms(1), where ts = "h_transactions h" and s = "h_localSeq h" and pb = "h_pblocks h" and l = l and t = t and es = es])
    (use assms(2-) in simp_all)

lemma prepare_step:
  assumes st: "statements (h_view h0) n rs" and q: "unat (h_qsize h0) \<le> MAX_NUM_SIGNATURES"
    and h: "leads C rs n h0 h" and k: "1 \<le> k" "k \<le> n" and m: "good_vote_para C (h_nodes h0) (rs k) m"
    and s: "storePrepPara m (h_log h) = Inr (l, c)" "c = word_of_nat (length (entries_of (seq_find (preparesPara l) (h_view h0) (word_of_nat k))))"
    and set: "set (entries_of (seq_find (preparesPara l) (h_view h0) (word_of_nat k))) = insert m (set (votes_of h (word_of_nat k)))"
    and len: "length (entries_of (seq_find (preparesPara l) (h_view h0) (word_of_nat k))) = Suc (length (votes_of h (word_of_nat k)))"
      "length (entries_of (seq_find (preparesPara l) (h_view h0) (word_of_nat k))) < 2 ^ 32"
    and ok: "prepp_log.votes_ok l"
    and other: "\<And>sq. sq \<noteq> word_of_nat k \<Longrightarrow> entries_of (seq_find (preparesPara l) (h_view h0) sq) = votes_of h sq"
  shows "\<exists>h'. handle_prepare_para C m h = Inr h' \<and> leads C rs n h0 h' \<and> preparesPara (h_log h') = preparesPara l \<and>
    (if length (entries_of (seq_find (preparesPara l) (h_view h0) (word_of_nat k))) = unat (h_qsize h0)
     then \<exists>e. outs h' = outs h @ [e] \<and> prepare_cert C rs h0 (word_of_nat k) e else outs h' = outs h)"
proof -
  note f = leads_frame [OF h] and D = statementsD [OF st k]
  let ?votes = "\<lambda>j. entries_of (seq_find (preparesPara l) (h_view h0) (word_of_nat j))" and ?q = "unat (h_qsize h0)"
  have r: "m_rdata m = rs k" using good_vote_paraD [OF m] by blast
  from store_frames(10) [OF s(1)] obtain x where x: "l = (h_log h)\<lparr>preparesPara := x\<rparr>" by blast
  have pc: "pcp_log.votes_ok l" using f(14) by (simp add: votes_ok_defs x)
  have same: "?votes j = votes_of h (word_of_nat j)" if "1 \<le> j" "j \<le> n" "j \<noteq> k" for j using other D(4) that by simp
  have good: "\<forall>y\<in>set (?votes j). good_vote_para C (h_nodes h0) (rs j) y" if "1 \<le> j" "j \<le> n" for j
    using leads_votes(1) [OF h that] set m same [OF that] by (cases "j = k") auto
  have eq: "c = h_qsize h0 \<longleftrightarrow> length (?votes k) = ?q"
    using s(2) len(2) unat_of_nat_u32 [of "length (?votes k)"] by (auto simp: word_unat_eq_iff)
  have step: "handle_prepare_para C m h =
      (if length (?votes k) = ?q then initiatePreparePara C (rs k) (h\<lparr>h_log := l\<rparr>) else Inr (h\<lparr>h_log := l\<rparr>))"
    using f(2,3,6-8) r D(1) s(1) eq by (simp add: handle_prepare_para_def handlePreparePara_def amCurrentLeader_def getCurrentLeader_def getLeaderOf_def)
  show ?thesis
  proof (cases "length (?votes k) = ?q")
    case False
    have "?q \<le> length (?votes j) \<longleftrightarrow> ?q \<le> length (votes_of h (word_of_nat j))" if "1 \<le> j" "j \<le> n" for j
      using same [OF that] len(1) False by (cases "j = k") auto
    then have "leads C rs n h0 (h\<lparr>h_log := l\<rparr>)"
      using good leads_votes(2,3) [OF h] f by (intro leads_update [OF h, where l = l and t = "h_tpara h" and es = "outs h"] ok pc) (simp_all add: x Let_def)
    with step False show ?thesis by simp
  next
    case True
    let ?h = "h\<lparr>h_log := l\<rparr>"
    have un: "\<not> ?q \<le> length (votes_of h (word_of_nat k))" using True len(1) by simp
    have "\<exists>s t y. initiatePreparePara C (rs k) ?h = Inr (emit [Multicast (Net_PreparePara (Msg_new (rs k) s)) (getPeerids (remove_from_peers ?h (h_myid ?h)))]
        (?h\<lparr>h_log := (h_log ?h)\<lparr>precommitsPara := y\<rparr>, h_tpara := t\<rparr>)) \<and> quorum_cert_para C (h_nodes ?h) (h_qsize ?h) (rs k) s \<and>
      pcp_log.votes_ok ((h_log ?h)\<lparr>precommitsPara := y\<rparr>) \<and>
      (\<forall>v' sq. entries_of (seq_find y v' sq) = (if (v', sq) = (h_view ?h, seqNumber (rs k))
        then [vote_para C (h_tpara ?h) (next_para (rs k) PH1_PRECOMMIT)] else entries_of (seq_find (precommitsPara (h_log ?h)) v' sq))) \<and>
      tq_blockPhases t = map_set (hbytes (proph (rs k))) PH1_COMMIT (tq_blockPhases (h_tpara ?h)) \<and>
      tq_view t = tq_view (h_tpara ?h) \<and> tq_qsize t = tq_qsize (h_tpara ?h) \<and> tq_id t = tq_id (h_tpara ?h) \<and> tq_priv t = tq_priv (h_tpara ?h)"
      by (rule leader_certifies)
        (use f pc q D(1-3) good [OF k] True leads_votes(2,3) [OF h k] un in \<open>simp_all add: x\<close>)
    then obtain s t y where i: "initiatePreparePara C (rs k) ?h = Inr (emit [Multicast (Net_PreparePara (Msg_new (rs k) s)) (getPeerids (remove_from_peers h0 (h_myid h0)))]
        (?h\<lparr>h_log := l\<lparr>precommitsPara := y\<rparr>, h_tpara := t\<rparr>))" "quorum_cert_para C (h_nodes h0) (h_qsize h0) (rs k) s"
      "pcp_log.votes_ok (l\<lparr>precommitsPara := y\<rparr>)"
      "\<forall>v' sq. entries_of (seq_find y v' sq) = (if (v', sq) = (h_view h0, word_of_nat k)
        then [vote_para C (h_tpara h) (next_para (rs k) PH1_PRECOMMIT)] else entries_of (seq_find (precommitsPara l) v' sq))"
      "tq_blockPhases t = map_set (hbytes (proph (rs k))) PH1_COMMIT (tq_blockPhases (h_tpara h))"
      "tq_view t = h_view h0" "tq_qsize t = h_qsize h0" "tq_id t = tq_id (h_tpara h0)" "tq_priv t = tq_priv (h_tpara h0)"
      using f D(3) by (auto simp: remove_from_peers_def)
    have own: "vote_para C (h_tpara h) (next_para (rs k) PH1_PRECOMMIT) = vote_para C (h_tpara h0) (next_para (rs k) PH1_PRECOMMIT)"
      using f(11,12) by (simp add: vote_para_def)
    let ?e = "Multicast (Net_PreparePara (Msg_new (rs k) s)) (getPeerids (remove_from_peers h0 (h_myid h0)))"
    let ?h' = "h\<lparr>h_log := l\<lparr>precommitsPara := y\<rparr>, h_tpara := t, outs := outs h @ [?e]\<rparr>"
    have "leads C rs n h0 ?h'"
    proof (rule leads_update [OF h refl])
      show "prepp_log.votes_ok (l\<lparr>precommitsPara := y\<rparr>)" using ok by (simp add: votes_ok_defs)
      fix j assume j: "1 \<le> j" "j \<le> n"
      show "let votes = entries_of (seq_find (preparesPara (l\<lparr>precommitsPara := y\<rparr>)) (h_view h0) (word_of_nat j)); certified = ?q \<le> length votes
        in (\<forall>m\<in>set votes. good_vote_para C (h_nodes h0) (rs j) m) \<and>
           map_find (tq_blockPhases t) (hbytes (proph (rs j))) = Some (if certified then PH1_COMMIT else PH1_PRECOMMIT) \<and>
           entries_of (seq_find (precommitsPara (l\<lparr>precommitsPara := y\<rparr>)) (h_view h0) (word_of_nat j)) =
             (if certified then [vote_para C (h_tpara h0) (next_para (rs j) PH1_PRECOMMIT)] else [])"
        using good [OF j] same [OF j] leads_votes(2,3) [OF h j] True i(4,5) D(4,5) [OF j] by (cases "j = k") (simp_all add: own x Let_def)
    qed (use i in simp_all)
    moreover have "prepare_cert C rs h0 (word_of_nat k) ?e" using i(2) D(6) by (auto simp: prepare_cert_def)
    ultimately show ?thesis using step i(1) True by (intro exI [of _ ?h']) (simp add: emit_def)
  qed
qed

lemma event_run_map: "event_run step (map g ms) = event_run (\<lambda>m. step (g m)) ms"
proof (rule ext)
  fix h show "event_run step (map g ms) h = event_run (\<lambda>m. step (g m)) ms h"
    by (induction ms arbitrary: h) (simp_all add: bindE_def split: sum.split)
qed

text \<open>The votes for one statement are those with its key.\<close>

abbreviation vote_key :: "RDataPara msg \<Rightarrow> View \<times> u32" where
  "vote_key m \<equiv> (propv (m_rdata m), seqNumber (m_rdata m))"

abbreviation prepares_at :: "Log \<Rightarrow> View \<times> u32 \<Rightarrow> MsgPreparePara list" where
  "prepares_at l \<equiv> \<lambda>(v, s). entries_of (seq_find (preparesPara l) v s)"

lemma vote_keys:
  assumes st: "statements v n rs" and votes: "\<forall>m\<in>set ms. \<exists>k\<in>{1..n}. good_vote_para C ns (rs k) m"
  shows "m \<in> set ms \<Longrightarrow> \<exists>k\<in>{1..n}. m_rdata m = rs k \<and> vote_key m = (v, word_of_nat k)"
    and "m \<in> set ms \<Longrightarrow> k \<in> {1..n} \<Longrightarrow> vote_key m = (v, word_of_nat k) \<longleftrightarrow> m_rdata m = rs k"
    and "k \<in> {1..n} \<Longrightarrow> filter (\<lambda>m. vote_key m = (v, word_of_nat k)) ms = filter (\<lambda>m. m_rdata m = rs k) ms"
    and "k \<in> {1..n} \<Longrightarrow> {m \<in> set ms. vote_key m = (v, word_of_nat k)} = {m \<in> set ms. m_rdata m = rs k}"
    and "x \<notin> (\<lambda>k. (v, word_of_nat k)) ` {1..n} \<Longrightarrow> filter (\<lambda>m. vote_key m = x) ms = []"
proof -
  note D = statementsD [OF st]
  show key: "\<exists>k\<in>{1..n}. m_rdata m = rs k \<and> vote_key m = (v, word_of_nat k)" if m: "m \<in> set ms" for m
  proof -
    from votes m obtain k where k: "k \<in> {1..n}" "good_vote_para C ns (rs k) m" by blast
    then have "m_rdata m = rs k" using good_vote_paraD by blast
    with k(1) D [of k] show ?thesis by auto
  qed
  show rd: "vote_key m = (v, word_of_nat k) \<longleftrightarrow> m_rdata m = rs k" if "m \<in> set ms" "k \<in> {1..n}" for m k
  proof -
    from key [OF that(1)] obtain j where j: "j \<in> {1..n}" "m_rdata m = rs j" "vote_key m = (v, word_of_nat j)" by blast
    show ?thesis
    proof
      assume "vote_key m = (v, word_of_nat k)"
      with j(3) have "(word_of_nat j :: u32) = word_of_nat k" by simp
      with D(4) [of k j] j(1) that(2) have "j = k" by simp
      with j(2) show "m_rdata m = rs k" by simp
    qed (use D(1,3) [of k] that(2) in simp)
  qed
  show "k \<in> {1..n} \<Longrightarrow> filter (\<lambda>m. vote_key m = (v, word_of_nat k)) ms = filter (\<lambda>m. m_rdata m = rs k) ms"
    using rd by (intro filter_cong refl) blast
  show "k \<in> {1..n} \<Longrightarrow> {m \<in> set ms. vote_key m = (v, word_of_nat k)} = {m \<in> set ms. m_rdata m = rs k}"
    using rd by blast
  show "filter (\<lambda>m. vote_key m = x) ms = []" if "x \<notin> (\<lambda>k. (v, word_of_nat k)) ` {1..n}"
  proof -
    have "vote_key m \<noteq> x" if "m \<in> set ms" for m using key [OF that] \<open>x \<notin> _\<close> by blast
    then show ?thesis by (simp add: filter_empty_conv)
  qed
qed

lemma key_numbers:
  assumes "distinct xs" and "\<And>x. x \<in> set xs \<longleftrightarrow> (\<exists>k\<in>K. x = (v, word_of_nat k :: u32))"
    and "\<And>k. k \<in> K \<Longrightarrow> unat (word_of_nat k :: u32) = k"
  shows "distinct (map (\<lambda>x. unat (snd x)) xs) \<and> set (map (\<lambda>x. unat (snd x)) xs) = K"
proof
  have xs: "set xs = (\<lambda>k. (v, word_of_nat k)) ` K" using assms(2) by blast
  have "inj_on (\<lambda>x. unat (snd x)) (set xs)" by (rule inj_onI) (auto simp: xs word_unat_eq_iff)
  with assms(1) show "distinct (map (\<lambda>x. unat (snd x)) xs)" by (simp add: distinct_map)
  have "set (map (\<lambda>x. unat (snd x)) xs) = (\<lambda>k. unat (word_of_nat k :: u32)) ` K" by (simp add: xs image_image)
  also have "\<dots> = id ` K" by (rule image_cong [OF refl]) (simp add: assms(3))
  finally show "set (map (\<lambda>x. unat (snd x)) xs) = K" by simp
qed

text \<open>The leader's handler is one of those of \<open>rounds\<close>.\<close>

lemma prepare_rounds_run:
  fixes ms :: "MsgPreparePara list"
  assumes st: "statements (h_view h0) n rs" and q: "unat (h_qsize h0) \<le> MAX_NUM_SIGNATURES" and h: "leads C rs n h0 h"
    and votes: "\<forall>m\<in>set ms. \<exists>k\<in>{1..n}. good_vote_para C (h_nodes h0) (rs k) m"
    and dist: "\<forall>k. distinct (map (voter m_signs) (filter (\<lambda>m. vote_key m = k) ms))"
    and new: "\<forall>m\<in>set ms. voter m_signs m \<notin> voters m_signs (prepares_at (h_log h) (vote_key m))"
    and small: "\<forall>k\<in>vote_key ` set ms. length (prepares_at (h_log h) k) + length (filter (\<lambda>m. vote_key m = k) ms) < 2 ^ 32"
  shows "\<exists>h' ks es. event_run (handle_prepare_para C) ms h = Inr h' \<and> leads C rs n h0 h' \<and>
      (\<forall>k. set (prepares_at (h_log h') k) = set (prepares_at (h_log h) k) \<union> {m \<in> set ms. vote_key m = k}) \<and> distinct ks \<and>
      (\<forall>k. k \<in> set ks \<longleftrightarrow> length (prepares_at (h_log h) k) < unat (h_qsize h0) \<and>
        unat (h_qsize h0) \<le> length (prepares_at (h_log h) k) + length (filter (\<lambda>m. vote_key m = k) ms)) \<and>
      outs h' = outs h @ es \<and> list_all2 (\<lambda>(v, s). prepare_cert C rs h0 s) ks es"
proof (rule prepp_log.rounds [where good = "\<lambda>m. \<exists>k\<in>{1..n}. good_vote_para C (h_nodes h0) (rs k) m"])
  fix m g l c
  assume g: "leads C rs n h0 g" and "\<exists>k\<in>{1..n}. good_vote_para C (h_nodes h0) (rs k) m" and s: "storePrepPara m (h_log g) = Inr (l, c)"
    and upd: "set (prepares_at l (vote_key m)) = insert m (set (prepares_at (h_log g) (vote_key m)))"
      "length (prepares_at l (vote_key m)) = Suc (length (prepares_at (h_log g) (vote_key m)))" "c = word_of_nat (length (prepares_at l (vote_key m)))"
      "prepp_log.votes_ok l" "\<forall>k. k \<noteq> vote_key m \<longrightarrow> prepares_at l k = prepares_at (h_log g) k" "length (prepares_at l (vote_key m)) < 2 ^ 32"
  then obtain k where k: "k \<in> {1..n}" "good_vote_para C (h_nodes h0) (rs k) m" by blast
  then have km: "propv (m_rdata m) = h_view h0" "seqNumber (m_rdata m) = word_of_nat k"
    using good_vote_paraD [OF k(2)] statementsD(1,3) [OF st, of k] by simp_all
  have gv: "h_view g = h_view h0" by (rule leads_frame(3) [OF g])
  have "\<exists>h'. handle_prepare_para C m g = Inr h' \<and> leads C rs n h0 h' \<and> preparesPara (h_log h') = preparesPara l \<and>
      (if length (entries_of (seq_find (preparesPara l) (h_view h0) (word_of_nat k))) = unat (h_qsize h0)
       then \<exists>e. outs h' = outs g @ [e] \<and> prepare_cert C rs h0 (word_of_nat k) e else outs h' = outs g)"
    by (rule prepare_step [OF st q g _ _ k(2) s])
      (use k(1) upd upd(5) [rule_format, of "(h_view h0, sq)" for sq] in \<open>simp_all add: km gv\<close>)
  then show "\<exists>h'. handle_prepare_para C m g = Inr h' \<and> leads C rs n h0 h' \<and> (\<forall>k. prepares_at (h_log h') k = prepares_at l k) \<and>
      (if length (prepares_at l (vote_key m)) = unat (h_qsize h0)
       then \<exists>e. outs h' = outs g @ [e] \<and> (case vote_key m of (v, s) \<Rightarrow> prepare_cert C rs h0 s) e else outs h' = outs g)"
    by (auto simp: km)
next
  show "prepp_log.votes_ok (h_log g)" if "leads C rs n h0 g" for g using leads_frame(13) [OF that] .
  show "msg_good m_signs m \<and> length (sig_list (m_signs m)) = 1" if "\<exists>k\<in>{1..n}. good_vote_para C (h_nodes h0) (rs k) m" for m
    using that by (auto dest: good_vote_paraD)
qed (use h votes dist new small in blast)+

text \<open>
  The rounds of the blocks of a view do not disturb each other: the leader stores all the votes, and sends one
  certificate for each block whose votes reach the quorum.
\<close>

lemma prepare_rounds:
  assumes st: "statements (h_view h0) n rs" and q: "unat (h_qsize h0) \<le> MAX_NUM_SIGNATURES" and h: "leads C rs n h0 h"
    and votes: "\<forall>m\<in>set ms. \<exists>k\<in>{1..n}. good_vote_para C (h_nodes h0) (rs k) m"
    and once: "\<forall>k\<in>{1..n}. distinct (map (voter m_signs) (filter (\<lambda>m. m_rdata m = rs k) ms))"
      "\<forall>m\<in>set ms. voter m_signs m \<notin> voters m_signs (votes_of h (seqNumber (m_rdata m)))"
    and small: "\<forall>k\<in>{1..n}. length (votes_of h (word_of_nat k)) + length ms < 2 ^ 32"
  shows "\<exists>h' ks es. event_run (para_step C send_ok) (map P_prepare ms) h = Inr h' \<and> leads C rs n h0 h' \<and>
    (\<forall>k\<in>{1..n}. set (votes_of h' (word_of_nat k)) = set (votes_of h (word_of_nat k)) \<union> {m \<in> set ms. m_rdata m = rs k}) \<and>
    distinct ks \<and> set ks = {k \<in> {1..n}. length (votes_of h (word_of_nat k)) < unat (h_qsize h0) \<and>
      unat (h_qsize h0) \<le> length (votes_of h (word_of_nat k)) + length (filter (\<lambda>m. m_rdata m = rs k) ms)} \<and>
    outs h' = outs h @ es \<and> list_all2 (prepare_cert C rs h0) (map word_of_nat ks) es"
proof -
  let ?v = "h_view h0" and ?q = "unat (h_qsize h0)"
  let ?K = "{k \<in> {1..n}. length (votes_of h (word_of_nat k)) < ?q \<and>
      ?q \<le> length (votes_of h (word_of_nat k)) + length (filter (\<lambda>m. m_rdata m = rs k) ms)}"
  note f = leads_frame(3) and key = vote_keys [OF st votes] and u = statementsD(6) [OF st]
  have at: "prepares_at (h_log g) (?v, word_of_nat k) = votes_of g (word_of_nat k)" if "leads C rs n h0 g" for g k
    by (simp add: f [OF that])
  have dist: "distinct (map (voter m_signs) (filter (\<lambda>m. vote_key m = x) ms))" for x
    using key(3,5) once(1) by (cases "x \<in> (\<lambda>k. (?v, word_of_nat k)) ` {1..n}") auto
  have new: "voter m_signs m \<notin> voters m_signs (prepares_at (h_log h) (vote_key m))" if "m \<in> set ms" for m
    using once(2) that key(1) [OF that] f [OF h] by auto
  have len: "length (prepares_at (h_log h) x) + length (filter (\<lambda>m. vote_key m = x) ms) < 2 ^ 32" if x: "x \<in> vote_key ` set ms" for x
  proof -
    from x key(1) obtain k where "k \<in> {1..n}" "x = (?v, word_of_nat k)" by blast
    with small at [OF h] have "length (prepares_at (h_log h) x) + length ms < 2 ^ 32" by simp
    then show ?thesis using length_filter_le [of "\<lambda>m. vote_key m = x" ms] by linarith
  qed
  from prepare_rounds_run [OF st q h votes] dist new len obtain h' xs es where
    run: "event_run (handle_prepare_para C) ms h = Inr h'" "leads C rs n h0 h'"
    "\<forall>k. set (prepares_at (h_log h') k) = set (prepares_at (h_log h) k) \<union> {m \<in> set ms. vote_key m = k}" "distinct xs"
    "\<forall>x. x \<in> set xs \<longleftrightarrow> length (prepares_at (h_log h) x) < ?q \<and> ?q \<le> length (prepares_at (h_log h) x) + length (filter (\<lambda>m. vote_key m = x) ms)"
    "outs h' = outs h @ es" "list_all2 (\<lambda>(v, s). prepare_cert C rs h0 s) xs es" by blast
  have xs: "x \<in> set xs \<longleftrightarrow> (\<exists>k\<in>?K. x = (?v, word_of_nat k))" for x
  proof (cases "x \<in> (\<lambda>k. (?v, word_of_nat k)) ` {1..n}")
    case True
    then obtain k where k: "k \<in> {1..n}" "x = (?v, word_of_nat k)" by blast
    have "x \<in> set xs \<longleftrightarrow> k \<in> ?K" using run(5) [rule_format, of x] key(3) [OF k(1)] at [OF h] k by simp
    moreover have "j = k" if "j \<in> {1..n}" "x = (?v, word_of_nat j)" for j
    proof -
      have "1 \<le> k" "k \<le> n" "1 \<le> j" "j \<le> n" "(word_of_nat j :: u32) = word_of_nat k" using k that by simp_all
      with statementsD(4) [OF st] show ?thesis by blast
    qed
    ultimately show ?thesis using k(2) by blast
  next
    case False
    from run(5) [rule_format, of x] key(5) [OF this] have "x \<notin> set xs" by simp
    with False show ?thesis by blast
  qed
  let ?ks = "map (\<lambda>x. unat (snd x)) xs"
  have "distinct ?ks \<and> set ?ks = ?K" by (rule key_numbers [OF run(4) xs]) (use u in simp)
  moreover have "list_all2 (prepare_cert C rs h0) (map word_of_nat ?ks) es"
    using run(7) by (auto simp: list_all2_map1 elim!: list_all2_mono)
  moreover have "\<forall>k\<in>{1..n}. set (votes_of h' (word_of_nat k)) = set (votes_of h (word_of_nat k)) \<union> {m \<in> set ms. m_rdata m = rs k}"
  proof
    fix k assume k: "k \<in> {1..n}"
    from run(3) [rule_format, of "(?v, word_of_nat k)"]
    show "set (votes_of h' (word_of_nat k)) = set (votes_of h (word_of_nat k)) \<union> {m \<in> set ms. m_rdata m = rs k}"
      unfolding key(4) [OF k] at [OF h] at [OF run(2)] .
  qed
  moreover have "(\<lambda>m. para_step C send_ok (P_prepare m)) = handle_prepare_para C" by (rule ext)+ simp
  then have "event_run (para_step C send_ok) (map P_prepare ms) h = Inr h'" using run(1) by (simp add: event_run_map)
  ultimately show ?thesis using run(2,6) by blast
qed

end
