(* ===== verification/ParallelView.thy ===== *)
theory ParallelView
  imports ParallelRounds
begin

text \<open>
  The first half of a view of the parallel protocol at the leader and at its backups: the blocks that \<open>preparePara\<close> makes
  and proposes, the votes of the backups for the proposals that reach them, in any order, and the certificates that
  the leader makes of these votes, in any order.
\<close>

section \<open>The leader's proposals\<close>

text \<open>
  The blocks that a leader makes of its transactions: each extends the one before it, the first one the block
  of the justification.
\<close>

definition made_block :: "u32 \<Rightarrow> Hash \<Rightarrow> Transaction list \<Rightarrow> PBlock" where
  "made_block s prev ts = PBlock_new prev (word_of_nat (min MAX_NUM_TRANSACTIONS (length ts))) s
     (take MAX_NUM_TRANSACTIONS ts @ replicate (MAX_NUM_TRANSACTIONS - length ts) Transaction_dummy)"

fun new_blocks :: "crypto \<Rightarrow> nat \<Rightarrow> u32 \<Rightarrow> Hash \<Rightarrow> Transaction list \<Rightarrow> PBlock list" where
  "new_blocks C 0 s prev ts = []"
| "new_blocks C (Suc n) s prev ts =
     (let b = made_block s prev ts
      in b # new_blocks C n (s + 1) (projr (pblock_hash C b)) (drop MAX_NUM_TRANSACTIONS ts))"

definition block_statement :: "crypto \<Rightarrow> RDataPara \<Rightarrow> PBlock list \<Rightarrow> nat \<Rightarrow> RDataPara" where
  "block_statement C rd bs k =
     RDataPara_new (projr (pblock_hash C (bs ! (k - 1)))) (propv rd) (justh rd) (justv rd) PH1_PREPARE (word_of_nat k)"

lemma made_block_ok: "pblock_ok (made_block s prev ts)"
proof -
  have "min MAX_NUM_TRANSACTIONS (length ts) < 2 ^ 32" by (simp add: MAX_NUM_TRANSACTIONS_def min_def)
  from unat_of_nat_u32 [OF this] show ?thesis by (simp add: pblock_ok_def made_block_def PBlock_new_def min_def)
qed

lemma made_block_hash: "pblock_hash C (made_block s prev ts) = Inr (projr (pblock_hash C (made_block s prev ts)))"
  using pblock_hash_ok [OF made_block_ok, of C s prev ts] by auto

lemma createNewBlockPara_made:
  "createNewBlockPara prev h = (made_block (h_localSeq h) prev (h_transactions h), h\<lparr>h_transactions := drop MAX_NUM_TRANSACTIONS (h_transactions h)\<rparr>)"
  by (simp add: createNewBlockPara_def fill_block_def made_block_def Let_def min_def)

lemma new_blocks_made:
  "length (new_blocks C n s prev ts) = n"
  "k < n \<Longrightarrow> \<exists>prev' ts'. new_blocks C n s prev ts ! k = made_block (s + word_of_nat k) prev' ts' \<and>
     prev' = (if k = 0 then prev else projr (pblock_hash C (new_blocks C n s prev ts ! (k - 1))))"
proof (induction n arbitrary: k s prev ts)
  case (Suc n)
  { case 1 show ?case using Suc.IH(1) by (simp add: Let_def) }
  { case 2
    let ?b = "made_block s prev ts"
    show ?case
    proof (cases k)
      case (Suc j)
      with Suc.IH(2) [of j "s + 1" "projr (pblock_hash C ?b)" "drop MAX_NUM_TRANSACTIONS ts"] 2 obtain prev' ts' where
        "new_blocks C n (s + 1) (projr (pblock_hash C ?b)) (drop MAX_NUM_TRANSACTIONS ts) ! j = made_block (s + 1 + word_of_nat j) prev' ts'"
        "prev' = (if j = 0 then projr (pblock_hash C ?b)
          else projr (pblock_hash C (new_blocks C n (s + 1) (projr (pblock_hash C ?b)) (drop MAX_NUM_TRANSACTIONS ts) ! (j - 1))))" by auto
      with Suc show ?thesis by (intro exI [of _ prev'] exI [of _ ts']) (cases j; simp add: Let_def add.assoc)
    qed (auto simp: Let_def)
  }
qed simp_all

text \<open>The leader before \<open>preparePara\<close>, with the justification that it builds on.\<close>

definition proposer :: "crypto \<Rightarrow> Just \<Rightarrow> RDataPara \<Rightarrow> Handler \<Rightarrow> bool" where
  "proposer C just rd h \<longleftrightarrow> getRDataPara just = Inr rd \<and> phase rd = PH1_NEWVIEW \<and> propv rd = h_view h \<and>
     signs_verify C (h_nodes h) (j_signs just) (rdataPara_toString rd) = Inr True \<and>
     \<not> h_isPaused h \<and> \<not> maxViewsReached h \<and> amCurrentLeader h \<and> tq_view (h_tpara h) = h_view h \<and> tq_qsize (h_tpara h) = h_qsize h \<and>
     tq_blockPhases (h_tpara h) = [] \<and> h_myid h mod 4 \<noteq> h_byzantine h \<and> 1 < unat (h_qsize h) \<and>
     (\<exists>bs. map_find (h_pblocks h) (h_view h) = Some bs \<and> length bs = unat (h_maxBlocksInView h)) \<and>
     prepp_log.votes_ok (h_log h) \<and> pcp_log.votes_ok (h_log h) \<and>
     (\<forall>k\<in>{1..unat (h_maxBlocksInView h)}. votes_of h (word_of_nat k) = [] \<and>
        entries_of (seq_find (precommitsPara (h_log h)) (h_view h) (word_of_nat k)) = [])"

lemma tq_signBlock_new:
  assumes "map_find (tq_blockPhases t) (hbytes h1) = None"
  shows "\<exists>ps. tq_signBlock C h1 h2 v2 sq t =
    (let r = RDataPara_new h1 (tq_view t) h2 v2 PH1_PREPARE sq
     in (JustPara_sign r (Sign_make C (tq_priv t) (tq_id t) (rdataPara_toString r)), t\<lparr>tq_blockPhases := ps\<rparr>)) \<and>
    (\<forall>x. map_find ps x = (if x = hbytes h1 then Some PH1_PRECOMMIT else map_find (tq_blockPhases t) x))"
  using assms
  by (intro exI [of _ "map_set (hbytes h1) PH1_PRECOMMIT (map_set (hbytes h1) PH1_PREPARE (tq_blockPhases t))"])
    (simp add: tq_signBlock_def tq_increment_block_phase_def map_at_def Let_def)

text \<open>One proposal: the block is stored, signed, sent, and the leader's vote for it is counted.\<close>

lemma prepareBlock_proposes:
  assumes j: "getRDataPara just = Inr rd" "phase rd = PH1_NEWVIEW" "propv rd = h_view h"
      "signs_verify C (h_nodes h) (j_signs just) (rdataPara_toString rd) = Inr True" and t: "tq_view (h_tpara h) = h_view h"
    and b: "b = made_block (h_localSeq h) prev (h_transactions h)" "hb = projr (pblock_hash C b)"
      "map_find (tq_blockPhases (h_tpara h)) (hbytes hb) = None"
    and pb: "map_find (h_pblocks h) (h_view h) = Some bs" "i < length bs" "h_localSeq h = word_of_nat (Suc i)" "Suc i < 2 ^ 32"
    and l: "prepp_log.votes_ok (h_log h)" "votes_of h (h_localSeq h) = []"
    and r: "r = RDataPara_new hb (h_view h) (justh rd) (justv rd) PH1_PREPARE (h_localSeq h)"
  shows "\<exists>ps x. prepareBlock C just prev h = Inr (hb, h\<lparr>h_transactions := drop MAX_NUM_TRANSACTIONS (h_transactions h),
      h_localSeq := h_localSeq h + 1, h_tpara := (h_tpara h)\<lparr>tq_blockPhases := ps\<rparr>, h_pblocks := map_set (h_view h) (bs[i := b]) (h_pblocks h),
      h_log := (h_log h)\<lparr>preparesPara := x\<rparr>,
      outs := outs h @ [Multicast (Net_LdrPreparePara (LdrMsg_new (Proposal_new just b) (m_signs (vote_para C (h_tpara h) r))))
        (getPeerids (remove_from_peers h (h_myid h)))]\<rparr>) \<and>
    (\<forall>y. map_find ps y = (if y = hbytes hb then Some PH1_PRECOMMIT else map_find (tq_blockPhases (h_tpara h)) y)) \<and>
    prepp_log.votes_ok ((h_log h)\<lparr>preparesPara := x\<rparr>) \<and>
    (\<forall>v s. entries_of (seq_find x v s) = (if (v, s) = (h_view h, h_localSeq h) then [vote_para C (h_tpara h) r]
      else entries_of (seq_find (preparesPara (h_log h)) v s)))"
proof -
  let ?vote = "vote_para C (h_tpara h) r"
  have hb: "pblock_hash C b = Inr hb" using made_block_hash b(1,2) by metis
  from tq_signBlock_new [OF b(3), of C "justh rd" "justv rd" "h_localSeq h"] t r obtain ps where
    ps: "tq_signBlock C hb (justh rd) (justv rd) (h_localSeq h) (h_tpara h) =
        (JustPara_sign r (Sign_make C (tq_priv (h_tpara h)) (tq_id (h_tpara h)) (rdataPara_toString r)), (h_tpara h)\<lparr>tq_blockPhases := ps\<rparr>)"
      "\<forall>y. map_find ps y = (if y = hbytes hb then Some PH1_PRECOMMIT else map_find (tq_blockPhases (h_tpara h)) y)"
    by (auto simp: Let_def)
  have key: "propv r = h_view h" "seqNumber r = h_localSeq h" by (simp_all add: r)
  from prepp_log.store_vote_total [OF l(1) vote_para_good(1,2), of C "h_tpara h" r] l(2) obtain l' where
    l': "storePrepPara ?vote (h_log h) = Inr (l', 1)" "prepp_log.votes_ok l'"
      "set (entries_of (seq_find (preparesPara l') (h_view h) (h_localSeq h))) = {?vote}"
      "length (entries_of (seq_find (preparesPara l') (h_view h) (h_localSeq h))) = 1"
      "\<forall>k. k \<noteq> (h_view h, h_localSeq h) \<longrightarrow> prepares_at l' k = prepares_at (h_log h) k"
    by (auto simp: vote_para_good(3) key)
  from store_frames(10) [OF l'(1)] obtain x where x: "l' = (h_log h)\<lparr>preparesPara := x\<rparr>" by blast
  have "entries_of (seq_find (preparesPara l') (h_view h) (h_localSeq h)) = [?vote]" using l'(3,4) by (auto simp: length_Suc_conv)
  then have e: "\<forall>v s. entries_of (seq_find x v s) = (if (v, s) = (h_view h, h_localSeq h) then [?vote]
      else entries_of (seq_find (preparesPara (h_log h)) v s))" using l'(5) by (auto simp: x)
  have sq: "p_seqNumber b = h_localSeq h" by (simp add: b(1) made_block_def PBlock_new_def)
  have "unat (word_of_nat (Suc i) - 1 :: u32) = i" using pb(4) unat_of_nat_u32 [of i] by simp
  then have i: "unat (p_seqNumber b - 1) = i" unfolding sq pb(3) .
  have sig: "m_signs ?vote = Signs_one (Sign_make C (tq_priv (h_tpara h)) (tq_id (h_tpara h)) (rdataPara_toString r))"
    "?vote = Msg_new r (Signs_one (Sign_make C (tq_priv (h_tpara h)) (tq_id (h_tpara h)) (rdataPara_toString r)))"
    by (simp_all add: vote_para_def)
  have "prepareBlock C just prev h = Inr (hb, h\<lparr>h_transactions := drop MAX_NUM_TRANSACTIONS (h_transactions h),
      h_localSeq := h_localSeq h + 1, h_tpara := (h_tpara h)\<lparr>tq_blockPhases := ps\<rparr>, h_pblocks := map_set (h_view h) (bs[i := b]) (h_pblocks h),
      h_log := (h_log h)\<lparr>preparesPara := x\<rparr>,
      outs := outs h @ [Multicast (Net_LdrPreparePara (LdrMsg_new (Proposal_new just b) (m_signs ?vote)))
        (getPeerids (remove_from_peers h (h_myid h)))]\<rparr>)"
    using ps(1) j t hb pb(1,2) l'(1) i sig sq
    by (simp add: prepareBlock_def createNewBlockPara_made b(1) [symmetric] callTEEpreparePara_def tq_TEEprepare_def tq_TEEverify_def
        pblocks_put_known Let_def emit_def remove_from_peers_def x)
  with ps(2) l'(2) e show ?thesis by (intro exI [of _ ps] exI [of _ x]) (simp add: x)
qed


text \<open>The leader \<open>h0\<close> after the first \<open>i\<close> of its blocks.\<close>

definition proposal_msg :: "crypto \<Rightarrow> Just \<Rightarrow> RDataPara \<Rightarrow> PBlock list \<Rightarrow> Handler \<Rightarrow> nat \<Rightarrow> MsgLdrPreparePara" where
  "proposal_msg C just rd B h0 k =
     LdrMsg_new (Proposal_new just (B ! (k - 1))) (m_signs (vote_para C (h_tpara h0) (block_statement C rd B k)))"

definition proposal_of_block :: "crypto \<Rightarrow> Just \<Rightarrow> RDataPara \<Rightarrow> PBlock list \<Rightarrow> Handler \<Rightarrow> nat \<Rightarrow> Effect" where
  "proposal_of_block C just rd B h0 k =
     Multicast (Net_LdrPreparePara (proposal_msg C just rd B h0 k)) (getPeerids (remove_from_peers h0 (h_myid h0)))"

definition proposed :: "crypto \<Rightarrow> Just \<Rightarrow> RDataPara \<Rightarrow> PBlock list \<Rightarrow> Handler \<Rightarrow> nat \<Rightarrow> Handler \<Rightarrow> bool" where
  "proposed C just rd B h0 i h \<longleftrightarrow> leads C (block_statement C rd B) i h0 h \<and> h_localSeq h = word_of_nat (Suc i) \<and>
     (\<exists>bs. map_find (h_pblocks h) (h_view h0) = Some bs \<and> length bs = length B \<and> take i bs = take i B) \<and>
     (\<forall>k\<in>{1..i}. votes_of h (word_of_nat k) = [vote_para C (h_tpara h0) (block_statement C rd B k)]) \<and>
     (\<forall>k\<in>{Suc i..length B}. votes_of h (word_of_nat k) = [] \<and>
        entries_of (seq_find (precommitsPara (h_log h)) (h_view h0) (word_of_nat k)) = []) \<and>
     (\<forall>y. map_find (tq_blockPhases (h_tpara h)) y \<noteq> None \<longrightarrow> y \<in> (\<lambda>k. hbytes (proph (block_statement C rd B k))) ` {1..i}) \<and>
     outs h = outs h0 @ map (proposal_of_block C just rd B h0) [1..<Suc i]"

lemma leads_extend:
  assumes L: "leads C rs i h0 h" and st: "statements (h_view h0) n rs" and i: "i < n" and q: "\<not> unat (h_qsize h0) \<le> 1"
    and own: "good_vote_para C (h_nodes h0) (rs (Suc i)) m" and ok: "prepp_log.votes_ok ((h_log h)\<lparr>preparesPara := x\<rparr>)"
    and other: "\<And>k. k \<in> {1..n} \<Longrightarrow> k \<noteq> Suc i \<Longrightarrow> entries_of (seq_find x (h_view h0) (word_of_nat k)) = votes_of h (word_of_nat k)"
    and at: "entries_of (seq_find x (h_view h0) (word_of_nat (Suc i))) = [m]"
    and none: "entries_of (seq_find (precommitsPara (h_log h)) (h_view h0) (word_of_nat (Suc i))) = []"
    and ps: "\<forall>y. map_find ps y = (if y = hbytes (proph (rs (Suc i))) then Some PH1_PRECOMMIT else map_find (tq_blockPhases (h_tpara h)) y)"
  shows "leads C rs (Suc i) h0 (h\<lparr>h_transactions := ts, h_localSeq := s, h_tpara := (h_tpara h)\<lparr>tq_blockPhases := ps\<rparr>, h_pblocks := pb,
    h_log := (h_log h)\<lparr>preparesPara := x\<rparr>, outs := es\<rparr>)"
proof (rule leads_update_all [OF L refl ok])
  note f = leads_frame [OF L]
  show "pcp_log.votes_ok ((h_log h)\<lparr>preparesPara := x\<rparr>)" using f(14) by (simp add: votes_ok_defs)
  fix k assume k: "1 \<le> k" "k \<le> Suc i"
  show "let votes = entries_of (seq_find (preparesPara ((h_log h)\<lparr>preparesPara := x\<rparr>)) (h_view h0) (word_of_nat k)); certified = unat (h_qsize h0) \<le> length votes
      in (\<forall>m\<in>set votes. good_vote_para C (h_nodes h0) (rs k) m) \<and>
         map_find (tq_blockPhases ((h_tpara h)\<lparr>tq_blockPhases := ps\<rparr>)) (hbytes (proph (rs k))) = Some (if certified then PH1_COMMIT else PH1_PRECOMMIT) \<and>
         entries_of (seq_find (precommitsPara ((h_log h)\<lparr>preparesPara := x\<rparr>)) (h_view h0) (word_of_nat k)) =
           (if certified then [vote_para C (h_tpara h0) (next_para (rs k) PH1_PRECOMMIT)] else [])"
  proof (cases "k = Suc i")
    case True
    show ?thesis unfolding True using at own none ps q by (simp add: Let_def del: of_nat_Suc)
  next
    case False
    with k i have k': "k \<in> {1..n}" "1 \<le> k" "k \<le> i" by auto
    have "hbytes (proph (rs k)) \<noteq> hbytes (proph (rs (Suc i)))" using statementsD(5) [OF st, of "Suc i" k] i k' False by simp
    with other [OF k'(1) False] ps leads_votes [OF L k'(2,3)] show ?thesis by (simp add: Let_def)
  qed
qed (use leads_frame [OF L] in simp_all)

lemma proposed_step:
  assumes p: "proposer C just rd h0" and len: "length B = unat (h_maxBlocksInView h0)"
    and st: "statements (h_view h0) (length B) (block_statement C rd B)"
    and own: "good_vote_para C (h_nodes h0) (block_statement C rd B (Suc i)) (vote_para C (h_tpara h0) (block_statement C rd B (Suc i)))"
    and h: "proposed C just rd B h0 i h" and i: "i < length B" and b: "B ! i = made_block (h_localSeq h) prev (h_transactions h)"
  shows "\<exists>h'. prepareBlock C just prev h = Inr (projr (pblock_hash C (B ! i)), h') \<and> proposed C just rd B h0 (Suc i) h' \<and>
    h_localSeq h' = h_localSeq h + 1 \<and> h_transactions h' = drop MAX_NUM_TRANSACTIONS (h_transactions h)"
proof -
  let ?rs = "block_statement C rd B" and ?hb = "projr (pblock_hash C (B ! i))" and ?v = "h_view h0"
  note d = h [unfolded proposed_def] and P = p [unfolded proposer_def]
  have L: "leads C ?rs i h0 h" and sq: "h_localSeq h = word_of_nat (Suc i)" using d by blast+
  have known: "\<forall>y. map_find (tq_blockPhases (h_tpara h)) y \<noteq> None \<longrightarrow> y \<in> (\<lambda>k. hbytes (proph (?rs k))) ` {1..i}" using d by blast
  have earlier: "\<forall>k\<in>{1..i}. votes_of h (word_of_nat k) = [vote_para C (h_tpara h0) (?rs k)]"
    and later: "\<forall>k\<in>{Suc i..length B}. votes_of h (word_of_nat k) = [] \<and>
      entries_of (seq_find (precommitsPara (h_log h)) ?v (word_of_nat k)) = []"
    and out: "outs h = outs h0 @ map (proposal_of_block C just rd B h0) [1..<Suc i]" using d by blast+
  note f = leads_frame [OF L] and D = statementsD [OF st]
  obtain bs where bs: "map_find (h_pblocks h) ?v = Some bs" "length bs = length B" "take i bs = take i B" using d by blast
  have n: "Suc i < 2 ^ 32" using i len unat_u32_less [of "h_maxBlocksInView h0"] by linarith
  have r: "?rs (Suc i) = RDataPara_new ?hb ?v (justh rd) (justv rd) PH1_PREPARE (word_of_nat (Suc i))"
    using P by (simp add: block_statement_def)
  have ph: "proph (?rs (Suc i)) = ?hb" unfolding r by (simp add: RDataPara_new_def)
  have fresh: "map_find (tq_blockPhases (h_tpara h)) (hbytes ?hb) = None"
  proof (rule ccontr)
    assume "map_find (tq_blockPhases (h_tpara h)) (hbytes ?hb) \<noteq> None"
    with known have "hbytes (proph (?rs (Suc i))) \<in> (\<lambda>k. hbytes (proph (?rs k))) ` {1..i}" unfolding ph by blast
    then obtain k where "k \<in> {1..i}" "hbytes (proph (?rs k)) = hbytes (proph (?rs (Suc i)))" by auto
    with D(5) [of "Suc i" k] i show False by simp
  qed
  have none: "votes_of h (word_of_nat (Suc i)) = []" "entries_of (seq_find (precommitsPara (h_log h)) ?v (word_of_nat (Suc i))) = []"
    using later i by (simp_all del: of_nat_Suc)
  have vote: "vote_para C (h_tpara h) = vote_para C (h_tpara h0)" using f(11,12) by (simp add: vote_para_def fun_eq_iff)
  have "\<exists>ps x. prepareBlock C just prev h = Inr (?hb, h\<lparr>h_transactions := drop MAX_NUM_TRANSACTIONS (h_transactions h),
      h_localSeq := h_localSeq h + 1, h_tpara := (h_tpara h)\<lparr>tq_blockPhases := ps\<rparr>, h_pblocks := map_set (h_view h) (bs[i := B ! i]) (h_pblocks h),
      h_log := (h_log h)\<lparr>preparesPara := x\<rparr>,
      outs := outs h @ [Multicast (Net_LdrPreparePara (LdrMsg_new (Proposal_new just (B ! i)) (m_signs (vote_para C (h_tpara h) (?rs (Suc i))))))
        (getPeerids (remove_from_peers h (h_myid h)))]\<rparr>) \<and>
    (\<forall>y. map_find ps y = (if y = hbytes ?hb then Some PH1_PRECOMMIT else map_find (tq_blockPhases (h_tpara h)) y)) \<and>
    prepp_log.votes_ok ((h_log h)\<lparr>preparesPara := x\<rparr>) \<and>
    (\<forall>v s. entries_of (seq_find x v s) = (if (v, s) = (h_view h, h_localSeq h) then [vote_para C (h_tpara h) (?rs (Suc i))]
      else entries_of (seq_find (preparesPara (h_log h)) v s)))"
    by (rule prepareBlock_proposes [OF _ _ _ _ _ b refl fresh _ _ sq n])
      (use P f bs i none r sq in \<open>simp_all del: of_nat_Suc\<close>)
  then obtain ps x where
    run: "prepareBlock C just prev h = Inr (?hb, h\<lparr>h_transactions := drop MAX_NUM_TRANSACTIONS (h_transactions h),
      h_localSeq := h_localSeq h + 1, h_tpara := (h_tpara h)\<lparr>tq_blockPhases := ps\<rparr>, h_pblocks := map_set ?v (bs[i := B ! i]) (h_pblocks h),
      h_log := (h_log h)\<lparr>preparesPara := x\<rparr>, outs := outs h @ [proposal_of_block C just rd B h0 (Suc i)]\<rparr>)" (is "_ = Inr (_, ?h')")
    and ps: "\<forall>y. map_find ps y = (if y = hbytes ?hb then Some PH1_PRECOMMIT else map_find (tq_blockPhases (h_tpara h)) y)"
    and x: "prepp_log.votes_ok ((h_log h)\<lparr>preparesPara := x\<rparr>)"
      "\<forall>v s. entries_of (seq_find x v s) = (if (v, s) = (?v, word_of_nat (Suc i)) then [vote_para C (h_tpara h0) (?rs (Suc i))]
        else entries_of (seq_find (preparesPara (h_log h)) v s))"
    using f(3-5) unfolding vote sq by (auto simp: proposal_of_block_def proposal_msg_def remove_from_peers_def simp del: of_nat_Suc)
  have other: "entries_of (seq_find x ?v (word_of_nat k)) = votes_of h (word_of_nat k)" if "k \<in> {1..length B}" "k \<noteq> Suc i" for k
    using x(2) that i D(4) [of "Suc i" k] f(3) by (simp del: of_nat_Suc)
  have at: "entries_of (seq_find x ?v (word_of_nat (Suc i))) = [vote_para C (h_tpara h0) (?rs (Suc i))]" using x(2) by (simp del: of_nat_Suc)
  have q: "\<not> unat (h_qsize h0) \<le> 1" using P by simp
  have L': "leads C ?rs (Suc i) h0 ?h'"
  proof (rule leads_extend [OF L st i q own x(1) other at none(2)])
    show "\<forall>y. map_find ps y = (if y = hbytes (proph (?rs (Suc i))) then Some PH1_PRECOMMIT else map_find (tq_blockPhases (h_tpara h)) y)"
      unfolding ph by (rule ps)
  qed
  have "take (Suc i) (bs[i := B ! i]) = take (Suc i) B"
    using bs(2,3) i by (simp add: take_Suc_conv_app_nth)
  moreover have "\<forall>k\<in>{1..Suc i}. votes_of ?h' (word_of_nat k) = [vote_para C (h_tpara h0) (?rs k)]"
  proof
    fix k assume k: "k \<in> {1..Suc i}"
    show "votes_of ?h' (word_of_nat k) = [vote_para C (h_tpara h0) (?rs k)]"
    proof (cases "k = Suc i")
      case False
      with k i other [of k] earlier show ?thesis by (simp add: f(3))
    qed (use at f(3) in \<open>simp del: of_nat_Suc\<close>)
  qed
  moreover have "\<forall>k\<in>{Suc (Suc i)..length B}. votes_of ?h' (word_of_nat k) = [] \<and>
      entries_of (seq_find (precommitsPara (h_log ?h')) ?v (word_of_nat k)) = []"
    using other later by (simp add: f(3))
  moreover have "\<forall>y. map_find ps y \<noteq> None \<longrightarrow> y \<in> (\<lambda>k. hbytes (proph (?rs k))) ` {1..Suc i}"
  proof (intro allI impI)
    fix y assume "map_find ps y \<noteq> None"
    then have "y = hbytes (proph (?rs (Suc i))) \<or> map_find (tq_blockPhases (h_tpara h)) y \<noteq> None" using ps ph by auto
    moreover have "{1..Suc i} = insert (Suc i) {1..i}" by auto
    ultimately show "y \<in> (\<lambda>k. hbytes (proph (?rs k))) ` {1..Suc i}" using known by blast
  qed
  moreover have "outs ?h' = outs h0 @ map (proposal_of_block C just rd B h0) [1..<Suc (Suc i)]"
    using out by simp
  ultimately have "proposed C just rd B h0 (Suc i) ?h'" using L' sq bs(2) unfolding proposed_def by simp
  with run show ?thesis by (intro exI [of _ ?h']) simp
qed


lemma proposer_start: "proposer C just rd h0 \<Longrightarrow> length B = unat (h_maxBlocksInView h0) \<Longrightarrow> proposed C just rd B h0 0 (h0\<lparr>h_localSeq := 1\<rparr>)"
  by (auto simp: proposer_def proposed_def leads_def maxViewsReached_def amCurrentLeader_def getCurrentLeader_def getLeaderOf_def)

lemma proposed_loop:
  assumes p: "proposer C just rd h0" and len: "length B = unat (h_maxBlocksInView h0)"
    and st: "statements (h_view h0) (length B) (block_statement C rd B)"
    and own: "\<forall>k\<in>{1..length B}. good_vote_para C (h_nodes h0) (block_statement C rd B k) (vote_para C (h_tpara h0) (block_statement C rd B k))"
  shows "proposed C just rd B h0 i h \<Longrightarrow> i + m = length B \<Longrightarrow> drop i B = new_blocks C m (h_localSeq h) prev (h_transactions h) \<Longrightarrow>
    \<exists>h'. prepare_loop C just m prev h = Inr h' \<and> proposed C just rd B h0 (length B) h'"
proof (induction m arbitrary: i h prev)
  case (Suc m)
  have i: "i < length B" using Suc.prems(2) by simp
  let ?b = "made_block (h_localSeq h) prev (h_transactions h)"
  have "drop i B = B ! i # drop (Suc i) B" using i by (rule Cons_nth_drop_Suc [symmetric])
  with Suc.prems(3) have b: "B ! i = ?b"
    "drop (Suc i) B = new_blocks C m (h_localSeq h + 1) (projr (pblock_hash C ?b)) (drop MAX_NUM_TRANSACTIONS (h_transactions h))"
    by (simp_all add: Let_def)
  have "Suc i \<in> {1..length B}" using i by simp
  from proposed_step [OF p len st own [rule_format, OF this] Suc.prems(1) i b(1)] obtain h1 where
    h1: "prepareBlock C just prev h = Inr (projr (pblock_hash C ?b), h1)" "proposed C just rd B h0 (Suc i) h1"
      "h_localSeq h1 = h_localSeq h + 1" "h_transactions h1 = drop MAX_NUM_TRANSACTIONS (h_transactions h)" unfolding b(1) by blast
  with Suc.IH [OF h1(2), of "projr (pblock_hash C ?b)"] Suc.prems(2) b(2) show ?case by simp
qed simp

lemma new_blocks_linked:
  assumes "B = new_blocks C n 1 prev ts" and "1 \<le> k" "k \<le> length B"
  shows "linked C B k"
proof (cases "k = 1")
  case False
  with assms have k: "k - 1 < n" "k - 2 < n" "k - 1 - 1 = k - 2" "k - 1 \<noteq> 0" by (simp_all add: new_blocks_made(1))
  from new_blocks_made(2) [OF k(1), of C 1 prev ts] k(3,4) assms(1) obtain prev' ts' where
    b: "B ! (k - 1) = made_block (1 + word_of_nat (k - 1)) prev' ts'" "prev' = projr (pblock_hash C (B ! (k - 2)))" by auto
  from new_blocks_made(2) [OF k(2), of C 1 prev ts] assms(1) obtain s' p' t' where "B ! (k - 2) = made_block s' p' t'" by blast
  then have "pblock_hash C (B ! (k - 2)) = Inr prev'" unfolding b(2) by (metis made_block_hash)
  moreover have "p_prevHash (B ! (k - 1)) = prev'" unfolding b(1) by (simp add: made_block_def PBlock_new_def)
  ultimately show ?thesis by (simp add: linked_def pblock_extends_def)
qed (simp add: linked_def)

text \<open>The leader's part: from the justification to the certificates of the blocks with a quorum of votes.\<close>

lemma leader_certifies_blocks:
  assumes p: "proposer C just rd h" and q: "unat (h_qsize h) \<le> MAX_NUM_SIGNATURES"
    and B: "B = new_blocks C (unat (h_maxBlocksInView h)) 1 (justh rd) (h_transactions h)" and rs: "rs = block_statement C rd B"
    and inj: "inj_on (\<lambda>k. hbytes (proph (rs k))) {1..length B}"
    and own: "\<forall>k\<in>{1..length B}. good_vote_para C (h_nodes h) (rs k) (vote_para C (h_tpara h) (rs k))"
    and votes: "\<forall>m\<in>set ms. voter m_signs m \<noteq> tq_id (h_tpara h) \<and> (\<exists>k\<in>{1..length B}. good_vote_para C (h_nodes h) (rs k) m)"
    and once: "\<forall>k\<in>{1..length B}. distinct (map (voter m_signs) (filter (\<lambda>m. m_rdata m = rs k) ms))"
    and small: "length ms < 2 ^ 32 - 1"
  shows "\<exists>h1 h2 ks es. preparePara C just h = Inr h1 \<and> map_find (h_pblocks h1) (h_view h) = Some B \<and>
      length B = unat (h_maxBlocksInView h) \<and> (\<forall>k\<in>{1..length B}. linked C B k) \<and>
      outs h1 = outs h @ map (proposal_of_block C just rd B h) [1..<Suc (length B)] \<and>
    event_run (para_step C send_ok) (map P_prepare ms) h1 = Inr h2 \<and>
      distinct ks \<and> set ks = {k \<in> {1..length B}. unat (h_qsize h) \<le> Suc (length (filter (\<lambda>m. m_rdata m = rs k) ms))} \<and>
      outs h2 = outs h1 @ es \<and> list_all2 (prepare_cert C rs h) (map word_of_nat ks) es"
proof -
  let ?n = "length B"
  have len: "?n = unat (h_maxBlocksInView h)" by (simp add: B new_blocks_made(1))
  note P = p [unfolded proposer_def]
  have st: "statements (h_view h) ?n rs"
    using inj len unat_u32_less [of "h_maxBlocksInView h"] P by (simp add: statements_def rs block_statement_def RDataPara_new_def)
  have "drop 0 B = new_blocks C ?n (h_localSeq (h\<lparr>h_localSeq := 1\<rparr>)) (justh rd) (h_transactions (h\<lparr>h_localSeq := 1\<rparr>))"
    using B len by simp
  from proposed_loop [OF p len st [unfolded rs] own [unfolded rs] proposer_start [OF p len] _ this] obtain h1 where
    h1: "prepare_loop C just ?n (justh rd) (h\<lparr>h_localSeq := 1\<rparr>) = Inr h1" "proposed C just rd B h ?n h1" by auto
  have run: "preparePara C just h = Inr h1" using h1(1) P len by (simp add: preparePara_def)
  from h1(2) obtain bs where bs: "map_find (h_pblocks h1) (h_view h) = Some bs" "length bs = ?n" "take ?n bs = take ?n B"
    and L: "leads C rs ?n h h1" and vo: "\<forall>k\<in>{1..?n}. votes_of h1 (word_of_nat k) = [vote_para C (h_tpara h) (rs k)]"
    and out: "outs h1 = outs h @ map (proposal_of_block C just rd B h) [1..<Suc ?n]" unfolding proposed_def rs by blast
  have lens: "length (votes_of h1 (word_of_nat k)) = 1" if "k \<in> {1..?n}" for k using vo that by simp
  have "\<forall>m\<in>set ms. voter m_signs m \<notin> voters m_signs (votes_of h1 (seqNumber (m_rdata m)))"
  proof
    fix m assume m: "m \<in> set ms"
    with votes obtain k where k: "k \<in> {1..?n}" "good_vote_para C (h_nodes h) (rs k) m" by blast
    then have "seqNumber (m_rdata m) = word_of_nat k" using good_vote_paraD [OF k(2)] statementsD(3) [OF st, of k] by simp
    moreover have "voters m_signs [vote_para C (h_tpara h) (rs k)] = {tq_id (h_tpara h)}"
      by (simp add: voters_def vote_para_def)
    ultimately show "voter m_signs m \<notin> voters m_signs (votes_of h1 (seqNumber (m_rdata m)))" using vo k(1) votes m by simp
  qed
  moreover have "\<forall>k\<in>{1..?n}. length (votes_of h1 (word_of_nat k)) + length ms < 2 ^ 32" using lens small by simp
  moreover have "\<forall>m\<in>set ms. \<exists>k\<in>{1..?n}. good_vote_para C (h_nodes h) (rs k) m" using votes by blast
  ultimately obtain h2 ks es where r: "event_run (para_step C send_ok) (map P_prepare ms) h1 = Inr h2" "distinct ks"
    "set ks = {k \<in> {1..?n}. length (votes_of h1 (word_of_nat k)) < unat (h_qsize h) \<and>
      unat (h_qsize h) \<le> length (votes_of h1 (word_of_nat k)) + length (filter (\<lambda>m. m_rdata m = rs k) ms)}"
    "outs h2 = outs h1 @ es" "list_all2 (prepare_cert C rs h) (map word_of_nat ks) es"
    using prepare_rounds [OF st q L _ once, of send_ok] by blast
  have "set ks = {k \<in> {1..?n}. unat (h_qsize h) \<le> Suc (length (filter (\<lambda>m. m_rdata m = rs k) ms))}"
    unfolding r(3) using lens P by auto
  moreover have "\<forall>k\<in>{1..?n}. linked C B k" using new_blocks_linked [OF B] by simp
  moreover have "bs = B" using bs(2,3) by simp
  ultimately show ?thesis using run bs(1) len out r(1,2,4,5) by blast
qed

section \<open>A backup\<close>

text \<open>A backup that has verified the justification and has no block yet; its vote for a block of the leader.\<close>

definition accepts :: "crypto \<Rightarrow> Just \<Rightarrow> RDataPara \<Rightarrow> nat \<Rightarrow> Handler \<Rightarrow> bool" where
  "accepts C just rd n h \<longleftrightarrow> getRDataPara just = Inr rd \<and> phase rd = PH1_NEWVIEW \<and> propv rd = h_view h \<and>
     signs_verify C (h_nodes h) (j_signs just) (rdataPara_toString rd) = Inr True \<and> just_eq just (h_verifiedJust h) = Inr True \<and>
     \<not> h_isPaused h \<and> \<not> maxViewsReached h \<and> tq_view (h_tpara h) = h_view h \<and> tq_blockPhases (h_tpara h) = [] \<and>
     (\<exists>bs. map_find (h_pblocks h) (h_view h) = Some bs \<and> length bs = n \<and> (\<forall>b\<in>set bs. \<not> pblock_isBlock b))"

text \<open>The backup \<open>h0\<close> after the proposals of the blocks of \<open>K\<close>.\<close>

definition answered :: "crypto \<Rightarrow> RDataPara \<Rightarrow> PBlock list \<Rightarrow> Handler \<Rightarrow> nat list \<Rightarrow> Handler \<Rightarrow> bool" where
  "answered C rd B h0 ks h \<longleftrightarrow> h_nodes h = h_nodes h0 \<and> h_view h = h_view h0 \<and> h_verifiedJust h = h_verifiedJust h0 \<and>
     h_isPaused h = h_isPaused h0 \<and> maxViewsReached h = maxViewsReached h0 \<and> h_peers h = h_peers h0 \<and> h_total h = h_total h0 \<and>
     tq_view (h_tpara h) = tq_view (h_tpara h0) \<and> tq_id (h_tpara h) = tq_id (h_tpara h0) \<and> tq_priv (h_tpara h) = tq_priv (h_tpara h0) \<and>
     (\<forall>y. map_find (tq_blockPhases (h_tpara h)) y \<noteq> None \<longrightarrow> y \<in> (\<lambda>k. hbytes (proph (block_statement C rd B k))) ` set ks) \<and>
     (\<exists>bs. map_find (h_pblocks h) (h_view h0) = Some bs \<and> length bs = length B \<and>
       (\<forall>i<length B. if Suc i \<in> set ks then bs ! i = B ! i else \<not> pblock_isBlock (bs ! i))) \<and>
     outs h = outs h0 @ map (\<lambda>k. Multicast (Net_PreparePara (vote_para C (h_tpara h0) (block_statement C rd B k)))
       (getPeerids (keep_from_peers h0 (getCurrentLeader h0)))) ks"

lemma backup_answers:
  assumes a: "accepts C just rd (length B) h0" and B: "B = new_blocks C n 1 prev ts" and n: "length B < 2 ^ 32"
    and inj: "inj_on (\<lambda>k. hbytes (proph (block_statement C rd B k))) {1..length B}"
    and h: "answered C rd B h0 ks h" and k: "k \<in> {1..length B}" "k \<notin> set ks" "set ks \<subseteq> {1..length B}"
  shows "\<exists>h'. handle_ldrprepare_para C (LdrMsg_new (Proposal_new just (B ! (k - 1))) sg) h = Inr h' \<and> answered C rd B h0 (ks @ [k]) h'"
proof -
  let ?b = "B ! (k - 1)" and ?r = "block_statement C rd B k" and ?v = "h_view h0"
  note A = a [unfolded accepts_def] and d = h [unfolded answered_def]
  obtain bs where bs: "map_find (h_pblocks h) ?v = Some bs" "length bs = length B"
    and blocks: "\<forall>i<length B. if Suc i \<in> set ks then bs ! i = B ! i else \<not> pblock_isBlock (bs ! i)" using d by blast
  have i: "k - 1 < length B" "k - 1 < n" using k(1) B by (auto simp: new_blocks_made(1))
  from new_blocks_made(2) [OF i(2), of C 1 prev ts] B obtain p' t' where b: "?b = made_block (1 + word_of_nat (k - 1)) p' t'" by auto
  then have hb: "pblock_hash C ?b = Inr (proph ?r)" using made_block_hash by (simp add: block_statement_def RDataPara_new_def)
  have "1 + word_of_nat (k - 1) = (word_of_nat k :: u32)" using k(1) by (metis One_nat_def Suc_pred atLeastAtMost_iff less_eq_Suc_le of_nat_Suc)
  then have sq: "p_seqNumber ?b = word_of_nat k" unfolding b by (simp add: made_block_def PBlock_new_def)
  have ix: "unat (p_seqNumber ?b - 1) = k - 1"
  proof -
    have "p_seqNumber ?b - 1 = word_of_nat (k - 1)" unfolding b by (simp add: made_block_def PBlock_new_def)
    with unat_of_nat_u32 [of "k - 1"] i(1) n show ?thesis by simp
  qed
  have known: "\<forall>y. map_find (tq_blockPhases (h_tpara h)) y \<noteq> None \<longrightarrow> y \<in> (\<lambda>k. hbytes (proph (block_statement C rd B k))) ` set ks" using d by blast
  have fresh: "map_find (tq_blockPhases (h_tpara h)) (hbytes (proph ?r)) = None"
  proof (rule ccontr)
    assume "map_find (tq_blockPhases (h_tpara h)) (hbytes (proph ?r)) \<noteq> None"
    with known obtain j where "j \<in> set ks" "hbytes (proph (block_statement C rd B j)) = hbytes (proph ?r)" by auto
    with inj_onD [OF inj, of j k] k show False by auto
  qed
  from tq_signBlock_new [OF fresh, of C "justh rd" "justv rd" "p_seqNumber ?b"] d A sq obtain ps where
    ps: "tq_signBlock C (proph ?r) (justh rd) (justv rd) (p_seqNumber ?b) (h_tpara h) =
        (JustPara_sign ?r (Sign_make C (tq_priv (h_tpara h0)) (tq_id (h_tpara h0)) (rdataPara_toString ?r)), (h_tpara h)\<lparr>tq_blockPhases := ps\<rparr>)"
      "\<forall>y. map_find ps y = (if y = hbytes (proph ?r) then Some PH1_PRECOMMIT else map_find (tq_blockPhases (h_tpara h)) y)"
    by (auto simp: Let_def block_statement_def RDataPara_new_def)
  let ?e = "Multicast (Net_PreparePara (vote_para C (h_tpara h0) ?r)) (getPeerids (keep_from_peers h0 (getCurrentLeader h0)))"
  let ?h' = "h\<lparr>h_tpara := (h_tpara h)\<lparr>tq_blockPhases := ps\<rparr>, h_pblocks := map_set ?v (bs[k - 1 := ?b]) (h_pblocks h), outs := outs h @ [?e]\<rparr>"
  have k1: "Suc (k - 1) = k" using k(1) by simp
  have "\<not> pblock_isBlock (bs ! (k - 1))" using blocks [rule_format, OF i(1)] k(2) unfolding k1 by simp
  then have "handle_ldrprepare_para C (LdrMsg_new (Proposal_new just ?b) sg) h = Inr ?h'"
    using A d bs ix i(1) hb ps(1)
    by (simp add: handle_ldrprepare_para_def handleLdrPreparePara_def verifyJustPara_def Sverify_def pblocks_get_known pblocks_put_known
        respondToProposalPara_def callTEEpreparePara_def tq_TEEprepare_def tq_TEEverify_def Let_def vote_para_def emit_def
        LdrMsg_new_def Proposal_new_def keep_from_peers_def getCurrentLeader_def getLeaderOf_def)
  moreover have "answered C rd B h0 (ks @ [k]) ?h'"
  proof -
    have "if Suc j \<in> set (ks @ [k]) then bs[k - 1 := ?b] ! j = B ! j else \<not> pblock_isBlock (bs[k - 1 := ?b] ! j)" if j: "j < length B" for j
    proof (cases "j = k - 1")
      case False
      then have "Suc j \<noteq> k" using k1 by auto
      with False blocks [rule_format, OF j] show ?thesis by (simp split: if_splits)
    qed (use i(1) bs(2) k1 in simp)
    moreover have "map_find (h_pblocks ?h') ?v = Some (bs[k - 1 := ?b])" "length (bs[k - 1 := ?b]) = length B" using bs(2) by simp_all
    ultimately have "\<exists>bs. map_find (h_pblocks ?h') ?v = Some bs \<and> length bs = length B \<and>
        (\<forall>i<length B. if Suc i \<in> set (ks @ [k]) then bs ! i = B ! i else \<not> pblock_isBlock (bs ! i))" by blast
    moreover have "\<forall>y. map_find ps y \<noteq> None \<longrightarrow> y \<in> (\<lambda>k. hbytes (proph (block_statement C rd B k))) ` set (ks @ [k])"
      using known ps(2) by auto
    moreover have "maxViewsReached ?h' = maxViewsReached h" by (simp add: maxViewsReached_def)
    ultimately show ?thesis using d unfolding answered_def by (intro conjI) (simp_all del: map_find_set)
  qed
  ultimately show ?thesis by blast
qed

lemma backup_answers_all:
  assumes a: "accepts C just rd (length B) h0" and B: "B = new_blocks C n 1 prev ts" and n: "length B < 2 ^ 32"
    and inj: "inj_on (\<lambda>k. hbytes (proph (block_statement C rd B k))) {1..length B}"
  shows "answered C rd B h0 ks h \<Longrightarrow> distinct (ks @ order) \<Longrightarrow> set (ks @ order) \<subseteq> {1..length B} \<Longrightarrow>
    \<exists>h'. event_run (para_step C send_ok) (map (\<lambda>k. P_ldrprepare (LdrMsg_new (Proposal_new just (B ! (k - 1))) (sg k))) order) h = Inr h' \<and>
      answered C rd B h0 (ks @ order) h'"
proof (induction order arbitrary: ks h)
  case (Cons k order)
  from backup_answers [OF a B n inj Cons.prems(1), of k "sg k"] Cons.prems(2,3) obtain h1 where
    h1: "handle_ldrprepare_para C (LdrMsg_new (Proposal_new just (B ! (k - 1))) (sg k)) h = Inr h1" "answered C rd B h0 (ks @ [k]) h1" by auto
  with Cons.IH [OF h1(2)] Cons.prems(2,3) show ?case by simp
qed auto

lemma backup_starts: "accepts C just rd (length B) h0 \<Longrightarrow> answered C rd B h0 [] h0"
  by (auto simp: accepts_def answered_def)

section \<open>Leader and backups\<close>

text \<open>What the leader counts, if each backup \<open>p\<close> of \<open>P\<close> votes for the numbers of \<open>order p\<close>.\<close>

lemma backup_votes_counted:
  assumes inj: "inj_on (\<lambda>k. hbytes (proph (rs k))) {1..n}"
    and backups: "\<forall>p\<in>P. tq_id (h_tpara (hs p)) = p \<and> p \<noteq> l \<and> set (order p) \<subseteq> {1..n}"
    and valid: "\<forall>k\<in>{1..n}. \<forall>p\<in>P. good_vote_para C ns (rs k) (vote_para C (h_tpara (hs p)) (rs k))"
    and votes: "distinct ms" "set ms = (\<Union>p\<in>P. (\<lambda>k. vote_para C (h_tpara (hs p)) (rs k)) ` set (order p))"
  shows "k \<in> {1..n} \<Longrightarrow> length (filter (\<lambda>m. m_rdata m = rs k) ms) = card {p \<in> P. k \<in> set (order p)}"
    and "\<forall>k\<in>{1..n}. distinct (map (voter m_signs) (filter (\<lambda>m. m_rdata m = rs k) ms))"
    and "\<forall>m\<in>set ms. voter m_signs m \<noteq> l \<and> (\<exists>k\<in>{1..n}. good_vote_para C ns (rs k) m)"
proof -
  let ?vote = "\<lambda>p k. vote_para C (h_tpara (hs p)) (rs k)"
  have st: "k \<in> {1..n} \<Longrightarrow> j \<in> {1..n} \<Longrightarrow> rs k = rs j \<longleftrightarrow> k = j" for k j using inj_onD [OF inj, of k j] by auto
  have in_range: "j \<in> {1..n}" if "p \<in> P" "j \<in> set (order p)" for p j
    using bspec [OF backups that(1)] that(2) by blast
  have vd: "m_rdata (?vote p k) = rs k" "p \<in> P \<Longrightarrow> voter m_signs (?vote p k) = p" for p k
    using backups by (simp_all add: vote_para_def voter_def)
  have from_one: "{m \<in> set ms. m_rdata m = rs k} = (\<lambda>p. ?vote p k) ` {p \<in> P. k \<in> set (order p)}" if k: "k \<in> {1..n}" for k
  proof (intro set_eqI iffI)
    fix m assume "m \<in> {m \<in> set ms. m_rdata m = rs k}"
    then obtain p j where m: "p \<in> P" "j \<in> set (order p)" "m = ?vote p j" "m_rdata m = rs k" using votes(2) by blast
    then have "rs k = rs j" using vd(1) [of p j] by simp
    then have "j = k" using st [OF k in_range [OF m(1,2)]] by simp
    with m show "m \<in> (\<lambda>p. ?vote p k) ` {p \<in> P. k \<in> set (order p)}" by blast
  next
    fix m assume "m \<in> (\<lambda>p. ?vote p k) ` {p \<in> P. k \<in> set (order p)}"
    then obtain p where "p \<in> P" "k \<in> set (order p)" "m = ?vote p k" by blast
    then show "m \<in> {m \<in> set ms. m_rdata m = rs k}" using votes(2) vd(1) by auto
  qed
  show "length (filter (\<lambda>m. m_rdata m = rs k) ms) = card {p \<in> P. k \<in> set (order p)}" if "k \<in> {1..n}" for k
  proof -
    have "inj_on (\<lambda>p. ?vote p k) {p \<in> P. k \<in> set (order p)}" by (rule inj_onI) (metis (mono_tags, lifting) mem_Collect_eq vd(2))
    then show ?thesis using votes(1) from_one [OF that] by (simp add: distinct_length_filter Int_def conj_commute card_image)
  qed
  show "\<forall>k\<in>{1..n}. distinct (map (voter m_signs) (filter (\<lambda>m. m_rdata m = rs k) ms))"
  proof
    fix k assume k: "k \<in> {1..n}"
    have "inj_on (voter m_signs) {m \<in> set ms. m_rdata m = rs k}" unfolding from_one [OF k] by (rule inj_onI) (auto simp: vd(2))
    then show "distinct (map (voter m_signs) (filter (\<lambda>m. m_rdata m = rs k) ms))" using votes(1) by (simp add: distinct_map)
  qed
  show "\<forall>m\<in>set ms. voter m_signs m \<noteq> l \<and> (\<exists>k\<in>{1..n}. good_vote_para C ns (rs k) m)"
  proof
    fix m assume "m \<in> set ms"
    then obtain p j where m: "p \<in> P" "j \<in> set (order p)" "m = ?vote p j" using votes(2) by blast
    moreover have "j \<in> {1..n}" by (rule in_range [OF m(1,2)])
    ultimately show "voter m_signs m \<noteq> l \<and> (\<exists>k\<in>{1..n}. good_vote_para C ns (rs k) m)"
      using bspec [OF backups m(1)] valid vd(2) [OF m(1), of j] by auto
  qed
qed

text \<open>
  C12. The blocks of a view of the parallel protocol are certified independently of each other. A leader with a verified
  new-view justification makes \<open>maxBlocksInView\<close> blocks of its transactions, each extending the one before
  it, stores and proposes them; let them hash to different values. Let each backup of a set \<open>P\<close> receive some of the
  proposals in some order (\<open>order p\<close>): it answers each with its vote for the block. Let all these votes reach the
  leader in any order. Then the leader sends exactly one prepare certificate (the block's statement with
  \<open>qsize\<close> signatures that verify) for each block that \<open>qsize - 1\<close> backups have received, and none for any other.
\<close>

theorem blocks_proposed_and_certified:
  assumes p: "proposer C just rd h" and q: "unat (h_qsize h) \<le> MAX_NUM_SIGNATURES"
    and B: "B = new_blocks C (unat (h_maxBlocksInView h)) 1 (justh rd) (h_transactions h)" and rs: "rs = block_statement C rd B"
    and inj: "inj_on (\<lambda>k. hbytes (proph (rs k))) {1..length B}"
    and backups: "\<forall>p\<in>P. accepts C just rd (length B) (hs p) \<and> tq_id (h_tpara (hs p)) = p \<and> p \<noteq> tq_id (h_tpara h) \<and>
      distinct (order p) \<and> set (order p) \<subseteq> {1..length B}"
    and valid: "\<forall>k\<in>{1..length B}. good_vote_para C (h_nodes h) (rs k) (vote_para C (h_tpara h) (rs k)) \<and>
      (\<forall>p\<in>P. good_vote_para C (h_nodes h) (rs k) (vote_para C (h_tpara (hs p)) (rs k)))"
    and votes: "distinct ms" "set ms = (\<Union>p\<in>P. (\<lambda>k. vote_para C (h_tpara (hs p)) (rs k)) ` set (order p))" "length ms < 2 ^ 32 - 1"
  shows "\<exists>h1 h2 hB ks es. preparePara C just h = Inr h1 \<and> map_find (h_pblocks h1) (h_view h) = Some B \<and>
      length B = unat (h_maxBlocksInView h) \<and> (\<forall>k\<in>{1..length B}. linked C B k) \<and>
      outs h1 = outs h @ map (proposal_of_block C just rd B h) [1..<Suc (length B)] \<and>
    (\<forall>p\<in>P. event_run (para_step C send_ok) (map (\<lambda>k. P_ldrprepare (proposal_msg C just rd B h k)) (order p)) (hs p) = Inr (hB p) \<and>
      outs (hB p) = outs (hs p) @ map (\<lambda>k. Multicast (Net_PreparePara (vote_para C (h_tpara (hs p)) (rs k)))
        (getPeerids (keep_from_peers (hs p) (getCurrentLeader (hs p))))) (order p)) \<and>
    event_run (para_step C send_ok) (map P_prepare ms) h1 = Inr h2 \<and>
      distinct ks \<and> set ks = {k \<in> {1..length B}. unat (h_qsize h) \<le> Suc (card {p \<in> P. k \<in> set (order p)})} \<and>
      outs h2 = outs h1 @ es \<and> list_all2 (prepare_cert C rs h) (map word_of_nat ks) es"
proof -
  let ?vote = "\<lambda>p k. vote_para C (h_tpara (hs p)) (rs k)"
  have n: "length B < 2 ^ 32" using unat_u32_less [of "h_maxBlocksInView h"] by (simp add: B new_blocks_made(1))
  have b: "\<forall>p\<in>P. tq_id (h_tpara (hs p)) = p \<and> p \<noteq> tq_id (h_tpara h) \<and> set (order p) \<subseteq> {1..length B}"
    "\<forall>k\<in>{1..length B}. \<forall>p\<in>P. good_vote_para C (h_nodes h) (rs k) (?vote p k)" using backups valid by blast+
  note counted = backup_votes_counted [OF inj b votes(1,2)]
  have "\<exists>h'. event_run (para_step C send_ok) (map (\<lambda>k. P_ldrprepare (proposal_msg C just rd B h k)) (order p)) (hs p) = Inr h' \<and>
      outs h' = outs (hs p) @ map (\<lambda>k. Multicast (Net_PreparePara (?vote p k)) (getPeerids (keep_from_peers (hs p) (getCurrentLeader (hs p))))) (order p)"
    if p: "p \<in> P" for p
  proof -
    have a: "accepts C just rd (length B) (hs p)" "distinct ([] @ order p)" "set ([] @ order p) \<subseteq> {1..length B}" using backups p by auto
    from backup_answers_all [OF a(1) B n inj [unfolded rs] backup_starts [OF a(1)] a(2,3), of send_ok
        "\<lambda>k. m_signs (vote_para C (h_tpara h) (block_statement C rd B k))"] obtain h' where
      "event_run (para_step C send_ok) (map (\<lambda>k. P_ldrprepare (proposal_msg C just rd B h k)) (order p)) (hs p) = Inr h'"
      "answered C rd B (hs p) ([] @ order p) h'" unfolding proposal_msg_def by blast
    then show ?thesis by (intro exI [of _ h']) (simp add: answered_def rs)
  qed
  then obtain hB where hB: "\<forall>p\<in>P. event_run (para_step C send_ok) (map (\<lambda>k. P_ldrprepare (proposal_msg C just rd B h k)) (order p)) (hs p) = Inr (hB p) \<and>
      outs (hB p) = outs (hs p) @ map (\<lambda>k. Multicast (Net_PreparePara (?vote p k)) (getPeerids (keep_from_peers (hs p) (getCurrentLeader (hs p))))) (order p)"
    by metis
  have "\<forall>k\<in>{1..length B}. good_vote_para C (h_nodes h) (rs k) (vote_para C (h_tpara h) (rs k))" using valid by blast
  from leader_certifies_blocks [OF p q B rs inj this counted(3,2) votes(3), of send_ok] obtain h1 h2 ks es where r:
    "preparePara C just h = Inr h1" "map_find (h_pblocks h1) (h_view h) = Some B" "length B = unat (h_maxBlocksInView h)"
    "\<forall>k\<in>{1..length B}. linked C B k" "outs h1 = outs h @ map (proposal_of_block C just rd B h) [1..<Suc (length B)]"
    "event_run (para_step C send_ok) (map P_prepare ms) h1 = Inr h2" "distinct ks"
    "set ks = {k \<in> {1..length B}. unat (h_qsize h) \<le> Suc (length (filter (\<lambda>m. m_rdata m = rs k) ms))}"
    "outs h2 = outs h1 @ es" "list_all2 (prepare_cert C rs h) (map word_of_nat ks) es" by blast
  have "set ks = {k \<in> {1..length B}. unat (h_qsize h) \<le> Suc (card {p \<in> P. k \<in> set (order p)})}"
    unfolding r(8) using counted(1) by auto
  with r(1-7,9,10) hB show ?thesis
    by (intro exI [of _ h1] exI [of _ h2] exI [of _ hB] exI [of _ ks] exI [of _ es] conjI)
qed

text \<open>
  Node 0 of four leads view 0 and proposes two blocks (with a hash that makes the previous hash one larger); node 1 receives the
  second one only, node 2 both.
\<close>

definition crypto_next :: crypto where
  "crypto_next = crypto_yes\<lparr>SHA256 := (\<lambda>t. map (\<lambda>b. b + 1) (take SHA256_DIGEST_LENGTH (drop 1 t)))\<rparr>"

definition demo_blocks :: "PBlock list" where
  "demo_blocks = new_blocks crypto_next 2 1 (Hash_zero True) []"

abbreviation demo_statement :: "nat \<Rightarrow> RDataPara" where
  "demo_statement \<equiv> block_statement crypto_next demo_nv_rdata demo_blocks"

definition demo_accepting :: "PID \<Rightarrow> Handler" where
  "demo_accepting p = (demo_para crypto_next p)\<lparr>h_verifiedJust := demo_nv\<rparr>"

lemma demo_next_valid: "s_set s \<Longrightarrow> signer s \<in> {0, 1, 2} \<Longrightarrow> sig_valid crypto_next demo_four text s"
  by (auto simp: sig_valid_def sign_verify_def verifyText_def crypto_next_def crypto_yes_def demo_four_def addNode_def nodes_find_def)

lemma demo_next_verify: "signs_verify crypto_next demo_four (j_signs demo_nv) t = Inr True"
  by (auto simp: signs_verify_eq demo_nv_def intro!: demo_next_valid) (simp_all add: Sign_char_def)

lemma demo_para_byz: "h_byzantine (demo_para C i) = 9" "h_transactions (demo_para C i) = []"
  using tc_new_total [of C i 5 3] by (auto simp: demo_para_def Handler_new_def Let_def)

lemma demo_next_hash:
  "pblock_hash crypto_next (made_block s (Hash_of (replicate SHA256_DIGEST_LENGTH b)) []) = Inr (Hash_of (replicate SHA256_DIGEST_LENGTH (b + 1)))"
  by (simp add: made_block_def PBlock_new_def pblock_hash_def pblock_toString_def pblock_transactions2string_def crypto_next_def
      hash_toString_def Hash_of_def bool_string_def)

lemma demo_blocks_eq: "demo_blocks = [made_block 1 (Hash_zero True) [], made_block 2 (Hash_of (replicate SHA256_DIGEST_LENGTH 49)) []]"
proof -
  have "Hash_zero True = Hash_of (replicate SHA256_DIGEST_LENGTH 48)" by (simp add: Hash_zero_def Hash_of_def)
  with demo_next_hash [of 1 48] show ?thesis by (simp add: demo_blocks_def numeral_2_eq_2 Let_def)
qed

lemma demo_statement_eq: "demo_statement 1 = RDataPara_new (Hash_of (replicate SHA256_DIGEST_LENGTH 49)) 0 (Hash_zero True) 0 PH1_PREPARE 1"
  "demo_statement 2 = RDataPara_new (Hash_of (replicate SHA256_DIGEST_LENGTH 50)) 0 (Hash_zero True) 0 PH1_PREPARE 2"
  "pblock_hash crypto_next (demo_blocks ! 0) = Inr (Hash_of (replicate SHA256_DIGEST_LENGTH 49))"
proof -
  have nv: "propv demo_nv_rdata = 0" "justh demo_nv_rdata = Hash_zero True" "justv demo_nv_rdata = 0"
    by (simp_all add: demo_nv_rdata_def RDataPara_new_def)
  have "Hash_zero True = Hash_of (replicate SHA256_DIGEST_LENGTH 48)" by (simp add: Hash_zero_def Hash_of_def)
  with demo_next_hash [of 1 48] show h: "pblock_hash crypto_next (demo_blocks ! 0) = Inr (Hash_of (replicate SHA256_DIGEST_LENGTH 49))"
    by (simp add: demo_blocks_eq)
  then show "demo_statement 1 = RDataPara_new (Hash_of (replicate SHA256_DIGEST_LENGTH 49)) 0 (Hash_zero True) 0 PH1_PREPARE 1"
    by (simp add: block_statement_def nv)
  show "demo_statement 2 = RDataPara_new (Hash_of (replicate SHA256_DIGEST_LENGTH 50)) 0 (Hash_zero True) 0 PH1_PREPARE 2"
    using demo_next_hash [of 2 49] by (simp add: block_statement_def nv demo_blocks_eq)
qed

lemma demo_proposer: "proposer crypto_next demo_nv demo_nv_rdata (demo_para crypto_next 0)"
  by (auto simp: proposer_def demo_nv_facts maxViewsReached_def amCurrentLeader_def getCurrentLeader_def getLeaderOf_def
      demo_para_byz demo_next_verify votes_ok_defs Log_empty_def TrustedPara_new_def)

lemma demo_accepting_accepts: "accepts crypto_next demo_nv demo_nv_rdata 2 (demo_accepting p)" "tq_id (h_tpara (demo_accepting p)) = p"
  by (auto simp: accepts_def demo_accepting_def demo_nv_facts demo_next_verify maxViewsReached_def TrustedPara_new_def PBlock_default_isBlock)

lemma demo_vote_good:
  assumes "tq_id t \<in> {0, 1, 2}"
  shows "good_vote_para crypto_next demo_four r (vote_para crypto_next t r)"
  using assms by (auto simp: good_vote_para_def vote_para_def intro!: demo_next_valid)

lemma vote_para_eqD: "vote_para C t r = vote_para C t' r' \<Longrightarrow> r = r' \<and> tq_id t = tq_id t'"
  by (drule arg_cong [of _ _ "\<lambda>m. (m_rdata m, voter m_signs m)"]) (simp add: vote_para_def voter_def)

text \<open>Only the second block is certified.\<close>

theorem blocks_proposed_and_certified_witness:
  "\<exists>h1 h2 e. preparePara crypto_next demo_nv (demo_para crypto_next 0) = Inr h1 \<and> length (outs h1) = 2 \<and>
     event_run (para_step crypto_next (\<lambda>_. True))
       (map P_prepare [vote_para crypto_next (h_tpara (demo_accepting 1)) (demo_statement 2),
          vote_para crypto_next (h_tpara (demo_accepting 2)) (demo_statement 1),
          vote_para crypto_next (h_tpara (demo_accepting 2)) (demo_statement 2)]) h1 = Inr h2 \<and>
     outs h2 = outs h1 @ [e] \<and> prepare_cert crypto_next demo_statement (demo_para crypto_next 0) 2 e"
proof -
  let ?h = "demo_para crypto_next 0" and ?order = "\<lambda>p :: PID. if p = 1 then [2] else [1, 2 :: nat]"
  let ?v = "\<lambda>p k. vote_para crypto_next (h_tpara (demo_accepting p)) (demo_statement k)"
  let ?ms = "[?v 1 2, ?v 2 1, ?v 2 2]"
  have two: "{1..length demo_blocks} = {1, 2 :: nat}" "length demo_blocks = 2" by (auto simp: demo_blocks_eq)
  have ne: "demo_statement (Suc 0) \<noteq> demo_statement 2" using demo_statement_eq by (simp add: RDataPara_new_def)
  have q: "unat (h_qsize ?h) \<le> MAX_NUM_SIGNATURES" by (simp add: MAX_NUM_SIGNATURES_def)
  have B: "demo_blocks = new_blocks crypto_next (unat (h_maxBlocksInView ?h)) 1 (justh demo_nv_rdata) (h_transactions ?h)"
    by (simp add: demo_blocks_def demo_para_byz demo_nv_rdata_def RDataPara_new_def)
  have inj: "inj_on (\<lambda>k. hbytes (proph (demo_statement k))) {1..length demo_blocks}"
    unfolding two(1) using demo_statement_eq by (simp add: RDataPara_new_def Hash_of_def SHA256_DIGEST_LENGTH_def)
  have backups: "\<forall>p\<in>{1, 2}. accepts crypto_next demo_nv demo_nv_rdata (length demo_blocks) (demo_accepting p) \<and>
      tq_id (h_tpara (demo_accepting p)) = p \<and> p \<noteq> tq_id (h_tpara ?h) \<and> distinct (?order p) \<and> set (?order p) \<subseteq> {1..length demo_blocks}"
    unfolding two using demo_accepting_accepts by (auto simp: TrustedPara_new_def)
  have valid: "\<forall>k\<in>{1..length demo_blocks}. good_vote_para crypto_next (h_nodes ?h) (demo_statement k) (vote_para crypto_next (h_tpara ?h) (demo_statement k)) \<and>
      (\<forall>p\<in>{1, 2}. good_vote_para crypto_next (h_nodes ?h) (demo_statement k) (?v p k))"
    using demo_accepting_accepts(2) by (auto simp: TrustedPara_new_def intro!: demo_vote_good)
  have ms: "distinct ?ms" "length ?ms < 2 ^ 32 - 1"
    using ne demo_accepting_accepts(2) by (auto dest!: vote_para_eqD)
  have votes: "set ?ms = (\<Union>p\<in>{1, 2}. ?v p ` set (?order p))" by auto
  from blocks_proposed_and_certified [OF demo_proposer q B refl inj backups valid ms(1) votes ms(2), of "\<lambda>_. True"]
  obtain h1 h2 ks es where r: "preparePara crypto_next demo_nv ?h = Inr h1"
    "outs h1 = outs ?h @ map (proposal_of_block crypto_next demo_nv demo_nv_rdata demo_blocks ?h) [1..<Suc (length demo_blocks)]"
    "event_run (para_step crypto_next (\<lambda>_. True)) (map P_prepare ?ms) h1 = Inr h2" "distinct ks"
    "set ks = {k \<in> {1..length demo_blocks}. unat (h_qsize ?h) \<le> Suc (card {p \<in> {1, 2}. k \<in> set (?order p)})}"
    "outs h2 = outs h1 @ es" "list_all2 (prepare_cert crypto_next demo_statement ?h) (map word_of_nat ks) es"
    by - (elim exE conjE, rule that; assumption)
  define f where "f k = card {p \<in> {1, 2}. k \<in> set (?order p)}" for k
  have "f 2 = card {1, 2 :: PID}" "f 1 = card {2 :: PID}" unfolding f_def by (rule arg_cong [of _ _ card]; auto)+
  then have f12: "f 2 = 2" "f 1 = 1" by simp_all
  have ks: "set ks = {k \<in> {1, 2}. 3 \<le> Suc (f k)}" unfolding r(5) two(1) f_def by simp
  have "k \<in> set ks \<longleftrightarrow> k = 2" for k
  proof (cases "k = 1")
    case False
    show ?thesis using False f12(1) unfolding ks by (cases "k = 2") simp_all
  qed (use ks f12(2) in simp)
  then have "set ks = {2}" by blast
  with r(4) have "ks = [2]" by (cases ks rule: remdups_adj.cases) auto
  moreover have "length (outs h1) = 2" by (simp add: r(2) two(2))
  ultimately show ?thesis using r(1,3,6,7) by (auto simp: list_all2_Cons1 simp del: event_run.simps)
qed

end
