(* ===== verification/LogRefine.thy ===== *)
theory LogRefine
  imports LogFacts TrustedCounter
begin

text \<open>
  The log as an implementation of a ballot box. A vote in the protocols carries one
  signature. For such votes the sets of messages under each view (and sequence number),
  with their search for known signers, implement one set of voters per ballot: every
  \<open>store\<close> of \<open>App/Log.cpp\<close> adds the voter to the set and answers from the size of the set.
\<close>

section \<open>The abstract ballot box\<close>

text \<open>One ballot per kind of message and view; in the parallel protocol, also per sequence number.\<close>

datatype ballot =
    BNv View | BPrep View | BPc View | BCom View | BNvPara View | BNvCh View | BPrepCh View
  | BPrepPara View u32 | BPcPara View u32 | BComPara View u32

type_synonym ballot_box = "ballot \<Rightarrow> PID set"

text \<open>The parallel votes are answered with the number of voters; the others with 0 if the voter is known.\<close>

fun recounts :: "ballot \<Rightarrow> bool" where
  "recounts (BPrepPara v s) = True"
| "recounts (BPcPara v s) = True"
| "recounts (BComPara v s) = True"
| "recounts b = False"

definition cast_vote :: "ballot \<times> PID \<Rightarrow> ballot_box \<Rightarrow> (u32 \<times> ballot_box) res" where
  "cast_vote bp B =
     (let (b, p) = bp; n = word_of_nat (card (insert p (B b)))
      in Inr (if p \<in> B b \<and> \<not> recounts b then 0 else n, B(b := insert p (B b))))"

section \<open>The operations of the log\<close>

datatype log_op =
    OpNv MsgNewView | OpPrep MsgPrepare | OpPc MsgPreCommit | OpCom MsgCommit
  | OpNvPara MsgNewViewPara | OpNvCh MsgNewViewCh | OpPrepCh MsgPrepareCh
  | OpPrepPara MsgPreparePara | OpPcPara MsgPreCommitPara | OpComPara MsgCommitPara

fun log_store :: "log_op \<Rightarrow> Log \<Rightarrow> (Log \<times> u32) res" where
  "log_store (OpNv m) = storeNv m"
| "log_store (OpPrep m) = storePrep m"
| "log_store (OpPc m) = storePc m"
| "log_store (OpCom m) = storeCom m"
| "log_store (OpNvPara m) = storeNvPara m"
| "log_store (OpNvCh m) = storeNvCh m"
| "log_store (OpPrepCh m) = storePrepCh m"
| "log_store (OpPrepPara m) = storePrepPara m"
| "log_store (OpPcPara m) = storePcPara m"
| "log_store (OpComPara m) = storeComPara m"

definition log_exec :: "log_op \<Rightarrow> Log \<Rightarrow> (u32 \<times> Log) res" where
  "log_exec op l = bindE (log_store op l) (\<lambda>(l, n). Inr (n, l))"

fun op_ballot :: "log_op \<Rightarrow> ballot" where
  "op_ballot (OpNv m) = BNv (propv (m_rdata m))"
| "op_ballot (OpPrep m) = BPrep (propv (m_rdata m))"
| "op_ballot (OpPc m) = BPc (propv (m_rdata m))"
| "op_ballot (OpCom m) = BCom (propv (m_rdata m))"
| "op_ballot (OpNvPara m) = BNvPara (propv (m_rdata m))"
| "op_ballot (OpNvCh m) = BNvCh (propv (c_data m))"
| "op_ballot (OpPrepCh m) = BPrepCh (propv (c_data m))"
| "op_ballot (OpPrepPara m) = BPrepPara (propv (m_rdata m)) (seqNumber (m_rdata m))"
| "op_ballot (OpPcPara m) = BPcPara (propv (m_rdata m)) (seqNumber (m_rdata m))"
| "op_ballot (OpComPara m) = BComPara (propv (m_rdata m)) (seqNumber (m_rdata m))"

fun op_signs :: "log_op \<Rightarrow> Signs" where
  "op_signs (OpNv m) = m_signs m"
| "op_signs (OpPrep m) = m_signs m"
| "op_signs (OpPc m) = m_signs m"
| "op_signs (OpCom m) = m_signs m"
| "op_signs (OpNvPara m) = m_signs m"
| "op_signs (OpNvCh m) = Signs_one (c_sign m)"
| "op_signs (OpPrepCh m) = Signs_one (c_sign m)"
| "op_signs (OpPrepPara m) = m_signs m"
| "op_signs (OpPcPara m) = m_signs m"
| "op_signs (OpComPara m) = m_signs m"

definition single_vote :: "log_op \<Rightarrow> bool" where
  "single_vote op \<longleftrightarrow> signs_ok (op_signs op) \<and> length (sig_list (op_signs op)) = 1"

definition op_voter :: "log_op \<Rightarrow> PID" where
  "op_voter op = signer (sig_list (op_signs op) ! 0)"

section \<open>The abstraction\<close>

fun ballot_signs :: "Log \<Rightarrow> ballot \<Rightarrow> Signs list" where
  "ballot_signs l (BNv v) = map m_signs (entries_of (map_find (newviews l) v))"
| "ballot_signs l (BPrep v) = map m_signs (entries_of (map_find (prepares l) v))"
| "ballot_signs l (BPc v) = map m_signs (entries_of (map_find (precommits l) v))"
| "ballot_signs l (BCom v) = map m_signs (entries_of (map_find (commits l) v))"
| "ballot_signs l (BNvPara v) = map m_signs (entries_of (map_find (newviewsPara l) v))"
| "ballot_signs l (BNvCh v) = map (\<lambda>m. Signs_one (c_sign m)) (entries_of (map_find (newviewsCh l) v))"
| "ballot_signs l (BPrepCh v) = map (\<lambda>m. Signs_one (c_sign m)) (entries_of (map_find (preparesCh l) v))"
| "ballot_signs l (BPrepPara v s) = map m_signs (entries_of (seq_find (preparesPara l) v s))"
| "ballot_signs l (BPcPara v s) = map m_signs (entries_of (seq_find (precommitsPara l) v s))"
| "ballot_signs l (BComPara v s) = map m_signs (entries_of (seq_find (commitsPara l) v s))"

definition log_abs :: "Log \<Rightarrow> ballot_box" where
  "log_abs l = (\<lambda>b. \<Union>g\<in>set (ballot_signs l b). signer ` set (sig_list g))"

definition singles :: "Log \<Rightarrow> bool" where
  "singles l \<longleftrightarrow> (\<forall>b. \<forall>g\<in>set (ballot_signs l b). length (sig_list g) = 1)"

context vote_log
begin

text \<open>
  One store, seen through the ballots \<open>F k\<close> that hold the entries of the keys \<open>k\<close>; no other
  ballot changes.
\<close>

lemma store_single:
  assumes F: "\<And>k. map sg (entries l k) = sigs (F k)" "\<And>k. map sg (entries l' k) = sigs' (F k)"
    and frame: "\<And>b. b \<notin> range F \<Longrightarrow> sigs' b = sigs b" and inj: "inj F"
    and ok: "votes_ok l" "\<forall>b. \<forall>g\<in>set (sigs b). length (sig_list g) = 1"
    and m: "signs_ok (sg m)" "sig_list (sg m) = [s]" "store m l = Inr (l', n)"
    and vs: "vs = (\<lambda>b. \<Union>g\<in>set (sigs b). signer ` set (sig_list g))"
    and vs': "vs' = (\<lambda>b. \<Union>g\<in>set (sigs' b). signer ` set (sig_list g))"
  shows "vs' = vs(F (key m) := insert (signer s) (vs (F (key m))))"
    and "\<forall>b. \<forall>g\<in>set (sigs' b). length (sig_list g) = 1"
    and "length (entries l' (key m)) = card (vs' (F (key m)))"
    and "heard sg (entries l (key m)) m \<longleftrightarrow> signer s \<in> vs (F (key m))"
proof -
  have good: "msg_good sg m" "\<forall>x\<in>set (entries l k). msg_good sg x" for k
    using m(1,2) ok(1) votes_okD(2) by (auto simp: msg_good_def)
  note e = store_entries [OF good(2,1) m(3)] and ok' = store_keeps [OF ok(1) good(1) m(3)]
  have V: "voters sg (entries l k) = vs (F k)" "voters sg (entries l' k) = vs' (F k)" for k
    unfolding vs vs' voters_def F [symmetric] by simp_all
  show heard: "heard sg (entries l (key m)) m \<longleftrightarrow> signer s \<in> vs (F (key m))"
    unfolding V(1) [symmetric] using m(2) by (cases "entries l (key m)") (auto simp: heard_def)
  have ins: "set (entries l' (key m)) \<subseteq> insert m (set (entries l (key m)))"
    "voters sg (entries l' (key m)) = insert (signer s) (voters sg (entries l (key m)))"
    using e [of "key m"] insert_unheard(2,3) [OF good(2,1)] heard m(2) V(1) by auto
  have other: "k \<noteq> key m \<Longrightarrow> entries l' k = entries l k" for k using e by simp
  show "vs' = vs(F (key m) := insert (signer s) (vs (F (key m))))"
  proof
    fix b
    show "vs' b = (vs(F (key m) := insert (signer s) (vs (F (key m))))) b"
    proof (cases "b \<in> range F")
      case True
      then obtain k where b: "b = F k" by blast
      show ?thesis using ins(2) other [of k] V [of k] V [of "key m"] inj_eq [OF inj] by (cases "k = key m") (auto simp: b)
    qed (use frame vs vs' in auto)
  qed
  show single: "\<forall>b. \<forall>g\<in>set (sigs' b). length (sig_list g) = 1"
  proof
    fix b
    show "\<forall>g\<in>set (sigs' b). length (sig_list g) = 1"
    proof (cases "b \<in> range F")
      case True
      then obtain k where b: "b = F k" by blast
      have "\<forall>x\<in>set (entries l k). length (sig_list (sg x)) = 1" using ok(2) F(1) [of k, symmetric] by (metis image_eqI set_map)
      with ins(1) other [of k] m(2) have "\<forall>x\<in>set (entries l' k). length (sig_list (sg x)) = 1" by (cases "k = key m") auto
      then show ?thesis unfolding b F(2) [symmetric] by simp
    qed (use frame ok(2) in auto)
  qed
  have "card (vs' (F (key m))) \<le> length (entries l' (key m))"
  proof -
    have 1: "\<forall>x\<in>set (entries l' (key m)). length (sig_list (sg x)) = 1"
      using single F(2) [of "key m", symmetric] by (metis image_eqI set_map)
    have "card (voters sg ms) \<le> length ms" if "\<forall>x\<in>set ms. length (sig_list (sg x)) = 1" for ms
      using that
    proof (induction ms)
      case (Cons x ms)
      then have "card (signer ` set (sig_list (sg x))) \<le> 1"
        by (metis card_image_le card_length le_trans List.finite_set list.set_intros(1))
      then show ?case using Cons card_Un_le [of "signer ` set (sig_list (sg x))" "voters sg ms"] by simp
    qed simp
    from this [OF 1] show ?thesis by (simp add: V(2))
  qed
  with votes_okD(3) [OF ok', of "key m"] show "length (entries l' (key m)) = card (vs' (F (key m)))" by (simp add: V(2))
qed

end

text \<open>A store implements one vote of the abstract box.\<close>

definition implements :: "(ballot \<Rightarrow> Signs list) \<Rightarrow> (ballot \<Rightarrow> Signs list) \<Rightarrow> ballot \<Rightarrow> Signs \<Rightarrow> u32 \<Rightarrow> bool" where
  "implements sigs sigs' b g n \<longleftrightarrow>
     (let vs = (\<lambda>b. \<Union>g\<in>set (sigs b). signer ` set (sig_list g));
          vs' = (\<lambda>b. \<Union>g\<in>set (sigs' b). signer ` set (sig_list g))
      in cast_vote (b, signer (sig_list g ! 0)) vs = Inr (n, vs') \<and> (\<forall>b. \<forall>g\<in>set (sigs' b). length (sig_list g) = 1))"

context vote_log_fresh
begin

lemma fresh_implements:
  assumes "\<And>k. map sg (entries l k) = sigs (F k)" "\<And>k. map sg (entries l' k) = sigs' (F k)"
    and "\<And>b. b \<notin> range F \<Longrightarrow> sigs' b = sigs b" and "inj F"
    and "votes_ok l" "\<forall>b. \<forall>g\<in>set (sigs b). length (sig_list g) = 1"
    and "signs_ok (sg m)" "length (sig_list (sg m)) = 1" "store m l = Inr (l', n)" and "\<not> recounts (F (key m))"
  shows "implements sigs sigs' (F (key m)) (sg m) n"
proof -
  from assms(8) obtain s where s: "sig_list (sg m) = [s]" by (auto simp: length_Suc_conv)
  note st = store_single [OF assms(1-7) s assms(9) refl refl]
  have "msg_good sg m" "\<forall>x\<in>set (entries l (key m)). msg_good sg x"
    using assms(5,7) s votes_okD(2) by (auto simp: msg_good_def)
  from store_count [OF this(2,1) assms(9)] st(3,4)
  have "n = (if signer s \<in> (\<Union>g\<in>set (sigs (F (key m))). signer ` set (sig_list g)) then 0
      else word_of_nat (card (\<Union>g\<in>set (sigs' (F (key m))). signer ` set (sig_list g))))" by simp
  with st(1,2) assms(10) show ?thesis
    unfolding implements_def cast_vote_def Let_def by (simp add: s fun_eq_iff)
qed

end

context vote_log_total
begin

lemma total_implements:
  assumes "\<And>k. map sg (entries l k) = sigs (F k)" "\<And>k. map sg (entries l' k) = sigs' (F k)"
    and "\<And>b. b \<notin> range F \<Longrightarrow> sigs' b = sigs b" and "inj F"
    and "votes_ok l" "\<forall>b. \<forall>g\<in>set (sigs b). length (sig_list g) = 1"
    and "signs_ok (sg m)" "length (sig_list (sg m)) = 1" "store m l = Inr (l', n)" and "recounts (F (key m))"
  shows "implements sigs sigs' (F (key m)) (sg m) n"
proof -
  from assms(8) obtain s where s: "sig_list (sg m) = [s]" by (auto simp: length_Suc_conv)
  note st = store_single [OF assms(1-7) s assms(9) refl refl]
  have "msg_good sg m" "\<forall>x\<in>set (entries l (key m)). msg_good sg x"
    using assms(5,7) s votes_okD(2) by (auto simp: msg_good_def)
  from store_count_total [OF this(2,1) assms(9)] st(3)
  have "n = word_of_nat (card (\<Union>g\<in>set (sigs' (F (key m))). signer ` set (sig_list g)))" by simp
  with st(1,2) assms(10) show ?thesis
    unfolding implements_def cast_vote_def Let_def by (simp add: s fun_eq_iff)
qed

end

section \<open>Every store implements a vote\<close>

text \<open>A store changes the ballots of its own kind only.\<close>

lemma ballot_frames:
  "b \<notin> range BNv \<Longrightarrow> ballot_signs (l\<lparr>newviews := x0\<rparr>) b = ballot_signs l b"
  "b \<notin> range BPrep \<Longrightarrow> ballot_signs (l\<lparr>prepares := x1\<rparr>) b = ballot_signs l b"
  "b \<notin> range BPc \<Longrightarrow> ballot_signs (l\<lparr>precommits := x1\<rparr>) b = ballot_signs l b"
  "b \<notin> range BCom \<Longrightarrow> ballot_signs (l\<lparr>commits := x1\<rparr>) b = ballot_signs l b"
  "b \<notin> range BNvPara \<Longrightarrow> ballot_signs (l\<lparr>newviewsPara := x2\<rparr>) b = ballot_signs l b"
  "b \<notin> range BNvCh \<Longrightarrow> ballot_signs (l\<lparr>newviewsCh := x3\<rparr>) b = ballot_signs l b"
  "b \<notin> range BPrepCh \<Longrightarrow> ballot_signs (l\<lparr>preparesCh := x3\<rparr>) b = ballot_signs l b"
  "b \<notin> range (\<lambda>(v, s). BPrepPara v s) \<Longrightarrow> ballot_signs (l\<lparr>preparesPara := x4\<rparr>) b = ballot_signs l b"
  "b \<notin> range (\<lambda>(v, s). BPcPara v s) \<Longrightarrow> ballot_signs (l\<lparr>precommitsPara := x4\<rparr>) b = ballot_signs l b"
  "b \<notin> range (\<lambda>(v, s). BComPara v s) \<Longrightarrow> ballot_signs (l\<lparr>commitsPara := x4\<rparr>) b = ballot_signs l b"
  by (cases b; force)+

lemma inj_ballots:
  "inj BNv" "inj BPrep" "inj BPc" "inj BCom" "inj BNvPara" "inj BNvCh" "inj BPrepCh"
  "inj (\<lambda>(v, s). BPrepPara v s)" "inj (\<lambda>(v, s). BPcPara v s)" "inj (\<lambda>(v, s). BComPara v s)"
  by (auto simp: inj_def)

lemma implements_votes:
  assumes l: "log_ok l" "singles l" and m: "single_vote op" "log_store op l = Inr (l', n)"
  shows "implements (ballot_signs l) (ballot_signs l') (op_ballot op) (op_signs op) n"
proof -
  have sg: "\<forall>b. \<forall>g\<in>set (ballot_signs l b). length (sig_list g) = 1" using l(2) by (simp add: singles_def)
  note ok = log_ok_votes [OF l(1)]
  show ?thesis
  proof (cases op)
    case (OpNv m)
    then show ?thesis
      using nv_log.fresh_implements [of l "ballot_signs l" BNv l' "ballot_signs l'" m n, OF _ _ _ inj_ballots(1) ok(1) sg]
        m store_frames(1) [of m l l' n] ballot_frames(1) by (auto simp: single_vote_def)
  next
    case (OpPrep m)
    then show ?thesis
      using prep_log.fresh_implements [of l "ballot_signs l" BPrep l' "ballot_signs l'" m n, OF _ _ _ inj_ballots(2) ok(2) sg]
        m store_frames(2) [of m l l' n] ballot_frames(2) by (auto simp: single_vote_def)
  next
    case (OpPc m)
    then show ?thesis
      using pc_log.fresh_implements [of l "ballot_signs l" BPc l' "ballot_signs l'" m n, OF _ _ _ inj_ballots(3) ok(3) sg]
        m store_frames(3) [of m l l' n] ballot_frames(3) by (auto simp: single_vote_def)
  next
    case (OpCom m)
    then show ?thesis
      using com_log.fresh_implements [of l "ballot_signs l" BCom l' "ballot_signs l'" m n, OF _ _ _ inj_ballots(4) ok(4) sg]
        m store_frames(4) [of m l l' n] ballot_frames(4) by (auto simp: single_vote_def)
  next
    case (OpNvPara m)
    then show ?thesis
      using nvp_log.fresh_implements [of l "ballot_signs l" BNvPara l' "ballot_signs l'" m n, OF _ _ _ inj_ballots(5) ok(5) sg]
        m store_frames(9) [of m l l' n] ballot_frames(5) by (auto simp: single_vote_def)
  next
    case (OpNvCh m)
    then show ?thesis
      using nvch_log.fresh_implements [of l "ballot_signs l" BNvCh l' "ballot_signs l'" m n, OF _ _ _ inj_ballots(6) ok(6) sg]
        m store_frames(6) [of m l l' n] ballot_frames(6) by (auto simp: single_vote_def)
  next
    case (OpPrepCh m)
    then show ?thesis
      using prepch_log.fresh_implements [of l "ballot_signs l" BPrepCh l' "ballot_signs l'" m n, OF _ _ _ inj_ballots(7) ok(7) sg]
        m store_frames(7) [of m l l' n] ballot_frames(7) by (auto simp: single_vote_def)
  next
    case (OpPrepPara m)
    then show ?thesis
      using prepp_log.total_implements [of l "ballot_signs l" "\<lambda>(v, s). BPrepPara v s" l' "ballot_signs l'" m n,
          OF _ _ _ inj_ballots(8) ok(8) sg]
        m store_frames(10) [of m l l' n] ballot_frames(8) by (auto simp: single_vote_def split_def)
  next
    case (OpPcPara m)
    then show ?thesis
      using pcp_log.total_implements [of l "ballot_signs l" "\<lambda>(v, s). BPcPara v s" l' "ballot_signs l'" m n,
          OF _ _ _ inj_ballots(9) ok(9) sg]
        m store_frames(11) [of m l l' n] ballot_frames(9) by (auto simp: single_vote_def split_def)
  next
    case (OpComPara m)
    then show ?thesis
      using comp_log.total_implements [of l "ballot_signs l" "\<lambda>(v, s). BComPara v s" l' "ballot_signs l'" m n,
          OF _ _ _ inj_ballots(10) ok(10) sg]
        m store_frames(12) [of m l l' n] ballot_frames(10) by (auto simp: single_vote_def split_def)
  qed
qed

lemma log_store_total:
  assumes "log_ok l" and "single_vote op"
  shows "\<exists>l' n. log_store op l = Inr (l', n) \<and> log_ok l'"
proof -
  note ok = log_ok_votes [OF assms(1)]
  have g: "msg_good sg m" if "op_signs op = sg m" for sg :: "'m \<Rightarrow> Signs" and m
    using assms(2) that by (auto simp: single_vote_def msg_good_def)
  show ?thesis
  proof (cases op)
    case (OpNv m)
    then show ?thesis using nv_log.fresh_total [OF ok(1) g] storeNv_log_ok [OF assms(1) g] by fastforce
  next
    case (OpPrep m)
    then show ?thesis using prep_log.fresh_total [OF ok(2) g] storePrep_log_ok [OF assms(1) g] by fastforce
  next
    case (OpPc m)
    then show ?thesis using pc_log.fresh_total [OF ok(3) g] storePc_log_ok [OF assms(1) g] by fastforce
  next
    case (OpCom m)
    then show ?thesis using com_log.fresh_total [OF ok(4) g] storeCom_log_ok [OF assms(1) g] by fastforce
  next
    case (OpNvPara m)
    then show ?thesis using nvp_log.fresh_total [OF ok(5) g] storeNvPara_log_ok [OF assms(1) g] by fastforce
  next
    case (OpNvCh m)
    then show ?thesis using nvch_log.fresh_total [OF ok(6) msg_good_ch] storeNvCh_log_ok [OF assms(1)] by fastforce
  next
    case (OpPrepCh m)
    then show ?thesis using prepch_log.fresh_total [OF ok(7) msg_good_ch] storePrepCh_log_ok [OF assms(1)] by fastforce
  next
    case (OpPrepPara m)
    then show ?thesis using prepp_log.total_total [OF ok(8) g] storePrepPara_log_ok [OF assms(1) g] by fastforce
  next
    case (OpPcPara m)
    then show ?thesis using pcp_log.total_total [OF ok(9) g] storePcPara_log_ok [OF assms(1) g] by fastforce
  next
    case (OpComPara m)
    then show ?thesis using comp_log.total_total [OF ok(10) g] storeComPara_log_ok [OF assms(1) g] by fastforce
  qed
qed

lemma log_exec_implements:
  assumes "log_ok l" and "singles l" and "single_vote op"
  shows "\<exists>n l'. log_exec op l = Inr (n, l') \<and> log_ok l' \<and> singles l' \<and>
    cast_vote (op_ballot op, op_voter op) (log_abs l) = Inr (n, log_abs l')"
proof -
  obtain l' n where st: "log_store op l = Inr (l', n)" "log_ok l'" using log_store_total [OF assms(1,3)] by blast
  from implements_votes [OF assms st(1)] st show ?thesis
    by (simp add: implements_def Let_def log_exec_def singles_def log_abs_def op_voter_def)
qed

lemma log_run_implements:
  assumes "\<forall>op\<in>set ops. single_vote op"
  shows "log_ok l \<Longrightarrow> singles l \<Longrightarrow> \<exists>ns l'. call_run log_exec ops l = Inr (ns, l') \<and>
    call_run cast_vote (map (\<lambda>op. (op_ballot op, op_voter op)) ops) (log_abs l) = Inr (ns, log_abs l')"
  using assms
proof (induction ops arbitrary: l)
  case (Cons op ops)
  have "single_vote op" using Cons.prems(3) by simp
  from log_exec_implements [OF Cons.prems(1,2) this] obtain n l1 where
    1: "log_exec op l = Inr (n, l1)" "cast_vote (op_ballot op, op_voter op) (log_abs l) = Inr (n, log_abs l1)" and ok: "log_ok l1" "singles l1"
    by blast
  from Cons.IH [OF ok] Cons.prems(3) obtain ns l' where "call_run log_exec ops l1 = Inr (ns, l')"
    "call_run cast_vote (map (\<lambda>op. (op_ballot op, op_voter op)) ops) (log_abs l1) = Inr (ns, log_abs l')" by auto
  with 1 show ?case by simp
qed simp

lemma empty_box: "singles Log_empty" "log_abs Log_empty = (\<lambda>_. {})"
proof -
  have "ballot_signs Log_empty b = []" for b by (cases b) (simp_all add: Log_empty_def)
  then show "singles Log_empty" "log_abs Log_empty = (\<lambda>_. {})" by (simp_all add: singles_def log_abs_def)
qed

text \<open>
  C6. The log refines a ballot box. Any sequence of \<open>store\<close> calls, of all ten kinds and
  in any order, on messages that carry one signature each, succeeds from the empty log; every call
  returns what the ballot box answers, and in the end the voters recorded in the log are those of the
  box. The answer is the number of different voters of the ballot so far, modulo 2 ^ 32, except for a voter that
  the ballot has seen: then it is 0, as the comment in \<open>Log.h\<close> says, for the seven stores of the basic and
  chained protocols and of new-view messages, but the number of voters again for
  \<open>storePrepPara\<close>, \<open>storePcPara\<close> and \<open>storeComPara\<close> (\<open>recounts\<close>), against that comment.
\<close>

theorem log_refines_ballot_box:
  assumes "\<forall>op\<in>set ops. single_vote op"
  shows "\<exists>ns l'. call_run log_exec ops Log_empty = Inr (ns, l') \<and>
    call_run cast_vote (map (\<lambda>op. (op_ballot op, op_voter op)) ops) (\<lambda>_. {}) = Inr (ns, log_abs l')"
  using log_run_implements [OF assms log_ok_empty empty_box(1)] by (simp add: empty_box(2))

text \<open>Nodes 1 and 2 vote to prepare in view 7, node 1 twice, and node 1 twice in the parallel protocol.\<close>

theorem log_refines_ballot_box_witness:
  "\<exists>l'. call_run log_exec
     [OpPrep (Msg_new (RData_new Hash_default 7 Hash_default 0 PH1_PREPARE) (Signs_one (Sign_char 1 65))),
      OpPrep (Msg_new (RData_new Hash_default 7 Hash_default 0 PH1_PREPARE) (Signs_one (Sign_char 2 65))),
      OpPrep (Msg_new (RData_new Hash_default 7 Hash_default 0 PH1_PREPARE) (Signs_one (Sign_char 1 66))),
      OpPrepPara (Msg_new (RDataPara_new Hash_default 7 Hash_default 0 PH1_PREPARE 3) (Signs_one (Sign_char 1 65))),
      OpPrepPara (Msg_new (RDataPara_new Hash_default 7 Hash_default 0 PH1_PREPARE 3) (Signs_one (Sign_char 1 65)))]
     Log_empty = Inr ([1, 2, 0, 1, 1], l')"
  (is "\<exists>l'. call_run log_exec ?ops Log_empty = Inr (_, l')")
proof -
  have v: "op_voter op = signer s" if "op_signs op = Signs_one s" for op s
    using that by (simp add: op_voter_def)
  have "\<forall>op\<in>set ?ops. single_vote op" by (simp add: single_vote_def)
  from log_refines_ballot_box [OF this] obtain ns l' where r: "call_run log_exec ?ops Log_empty = Inr (ns, l')"
    "call_run cast_vote (map (\<lambda>op. (op_ballot op, op_voter op)) ?ops) (\<lambda>_. {}) = Inr (ns, log_abs l')" by blast
  from r(2) have "ns = [1, 2, 0, 1, 1]"
    by (simp add: v cast_vote_def Sign_char_def Let_def)
  with r(1) show ?thesis by blast
qed

end
