(* ===== verification/Config.thy ===== *)
theory Config
  imports HandlerState
begin

text \<open>
  Start-up: the configuration file (\<open>Nodes::Nodes(std::string, unsigned int)\<close> in
  \<open>App/Nodes.cpp\<close>), and the command lines of \<open>App/Server.cpp\<close> and \<open>App/Client.cpp\<close> as
  far as the protocol parameters go (the floating-point arguments are not modelled). The line
  buffer, with what is left in it from earlier lines, and the pointers of \<open>strtok\<close> into it
  are explicit.
\<close>

section \<open>Streams and C strings\<close>

definition MAXLINE :: nat where "MAXLINE = 256"

record ifstream =
  st_rest :: bytes      \<comment> \<open>what has not been read\<close>
  st_eof :: bool
  st_fail :: bool

text \<open>\<open>std::ifstream inFile(filename)\<close>; \<open>None\<close>: the file cannot be opened.\<close>

definition open_file :: "bytes option \<Rightarrow> ifstream" where
  "open_file f =
     (case f of Some content \<Rightarrow> \<lparr>st_rest = content, st_eof = False, st_fail = False\<rparr>
      | None \<Rightarrow> \<lparr>st_rest = [], st_eof = False, st_fail = True\<rparr>)"

text \<open>
  \<open>istream::getline(buf, n)\<close>: at most \<open>n - 1\<close> characters and a terminating 0 are stored, the
  newline is read and dropped; reading nothing, or leaving a part of the line, is a failure.
\<close>

definition getline :: "nat \<Rightarrow> ifstream \<Rightarrow> bytes \<Rightarrow> ifstream \<times> bytes" where
  "getline n s buf =
     (if st_eof s \<or> st_fail s then (s\<lparr>st_fail := True\<rparr>, 0 # drop 1 buf)
      else
        (let line = takeWhile (\<lambda>c. c \<noteq> 10) (st_rest s);
             stored = take (n - 1) line
         in (if length line > n - 1 then s\<lparr>st_rest := drop (n - 1) (st_rest s), st_fail := True\<rparr>
             else if length line < length (st_rest s) then s\<lparr>st_rest := drop (Suc (length line)) (st_rest s)\<rparr>
             else s\<lparr>st_rest := [], st_eof := True, st_fail := (line = [])\<rparr>,
             stored @ 0 # drop (Suc (length stored)) buf)))"

text \<open>
  \<open>strtok(p, " ")\<close> from the position \<open>start\<close> of the buffer (the argument, or the position saved
  by the previous call): the position of the token, the position saved, and the buffer, in
  which the delimiter after the token is overwritten by 0.
\<close>

definition strtok :: "bytes \<Rightarrow> nat \<Rightarrow> (nat option \<times> nat \<times> bytes) res" where
  "strtok buf start =
     (let i = start + length (takeWhile (\<lambda>c. c = 32) (drop start buf)) in
      bindE (arr_get buf i) (\<lambda>c.
        if c = 0 then Inr (None, i, buf)
        else
          (let e = i + length (takeWhile (\<lambda>c. c \<noteq> 32 \<and> c \<noteq> 0) (drop i buf)) in
           bindE (arr_get buf e) (\<lambda>d.
             if d = 0 then Inr (Some i, e, buf) else Inr (Some i, Suc e, buf[e := 0])))))"

text \<open>The C string at a position.\<close>

definition cstring :: "bytes \<Rightarrow> nat \<Rightarrow> bytes res" where
  "cstring buf i =
     (let str = takeWhile (\<lambda>c. c \<noteq> 0) (drop i buf) in
      if i + length str < length buf then Inr str else Inl OutOfBounds)"

text \<open>\<open>token + k\<close>, read as a string; \<open>token\<close> is null when the line has no further token.\<close>

definition field :: "bytes \<Rightarrow> nat option \<Rightarrow> nat \<Rightarrow> bytes res" where
  "field buf token k = (case token of None \<Rightarrow> Inl Undefined | Some p \<Rightarrow> cstring buf (p + k))"

definition is_space :: "u8 \<Rightarrow> bool" where
  "is_space c \<longleftrightarrow> c = 32 \<or> 9 \<le> c \<and> c \<le> 13"

definition is_digit :: "u8 \<Rightarrow> bool" where
  "is_digit c \<longleftrightarrow> 48 \<le> c \<and> c \<le> 57"

text \<open>The number a decimal conversion reads: sign and digits, if there are any.\<close>

definition scan_number :: "bytes \<Rightarrow> int option" where
  "scan_number str =
     (let str = dropWhile is_space str;
          neg = (str \<noteq> [] \<and> str ! 0 = 45);
          str = (if str \<noteq> [] \<and> (str ! 0 = 45 \<or> str ! 0 = 43) then drop 1 str else str);
          digits = takeWhile is_digit str
      in if digits = [] then None
         else Some (if neg then - int (read_digits digits) else int (read_digits digits)))"

definition to_int :: "int \<Rightarrow> int res" where
  "to_int i = (if - (2 ^ 31) \<le> i \<and> i < 2 ^ 31 then Inr i else Inl Undefined)"

definition atoi :: "bytes \<Rightarrow> int res" where
  "atoi str = (case scan_number str of None \<Rightarrow> Inr 0 | Some i \<Rightarrow> to_int i)"

section \<open>The configuration file\<close>

text \<open>One line: nothing if it is blank, otherwise id, host, replica port and client port.\<close>

definition parse_line :: "bytes \<Rightarrow> ((PID \<times> bytes \<times> PORT \<times> PORT) option \<times> bytes) res" where
  "parse_line buf =
     bindE (strtok buf 0) (\<lambda>(token, save, buf).
       if token = None then Inr (None, buf)
       else
         bindE (bindE (field buf token 3) atoi) (\<lambda>id.
         bindE (strtok buf save) (\<lambda>(token, save, buf).
         bindE (field buf token 5) (\<lambda>host.
         bindE (strtok buf save) (\<lambda>(token, save, buf).
         bindE (bindE (field buf token 5) atoi) (\<lambda>rport.
         bindE (strtok buf save) (\<lambda>(token, save, buf).
         bindE (bindE (field buf token 5) atoi) (\<lambda>cport.
           Inr (Some (word_of_int id, host, word_of_int rport, word_of_int cport), buf)))))))))"

function read_nodes :: "ifstream \<Rightarrow> bytes \<Rightarrow> u32 \<Rightarrow> u32 \<Rightarrow> Nodes \<Rightarrow> Nodes res" where
  "read_nodes s buf added nn ns =
     (if \<not> st_fail s \<and> added < nn then
        (let (s, buf) = getline MAXLINE s buf in
         bindE (parse_line buf) (\<lambda>(r, buf).
           case r of
             None \<Rightarrow> read_nodes s buf added nn ns
           | Some (i, host, rport, cport) \<Rightarrow>
               read_nodes s buf (added + 1) nn (addNode ns i host rport cport)))
      else Inr ns)"
  by pat_completeness auto

text \<open>Every round reads a character or ends the stream.\<close>

definition stream_left :: "ifstream \<Rightarrow> nat" where
  "stream_left s = (if st_fail s then 0 else if st_eof s then 1 else 2 + length (st_rest s))"

lemma getline_progress: "\<not> st_fail s \<Longrightarrow> getline n s buf = (s', buf') \<Longrightarrow> stream_left s' < stream_left s"
  by (auto simp: getline_def stream_left_def Let_def split: if_splits)

termination read_nodes
  by (relation "measure (\<lambda>(s, _). stream_left s)") (auto dest: getline_progress [OF _ sym])

declare read_nodes.simps [simp del]

definition Nodes_file :: "bytes option \<Rightarrow> u32 \<Rightarrow> bytes \<Rightarrow> Nodes res" where
  "Nodes_file file nn oneline = read_nodes (open_file file) oneline 0 nn []"

section \<open>The command lines\<close>

text \<open>\<open>sscanf(argv[k], "%d", &x)\<close>: without a number, \<open>x\<close> keeps its value.\<close>

definition sscanf_d :: "bytes \<Rightarrow> u32 \<Rightarrow> u32 res" where
  "sscanf_d str x = (case scan_number str of None \<Rightarrow> Inr x | Some i \<Rightarrow> bindE (to_int i) (\<lambda>i. Inr (word_of_int i)))"

definition arg_d :: "bytes list \<Rightarrow> nat \<Rightarrow> u32 \<Rightarrow> u32 res" where
  "arg_d argv k x = (if length argv > k then sscanf_d (argv ! k) x else Inr x)"

record server_args =
  sv_myid :: PID
  sv_numFaults :: u32
  sv_constFactor :: u32
  sv_numViews :: u32
  sv_maxBlocksInView :: u32
  sv_byzantine :: u32      \<comment> \<open>an \<open>int\<close>, by default -1\<close>
  sv_numNodes :: u32

definition parse_server_args :: "bytes list \<Rightarrow> server_args res" where
  "parse_server_args argv =
     bindE (arg_d argv 1 0) (\<lambda>myid.
     bindE (arg_d argv 2 1) (\<lambda>numFaults.
     bindE (arg_d argv 3 3) (\<lambda>constFactor.
     bindE (arg_d argv 4 10) (\<lambda>numViews.
     bindE (arg_d argv 6 10) (\<lambda>maxBlocksInView.
     bindE (arg_d argv 8 (- 1)) (\<lambda>byzantine.
       Inr \<lparr>sv_myid = myid, sv_numFaults = numFaults, sv_constFactor = constFactor, sv_numViews = numViews,
         sv_maxBlocksInView = maxBlocksInView, sv_byzantine = byzantine,
         sv_numNodes = constFactor * numFaults + 1\<rparr>))))))"

record client_args =
  ca_cid :: CID
  ca_numFaults :: u32
  ca_constFactor :: u32
  ca_numInstances :: u32
  ca_sleepTime :: u32
  ca_inst :: u32
  ca_maxBlocks :: u32
  ca_numNodes :: u32
  ca_qsize :: u32

text \<open>\<open>maxBlocks\<close> is read from \<open>argv[6]\<close>, under the test for \<open>argv[7]\<close>.\<close>

definition parse_client_args :: "bytes list \<Rightarrow> client_args res" where
  "parse_client_args argv =
     bindE (arg_d argv 1 0) (\<lambda>cid.
     bindE (arg_d argv 2 1) (\<lambda>numFaults.
     bindE (arg_d argv 3 3) (\<lambda>constFactor.
     bindE (arg_d argv 4 1) (\<lambda>numInstances.
     bindE (arg_d argv 5 1) (\<lambda>sleepTime.
     bindE (arg_d argv 6 0) (\<lambda>inst.
     bindE (if length argv > 7 then sscanf_d (argv ! 6) 0 else Inr 0) (\<lambda>maxBlocks.
       let nn = constFactor * numFaults + 1 in
       Inr \<lparr>ca_cid = cid, ca_numFaults = numFaults, ca_constFactor = constFactor, ca_numInstances = numInstances,
         ca_sleepTime = sleepTime, ca_inst = inst, ca_maxBlocks = maxBlocks,
         ca_numNodes = nn, ca_qsize = nn - numFaults\<rparr>)))))))"

end
