(* ===== verification/ConfigProps.thy ===== *)
theory ConfigProps
  imports Config BasicProps
begin

text \<open>
  What start-up computes: the node table from a well-formed configuration file (the format
  that \<open>experiments.py\<close> writes), and the sizes of quorums from the command lines.
\<close>

section \<open>Numbers\<close>

lemma dec_digits_digits: "c \<in> set (dec_digits n) \<Longrightarrow> is_digit c"
proof (induction n rule: dec_digits.induct)
  case (1 n)
  have "is_digit (word_of_nat (48 + d))" if "d < 10" for d
    using that unfolding is_digit_def word_le_nat_alt by (simp add: unat_digit del: of_nat_add)
  then show ?case using 1 by (cases "n < 10") (auto simp: dec_digits_small dec_digits_big simp del: of_nat_add)
qed

lemma dec_digits_nonempty [simp]: "dec_digits n \<noteq> []"
  by (cases "n < 10") (simp_all add: dec_digits_small dec_digits_big)

lemma digit_not: "is_digit c \<Longrightarrow> \<not> is_space c \<and> c \<noteq> 45 \<and> c \<noteq> 43 \<and> c \<noteq> 0 \<and> c \<noteq> 10 \<and> c \<noteq> 32"
  by (auto simp: is_digit_def is_space_def word_le_nat_alt)

lemma scan_dec_digits: "scan_number (dec_digits n) = Some (int n)"
proof -
  obtain c cs where d: "dec_digits n = c # cs" by (cases "dec_digits n") auto
  then have "is_digit c" using dec_digits_digits [of c n] by simp
  from digit_not [OF this] have c: "\<not> is_space c" "c \<noteq> 45" "c \<noteq> 43" by auto
  then have drop: "dropWhile is_space (dec_digits n) = dec_digits n" by (simp add: d)
  have "takeWhile is_digit (dec_digits n) = dec_digits n"
    by (rule takeWhile_eq_all_conv [THEN iffD2]) (use dec_digits_digits in blast)
  with c show ?thesis unfolding scan_number_def drop by (simp add: Let_def d read_dec_digits [of n, unfolded d])
qed

lemma atoi_to_string: "(w :: u32) < 2 ^ 31 \<Longrightarrow> atoi (to_string w) = Inr (uint w)"
  by (simp add: atoi_def to_string_def scan_dec_digits to_int_def word_less_def order_trans [OF _ uint_ge_0])

section \<open>Tokens\<close>

definition token_ok :: "bytes \<Rightarrow> bool" where
  "token_ok T \<longleftrightarrow> T \<noteq> [] \<and> (\<forall>c\<in>set T. c \<noteq> 32 \<and> c \<noteq> 0 \<and> c \<noteq> 10)"

lemma token_ok_to_string: "token_ok (T @ to_string w)" if "\<forall>c\<in>set T. c \<noteq> 32 \<and> c \<noteq> 0 \<and> c \<noteq> 10"
  using that dec_digits_digits digit_not by (fastforce simp: token_ok_def to_string_def)

lemma strtok_token:
  assumes "token_ok T" and "d = 32 \<or> d = 0"
  shows "strtok (pre @ T @ d # rest) (length pre) =
    Inr (if d = 0 then (Some (length pre), length pre + length T, pre @ T @ d # rest)
         else (Some (length pre), Suc (length pre + length T), pre @ T @ 0 # rest))"
proof -
  obtain c cs where T: "T = c # cs" "c \<noteq> 32" "c \<noteq> 0" using assms(1) by (cases T) (auto simp: token_ok_def)
  have 1: "takeWhile (\<lambda>c. c = 32) (drop (length pre) (pre @ T @ d # rest)) = []" using T by simp
  have "\<forall>c\<in>set T. c \<noteq> 32 \<and> c \<noteq> 0" using assms(1) by (simp add: token_ok_def)
  then have 2: "takeWhile (\<lambda>c. c \<noteq> 32 \<and> c \<noteq> 0) (drop (length pre) (pre @ T @ d # rest)) = T"
    using assms(2) by (auto simp: takeWhile_append)
  have 3: "arr_get (pre @ T @ d # rest) (length pre) = Inr c" using T by simp
  have 4: "arr_get (pre @ T @ d # rest) (length pre + length T) = Inr d" by (simp add: arr_get_def nth_append)
  have 5: "(pre @ T @ d # rest)[length pre + length T := 0] = pre @ T @ 0 # rest" by (simp add: list_update_append)
  show ?thesis using T(3) assms(2) unfolding strtok_def Let_def 1 list.size add_0_right 3 bindE_simps 2 4 5 by auto
qed

lemma field_token:
  assumes "token_ok T" and "k \<le> length T"
  shows "field (pre @ T @ 0 # rest) (Some (length pre)) k = Inr (drop k T)"
proof -
  have "\<forall>c\<in>set (drop k T). c \<noteq> 0" using assms(1) by (auto simp: token_ok_def dest: in_set_dropD)
  then have "takeWhile (\<lambda>c. c \<noteq> 0) (drop k T @ 0 # rest) = drop k T" by (auto simp: takeWhile_append)
  with assms(2) show ?thesis by (simp add: field_def cstring_def Let_def)
qed

section \<open>A line of the file\<close>

type_synonym entry = "PID \<times> bytes \<times> PORT \<times> PORT"

text \<open>\<open>"id:" + str(i) + " host:" + host + " port:" + str(rport) + " port:" + str(cport)\<close>\<close>

fun cfg_line :: "entry \<Rightarrow> bytes" where
  "cfg_line (i, host, r, c) =
     ([105, 100, 58] @ to_string i) @ 32 # ([104, 111, 115, 116, 58] @ host) @
     32 # ([112, 111, 114, 116, 58] @ to_string r) @ 32 # ([112, 111, 114, 116, 58] @ to_string c)"

fun entry_ok :: "entry \<Rightarrow> bool" where
  "entry_ok (i, host, r, c) \<longleftrightarrow>
     i < 2 ^ 31 \<and> r < 2 ^ 31 \<and> c < 2 ^ 31 \<and>
     (\<forall>b\<in>set host. b \<noteq> 32 \<and> b \<noteq> 0 \<and> b \<noteq> 10) \<and> length (cfg_line (i, host, r, c)) < MAXLINE"

definition cfg_file :: "entry list \<Rightarrow> bytes" where
  "cfg_file es = concat (map (\<lambda>e. cfg_line e @ [10]) es)"

lemma parse_cfg_line:
  assumes "entry_ok e"
  shows "\<exists>buf'. parse_line (cfg_line e @ 0 # rest) = Inr (Some e, buf')"
proof -
  obtain i host r c where e: "e = (i, host, r, c)" by (cases e)
  define T1 T2 T3 T4 where T: "T1 = [105, 100, 58] @ to_string i" "T2 = [104, 111, 115, 116, 58] @ host"
    "T3 = [112, 111, 114, 116, 58] @ to_string r" "T4 = [112, 111, 114, 116, 58] @ to_string c"
  have host: "\<forall>b\<in>set host. b \<noteq> 32 \<and> b \<noteq> 0 \<and> b \<noteq> 10" and num: "i < 2 ^ 31" "r < 2 ^ 31" "c < 2 ^ 31"
    using assms e by auto
  have ok: "token_ok T1" "token_ok T2" "token_ok T3" "token_ok T4"
  proof -
    show "token_ok T1" "token_ok T3" "token_ok T4" unfolding T by (rule token_ok_to_string; simp)+
    show "token_ok T2" using host by (auto simp: token_ok_def T(2))
  qed
  have k: "3 \<le> length T1" "5 \<le> length T2" "5 \<le> length T3" "5 \<le> length T4" by (simp_all add: T)
  let ?b0 = "T1 @ 32 # T2 @ 32 # T3 @ 32 # T4 @ 0 # rest"
  let ?p1 = "T1 @ [0]" let ?p2 = "T1 @ 0 # T2 @ [0]" let ?p3 = "T1 @ 0 # T2 @ 0 # T3 @ [0]"
  let ?b1 = "T1 @ 0 # T2 @ 32 # T3 @ 32 # T4 @ 0 # rest"
  let ?b2 = "T1 @ 0 # T2 @ 0 # T3 @ 32 # T4 @ 0 # rest"
  let ?b3 = "T1 @ 0 # T2 @ 0 # T3 @ 0 # T4 @ 0 # rest"
  have s1: "strtok ?b0 0 = Inr (Some 0, length ?p1, ?b1)"
    using strtok_token [OF ok(1), of 32 "[]" "T2 @ 32 # T3 @ 32 # T4 @ 0 # rest"] by simp
  have s2: "strtok ?b1 (length ?p1) = Inr (Some (length ?p1), length ?p2, ?b2)"
    using strtok_token [OF ok(2), of 32 ?p1 "T3 @ 32 # T4 @ 0 # rest"] by simp
  have s3: "strtok ?b2 (length ?p2) = Inr (Some (length ?p2), length ?p3, ?b3)"
    using strtok_token [OF ok(3), of 32 ?p2 "T4 @ 0 # rest"] by simp
  have s4: "strtok ?b3 (length ?p3) = Inr (Some (length ?p3), length ?p3 + length T4, ?b3)"
    using strtok_token [OF ok(4), of 0 ?p3 rest] by simp
  have f1: "field ?b1 (Some 0) 3 = Inr (to_string i)"
    using field_token [OF ok(1) k(1), of "[]" "T2 @ 32 # T3 @ 32 # T4 @ 0 # rest"] by (simp add: T(1))
  have f2: "field ?b2 (Some (length ?p1)) 5 = Inr host"
    using field_token [OF ok(2) k(2), of ?p1 "T3 @ 32 # T4 @ 0 # rest"] by (simp add: T(2))
  have f3: "field ?b3 (Some (length ?p2)) 5 = Inr (to_string r)"
    using field_token [OF ok(3) k(3), of ?p2 "T4 @ 0 # rest"] by (simp add: T(3))
  have f4: "field ?b3 (Some (length ?p3)) 5 = Inr (to_string c)"
    using field_token [OF ok(4) k(4), of ?p3 rest] by (simp add: T(4))
  have "cfg_line e @ 0 # rest = ?b0" by (simp add: e T)
  moreover have "parse_line ?b0 = Inr (Some (i, host, r, c), ?b3)"
    using num unfolding parse_line_def
    by (simp only: s1 s2 s3 s4 f1 f2 f3 f4 bindE_simps prod.case option.distinct if_False atoi_to_string
        word_of_int_uint)
  ultimately show ?thesis by (simp add: e)
qed

section \<open>The file\<close>

lemma cfg_line_no_newline: "entry_ok e \<Longrightarrow> b \<in> set (cfg_line e) \<Longrightarrow> b \<noteq> 10"
  using token_ok_to_string [of "[]"] by (cases e) (auto simp: token_ok_def)

lemma getline_cfg:
  assumes "entry_ok e"
  shows "getline MAXLINE \<lparr>st_rest = cfg_line e @ 10 # zs, st_eof = False, st_fail = False\<rparr> buf =
    (\<lparr>st_rest = zs, st_eof = False, st_fail = False\<rparr>, cfg_line e @ 0 # drop (Suc (length (cfg_line e))) buf)"
proof -
  have t: "takeWhile (\<lambda>c. c \<noteq> 10) (cfg_line e @ 10 # zs) = cfg_line e"
    using cfg_line_no_newline [OF assms] by (auto simp: takeWhile_append)
  have l: "length (cfg_line e) < MAXLINE" using assms by (cases e) simp
  then have "take (MAXLINE - 1) (cfg_line e) = cfg_line e" "\<not> MAXLINE - 1 < length (cfg_line e)" by simp_all
  then show ?thesis unfolding getline_def Let_def by (simp del: cfg_line.simps add: t)
qed

lemma read_nodes_cfg:
  "\<forall>e\<in>set es. entry_ok e \<Longrightarrow> added \<le> n \<Longrightarrow>
   read_nodes \<lparr>st_rest = cfg_file es, st_eof = False, st_fail = False\<rparr> buf added n ns =
     Inr (fold (\<lambda>(i, host, r, c) ns. addNode ns i host r c) (take (unat n - unat added) es) ns)"
proof (induction es arbitrary: buf added ns)
  case Nil
  have "parse_line (0 # b) = Inr (None, 0 # b)" for b
    by (simp add: parse_line_def strtok_def arr_get_def)
  moreover have "read_nodes s b added n ns = Inr ns" if "st_fail s" for s b
    using that by (simp add: read_nodes.simps)
  ultimately show ?case
    by (subst read_nodes.simps) (simp add: cfg_file_def getline_def Let_def)
next
  case (Cons e es)
  show ?case
  proof (cases "added < n")
    case True
    obtain i host r c where e: "e = (i, host, r, c)" by (cases e)
    have "entry_ok e" using Cons.prems(1) by simp
    note g = getline_cfg [OF this, of "cfg_file es" buf] and p = parse_cfg_line [OF this]
    obtain buf' where buf': "parse_line (cfg_line e @ 0 # drop (Suc (length (cfg_line e))) buf) = Inr (Some (i, host, r, c), buf')"
      using p [of "drop (Suc (length (cfg_line e))) buf"] e by blast
    have u: "unat (added + 1) = Suc (unat added)" using True by (intro unat_Suc_word) auto
    have "added + 1 \<le> n" using True u by (simp add: word_le_nat_alt word_less_nat_alt)
    note IH = Cons.IH [OF _ this, of buf' "addNode ns i host r c"]
    have "cfg_file (e # es) = cfg_line e @ 10 # cfg_file es" by (simp add: cfg_file_def)
    moreover have "unat n - unat added = Suc (unat n - unat (added + 1))"
      using True u by (simp add: word_less_nat_alt)
    ultimately show ?thesis
      using True IH Cons.prems(1) by (subst read_nodes.simps) (simp add: g [unfolded e] buf' [unfolded e] e del: cfg_line.simps)
  next
    case False
    then have "added = n" using Cons.prems(2) by simp
    then show ?thesis by (subst read_nodes.simps) simp
  qed
qed

section \<open>Properties\<close>

text \<open>
  C29. The configuration file is read back. For a file in the format that \<open>experiments.py\<close> writes,
  one line per node of at most 255 characters, with hosts without blanks and numbers
  below 2 ^ 31, and whatever the line buffer holds at first, the constructor returns the table
  with the first \<open>n\<close> entries of the file, under their ids, a later line replacing an
  earlier one of the same id.
\<close>

theorem Nodes_file_roundtrip:
  assumes "\<forall>e\<in>set es. entry_ok e"
  shows "Nodes_file (Some (cfg_file es)) n buf =
    Inr (fold (\<lambda>(i, host, r, c) ns. addNode ns i host r c) (take (unat n) es) [])"
  using read_nodes_cfg [OF assms, of 0 n buf "[]"] by (simp add: Nodes_file_def open_file_def)

text \<open>The first line of the file \<open>config\<close> of the repository.\<close>

theorem Nodes_file_roundtrip_witness:
  "Nodes_file (Some (cfg_file [(0, [49, 55, 50, 46, 49, 55, 46, 48, 46, 50], 8760, 9760)])) 4 (replicate MAXLINE 7) =
     Inr (addNode [] 0 [49, 55, 50, 46, 49, 55, 46, 48, 46, 50] 8760 9760)"
proof -
  have "length (to_string (0 :: u32)) = 1" "length (to_string (8760 :: u32)) = 4" "length (to_string (9760 :: u32)) = 4"
    by (simp_all add: to_string_def dec_digits_small dec_digits_big)
  then show ?thesis by (subst Nodes_file_roundtrip) (simp_all add: MAXLINE_def)
qed

text \<open>
  A line with too few fields. \<open>strtok\<close> returns a null pointer for a missing field, which the
  constructor does not test: a first line that holds a single word (and a number the
  conversion accepts) makes it use the null pointer.
\<close>

theorem Nodes_file_null_field:
  assumes "T \<noteq> []" and "\<forall>c\<in>set T. c \<noteq> 32 \<and> c \<noteq> 0 \<and> c \<noteq> 10" and "3 \<le> length T" and "length T < MAXLINE"
    and "atoi (drop 3 T) = Inr i" and "0 < n"
  shows "Nodes_file (Some (T @ 10 # zs)) n buf = Inl Undefined"
proof -
  have T: "token_ok T" using assms(1,2) by (simp add: token_ok_def)
  have t: "takeWhile (\<lambda>c. c \<noteq> 10) (T @ 10 # zs) = T" using assms(2) by (auto simp: takeWhile_append)
  have g: "getline MAXLINE \<lparr>st_rest = T @ 10 # zs, st_eof = False, st_fail = False\<rparr> buf =
      (\<lparr>st_rest = zs, st_eof = False, st_fail = False\<rparr>, T @ 0 # drop (Suc (length T)) buf)"
    using assms(4) unfolding getline_def Let_def by (simp add: t)
  have s1: "strtok (T @ 0 # b) 0 = Inr (Some 0, length T, T @ 0 # b)" for b
    using strtok_token [OF T, of 0 "[]"] by simp
  have f1: "cstring (T @ 0 # b) 3 = Inr (drop 3 T)" for b
    using field_token [OF T assms(3), of "[]"] by (simp add: field_def)
  have s2: "strtok (T @ 0 # b) (length T) = Inr (None, length T, T @ 0 # b)" for b
    by (simp add: strtok_def arr_get_def)
  have "parse_line (T @ 0 # b) = Inl Undefined" for b
    by (simp add: parse_line_def s1 f1 assms(5) s2 field_def)
  then show ?thesis
    using assms(6) unfolding Nodes_file_def open_file_def by (subst read_nodes.simps) (simp add: g)
qed

theorem Nodes_file_null_field_witness:
  "Nodes_file (Some ([105, 100, 58, 49] @ 10 # [])) 4 (replicate MAXLINE 7) = Inl Undefined"
proof (rule Nodes_file_null_field)
  show "atoi (drop 3 [105, 100, 58, 49]) = Inr 1" by code_simp
qed (simp_all add: MAXLINE_def)

text \<open>
  C28. The client waits for the quorum of the replicas. A client and a replica that are given the
  same number of faults and the same factor compute the same quorum size, the one that the
  replica's handler uses. If the factor is at least 3 and \<open>constFactor * numFaults + 1\<close> does not wrap,
  \<open>2 * qsize - numNodes\<close> exceeds the number of faults, so any two quorums have a correct
  node in common.
\<close>

theorem client_waits_for_quorum:
  assumes "parse_client_args argc = Inr a" and "parse_server_args args = Inr b"
    and "ca_numFaults a = sv_numFaults b" and "ca_constFactor a = sv_constFactor b"
    and "Handler_new C (sv_myid b) (sv_constFactor b) (sv_numFaults b) (sv_numViews b) ns k
           (sv_maxBlocksInView b) fo bz = Inr h"
    and "unat (sv_constFactor b) * unat (sv_numFaults b) + 1 < 2 ^ 32" and "3 \<le> unat (sv_constFactor b)"
  shows "ca_qsize a = h_qsize h \<and> ca_numNodes a = sv_numNodes b \<and>
    unat (ca_numNodes a) + unat (sv_numFaults b) < 2 * unat (ca_qsize a) \<and> ca_qsize a \<noteq> 0"
proof -
  let ?c = "sv_constFactor b" and ?f = "sv_numFaults b"
  have a: "ca_numNodes a = ?c * ?f + 1" "ca_qsize a = ?c * ?f + 1 - ?f" and b: "sv_numNodes b = ?c * ?f + 1"
    using assms(1-4) by (auto simp: parse_client_args_def parse_server_args_def bindE_Inr_iff Let_def)
  have u: "unat (?c * ?f + 1) = unat ?c * unat ?f + 1"
    using assms(6) by (simp add: unat_word_ariths)
  have f3: "3 * unat ?f \<le> unat ?c * unat ?f" using assms(7) by simp
  then have "unat ?f \<le> unat ?c * unat ?f + 1" by linarith
  then have "?f \<le> ?c * ?f + 1" using u by (simp only: word_le_nat_alt)
  then have q: "unat (?c * ?f + 1 - ?f) = unat ?c * unat ?f + 1 - unat ?f" using u by (simp add: unat_sub)
  moreover have "0 < unat ?c * unat ?f + 1 - unat ?f" using f3 by linarith
  then have "0 < unat (ca_qsize a)" using q a(2) by (simp only:)
  then have "ca_qsize a \<noteq> 0" by (simp add: unat_gt_0)
  moreover have "unat ?c * unat ?f + 1 + unat ?f < 2 * (unat ?c * unat ?f + 1 - unat ?f)" using f3 by linarith
  ultimately show ?thesis using a b u Handler_new_facts(12) [OF assms(5)] by simp
qed

text \<open>Both programs started without arguments: four nodes, one fault, quorums of three.\<close>

lemma default_args:
  "parse_client_args [[]] = Inr \<lparr>ca_cid = 0, ca_numFaults = 1, ca_constFactor = 3, ca_numInstances = 1,
     ca_sleepTime = 1, ca_inst = 0, ca_maxBlocks = 0, ca_numNodes = 4, ca_qsize = 3\<rparr>"
  "parse_server_args [[]] = Inr \<lparr>sv_myid = 0, sv_numFaults = 1, sv_constFactor = 3, sv_numViews = 10,
     sv_maxBlocksInView = 10, sv_byzantine = - 1, sv_numNodes = 4\<rparr>"
  by (simp_all add: parse_client_args_def parse_server_args_def arg_d_def)

theorem client_waits_for_quorum_witness:
  "\<exists>a b h. parse_client_args [[]] = Inr a \<and> parse_server_args [[]] = Inr b \<and>
     Handler_new crypto_yes (sv_myid b) 3 1 10 [] 5 10 (\<lambda>_. False) 0 = Inr h \<and> ca_qsize a = h_qsize h \<and> ca_qsize a = 3"
proof -
  obtain h where "Handler_new crypto_yes 0 3 1 10 [] 5 10 (\<lambda>_. False) 0 = Inr h" using Handler_new_total by blast
  with client_waits_for_quorum [OF default_args, of crypto_yes "[]" 5 "\<lambda>_. False" 0 h] show ?thesis
    by (simp add: default_args)
qed

text \<open>
  The client's seventh argument is ignored: when \<open>argv[7]\<close> is given and \<open>argv[6]\<close> is a number, the
  maximum of blocks is the instance number of \<open>argv[6]\<close>.
\<close>

theorem client_maxBlocks_is_instance:
  assumes "parse_client_args argv = Inr a" and "7 < length argv" and "scan_number (argv ! 6) \<noteq> None"
  shows "ca_maxBlocks a = ca_inst a"
  using assms by (auto simp: parse_client_args_def arg_d_def sscanf_d_def bindE_Inr_iff Let_def split: option.splits)

theorem client_maxBlocks_is_instance_witness:
  "\<exists>a. parse_client_args [[], [48], [49], [51], [49], [49], [53], [57]] = Inr a \<and> ca_maxBlocks a = ca_inst a \<and> ca_inst a = 5"
proof -
  have n: "scan_number [48] = Some 0" "scan_number [49] = Some 1" "scan_number [51] = Some 3" "scan_number [53] = Some 5"
    by code_simp+
  then obtain a where "parse_client_args [[], [48], [49], [51], [49], [49], [53], [57]] = Inr a" "ca_inst a = 5"
    by (simp add: parse_client_args_def arg_d_def sscanf_d_def to_int_def)
  with client_maxBlocks_is_instance [OF this(1)] n show ?thesis by simp
qed

end
