(* ===== verification/Doubles.thy ===== *)
theory Doubles
  imports Prelude "HOL-Library.Log_Nat" Complex_Main
begin

text \<open>
  The type \<open>double\<close> of the program: IEEE 754 binary64 with rounding to nearest, ties to even, as
  the supported compilers implement it. A finite number is a sign, a significand below \<open>2 ^ 53\<close> and an
  exponent; the other values are the infinities and not-a-number. Only the operations that the
  statistics use are modelled: sum, product, quotient, comparison, conversions from and to
  integers, \<open>std::to_string\<close>. Whole numbers below \<open>2 ^ 53\<close> are exact, and so are their sums below it.
\<close>

section \<open>Values and rounding\<close>

datatype double = D_nan | D_inf bool | D_fin bool nat int

text \<open>
  The double next to \<open>n / d\<close>. The first exponent is the one with a quotient of 53 or 54 bits, or
  the least exponent; it is raised if the quotient has 54. The significand is rounded, and a carry out of the 53 bits is
  moved to the exponent.
\<close>

definition quot_exp :: "nat \<Rightarrow> nat \<Rightarrow> int" where
  "quot_exp n d =
     (let e = max (int (floorlog 2 n) - int (floorlog 2 d) - 53) (- 1074) in
      if d * 2 ^ nat (53 + e) \<le> n * 2 ^ nat (- 53 - e) then e + 1 else e)"

definition round_half_even :: "nat \<Rightarrow> nat \<Rightarrow> nat" where
  "round_half_even n d =
     (if 2 * (n mod d) < d \<or> 2 * (n mod d) = d \<and> even (n div d) then n div d else n div d + 1)"

definition round_quot :: "bool \<Rightarrow> nat \<Rightarrow> nat \<Rightarrow> double" where
  "round_quot s n d =
     (if n = 0 then D_fin s 0 (- 1074) else
      (let e = quot_exp n d;
           m = round_half_even (n * 2 ^ nat (- e)) (d * 2 ^ nat e);
           (m, e) = (if m = 2 ^ 53 then (2 ^ 52, e + 1) else (m, e))
       in if e > 971 then D_inf s else D_fin s m e))"

section \<open>Operations\<close>

definition d_of_nat :: "nat \<Rightarrow> double" where
  "d_of_nat n = round_quot False n 1"

definition d_of_int :: "int \<Rightarrow> double" where
  "d_of_int i = round_quot (i < 0) (nat \<bar>i\<bar>) 1"

definition d_of_u32 :: "u32 \<Rightarrow> double" where
  "d_of_u32 w = d_of_nat (unat w)"

text \<open>The significand with its sign, in units of \<open>2 ^ k\<close> for a \<open>k\<close> that is at most the exponent.\<close>

definition scaled :: "bool \<Rightarrow> nat \<Rightarrow> int \<Rightarrow> int \<Rightarrow> int" where
  "scaled s m e k = (if s then - 1 else 1) * int m * 2 ^ nat (e - k)"

fun d_add :: "double \<Rightarrow> double \<Rightarrow> double" where
  "d_add (D_fin s m e) (D_fin t n f) =
     (let k = min e f; i = scaled s m e k + scaled t n f k in
      if i = 0 then D_fin (s \<and> t) 0 (- 1074)
      else round_quot (i < 0) (nat \<bar>i\<bar> * 2 ^ nat k) (2 ^ nat (- k)))"
| "d_add (D_inf s) (D_inf t) = (if s = t then D_inf s else D_nan)"
| "d_add (D_inf s) (D_fin t n f) = D_inf s"
| "d_add (D_fin s m e) (D_inf t) = D_inf t"
| "d_add D_nan y = D_nan"
| "d_add x D_nan = D_nan"

fun d_mul :: "double \<Rightarrow> double \<Rightarrow> double" where
  "d_mul (D_fin s m e) (D_fin t n f) =
     round_quot (s \<noteq> t) (m * n * 2 ^ nat (e + f)) (2 ^ nat (- (e + f)))"
| "d_mul (D_inf s) (D_inf t) = D_inf (s \<noteq> t)"
| "d_mul (D_inf s) (D_fin t n f) = (if n = 0 then D_nan else D_inf (s \<noteq> t))"
| "d_mul (D_fin s m e) (D_inf t) = (if m = 0 then D_nan else D_inf (s \<noteq> t))"
| "d_mul D_nan y = D_nan"
| "d_mul x D_nan = D_nan"

fun d_div :: "double \<Rightarrow> double \<Rightarrow> double" where
  "d_div (D_fin s m e) (D_fin t n f) =
     (if n = 0 then (if m = 0 then D_nan else D_inf (s \<noteq> t))
      else round_quot (s \<noteq> t) (m * 2 ^ nat (e - f)) (n * 2 ^ nat (f - e)))"
| "d_div (D_inf s) (D_inf t) = D_nan"
| "d_div (D_inf s) (D_fin t n f) = D_inf (s \<noteq> t)"
| "d_div (D_fin s m e) (D_inf t) = D_fin (s \<noteq> t) 0 (- 1074)"
| "d_div D_nan y = D_nan"
| "d_div x D_nan = D_nan"

text \<open>The operator \<open><\<close>: false as soon as one side is not a number; the zeros are equal.\<close>

fun d_less :: "double \<Rightarrow> double \<Rightarrow> bool" where
  "d_less (D_fin s m e) (D_fin t n f) \<longleftrightarrow> scaled s m e (min e f) < scaled t n f (min e f)"
| "d_less (D_inf s) (D_inf t) \<longleftrightarrow> s \<and> \<not> t"
| "d_less (D_inf s) (D_fin t n f) \<longleftrightarrow> s"
| "d_less (D_fin s m e) (D_inf t) \<longleftrightarrow> \<not> t"
| "d_less D_nan y \<longleftrightarrow> False"
| "d_less x D_nan \<longleftrightarrow> False"

text \<open>The conversion to \<open>unsigned int\<close> cuts off the fraction and is undefined outside the range.\<close>

fun d_to_u32 :: "double \<Rightarrow> u32 res" where
  "d_to_u32 (D_fin s m e) =
     (let n = m * 2 ^ nat e div 2 ^ nat (- e) in
      if n < 2 ^ 32 \<and> (s \<longrightarrow> n = 0) then Inr (word_of_nat n) else Inl Undefined)"
| "d_to_u32 (D_inf s) = Inl Undefined"
| "d_to_u32 D_nan = Inl Undefined"

text \<open>
  \<open>std::to_string\<close>, the format \<open>%f\<close>: six decimals of the exact value, rounded. What is
  written for not-a-number (\<open>nan\<close> or \<open>-nan\<close>) depends on the processor and is a parameter.
\<close>

definition six_digits :: "nat \<Rightarrow> bytes" where
  "six_digits n = map (\<lambda>k. word_of_nat (48 + n div 10 ^ k mod 10)) [5, 4, 3, 2, 1, 0]"

fun d_to_string :: "bytes \<Rightarrow> double \<Rightarrow> bytes" where
  "d_to_string nan (D_fin s m e) =
     (let n = round_half_even (m * 2 ^ nat e * 10 ^ 6) (2 ^ nat (- e)) in
      (if s then [45] else []) @ dec_digits (n div 10 ^ 6) @ [46] @ six_digits (n mod 10 ^ 6))"
| "d_to_string nan (D_inf s) = (if s then [45] else []) @ [105, 110, 102]"
| "d_to_string nan D_nan = nan"

section \<open>Rounding is to the nearest\<close>

definition double_ok :: "double \<Rightarrow> bool" where
  "double_ok x \<longleftrightarrow> (case x of D_fin s m e \<Rightarrow> m < 2 ^ 53 \<and> - 1074 \<le> e \<and> e \<le> 971 \<and> (m < 2 ^ 52 \<longrightarrow> e = - 1074) | _ \<Rightarrow> True)"

lemma round_half_even_near: "0 < d \<Longrightarrow> 2 * \<bar>int (round_half_even n d * d) - int n\<bar> \<le> int d"
proof -
  assume d: "0 < d"
  have n: "int n = int (n div d) * int d + int (n mod d)" by (metis div_mult_mod_eq of_nat_add of_nat_mult)
  have "n mod d < d" using d by simp
  then show ?thesis using n by (auto simp: round_half_even_def algebra_simps)
qed

lemma round_half_even_exact [simp]: "0 < d \<Longrightarrow> round_half_even (n * d) d = n"
  by (simp add: round_half_even_def)

lemma round_half_even_scale: "0 < c \<Longrightarrow> round_half_even (n * c) (d * c) = round_half_even n d"
  by (simp add: round_half_even_def mult.assoc [symmetric] flip: mult_mod_left)

lemma quot_exp_scale: "0 < n \<Longrightarrow> 0 < d \<Longrightarrow> quot_exp (n * 2 ^ j) (d * 2 ^ j) = quot_exp n d"
  by (simp add: quot_exp_def Let_def mult.commute mult.left_commute)

lemma round_quot_scale: "0 < d \<Longrightarrow> round_quot s (n * 2 ^ j) (d * 2 ^ j) = round_quot s n d"
proof (cases "n = 0")
  case False
  assume "0 < d"
  moreover have "n * 2 ^ j * 2 ^ k = n * 2 ^ k * 2 ^ j" for n k :: nat by simp
  ultimately show ?thesis
    using False by (simp only: round_quot_def quot_exp_scale round_half_even_scale Let_def
        zero_less_power zero_less_numeral mult_eq_0_iff power_eq_0_iff) simp
qed (simp add: round_quot_def)

text \<open>The double next to a quotient, as a real number, and the bounds of its significand.\<close>

lemma powi_nat: "(2 :: real) powi e = 2 ^ nat e / 2 ^ nat (- e)"
  by (cases "0 \<le> e") (auto simp: power_int_def field_simps)

lemma quot_exp_cond:
  assumes "0 < d"
  shows "d * 2 ^ nat (53 + e) \<le> n * 2 ^ nat (- 53 - e) \<longleftrightarrow> (2 :: real) powi (53 + e) \<le> real n / real d"
proof -
  have p: "(2 :: real) powi (53 + e) = 2 ^ nat (53 + e) / 2 ^ nat (- 53 - e)" by (simp add: powi_nat)
  have "(2 :: real) powi (53 + e) \<le> real n / real d \<longleftrightarrow> real d * 2 ^ nat (53 + e) \<le> real n * 2 ^ nat (- 53 - e)"
    unfolding p using assms by (simp add: pos_le_divide_eq pos_divide_le_eq mult.commute)
  also have "\<dots> \<longleftrightarrow> d * 2 ^ nat (53 + e) \<le> n * 2 ^ nat (- 53 - e)"
    by (simp flip: of_nat_le_iff [where 'a = real])
  finally show ?thesis by simp
qed

lemma floorlog_real:
  assumes n: "0 < n"
  shows "(2 :: real) powi (int (floorlog 2 n) - 1) \<le> real n" and "real n < 2 powi int (floorlog 2 n)"
proof -
  have b: "2 ^ (floorlog 2 n - 1) \<le> n" "n < 2 ^ floorlog 2 n" using floorlog_bounds [where b = 2 and x = n] n by simp_all
  have "0 < floorlog 2 n" using n by (intro gr0I) (simp add: floorlog_eq_zero_iff)
  then have e: "int (floorlog 2 n) - 1 = int (floorlog 2 n - 1)" by simp
  have "real (2 ^ (floorlog 2 n - 1)) \<le> real n" using b(1) by (rule of_nat_mono)
  then show "(2 :: real) powi (int (floorlog 2 n) - 1) \<le> real n" by (simp only: e power_int_of_nat of_nat_power of_nat_numeral)
  have "real n < real (2 ^ floorlog 2 n)" using b(2) by (simp only: of_nat_less_iff)
  then show "real n < 2 powi int (floorlog 2 n)" by (simp only: power_int_of_nat of_nat_power of_nat_numeral)
qed

lemma quot_exp_bounds:
  assumes n: "0 < n" and d: "0 < d" and e: "e = quot_exp n d"
  shows "real n / real d < 2 powi (53 + e) \<and> - 1074 \<le> e \<and> (e = - 1074 \<or> 2 powi (52 + e) \<le> real n / real d)"
proof -
  let ?x = "real n / real d" and ?k = "int (floorlog 2 n) - int (floorlog 2 d)"
  note N = floorlog_real [OF n] and D = floorlog_real [OF d]
  have up: "?x < 2 powi (?k + 1)"
  proof -
    have "?x \<le> real n / 2 powi (int (floorlog 2 d) - 1)" using D(1) d by (intro divide_left_mono) simp_all
    also have "\<dots> < 2 powi int (floorlog 2 n) / 2 powi (int (floorlog 2 d) - 1)" using N(2) by (intro divide_strict_right_mono) simp_all
    finally show ?thesis by (simp add: power_int_diff power_int_add)
  qed
  have low: "2 powi (?k - 1) \<le> ?x"
  proof -
    have "(2 :: real) powi (?k - 1) = 2 powi (int (floorlog 2 n) - 1) / 2 powi int (floorlog 2 d)"
      by (simp add: power_int_diff)
    also have "\<dots> \<le> real n / 2 powi int (floorlog 2 d)" using N(1) by (intro divide_right_mono) simp_all
    also have "\<dots> \<le> ?x" using D(2) d by (intro divide_left_mono) simp_all
    finally show ?thesis .
  qed
  let ?e = "max (?k - 53) (- 1074)"
  have e: "e = (if 2 powi (53 + ?e) \<le> ?x then ?e + 1 else ?e)"
    using e by (simp add: quot_exp_def Let_def quot_exp_cond [OF d])
  have "(2 :: real) powi (?k + 1) \<le> 2 powi (54 + ?e)" by (rule power_int_increasing) auto
  with up have x: "?x < 2 powi (54 + ?e)" by linarith
  have "?e = - 1074 \<or> 52 + ?e = ?k - 1" by auto
  with low have "?e = - 1074 \<or> 2 powi (52 + ?e) \<le> ?x" by auto
  with x show ?thesis unfolding e by (auto simp: add.assoc [symmetric] ac_simps)
qed

lemma scaled_quot:
  assumes "0 < d"
  shows "real (n * 2 ^ nat (- e)) / real (d * 2 ^ nat e) = real n / real d / 2 powi e"
  using assms by (simp add: powi_nat field_simps)

text \<open>
  A finite result is at most half a unit of its last place away from the exact quotient, and it is
  a well-formed double.
\<close>

lemma round_quot_near:
  assumes d: "0 < d" and r: "round_quot s n d = D_fin t m e"
  shows "t = s \<and> double_ok (D_fin t m e) \<and> 2 * \<bar>real m * 2 powi e - real n / real d\<bar> \<le> 2 powi e"
proof (cases "n = 0")
  case False
  define k where "k = quot_exp n d"
  define q where "q = round_half_even (n * 2 ^ nat (- k)) (d * 2 ^ nat k)"
  define x where "x = real n / real d / 2 powi k"
  note b = quot_exp_bounds [of n d k]
  have D: "0 < d * 2 ^ nat k" using d by simp
  have x: "x = real (n * 2 ^ nat (- k)) / real (d * 2 ^ nat k)" using scaled_quot [OF d] by (simp add: x_def)
  have "2 * \<bar>int (q * (d * 2 ^ nat k)) - int (n * 2 ^ nat (- k))\<bar> \<le> int (d * 2 ^ nat k)"
    unfolding q_def by (rule round_half_even_near [OF D])
  then have "2 * \<bar>real (q * (d * 2 ^ nat k)) - real (n * 2 ^ nat (- k))\<bar> \<le> real (d * 2 ^ nat k)"
    by (simp only: of_int_le_iff [where 'a = real, symmetric] of_int_mult of_int_abs of_int_diff of_int_of_nat_eq of_int_numeral)
  then have near: "2 * \<bar>real q - x\<bar> \<le> 1"
    using D unfolding x by (simp add: field_simps abs_le_iff)
  have up: "x < 2 ^ 53" and low: "k = - 1074 \<or> 2 ^ 52 \<le> x" and k: "- 1074 \<le> k"
    using b False d by (auto simp: x_def k_def power_int_add divide_simps mult.commute)
  have "real (2 ^ 53 + 1) = 2 ^ 53 + 1" "real (2 ^ 52) = 2 ^ 52" "real (q + 1) = real q + 1" by simp_all
  note n = this
  have "\<bar>real q - x\<bar> \<le> 1 / 2" using near by simp
  then have close: "real q \<le> x + 1 / 2" "x \<le> real q + 1 / 2" unfolding abs_le_iff by linarith+
  have "real q < real (2 ^ 53 + 1)" unfolding n using close(1) up by linarith
  then have q: "q \<le> 2 ^ 53" by (simp only: of_nat_less_iff)
  have "k = - 1074 \<or> real (2 ^ 52) < real (q + 1)" unfolding n using close(2) low by linarith
  then have q': "k = - 1074 \<or> 2 ^ 52 \<le> q" by (simp only: of_nat_less_iff less_Suc_eq_le flip: Suc_eq_plus1)
  have err: "2 * \<bar>real q * 2 powi k - real n / real d\<bar> \<le> 2 powi k"
  proof -
    have "real q * 2 powi k - real n / real d = (real q - x) * 2 powi k" by (simp add: x_def field_simps)
    then have "2 * \<bar>real q * 2 powi k - real n / real d\<bar> = (2 * \<bar>real q - x\<bar>) * 2 powi k" by (simp add: abs_mult)
    also have "\<dots> \<le> 1 * 2 powi k" using near by (intro mult_right_mono) auto
    finally show ?thesis by simp
  qed
  have r': "(if q = 2 ^ 53 then if k + 1 > 971 then D_inf s else D_fin s (2 ^ 52) (k + 1)
      else if k > 971 then D_inf s else D_fin s q k) = D_fin t m e"
    using r False by (simp only: round_quot_def Let_def flip: k_def q_def) (simp split: if_splits)
  show ?thesis
  proof (cases "q = 2 ^ 53")
    case True
    with r' have *: "k + 1 \<le> 971" "t = s" "m = 2 ^ 52" "e = k + 1" by (auto split: if_splits)
    moreover have "real (2 ^ 52) * 2 powi (k + 1) = real q * 2 powi k" using True by (simp add: power_int_add)
    moreover have "(2 :: real) powi k \<le> 2 powi (k + 1)" by (rule power_int_increasing) auto
    ultimately show ?thesis using err k by (auto simp: double_ok_def)
  next
    case ne: False
    with r' have "k \<le> 971" "t = s" "m = q" "e = k" by (auto split: if_splits)
    with err k q q' ne show ?thesis by (auto simp: double_ok_def)
  qed
next
  case True
  with r show ?thesis by (auto simp: round_quot_def double_ok_def)
qed

section \<open>Whole numbers\<close>

definition nat_exp :: "nat \<Rightarrow> int" where
  "nat_exp n = (if n = 0 then - 1074 else int (floorlog 2 n) - 53)"

lemma nat_exp_neg: "n < 2 ^ 53 \<Longrightarrow> nat_exp n \<le> 0"
  using floorlog_leI [of n 2 53] by (simp add: nat_exp_def)

lemma quot_exp_nat:
  assumes "0 < n" "n < 2 ^ 53"
  shows "quot_exp n 1 = nat_exp n"
proof -
  have f: "floorlog 2 n \<le> 53" "floorlog 2 1 = 1" "0 < floorlog 2 n"
    using assms floorlog_leI [of n 2 53] floorlog_power [of 1 2 0] by (auto simp: compute_floorlog intro!: gr0I simp: floorlog_eq_zero_iff)
  have "nat (int (floorlog 2 n) - 1) = floorlog 2 n - 1" by simp
  moreover have "2 ^ (floorlog 2 n - 1) \<le> n" using floorlog_bounds [where b = 2 and x = n] assms by simp
  ultimately show ?thesis using f assms by (simp add: quot_exp_def Let_def nat_exp_def)
qed

lemma d_of_nat_exact:
  assumes "n < 2 ^ 53"
  shows "d_of_nat n = D_fin False (n * 2 ^ nat (- nat_exp n)) (nat_exp n)"
proof (cases "n = 0")
  case False
  note e = nat_exp_neg [OF assms]
  have "n < 2 ^ floorlog 2 n" using floorlog_bounds [where b = 2 and x = n] False by simp
  then have "n * 2 ^ nat (- nat_exp n) < 2 ^ floorlog 2 n * 2 ^ nat (- nat_exp n)" by simp
  also have "\<dots> = (2 :: nat) ^ (floorlog 2 n + nat (- nat_exp n))" by (simp add: power_add)
  also have "floorlog 2 n + nat (- nat_exp n) = 53" using False e by (simp add: nat_exp_def)
  finally have m: "n * 2 ^ nat (- nat_exp n) < 2 ^ 53" .
  have "round_half_even (n * 2 ^ nat (- nat_exp n)) 1 = n * 2 ^ nat (- nat_exp n)"
    using round_half_even_exact [of 1] by simp
  then show ?thesis
    using False e m quot_exp_nat [OF _ assms] by (simp add: d_of_nat_def round_quot_def Let_def)
qed (simp add: d_of_nat_def round_quot_def nat_exp_def)

lemma scaled_nat:
  assumes "k \<le> nat_exp n" and "n < 2 ^ 53"
  shows "scaled False (n * 2 ^ nat (- nat_exp n)) (nat_exp n) k = int n * 2 ^ nat (- k)"
proof -
  have "nat (- k) = nat (- nat_exp n) + nat (nat_exp n - k)" using assms nat_exp_neg [of n] by linarith
  then show ?thesis by (simp add: scaled_def power_add)
qed

lemma d_add_nat:
  assumes "a + b < 2 ^ 53"
  shows "d_add (d_of_nat a) (d_of_nat b) = d_of_nat (a + b)"
proof -
  let ?k = "min (nat_exp a) (nat_exp b)"
  have a: "a < 2 ^ 53" and b: "b < 2 ^ 53" using assms by simp_all
  have k: "?k \<le> 0" using nat_exp_neg [OF a] by simp
  define c where "c = (a + b) * 2 ^ nat (- ?k)"
  have i: "scaled False (a * 2 ^ nat (- nat_exp a)) (nat_exp a) ?k + scaled False (b * 2 ^ nat (- nat_exp b)) (nat_exp b) ?k = int c"
    using scaled_nat [of ?k a] scaled_nat [of ?k b] a b by (simp add: algebra_simps c_def)
  have r: "round_quot False c (2 ^ nat (- ?k)) = d_of_nat (a + b)"
    using round_quot_scale [of 1 False "a + b" "nat (- ?k)"] by (simp add: c_def d_of_nat_def)
  have sum: "d_add (d_of_nat a) (d_of_nat b) = (if int c = 0 then D_fin (False \<and> False) 0 (- 1074)
      else round_quot (int c < 0) (nat \<bar>int c\<bar> * 2 ^ nat ?k) (2 ^ nat (- ?k)))"
    unfolding d_of_nat_exact [OF a] d_of_nat_exact [OF b] d_add.simps i Let_def ..
  show ?thesis
  proof (cases "c = 0")
    case True
    then have "a + b = 0" by (simp add: c_def)
    with sum True show ?thesis by (simp add: d_of_nat_def round_quot_def)
  next
    case False
    with sum r k show ?thesis by simp
  qed
qed

lemma d_less_nat: "a < 2 ^ 53 \<Longrightarrow> b < 2 ^ 53 \<Longrightarrow> d_less (d_of_nat a) (d_of_nat b) \<longleftrightarrow> a < b"
  using scaled_nat [of "min (nat_exp a) (nat_exp b)" a] scaled_nat [of "min (nat_exp a) (nat_exp b)" b]
  by (simp add: d_of_nat_exact)

lemma d_to_u32_nat:
  assumes "n < 2 ^ 53"
  shows "d_to_u32 (d_of_nat n) = (if n < 2 ^ 32 then Inr (word_of_nat n) else Inl Undefined)"
proof -
  have "nat (nat_exp n) = 0" using nat_exp_neg [OF assms] by simp
  then show ?thesis by (simp add: d_of_nat_exact [OF assms] Let_def)
qed

lemma d_of_nat_inj: "a < 2 ^ 53 \<Longrightarrow> b < 2 ^ 53 \<Longrightarrow> d_of_nat a = d_of_nat b \<longleftrightarrow> a = b"
  by (metis d_less_nat linorder_neqE_nat nat_neq_iff)

lemma d_of_int_nat: "0 \<le> i \<Longrightarrow> d_of_int i = d_of_nat (nat i)"
  by (simp add: d_of_int_def d_of_nat_def)

lemma d_mul_one:
  assumes "n < 2 ^ 53"
  shows "d_mul (d_of_nat n) (d_of_nat 1) = d_of_nat n"
proof -
  let ?e = "nat_exp n" and ?f = "nat_exp 1"
  have le: "?e \<le> 0" "?f \<le> 0" using nat_exp_neg [of n] nat_exp_neg [of 1] assms by simp_all
  then have "nat (?e + ?f) = 0" "nat (- (?e + ?f)) = nat (- ?e) + nat (- ?f)" by simp_all
  then show ?thesis
    using round_quot_scale [of 1 False n "nat (- (?e + ?f))"] assms
    by (simp add: d_of_nat_exact power_add mult.assoc) (simp add: d_of_nat_def flip: d_of_nat_exact)
qed

section \<open>The error of a quotient\<close>

text \<open>\<open>d_pos x r\<close>: the double \<open>x\<close> is the positive real number \<open>r\<close>.\<close>

definition d_pos :: "double \<Rightarrow> real \<Rightarrow> bool" where
  "d_pos x r \<longleftrightarrow> 0 < r \<and> (\<exists>m e. x = D_fin False m e \<and> r = real m * 2 powi e)"

definition near :: "real \<Rightarrow> real \<Rightarrow> real \<Rightarrow> bool" where
  "near u x y \<longleftrightarrow> \<bar>x - y\<bar> \<le> u * y"

lemma d_pos_nat: "0 < n \<Longrightarrow> n < 2 ^ 53 \<Longrightarrow> d_pos (d_of_nat n) (real n)"
  using nat_exp_neg [of n] by (auto simp: d_pos_def d_of_nat_exact powi_nat)

text \<open>A quotient that is neither tiny nor huge is rounded with a relative error of at most \<open>2 ^ - 52\<close>.\<close>

lemma round_quot_rel:
  assumes d: "0 < d" and r: "r = real n / real d" "2 powi - 100 \<le> r" "r \<le> 2 powi 100"
  shows "\<exists>c. d_pos (round_quot False n d) c \<and> near (2 powi - 52) c r"
proof -
  have r0: "0 < r" using r(2) by (rule less_le_trans [rotated]) simp
  then have n: "0 < n" using r(1) by (intro gr0I) simp
  define k where "k = quot_exp n d"
  have "k \<le> 48"
  proof (rule ccontr)
    assume "\<not> k \<le> 48"
    then have "(2 :: real) powi 101 \<le> 2 powi (52 + k)" "k \<noteq> - 1074" by (auto intro!: power_int_increasing simp del: power_int_numeral)
    with quot_exp_bounds [OF n d k_def] r have "(2 :: real) powi 101 \<le> 2 powi 100" by linarith
    then show False by simp
  qed
  then obtain m e where q: "round_quot False n d = D_fin False m e" and "e \<le> 49"
    using n by (cases "round_half_even (n * 2 ^ nat (- k)) (d * 2 ^ nat k) = 2 ^ 53") (auto simp: round_quot_def Let_def simp flip: k_def)
  from round_quot_near [OF d q] r(1) have ok: "double_ok (D_fin False m e)"
    and err: "2 * \<bar>real m * 2 powi e - r\<bar> \<le> 2 powi e" by auto
  have "\<bar>real m * 2 powi e - r\<bar> \<le> 2 powi e / 2" using err by simp
  then have close: "r - real m * 2 powi e \<le> 2 powi e / 2" "real m * 2 powi e - r \<le> 2 powi e / 2"
    unfolding abs_le_iff by linarith+
  have e: "e \<noteq> - 1074"
  proof
    assume e: "e = - 1074"
    then have "real m * 2 powi e \<le> 2 ^ 53 * 2 powi e" using ok by (intro mult_right_mono) (auto simp: double_ok_def)
    also have "\<dots> = 2 powi (53 + e)" by (simp add: power_int_add)
    also have "\<dots> \<le> 2 powi - 200" using e by (intro power_int_increasing) auto
    finally have "real m * 2 powi e \<le> 2 powi - 200" .
    moreover have "(2 :: real) powi e \<le> 2 powi - 200" using e by (intro power_int_increasing) auto
    ultimately have "r \<le> 2 * 2 powi - 200" using close(1) zero_less_power_int [of "2 :: real" e] by linarith
    also have "\<dots> = (2 :: real) powi - 199" using power_int_add [of "2 :: real" 1 "- 200"] by simp
    also have "\<dots> < (2 :: real) powi - 100" by (intro power_int_strict_increasing) auto
    finally show False using r(2) by simp
  qed
  have "2 ^ 52 * (2 :: real) powi e \<le> real m * 2 powi e"
  proof (intro mult_right_mono)
    have "2 ^ 52 \<le> m" using ok e by (simp add: double_ok_def not_less [symmetric])
    then have "real (2 ^ 52) \<le> real m" by (simp only: of_nat_le_iff)
    then show "(2 :: real) ^ 52 \<le> real m" by simp
  qed simp
  moreover define P where "P = (2 :: real) powi e"
  moreover define Q where "Q = real m * 2 powi e"
  ultimately have P: "2 ^ 52 * P \<le> Q" "0 < P" by simp_all
  note close = close [folded Q_def P_def]
  have "2 ^ 51 * P \<le> r" using P close by simp
  then have "P / 2 \<le> r / 2 ^ 52" by simp
  then have "\<bar>Q - r\<bar> \<le> r / 2 ^ 52" unfolding abs_le_iff using close by linarith
  moreover have "0 < Q" using P by (auto intro: less_le_trans [rotated])
  ultimately have "0 < real m * 2 powi e" "\<bar>real m * 2 powi e - r\<bar> \<le> r / 2 ^ 52" by (simp_all add: Q_def)
  then show ?thesis unfolding q d_pos_def near_def by (intro exI [of _ "real m * 2 powi e"]) (auto simp: power_int_minus field_simps)
qed

lemma d_div_pos:
  assumes x: "d_pos x a" and y: "d_pos y b" and r: "2 powi - 100 \<le> a / b" "a / b \<le> 2 powi 100"
  shows "\<exists>c. d_pos (d_div x y) c \<and> near (2 powi - 52) c (a / b)"
proof -
  obtain m e where x: "x = D_fin False m e" "a = real m * 2 powi e" using x by (auto simp: d_pos_def)
  obtain n f where y: "y = D_fin False n f" "b = real n * 2 powi f" and b: "0 < b" using y by (auto simp: d_pos_def)
  then have n: "0 < n" by (auto intro!: gr0I)
  have "real (m * 2 ^ nat (e - f)) / real (n * 2 ^ nat (f - e)) = real m / real n * 2 powi (e - f)"
    by (simp add: powi_nat field_simps)
  also have "\<dots> = a / b" using n by (simp add: x y power_int_diff field_simps)
  finally show ?thesis
    using round_quot_rel [of "n * 2 ^ nat (f - e)" "a / b" "m * 2 ^ nat (e - f)"] n r by (simp add: x(1) y(1))
qed

lemma near_div:
  assumes u: "0 < u" "u \<le> 1 / 3" and a: "near u a A" "0 < A" and b: "near u b B" "0 < B"
  shows "near (3 * u) (a / b) (A / B)"
proof -
  have "u * B \<le> 1 / 3 * B" using u b by (intro mult_right_mono) auto
  then have b0: "2 / 3 * B \<le> b" using b(1) unfolding near_def abs_le_iff by linarith
  then have pos: "0 < b" using b by (auto intro: less_le_trans [rotated])
  have "\<bar>a * B - A * b\<bar> = \<bar>(a - A) * B + A * (B - b)\<bar>" by (simp add: algebra_simps)
  also have "\<dots> \<le> \<bar>a - A\<bar> * B + A * \<bar>b - B\<bar>" using a b abs_triangle_ineq [of "(a - A) * B" "A * (B - b)"] by (simp only: abs_mult abs_of_pos) (simp add: abs_minus_commute)
  also have "\<dots> \<le> u * A * B + A * (u * B)" using a b by (intro add_mono mult_mono) (auto simp: near_def)
  also have "\<dots> = 3 * u * A * (2 / 3 * B)" by simp
  also have "\<dots> \<le> 3 * u * A * b" using b0 u a by (intro mult_left_mono) auto
  finally have *: "\<bar>a * B - A * b\<bar> \<le> 3 * u * A * b" .
  have "a / b - A / B = (a * B - A * b) / (b * B)" using pos b by (simp add: field_simps)
  then have "\<bar>a / b - A / B\<bar> = \<bar>a * B - A * b\<bar> / (b * B)" using pos b by (simp add: abs_divide)
  also have "\<dots> \<le> 3 * u * A * b / (b * B)" using * pos b by (intro divide_right_mono) auto
  also have "\<dots> = 3 * u * (A / B)" using pos by simp
  finally show ?thesis by (simp add: near_def)
qed

lemma near_trans:
  assumes x: "near u x y" and y: "near (3 * u) y z" and u: "0 < u" "u \<le> 1 / 3" and z: "0 < z"
  shows "near (8 * u) x z"
proof -
  have "3 * u * z \<le> 1 * z" using u z by (intro mult_right_mono) auto
  then have "y \<le> 2 * z" using y by (simp add: near_def abs_le_iff)
  then have "u * y \<le> u * (2 * z)" using u by (intro mult_left_mono) auto
  with x y have "\<bar>x - z\<bar> \<le> 5 * u * z" unfolding near_def by linarith
  moreover have "5 * u * z \<le> 8 * u * z" using u z by (intro mult_right_mono) auto
  ultimately show ?thesis by (simp add: near_def)
qed

end
