(* ===== verification/Stats.thy ===== *)
theory Stats
  imports Hashes Doubles
begin

text \<open>
  The statistics of a replica (\<open>App/Stats.cpp\<close>, \<open>App/Stats.h\<close>): counters, accumulated times, the
  samples from which the totals are computed with the extreme ones left out, and the execution times of views. Times are in
  microseconds. No decision of a protocol reads them. A \<open>std::multiset<double>\<close> is the list of its
  elements in order; a new element is put behind its equals.
\<close>

section \<open>State\<close>

text \<open>A point of the steady clock, in nanoseconds, and \<open>duration_cast<microseconds>(b - a).count()\<close>.\<close>

type_synonym Time = nat

definition microseconds :: "Time \<Rightarrow> Time \<Rightarrow> int" where
  "microseconds a b = (if a \<le> b then int ((b - a) div 1000) else - int ((a - b) div 1000))"

fun multiset_insert :: "double \<Rightarrow> double list \<Rightarrow> double list" where
  "multiset_insert x [] = [x]"
| "multiset_insert x (y # ys) = (if d_less x y then x # y # ys else y # multiset_insert x ys)"

record Times =
  tm_n :: u32
  tm_tot :: double

definition Times_new :: "u32 \<Rightarrow> double \<Rightarrow> Times" where
  "Times_new n tot = \<lparr>tm_n = n, tm_tot = tot\<rparr>"

record Stats =
  ss_handleTimes :: "double list"
  ss_viewTimes :: "double list"
  ss_prepTimes :: "double list"
  ss_nvTimes :: "double list"
  ss_id :: u32
  ss_execViews :: u32
  ss_recoverTimes :: u32
  ss_TEEverify :: double
  ss_TEEsign :: double
  ss_TEEprepare :: double
  ss_TEEstore :: double
  ss_TEEaccum :: double
  ss_TEEtime :: double
  ss_cryptoSignNum :: u32
  ss_cryptoVerifNum :: u32
  ss_cryptoSignTime :: double
  ss_cryptoVerifTime :: double
  ss_totalHandleTime :: double
  ss_totalViewTime :: double
  ss_totalPrepTime :: double
  ss_totalNvTime :: double
  ss_execTime :: "(View, bool \<times> Time \<times> Time) stdmap"   \<comment> \<open>true iff ended\<close>

definition Stats_new :: Stats where
  "Stats_new = (let z = d_of_nat 0 in
     \<lparr>ss_handleTimes = [], ss_viewTimes = [], ss_prepTimes = [], ss_nvTimes = [],
      ss_id = 0, ss_execViews = 0, ss_recoverTimes = 0,
      ss_TEEverify = z, ss_TEEsign = z, ss_TEEprepare = z, ss_TEEstore = z, ss_TEEaccum = z, ss_TEEtime = z,
      ss_cryptoSignNum = 0, ss_cryptoVerifNum = 0, ss_cryptoSignTime = z, ss_cryptoVerifTime = z,
      ss_totalHandleTime = z, ss_totalViewTime = z, ss_totalPrepTime = z, ss_totalNvTime = z,
      ss_execTime = []\<rparr>)"

section \<open>Recording\<close>

definition setId :: "PID \<Rightarrow> Stats \<Rightarrow> Stats" where
  "setId i s = s\<lparr>ss_id := i\<rparr>"

definition addTEEverify :: "double \<Rightarrow> Stats \<Rightarrow> Stats" where
  "addTEEverify v s = s\<lparr>ss_TEEverify := d_add (ss_TEEverify s) v\<rparr>"

definition addTEEsign :: "double \<Rightarrow> Stats \<Rightarrow> Stats" where
  "addTEEsign v s = s\<lparr>ss_TEEsign := d_add (ss_TEEsign s) v\<rparr>"

definition addTEEprepare :: "double \<Rightarrow> Stats \<Rightarrow> Stats" where
  "addTEEprepare v s = s\<lparr>ss_TEEprepare := d_add (ss_TEEprepare s) v\<rparr>"

definition addTEEstore :: "double \<Rightarrow> Stats \<Rightarrow> Stats" where
  "addTEEstore v s = s\<lparr>ss_TEEstore := d_add (ss_TEEstore s) v\<rparr>"

definition addTEEaccum :: "double \<Rightarrow> Stats \<Rightarrow> Stats" where
  "addTEEaccum v s = s\<lparr>ss_TEEaccum := d_add (ss_TEEaccum s) v\<rparr>"

definition addTEEtime :: "double \<Rightarrow> Stats \<Rightarrow> Stats" where
  "addTEEtime v s = s\<lparr>ss_TEEtime := d_add (ss_TEEtime s) v\<rparr>"

definition addCryptoSignTime :: "double \<Rightarrow> Stats \<Rightarrow> Stats" where
  "addCryptoSignTime v s =
     s\<lparr>ss_cryptoSignNum := ss_cryptoSignNum s + 1, ss_cryptoSignTime := d_add (ss_cryptoSignTime s) v\<rparr>"

definition addCryptoVerifTime :: "double \<Rightarrow> Stats \<Rightarrow> Stats" where
  "addCryptoVerifTime v s =
     s\<lparr>ss_cryptoVerifNum := ss_cryptoVerifNum s + 1, ss_cryptoVerifTime := d_add (ss_cryptoVerifTime s) v\<rparr>"

definition addTotalHandleTime :: "double \<Rightarrow> Stats \<Rightarrow> Stats" where
  "addTotalHandleTime v s =
     s\<lparr>ss_totalHandleTime := d_add (ss_totalHandleTime s) v, ss_handleTimes := multiset_insert v (ss_handleTimes s)\<rparr>"

definition addTotalViewTime :: "double \<Rightarrow> Stats \<Rightarrow> Stats" where
  "addTotalViewTime v s =
     s\<lparr>ss_totalViewTime := d_add (ss_totalViewTime s) v, ss_viewTimes := multiset_insert v (ss_viewTimes s)\<rparr>"

definition addTotalPrepTime :: "double \<Rightarrow> Stats \<Rightarrow> Stats" where
  "addTotalPrepTime v s =
     s\<lparr>ss_totalPrepTime := d_add (ss_totalPrepTime s) v, ss_prepTimes := multiset_insert v (ss_prepTimes s)\<rparr>"

definition addTotalNvTime :: "double \<Rightarrow> Stats \<Rightarrow> Stats" where
  "addTotalNvTime v s =
     s\<lparr>ss_totalNvTime := d_add (ss_totalNvTime s) v, ss_nvTimes := multiset_insert v (ss_nvTimes s)\<rparr>"

definition incrementRecover :: "Stats \<Rightarrow> Stats" where
  "incrementRecover s = s\<lparr>ss_recoverTimes := ss_recoverTimes s + 1\<rparr>"

definition incExecViews :: "Stats \<Rightarrow> Stats" where
  "incExecViews s = s\<lparr>ss_execViews := ss_execViews s + 1\<rparr>"

definition startExecTime :: "View \<Rightarrow> Time \<Rightarrow> Stats \<Rightarrow> Stats" where
  "startExecTime v t s = s\<lparr>ss_execTime := map_set v (False, t, t) (ss_execTime s)\<rparr>"

definition endExecTime :: "View \<Rightarrow> Time \<Rightarrow> Stats \<Rightarrow> Stats" where
  "endExecTime v t s =
     (case map_find (ss_execTime s) v of
        Some (b, start, e) \<Rightarrow> s\<lparr>ss_execTime := map_set v (True, start, t) (ss_execTime s)\<rparr>
      | None \<Rightarrow> s)"

text \<open>The time from a reading of the clock, as \<open>Handler::recordTime\<close> gives it.\<close>

definition recordTime :: "Time \<Rightarrow> Time \<Rightarrow> double" where
  "recordTime start now = d_of_int (microseconds start now)"

section \<open>Totals\<close>

text \<open>
  The four functions have one body, over the samples. \<open>k\<close> values are erased at each end: \<open>erase\<close> needs an
  element, and the counter of the loops is an \<open>int\<close>. The division by \<open>100 / quant\<close> is a division by
  zero for a \<open>quant\<close> above 100. The sum is an \<open>unsigned int\<close>, so it is cut at every addition.
\<close>

primrec erase_first :: "nat \<Rightarrow> double list \<Rightarrow> double list res" where
  "erase_first 0 l = Inr l"
| "erase_first (Suc k) l = (if l = [] then Inl Undefined else erase_first k (tl l))"

primrec erase_last :: "nat \<Rightarrow> double list \<Rightarrow> double list res" where
  "erase_last 0 l = Inr l"
| "erase_last (Suc k) l = (if l = [] then Inl Undefined else erase_last k (butlast l))"

fun add_samples :: "double list \<Rightarrow> u32 \<Rightarrow> u32 \<Rightarrow> (u32 \<times> u32) res" where
  "add_samples [] n tot = Inr (n, tot)"
| "add_samples (x # xs) n tot =
     bindE (d_to_u32 (d_add (d_of_u32 tot) x)) (\<lambda>tot. add_samples xs (n + 1) tot)"

definition erased :: "nat \<Rightarrow> u32 \<Rightarrow> u32 res" where
  "erased len quant =
     (if quant > 0 then
        (if 100 div quant = 0 then Inl Undefined else Inr (word_of_nat (len div unat (100 div quant))))
      else Inr 0)"

definition samples_total :: "double list \<Rightarrow> u32 \<Rightarrow> Times res" where
  "samples_total l quant =
     bindE (erased (length l) quant) (\<lambda>k.
     if 2 ^ 31 \<le> unat k then Inl Undefined else
     bindE (erase_first (unat k) l) (\<lambda>l.
     bindE (erase_last (unat k) l) (\<lambda>l.
     bindE (add_samples l 0 0) (\<lambda>(n, tot).
     Inr (Times_new n (d_of_u32 tot))))))"

definition getTotalHandleTime :: "Stats \<Rightarrow> u32 \<Rightarrow> Times res" where
  "getTotalHandleTime s quant = samples_total (ss_handleTimes s) quant"

definition getTotalViewTime :: "Stats \<Rightarrow> u32 \<Rightarrow> Times res" where
  "getTotalViewTime s quant = samples_total (ss_viewTimes s) quant"

definition getTotalPrepTime :: "Stats \<Rightarrow> u32 \<Rightarrow> Times res" where
  "getTotalPrepTime s quant = samples_total (ss_prepTimes s) quant"

definition getTotalNvTime :: "Stats \<Rightarrow> u32 \<Rightarrow> Times res" where
  "getTotalNvTime s quant = samples_total (ss_nvTimes s) quant"

text \<open>The average over the views that have ended.\<close>

fun exec_time_loop :: "(View, bool \<times> Time \<times> Time) stdmap \<Rightarrow> u32 \<Rightarrow> double \<Rightarrow> u32 \<times> double" where
  "exec_time_loop [] i tot = (i, tot)"
| "exec_time_loop ((v, ended, a, b) # m) i tot =
     (if ended then exec_time_loop m (i + 1) (d_add tot (d_of_int (microseconds a b)))
      else exec_time_loop m i tot)"

definition getExecTimeAvg :: "Stats \<Rightarrow> double" where
  "getExecTimeAvg s = (let (i, tot) = exec_time_loop (ss_execTime s) 0 (d_of_nat 0) in d_div tot (d_of_u32 i))"

text \<open>The output operator writes the identifier only.\<close>

definition stats_output :: "Stats \<Rightarrow> bytes" where
  "stats_output s = to_string (ss_id s)"

end
