(* ===== verification/Reports.thy ===== *)
theory Reports
  imports Stats Client
begin

text \<open>
  The files with results: the line that \<open>Handler::recordStats\<close> (\<open>App/Handler.cpp\<close>) writes for a
  replica when it stops, one definition for each of the three builds, and the line that \<open>printStats\<close>
  (\<open>App/Client.cpp\<close>) writes for the client. The arithmetic is on \<open>double\<close>s; the products of
  integers in it are on \<open>unsigned int\<close> and wrap.
\<close>

definition space :: bytes where
  "space = [32]"

text \<open>The number of views, the number of transactions of each, and for the parallel protocol the blocks of a view.\<close>

definition kops_views :: "u32 \<Rightarrow> double" where
  "kops_views n = d_div (d_mul (d_of_u32 (n * word_of_nat MAX_NUM_TRANSACTIONS)) (d_of_nat 1)) (d_of_nat 1000)"

definition kops_views_para :: "u32 \<Rightarrow> u32 \<Rightarrow> double" where
  "kops_views_para n maxBlocks =
     d_div (d_mul (d_of_u32 (n * word_of_nat MAX_NUM_TRANSACTIONS * maxBlocks)) (d_of_nat 1)) (d_of_nat 1000)"

definition throughput_of :: "double \<Rightarrow> double \<Rightarrow> double" where
  "throughput_of kops tot = d_div kops (d_div tot (d_of_nat (1000 * 1000)))"

definition stats_line :: "bytes \<Rightarrow> Stats \<Rightarrow> double \<Rightarrow> double \<Rightarrow> Times \<Rightarrow> Times \<Rightarrow> bytes" where
  "stats_line nan s throughputView latencyView totv toth =
     (let handle = d_div (tm_tot toth) (d_of_nat 1000);
          cryptoS = d_div (ss_cryptoSignTime s) (d_of_nat 1000);
          cryptoV = d_div (ss_cryptoVerifTime s) (d_of_nat 1000)
      in d_to_string nan throughputView @ space @ d_to_string nan latencyView @ space @ d_to_string nan handle
         @ space @ to_string (ss_cryptoSignNum s) @ space @ d_to_string nan cryptoS
         @ space @ to_string (ss_cryptoVerifNum s) @ space @ d_to_string nan cryptoV
         @ space @ to_string (ss_recoverTimes s) @ space @ to_string (tm_n totv))"

text \<open>Only the basic and the chained build, and the parallel one, compute the throughput; the latency has three forms.\<close>

definition recordStats_basic :: "bytes \<Rightarrow> Stats \<Rightarrow> bytes res" where
  "recordStats_basic nan s =
     bindE (getTotalViewTime s 0) (\<lambda>totv.
     bindE (getTotalHandleTime s 0) (\<lambda>toth.
     Inr (stats_line nan s (throughput_of (kops_views (tm_n totv)) (tm_tot totv))
            (d_div (d_div (tm_tot totv) (d_of_u32 (tm_n totv))) (d_of_nat 1000)) totv toth)))"

definition recordStats_ch :: "bytes \<Rightarrow> Stats \<Rightarrow> bytes res" where
  "recordStats_ch nan s =
     bindE (getTotalViewTime s 0) (\<lambda>totv.
     bindE (getTotalHandleTime s 0) (\<lambda>toth.
     Inr (stats_line nan s (throughput_of (kops_views (tm_n totv)) (tm_tot totv))
            (d_div (getExecTimeAvg s) (d_of_nat 1000)) totv toth)))"

definition recordStats_para :: "bytes \<Rightarrow> u32 \<Rightarrow> Stats \<Rightarrow> bytes res" where
  "recordStats_para nan maxBlocks s =
     bindE (getTotalViewTime s 0) (\<lambda>totv.
     bindE (getTotalHandleTime s 0) (\<lambda>toth.
     Inr (stats_line nan s (throughput_of (kops_views_para (tm_n totv) maxBlocks) (tm_tot totv))
            (d_div (d_div (tm_tot totv) (d_of_u32 (tm_n totv))) (d_of_u32 (1000 * maxBlocks))) totv toth)))"

text \<open>
  What executing a block adds to the statistics (\<open>executeRData\<close>): a view that lasted from the one reading of the clock
  to the other.
\<close>

definition record_view :: "Time \<times> Time \<Rightarrow> Stats \<Rightarrow> Stats" where
  "record_view t s = (case t of (startView, endView) \<Rightarrow> addTotalViewTime (recordTime startView endView) (incExecViews s))"

section \<open>The client\<close>

definition latest_completion :: "Client \<Rightarrow> clock" where
  "latest_completion c = foldl (\<lambda>t (tid, start, fin). if fin > t then fin else t) (cl_beginning c) (cl_execTrans c)"

definition latencies :: "Client \<Rightarrow> double list" where
  "latencies c = map (\<lambda>(tid, start, fin). d_div (d_of_int (microseconds start fin)) (d_of_nat 1000)) (cl_execTrans c)"

definition printStats :: "bytes \<Rightarrow> Client \<Rightarrow> bytes" where
  "printStats nan c =
     (let totalDuration = d_of_int (microseconds (cl_beginning c) (latest_completion c));
          secs = d_div totalDuration (d_of_nat 1000000);
          kops = d_div (d_mul (d_of_nat (length (cl_execTrans c))) (d_of_nat 1)) (d_of_nat 1000);
          throughput = d_div kops secs;
          allLatencies = latencies c;
          avg = foldl d_add (d_of_nat 0) allLatencies;
          latency = d_div avg (d_of_nat (length allLatencies))
      in d_to_string nan throughput @ space @ d_to_string nan latency @ space
         @ dec_digits (length allLatencies))"

end
