(* ===== verification/StatsProps.thy ===== *)
theory StatsProps
  imports Reports "HOL-Library.Multiset"
begin

text \<open>
  The statistics are right while they stay small: totals of whole microseconds are exact below
  \<open>2 ^ 32\<close> and undefined from there on, whatever is left out at the ends; and the throughput in the file of
  a replica is the exact quotient up to the rounding of three operations.
\<close>

section \<open>Samples\<close>

lemma multiset_insert_nat:
  assumes "x < 2 ^ 53" and "\<forall>y\<in>set ys. y < 2 ^ 53" and "sorted ys"
  shows "\<exists>zs. multiset_insert (d_of_nat x) (map d_of_nat ys) = map d_of_nat zs \<and> sorted zs \<and> mset zs = add_mset x (mset ys)"
  using assms(2,3)
proof (induction ys)
  case (Cons y ys)
  then obtain zs where zs: "multiset_insert (d_of_nat x) (map d_of_nat ys) = map d_of_nat zs" "sorted zs"
    "mset zs = add_mset x (mset ys)" by auto
  have "set zs = insert x (set ys)" using zs(3) by (metis set_mset_mset set_mset_add_mset_insert)
  moreover have "multiset_insert (d_of_nat x) (map d_of_nat (y # ys)) = map d_of_nat (if x < y then x # y # ys else y # zs)"
    using Cons.prems zs(1) assms(1) by (simp add: d_less_nat)
  ultimately show ?case
    using Cons.prems zs by (intro exI [of _ "if x < y then x # y # ys else y # zs"]) auto
qed (auto intro: exI [of _ "[x]"])

lemma insert_all_nat:
  assumes "\<forall>x\<in>set xs. x < 2 ^ 53"
  shows "foldl (\<lambda>l x. multiset_insert (d_of_nat x) l) [] xs = map d_of_nat (sort xs)"
  using assms
proof (induction xs rule: rev_induct)
  case (snoc x xs)
  then obtain zs where "multiset_insert (d_of_nat x) (map d_of_nat (sort xs)) = map d_of_nat zs" "sorted zs"
    "mset zs = add_mset x (mset (sort xs))"
    using multiset_insert_nat [of x "sort xs"] by auto
  moreover from this have "zs = sort (xs @ [x])" by (intro properties_for_sort [symmetric]) auto
  ultimately show ?case using snoc by simp
qed simp

lemma erase_first_eq: "erase_first k l = (if k \<le> length l then Inr (drop k l) else Inl Undefined)"
proof (induction k arbitrary: l)
  case (Suc k)
  then show ?case by (cases l) simp_all
qed simp

lemma erase_last_eq: "erase_last k l = (if k \<le> length l then Inr (take (length l - k) l) else Inl Undefined)"
proof (induction k arbitrary: l)
  case (Suc k)
  then show ?case by (cases l rule: rev_cases) (auto simp: butlast_conv_take min_def)
qed simp

lemma add_samples_nat:
  assumes "\<forall>x\<in>set xs. x < 2 ^ 52"
  shows "add_samples (map d_of_nat xs) n tot =
    (if unat tot + sum_list xs < 2 ^ 32 then Inr (n + word_of_nat (length xs), tot + word_of_nat (sum_list xs)) else Inl Undefined)"
  using assms
proof (induction xs arbitrary: n tot)
  case Nil
  then show ?case using unsigned_less [of tot] by simp
next
  case (Cons x xs)
  have t: "unat tot < 2 ^ 32" using unsigned_less [of tot] by simp
  then have "unat tot + x < 2 ^ 53" using Cons.prems by simp
  then have a: "d_to_u32 (d_add (d_of_u32 tot) (d_of_nat x)) =
      (if unat tot + x < 2 ^ 32 then Inr (word_of_nat (unat tot + x)) else Inl Undefined)"
    by (simp only: d_of_u32_def d_add_nat d_to_u32_nat)
  show ?case
  proof (cases "unat tot + x < 2 ^ 32")
    case True
    then have "unat (word_of_nat (unat tot + x) :: u32) = unat tot + x" by (rule unat_of_nat_u32)
    with True a Cons show ?thesis by (simp add: ac_simps)
  qed (use a in simp)
qed


definition kept :: "nat list \<Rightarrow> u32 \<Rightarrow> nat list" where
  "kept xs quant =
     (let k = (if quant = 0 then 0 else length xs div unat (100 div quant))
      in drop k (take (length xs - k) (sort xs)))"

definition total_of :: "nat list \<Rightarrow> u32 \<Rightarrow> Times res" where
  "total_of xs quant =
     (if quant > 100 \<or> quant > 50 \<and> xs \<noteq> [] \<or> 2 ^ 32 \<le> sum_list (kept xs quant) then Inl Undefined
      else Inr (Times_new (word_of_nat (length (kept xs quant))) (d_of_nat (sum_list (kept xs quant)))))"

lemma samples_total_nat:
  assumes x: "\<forall>x\<in>set xs. x < 2 ^ 52" and l: "length xs < 2 ^ 31"
  shows "samples_total (map d_of_nat (sort xs)) quant = total_of xs quant"
proof -
  let ?q = "unat quant"
  define k where "k = (if quant = 0 then 0 else length xs div unat (100 div quant))"
  have q: "unat (100 div quant) = 100 div ?q" by (simp add: unat_div)
  have le: "k \<le> length xs" by (simp add: k_def)
  then have k: "unat (word_of_nat k :: u32) = k" "k < 2 ^ 31" using l by (simp_all add: unat_of_nat_u32)
  have big: "quant > 100 \<longleftrightarrow> quant \<noteq> 0 \<and> 100 div quant = 0"
    by (cases "quant = 0") (simp_all add: word_less_nat_alt unat_eq_0 [symmetric] q div_eq_0_iff flip: unat_gt_0)
  show ?thesis
  proof (cases "quant > 100")
    case True
    with big show ?thesis by (auto simp: samples_total_def erased_def total_of_def word_neq_0_conv)
  next
    case F: False
    then have "erased (length xs) quant = Inr (word_of_nat k)" using big by (auto simp: erased_def k_def word_neq_0_conv)
    moreover have "2 * k \<le> length xs \<longleftrightarrow> \<not> (quant > 50 \<and> xs \<noteq> [])"
    proof (cases "?q \<le> 50")
      case True
      have "?q = 0 \<or> 2 \<le> 100 div ?q" using True by (cases "?q = 0") (simp_all add: less_eq_div_iff_mult_less_eq)
      moreover have "2 \<le> d \<Longrightarrow> 2 * (n div d) \<le> n" for n d :: nat
        using div_le_mono2 [of 2 d n] by simp
      ultimately have "2 * k \<le> length xs" by (auto simp: k_def q unat_eq_0)
      with True show ?thesis by (simp add: word_less_nat_alt)
    next
      case big: False
      then have "100 div ?q = 1" using F by (intro div_nat_eqI) (simp_all add: word_less_nat_alt not_less)
      with big have "k = length xs" by (auto simp: k_def q)
      with big show ?thesis by (auto simp: word_less_nat_alt)
    qed
    ultimately have e: "erased (length xs) quant = Inr (word_of_nat k)" and
      half: "2 * k \<le> length xs \<longleftrightarrow> \<not> (quant > 50 \<and> xs \<noteq> [])" by simp_all
    have kept: "take (length xs - k - k) (drop k (sort xs)) = kept xs quant" if "2 * k \<le> length xs"
    proof -
      have "take (length xs - k - k) (drop k (sort xs)) = drop k (take (length xs - k - k + k) (sort xs))" by (rule take_drop)
      then show ?thesis using that by (simp add: kept_def k_def Let_def)
    qed
    have in52: "\<forall>x\<in>set (kept xs quant). x < 2 ^ 52"
      using x by (auto simp: kept_def Let_def dest!: in_set_dropD in_set_takeD)
    show ?thesis
    proof (cases "2 * k \<le> length xs")
      case True
      then have "samples_total (map d_of_nat (sort xs)) quant =
          bindE (add_samples (map d_of_nat (kept xs quant)) 0 0) (\<lambda>(n, tot). Inr (Times_new n (d_of_u32 tot)))"
        using k le e by (simp add: samples_total_def erase_first_eq erase_last_eq kept [OF True, symmetric] take_map drop_map)
      also have "\<dots> = total_of xs quant"
        using True half F by (auto simp: add_samples_nat [OF in52] total_of_def d_of_u32_def unat_of_nat_u32)
      finally show ?thesis .
    next
      case False
      then have "samples_total (map d_of_nat (sort xs)) quant = Inl Undefined"
        using k le e by (simp add: samples_total_def erase_first_eq erase_last_eq)
      with False half show ?thesis by (simp add: total_of_def)
    qed
  qed
qed

section \<open>What the stores of samples have in common\<close>

text \<open>A function that adds to one of the stores, and the getter of its total.\<close>

locale sampler =
  fixes add :: "double \<Rightarrow> Stats \<Rightarrow> Stats" and samples :: "Stats \<Rightarrow> double list" and get_sum :: "Stats \<Rightarrow> u32 \<Rightarrow> Times res"
  assumes stored: "samples (add v s) = multiset_insert v (samples s)"
    and empty: "samples Stats_new = []"
    and summed: "get_sum s quant = samples_total (samples s) quant"
begin

lemma all_stored: "samples (foldl (\<lambda>s x. add (d_of_nat x) s) s xs) = foldl (\<lambda>l x. multiset_insert (d_of_nat x) l) (samples s) xs"
  by (induction xs arbitrary: s) (simp_all add: stored)

lemma total_correct:
  assumes "\<forall>x\<in>set xs. x < 2 ^ 52" and "length xs < 2 ^ 31"
  shows "get_sum (foldl (\<lambda>s x. add (d_of_nat x) s) Stats_new xs) quant = total_of xs quant"
proof -
  have "\<forall>x\<in>set xs. x < 2 ^ 53" using assms(1) by auto
  then show ?thesis using samples_total_nat [OF assms] by (simp add: summed all_stored empty insert_all_nat)
qed

end

interpretation view_samples: sampler addTotalViewTime ss_viewTimes getTotalViewTime
  by unfold_locales (simp_all add: addTotalViewTime_def getTotalViewTime_def Stats_new_def Let_def)

interpretation handle_samples: sampler addTotalHandleTime ss_handleTimes getTotalHandleTime
  by unfold_locales (simp_all add: addTotalHandleTime_def getTotalHandleTime_def Stats_new_def Let_def)

interpretation prep_samples: sampler addTotalPrepTime ss_prepTimes getTotalPrepTime
  by unfold_locales (simp_all add: addTotalPrepTime_def getTotalPrepTime_def Stats_new_def Let_def)

interpretation nv_samples: sampler addTotalNvTime ss_nvTimes getTotalNvTime
  by unfold_locales (simp_all add: addTotalNvTime_def getTotalNvTime_def Stats_new_def Let_def)

lemma getTotalHandleTime_correct:
  assumes "\<forall>x\<in>set xs. x < 2 ^ 52" and "length xs < 2 ^ 31"
  shows "getTotalHandleTime (foldl (\<lambda>s x. addTotalHandleTime (d_of_nat x) s) Stats_new xs) quant = total_of xs quant"
  by (rule handle_samples.total_correct [OF assms])

definition micros :: "Time \<times> Time \<Rightarrow> nat" where
  "micros t = (snd t - fst t) div 1000"

lemma recordTime_nat: "fst t \<le> snd t \<Longrightarrow> recordTime (fst t) (snd t) = d_of_nat (micros t)"
  by (simp add: recordTime_def microseconds_def micros_def d_of_int_nat)

lemma record_view_samples:
  "fst t \<le> snd t \<Longrightarrow> ss_viewTimes (record_view t s) = multiset_insert (d_of_nat (micros t)) (ss_viewTimes s)"
  using recordTime_nat [of t] by (cases t) (simp add: record_view_def view_samples.stored incExecViews_def)

lemma record_views:
  "\<forall>t\<in>set vs. fst t \<le> snd t \<Longrightarrow>
    ss_viewTimes (foldl (\<lambda>s t. record_view t s) s vs) =
    foldl (\<lambda>l x. multiset_insert (d_of_nat x) l) (ss_viewTimes s) (map micros vs)"
  by (induction vs arbitrary: s) (simp_all add: record_view_samples)

text \<open>
  C39. The total of the view times. Let a replica execute views of whole microseconds (each from one reading of the clock to a
  later one), in any order. Then \<open>getTotalViewTime quant\<close> is the exact sum of the times, and their number, after
  the \<open>k\<close> shortest and the \<open>k\<close> longest ones have been left out, with \<open>k\<close> the number of views divided by
  \<open>100 / quant\<close>: that is what \<open>kept\<close> says, and neither the doubles nor the cuts to \<open>unsigned int\<close> at
  each addition lose anything. It is undefined exactly if the sum does not fit into 32 bits (72 minutes), if
  \<open>quant\<close> is above 100 (a division by zero), and if it is above 50 and there is a sample (more are
  erased than there are).
\<close>

theorem view_total_exact:
  assumes "\<forall>t\<in>set vs. fst t \<le> snd t \<and> micros t < 2 ^ 52" and "length vs < 2 ^ 31"
  shows "getTotalViewTime (foldl (\<lambda>s t. record_view t s) Stats_new vs) quant =
    (let k = (if quant = 0 then 0 else length vs div unat (100 div quant));
         ts = drop k (take (length vs - k) (sort (map micros vs)))
     in if quant > 100 \<or> quant > 50 \<and> vs \<noteq> [] \<or> 2 ^ 32 \<le> sum_list ts then Inl Undefined
        else Inr (Times_new (word_of_nat (length ts)) (d_of_nat (sum_list ts))))"
proof -
  let ?xs = "map micros vs"
  have "\<forall>x\<in>set ?xs. x < 2 ^ 53" using assms(1) by auto
  then have "ss_viewTimes (foldl (\<lambda>s t. record_view t s) Stats_new vs) = map d_of_nat (sort ?xs)"
    using assms(1) record_views [of vs Stats_new] by (simp add: view_samples.empty insert_all_nat)
  moreover have "samples_total (map d_of_nat (sort ?xs)) quant = total_of ?xs quant"
    using assms by (intro samples_total_nat) auto
  ultimately have "getTotalViewTime (foldl (\<lambda>s t. record_view t s) Stats_new vs) quant = total_of ?xs quant"
    by (simp add: view_samples.summed)
  then show ?thesis by (simp add: total_of_def kept_def Let_def)
qed

theorem view_total_exact_witness:
  "getTotalViewTime (foldl (\<lambda>s t. record_view t s) Stats_new [(5000, 12500), (12500, 13000), (13000, 22000), (0, 4000)]) 25 =
     Inr (Times_new 2 (d_of_nat 11)) \<and>
   getTotalViewTime (foldl (\<lambda>s t. record_view t s) Stats_new [(0, 2 ^ 42)]) 0 = Inl Undefined"
  using view_total_exact [of "[(5000, 12500), (12500, 13000), (13000, 22000), (0, 4000)]" 25]
    view_total_exact [of "[(0, 2 ^ 42)]" 0]
  by (simp add: micros_def Let_def)

section \<open>The file of a replica\<close>

lemma add_handles_views: "ss_viewTimes (foldl (\<lambda>s x. addTotalHandleTime (d_of_nat x) s) s hs) = ss_viewTimes s"
  by (induction hs arbitrary: s) (simp_all add: addTotalHandleTime_def)

lemma record_views_handles: "ss_handleTimes (foldl (\<lambda>s t. record_view t s) s vs) = ss_handleTimes s"
  by (induction vs arbitrary: s) (auto simp: record_view_def addTotalViewTime_def incExecViews_def split: prod.splits)

lemma total_of_all: "sum_list xs < 2 ^ 32 \<Longrightarrow> total_of xs 0 = Inr (Times_new (word_of_nat (length xs)) (d_of_nat (sum_list xs)))"
  using sum_mset_sum_list [of "sort xs"] by (simp add: total_of_def kept_def sum_mset_sum_list)

lemma samples_all:
  assumes "sum_list xs < 2 ^ 32" and "length xs < 2 ^ 31"
  shows "samples_total (foldl (\<lambda>l x. multiset_insert (d_of_nat x) l) [] xs) 0 =
    Inr (Times_new (word_of_nat (length xs)) (d_of_nat (sum_list xs)))"
proof -
  have "\<forall>x\<in>set xs. x < 2 ^ 52" using member_le_sum_list [of _ xs] assms(1) by fastforce
  moreover from this have "\<forall>x\<in>set xs. x < 2 ^ 53" by auto
  ultimately show ?thesis using assms by (simp add: insert_all_nat samples_total_nat total_of_all)
qed

lemma recorded_totals:
  assumes "\<forall>t\<in>set vs. fst t \<le> snd t" and "sum_list (map micros vs) < 2 ^ 32" and "length vs < 2 ^ 31"
    and "sum_list hs < 2 ^ 32" and "length hs < 2 ^ 31"
    and s: "s = foldl (\<lambda>s x. addTotalHandleTime (d_of_nat x) s) (foldl (\<lambda>s t. record_view t s) Stats_new vs) hs"
  shows "getTotalViewTime s 0 = Inr (Times_new (word_of_nat (length vs)) (d_of_nat (sum_list (map micros vs))))"
    and "getTotalHandleTime s 0 = Inr (Times_new (word_of_nat (length hs)) (d_of_nat (sum_list hs)))"
  using samples_all [of "map micros vs"] samples_all [of hs] assms
  by (simp_all add: view_samples.summed handle_samples.summed add_handles_views record_views view_samples.empty
      handle_samples.all_stored record_views_handles handle_samples.empty)

text \<open>
  C40. The throughput that a replica of the basic protocol writes when it stops, in thousands of transactions in a
  second. Let it have executed at least one view, with view times of whole microseconds whose sum \<open>T\<close> is positive and
  fits into 32 bits, as the sum of the handling times does, and at most \<open>(2 ^ 32 - 1) / 100\<close> views. Then the line is
  written, its first field is the text that \<open>std::to_string\<close> makes of a number (6 decimals), and this number, before it is printed, is
  the exact quotient \<open>(100 * views / 1000) / (T / 10 ^ 6)\<close> up to a relative error of \<open>2 ^ - 49\<close>. The program counts
  \<open>MAX_NUM_TRANSACTIONS = 100\<close> transactions for every view, dummies included.
\<close>

theorem throughput_accurate:
  assumes "vs \<noteq> []" and "\<forall>t\<in>set vs. fst t \<le> snd t"
    and "sum_list (map micros vs) = T" "0 < T" "T < 2 ^ 32" and "MAX_NUM_TRANSACTIONS * length vs < 2 ^ 32"
    and "sum_list hs < 2 ^ 32" and "length hs < 2 ^ 31"
    and "s = foldl (\<lambda>s x. addTotalHandleTime (d_of_nat x) s) (foldl (\<lambda>s t. record_view t s) Stats_new vs) hs"
    and "X = (real (MAX_NUM_TRANSACTIONS * length vs) / 1000) / (real T / 10 ^ 6)"
  shows "\<exists>x line t. recordStats_basic nan s = Inr (d_to_string nan x @ space @ line) \<and> d_pos x t \<and> \<bar>t - X\<bar> \<le> 2 powi - 49 * X"
proof -
  define m where "m = MAX_NUM_TRANSACTIONS * length vs"
  have n: "0 < m" "m < 2 ^ 32" using assms by (simp_all add: m_def MAX_NUM_TRANSACTIONS_def)
  have small: "2 powi - 100 \<le> a / b \<and> a / b \<le> 2 powi 100" if "1 / 2 ^ 33 \<le> a" "a \<le> 2 ^ 33" "1 / 2 ^ 33 \<le> b" "b \<le> 2 ^ 33" for a b :: real
  proof -
    have "(1 / 2 ^ 33) / 2 ^ 33 \<le> a / b" "a / b \<le> 2 ^ 33 / (1 / 2 ^ 33)" using that by (intro frac_le; simp)+
    moreover have "(2 :: real) powi - 100 \<le> (1 / 2 ^ 33) / 2 ^ 33" "2 ^ 33 / (1 / 2 ^ 33) \<le> (2 :: real) powi 100"
      by (simp_all add: power_int_minus)
    ultimately show ?thesis by linarith
  qed
  have close: "A / 2 \<le> a \<and> a \<le> 2 * A" if "near (2 powi - 52) a A" "0 < A" for a A :: real
  proof -
    have "2 powi - 52 * A \<le> 1 / 2 * A" using that by (intro mult_right_mono) (auto simp: power_int_minus)
    then show ?thesis using that unfolding near_def abs_le_iff by linarith
  qed
  have kops: "kops_views (word_of_nat (length vs)) = d_div (d_of_nat m) (d_of_nat 1000)"
  proof -
    have "word_of_nat (length vs) * word_of_nat MAX_NUM_TRANSACTIONS = (word_of_nat m :: u32)" by (simp add: m_def mult.commute)
    moreover have "unat (word_of_nat m :: u32) = m" using n(2) by (rule unat_of_nat_u32)
    moreover have "m < 2 ^ 53" using n by simp
    ultimately show ?thesis by (simp only: kops_views_def d_of_u32_def d_mul_one)
  qed
  have T: "0 < T" "T < 2 ^ 53" "real T < 2 ^ 32" "1 \<le> real T" using assms by simp_all
  have N: "real m < 2 ^ 32" "1 \<le> real m" using n by simp_all
  obtain a where a: "d_pos (kops_views (word_of_nat (length vs))) a" "near (2 powi - 52) a (real m / 1000)"
    using d_div_pos [OF d_pos_nat [of m] d_pos_nat [of 1000]] small [of "real m" 1000] n N unfolding kops by auto
  obtain b where b: "d_pos (d_div (d_of_nat T) (d_of_nat (1000 * 1000))) b" "near (2 powi - 52) b (real T / 10 ^ 6)"
    using d_div_pos [OF d_pos_nat [of T] d_pos_nat [of "1000 * 1000"]] small [of "real T" "10 ^ 6"] T by auto
  obtain t where t: "d_pos (throughput_of (kops_views (word_of_nat (length vs))) (d_of_nat T)) t" "near (2 powi - 52) t (a / b)"
    using d_div_pos [OF a(1) b(1)] small [of a b] close [OF a(2)] close [OF b(2)] N T
    by (auto simp: throughput_of_def)
  have "near (3 * 2 powi - 52) (a / b) X"
    using near_div [OF _ _ a(2) _ b(2)] N T by (simp add: assms m_def power_int_minus)
  then have "near (8 * 2 powi - 52) t X"
    using near_trans [OF t(2)] N T by (simp add: assms m_def power_int_minus)
  moreover have "\<exists>line. recordStats_basic nan s =
      Inr (d_to_string nan (throughput_of (kops_views (word_of_nat (length vs))) (d_of_nat T)) @ space @ line)"
    using recorded_totals [OF assms(2) _ _ assms(7-9)] assms(3,5,6)
    by (simp add: recordStats_basic_def Times_new_def stats_line_def Let_def MAX_NUM_TRANSACTIONS_def)
  ultimately show ?thesis using t(1) by (auto simp: near_def power_int_minus)
qed

text \<open>Two views of 1.5 and 0.5 milliseconds: 200 transactions in 2 milliseconds.\<close>

theorem throughput_accurate_witness:
  "\<exists>x line t. recordStats_basic [] (foldl (\<lambda>s t. record_view t s) Stats_new [(0, 1500000), (1500000, 2000000)]) =
      Inr (d_to_string [] x @ space @ line) \<and> d_pos x t \<and> \<bar>t - 100\<bar> \<le> 2 powi - 49 * 100"
  using throughput_accurate [of "[(0, 1500000), (1500000, 2000000)]" 2000 "[]"
      "foldl (\<lambda>s t. record_view t s) Stats_new [(0, 1500000), (1500000, 2000000)]" 100 "[]"]
  by (simp add: micros_def MAX_NUM_TRANSACTIONS_def)

end
