(* ===== verification/KeysProps.thy ===== *)
theory KeysProps
  imports Keys ConfigProps
begin

text \<open>
  Keys that the four generators of \<open>KeysFun\<close> have written for some nodes are the keys that the loaders of the same
  scheme read for these nodes.
\<close>

text \<open>
  What is used of OpenSSL: a key that has been written is read back, a public key as the public part
  of the pair, and the texts are C strings.
\<close>

definition pem_contract :: "pem_lib \<Rightarrow> (KEY \<Rightarrow> KEY) \<Rightarrow> bool" where
  "pem_contract L pub_of \<longleftrightarrow>
     (\<forall>k. PEM_read_RSAPrivateKey L (PEM_write_RSAPrivateKey L k) = k \<and>
          PEM_read_RSAPublicKey L (PEM_write_RSAPublicKey L k) = pub_of k \<and>
          PEM_read_ECPrivateKey L (PEM_write_PrivateKey L k) = k \<and>
          PEM_read_EC_PUBKEY L (PEM_write_PUBKEY L k) = pub_of k \<and>
          0 \<notin> set (PEM_write_RSAPrivateKey L k) \<and> 0 \<notin> set (PEM_write_RSAPublicKey L k) \<and>
          0 \<notin> set (PEM_write_PrivateKey L k) \<and> 0 \<notin> set (PEM_write_PUBKEY L k))"

definition key_name :: "key_scheme \<Rightarrow> string \<Rightarrow> nat \<Rightarrow> bytes" where
  "key_name scheme part n =
     keys_dir @ ascii ((case scheme of KK_RSA2048 \<Rightarrow> ''rsa2048_'' | KK_RSA4096 \<Rightarrow> ''rsa4096_'' | KK_EC256 \<Rightarrow> ''ec256_''
        | KK_EC521 \<Rightarrow> ''ec521_'' | KK_NO \<Rightarrow> '''') @ part) @ dec_digits n"

definition private_text :: "pem_lib \<Rightarrow> key_scheme \<Rightarrow> KEY \<Rightarrow> bytes" where
  "private_text L scheme k =
     (if scheme = KK_RSA2048 \<or> scheme = KK_RSA4096 then PEM_write_RSAPrivateKey L k else PEM_write_PrivateKey L k)"

definition public_text :: "pem_lib \<Rightarrow> key_scheme \<Rightarrow> KEY \<Rightarrow> bytes" where
  "public_text L scheme k =
     (if scheme = KK_RSA2048 \<or> scheme = KK_RSA4096 then PEM_write_RSAPublicKey L k else PEM_write_PUBKEY L k)"

lemma key_name_inj:
  "key_name scheme part m = key_name scheme part n \<longleftrightarrow> m = n"
  "key_name scheme ''private'' m \<noteq> key_name scheme ''public'' n"
  by (auto simp: key_name_def dec_digits_inj) (simp add: ascii_def)

lemma takeWhile_string: "0 \<notin> set s \<Longrightarrow> takeWhile (\<lambda>c. c \<noteq> (0 :: u8)) (s @ [0]) = s"
  by (induction s) auto

lemma generated_files:
  assumes "pem_contract L pub_of" and "\<forall>name. writable name" and "0 \<le> i"
    and "(scheme, generate) \<in> {(KK_RSA2048, generateRsa2048Keys L), (KK_RSA4096, generateRsa4096Keys L),
      (KK_EC256, generateEc256Keys L), (KK_EC521, generateEc521Keys L)}"
  shows "generate writable k i fs =
    fs(key_name scheme ''private'' (nat i) \<mapsto> private_text L scheme k, key_name scheme ''public'' (nat i) \<mapsto> public_text L scheme k)"
  using assms
  by (auto simp: generateRsa2048Keys_def generateRsa4096Keys_def generateEc256Keys_def generateEc521Keys_def
       write_file_def bio_take_def key_name_def private_text_def public_text_def int_to_string_def pem_contract_def
       takeWhile_string ascii_def fun_eq_iff)

lemma load_files:
  assumes "scheme \<noteq> KK_NO"
  shows "loadPrivateKey L scheme fs i key = read_key fs (key_name scheme ''private'' (unat i))
      (if scheme = KK_RSA2048 \<or> scheme = KK_RSA4096 then PEM_read_RSAPrivateKey L else PEM_read_ECPrivateKey L) key"
    and "loadPublicKey L scheme fs i key = read_key fs (key_name scheme ''public'' (unat i))
      (if scheme = KK_RSA2048 \<or> scheme = KK_RSA4096 then PEM_read_RSAPublicKey L else PEM_read_EC_PUBKEY L) key"
  using assms
  by (cases scheme; simp add: loadPrivateKey_def loadPrivateKey_RSA_def loadPrivateKey_EC_def loadPublicKey_def
      loadPublicKey_RSA_def loadPublicKey_EC_def rsa_file_def ec_file_def key_name_def to_string_def ascii_def)+

text \<open>
  C31. Round trip of the keys. Let one of the four generators of \<open>KeysFun\<close> write the key pairs \<open>ks\<close> one after the other
  for different nodes (numbers from 0 below \<open>2 ^ 31\<close>), in a directory in which every file can be written, with any files there before.
  Then the loaders of the same scheme read the pair of each node as its private key and the public part of the pair as its
  public key, whatever their variables held, if OpenSSL reads back the keys that it has written
  (\<open>pem_contract\<close>). This is about the functions of \<open>KeysFun\<close>: the caller of the generators is not among
  the sources, and in the build that \<open>key.h\<close> selects the servers do not load key files.
\<close>

theorem generated_keys_load:
  assumes "pem_contract L pub_of" and "\<forall>name. writable name"
    and "(scheme, generate) \<in> {(KK_RSA2048, generateRsa2048Keys L), (KK_RSA4096, generateRsa4096Keys L),
      (KK_EC256, generateEc256Keys L), (KK_EC521, generateEc521Keys L)}"
    and "distinct (map fst ks)" and "\<forall>(i, k)\<in>set ks. 0 \<le> i \<and> i < 2 ^ 31" and "(i, k) \<in> set ks"
  shows "loadPrivateKey L scheme (foldl (\<lambda>fs (i, k). generate writable k i fs) fs ks) (word_of_int i) priv = (0, k) \<and>
    loadPublicKey L scheme (foldl (\<lambda>fs (i, k). generate writable k i fs) fs ks) (word_of_int i) pub = (0, pub_of k)"
proof -
  let ?fs = "\<lambda>ks. foldl (\<lambda>fs (i, k). generate writable k i fs) fs ks"
  have files: "?fs ks (key_name scheme ''private'' (nat i)) = Some (private_text L scheme k) \<and>
      ?fs ks (key_name scheme ''public'' (nat i)) = Some (public_text L scheme k)"
    using assms(4-6)
  proof (induction ks rule: rev_induct)
    case (snoc p ks)
    obtain j l where p: "p = (j, l)" by (cases p)
    with snoc.prems have "0 \<le> j" "0 \<le> i" by auto
    note new = generated_files [OF assms(1,2) _ assms(3)]
    show ?case
    proof (cases "i = j")
      case True
      with snoc.prems p have "l = k" by (auto simp: image_iff split: prod.splits)
      with True p \<open>0 \<le> j\<close> show ?thesis by (simp add: new key_name_inj key_name_inj(2) [symmetric])
    next
      case False
      with p snoc \<open>0 \<le> j\<close> \<open>0 \<le> i\<close> show ?thesis
        by (simp add: new key_name_inj key_name_inj(2) [symmetric] eq_nat_nat_iff)
    qed
  qed simp
  have "0 \<le> i" "i < 2 ^ 31" using assms(5,6) by auto
  then have "unat (word_of_int i :: u32) = nat i" by (simp add: unat_eq_nat_uint uint_word_of_int)
  moreover have "scheme \<noteq> KK_NO" using assms(3) by auto
  ultimately show ?thesis using files assms(1)
    by (simp add: load_files read_key_def private_text_def public_text_def pem_contract_def)
qed

text \<open>A library whose texts are the decimal numbers of the keys.\<close>

definition pem_digits :: pem_lib where
  "pem_digits = \<lparr>PEM_read_RSAPrivateKey = read_digits, PEM_read_RSAPublicKey = read_digits, PEM_read_ECPrivateKey = read_digits,
     PEM_read_EC_PUBKEY = read_digits, PEM_write_RSAPrivateKey = dec_digits, PEM_write_RSAPublicKey = dec_digits,
     PEM_write_PrivateKey = dec_digits, PEM_write_PUBKEY = dec_digits, EVP_assign = (\<lambda>k. k)\<rparr>"

lemma dec_digits_no_0: "0 \<notin> set (dec_digits n)"
  using dec_digits_digits digit_not by blast

lemma pem_digits_contract: "pem_contract pem_digits (\<lambda>k. k)"
  by (simp add: pem_contract_def pem_digits_def dec_digits_no_0)

theorem generated_keys_load_witness:
  "loadPrivateKey pem_digits KK_EC521
     (foldl (\<lambda>fs (i, k). generateEc521Keys pem_digits (\<lambda>_. True) k i fs) (\<lambda>_. None) [(0, 17), (1, 23), (12, 5)]) 12 0 = (0, 5)"
  using generated_keys_load [OF pem_digits_contract, of "\<lambda>_. True" KK_EC521 "generateEc521Keys pem_digits" "[(0, 17), (1, 23), (12, 5)]" 12 5 "\<lambda>_. None" 0 0]
  by simp

end
