(* ===== verification/SignSchemes.thy ===== *)
theory SignSchemes
  imports Signatures Keys
begin

text \<open>
  The signatures of the other builds (\<open>App/Sign.cpp\<close>): with RSA, with the interface \<open>EVP\<close>, and the
  earlier function for elliptic curves. They write the whole signature into the array of \<open>SIGN_LEN\<close> bytes;
  the function that the build uses (\<open>Signatures.signText\<close>) does not.
\<close>

section \<open>Signing and verifying\<close>

text \<open>\<open>SIGN_LEN\<close> of each build.\<close>

definition sign_len :: "key_scheme \<Rightarrow> nat" where
  "sign_len scheme =
     (case scheme of KK_NO \<Rightarrow> 0 | KK_RSA4096 \<Rightarrow> 512 | KK_RSA2048 \<Rightarrow> 256 | KK_EC521 \<Rightarrow> 139 | KK_EC256 \<Rightarrow> 72)"

record sign_lib = crypto +
  RSA_sign :: "bytes \<Rightarrow> KEY \<Rightarrow> bytes option"
  RSA_verify :: "bytes \<Rightarrow> bytes \<Rightarrow> KEY \<Rightarrow> int"
  EVP_PKEY_sign :: "bytes \<Rightarrow> KEY \<Rightarrow> bytes option"
  EVP_PKEY_verify :: "bytes \<Rightarrow> bytes \<Rightarrow> KEY \<Rightarrow> int"

text \<open>The library writes a signature to the start of the array \<open>sign\<close>, of which the caller gives no length.\<close>

definition write_sign :: "bytes \<Rightarrow> bytes \<Rightarrow> bytes res" where
  "write_sign s sign = (if length s \<le> length sign then Inr (s @ drop (length s) sign) else Inl OutOfBounds)"

text \<open>The result \<open>None\<close> is \<open>exit(0)\<close>.\<close>

definition signText_RSA :: "'a sign_lib_scheme \<Rightarrow> bytes \<Rightarrow> KEY \<Rightarrow> bytes \<Rightarrow> bytes option res" where
  "signText_RSA C text priv sign =
     (case RSA_sign C (SHA256 C text) priv of
        None \<Rightarrow> Inr None
      | Some s \<Rightarrow> bindE (write_sign s sign) (\<lambda>sign. Inr (Some sign)))"

definition old_signText :: "'a sign_lib_scheme \<Rightarrow> bytes \<Rightarrow> KEY \<Rightarrow> bytes \<Rightarrow> bytes option res" where
  "old_signText C text priv sign =
     (case ECDSA_sign C (SHA256 C text) priv of
        None \<Rightarrow> Inr None
      | Some s \<Rightarrow> bindE (write_sign s sign) (\<lambda>sign. Inr (Some sign)))"

text \<open>A failure is printed, and the array stays as it is.\<close>

definition signText_EVP :: "'a sign_lib_scheme \<Rightarrow> bytes \<Rightarrow> KEY \<Rightarrow> bytes \<Rightarrow> bytes option res" where
  "signText_EVP C text priv sign =
     (case EVP_PKEY_sign C (SHA256 C text) priv of
        None \<Rightarrow> Inr (Some sign)
      | Some s \<Rightarrow> bindE (write_sign s sign) (\<lambda>sign. Inr (Some sign)))"

text \<open>The results of the library are converted to \<open>bool\<close>; \<open>EVP_PKEY_verify\<close> may be negative, \<open>RSA_verify\<close> is 1 or 0.\<close>

definition verifyText_RSA :: "'a sign_lib_scheme \<Rightarrow> bytes \<Rightarrow> KEY \<Rightarrow> bytes \<Rightarrow> bool" where
  "verifyText_RSA C text pub sign \<longleftrightarrow> RSA_verify C (SHA256 C text) sign pub \<noteq> 0"

definition verifyText_EVP :: "'a sign_lib_scheme \<Rightarrow> bytes \<Rightarrow> KEY \<Rightarrow> bytes \<Rightarrow> bool" where
  "verifyText_EVP C text pub sign \<longleftrightarrow> EVP_PKEY_verify C (SHA256 C text) sign pub \<noteq> 0"

section \<open>Properties\<close>

text \<open>
  In the RSA builds an honest signature verifies, with a key of the length of the build: the array holds
  exactly the signature. A longer key makes the library write behind the array.
\<close>

theorem rsa_signature_verifies:
  assumes "RSA_sign C (SHA256 C text) priv = Some s" and "length sign = sign_len scheme"
    and "RSA_verify C (SHA256 C text) s pub = 1"
  shows "length s = sign_len scheme \<Longrightarrow> signText_RSA C text priv sign = Inr (Some s) \<and> verifyText_RSA C text pub s"
    and "sign_len scheme < length s \<Longrightarrow> signText_RSA C text priv sign = Inl OutOfBounds"
  using assms by (simp_all add: signText_RSA_def write_sign_def verifyText_RSA_def)

theorem rsa_signature_verifies_witness:
  "\<exists>(C :: sign_lib) s. signText_RSA C [7] 1 (replicate 256 0) = Inr (Some s) \<and> verifyText_RSA C [7] 2 s"
proof -
  let ?C = "\<lparr>SHA256 = (\<lambda>_. replicate SHA256_DIGEST_LENGTH 1), ECDSA_sign = (\<lambda>_ _. None), ECDSA_verify = (\<lambda>_ _ _. 0),
    fresh_buffer = (\<lambda>_. replicate SIGN_LEN 0), RSA_sign = (\<lambda>_ _. Some (replicate 256 3)), RSA_verify = (\<lambda>_ s _. if s = replicate 256 3 then 1 else 0),
    EVP_PKEY_sign = (\<lambda>_ _. None), EVP_PKEY_verify = (\<lambda>_ _ _. 0)\<rparr>"
  from rsa_signature_verifies(1) [of ?C "[7]" 1 "replicate 256 3" "replicate 256 0" KK_RSA2048 2]
  show ?thesis by (intro exI [of _ ?C] exI [of _ "replicate 256 3"]) (simp add: sign_len_def)
qed

end
