(* ===== verification/Startup.thy ===== *)
theory Startup
  imports Config Keys Client Doubles
begin

text \<open>
  The \<open>main\<close> functions of \<open>App/Server.cpp\<close> and \<open>App/Client.cpp\<close> and the part of the constructor of
  \<open>Handler\<close> that opens the network: arguments, keys, the nodes of the configuration file with their public keys,
  the limit on the size of a message, the addresses to listen on and to connect to. Parameters: the sizes of
  the message classes, what a fresh key variable holds, and the number that the network library gives to a connection.
\<close>

section \<open>Sizes of messages\<close>

text \<open>\<open>params.h\<close> defines one of these macros.\<close>

datatype protocol = BASIC_BASELINE | CHAINED_BASELINE | PARALLEL_HOTSTUFF

datatype msg_class =
    Sz_Transaction | Sz_Reply | Sz_Start
  | Sz_NewView | Sz_Prepare | Sz_LdrPrepare | Sz_PreCommit | Sz_Commit
  | Sz_NewViewCh | Sz_LdrPrepareCh | Sz_PrepareCh
  | Sz_NewViewPara | Sz_PreparePara | Sz_RecoverPara | Sz_LdrRecoverPara | Sz_VerifyPara
  | Sz_LdrPreparePara | Sz_PreCommitPara | Sz_CommitPara | Sz_PBlock | Sz_Hash

definition max_size :: "(msg_class \<Rightarrow> nat) \<Rightarrow> protocol \<Rightarrow> u32 \<Rightarrow> nat" where
  "max_size sz protocol maxBlocks =
     (let size = Max (set (map sz [Sz_Transaction, Sz_Reply, Sz_Start])) in
      case protocol of
        BASIC_BASELINE \<Rightarrow>
          Max (set (size # map sz [Sz_NewView, Sz_Prepare, Sz_LdrPrepare, Sz_PreCommit, Sz_Commit]))
      | CHAINED_BASELINE \<Rightarrow> Max (set (size # map sz [Sz_NewViewCh, Sz_LdrPrepareCh, Sz_PrepareCh]))
      | PARALLEL_HOTSTUFF \<Rightarrow>
          Max (set ([size, sz Sz_NewViewPara, sz Sz_PreparePara, sz Sz_RecoverPara + unat maxBlocks * sz Sz_PBlock,
            sz Sz_LdrRecoverPara, sz Sz_VerifyPara + unat maxBlocks * sz Sz_Hash] @
            map sz [Sz_LdrPreparePara, Sz_PreCommitPara, Sz_CommitPara])))"

section \<open>Addresses\<close>

text \<open>\<open>host + ":" + std::to_string(port)\<close>\<close>

definition net_addr :: "bytes \<Rightarrow> PORT \<Rightarrow> bytes" where
  "net_addr host port = host @ [58] @ to_string port"

text \<open>A node that is not in the table listens on the local host and ports made of its number.\<close>

definition own_node :: "PID \<Rightarrow> Nodes \<Rightarrow> bytes \<times> PORT \<times> PORT" where
  "own_node i ns =
     (case nodes_find ns i of
        Some nfo \<Rightarrow> (ni_host nfo, ni_rport nfo, ni_cport nfo)
      | None \<Rightarrow> (ascii ''127.0.0.1'', 8760 + i, 9760 + i))"

definition listen_peers :: "PID \<Rightarrow> Nodes \<Rightarrow> bytes" where
  "listen_peers i ns = (let (host, rport, cport) = own_node i ns in net_addr host rport)"

definition listen_clients :: "PID \<Rightarrow> Nodes \<Rightarrow> bytes" where
  "listen_clients i ns = (let (host, rport, cport) = own_node i ns in net_addr host cport)"

text \<open>The addresses to which the loop over the other nodes connects.\<close>

definition peer_addresses :: "Handler \<Rightarrow> (PID \<times> bytes) list" where
  "peer_addresses h = map (\<lambda>(j, host, rport). (j, net_addr host rport)) (h_peers h)"

section \<open>Result files\<close>

text \<open>
  The names of the files with results; \<open>seconds\<close> is the difference of times from \<open>difftime\<close>, a finite number.
\<close>

definition stats_vals :: "PID \<Rightarrow> double \<Rightarrow> bytes" where
  "stats_vals i seconds = ascii ''/app/stats/vals-'' @ to_string i @ [45] @ d_to_string [] seconds"

definition stats_done :: "PID \<Rightarrow> double \<Rightarrow> bytes" where
  "stats_done i seconds = ascii ''/app/stats/done-'' @ to_string i @ [45] @ d_to_string [] seconds"

definition client_stats_file :: "u32 \<Rightarrow> CID \<Rightarrow> double \<Rightarrow> bytes" where
  "client_stats_file inst cid seconds =
     ascii ''/app/stats/client-throughput-latency-'' @ to_string inst @ [45] @ to_string cid @ [45] @ d_to_string [] seconds"

section \<open>The server\<close>

text \<open>
  The private key: in the build with \<open>KK_EC256\<close> the one of the program, in the others the node's own,
  without which the program ends (\<open>None\<close>). \<open>fresh\<close> is what the variable holds before: nothing in particular, or
  \<open>RSA_new()\<close>.
\<close>

definition server_priv :: "pem_lib \<Rightarrow> key_scheme \<Rightarrow> file_system \<Rightarrow> PID \<Rightarrow> KEY \<Rightarrow> KEY option" where
  "server_priv L scheme fs myid fresh =
     (if scheme = KK_EC256 then Some (PEM_read_ECPrivateKey L priv_key256)
      else (let (failed, priv) = loadPrivateKey L scheme fs myid fresh in if failed \<noteq> 0 then None else Some priv))"

definition server_pub :: "pem_lib \<Rightarrow> key_scheme \<Rightarrow> file_system \<Rightarrow> PID \<Rightarrow> KEY \<Rightarrow> KEY" where
  "server_pub L scheme fs i fresh =
     (if scheme = KK_EC256 then PEM_read_EC_PUBKEY L pub_key256 else snd (loadPublicKey L scheme fs i fresh))"

text \<open>The loop that sets the public keys of the nodes 0 to \<open>numNodes - 1\<close>.\<close>

definition set_pubs :: "(PID \<Rightarrow> KEY) \<Rightarrow> u32 \<Rightarrow> Nodes \<Rightarrow> Nodes" where
  "set_pubs key nn ns = foldl (\<lambda>ns i. setPub ns i (key i)) ns (map word_of_nat [0..<unat nn])"

record server =
  srv_handler :: Handler
  srv_peers :: bytes             \<comment> \<open>the address of \<open>pnet\<close>\<close>
  srv_clients :: bytes           \<comment> \<open>the address of \<open>cnet\<close>\<close>
  srv_max_msg_size :: nat

text \<open>The configuration file is an argument, with what the line buffer of its reader holds.\<close>

definition server_main ::
  "crypto \<Rightarrow> pem_lib \<Rightarrow> key_scheme \<Rightarrow> protocol \<Rightarrow> (msg_class \<Rightarrow> nat) \<Rightarrow> file_system \<Rightarrow> bytes option \<Rightarrow> bytes \<Rightarrow>
     (PID \<Rightarrow> KEY) \<Rightarrow> (nat \<Rightarrow> bool) \<Rightarrow> bytes list \<Rightarrow> server option res" where
  "server_main C L scheme protocol sz fs file oneline fresh forced argv =
     bindE (parse_server_args argv) (\<lambda>a.
     case server_priv L scheme fs (sv_myid a) (fresh (sv_myid a)) of
       None \<Rightarrow> Inr None
     | Some priv \<Rightarrow>
         bindE (Nodes_file file (sv_numNodes a) oneline) (\<lambda>ns.
         let ns = set_pubs (\<lambda>i. server_pub L scheme fs i (fresh i)) (sv_numNodes a) ns;
             size = max_size sz protocol (sv_maxBlocksInView a)
         in bindE (Handler_new C (sv_myid a) (sv_constFactor a) (sv_numFaults a) (sv_numViews a) ns priv
                     (sv_maxBlocksInView a) forced (sv_byzantine a)) (\<lambda>h.
            Inr (Some \<lparr>srv_handler = h, srv_peers = listen_peers (sv_myid a) ns,
              srv_clients = listen_clients (sv_myid a) ns, srv_max_msg_size = 2 * size\<rparr>))))"

section \<open>The client\<close>

record client_start =
  cs_client :: Client
  cs_nodes :: Nodes
  cs_addresses :: "(PID \<times> bytes) list"
  cs_max_msg_size :: nat

definition client_addresses :: "u32 \<Rightarrow> Nodes \<Rightarrow> (PID \<times> bytes) list" where
  "client_addresses nn ns =
     concat (map (\<lambda>j. case nodes_find ns j of
                        Some nfo \<Rightarrow> [(j, net_addr (ni_host nfo) (ni_cport nfo))]
                      | None \<Rightarrow> [])
                 (map word_of_nat [0..<unat nn]))"

text \<open>
  The result of \<open>loadPublicKey\<close> is not looked at: without the file, \<open>setPub\<close> gets what the variable
  holds. \<open>connect\<close> is \<open>net->connect_sync\<close>; the client has then sent its start message to all connections.
\<close>

definition client_main ::
  "pem_lib \<Rightarrow> key_scheme \<Rightarrow> protocol \<Rightarrow> (msg_class \<Rightarrow> nat) \<Rightarrow> file_system \<Rightarrow> bytes option \<Rightarrow> bytes \<Rightarrow>
     (PID \<Rightarrow> KEY) \<Rightarrow> (bytes \<Rightarrow> conn) \<Rightarrow> clock \<Rightarrow> bytes list \<Rightarrow> client_start res" where
  "client_main L scheme protocol sz fs file oneline fresh connect now argv =
     bindE (parse_client_args argv) (\<lambda>a.
     bindE (Nodes_file file (ca_numNodes a) oneline) (\<lambda>ns.
     let ns = set_pubs (\<lambda>i. snd (loadPublicKey L scheme fs i (fresh i))) (ca_numNodes a) ns;
         size = max_size sz protocol (ca_maxBlocks a);
         addrs = client_addresses (ca_numNodes a) ns;
         conns = map (\<lambda>(j, addr). (j, connect addr)) addrs;
         c = Client_new (ca_cid a) (ca_qsize a) (ca_numInstances a) conns (protocol = CHAINED_BASELINE) now
     in Inr \<lparr>cs_client = send_start_to_all c, cs_nodes = ns, cs_addresses = addrs, cs_max_msg_size = size\<rparr>))"

end
