(* ===== verification/StartupProps.thy ===== *)
theory StartupProps
  imports Startup KeysProps BasicProps
begin

text \<open>
  What the nodes of a network know of each other after they have started: the addresses match, and in the build with the key
  pair of the program every node can sign for every other.
\<close>

section \<open>The table of nodes\<close>

lemma set_pubs_list:
  "nodes_find (foldl (\<lambda>ns i. setPub ns i (key i)) ns is) j =
     map_option (\<lambda>nfo. if j \<in> set is then nfo\<lparr>ni_pub := key j\<rparr> else nfo) (nodes_find ns j)"
proof (induction "is" arbitrary: ns)
  case (Cons i "is")
  then show ?case by (cases "nodes_find ns j") (auto simp: nodes_find_setPub)
qed (simp add: option.map_ident)

lemma below_words: "j \<in> set (map word_of_nat [0..<unat (nn :: u32)]) \<longleftrightarrow> j < nn"
proof
  assume "j < nn"
  then show "j \<in> set (map word_of_nat [0..<unat nn])"
    by (auto simp: word_less_nat_alt image_iff intro!: bexI [of _ "unat j"])
next
  assume "j \<in> set (map word_of_nat [0..<unat nn])"
  then obtain k where k: "k < unat nn" "j = word_of_nat k" by auto
  then have "unat j = k" using unat_u32_less [of nn] by (simp add: unat_of_nat_u32)
  with k show "j < nn" by (simp add: word_less_nat_alt)
qed

lemma set_pubs_find:
  "nodes_find (set_pubs key nn ns) j = map_option (\<lambda>nfo. if j < nn then nfo\<lparr>ni_pub := key j\<rparr> else nfo) (nodes_find ns j)"
  unfolding set_pubs_def set_pubs_list below_words ..

lemma in_peers_list:
  "(j, p) \<in> set (concat (map (\<lambda>j. case nodes_find ns j of Some nfo \<Rightarrow> if P j then [(j, g nfo)] else [] | None \<Rightarrow> []) js)) \<longleftrightarrow>
     j \<in> set js \<and> P j \<and> (\<exists>nfo. nodes_find ns j = Some nfo \<and> p = g nfo)"
proof (induction js)
  case (Cons i js)
  then show ?case by (cases "nodes_find ns i") auto
qed simp

lemma in_Handler_peers:
  "(j, p) \<in> set (Handler_peers i tot ns) \<longleftrightarrow>
     j < tot \<and> j \<noteq> i \<and> (\<exists>nfo. nodes_find ns j = Some nfo \<and> p = (ni_host nfo, ni_rport nfo))"
  unfolding Handler_peers_def in_peers_list below_words ..

lemma in_client_addresses:
  "(j, addr) \<in> set (client_addresses nn ns) \<longleftrightarrow>
     j < nn \<and> (\<exists>nfo. nodes_find ns j = Some nfo \<and> addr = net_addr (ni_host nfo) (ni_cport nfo))"
  using in_peers_list [where P = "\<lambda>_. True" and j = j and p = addr and ns = ns and g = "\<lambda>nfo. net_addr (ni_host nfo) (ni_cport nfo)"]
  by (simp only: client_addresses_def if_True below_words) simp

lemma in_peer_addresses:
  "(j, addr) \<in> set (peer_addresses h) \<longleftrightarrow> (\<exists>host rport. (j, host, rport) \<in> set (h_peers h) \<and> addr = net_addr host rport)"
  by (auto simp: peer_addresses_def image_iff split: prod.splits) blast

lemma Handler_new_start:
  "Handler_new C i cf nf mv ns k mb fo bz = Inr h \<Longrightarrow>
     h_nodes h = ns \<and> h_priv h = k \<and> h_peers h = Handler_peers i (cf * nf + 1) ns \<and> h_qsize h = cf * nf + 1 - nf"
  by (auto simp: Handler_new_def Let_def bindE_Inr_iff)

text \<open>What a server that has started is made of.\<close>

lemma server_main_parts:
  assumes "server_main C L scheme protocol sz fs file oneline fresh forced argv = Inr (Some s)" and "parse_server_args argv = Inr a"
  obtains priv ns where "server_priv L scheme fs (sv_myid a) (fresh (sv_myid a)) = Some priv"
    and "Nodes_file file (sv_numNodes a) oneline = Inr ns"
    and "h_nodes (srv_handler s) = set_pubs (\<lambda>i. server_pub L scheme fs i (fresh i)) (sv_numNodes a) ns"
    and "h_priv (srv_handler s) = priv"
    and "h_peers (srv_handler s) = Handler_peers (sv_myid a) (sv_numNodes a) (h_nodes (srv_handler s))"
    and "srv_peers s = listen_peers (sv_myid a) (h_nodes (srv_handler s))"
    and "srv_clients s = listen_clients (sv_myid a) (h_nodes (srv_handler s))"
    and "srv_max_msg_size s = 2 * max_size sz protocol (sv_maxBlocksInView a)"
proof -
  have n: "sv_numNodes a = sv_constFactor a * sv_numFaults a + 1"
    using assms(2) by (auto simp: parse_server_args_def bindE_Inr_iff)
  from assms obtain priv ns h where
    "server_priv L scheme fs (sv_myid a) (fresh (sv_myid a)) = Some priv" "Nodes_file file (sv_numNodes a) oneline = Inr ns"
    and h: "Handler_new C (sv_myid a) (sv_constFactor a) (sv_numFaults a) (sv_numViews a)
        (set_pubs (\<lambda>i. server_pub L scheme fs i (fresh i)) (sv_numNodes a) ns) priv (sv_maxBlocksInView a) forced (sv_byzantine a) = Inr h"
      "s = \<lparr>srv_handler = h, srv_peers = listen_peers (sv_myid a) (set_pubs (\<lambda>i. server_pub L scheme fs i (fresh i)) (sv_numNodes a) ns),
         srv_clients = listen_clients (sv_myid a) (set_pubs (\<lambda>i. server_pub L scheme fs i (fresh i)) (sv_numNodes a) ns),
         srv_max_msg_size = 2 * max_size sz protocol (sv_maxBlocksInView a)\<rparr>"
    by (auto simp: server_main_def bindE_Inr_iff Let_def split: option.splits)
  with that Handler_new_start [OF h(1)] n show ?thesis by simp
qed

section \<open>Properties\<close>

text \<open>
  C30. The nodes of a network find each other. Let two servers and a client start, each from its own command line and with
  its own line buffer, with one configuration file in the format of the scripts, and with the same number of nodes
  \<open>n\<close>. Let the second server be a node below \<open>n\<close>, other than the first, that is one of the first
  \<open>n\<close> entries of the file. Then the first server connects to the second one under the address on which that one listens for
  replicas, and the client under the address on which it listens for clients, and to no other address
  under its number, whatever the keys are.
\<close>

theorem network_connects:
  assumes "\<forall>e\<in>set es. entry_ok e"
    and "server_main C L scheme protocol sz fs (Some (cfg_file es)) oneline fresh forced argv = Inr (Some s)"
    and "server_main C' L' scheme' protocol' sz' fs' (Some (cfg_file es)) oneline' fresh' forced' argv' = Inr (Some t)"
    and "client_main L'' scheme'' protocol'' sz'' fs'' (Some (cfg_file es)) oneline'' fresh'' connect now argc = Inr c"
    and "parse_server_args argv = Inr a" "parse_server_args argv' = Inr b" "parse_client_args argc = Inr d"
    and "sv_numNodes a = sv_numNodes b" "ca_numNodes d = sv_numNodes b"
    and "sv_myid b \<noteq> sv_myid a" "sv_myid b < sv_numNodes b"
    and "sv_myid b \<in> fst ` set (take (unat (sv_numNodes b)) es)"
  shows "(\<forall>addr. (sv_myid b, addr) \<in> set (peer_addresses (srv_handler s)) \<longleftrightarrow> addr = srv_peers t) \<and>
    (\<forall>addr. (sv_myid b, addr) \<in> set (cs_addresses c) \<longleftrightarrow> addr = srv_clients t)"
proof -
  let ?j = "sv_myid b" and ?n = "sv_numNodes b"
  define ns where "ns = fold (\<lambda>(i, host, r, c) ns. addNode ns i host r c) (take (unat ?n) es) []"
  have cfg: "Nodes_file (Some (cfg_file es)) ?n buf = Inr ns" for buf unfolding ns_def by (rule Nodes_file_roundtrip [OF assms(1)])
  have "?j \<in> fst ` set xs \<or> nodes_find ms ?j \<noteq> None \<Longrightarrow> nodes_find (fold (\<lambda>(i, host, r, c) ns. addNode ns i host r c) xs ms) ?j \<noteq> None" for xs ms
    by (induction xs arbitrary: ms) (auto simp: nodes_find_def addNode_def)
  with assms(12) obtain nfo where nfo: "nodes_find ns ?j = Some nfo" unfolding ns_def by blast
  obtain s_ns where s: "Nodes_file (Some (cfg_file es)) (sv_numNodes a) oneline = Inr s_ns"
    "h_nodes (srv_handler s) = set_pubs (\<lambda>i. server_pub L scheme fs i (fresh i)) (sv_numNodes a) s_ns"
    "h_peers (srv_handler s) = Handler_peers (sv_myid a) (sv_numNodes a) (h_nodes (srv_handler s))"
    by (rule server_main_parts [OF assms(2,5)]) blast
  obtain t_ns where t: "Nodes_file (Some (cfg_file es)) ?n oneline' = Inr t_ns"
    "h_nodes (srv_handler t) = set_pubs (\<lambda>i. server_pub L' scheme' fs' i (fresh' i)) ?n t_ns"
    "srv_peers t = listen_peers ?j (h_nodes (srv_handler t))" "srv_clients t = listen_clients ?j (h_nodes (srv_handler t))"
    by (rule server_main_parts [OF assms(3,6)]) blast
  have c: "cs_addresses c = client_addresses ?n (set_pubs (\<lambda>i. snd (loadPublicKey L'' scheme'' fs'' i (fresh'' i))) ?n ns)"
    using assms(4,7,9) cfg by (auto simp: client_main_def bindE_Inr_iff Let_def)
  have at: "nodes_find (set_pubs key ?n ns) ?j = Some (nfo\<lparr>ni_pub := key ?j\<rparr>)" for key
    using nfo assms(11) by (simp add: set_pubs_find)
  have "s_ns = ns" "t_ns = ns" using s(1) t(1) cfg assms(8) by simp_all
  then have "srv_peers t = net_addr (ni_host nfo) (ni_rport nfo)" "srv_clients t = net_addr (ni_host nfo) (ni_cport nfo)"
    using t at by (simp_all add: listen_peers_def listen_clients_def own_node_def)
  moreover have "(?j, addr) \<in> set (peer_addresses (srv_handler s)) \<longleftrightarrow> addr = net_addr (ni_host nfo) (ni_rport nfo)" for addr
    using s at \<open>s_ns = ns\<close> assms(8,10,11)
    by (simp add: in_peer_addresses in_Handler_peers)
  moreover have "(?j, addr) \<in> set (cs_addresses c) \<longleftrightarrow> addr = net_addr (ni_host nfo) (ni_cport nfo)" for addr
    using c at assms(11) by (simp add: in_client_addresses)
  ultimately show ?thesis by simp
qed

text \<open>The servers and the client of a network of four nodes, of which three are in the file.\<close>

lemma server_starts:
  assumes "\<forall>e\<in>set es. entry_ok e" and "parse_server_args argv = Inr a"
  shows "\<exists>s. server_main crypto_yes L KK_EC256 protocol sz fs (Some (cfg_file es)) oneline fresh forced argv = Inr (Some s)"
  using Handler_new_total
  by (auto simp: server_main_def assms(2) server_priv_def Nodes_file_roundtrip [OF assms(1)] Let_def bindE_Inr_iff)

definition demo_entries :: "entry list" where
  "demo_entries = [(0, [97], 8760, 9760), (1, [98], 8761, 9761), (2, [99], 8762, 9762)]"

lemma demo_entries_ok: "\<forall>e\<in>set demo_entries. entry_ok e"
proof -
  have "length (to_string (0 :: u32)) = 1" "length (to_string (1 :: u32)) = 1" "length (to_string (8760 :: u32)) = 4"
    "length (to_string (9760 :: u32)) = 4" "length (to_string (8761 :: u32)) = 4" "length (to_string (9761 :: u32)) = 4"
    "length (to_string (2 :: u32)) = 1" "length (to_string (8762 :: u32)) = 4" "length (to_string (9762 :: u32)) = 4"
    by (simp_all add: to_string_def dec_digits_small dec_digits_big)
  then show ?thesis by (simp add: demo_entries_def MAXLINE_def)
qed

lemma second_args:
  "parse_server_args [[], [49]] = Inr \<lparr>sv_myid = 1, sv_numFaults = 1, sv_constFactor = 3, sv_numViews = 10,
     sv_maxBlocksInView = 10, sv_byzantine = - 1, sv_numNodes = 4\<rparr>"
  by (simp add: parse_server_args_def arg_d_def sscanf_d_def scan_number_def is_space_def is_digit_def read_digits_def to_int_def Let_def)

theorem network_connects_witness:
  "\<exists>s t c. server_main crypto_yes pem_digits KK_EC256 BASIC_BASELINE (\<lambda>_. 8) (\<lambda>_. None) (Some (cfg_file demo_entries)) [] (\<lambda>_. 0) (\<lambda>_. False) [[]] = Inr (Some s) \<and>
     server_main crypto_yes pem_digits KK_EC256 BASIC_BASELINE (\<lambda>_. 8) (\<lambda>_. None) (Some (cfg_file demo_entries)) [] (\<lambda>_. 0) (\<lambda>_. False) [[], [49]] = Inr (Some t) \<and>
     client_main pem_digits KK_EC256 BASIC_BASELINE (\<lambda>_. 8) (\<lambda>_. None) (Some (cfg_file demo_entries)) [] (\<lambda>_. 0) length 0 [[]] = Inr c \<and>
     (1, srv_peers t) \<in> set (peer_addresses (srv_handler s)) \<and> (1, srv_clients t) \<in> set (cs_addresses c)"
proof -
  obtain s t where s: "server_main crypto_yes pem_digits KK_EC256 BASIC_BASELINE (\<lambda>_. 8) (\<lambda>_. None) (Some (cfg_file demo_entries)) [] (\<lambda>_. 0) (\<lambda>_. False) [[]] = Inr (Some s)"
    "server_main crypto_yes pem_digits KK_EC256 BASIC_BASELINE (\<lambda>_. 8) (\<lambda>_. None) (Some (cfg_file demo_entries)) [] (\<lambda>_. 0) (\<lambda>_. False) [[], [49]] = Inr (Some t)"
    using server_starts [OF demo_entries_ok default_args(2)] server_starts [OF demo_entries_ok second_args] by blast
  obtain c where c: "client_main pem_digits KK_EC256 BASIC_BASELINE (\<lambda>_. 8) (\<lambda>_. None) (Some (cfg_file demo_entries)) [] (\<lambda>_. 0) length 0 [[]] = Inr c"
    by (simp add: client_main_def default_args Nodes_file_roundtrip [OF demo_entries_ok] Let_def)
  from network_connects [OF demo_entries_ok s c default_args(2) second_args default_args(1)]
  have "(1, srv_peers t) \<in> set (peer_addresses (srv_handler s))" "(1, srv_clients t) \<in> set (cs_addresses c)"
    by (simp_all add: demo_entries_def)
  with s c show ?thesis by blast
qed

text \<open>
  C4. One node signs for all. In the build with \<open>KK_EC256\<close>, which is the one that \<open>key.h\<close> selects, every server has
  the private key of the program and knows every node under the public key of the program. So take any two servers that
  have started, the second one later a backup in some view, and \<open>qsize\<close> different nodes in its table.
  If the key pair works (a signature that is made with the one key verifies under the other),
  the signatures that the first server alone makes in the names of these nodes form a
  certificate of \<open>qsize\<close> different signers for any statement of this view, and the
  second server executes it. The agreement of the replicas therefore rests on keys that the build does not provide.
\<close>

theorem one_node_signs_for_all:
  assumes "server_main C L KK_EC256 protocol sz fs cfg oneline fresh forced argv = Inr (Some s)"
    and "server_main C L KK_EC256 protocol sz fs' cfg' oneline' fresh' forced' argv' = Inr (Some t)"
    and "parse_server_args argv' = Inr b"
    and "\<forall>i text. sign_verify C (Sign_make C (PEM_read_ECPrivateKey L priv_key256) i text) (PEM_read_EC_PUBKEY L pub_key256) text"
    and "h_nodes h = h_nodes (srv_handler t)" "\<not> amCurrentLeader h"
    and "distinct ids" "length ids = unat (h_qsize h)" "length ids \<le> MAX_NUM_SIGNATURES"
    and "\<forall>i\<in>set ids. i < sv_numNodes b \<and> nodes_find (h_nodes h) i \<noteq> None"
    and "propv rd = h_view h" "phase rd = PH1_COMMIT"
  shows "\<exists>sg. sig_list sg = map (\<lambda>i. Sign_make C (h_priv (srv_handler s)) i (rdata_toString rd)) ids \<and>
    distinct (map signer (sig_list sg)) \<and> handleCommit C snv (Msg_new rd sg) h = executeRData C snv rd h"
proof -
  obtain a where a: "parse_server_args argv = Inr a" using assms(1) by (auto simp: server_main_def bindE_Inr_iff)
  have priv: "h_priv (srv_handler s) = PEM_read_ECPrivateKey L priv_key256"
    by (rule server_main_parts [OF assms(1) a]) (simp add: server_priv_def)
  obtain ns where ns: "h_nodes (srv_handler t) = set_pubs (\<lambda>i. server_pub L KK_EC256 fs' i (fresh' i)) (sv_numNodes b) ns"
    by (rule server_main_parts [OF assms(2,3)]) blast
  let ?sign = "\<lambda>i. Sign_make C (PEM_read_ECPrivateKey L priv_key256) i (rdata_toString rd)"
  define sg where "sg = \<lparr>sg_size = h_qsize h, sg_arr = map ?sign ids @ replicate (MAX_NUM_SIGNATURES - length ids) Sign_default\<rparr>"
  have list: "sig_list sg = map ?sign ids" using assms(8) by (simp add: sg_def sig_list_def)
  have "signs_ok sg" using assms(8,9) by (simp add: sg_def signs_ok_def)
  moreover have "sig_valid C (h_nodes h) (rdata_toString rd) (?sign i)" if "i \<in> set ids" for i
    using that assms(4,5,10) ns by (auto simp: sig_valid_def set_pubs_find server_pub_def)
  ultimately have "signs_verify C (h_nodes h) sg (rdata_toString rd) = Inr True" by (auto simp: signs_verify_eq list)
  then have "handleCommit C snv (Msg_new rd sg) h = executeRData C snv rd h"
    using assms(6,11,12) by (simp add: handleCommit_def Let_def verifyJust_def Sverify_def sg_def)
  moreover have "distinct (map signer (sig_list sg))" using assms(7) by (simp add: list comp_def)
  ultimately show ?thesis using list priv by auto
qed

text \<open>The first server makes the signatures of the nodes 0, 1 and 2, and the second one executes.\<close>

theorem one_node_signs_for_all_witness:
  "\<exists>s t rd sg. server_main crypto_yes pem_digits KK_EC256 BASIC_BASELINE (\<lambda>_. 8) (\<lambda>_. None) (Some (cfg_file demo_entries)) [] (\<lambda>_. 0) (\<lambda>_. False) [[]] = Inr (Some s) \<and>
     server_main crypto_yes pem_digits KK_EC256 BASIC_BASELINE (\<lambda>_. 8) (\<lambda>_. None) (Some (cfg_file demo_entries)) [] (\<lambda>_. 0) (\<lambda>_. False) [[], [49]] = Inr (Some t) \<and>
     map signer (sig_list sg) = [0, 1, 2] \<and>
     handleCommit crypto_yes (startNewView crypto_yes) (Msg_new rd sg) (srv_handler t) = executeRData crypto_yes (startNewView crypto_yes) rd (srv_handler t)"
proof -
  obtain s t where s: "server_main crypto_yes pem_digits KK_EC256 BASIC_BASELINE (\<lambda>_. 8) (\<lambda>_. None) (Some (cfg_file demo_entries)) [] (\<lambda>_. 0) (\<lambda>_. False) [[]] = Inr (Some s)"
    and t: "server_main crypto_yes pem_digits KK_EC256 BASIC_BASELINE (\<lambda>_. 8) (\<lambda>_. None) (Some (cfg_file demo_entries)) [] (\<lambda>_. 0) (\<lambda>_. False) [[], [49]] = Inr (Some t)"
    using server_starts [OF demo_entries_ok default_args(2)] server_starts [OF demo_entries_ok second_args] by blast
  let ?h = "srv_handler t" and ?rd = "RData_new Hash_default 0 Hash_default 0 PH1_COMMIT"
  have "Nodes_file (Some (cfg_file demo_entries)) 4 [] =
      Inr (addNode (addNode (addNode [] 0 [97] 8760 9760) 1 [98] 8761 9761) 2 [99] 8762 9762)"
    unfolding Nodes_file_roundtrip [OF demo_entries_ok] by (simp add: demo_entries_def)
  with t obtain ns where h: "Handler_new crypto_yes 1 3 1 10 ns (PEM_read_ECPrivateKey pem_digits priv_key256) 10 (\<lambda>_. False) (- 1) = Inr ?h"
    and ns: "ns = set_pubs (\<lambda>_. PEM_read_EC_PUBKEY pem_digits pub_key256) 4
        (addNode (addNode (addNode [] 0 [97] 8760 9760) 1 [98] 8761 9761) 2 [99] 8762 9762)"
    by (auto simp: server_main_def second_args server_priv_def server_pub_def Let_def bindE_Inr_iff split: option.splits)
  have n: "h_nodes ?h = ns" and f: "h_view ?h = 0" "h_qsize ?h = 3" "h_total ?h = 4" "h_myid ?h = 1"
    using Handler_new_start [OF h] Handler_new_facts [OF h] by simp_all
  have "\<forall>i\<in>set [0, 1, 2]. i < sv_numNodes \<lparr>sv_myid = 1, sv_numFaults = 1, sv_constFactor = 3, sv_numViews = 10,
     sv_maxBlocksInView = 10, sv_byzantine = - 1, sv_numNodes = 4\<rparr> \<and> nodes_find (h_nodes ?h) i \<noteq> None"
    by (simp add: n ns set_pubs_find) (simp add: nodes_find_def addNode_def)
  with one_node_signs_for_all [OF s t second_args _ refl, of "[0, 1, 2]" ?rd "startNewView crypto_yes"]
  obtain sg where "sig_list sg = map (\<lambda>i. Sign_make crypto_yes (h_priv (srv_handler s)) i (rdata_toString ?rd)) [0, 1, 2]"
    "handleCommit crypto_yes (startNewView crypto_yes) (Msg_new ?rd sg) ?h = executeRData crypto_yes (startNewView crypto_yes) ?rd ?h"
    by (auto simp: f amCurrentLeader_def getCurrentLeader_def getLeaderOf_def sign_verify_def verifyText_def crypto_yes_def MAX_NUM_SIGNATURES_def)
  with s t show ?thesis by (intro exI [of _ s] exI [of _ t] exI [of _ ?rd] exI [of _ sg]) simp
qed

end
